(* ===== verification/Prelude.thy ===== *)
theory Prelude
  imports Main "HOL-Library.Word" "HOL-Library.Multiset" "HOL-Library.Sublist"
begin

text \<open>
  Shared vocabulary of the development: Go's runes and bytes, the pieces of Go's
  \<^verbatim>\<open>unicode\<close>, \<^verbatim>\<open>strings\<close> and \<^verbatim>\<open>sort\<close> packages that the modelled code calls, the two
  index loops that several routines share, and generic lemmas on lists and maps.
  Nothing here models a particular file of the repository.
\<close>

named_theorems inv_intros \<open>preservation of component invariants by single operations\<close>
named_theorems model_simps \<open>unfolding equations of small accessors and smart constructors\<close>

section \<open>Runes and bytes\<close>

text \<open>
  A Go \<^verbatim>\<open>rune\<close> is a code point (an \<^verbatim>\<open>int32\<close>); a valid UTF-8 string is the list of its
  runes, which is what \<^verbatim>\<open>[]rune(s)\<close> and \<^verbatim>\<open>range s\<close> see, and \<open>utf8\<close> gives back its bytes.
\<close>

type_synonym rune = int
type_synonym gostr = "rune list"
type_synonym byte = "8 word"
type_synonym bytes = "byte list"

definition in_ranges :: "(int \<times> int) list \<Rightarrow> rune \<Rightarrow> bool" where
  "in_ranges rs r \<longleftrightarrow> list_ex (\<lambda>(lo, hi). lo \<le> r \<and> r \<le> hi) rs"

definition is_space :: "rune \<Rightarrow> bool" where
  \<comment> \<open>\<^verbatim>\<open>unicode.IsSpace\<close>: the property White_Space\<close>
  "is_space r \<longleftrightarrow> in_ranges
     [(0x09, 0x0d), (0x20, 0x20), (0x85, 0x85), (0xa0, 0xa0), (0x1680, 0x1680),
      (0x2000, 0x200a), (0x2028, 0x2029), (0x202f, 0x202f), (0x205f, 0x205f), (0x3000, 0x3000)] r"

definition is_digit :: "rune \<Rightarrow> bool" where
  \<comment> \<open>\<^verbatim>\<open>unicode.IsDigit\<close>: the category Nd of Unicode 15.0, the tables of Go 1.24\<close>
  "is_digit r \<longleftrightarrow> in_ranges
     [(0x30, 0x39), (0x660, 0x669), (0x6f0, 0x6f9), (0x7c0, 0x7c9), (0x966, 0x96f),
      (0x9e6, 0x9ef), (0xa66, 0xa6f), (0xae6, 0xaef), (0xb66, 0xb6f), (0xbe6, 0xbef),
      (0xc66, 0xc6f), (0xce6, 0xcef), (0xd66, 0xd6f), (0xde6, 0xdef), (0xe50, 0xe59),
      (0xed0, 0xed9), (0xf20, 0xf29), (0x1040, 0x1049), (0x1090, 0x1099), (0x17e0, 0x17e9),
      (0x1810, 0x1819), (0x1946, 0x194f), (0x19d0, 0x19d9), (0x1a80, 0x1a89), (0x1a90, 0x1a99),
      (0x1b50, 0x1b59), (0x1bb0, 0x1bb9), (0x1c40, 0x1c49), (0x1c50, 0x1c59), (0xa620, 0xa629),
      (0xa8d0, 0xa8d9), (0xa900, 0xa909), (0xa9d0, 0xa9d9), (0xa9f0, 0xa9f9), (0xaa50, 0xaa59),
      (0xabf0, 0xabf9), (0xff10, 0xff19), (0x104a0, 0x104a9), (0x10d30, 0x10d39),
      (0x11066, 0x1106f), (0x110f0, 0x110f9), (0x11136, 0x1113f), (0x111d0, 0x111d9),
      (0x112f0, 0x112f9), (0x11450, 0x11459), (0x114d0, 0x114d9), (0x11650, 0x11659),
      (0x116c0, 0x116c9), (0x11730, 0x11739), (0x118e0, 0x118e9), (0x11950, 0x11959),
      (0x11c50, 0x11c59), (0x11d50, 0x11d59), (0x11da0, 0x11da9), (0x11f50, 0x11f59),
      (0x16a60, 0x16a69), (0x16ac0, 0x16ac9), (0x16b50, 0x16b59), (0x1d7ce, 0x1d7ff),
      (0x1e140, 0x1e149), (0x1e2f0, 0x1e2f9), (0x1e4f0, 0x1e4f9), (0x1e950, 0x1e959),
      (0x1fbf0, 0x1fbf9)] r"

definition ascii_digit :: "rune \<Rightarrow> bool" where
  "ascii_digit r \<longleftrightarrow> 48 \<le> r \<and> r \<le> 57"

lemma ascii_digit_is_digit: "ascii_digit r \<Longrightarrow> is_digit r"
  by (simp add: ascii_digit_def is_digit_def in_ranges_def)

definition runes :: "string \<Rightarrow> gostr" where
  \<comment> \<open>an ASCII literal as runes\<close>
  "runes s = map (\<lambda>c. int (of_char c)) s"

fun utf8_rune :: "rune \<Rightarrow> int list" where
  "utf8_rune r =
     (if r < 0x80 then [r]
      else if r < 0x800 then [0xc0 + r div 64, 0x80 + r mod 64]
      else if r < 0x10000 then [0xe0 + r div 4096, 0x80 + r div 64 mod 64, 0x80 + r mod 64]
      else [0xf0 + r div 262144, 0x80 + r div 4096 mod 64, 0x80 + r div 64 mod 64, 0x80 + r mod 64])"

definition utf8 :: "gostr \<Rightarrow> int list" where
  "utf8 s = concat (map utf8_rune s)"

section \<open>Trimming\<close>

definition trim_by :: "('a \<Rightarrow> bool) \<Rightarrow> 'a list \<Rightarrow> 'a list" where
  "trim_by p xs = rev (dropWhile p (rev (dropWhile p xs)))"

definition TrimSpace :: "gostr \<Rightarrow> gostr" where
  \<comment> \<open>\<^verbatim>\<open>strings.TrimSpace\<close>\<close>
  "TrimSpace s = trim_by is_space s"

lemma filter_dropWhile_not: "filter (\<lambda>x. \<not> p x) (dropWhile p xs) = filter (\<lambda>x. \<not> p x) xs"
  by (induction xs) auto

lemma filter_trim_by [simp]: "filter (\<lambda>x. \<not> p x) (trim_by p xs) = filter (\<lambda>x. \<not> p x) xs"
  by (simp add: trim_by_def filter_dropWhile_not flip: rev_filter)

lemma trim_by_dropWhile [simp]: "trim_by p (dropWhile p xs) = trim_by p xs"
proof -
  have "dropWhile p (dropWhile p xs) = dropWhile p xs" by (induction xs) auto
  then show ?thesis by (simp add: trim_by_def)
qed

lemma trim_by_Nil [simp]: "trim_by p [] = []"
  by (simp add: trim_by_def)

lemma trim_by_Nil_iff: "trim_by p xs = [] \<longleftrightarrow> (\<forall>x\<in>set xs. p x)"
proof -
  have "(\<forall>x\<in>set (dropWhile p xs). p x) \<longleftrightarrow> (\<forall>x\<in>set xs. p x)"
    by (induction xs) auto
  then show ?thesis by (simp add: trim_by_def)
qed

lemma last_trim_by: "trim_by p xs \<noteq> [] \<Longrightarrow> \<not> p (last (trim_by p xs))"
  by (simp add: trim_by_def last_rev hd_dropWhile)

lemma dropWhile_suffix_split: "\<exists>us. xs = us @ dropWhile p xs"
  by (metis takeWhile_dropWhile_id)

lemma dropWhile_trim_by: "\<exists>vs. dropWhile p xs = trim_by p xs @ vs"
proof -
  obtain vs where "rev (dropWhile p xs) = vs @ dropWhile p (rev (dropWhile p xs))"
    using dropWhile_suffix_split by blast
  then have "dropWhile p xs = trim_by p xs @ rev vs"
    unfolding trim_by_def by (metis rev_append rev_rev_ident)
  then show ?thesis by blast
qed

lemma trim_by_sublist: "sublist (trim_by p xs) xs"
proof -
  obtain us where us: "xs = us @ dropWhile p xs" using dropWhile_suffix_split by blast
  obtain vs where "dropWhile p xs = trim_by p xs @ vs" using dropWhile_trim_by by blast
  with us have "xs = us @ trim_by p xs @ vs" by simp
  then show ?thesis by (metis sublist_appendI)
qed

lemma hd_trim_by: "trim_by p xs \<noteq> [] \<Longrightarrow> \<not> p (hd (trim_by p xs))"
proof -
  assume ne: "trim_by p xs \<noteq> []"
  obtain vs where "dropWhile p xs = trim_by p xs @ vs" using dropWhile_trim_by by blast
  with ne have "hd (trim_by p xs) = hd (dropWhile p xs)" "dropWhile p xs \<noteq> []"
    by (auto simp del: dropWhile_eq_Nil_conv)
  then show ?thesis by (metis hd_dropWhile)
qed

lemma TrimSpace_TrimSpace [simp]: "TrimSpace (TrimSpace s) = TrimSpace s"
proof -
  have "dropWhile is_space (TrimSpace s) = TrimSpace s"
    using hd_trim_by [of is_space s] by (cases "TrimSpace s") (auto simp: TrimSpace_def)
  moreover have "dropWhile is_space (rev (TrimSpace s)) = rev (TrimSpace s)"
    using last_trim_by [of is_space s] by (cases "TrimSpace s" rule: rev_cases) (auto simp: TrimSpace_def)
  ultimately show ?thesis by (simp add: TrimSpace_def [of "TrimSpace s"] trim_by_def)
qed

section \<open>Index loops\<close>

text \<open>\<^verbatim>\<open>for i < n && p(xs[i]) { i++ }\<close> and \<^verbatim>\<open>for k > lo && p(xs[k-1]) { k-- }\<close>.\<close>

function skip_fwd :: "('a \<Rightarrow> bool) \<Rightarrow> 'a list \<Rightarrow> nat \<Rightarrow> nat \<Rightarrow> nat" where
  "skip_fwd p xs n i = (if i < n \<and> p (xs ! i) then skip_fwd p xs n (Suc i) else i)"
  by pat_completeness auto
termination
  by (relation "measure (\<lambda>(p, xs, n, i). n - i)") auto

fun skip_back :: "('a \<Rightarrow> bool) \<Rightarrow> 'a list \<Rightarrow> nat \<Rightarrow> nat \<Rightarrow> nat" where
  "skip_back p xs lo k =
     (case k of 0 \<Rightarrow> 0
      | Suc j \<Rightarrow> if lo < k \<and> p (xs ! j) then skip_back p xs lo j else k)"

declare skip_fwd.simps [simp del] skip_back.simps [simp del]

lemma skip_fwd_ge: "i \<le> skip_fwd p xs n i"
proof (induction p xs n i rule: skip_fwd.induct)
  case (1 p xs n i)
  then show ?case by (auto simp: skip_fwd.simps [of p xs n i])
qed

lemma skip_fwd_le: "i \<le> n \<Longrightarrow> skip_fwd p xs n i \<le> n"
proof (induction p xs n i rule: skip_fwd.induct)
  case (1 p xs n i)
  then show ?case by (auto simp: skip_fwd.simps [of p xs n i])
qed

lemma skip_fwd_stop: "skip_fwd p xs n i < n \<Longrightarrow> \<not> p (xs ! skip_fwd p xs n i)"
proof (induction p xs n i rule: skip_fwd.induct)
  case (1 p xs n i)
  then show ?case by (auto simp: skip_fwd.simps [of p xs n i] split: if_splits)
qed

lemma skip_fwd_dropWhile:
  "i \<le> length xs \<Longrightarrow> drop (skip_fwd p xs (length xs) i) xs = dropWhile p (drop i xs)"
proof (induction p xs "length xs" i rule: skip_fwd.induct)
  case (1 p xs i)
  show ?case
  proof (cases "i < length xs")
    case True
    then show ?thesis
      using "1" by (auto simp: skip_fwd.simps [of p xs "length xs" i] Cons_nth_drop_Suc [symmetric])
  next
    case False
    with "1.prems" show ?thesis by (subst skip_fwd.simps) simp
  qed
qed

lemma skip_back_dropWhile:
  "lo \<le> k \<Longrightarrow> k \<le> length xs \<Longrightarrow>
   skip_back p xs lo k = lo + length (dropWhile p (rev (take (k - lo) (drop lo xs))))"
proof (induction p xs lo k rule: skip_back.induct)
  case (1 p xs lo k)
  show ?case
  proof (cases "lo < k")
    case False
    with "1.prems" show ?thesis by (subst skip_back.simps) (simp split: nat.splits)
  next
    case True
    then obtain j where k: "k = Suc j" by (cases k) auto
    have split: "take (Suc j - lo) (drop lo xs) = take (j - lo) (drop lo xs) @ [xs ! j]"
      using True k "1.prems" by (simp add: Suc_diff_le take_Suc_conv_app_nth)
    have IH: "p (xs ! j) \<Longrightarrow>
        skip_back p xs lo j = lo + length (dropWhile p (rev (take (j - lo) (drop lo xs))))"
      using "1.IH" [OF k] True k "1.prems" by simp
    show ?thesis
      using IH True "1.prems" unfolding k
      by (subst skip_back.simps) (auto simp: split)
  qed
qed

section \<open>Stable sorting by priority\<close>

text \<open>
  \<^verbatim>\<open>sort.SliceStable\<close> with a comparison of integer keys is \<open>sort_key\<close>: the library's
  insertion sort is stable.
\<close>

lemma sort_key_snoc_stable:
  "filter (\<lambda>y. f y = c) (sort_key f (xs @ [x])) =
   filter (\<lambda>y. f y = c) (sort_key f xs) @ (if f x = c then [x] else [])"
  by (simp add: sort_key_stable)

section \<open>Lists\<close>

lemma sublist_trans_in: "sublist xs ys \<Longrightarrow> sublist ys zs \<Longrightarrow> sublist xs zs"
  by (rule sublist_order.order_trans)

lemma sublist_take_drop: "sublist (take n (drop m xs)) xs"
proof -
  have "sublist (take n (drop m xs)) (drop m xs)"
    by (rule prefix_imp_sublist) (rule take_is_prefix)
  moreover have "sublist (drop m xs) xs"
    by (rule suffix_imp_sublist) (rule suffix_drop)
  ultimately show ?thesis by (rule sublist_trans_in)
qed

lemma drop_split_at:
  "a \<le> b \<Longrightarrow> drop a xs = take (b - a) (drop a xs) @ drop b xs"
  by (metis append_take_drop_id drop_drop le_add_diff_inverse2)


section \<open>Counters\<close>

lemma word64_of_nat_eq_iff:
  assumes "m < 2 ^ 64" and "n < 2 ^ 64"
  shows "(word_of_nat m :: 64 word) = word_of_nat n \<longleftrightarrow> m = n"
proof
  assume "(word_of_nat m :: 64 word) = word_of_nat n"
  then have "unat (word_of_nat m :: 64 word) = unat (word_of_nat n :: 64 word)" by simp
  with assms show "m = n" by (simp add: unsigned_of_nat take_bit_nat_eq_self)
qed simp

end
