(* ===== verification/Sentences.thy ===== *)
theory Sentences
  imports Prelude
begin

text \<open>
  \<^verbatim>\<open>internal/util/sentence.go\<close>: cutting streamed model output into speakable sentences.
  Texts are rune lists, positions are \<^typ>\<open>nat\<close>; a Go result of \<^verbatim>\<open>-1\<close> is \<open>None\<close>, a
  \<^verbatim>\<open>map[rune]bool\<close> read by \<^verbatim>\<open>m[r]\<close> is its characteristic function. The object pools of
  the source only reuse memory and have no counterpart.
\<close>

section \<open>Punctuation\<close>

definition punctuationMap :: "rune \<Rightarrow> bool" where
  "punctuationMap r \<longleftrightarrow> List.member
     [0x3002, 0xff1f, 0xff01, 0xff1b, 0xff1a, 10, 46, 63, 33, 59, 58] r"

definition firstPunctuation :: "rune \<Rightarrow> bool" where
  "firstPunctuation r \<longleftrightarrow> List.member
     [0xff0c, 44, 0x3002, 0xff1f, 0xff01, 0xff1b, 0xff1a, 10, 46, 63, 33, 59, 58] r"

definition sentenceEndPunctuation :: gostr where
  "sentenceEndPunctuation = [46, 0x3002, 33, 0xff01, 63, 0xff1f, 10]"

definition sentencePausePunctuation :: gostr where
  "sentencePausePunctuation = [44, 0xff0c, 59, 0xff1b, 58, 0xff1a]"

definition IsSentenceEndPunctuation :: "rune \<Rightarrow> bool" where
  "IsSentenceEndPunctuation r \<longleftrightarrow> list_ex (\<lambda>p. r = p) sentenceEndPunctuation"

definition IsSentencePausePunctuation :: "rune \<Rightarrow> bool" where
  "IsSentencePausePunctuation r \<longleftrightarrow> list_ex (\<lambda>p. r = p) sentencePausePunctuation"

definition separatorMap :: "bool \<Rightarrow> rune \<Rightarrow> bool" where
  "separatorMap isFirst = (if isFirst then firstPunctuation else punctuationMap)"

text \<open>\<^verbatim>\<open>IsNumberWithDot\<close> works on the bytes of the trimmed string.\<close>

definition IsNumberWithDot :: "gostr \<Rightarrow> bool" where
  "IsNumberWithDot s =
     (let trimmed = utf8 (TrimSpace s)
      in if length trimmed < 2 \<or> trimmed ! (length trimmed - 1) \<noteq> 46 then False
         else list_all (\<lambda>i. is_digit (trimmed ! i)) [0 ..< length trimmed - 1])"

section \<open>ExtractCompleteSentences\<close>

text \<open>
  The loop over the runes; the \<^verbatim>\<open>break\<close> at the last index leaves the loop where it ends
  anyway.
\<close>

fun complete_loop :: "gostr \<Rightarrow> gostr list \<Rightarrow> gostr \<Rightarrow> gostr list \<times> gostr" where
  "complete_loop current sentences [] = (sentences, current)"
| "complete_loop current sentences (r # rs) =
     (let current = current @ [r]
      in if IsSentenceEndPunctuation r then
           (let sentence = TrimSpace current
            in complete_loop [] (if sentence \<noteq> [] then sentences @ [sentence] else sentences) rs)
         else complete_loop current sentences rs)"

definition ExtractCompleteSentences :: "gostr \<Rightarrow> gostr list \<times> gostr" where
  "ExtractCompleteSentences s =
     (if s = [] then ([], [])
      else case complete_loop [] [] s of (sentences, remaining) \<Rightarrow> (sentences, TrimSpace remaining))"

section \<open>Looking around a position\<close>

definition inline_blank :: "rune \<Rightarrow> bool" where
  "inline_blank r \<longleftrightarrow> r = 32 \<or> r = 9"

definition blank :: "rune \<Rightarrow> bool" where
  "blank r \<longleftrightarrow> r = 32 \<or> r = 9 \<or> r = 10"

text \<open>
  \<^verbatim>\<open>isNumberPrefix\<close> walks left from the dot; the index \<^verbatim>\<open>start\<close> of the source, which
  ends at \<^verbatim>\<open>-1\<close>, is \<open>k - 1\<close> here. \<open>None\<close> is its early \<^verbatim>\<open>return false\<close>
  on a fourth digit.
\<close>

fun count_digits_back :: "gostr \<Rightarrow> nat \<Rightarrow> nat \<Rightarrow> (nat \<times> nat) option" where
  "count_digits_back tx 0 c = Some (0, c)"
| "count_digits_back tx (Suc k) c =
     (if ascii_digit (tx ! k)
      then if c + 1 > 3 then None else count_digits_back tx k (c + 1)
      else Some (Suc k, c))"

definition isNumberPrefix :: "gostr \<Rightarrow> nat \<Rightarrow> bool" where
  "isNumberPrefix tx pos =
     (if pos = 0 \<or> tx ! pos \<noteq> 46 then False
      else case count_digits_back tx (skip_back inline_blank tx 0 pos) 0 of
          None \<Rightarrow> False
        | Some (k, c) \<Rightarrow> if 0 < k \<and> \<not> blank (tx ! (k - 1)) then False else 0 < c)"

definition trimSpaceRunes :: "gostr \<Rightarrow> gostr" where
  "trimSpaceRunes tx =
     (let start = skip_fwd blank tx (length tx) 0;
          e = skip_back blank tx start (length tx)
      in if e \<le> start then [] else take (e - start) (drop start tx))"

definition isDigitAdjacentColon :: "gostr \<Rightarrow> nat \<Rightarrow> bool" where
  "isDigitAdjacentColon tx pos =
     (if length tx \<le> pos then False
      else if tx ! pos \<noteq> 58 \<and> tx ! pos \<noteq> 0xff1a then False
      else if pos = 0 \<or> \<not> is_digit (tx ! (pos - 1)) then False
      else if pos = length tx - 1 then True
      else is_digit (tx ! (pos + 1)))"

section \<open>Split points\<close>

fun last_punctuation_below :: "(rune \<Rightarrow> bool) \<Rightarrow> gostr \<Rightarrow> nat \<Rightarrow> nat option" where
  "last_punctuation_below sep tx 0 = None"
| "last_punctuation_below sep tx (Suc i) =
     (if sep (tx ! i)
      then if tx ! i = 46 \<and> isNumberPrefix tx i then last_punctuation_below sep tx i
           else if isDigitAdjacentColon tx i then last_punctuation_below sep tx i
           else Some i
      else last_punctuation_below sep tx i)"

definition findLastPunctuation :: "gostr \<Rightarrow> (rune \<Rightarrow> bool) \<Rightarrow> nat option" where
  "findLastPunctuation tx sep = last_punctuation_below sep tx (length tx)"

text \<open>The two scans of \<^verbatim>\<open>findNextSplitPoint\<close>: within \<open>maxLen\<close>, and beyond it.\<close>

function near_scan :: "(rune \<Rightarrow> bool) \<Rightarrow> gostr \<Rightarrow> nat \<Rightarrow> nat \<Rightarrow> nat option" where
  "near_scan sep tx endPos i =
     (if i < endPos then
        if tx ! i = 10 then
          (let nextPos = skip_fwd inline_blank tx endPos (i + 1)
           in if nextPos + 2 < endPos \<and> ascii_digit (tx ! nextPos) then Some i
              else near_scan sep tx endPos (i + 1))
        else if sep (tx ! i) then
          (if isDigitAdjacentColon tx i then near_scan sep tx endPos (i + 1) else Some i)
        else near_scan sep tx endPos (i + 1)
      else None)"
  by pat_completeness auto
termination
  by (relation "measure (\<lambda>(sep, tx, endPos, i). endPos - i)") auto

function far_scan :: "(rune \<Rightarrow> bool) \<Rightarrow> gostr \<Rightarrow> nat \<Rightarrow> nat option" where
  "far_scan sep tx i =
     (if i < length tx then
        if tx ! i = 10 then Some i
        else if sep (tx ! i) then
          (if isDigitAdjacentColon tx i then far_scan sep tx (i + 1) else Some i)
        else far_scan sep tx (i + 1)
      else None)"
  by pat_completeness auto
termination
  by (relation "measure (\<lambda>(sep, tx, i). length tx - i)") auto

declare near_scan.simps [simp del] far_scan.simps [simp del]

definition findNextSplitPoint :: "gostr \<Rightarrow> nat \<Rightarrow> nat \<Rightarrow> (rune \<Rightarrow> bool) \<Rightarrow> nat option" where
  "findNextSplitPoint tx startPos maxLen sep =
     (let endPos = min (startPos + maxLen) (length tx)
      in case near_scan sep tx endPos startPos of
           Some i \<Rightarrow> Some i
         | None \<Rightarrow> if endPos < length tx then far_scan sep tx endPos else None)"

lemma near_scan_bounds: "near_scan sep tx endPos i = Some j \<Longrightarrow> i \<le> j \<and> j < endPos"
proof (induction sep tx endPos i rule: near_scan.induct)
  case (1 sep tx endPos i)
  then show ?case
    by (auto simp: near_scan.simps [of sep tx endPos i] Let_def split: if_splits)
qed

lemma far_scan_bounds: "far_scan sep tx i = Some j \<Longrightarrow> i \<le> j \<and> j < length tx"
proof (induction sep tx i rule: far_scan.induct)
  case (1 sep tx i)
  then show ?case by (auto simp: far_scan.simps [of sep tx i] split: if_splits)
qed

lemma findNextSplitPoint_bounds:
  assumes "startPos \<le> length tx" and "findNextSplitPoint tx startPos maxLen sep = Some j"
  shows "startPos \<le> j \<and> j < length tx"
proof (cases "near_scan sep tx (min (startPos + maxLen) (length tx)) startPos")
  case None
  then show ?thesis
    using assms far_scan_bounds [of sep tx "min (startPos + maxLen) (length tx)" j]
    by (auto simp: findNextSplitPoint_def Let_def split: if_splits)
next
  case (Some i)
  then show ?thesis
    using assms near_scan_bounds [OF Some] by (auto simp: findNextSplitPoint_def Let_def)
qed

section \<open>ExtractSmartSentences\<close>

function smart_loop ::
    "(rune \<Rightarrow> bool) \<Rightarrow> nat \<Rightarrow> nat \<Rightarrow> gostr \<Rightarrow> nat \<Rightarrow> gostr list \<Rightarrow> gostr \<Rightarrow> gostr list \<times> gostr" where
  "smart_loop sep minLen maxLen tx startPos sentences remaining =
     (if startPos < length tx then
        (let start = skip_fwd blank tx (length tx) startPos
         in if length tx \<le> start then (sentences, remaining)
            else case findNextSplitPoint tx start maxLen sep of
                None \<Rightarrow>
                  (let segment = trimSpaceRunes (drop start tx)
                   in (sentences, if segment \<noteq> [] then segment else remaining))
              | Some splitPos \<Rightarrow>
                  (let segment = trimSpaceRunes (take (splitPos + 1 - start) (drop start tx))
                   in if minLen \<le> length segment \<and> sep (segment ! (length segment - 1))
                      then smart_loop sep minLen maxLen tx (splitPos + 1)
                             (sentences @ [segment]) remaining
                      else smart_loop sep minLen maxLen tx (splitPos + 1) sentences
                             (if segment \<noteq> []
                              then (if remaining \<noteq> [] then remaining @ [32] else remaining) @ segment
                              else remaining)))
      else (sentences, remaining))"
  by pat_completeness auto
termination
proof (relation "measure (\<lambda>(sep, minLen, maxLen, tx, startPos, _). length tx - startPos)",
    goal_cases)
  case 1
  then show ?case by simp
next
  case (2 sep minLen maxLen tx startPos sentences remaining start splitPos segment)
  then have "startPos \<le> splitPos"
    using findNextSplitPoint_bounds [of start tx maxLen sep splitPos]
      skip_fwd_ge [of startPos blank tx "length tx"] by simp
  with 2 show ?case by simp
next
  case (3 sep minLen maxLen tx startPos sentences remaining start splitPos segment)
  then have "startPos \<le> splitPos"
    using findNextSplitPoint_bounds [of start tx maxLen sep splitPos]
      skip_fwd_ge [of startPos blank tx "length tx"] by simp
  with 3 show ?case by simp
qed

declare smart_loop.simps [simp del]

definition ExtractSmartSentences :: "gostr \<Rightarrow> nat \<Rightarrow> nat \<Rightarrow> bool \<Rightarrow> gostr list \<times> gostr" where
  "ExtractSmartSentences tx minLen maxLen isFirst =
     smart_loop (separatorMap isFirst) minLen maxLen tx 0 [] []"

definition ContainsSentenceSeparator :: "gostr \<Rightarrow> bool \<Rightarrow> bool" where
  "ContainsSentenceSeparator s isFirst =
     list_ex (\<lambda>i. separatorMap isFirst (s ! i) \<and> \<not> isDigitAdjacentColon s i) [0 ..< length s]"

section \<open>Lemmas\<close>

lemma trimSpaceRunes_eq: "trimSpaceRunes tx = trim_by blank tx"
proof -
  let ?start = "skip_fwd blank tx (length tx) 0"
  have start: "drop ?start tx = dropWhile blank tx"
    using skip_fwd_dropWhile [of 0 tx blank] by simp
  have le: "?start \<le> length tx" by (rule skip_fwd_le) simp
  have len: "length (dropWhile blank tx) = length tx - ?start" by (simp flip: start)
  have e: "skip_back blank tx ?start (length tx) = ?start + length (trim_by blank tx)"
    using skip_back_dropWhile [of ?start "length tx" tx blank] le start len
    by (simp add: trim_by_def)
  obtain vs where "dropWhile blank tx = trim_by blank tx @ vs"
    using dropWhile_trim_by by blast
  then show ?thesis
    by (simp add: trimSpaceRunes_def Let_def e start)
qed

text \<open>A strong separator is one that both scans stop at unconditionally.\<close>

definition strong_sep :: "(rune \<Rightarrow> bool) \<Rightarrow> gostr \<Rightarrow> nat \<Rightarrow> bool" where
  "strong_sep sep tx i \<longleftrightarrow> sep (tx ! i) \<and> tx ! i \<noteq> 10 \<and> \<not> isDigitAdjacentColon tx i"

lemma near_scan_sound: "near_scan sep tx endPos i = Some j \<Longrightarrow> tx ! j = 10 \<or> strong_sep sep tx j"
proof (induction sep tx endPos i rule: near_scan.induct)
  case (1 sep tx endPos i)
  then show ?case
    by (auto simp: near_scan.simps [of sep tx endPos i] Let_def strong_sep_def split: if_splits)
qed

lemma near_scan_first:
  "near_scan sep tx endPos i = Some j \<Longrightarrow> i \<le> k \<Longrightarrow> k < j \<Longrightarrow> \<not> strong_sep sep tx k"
proof (induction sep tx endPos i rule: near_scan.induct)
  case (1 sep tx endPos i)
  then show ?case
    using le_eq_less_or_eq [of i k]
    by (auto simp: near_scan.simps [of sep tx endPos i] Let_def strong_sep_def split: if_splits)
qed

lemma near_scan_None:
  "near_scan sep tx endPos i = None \<Longrightarrow> i \<le> k \<Longrightarrow> k < endPos \<Longrightarrow> \<not> strong_sep sep tx k"
proof (induction sep tx endPos i rule: near_scan.induct)
  case (1 sep tx endPos i)
  then show ?case
    using le_eq_less_or_eq [of i k]
    by (auto simp: near_scan.simps [of sep tx endPos i] Let_def strong_sep_def split: if_splits)
qed

lemma far_scan_sound: "far_scan sep tx i = Some j \<Longrightarrow> tx ! j = 10 \<or> strong_sep sep tx j"
proof (induction sep tx i rule: far_scan.induct)
  case (1 sep tx i)
  then show ?case by (auto simp: far_scan.simps [of sep tx i] strong_sep_def split: if_splits)
qed

lemma far_scan_first:
  "far_scan sep tx i = Some j \<Longrightarrow> i \<le> k \<Longrightarrow> k < j \<Longrightarrow> \<not> strong_sep sep tx k"
proof (induction sep tx i rule: far_scan.induct)
  case (1 sep tx i)
  then show ?case
    using le_eq_less_or_eq [of i k]
    by (auto simp: far_scan.simps [of sep tx i] strong_sep_def split: if_splits)
qed

lemma far_scan_None:
  "far_scan sep tx i = None \<Longrightarrow> i \<le> k \<Longrightarrow> k < length tx \<Longrightarrow> \<not> strong_sep sep tx k"
proof (induction sep tx i rule: far_scan.induct)
  case (1 sep tx i)
  then show ?case
    using le_eq_less_or_eq [of i k]
    by (auto simp: far_scan.simps [of sep tx i] strong_sep_def split: if_splits)
qed

lemma findNextSplitPoint_Some:
  assumes "startPos \<le> length tx" and "findNextSplitPoint tx startPos maxLen sep = Some j"
  shows "tx ! j = 10 \<or> strong_sep sep tx j"
    and "startPos \<le> k \<Longrightarrow> k < j \<Longrightarrow> \<not> strong_sep sep tx k"
proof -
  let ?e = "min (startPos + maxLen) (length tx)"
  consider (near) "near_scan sep tx ?e startPos = Some j"
    | (far) "near_scan sep tx ?e startPos = None" "far_scan sep tx ?e = Some j"
    using assms(2) by (auto simp: findNextSplitPoint_def Let_def split: option.splits if_splits)
  then have "(tx ! j = 10 \<or> strong_sep sep tx j)
      \<and> (startPos \<le> k \<longrightarrow> k < j \<longrightarrow> \<not> strong_sep sep tx k)"
  proof cases
    case near
    then show ?thesis using near_scan_sound near_scan_first by blast
  next
    case far
    then show ?thesis
      using far_scan_sound [OF far(2)] far_scan_first [OF far(2), of k]
        near_scan_None [OF far(1), of k] by (meson not_le)
  qed
  then show "tx ! j = 10 \<or> strong_sep sep tx j"
    and "startPos \<le> k \<Longrightarrow> k < j \<Longrightarrow> \<not> strong_sep sep tx k" by blast+
qed

lemma findNextSplitPoint_None:
  assumes "findNextSplitPoint tx startPos maxLen sep = None"
    and "startPos \<le> k" and "k < length tx"
  shows "\<not> strong_sep sep tx k"
proof -
  let ?e = "min (startPos + maxLen) (length tx)"
  from assms(1) have near: "near_scan sep tx ?e startPos = None"
    and far: "?e < length tx \<Longrightarrow> far_scan sep tx ?e = None"
    by (auto simp: findNextSplitPoint_def Let_def split: option.splits if_splits)
  show ?thesis
  proof (cases "k < ?e")
    case True
    with near assms(2) show ?thesis by (rule near_scan_None)
  next
    case False
    with assms(3) have "?e < length tx" and "?e \<le> k" by linarith+
    with far assms(3) show ?thesis using far_scan_None by blast
  qed
qed

section \<open>A rule for the segmenting loop\<close>

text \<open>
  What holds of the loop's accumulators is proved once for its three exits and two ways
  round: \<open>emit\<close> a sentence, \<open>keep\<close> a short segment, stop because there is \<open>none\<close> left to
  split, or because everything is \<open>consumed\<close>. A segment always starts with a non-blank
  rune, so it is never empty.
\<close>

definition join_remaining :: "gostr \<Rightarrow> gostr \<Rightarrow> gostr" where
  "join_remaining remaining segment = (if remaining \<noteq> [] then remaining @ [32] else remaining) @ segment"

lemma segment_ne:
  assumes "s < length tx" and "\<not> blank (tx ! s)" and "s \<le> q"
  shows "trim_by blank (take (q + 1 - s) (drop s tx)) \<noteq> []"
proof -
  have "take (q + 1 - s) (drop s tx) = tx ! s # take (q - s) (drop (Suc s) tx)"
    using assms by (simp add: Suc_diff_le flip: Cons_nth_drop_Suc)
  with assms(2) show ?thesis by (simp add: trim_by_Nil_iff)
qed

lemma smart_loop_rule:
  fixes tx :: gostr
  defines "st \<equiv> skip_fwd blank tx (length tx)"
  assumes init: "I startPos S0 R0"
    and emit: "\<And>p q S R seg. I p S R \<Longrightarrow> st p \<le> q \<Longrightarrow> q < length tx \<Longrightarrow> p \<le> st p \<Longrightarrow>
      findNextSplitPoint tx (st p) maxLen sep = Some q \<Longrightarrow>
      seg = trim_by blank (take (q + 1 - st p) (drop (st p) tx)) \<Longrightarrow> seg \<noteq> [] \<Longrightarrow>
      minLen \<le> length seg \<Longrightarrow> sep (last seg) \<Longrightarrow> I (q + 1) (S @ [seg]) R"
    and keep: "\<And>p q S R seg. I p S R \<Longrightarrow> st p \<le> q \<Longrightarrow> q < length tx \<Longrightarrow> p \<le> st p \<Longrightarrow>
      findNextSplitPoint tx (st p) maxLen sep = Some q \<Longrightarrow>
      seg = trim_by blank (take (q + 1 - st p) (drop (st p) tx)) \<Longrightarrow> seg \<noteq> [] \<Longrightarrow>
      \<not> (minLen \<le> length seg \<and> sep (last seg)) \<Longrightarrow> I (q + 1) S (join_remaining R seg)"
    and tail: "\<And>p S R. I p S R \<Longrightarrow> st p < length tx \<Longrightarrow> p \<le> st p \<Longrightarrow>
      findNextSplitPoint tx (st p) maxLen sep = None \<Longrightarrow> Q S (trim_by blank (drop (st p) tx))"
    and consumed: "\<And>p S R. I p S R \<Longrightarrow> length tx \<le> st p \<Longrightarrow> Q S R"
  shows "Q (fst (smart_loop sep minLen maxLen tx startPos S0 R0))
           (snd (smart_loop sep minLen maxLen tx startPos S0 R0))"
  using init
proof (induction "length tx - startPos" arbitrary: startPos S0 R0 rule: less_induct)
  case less
  note IH = less.hyps and I = less.prems
  have ge: "startPos \<le> st startPos" by (simp add: st_def skip_fwd_ge)
  consider (out) "length tx \<le> st startPos"
    | (none) "st startPos < length tx" "findNextSplitPoint tx (st startPos) maxLen sep = None"
    | (split) q where "st startPos < length tx" "findNextSplitPoint tx (st startPos) maxLen sep = Some q"
    by (meson not_le option.exhaust)
  then show ?case
  proof cases
    case out
    then have "smart_loop sep minLen maxLen tx startPos S0 R0 = (S0, R0)"
      by (subst smart_loop.simps) (simp add: st_def)
    with consumed [OF I out] show ?thesis by simp
  next
    case none
    have "\<not> blank (tx ! st startPos)" using none(1) unfolding st_def by (rule skip_fwd_stop)
    then have "trim_by blank (drop (st startPos) tx) \<noteq> []"
      using none(1) by (simp add: trim_by_Nil_iff flip: Cons_nth_drop_Suc)
    with none ge have "smart_loop sep minLen maxLen tx startPos S0 R0
        = (S0, trim_by blank (drop (st startPos) tx))"
      by (subst smart_loop.simps) (simp add: st_def trimSpaceRunes_eq)
    with tail [OF I none(1) ge none(2)] show ?thesis by simp
  next
    case split
    define seg where "seg = trim_by blank (take (q + 1 - st startPos) (drop (st startPos) tx))"
    have q: "st startPos \<le> q" "q < length tx"
      using findNextSplitPoint_bounds [of "st startPos" tx maxLen sep q] split by auto
    have "\<not> blank (tx ! st startPos)" using split(1) unfolding st_def by (rule skip_fwd_stop)
    then have ne: "seg \<noteq> []" unfolding seg_def using split(1) q(1) by (intro segment_ne)
    have seg': "trim_by blank (take (Suc q - st startPos) (drop (st startPos) tx)) = seg"
      by (simp add: seg_def)
    have unf: "smart_loop sep minLen maxLen tx startPos S0 R0 =
        (if minLen \<le> length seg \<and> sep (last seg)
         then smart_loop sep minLen maxLen tx (q + 1) (S0 @ [seg]) R0
         else smart_loop sep minLen maxLen tx (q + 1) S0 (join_remaining R0 seg))"
      using split ne ge
      by (subst smart_loop.simps)
        (simp add: trimSpaceRunes_eq join_remaining_def Let_def last_conv_nth seg' flip: st_def)
    have dec: "length tx - (q + 1) < length tx - startPos" using q ge by linarith
    show ?thesis
    proof (cases "minLen \<le> length seg \<and> sep (last seg)")
      case True
      with emit [OF I q ge split(2) seg_def ne] IH [OF dec] unf show ?thesis by simp
    next
      case False
      with keep [OF I q ge split(2) seg_def ne False] IH [OF dec] unf show ?thesis by simp
    qed
  qed
qed

section \<open>Properties\<close>

definition nonblank :: "gostr \<Rightarrow> gostr" where
  "nonblank xs = filter (\<lambda>x. \<not> blank x) xs"

lemma nonblank_simps [simp]:
  "nonblank [] = []"
  "nonblank (xs @ ys) = nonblank xs @ nonblank ys"
  "nonblank (trim_by blank xs) = nonblank xs"
  by (simp_all add: nonblank_def)

lemma nonblank_join [simp]: "nonblank (join_remaining R seg) = nonblank R @ nonblank seg"
  by (simp add: join_remaining_def nonblank_def blank_def)

lemma nonblank_drop_skip:
  "p \<le> length tx \<Longrightarrow> nonblank (drop (skip_fwd blank tx (length tx) p) tx) = nonblank (drop p tx)"
  by (simp add: skip_fwd_dropWhile nonblank_def filter_dropWhile_not)

lemma nonblank_cut:
  assumes "s \<le> q"
  shows "mset (nonblank (drop s tx)) =
    mset (nonblank (take (q + 1 - s) (drop s tx))) + mset (nonblank (drop (q + 1) tx))"
  using drop_split_at [of s "q + 1" tx] assms
  by (metis add.commute le_SucI mset_append nonblank_simps(2) plus_1_eq_Suc)

text \<open>The runes of the accumulators and of the text not yet read: the loop's invariant.\<close>

definition balanced :: "gostr \<Rightarrow> nat \<Rightarrow> gostr list \<Rightarrow> gostr \<Rightarrow> bool" where
  "balanced tx p S R \<longleftrightarrow> p \<le> length tx \<and>
     mset (nonblank (concat S)) + mset (nonblank R) + mset (nonblank (drop p tx)) = mset (nonblank tx)"

lemma balanced_step:
  assumes "balanced tx p S R" and "s = skip_fwd blank tx (length tx) p" and "s \<le> q" and "q < length tx"
    and "seg = trim_by blank (take (q + 1 - s) (drop s tx))"
  shows "balanced tx (q + 1) (S @ [seg]) R" and "balanced tx (q + 1) S (join_remaining R seg)"
proof -
  have "mset (nonblank (drop p tx)) = mset (nonblank seg) + mset (nonblank (drop (q + 1) tx))"
    using assms nonblank_drop_skip [of p tx] nonblank_cut [of s q tx] by (simp add: balanced_def)
  then show "balanced tx (q + 1) (S @ [seg]) R" "balanced tx (q + 1) S (join_remaining R seg)"
    using assms by (simp_all add: balanced_def ac_simps)
qed

lemma balanced_consumed:
  assumes "balanced tx p S R" and "length tx \<le> skip_fwd blank tx (length tx) p"
  shows "mset (nonblank (concat S)) + mset (nonblank R) = mset (nonblank tx)"
  using assms nonblank_drop_skip [of p tx] by (simp add: balanced_def)

lemma balanced_tail:
  assumes "balanced tx p S R"
  shows "mset (nonblank (concat S)) +
    mset (nonblank (trim_by blank (drop (skip_fwd blank tx (length tx) p) tx))) \<subseteq># mset (nonblank tx)"
proof -
  have "mset (nonblank (concat S)) + mset (nonblank (drop p tx)) \<subseteq>#
      mset (nonblank (concat S)) + mset (nonblank R) + mset (nonblank (drop p tx))" by simp
  with assms show ?thesis
    using nonblank_drop_skip [of p tx] by (simp add: balanced_def)
qed



text \<open>Fact: every sentence that \<^verbatim>\<open>ExtractSmartSentences\<close> returns is a contiguous piece of the
  text, is not empty, has the minimal length, starts with a non-blank rune and ends with a
  separator; so the index \<^verbatim>\<open>len(segment)-1\<close> is never out of range.\<close>

theorem smart_sentences_wf:
  assumes "sentence \<in> set (fst (ExtractSmartSentences tx minLen maxLen isFirst))"
  shows "sublist sentence tx \<and> sentence \<noteq> [] \<and> minLen \<le> length sentence
    \<and> \<not> blank (hd sentence) \<and> separatorMap isFirst (last sentence)"
proof -
  let ?wf = "\<lambda>s. sublist s tx \<and> s \<noteq> [] \<and> minLen \<le> length s \<and> \<not> blank (hd s)
    \<and> separatorMap isFirst (last s)"
  have "\<forall>s\<in>set (fst (smart_loop (separatorMap isFirst) minLen maxLen tx 0 [] [])). ?wf s"
  proof (rule smart_loop_rule [where I = "\<lambda>p S R. \<forall>s\<in>set S. ?wf s"
        and Q = "\<lambda>S R. \<forall>s\<in>set S. ?wf s"], goal_cases)
    case (2 p q S R seg)
    then show ?case
      using sublist_trans_in [OF trim_by_sublist sublist_take_drop] by (auto simp: hd_trim_by)
  qed auto
  with assms show ?thesis by (simp add: ExtractSmartSentences_def)
qed

theorem smart_sentences_wf_witness:
  "sublist (runes ''Hello,'') (runes ''Hello, world'') \<and> firstPunctuation (last (runes ''Hello,''))"
proof -
  have "runes ''Hello,'' \<in> set (fst (ExtractSmartSentences (runes ''Hello, world'') 2 100 True))"
    by code_simp
  from smart_sentences_wf [OF this] show ?thesis by (simp add: separatorMap_def)
qed

text \<open>C32: segmentation of a text that ends in a separator (not a newline, not a colon inside a
  time) loses nothing: the sentences and the remainder together hold exactly the non-blank runes of
  the text. Of any other text they never hold more than that.\<close>

theorem smart_sentences_conserve:
  "case ExtractSmartSentences tx minLen maxLen isFirst of (S, R) \<Rightarrow>
     mset (nonblank (concat S)) + mset (nonblank R) \<subseteq># mset (nonblank tx)
     \<and> (tx \<noteq> [] \<and> strong_sep (separatorMap isFirst) tx (length tx - 1) \<longrightarrow>
        mset (nonblank (concat S)) + mset (nonblank R) = mset (nonblank tx))"
proof -
  let ?m = "\<lambda>S R. mset (nonblank (concat S)) + mset (nonblank R)"
  let ?strong = "tx \<noteq> [] \<and> strong_sep (separatorMap isFirst) tx (length tx - 1)"
  have "(\<lambda>S R. ?m S R \<subseteq># mset (nonblank tx) \<and> (?strong \<longrightarrow> ?m S R = mset (nonblank tx)))
      (fst (smart_loop (separatorMap isFirst) minLen maxLen tx 0 [] []))
      (snd (smart_loop (separatorMap isFirst) minLen maxLen tx 0 [] []))"
  proof (rule smart_loop_rule [where I = "balanced tx"], goal_cases)
    case 1
    show ?case by (simp add: balanced_def)
  next
    case (2 p q S R seg)
    then show ?case using balanced_step(1) by blast
  next
    case (3 p q S R seg)
    then show ?case using balanced_step(2) by blast
  next
    case (4 p S R)
    have "\<not> ?strong"
      using findNextSplitPoint_None [OF 4(4), of "length tx - 1"] 4(2) by auto
    with balanced_tail [OF 4(1)] show ?case by blast
  next
    case (5 p S R)
    with balanced_consumed [OF 5] show ?case by simp
  qed
  then show ?thesis by (simp add: ExtractSmartSentences_def case_prod_unfold)
qed

theorem smart_sentences_conserve_witness:
  "mset (nonblank (concat (fst (ExtractSmartSentences (runes ''a. bc. d!'') 2 100 False)))) +
   mset (nonblank (snd (ExtractSmartSentences (runes ''a. bc. d!'') 2 100 False))) =
   mset (nonblank (runes ''a. bc. d!''))"
proof -
  have "strong_sep (separatorMap False) (runes ''a. bc. d!'') (length (runes ''a. bc. d!'') - 1)"
    by code_simp
  moreover have "runes ''a. bc. d!'' \<noteq> []" by (simp add: runes_def)
  ultimately show ?thesis
    using smart_sentences_conserve
      [where tx = "runes ''a. bc. d!''" and minLen = 2 and maxLen = 100 and isFirst = False]
    by (simp add: case_prod_unfold)
qed

text \<open>Fact: of a text with an unfinished tail, segments that were set aside because they do not end
  in a separator or are too short are lost: the heading before a numbered list is in neither the
  sentences nor the remainder.\<close>

theorem smart_sentences_drop_heading:
  "ExtractSmartSentences (runes ''Items'' @ [10] @ runes ''1. milk'') 2 100 False =
     ([runes ''1.''], runes ''milk'')"
  by code_simp

text \<open>Fact: when \<^verbatim>\<open>ContainsSentenceSeparator\<close> rejects a text, \<^verbatim>\<open>ExtractSmartSentences\<close> in the
  same mode finds no sentence in it and its remainder is the trimmed text, so a caller may skip
  the extraction.\<close>

theorem no_separator_no_sentences:
  assumes "\<not> ContainsSentenceSeparator tx isFirst"
  shows "ExtractSmartSentences tx minLen maxLen isFirst = ([], trim_by blank tx)"
proof -
  let ?sep = "separatorMap isFirst"
  have nl: "?sep 10" by (simp add: separatorMap_def firstPunctuation_def punctuationMap_def)
  have no: "\<not> (?sep (tx ! i) \<and> \<not> isDigitAdjacentColon tx i)" if "i < length tx" for i
    using assms that by (auto simp: ContainsSentenceSeparator_def list_ex_iff)
  have none: "findNextSplitPoint tx s maxLen ?sep = None" if "s \<le> length tx" for s
  proof (rule ccontr)
    assume "findNextSplitPoint tx s maxLen ?sep \<noteq> None"
    then obtain j where j: "findNextSplitPoint tx s maxLen ?sep = Some j" by auto
    have "j < length tx" using findNextSplitPoint_bounds [OF that j] by simp
    with no [of j] findNextSplitPoint_Some(1) [OF that j] nl show False
      by (auto simp: strong_sep_def isDigitAdjacentColon_def split: if_splits)
  qed
  let ?st = "skip_fwd blank tx (length tx) 0"
  have le: "?st \<le> length tx" by (rule skip_fwd_le) simp
  have drop: "drop ?st tx = dropWhile blank tx" using skip_fwd_dropWhile [of 0 tx blank] by simp
  show ?thesis
  proof (cases "?st < length tx")
    case True
    have "\<not> blank (tx ! ?st)" using True by (rule skip_fwd_stop)
    then have "trim_by blank (drop ?st tx) \<noteq> []"
      using True by (simp add: trim_by_Nil_iff flip: Cons_nth_drop_Suc)
    with True none [OF le] show ?thesis
      unfolding ExtractSmartSentences_def
      by (subst smart_loop.simps) (simp add: trimSpaceRunes_eq drop)
  next
    case False
    with drop have "trim_by blank tx = []" by (simp add: trim_by_def)
    with False show ?thesis
      unfolding ExtractSmartSentences_def by (subst smart_loop.simps) simp
  qed
qed

theorem no_separator_no_sentences_witness:
  "ExtractSmartSentences (runes '' now 02:37 '') 2 100 False = ([], trim_by blank (runes '' now 02:37 ''))"
proof -
  have "\<not> ContainsSentenceSeparator (runes '' now 02:37 '') False" by code_simp
  then show ?thesis by (rule no_separator_no_sentences)
qed

text \<open>Fact: \<^verbatim>\<open>ExtractCompleteSentences\<close> keeps every non-white-space rune, in order: its sentences
  and its remainder, concatenated, are the text without white space; and no sentence is empty.\<close>

theorem complete_sentences_conserve:
  "filter (\<lambda>r. \<not> is_space r)
     (concat (fst (ExtractCompleteSentences tx)) @ snd (ExtractCompleteSentences tx)) =
   filter (\<lambda>r. \<not> is_space r) tx
   \<and> [] \<notin> set (fst (ExtractCompleteSentences tx))"
proof -
  have loop: "filter (\<lambda>r. \<not> is_space r) (concat S' @ R') =
      filter (\<lambda>r. \<not> is_space r) (concat S @ cur @ xs) \<and> ([] \<notin> set S \<longrightarrow> [] \<notin> set S')"
    if "complete_loop cur S xs = (S', R')" for cur S xs S' R'
    using that
  proof (induction cur S xs arbitrary: S' R' rule: complete_loop.induct)
    case (2 current sentences r rs)
    show ?case
    proof (cases "IsSentenceEndPunctuation r")
      case True
      have "filter (\<lambda>r. \<not> is_space r) (TrimSpace (current @ [r])) =
          filter (\<lambda>r. \<not> is_space r) (current @ [r])"
        unfolding TrimSpace_def by (rule filter_trim_by)
      with "2.IH"(1) [OF refl True refl] "2.prems" True show ?thesis
        by (auto simp: Let_def split: if_splits)
    next
      case False
      with "2.IH"(2) [OF refl False] "2.prems" show ?thesis by (simp add: Let_def)
    qed
  qed simp
  show ?thesis
  proof (cases "complete_loop [] [] tx")
    case (Pair S R)
    have "filter (\<lambda>r. \<not> is_space r) (TrimSpace R) = filter (\<lambda>r. \<not> is_space r) R"
      unfolding TrimSpace_def by (rule filter_trim_by)
    with loop [OF Pair] Pair show ?thesis by (simp add: ExtractCompleteSentences_def)
  qed
qed

end
