(* ===== verification/Priority_Registry.thy ===== *)
theory Priority_Registry
  imports Prelude
begin

text \<open>
  The contract that the hook hub and the transformer registry share: adding an entry keeps the
  entries sorted by priority, keeps all of them, and puts the new one after those of its own
  priority. Its consequence for a sequence of registrations is proved once, for any provider.
\<close>

locale priority_registration =
  fixes prio :: "'a \<Rightarrow> int"
    and add :: "'a list \<Rightarrow> 'a \<Rightarrow> 'a list"
  assumes add_sorted: "sorted (map prio (add xs x))"
    and add_mset: "mset (add xs x) = mset xs + {#x#}"
    and add_stable: "filter (\<lambda>y. prio y = c) (add xs x) =
      filter (\<lambda>y. prio y = c) xs @ (if prio x = c then [x] else [])"
begin

definition add_all :: "'a list \<Rightarrow> 'a list" where
  "add_all xs = foldl add [] xs"

lemma add_all_snoc: "add_all (xs @ [x]) = add (add_all xs) x"
  by (simp add: add_all_def)

lemma add_all_sorted: "sorted (map prio (add_all xs))"
  by (cases xs rule: rev_cases) (simp_all add: add_all_snoc add_sorted, simp add: add_all_def)

lemma add_all_mset: "mset (add_all xs) = mset xs"
proof (induction xs rule: rev_induct)
  case Nil
  show ?case by (simp add: add_all_def)
qed (simp add: add_all_snoc add_mset)

lemma add_all_order: "filter (\<lambda>y. prio y = c) (add_all xs) = filter (\<lambda>y. prio y = c) xs"
proof (induction xs rule: rev_induct)
  case Nil
  show ?case by (simp add: add_all_def)
qed (simp add: add_all_snoc add_stable)

text \<open>So the table depends only on the priorities and, among equals, on the order of
  registration.\<close>

lemma add_all_eq: "add_all xs = sort_key prio xs"
proof (rule sym, rule properties_for_sort_key)
  show "mset (add_all xs) = mset xs" by (rule add_all_mset)
  show "filter (\<lambda>x. prio k = prio x) (add_all xs) = filter (\<lambda>x. prio k = prio x) xs" for k
    using add_all_order [of "prio k" xs] by (simp add: eq_commute)
  show "sorted (map prio (add_all xs))" by (rule add_all_sorted)
qed

end

text \<open>The provider's side: appending and a stable sort fulfil the contract.\<close>

lemma stable_insert_registration: "priority_registration f (\<lambda>xs x. sort_key f (xs @ [x]))"
  by unfold_locales (simp_all add: sort_key_snoc_stable sort_key_stable)

end
