(* ===== verification/Stream_Transform.thy ===== *)
theory Stream_Transform
  imports Priority_Registry
begin

text \<open>
  \<^verbatim>\<open>internal/domain/chat/streamtransform\<close>: the registry of transformer factories and the
  pipeline that a model's output stream runs through. A transformer is an interface value with
  state: a state and its two methods as functions on that state. Tool calls (\<^verbatim>\<open>schema.ToolCall\<close>
  of the eino package), the metadata map, the context and the errors of transformers are types
  that this code only passes on, so they are type variables.
\<close>

datatype item_kind = TextDelta | TextSegment | ToolCallsKind | OtherKind string

record ('tc, 'm) item =
  Kind :: item_kind
  Text :: gostr
  ToolCalls :: "'tc list"
  IsEnd :: bool
  Meta :: 'm

record ('tc, 'm) result =
  Items :: "('tc, 'm) item list"
  Stop :: bool

type_synonym ('s, 'tc, 'm, 'e) transform_fn = "'s \<Rightarrow> ('tc, 'm) item \<Rightarrow> 's \<times> ('e + ('tc, 'm) result)"

record ('s, 'tc, 'm, 'e) transformer =
  tstate :: 's
  Transform :: "('s, 'tc, 'm, 'e) transform_fn"
  Close :: "'s \<Rightarrow> 's \<times> 'e option"

datatype 'e pipe_error =
    OpenFailed string 'e
  | TransformFailed string 'e
  | CloseFailed string 'e
  | NilTransformer \<comment> \<open>the panic of a method call on a nil interface\<close>

record ('c, 's, 'tc, 'm, 'e) factory =
  Name :: string
  Priority :: int
  New :: "'c \<Rightarrow> 'e + ('s, 'tc, 'm, 'e) transformer option"

record ('s, 'tc, 'm, 'e) named_transformer =
  nt_name :: string
  nt_transformer :: "('s, 'tc, 'm, 'e) transformer option"

type_synonym ('s, 'tc, 'm, 'e) pipeline = "('s, 'tc, 'm, 'e) named_transformer list"

section \<open>The registry\<close>

text \<open>A nil registry and a nil factory are \<open>None\<close>; \<^verbatim>\<open>sort.SliceStable\<close> is \<open>sort_key\<close>.\<close>

definition Register ::
    "('c, 's, 'tc, 'm, 'e) factory list option \<Rightarrow> ('c, 's, 'tc, 'm, 'e) factory option \<Rightarrow>
     ('c, 's, 'tc, 'm, 'e) factory list option" where
  "Register r f =
     (case (r, f) of
        (Some factories, Some factory) \<Rightarrow> Some (sort_key Priority (factories @ [factory]))
      | _ \<Rightarrow> r)"

fun open_steps ::
    "'c \<Rightarrow> ('c, 's, 'tc, 'm, 'e) factory list \<Rightarrow> 'e pipe_error + ('s, 'tc, 'm, 'e) pipeline" where
  "open_steps ctx [] = Inr []"
| "open_steps ctx (f # fs) =
     (case New f ctx of
        Inl e \<Rightarrow> Inl (OpenFailed (Name f) e)
      | Inr t \<Rightarrow>
          (case open_steps ctx fs of
             Inl e \<Rightarrow> Inl e
           | Inr steps \<Rightarrow> Inr (\<lparr>nt_name = Name f, nt_transformer = t\<rparr> # steps)))"

definition Open ::
    "('c, 's, 'tc, 'm, 'e) factory list option \<Rightarrow> 'c \<Rightarrow> 'e pipe_error + ('s, 'tc, 'm, 'e) pipeline" where
  "Open r ctx = (case r of None \<Rightarrow> Inr [] | Some factories \<Rightarrow> open_steps ctx factories)"

section \<open>The pipeline\<close>

text \<open>One step over the current items: stop at its first error, or at the first result with
  \<^verbatim>\<open>Stop\<close>, which keeps what the step has produced so far.\<close>

fun step_items ::
    "string \<Rightarrow> ('s, 'tc, 'm, 'e) transform_fn \<Rightarrow> 's \<Rightarrow> ('tc, 'm) item list \<Rightarrow> ('tc, 'm) item list \<Rightarrow>
     's \<times> ('e pipe_error + ('tc, 'm) item list \<times> bool)" where
  "step_items nm tr s next [] = (s, Inr (next, False))"
| "step_items nm tr s next (i # is) =
     (case tr s i of
        (s', Inl e) \<Rightarrow> (s', Inl (TransformFailed nm e))
      | (s', Inr r) \<Rightarrow>
          (if Stop r then (s', Inr (next @ Items r, True))
           else step_items nm tr s' (next @ Items r) is))"

fun push_steps ::
    "('s, 'tc, 'm, 'e) pipeline \<Rightarrow> ('tc, 'm) item list \<Rightarrow>
     ('s, 'tc, 'm, 'e) pipeline \<times> ('e pipe_error + ('tc, 'm) item list \<times> bool)" where
  "push_steps [] items = ([], Inr (items, False))"
| "push_steps (st # sts) items =
     (case nt_transformer st of
        None \<Rightarrow>
          if items = [] then (case push_steps sts [] of (sts', r') \<Rightarrow> (st # sts', r'))
          else (st # sts, Inl NilTransformer)
      | Some t \<Rightarrow>
          (case step_items (nt_name st) (Transform t) (tstate t) [] items of
             (s', r) \<Rightarrow>
               (let st' = st\<lparr>nt_transformer := Some (t\<lparr>tstate := s'\<rparr>)\<rparr>
                in case r of
                     Inl e \<Rightarrow> (st' # sts, Inl e)
                   | Inr (items', True) \<Rightarrow> (st' # sts, Inr (items', True))
                   | Inr (items', False) \<Rightarrow>
                       (case push_steps sts items' of (sts', r') \<Rightarrow> (st' # sts', r')))))"

definition Push ::
    "('s, 'tc, 'm, 'e) pipeline \<Rightarrow> ('tc, 'm) item \<Rightarrow>
     ('s, 'tc, 'm, 'e) pipeline \<times> ('e pipe_error + ('tc, 'm) item list \<times> bool)" where
  "Push p i = (if p = [] then (p, Inr ([i], False)) else push_steps p [i])"

text \<open>All steps are closed; the first error is the result.\<close>

fun close_steps :: "('s, 'tc, 'm, 'e) pipeline \<Rightarrow> ('s, 'tc, 'm, 'e) pipeline \<times> 'e pipe_error option" where
  "close_steps [] = ([], None)"
| "close_steps (st # sts) =
     (case close_steps sts of
        (sts', later) \<Rightarrow>
          (case nt_transformer st of
             None \<Rightarrow> (st # sts', later)
           | Some t \<Rightarrow>
               (case Close t (tstate t) of
                  (s', err) \<Rightarrow>
                    (st\<lparr>nt_transformer := Some (t\<lparr>tstate := s'\<rparr>)\<rparr> # sts',
                     case err of Some e \<Rightarrow> Some (CloseFailed (nt_name st) e) | None \<Rightarrow> later))))"

section \<open>Registration order\<close>

definition register_in :: "('c, 's, 'tc, 'm, 'e) factory list \<Rightarrow> ('c, 's, 'tc, 'm, 'e) factory \<Rightarrow>
    ('c, 's, 'tc, 'm, 'e) factory list" where
  "register_in fs f = the (Register (Some fs) (Some f))"

interpretation registry: priority_registration Priority register_in
  using stable_insert_registration [of Priority]
  by (simp add: register_in_def [abs_def] Register_def)

lemma Register_foldl:
  "foldl (\<lambda>r f. Register r (Some f)) (Some fs) gs = Some (foldl register_in fs gs)"
  by (induction gs arbitrary: fs) (simp_all add: register_in_def Register_def)

lemma open_steps_names:
  "open_steps ctx fs = Inr steps \<Longrightarrow> map nt_name steps = map Name fs"
  by (induction fs arbitrary: steps) (auto split: sum.splits)

text \<open>Fact: whatever the order in which factories are registered, the opened pipeline runs its
  transformers in ascending priority, and transformers of equal priority in the order of their
  registration.\<close>

theorem Open_priority_order:
  assumes "Open (foldl (\<lambda>r f. Register r (Some f)) (Some []) fs) ctx = Inr steps"
  shows "map nt_name steps = map Name (sort_key Priority fs)"
proof -
  have "foldl (\<lambda>r f. Register r (Some f)) (Some []) fs = Some (registry.add_all fs)"
    by (simp add: Register_foldl registry.add_all_def)
  with assms have "open_steps ctx (registry.add_all fs) = Inr steps" by (simp add: Open_def)
  then show ?thesis by (simp add: open_steps_names registry.add_all_eq)
qed

theorem Open_priority_order_witness:
  "Open (foldl (\<lambda>r f. Register r (Some f)) (Some [])
     [\<lparr>Name = ''b'', Priority = 200, New = \<lambda>_::unit. Inr None\<rparr>,
      \<lparr>Name = ''a'', Priority = 100, New = \<lambda>_. Inr None\<rparr>]) () =
   (Inr [\<lparr>nt_name = ''a'', nt_transformer = None\<rparr>, \<lparr>nt_name = ''b'', nt_transformer = None\<rparr>]
     :: unit pipe_error + (unit, unit, unit, unit) pipeline)
   \<and> map nt_name [\<lparr>nt_name = ''a'', nt_transformer = None\<rparr>, \<lparr>nt_name = ''b'', nt_transformer = None\<rparr>
       :: (unit, unit, unit, unit) named_transformer] =
     map Name (sort_key Priority
     [\<lparr>Name = ''b'', Priority = 200, New = \<lambda>_::unit. Inr None :: unit + (unit, unit, unit, unit) transformer option\<rparr>,
      \<lparr>Name = ''a'', Priority = 100, New = \<lambda>_. Inr None\<rparr>])"
proof -
  have o: "Open (foldl (\<lambda>r f. Register r (Some f)) (Some [])
     [\<lparr>Name = ''b'', Priority = 200, New = \<lambda>_::unit. Inr None\<rparr>,
      \<lparr>Name = ''a'', Priority = 100, New = \<lambda>_. Inr None\<rparr>]) () =
   (Inr [\<lparr>nt_name = ''a'', nt_transformer = None\<rparr>, \<lparr>nt_name = ''b'', nt_transformer = None\<rparr>]
     :: unit pipe_error + (unit, unit, unit, unit) pipeline)"
    by (simp add: Open_def Register_def)
  from o Open_priority_order [OF o] show ?thesis by blast
qed

section \<open>Lossless transformers\<close>

text \<open>A stream of items pushed one after the other, the outputs appended, up to an error.\<close>

fun push_all ::
    "('s, 'tc, 'm, 'e) pipeline \<Rightarrow> ('tc, 'm) item list \<Rightarrow> ('s, 'tc, 'm, 'e) pipeline \<times> ('tc, 'm) item list" where
  "push_all p [] = (p, [])"
| "push_all p (i # is) =
     (case Push p i of
        (p', Inr (out, _)) \<Rightarrow> (case push_all p' is of (p'', out') \<Rightarrow> (p'', out @ out'))
      | (p', Inl _) \<Rightarrow> (p', []))"

definition single :: "string \<Rightarrow> ('s, 'tc, 'm, 'e) transformer \<Rightarrow> ('s, 'tc, 'm, 'e) pipeline" where
  "single nm t = [\<lparr>nt_name = nm, nt_transformer = Some t\<rparr>]"

text \<open>
  What the chat code relies on in a transformer of model output: it never fails and never stops
  the stream; the tool calls it emits are those it was given, in order, less those it still
  holds; and it never emits text it was not given. The laws carry over to runs of a pipeline of
  one such transformer.
\<close>

definition item_calls :: "('tc, 'm) item \<Rightarrow> 'tc list" where
  \<comment> \<open>a text delta carries no tool calls\<close>
  "item_calls i = (if Kind i = TextDelta then [] else ToolCalls i)"

definition calls_of :: "('tc, 'm) item list \<Rightarrow> 'tc list" where
  "calls_of is = concat (map item_calls is)"

definition nonspace :: "gostr \<Rightarrow> gostr" where
  "nonspace s = filter (\<lambda>r. \<not> is_space r) s"

definition text_of :: "('tc, 'm) item list \<Rightarrow> gostr" where
  "text_of is = nonspace (concat (map Text is))"

lemma of_items_simps [simp]:
  "calls_of [] = []" "calls_of (i # is) = item_calls i @ calls_of is"
  "calls_of (is @ js) = calls_of is @ calls_of js"
  "text_of [] = []" "text_of (i # is) = nonspace (Text i) @ text_of is"
  "text_of (is @ js) = text_of is @ text_of js"
  by (simp_all add: calls_of_def text_of_def nonspace_def)

locale lossless_transformer =
  fixes tr :: "('s, 'tc, 'm, 'e) transform_fn"
    and pending :: "'s \<Rightarrow> 'tc list"
    and buffered :: "'s \<Rightarrow> gostr"
  assumes total: "\<exists>s' r. tr s i = (s', Inr r) \<and> \<not> Stop r"
    and calls: "tr s i = (s', Inr r) \<Longrightarrow> pending s @ item_calls i = calls_of (Items r) @ pending s'"
    and texts: "tr s i = (s', Inr r) \<Longrightarrow>
      mset (text_of (Items r)) + mset (nonspace (buffered s')) \<subseteq>#
      mset (nonspace (buffered s)) + mset (nonspace (Text i))"
begin

fun run_stream :: "string \<Rightarrow> 's \<Rightarrow> ('tc, 'm) item list \<Rightarrow> 's \<times> ('tc, 'm) item list" where
  "run_stream nm s [] = (s, [])"
| "run_stream nm s (i # is) =
     (case step_items nm tr s [] [i] of
        (s', Inr (out, _)) \<Rightarrow> (case run_stream nm s' is of (s'', out') \<Rightarrow> (s'', out @ out'))
      | (s', Inl _) \<Rightarrow> (s', []))"

lemma step_one: "\<exists>s' r. tr s i = (s', Inr r) \<and> step_items nm tr s [] [i] = (s', Inr (Items r, False))"
  using total [of s i] by auto

lemma run_stream_calls:
  "run_stream nm s is = (s', out) \<Longrightarrow> pending s @ calls_of is = calls_of out @ pending s'"
proof (induction "is" arbitrary: s s' out)
  case (Cons i js)
  obtain s1 r where s1: "tr s i = (s1, Inr r)" "step_items nm tr s [] [i] = (s1, Inr (Items r, False))"
    using step_one by blast
  obtain out' where o: "run_stream nm s1 js = (s', out')" "out = Items r @ out'"
    using Cons.prems s1(2) by (auto split: prod.splits)
  from Cons.IH [OF o(1)] calls [OF s1(1)] o(2) show ?case
    by (metis append.assoc of_items_simps(2,3))
qed simp

lemma run_stream_texts:
  "run_stream nm s is = (s', out) \<Longrightarrow>
   mset (text_of out) + mset (nonspace (buffered s')) \<subseteq>#
   mset (nonspace (buffered s)) + mset (text_of is)"
proof (induction "is" arbitrary: s s' out)
  case (Cons i js)
  obtain s1 r where s1: "tr s i = (s1, Inr r)" "step_items nm tr s [] [i] = (s1, Inr (Items r, False))"
    using step_one by blast
  obtain out' where o: "run_stream nm s1 js = (s', out')" "out = Items r @ out'"
    using Cons.prems s1(2) by (auto split: prod.splits)
  have "mset (text_of (Items r)) + (mset (text_of out') + mset (nonspace (buffered s'))) \<subseteq>#
      mset (text_of (Items r)) + (mset (nonspace (buffered s1)) + mset (text_of js))"
    using Cons.IH [OF o(1)] by (rule mset_subset_eq_mono_add_left_cancel [THEN iffD2])
  also have "\<dots> = (mset (text_of (Items r)) + mset (nonspace (buffered s1))) + mset (text_of js)"
    by (simp add: ac_simps)
  also have "\<dots> \<subseteq># (mset (nonspace (buffered s)) + mset (nonspace (Text i))) + mset (text_of js)"
    using texts [OF s1(1)] by (rule mset_subset_eq_mono_add_right_cancel [THEN iffD2])
  finally show ?case by (simp add: o(2) ac_simps)
qed simp

lemma Push_single:
  assumes "Transform t = tr" and "tr (tstate t) i = (s', Inr r)"
  shows "Push (single nm t) i = (single nm (t\<lparr>tstate := s'\<rparr>), Inr (Items r, False))"
proof -
  have "\<not> Stop r" using total [of "tstate t" i] assms(2) by auto
  with assms show ?thesis by (simp add: Push_def single_def)
qed

lemma push_all_single:
  assumes "Transform t = tr"
  shows "push_all (single nm t) is =
    (case run_stream nm (tstate t) is of (s', out) \<Rightarrow> (single nm (t\<lparr>tstate := s'\<rparr>), out))"
  using assms
proof (induction "is" arbitrary: t)
  case (Cons i js)
  obtain s1 r where s1: "tr (tstate t) i = (s1, Inr r)"
      "step_items nm tr (tstate t) [] [i] = (s1, Inr (Items r, False))"
    using step_one by blast
  from Cons.IH [of "t\<lparr>tstate := s1\<rparr>"] Cons.prems s1(2) Push_single [OF Cons.prems s1(1)]
  show ?case by (simp split: prod.splits)
qed simp

text \<open>The laws for streams pushed through a pipeline of this transformer.\<close>

lemma push_all_lossless:
  assumes "Transform t = tr" and "push_all (single nm t) is = (p', out)"
  shows "\<exists>s'. p' = single nm (t\<lparr>tstate := s'\<rparr>)
      \<and> pending (tstate t) @ calls_of is = calls_of out @ pending s'
      \<and> mset (text_of out) + mset (nonspace (buffered s')) \<subseteq>#
        mset (nonspace (buffered (tstate t))) + mset (text_of is)"
  using assms push_all_single [OF assms(1), of nm "is"] run_stream_calls run_stream_texts
  by (auto split: prod.splits)

end

end
