(* ===== verification/Output_Segmenter.thy ===== *)
theory Output_Segmenter
  imports Sentences Stream_Transform
begin

text \<open>
  \<^verbatim>\<open>internal/app/server/chat/plugins/output_segmenter.go\<close>: the transformer that turns text
  deltas into sentences and collects tool calls. It is interpreted as a lossless transformer.
\<close>

definition defaultOutputSegmenterMinLen :: nat where "defaultOutputSegmenterMinLen = 2"
definition defaultOutputSegmenterMaxLen :: nat where "defaultOutputSegmenterMaxLen = 100"

record 'tc segmenter =
  textBuffer :: gostr
  pendingToolCalls :: "'tc list"
  minLen :: nat
  maxLen :: nat
  isFirst :: bool

definition new_segmenter :: "'tc segmenter" where
  "new_segmenter = \<lparr>textBuffer = [], pendingToolCalls = [], minLen = defaultOutputSegmenterMinLen,
     maxLen = defaultOutputSegmenterMaxLen, isFirst = True\<rparr>"

definition flushPendingText ::
    "'tc segmenter \<Rightarrow> 'm \<Rightarrow> bool \<Rightarrow> bool \<Rightarrow> 'tc segmenter \<times> ('tc, 'm) item list" where
  "flushPendingText t meta force isEnd =
     (let buffered = TrimSpace (textBuffer t)
      in if buffered = [] then (if isEnd then t\<lparr>textBuffer := []\<rparr> else t, [])
         else if \<not> force then (t, [])
         else (t\<lparr>textBuffer := [], isFirst := False\<rparr>,
               [\<lparr>Kind = TextSegment, Text = buffered, ToolCalls = [], IsEnd = isEnd, Meta = meta\<rparr>]))"

definition flushPendingToolCalls ::
    "'tc segmenter \<Rightarrow> 'm \<Rightarrow> bool \<Rightarrow> 'tc segmenter \<times> ('tc, 'm) item list" where
  "flushPendingToolCalls t meta isEnd =
     (if pendingToolCalls t = [] then (t, [])
      else (t\<lparr>pendingToolCalls := []\<rparr>,
            [\<lparr>Kind = ToolCallsKind, Text = [], ToolCalls = pendingToolCalls t, IsEnd = isEnd,
              Meta = meta\<rparr>]))"

definition set_last_end :: "('tc, 'm) item list \<Rightarrow> ('tc, 'm) item list" where
  "set_last_end out = butlast out @ [(last out)\<lparr>IsEnd := True\<rparr>]"

fun emit_sentences ::
    "'tc segmenter \<Rightarrow> 'm \<Rightarrow> ('tc, 'm) item list \<Rightarrow> gostr list \<Rightarrow> 'tc segmenter \<times> ('tc, 'm) item list" where
  "emit_sentences t meta out [] = (t, out)"
| "emit_sentences t meta out (sentence # ss) =
     (if TrimSpace sentence = [] then emit_sentences t meta out ss
      else emit_sentences (t\<lparr>isFirst := False\<rparr>) meta
             (out @ [\<lparr>Kind = TextSegment, Text = sentence, ToolCalls = [], IsEnd = False,
                      Meta = meta\<rparr>]) ss)"

definition transformText ::
    "'tc segmenter \<Rightarrow> ('tc, 'm) item \<Rightarrow> 'tc segmenter \<times> ('tc, 'm) item list" where
  "transformText t0 i =
     (let (t1, out) = flushPendingToolCalls t0 (Meta i) False;
          t2 = (if Text i \<noteq> [] then t1\<lparr>textBuffer := textBuffer t1 @ Text i\<rparr> else t1);
          (t3, out) =
            (if Text i \<noteq> [] \<and> ContainsSentenceSeparator (Text i) (isFirst t2) then
               (case ExtractSmartSentences (textBuffer t2) (minLen t2) (maxLen t2) (isFirst t2) of
                  (sentences, remaining) \<Rightarrow>
                    emit_sentences (t2\<lparr>textBuffer := remaining\<rparr>) (Meta i) out sentences)
             else (t2, out))
      in if \<not> IsEnd i then (t3, out)
         else (let (t4, flushed) = flushPendingText t3 (Meta i) True True; out = out @ flushed
               in if out \<noteq> [] then (t4, set_last_end out)
                  else (t4, [\<lparr>Kind = TextSegment, Text = [], ToolCalls = [], IsEnd = True,
                              Meta = Meta i\<rparr>])))"

definition transformToolCalls ::
    "'tc segmenter \<Rightarrow> ('tc, 'm) item \<Rightarrow> 'tc segmenter \<times> ('tc, 'm) item list" where
  "transformToolCalls t0 i =
     (let (t1, out) = flushPendingText t0 (Meta i) True False;
          t2 = (if ToolCalls i \<noteq> []
                then t1\<lparr>pendingToolCalls := pendingToolCalls t1 @ ToolCalls i\<rparr> else t1)
      in if IsEnd i then
           (let (t3, flushed) = flushPendingToolCalls t2 (Meta i) True; out = out @ flushed
            in if out \<noteq> [] then (t3, set_last_end out) else (t3, out))
         else (t2, out))"

definition segmenter_transform :: "('tc segmenter, 'tc, 'm, 'e) transform_fn" where
  "segmenter_transform t i =
     (case Kind i of
        TextDelta \<Rightarrow>
          (case transformText t i of (t', out) \<Rightarrow> (t', Inr \<lparr>Items = out, Stop = False\<rparr>))
      | ToolCallsKind \<Rightarrow>
          (case transformToolCalls t i of (t', out) \<Rightarrow> (t', Inr \<lparr>Items = out, Stop = False\<rparr>))
      | _ \<Rightarrow>
          (let (t1, out) = flushPendingText t (Meta i) True False;
               (t2, calls) = flushPendingToolCalls t1 (Meta i) False
           in (t2, Inr \<lparr>Items = out @ calls @ [i], Stop = False\<rparr>)))"

definition segmenter_close :: "'tc segmenter \<Rightarrow> 'tc segmenter \<times> 'e option" where
  "segmenter_close t = (t\<lparr>textBuffer := [], pendingToolCalls := []\<rparr>, None)"

definition outputSegmenterFactory :: "('c, 'tc segmenter, 'tc, 'm, 'e) factory" where
  "outputSegmenterFactory =
     \<lparr>Name = ''output_segmenter'', Priority = 200,
      New = (\<lambda>_. Inr (Some \<lparr>tstate = new_segmenter, Transform = segmenter_transform,
                             Close = segmenter_close\<rparr>))\<rparr>"

definition RegisterOutputSegmenter ::
    "('c, 'tc segmenter, 'tc, 'm, 'e) factory list option \<Rightarrow>
     ('c, 'tc segmenter, 'tc, 'm, 'e) factory list option" where
  "RegisterOutputSegmenter registry =
     (case registry of None \<Rightarrow> None | _ \<Rightarrow> Register registry (Some outputSegmenterFactory))"

section \<open>Lemmas on the pieces\<close>

lemmas flush_defs = flushPendingText_def flushPendingToolCalls_def

lemma nonspace_TrimSpace [simp]: "nonspace (TrimSpace s) = nonspace s"
  unfolding nonspace_def TrimSpace_def by (rule filter_trim_by)

lemma nonspace_append [simp]: "nonspace (xs @ ys) = nonspace xs @ nonspace ys"
  by (simp add: nonspace_def)

lemma nonspace_Nil [simp]: "nonspace [] = []"
  by (simp add: nonspace_def)

lemma TrimSpace_Nil_nonspace: "TrimSpace s = [] \<Longrightarrow> nonspace s = []"
  by (metis nonspace_Nil nonspace_TrimSpace)

lemma set_last_end_of [simp]:
  "out \<noteq> [] \<Longrightarrow> calls_of (set_last_end out) = calls_of out"
  "out \<noteq> [] \<Longrightarrow> text_of (set_last_end out) = text_of out"
  by (cases out rule: rev_cases; simp add: set_last_end_def item_calls_def)+

lemma emit_sentences_spec:
  "emit_sentences t meta out ss = (t', out') \<Longrightarrow>
   textBuffer t' = textBuffer t \<and> pendingToolCalls t' = pendingToolCalls t
   \<and> calls_of out' = calls_of out \<and> text_of out' = text_of out @ nonspace (concat ss)
   \<and> (list_all (\<lambda>i. \<not> IsEnd i) out \<longrightarrow> list_all (\<lambda>i. \<not> IsEnd i) out')"
proof (induction t meta out ss rule: emit_sentences.induct)
  case (2 t meta out sentence ss)
  show ?case
  proof (cases "TrimSpace sentence = []")
    case True
    with "2.IH"(1) [OF True] "2.prems" show ?thesis by (simp add: TrimSpace_Nil_nonspace)
  next
    case False
    with "2.IH"(2) [OF False] "2.prems" show ?thesis by (simp add: item_calls_def)
  qed
qed simp

lemma blank_is_space: "blank r \<Longrightarrow> is_space r"
  unfolding blank_def by (elim disjE) (simp_all add: is_space_def in_ranges_def)

lemma nonspace_nonblank: "nonspace (nonblank s) = nonspace s"
  unfolding nonspace_def nonblank_def filter_filter
  by (rule filter_cong [OF refl]) (use blank_is_space in blast)

lemma smart_nonspace:
  assumes "ExtractSmartSentences tx m n f = (S, R)"
  shows "mset (nonspace (concat S)) + mset (nonspace R) \<subseteq># mset (nonspace tx)"
proof -
  have "mset (nonblank (concat S)) + mset (nonblank R) \<subseteq># mset (nonblank tx)"
    using smart_sentences_conserve [where tx = tx and minLen = m and maxLen = n and isFirst = f] assms
    by simp
  then have "filter_mset (\<lambda>r. \<not> is_space r) (mset (nonblank (concat S)) + mset (nonblank R)) \<subseteq>#
      filter_mset (\<lambda>r. \<not> is_space r) (mset (nonblank tx))"
    by (rule multiset_filter_mono)
  then show ?thesis
    using nonspace_nonblank [of "concat S"] nonspace_nonblank [of R] nonspace_nonblank [of tx]
    by (simp add: nonspace_def flip: mset_filter)
qed

section \<open>The handlers\<close>

lemma flushPendingText_spec:
  assumes "flushPendingText t meta force isEnd = (t', out)"
  shows "pendingToolCalls t' = pendingToolCalls t" and "calls_of out = []"
    and "text_of out @ nonspace (textBuffer t') = nonspace (textBuffer t)"
    and "\<not> isEnd \<Longrightarrow> list_all (\<lambda>i. \<not> IsEnd i) out"
    and "force \<Longrightarrow> isEnd \<Longrightarrow> textBuffer t' = []" and "length out \<le> 1"
  using assms TrimSpace_Nil_nonspace [of "textBuffer t"]
  by (auto simp: flushPendingText_def Let_def item_calls_def split: if_splits)

lemma flushPendingToolCalls_spec:
  assumes "flushPendingToolCalls t meta isEnd = (t', out)"
  shows "pendingToolCalls t' = []" and "calls_of out = pendingToolCalls t" and "text_of out = []"
    and "textBuffer t' = textBuffer t" and "\<not> isEnd \<Longrightarrow> list_all (\<lambda>i. \<not> IsEnd i) out"
    and "isFirst t' = isFirst t"
  using assms by (auto simp: flushPendingToolCalls_def item_calls_def split: if_splits)

text \<open>The part of \<open>transformText\<close> before its \<^verbatim>\<open>IsEnd\<close> test.\<close>

definition text_body :: "'tc segmenter \<Rightarrow> ('tc, 'm) item \<Rightarrow> 'tc segmenter \<times> ('tc, 'm) item list" where
  "text_body t0 i =
     (let (t1, out) = flushPendingToolCalls t0 (Meta i) False;
          t2 = (if Text i \<noteq> [] then t1\<lparr>textBuffer := textBuffer t1 @ Text i\<rparr> else t1)
      in if Text i \<noteq> [] \<and> ContainsSentenceSeparator (Text i) (isFirst t2) then
           (case ExtractSmartSentences (textBuffer t2) (minLen t2) (maxLen t2) (isFirst t2) of
              (sentences, remaining) \<Rightarrow>
                emit_sentences (t2\<lparr>textBuffer := remaining\<rparr>) (Meta i) out sentences)
         else (t2, out))"

lemma transformText_eq:
  "transformText t0 i =
     (case text_body t0 i of
        (t3, out) \<Rightarrow>
          if \<not> IsEnd i then (t3, out)
          else (case flushPendingText t3 (Meta i) True True of
                  (t4, flushed) \<Rightarrow>
                    if out @ flushed \<noteq> [] then (t4, set_last_end (out @ flushed))
                    else (t4, [\<lparr>Kind = TextSegment, Text = [], ToolCalls = [], IsEnd = True,
                                Meta = Meta i\<rparr>])))"
  by (simp add: transformText_def text_body_def Let_def split: prod.splits)

lemma text_body_spec:
  assumes "text_body t0 i = (t3, out)"
  shows "calls_of out = pendingToolCalls t0 \<and> pendingToolCalls t3 = []
    \<and> list_all (\<lambda>i. \<not> IsEnd i) out
    \<and> mset (text_of out) + mset (nonspace (textBuffer t3)) \<subseteq>#
      mset (nonspace (textBuffer t0)) + mset (nonspace (Text i))"
proof -
  obtain t1 out1 where f: "flushPendingToolCalls t0 (Meta i) False = (t1, out1)" by fastforce
  note f1 = flushPendingToolCalls_spec [OF f]
  define t2 where "t2 = (if Text i \<noteq> [] then t1\<lparr>textBuffer := textBuffer t1 @ Text i\<rparr> else t1)"
  have t2: "pendingToolCalls t2 = []"
      "nonspace (textBuffer t2) = nonspace (textBuffer t0) @ nonspace (Text i)"
    using f1 by (auto simp: t2_def)
  have eq: "text_body t0 i =
      (if Text i \<noteq> [] \<and> ContainsSentenceSeparator (Text i) (isFirst t2) then
         (case ExtractSmartSentences (textBuffer t2) (minLen t2) (maxLen t2) (isFirst t2) of
            (sentences, remaining) \<Rightarrow>
              emit_sentences (t2\<lparr>textBuffer := remaining\<rparr>) (Meta i) out1 sentences)
       else (t2, out1))"
    by (simp only: text_body_def f Let_def prod.case t2_def)
  show ?thesis
  proof (cases "Text i \<noteq> [] \<and> ContainsSentenceSeparator (Text i) (isFirst t2)")
    case False
    with assms f1 t2 show ?thesis unfolding eq by (simp only: if_False) simp
  next
    case True
    obtain S R where sr: "ExtractSmartSentences (textBuffer t2) (minLen t2) (maxLen t2) (isFirst t2) = (S, R)"
      by fastforce
    have "emit_sentences (t2\<lparr>textBuffer := R\<rparr>) (Meta i) out1 S = (t3, out)"
      using assms True sr by (simp add: eq)
    from emit_sentences_spec [OF this] smart_nonspace [OF sr] f1 t2 show ?thesis by simp
  qed
qed

lemma transformText_spec:
  assumes "transformText t i = (t', out)"
  shows "pendingToolCalls t @ [] = calls_of out @ pendingToolCalls t'"
    and "mset (text_of out) + mset (nonspace (textBuffer t')) \<subseteq>#
      mset (nonspace (textBuffer t)) + mset (nonspace (Text i))"
proof -
  obtain t3 o3 where b: "text_body t i = (t3, o3)" by fastforce
  obtain t4 fl where fl: "flushPendingText t3 (Meta i) True True = (t4, fl)" by fastforce
  note body = text_body_spec [OF b] and flush = flushPendingText_spec [OF fl]
  have "mset (text_of o3 @ text_of fl) + mset (nonspace (textBuffer t4)) =
      mset (text_of o3) + mset (text_of fl @ nonspace (textBuffer t4))" by simp
  then have tx: "mset (text_of (o3 @ fl)) + mset (nonspace (textBuffer t4)) \<subseteq>#
      mset (nonspace (textBuffer t)) + mset (nonspace (Text i))"
    using body flush(3) by (simp only: of_items_simps)
  show "pendingToolCalls t @ [] = calls_of out @ pendingToolCalls t'"
    using assms body flush(1,2)
    by (auto simp: transformText_eq b fl item_calls_def split: if_splits)
  show "mset (text_of out) + mset (nonspace (textBuffer t')) \<subseteq>#
      mset (nonspace (textBuffer t)) + mset (nonspace (Text i))"
  proof (cases "IsEnd i")
    case False
    with assms body show ?thesis by (simp add: transformText_eq b)
  next
    case True
    then have "t' = t4" "text_of out = text_of (o3 @ fl)"
      using assms by (auto simp: transformText_eq b fl split: if_splits)
    with tx show ?thesis by simp
  qed
qed

lemma transformToolCalls_spec:
  assumes "transformToolCalls t i = (t', out)"
  shows "pendingToolCalls t @ ToolCalls i = calls_of out @ pendingToolCalls t'"
    and "text_of out @ nonspace (textBuffer t') = nonspace (textBuffer t)"
proof -
  obtain t1 o1 where f: "flushPendingText t (Meta i) True False = (t1, o1)" by fastforce
  note f1 = flushPendingText_spec [OF f]
  define t2 where "t2 = (if ToolCalls i \<noteq> []
    then t1\<lparr>pendingToolCalls := pendingToolCalls t1 @ ToolCalls i\<rparr> else t1)"
  have t2: "pendingToolCalls t2 = pendingToolCalls t @ ToolCalls i" "textBuffer t2 = textBuffer t1"
    using f1(1) by (auto simp: t2_def)
  obtain t3 o3 where g: "flushPendingToolCalls t2 (Meta i) True = (t3, o3)" by fastforce
  note g1 = flushPendingToolCalls_spec [OF g]
  have eq: "transformToolCalls t i =
      (if IsEnd i then if o1 @ o3 \<noteq> [] then (t3, set_last_end (o1 @ o3)) else (t3, o1 @ o3)
       else (t2, o1))"
    by (simp add: transformToolCalls_def f g Let_def flip: t2_def)
  show "pendingToolCalls t @ ToolCalls i = calls_of out @ pendingToolCalls t'"
    using assms f1(2) g1(1,2) t2 unfolding eq by (cases "o1 @ o3 = []") (auto split: if_splits)
  show "text_of out @ nonspace (textBuffer t') = nonspace (textBuffer t)"
    using assms f1(3) g1(3,4) t2 unfolding eq by (cases "o1 @ o3 = []") (auto split: if_splits)
qed

lemma segmenter_delta:
  "Kind i = TextDelta \<Longrightarrow> segmenter_transform t i =
     (fst (transformText t i), Inr \<lparr>Items = snd (transformText t i), Stop = False\<rparr>)"
  by (simp add: segmenter_transform_def case_prod_unfold)

lemma segmenter_toolcalls:
  "Kind i = ToolCallsKind \<Longrightarrow> segmenter_transform t i =
     (fst (transformToolCalls t i), Inr \<lparr>Items = snd (transformToolCalls t i), Stop = False\<rparr>)"
  by (simp add: segmenter_transform_def case_prod_unfold)

lemma segmenter_other:
  assumes "Kind i \<noteq> TextDelta" and "Kind i \<noteq> ToolCallsKind"
    and "flushPendingText t (Meta i) True False = (t1, o1)"
    and "flushPendingToolCalls t1 (Meta i) False = (t2, o2)"
  shows "segmenter_transform t i = (t2, Inr \<lparr>Items = o1 @ o2 @ [i], Stop = False\<rparr>)"
  using assms by (cases "Kind i") (simp_all add: segmenter_transform_def)

lemma segmenter_total: "\<exists>s' r. segmenter_transform s i = (s', Inr r) \<and> \<not> Stop r"
  by (simp add: segmenter_transform_def case_prod_unfold Let_def split: item_kind.splits)

lemma segmenter_laws:
  assumes "segmenter_transform s i = (s', Inr r)"
  shows "pendingToolCalls s @ item_calls i = calls_of (Items r) @ pendingToolCalls s'"
    and "mset (text_of (Items r)) + mset (nonspace (textBuffer s')) \<subseteq>#
      mset (nonspace (textBuffer s)) + mset (nonspace (Text i))"
proof -
  consider (delta) "Kind i = TextDelta" | (calls) "Kind i = ToolCallsKind"
    | (other) "Kind i \<noteq> TextDelta" "Kind i \<noteq> ToolCallsKind" by blast
  then have "pendingToolCalls s @ item_calls i = calls_of (Items r) @ pendingToolCalls s'
    \<and> mset (text_of (Items r)) + mset (nonspace (textBuffer s')) \<subseteq>#
      mset (nonspace (textBuffer s)) + mset (nonspace (Text i))"
  proof cases
    case delta
    with assms have "transformText s i = (s', Items r)" by (auto simp: segmenter_delta)
    from transformText_spec [OF this] delta show ?thesis by (simp add: item_calls_def)
  next
    case calls
    with assms have t: "transformToolCalls s i = (s', Items r)" by (auto simp: segmenter_toolcalls)
    have "mset (text_of (Items r)) + mset (nonspace (textBuffer s')) = mset (nonspace (textBuffer s))"
      using transformToolCalls_spec(2) [OF t] by (metis mset_append)
    with transformToolCalls_spec(1) [OF t] calls show ?thesis by (simp add: item_calls_def)
  next
    case other
    obtain t1 o1 where f: "flushPendingText s (Meta i) True False = (t1, o1)" by fastforce
    obtain t2 o2 where g: "flushPendingToolCalls t1 (Meta i) False = (t2, o2)" by fastforce
    note f1 = flushPendingText_spec [OF f] and g1 = flushPendingToolCalls_spec [OF g]
    have r: "s' = t2" "Items r = o1 @ o2 @ [i]"
      using assms by (auto simp: segmenter_other [OF other f g])
    have "mset (text_of o1) + mset (nonspace (textBuffer t2)) = mset (nonspace (textBuffer s))"
      using f1(3) g1(4) by (metis mset_append)
    then have "mset (text_of (Items r)) + mset (nonspace (textBuffer s')) =
        mset (nonspace (textBuffer s)) + mset (nonspace (Text i))"
      using g1(3) by (simp add: r ac_simps)
    with f1(1,2) g1(1,2) r show ?thesis by simp
  qed
  then show "pendingToolCalls s @ item_calls i = calls_of (Items r) @ pendingToolCalls s'"
    and "mset (text_of (Items r)) + mset (nonspace (textBuffer s')) \<subseteq>#
      mset (nonspace (textBuffer s)) + mset (nonspace (Text i))" by blast+
qed

text \<open>The segmenter is a lossless transformer.\<close>

interpretation segmenter: lossless_transformer segmenter_transform pendingToolCalls textBuffer
  by unfold_locales (rule segmenter_total, (erule segmenter_laws)+)

section \<open>Properties\<close>

definition opened_segmenter :: "('tc segmenter, 'tc, 'm, 'e) transformer" where
  "opened_segmenter = \<lparr>tstate = new_segmenter, Transform = segmenter_transform, Close = segmenter_close\<rparr>"

lemma opened_segmenter_simps [simp]:
  "tstate opened_segmenter = new_segmenter" "Transform opened_segmenter = segmenter_transform"
  "pendingToolCalls new_segmenter = []" "textBuffer new_segmenter = []"
  by (simp_all add: opened_segmenter_def new_segmenter_def)

lemma Open_segmenter:
  "Open (RegisterOutputSegmenter (Some [])) ctx = Inr (single ''output_segmenter'' opened_segmenter)"
  by (simp add: RegisterOutputSegmenter_def Register_def Open_def outputSegmenterFactory_def
      single_def opened_segmenter_def)

text \<open>C1: for every stream of items pushed through the opened output pipeline, the tool calls
  that have come out are those that went in, in order, less those still held back; and the text
  that has come out, with the text still buffered, holds no rune that did not go in.\<close>

theorem output_pipeline_lossless:
  assumes "Open (RegisterOutputSegmenter (Some [])) ctx = Inr p"
    and "push_all p is = (p', out)"
  shows "\<exists>t. p' = single ''output_segmenter'' (opened_segmenter\<lparr>tstate := t\<rparr>)
    \<and> calls_of is = calls_of out @ pendingToolCalls t
    \<and> mset (text_of out) + mset (nonspace (textBuffer t)) \<subseteq># mset (text_of is)"
proof -
  have "p = single ''output_segmenter'' opened_segmenter" using assms(1) by (simp add: Open_segmenter)
  with segmenter.push_all_lossless [of opened_segmenter "''output_segmenter''" "is" p' out] assms(2)
  show ?thesis by auto
qed

text \<open>An input of the pipeline for the witnesses: two tool calls, then a sentence with a tail.\<close>

definition demo_stream :: "(nat, unit) item list" where
  "demo_stream =
     [\<lparr>Kind = ToolCallsKind, Text = [], ToolCalls = [7], IsEnd = False, Meta = ()\<rparr>,
      \<lparr>Kind = ToolCallsKind, Text = [], ToolCalls = [8], IsEnd = False, Meta = ()\<rparr>,
      \<lparr>Kind = TextDelta, Text = runes ''Hello, world'', ToolCalls = [], IsEnd = False, Meta = ()\<rparr>,
      \<lparr>Kind = TextDelta, Text = [], ToolCalls = [], IsEnd = True, Meta = ()\<rparr>]"

definition demo_pipeline :: "(nat segmenter, nat, unit, unit) pipeline" where
  "demo_pipeline = single ''output_segmenter'' opened_segmenter"

text \<open>Fact: of the text "Hello, world" the first item out is the sentence "Hello,", without the
  blank after the comma, and the end marker brings out "world" as the last item; the two tool
  calls come out together, ahead of the text.\<close>

theorem hello_world_segments:
  "map (\<lambda>i. (Text i, ToolCalls i, IsEnd i)) (snd (push_all demo_pipeline demo_stream)) =
     [([], [7, 8], False), (runes ''Hello,'', [], False), (runes ''world'', [], True)]"
  by code_simp

theorem output_pipeline_lossless_witness:
  "\<exists>t p'. push_all demo_pipeline demo_stream = (p', snd (push_all demo_pipeline demo_stream))
    \<and> p' = single ''output_segmenter'' (opened_segmenter\<lparr>tstate := t\<rparr>)
    \<and> calls_of demo_stream = calls_of (snd (push_all demo_pipeline demo_stream)) @ pendingToolCalls t"
proof -
  have o: "Open (RegisterOutputSegmenter (Some [])) () = Inr demo_pipeline"
    by (simp add: Open_segmenter demo_pipeline_def)
  have "push_all demo_pipeline demo_stream =
      (fst (push_all demo_pipeline demo_stream), snd (push_all demo_pipeline demo_stream))" by simp
  from output_pipeline_lossless [OF o this] show ?thesis by (metis surjective_pairing)
qed

text \<open>Fact: a text delta marked as the end always produces items, of which the last and no other
  is marked as the end, and leaves neither text nor tool calls behind.\<close>

theorem text_end_flushes:
  assumes "Kind i = TextDelta" and "IsEnd i"
    and "segmenter_transform t i = (t', Inr r)"
  shows "textBuffer t' = [] \<and> pendingToolCalls t' = []
    \<and> (\<exists>front final. Items r = front @ [final] \<and> IsEnd final \<and> filter IsEnd front = [])"
proof -
  obtain t3 o3 where b: "text_body t i = (t3, o3)" by fastforce
  obtain t4 fl where fl: "flushPendingText t3 (Meta i) True True = (t4, fl)" by fastforce
  note body = text_body_spec [OF b] and flush = flushPendingText_spec [OF fl]
  have eq: "t' = t4" "Items r = (if o3 @ fl \<noteq> [] then set_last_end (o3 @ fl)
      else [\<lparr>Kind = TextSegment, Text = [], ToolCalls = [], IsEnd = True, Meta = Meta i\<rparr>])"
    using assms by (auto simp: segmenter_transform_def transformText_eq b fl split: if_splits)
  have noend: "filter IsEnd o3 = []" using body by (simp add: filter_empty_conv list_all_iff)
  have "filter IsEnd (butlast (o3 @ fl)) = []"
  proof (cases fl)
    case Nil
    with noend show ?thesis by (auto simp: filter_empty_conv dest: in_set_butlastD)
  next
    case (Cons f fs)
    then have "fs = []" using flush(6) by (cases fs) auto
    with Cons noend show ?thesis by (simp add: butlast_append)
  qed
  with eq have "\<exists>front final. Items r = front @ [final] \<and> IsEnd final \<and> filter IsEnd front = []"
    by (auto simp: set_last_end_def)
  with eq(1) body flush(1,5) show ?thesis by simp
qed

theorem text_end_flushes_witness:
  "\<exists>t' r. segmenter_transform (new_segmenter\<lparr>textBuffer := runes ''tail''\<rparr> :: nat segmenter) (demo_stream ! 3)
      = (t', Inr r :: unit + _)
    \<and> textBuffer t' = [] \<and> pendingToolCalls t' = []
    \<and> (\<exists>front final. Items r = front @ [final] \<and> IsEnd final \<and> filter IsEnd front = [])"
proof -
  obtain t' r where r: "segmenter_transform (new_segmenter\<lparr>textBuffer := runes ''tail''\<rparr> :: nat segmenter)
      (demo_stream ! 3) = (t', Inr r :: unit + _)"
    using segmenter_total by blast
  have k: "Kind (demo_stream ! 3) = TextDelta" "IsEnd (demo_stream ! 3)"
    by (simp_all add: demo_stream_def)
  from r text_end_flushes [OF k r] show ?thesis by blast
qed

end
