(* ===== verification/Go_Channel.thy ===== *)
theory Go_Channel
  imports Prelude
begin

text \<open>
  Go's buffered channels, which the queue, the resource pool and the UDP sessions are built on:
  a channel value with the three operations of the language, and the laws its users rely on,
  stated as the locale \<open>fifo_channel\<close>. Channels are buffered (capacity at least 1, as everywhere
  in the modelled code), so a send never meets a receiver directly.
\<close>

record 'a chan =
  cbuf :: "'a list"
  ccap :: nat
  cclosed :: bool

datatype 'c sent = Sent 'c | SendBlocks | SendPanics
datatype ('a, 'c) received = Got 'a 'c | GotZero | RecvBlocks

definition make_chan :: "nat \<Rightarrow> 'a chan" where
  "make_chan n = \<lparr>cbuf = [], ccap = n, cclosed = False\<rparr>"

definition chan_send :: "'a chan \<Rightarrow> 'a \<Rightarrow> 'a chan sent" where
  "chan_send c v =
     (if cclosed c then SendPanics
      else if length (cbuf c) < ccap c then Sent (c\<lparr>cbuf := cbuf c @ [v]\<rparr>)
      else SendBlocks)"

definition chan_recv :: "'a chan \<Rightarrow> ('a, 'a chan) received" where
  \<comment> \<open>\<open>GotZero\<close> is the zero value with \<^verbatim>\<open>ok = false\<close> of a closed, drained channel\<close>
  "chan_recv c =
     (case cbuf c of
        v # vs \<Rightarrow> Got v (c\<lparr>cbuf := vs\<rparr>)
      | [] \<Rightarrow> if cclosed c then GotZero else RecvBlocks)"

definition chan_close :: "'a chan \<Rightarrow> 'a chan option" where
  \<comment> \<open>closing twice panics\<close>
  "chan_close c = (if cclosed c then None else Some (c\<lparr>cclosed := True\<rparr>))"

section \<open>The contract of a channel\<close>

datatype 'a chan_op = OSend 'a | ORecv | OClose

locale fifo_channel =
  fixes contents :: "'c \<Rightarrow> 'a list"
    and capacity :: "'c \<Rightarrow> nat"
    and shut :: "'c \<Rightarrow> bool"
    and snd_op :: "'c \<Rightarrow> 'a \<Rightarrow> 'c sent"
    and rcv_op :: "'c \<Rightarrow> ('a, 'c) received"
    and close_op :: "'c \<Rightarrow> 'c option"
  assumes send_sent: "snd_op c v = Sent c' \<Longrightarrow>
      \<not> shut c \<and> length (contents c) < capacity c \<and> contents c' = contents c @ [v]
      \<and> capacity c' = capacity c \<and> \<not> shut c'"
    and send_panics: "snd_op c v = SendPanics \<longleftrightarrow> shut c"
    and recv_got: "rcv_op c = Got v c' \<Longrightarrow>
      contents c = v # contents c' \<and> capacity c' = capacity c \<and> shut c' = shut c"
    and recv_zero: "rcv_op c = GotZero \<longleftrightarrow> contents c = [] \<and> shut c"
    and close_closes: "close_op c = Some c' \<Longrightarrow>
      \<not> shut c \<and> shut c' \<and> contents c' = contents c \<and> capacity c' = capacity c"
begin

text \<open>One operation, and a run of operations by any number of goroutines, with what was sent
  and received.\<close>

fun op_step :: "'c \<Rightarrow> 'a chan_op \<Rightarrow> 'a list \<times> 'a list \<times> 'c" where
  "op_step c (OSend v) = (case snd_op c v of Sent c' \<Rightarrow> ([v], [], c') | _ \<Rightarrow> ([], [], c))"
| "op_step c ORecv = (case rcv_op c of Got v c' \<Rightarrow> ([], [v], c') | _ \<Rightarrow> ([], [], c))"
| "op_step c OClose = (case close_op c of Some c' \<Rightarrow> ([], [], c') | None \<Rightarrow> ([], [], c))"

fun run :: "'c \<Rightarrow> 'a chan_op list \<Rightarrow> 'a list \<times> 'a list \<times> 'c" where
  "run c [] = ([], [], c)"
| "run c (a # ops) =
     (case op_step c a of
        (s, r, c') \<Rightarrow> (case run c' ops of (ss, rs, d) \<Rightarrow> (s @ ss, r @ rs, d)))"

lemma op_step_laws:
  assumes "op_step c a = (s, r, c')"
  shows "contents c @ s = r @ contents c'" and "capacity c' = capacity c"
    and "length (contents c) \<le> capacity c \<Longrightarrow> length (contents c') \<le> capacity c'"
    and "shut c \<Longrightarrow> shut c' \<and> s = []"
proof -
  have "contents c @ s = r @ contents c' \<and> capacity c' = capacity c
    \<and> (length (contents c) \<le> capacity c \<longrightarrow> length (contents c') \<le> capacity c')
    \<and> (shut c \<longrightarrow> shut c' \<and> s = [])"
  proof (cases a)
    case (OSend v)
    with assms show ?thesis by (cases "snd_op c v") (auto dest!: send_sent)
  next
    case ORecv
    with assms show ?thesis by (cases "rcv_op c") (auto dest!: recv_got)
  next
    case OClose
    with assms show ?thesis by (cases "close_op c") (auto dest!: close_closes)
  qed
  then show "contents c @ s = r @ contents c'" "capacity c' = capacity c"
    "length (contents c) \<le> capacity c \<Longrightarrow> length (contents c') \<le> capacity c'"
    "shut c \<Longrightarrow> shut c' \<and> s = []" by blast+
qed

lemma run_Cons:
  "run c (a # ops) = (ss, rs, d) \<Longrightarrow>
   \<exists>s r c' ss' rs'. op_step c a = (s, r, c') \<and> run c' ops = (ss', rs', d)
     \<and> ss = s @ ss' \<and> rs = r @ rs'"
  by (auto split: prod.splits)

lemma run_fifo: "run c ops = (ss, rs, d) \<Longrightarrow> contents c @ ss = rs @ contents d"
proof (induction ops arbitrary: c ss rs)
  case (Cons a ops)
  then obtain s r c' ss' rs' where *: "op_step c a = (s, r, c')" "run c' ops = (ss', rs', d)"
      "ss = s @ ss'" "rs = r @ rs'"
    using run_Cons by blast
  from op_step_laws(1) [OF *(1)] Cons.IH [OF *(2)] show ?case
    by (metis *(3,4) append.assoc)
qed simp

lemma run_bounded:
  "run c ops = (ss, rs, d) \<Longrightarrow> length (contents c) \<le> capacity c \<Longrightarrow>
   length (contents d) \<le> capacity d \<and> capacity d = capacity c"
proof (induction ops arbitrary: c ss rs)
  case (Cons a ops)
  then obtain s r c' ss' rs' where *: "op_step c a = (s, r, c')" "run c' ops = (ss', rs', d)"
    using run_Cons by blast
  from op_step_laws(2,3) [OF *(1)] Cons.IH [OF *(2)] Cons.prems(2) show ?case by simp
qed simp

end

interpretation chan: fifo_channel cbuf ccap cclosed chan_send chan_recv chan_close
  by unfold_locales
    (auto simp: chan_send_def chan_recv_def chan_close_def split: if_splits list.splits)

lemma make_chan_simps [simp]:
  "cbuf (make_chan n) = []" "ccap (make_chan n) = n" "\<not> cclosed (make_chan n)"
  by (simp_all add: make_chan_def)

end
