(* ===== verification/Queue.thy ===== *)
theory Queue
  imports Go_Channel
begin

text \<open>
  \<^verbatim>\<open>internal/util/queue.go\<close>: the queue that the chat session puts between speech recognition, the
  language model and speech synthesis. Its methods run on several goroutines, and each takes its
  lock only for parts of its work, so every method is cut into its atomic parts: \<open>act\<close> is what a
  goroutine at a program point does next, \<open>qstep\<close> lets any goroutine take its next part. The
  channels that \<^verbatim>\<open>ClearAndDrain\<close> swaps out stay in the state, since goroutines still hold them:
  a channel is an index into \<open>chans\<close>.
\<close>

datatype queue_error =
  ErrQueueClosed | ErrQueueTimeout | ErrQueueEmpty | ErrQueueCtxDone | CtxErr | PushTimeout

record 'a queue =
  chans :: "'a chan list" \<comment> \<open>every channel made so far\<close>
  cur :: nat \<comment> \<open>\<^verbatim>\<open>q.ch\<close>\<close>
  qcap :: nat
  closed :: bool
  gen :: "64 word"

definition NewQueue :: "nat \<Rightarrow> 'a queue" where
  "NewQueue capacity =
     \<lparr>chans = [make_chan capacity], cur = 0, qcap = capacity, closed = False, gen = 0\<rparr>"

datatype 'a pc =
    Idle
  | PushAt 'a \<comment> \<open>top of the loop of \<^verbatim>\<open>Push\<close>\<close>
  | Sending 'a nat "64 word" \<comment> \<open>in \<^verbatim>\<open>safeQueueSendWithTimeout\<close>\<close>
  | Recheck 'a "64 word" \<comment> \<open>before the second lock of \<^verbatim>\<open>Push\<close>\<close>
  | PushRet "queue_error option"
  | PopAt int
  | Receiving int nat
  | PopRet "queue_error + 'a"
  | ClearAt
  | Draining nat "'a list"
  | ClearRet "'a list option"
  | CloseAt
  | Panicked

datatype 'a qevent = Silent | Sends nat 'a | Receives nat 'a | Drained nat

section \<open>The atomic parts of the methods\<close>

definition push_begin :: "'a queue \<Rightarrow> 'a \<Rightarrow> 'a pc" where
  "push_begin q v = (if closed q then PushRet (Some ErrQueueClosed) else Sending v (cur q) (gen q))"

definition safeQueueSend :: "'a queue \<Rightarrow> 'a \<Rightarrow> nat \<Rightarrow> 64 word \<Rightarrow> ('a queue \<times> 'a pc \<times> 'a qevent) option" where
  "safeQueueSend q v c g =
     (case chan_send (chans q ! c) v of
        Sent c' \<Rightarrow> Some (q\<lparr>chans := (chans q)[c := c']\<rparr>, PushRet None, Sends c v)
      | SendPanics \<Rightarrow> Some (q, Recheck v g, Silent)
      | SendBlocks \<Rightarrow> None)"

definition push_recheck :: "'a queue \<Rightarrow> 'a \<Rightarrow> 64 word \<Rightarrow> 'a pc" where
  "push_recheck q v g =
     (let queueClosed = closed q; shouldRetry = (\<not> queueClosed \<and> gen q \<noteq> g)
      in if queueClosed then PushRet (Some ErrQueueClosed)
         else if shouldRetry then PushAt v
         else PushRet (Some ErrQueueClosed))"

definition pop_begin :: "'a queue \<Rightarrow> int \<Rightarrow> 'a pc" where
  "pop_begin q timeout =
     (if closed q then PopRet (Inl ErrQueueClosed) else Receiving timeout (cur q))"

definition pop_recv :: "'a queue \<Rightarrow> int \<Rightarrow> nat \<Rightarrow> ('a queue \<times> 'a pc \<times> 'a qevent) option" where
  "pop_recv q timeout c =
     (case chan_recv (chans q ! c) of
        Got v c' \<Rightarrow> Some (q\<lparr>chans := (chans q)[c := c']\<rparr>, PopRet (Inr v), Receives c v)
      | GotZero \<Rightarrow> Some (q, PopRet (Inl ErrQueueClosed), Silent)
      | RecvBlocks \<Rightarrow>
          if timeout < 0 then Some (q, PopRet (Inl ErrQueueEmpty), Silent) else None)"

definition clear_swap :: "'a queue \<Rightarrow> 'a queue \<times> 'a pc" where
  "clear_swap q =
     (if closed q then (q, ClearRet None)
      else (case chan_close (chans q ! cur q) of
              None \<Rightarrow> (q, Panicked)
            | Some old \<Rightarrow>
                (q\<lparr>chans := (chans q)[cur q := old] @ [make_chan (qcap q)],
                   cur := length (chans q), gen := gen q + 1\<rparr>,
                 Draining (cur q) [])))"

definition drain :: "'a queue \<Rightarrow> nat \<Rightarrow> 'a list \<Rightarrow> ('a queue \<times> 'a pc \<times> 'a qevent) option" where
  "drain q c drained =
     (case chan_recv (chans q ! c) of
        Got v c' \<Rightarrow> Some (q\<lparr>chans := (chans q)[c := c']\<rparr>, Draining c (drained @ [v]), Receives c v)
      | GotZero \<Rightarrow> Some (q, ClearRet (Some drained), Drained c)
      | RecvBlocks \<Rightarrow> None)"

definition queue_close :: "'a queue \<Rightarrow> 'a queue \<times> 'a pc" where
  "queue_close q =
     (if closed q then (q, Idle)
      else (case chan_close (chans q ! cur q) of
              None \<Rightarrow> (q, Panicked)
            | Some c' \<Rightarrow>
                (q\<lparr>closed := True, gen := gen q + 1, chans := (chans q)[cur q := c']\<rparr>, Idle)))"

text \<open>What wakes a goroutine: a call of a method when it is between calls, its own next part, the
  timer of its \<^verbatim>\<open>select\<close>, or the end of its context.\<close>

datatype 'a choice = CallPush 'a | CallPop int | CallClear | CallClose | Proceed | Timer | CtxDone

definition begin_call :: "'a choice \<Rightarrow> 'a pc option" where
  "begin_call ch =
     (case ch of
        CallPush v \<Rightarrow> Some (PushAt v)
      | CallPop timeout \<Rightarrow> Some (PopAt timeout)
      | CallClear \<Rightarrow> Some ClearAt
      | CallClose \<Rightarrow> Some CloseAt
      | _ \<Rightarrow> None)"

definition proceed :: "'a queue \<Rightarrow> 'a pc \<Rightarrow> ('a queue \<times> 'a pc \<times> 'a qevent) option" where
  "proceed q pc =
     (case pc of
        PushAt v \<Rightarrow> Some (q, push_begin q v, Silent)
      | Sending v c g \<Rightarrow> safeQueueSend q v c g
      | Recheck v g \<Rightarrow> Some (q, push_recheck q v g, Silent)
      | PopAt timeout \<Rightarrow> Some (q, pop_begin q timeout, Silent)
      | Receiving timeout c \<Rightarrow> pop_recv q timeout c
      | ClearAt \<Rightarrow> (case clear_swap q of (q', pc') \<Rightarrow> Some (q', pc', Silent))
      | Draining c drained \<Rightarrow> drain q c drained
      | CloseAt \<Rightarrow> (case queue_close q of (q', pc') \<Rightarrow> Some (q', pc', Silent))
      | PushRet r \<Rightarrow> Some (q, Idle, Silent)
      | PopRet r \<Rightarrow> Some (q, Idle, Silent)
      | ClearRet r \<Rightarrow> Some (q, Idle, Silent)
      | Idle \<Rightarrow> None
      | Panicked \<Rightarrow> None)"

definition timer_fires :: "'a pc \<Rightarrow> 'a pc option" where
  "timer_fires pc =
     (case pc of
        Sending v c g \<Rightarrow> Some (PushRet (Some PushTimeout))
      | Receiving timeout c \<Rightarrow>
          if timeout > 0 then Some (PopRet (Inl ErrQueueTimeout)) else None
      | _ \<Rightarrow> None)"

definition ctx_done :: "'a pc \<Rightarrow> 'a pc option" where
  "ctx_done pc =
     (case pc of
        Receiving timeout c \<Rightarrow>
          if timeout < 0 then None
          else Some (PopRet (Inl (if timeout = 0 then ErrQueueCtxDone else CtxErr)))
      | _ \<Rightarrow> None)"

definition act :: "'a choice \<Rightarrow> 'a queue \<Rightarrow> 'a pc \<Rightarrow> ('a queue \<times> 'a pc \<times> 'a qevent) option" where
  "act ch q pc =
     (case ch of
        Proceed \<Rightarrow> proceed q pc
      | Timer \<Rightarrow> map_option (\<lambda>pc'. (q, pc', Silent)) (timer_fires pc)
      | CtxDone \<Rightarrow> map_option (\<lambda>pc'. (q, pc', Silent)) (ctx_done pc)
      | _ \<Rightarrow> if pc = Idle then map_option (\<lambda>pc'. (q, pc', Silent)) (begin_call ch) else None)"

type_synonym 'a qsys = "'a queue \<times> (nat \<Rightarrow> 'a pc)"

inductive qstep :: "'a qsys \<Rightarrow> 'a qevent \<Rightarrow> 'a qsys \<Rightarrow> bool" where
  step: "act ch q (p t) = Some (q', pc', e) \<Longrightarrow> qstep (q, p) e (q', p(t := pc'))"

inductive qrun :: "nat \<Rightarrow> 'a qevent list \<Rightarrow> 'a qsys \<Rightarrow> bool" for capacity where
  start: "qrun capacity [] (NewQueue capacity, \<lambda>_. Idle)"
| step: "qrun capacity es s \<Longrightarrow> qstep s e s' \<Longrightarrow> qrun capacity (es @ [e]) s'"

inductive_cases qstepE: "qstep (q, p) e s'"

text \<open>An executable run, for the witnesses: the goroutine and its choice, step by step.\<close>

fun schedule :: "'a qsys \<Rightarrow> (nat \<times> 'a choice) list \<Rightarrow> ('a qevent list \<times> 'a qsys) option" where
  "schedule s [] = Some ([], s)"
| "schedule (q, p) ((t, ch) # sch) =
     (case act ch q (p t) of
        None \<Rightarrow> None
      | Some (q', pc', e) \<Rightarrow>
          map_option (\<lambda>(es, s'). (e # es, s')) (schedule (q', p(t := pc')) sch))"

lemma schedule_qrun:
  "qrun capacity es0 s \<Longrightarrow> schedule s sch = Some (es, s') \<Longrightarrow> qrun capacity (es0 @ es) s'"
proof (induction s sch arbitrary: es0 es rule: schedule.induct)
  case (2 q p t ch sch)
  obtain q' pc' e es' where a: "act ch q (p t) = Some (q', pc', e)"
      "schedule (q', p(t := pc')) sch = Some (es', s')" "es = e # es'"
    using "2.prems"(2) by (auto split: option.splits)
  have "qrun capacity (es0 @ [e]) (q', p(t := pc'))"
    using "2.prems"(1) a(1) by (blast intro: qrun.step qstep.step)
  from "2.IH" [OF a(1) refl refl this a(2)] a(3) show ?case by simp
qed simp


section \<open>The invariant\<close>

definition chans_ok :: "'a queue \<Rightarrow> bool" where
  "chans_ok q \<longleftrightarrow>
     length (chans q) = Suc (cur q)
     \<and> gen q = word_of_nat (cur q + (if closed q then 1 else 0))
     \<and> (\<forall>i < length (chans q). ccap (chans q ! i) = qcap q \<and> length (cbuf (chans q ! i)) \<le> qcap q
          \<and> (cclosed (chans q ! i) \<longleftrightarrow> i < cur q \<or> closed q))"

definition pc_ok :: "'a queue \<Rightarrow> 'a pc \<Rightarrow> bool" where
  "pc_ok q pc =
     (case pc of
        Sending v c g \<Rightarrow> c \<le> cur q \<and> g = word_of_nat c
      | Recheck v g \<Rightarrow> (\<exists>c \<le> cur q. g = word_of_nat c \<and> cclosed (chans q ! c))
      | Receiving timeout c \<Rightarrow> c \<le> cur q
      | Draining c drained \<Rightarrow> c < cur q
      | PushRet r \<Rightarrow> r = Some ErrQueueClosed \<longrightarrow> cur q < 2 ^ 64 \<longrightarrow> closed q
      | Panicked \<Rightarrow> False
      | _ \<Rightarrow> True)"

definition later :: "'a queue \<Rightarrow> 'a queue \<Rightarrow> bool" where
  "later q q' \<longleftrightarrow> cur q \<le> cur q' \<and> (closed q \<longrightarrow> closed q') \<and> qcap q' = qcap q
     \<and> (\<forall>i \<le> cur q. cclosed (chans q ! i) \<longrightarrow> cclosed (chans q' ! i))"

definition buffered :: "'a queue \<Rightarrow> nat \<Rightarrow> 'a list" where
  "buffered q c = (if c < length (chans q) then cbuf (chans q ! c) else [])"

definition sent_on :: "nat \<Rightarrow> 'a qevent list \<Rightarrow> 'a list" where
  "sent_on c es = List.map_filter (\<lambda>e. case e of Sends d v \<Rightarrow> if d = c then Some v else None | _ \<Rightarrow> None) es"

definition received_on :: "nat \<Rightarrow> 'a qevent list \<Rightarrow> 'a list" where
  "received_on c es =
     List.map_filter (\<lambda>e. case e of Receives d v \<Rightarrow> if d = c then Some v else None | _ \<Rightarrow> None) es"

lemma later_refl [simp]: "later q q"
  by (simp add: later_def)

lemma pc_ok_later: "pc_ok q pc \<Longrightarrow> later q q' \<Longrightarrow> pc_ok q' pc"
proof (cases pc)
  case (Recheck v g)
  assume ok: "pc_ok q pc" and later: "later q q'"
  obtain c where c: "c \<le> cur q" "g = word_of_nat c" "cclosed (chans q ! c)"
    using ok Recheck by (auto simp: pc_ok_def)
  then have "c \<le> cur q'" "cclosed (chans q' ! c)" using later by (auto simp: later_def)
  with c(2) Recheck show ?thesis by (auto simp: pc_ok_def)
qed (simp_all add: pc_ok_def later_def)

lemma chans_ok_put:
  assumes "chans_ok q" and "c < length (chans q)" and "cclosed c' = cclosed (chans q ! c)"
    and "ccap c' = ccap (chans q ! c)" and "length (cbuf c') \<le> ccap c'"
  shows "chans_ok (q\<lparr>chans := (chans q)[c := c']\<rparr>)" and "later q (q\<lparr>chans := (chans q)[c := c']\<rparr>)"
  using assms by (auto simp: chans_ok_def later_def nth_list_update)

text \<open>What one part does to the queue: nothing, a send, a receive, a swap, or a close.\<close>

lemma safeQueueSend_ok:
  assumes "chans_ok q" and "c \<le> cur q" and "g = word_of_nat c"
    and "safeQueueSend q v c g = Some (q', pc', e)"
  shows "chans_ok q' \<and> later q q' \<and> pc_ok q' pc'"
proof -
  have c: "c < length (chans q)" using assms(1,2) by (simp add: chans_ok_def)
  show ?thesis
  proof (cases "chan_send (chans q ! c) v")
    case (Sent c')
    from chan.send_sent [OF Sent] assms(1,4) c chans_ok_put [of q c c'] show ?thesis
      by (auto simp: safeQueueSend_def Sent pc_ok_def)
  next
    case SendPanics
    then have "cclosed (chans q ! c)" by (simp add: chan.send_panics)
    with SendPanics assms show ?thesis by (auto simp: safeQueueSend_def pc_ok_def)
  qed (use assms in \<open>simp_all add: safeQueueSend_def\<close>)
qed

lemma receive_ok:
  assumes "chans_ok q" and "c \<le> cur q" and "chan_recv (chans q ! c) = Got v c'"
  shows "chans_ok (q\<lparr>chans := (chans q)[c := c']\<rparr>)" and "later q (q\<lparr>chans := (chans q)[c := c']\<rparr>)"
proof -
  have c: "c < length (chans q)" using assms(1,2) by (simp add: chans_ok_def)
  have l: "length (cbuf (chans q ! c)) \<le> ccap (chans q ! c)"
    using assms(1) c by (simp add: chans_ok_def)
  show "chans_ok (q\<lparr>chans := (chans q)[c := c']\<rparr>)" "later q (q\<lparr>chans := (chans q)[c := c']\<rparr>)"
    using chan.recv_got [OF assms(3)] l chans_ok_put [OF assms(1) c] by simp_all
qed

lemma push_recheck_ok:
  assumes "chans_ok q" and "pc_ok q (Recheck v g)"
  shows "pc_ok q (push_recheck q v g)"
proof -
  obtain c where c: "c \<le> cur q" "g = word_of_nat c" "cclosed (chans q ! c)"
    using assms(2) by (auto simp: pc_ok_def)
  have "gen q \<noteq> g" if "\<not> closed q" "cur q < 2 ^ 64"
  proof -
    have "c < cur q" using assms(1) c(1,3) that(1) by (auto simp: chans_ok_def)
    with that(2) have "c < 2 ^ 64" "c \<noteq> cur q" by simp_all
    then have "(word_of_nat c :: 64 word) \<noteq> word_of_nat (cur q)"
      using that(2) by (simp add: word64_of_nat_eq_iff)
    with assms(1) that(1) c(2) show ?thesis by (simp add: chans_ok_def)
  qed
  then show ?thesis by (auto simp: push_recheck_def pc_ok_def Let_def)
qed

lemma clear_swap_ok:
  assumes "chans_ok q" and "clear_swap q = (q', pc')"
  shows "chans_ok q' \<and> later q q' \<and> pc_ok q' pc'"
proof (cases "closed q")
  case False
  then have "\<not> cclosed (chans q ! cur q)" using assms(1) by (simp add: chans_ok_def)
  with assms False show ?thesis
    by (auto simp: clear_swap_def chan_close_def chans_ok_def later_def pc_ok_def nth_append
        nth_list_update less_Suc_eq)
qed (use assms in \<open>auto simp: clear_swap_def pc_ok_def\<close>)

lemma queue_close_ok:
  assumes "chans_ok q" and "queue_close q = (q', pc')"
  shows "chans_ok q' \<and> later q q' \<and> pc_ok q' pc'"
proof (cases "closed q")
  case False
  then have "\<not> cclosed (chans q ! cur q)" using assms(1) by (simp add: chans_ok_def)
  with assms False show ?thesis
    by (auto simp: queue_close_def chan_close_def chans_ok_def later_def pc_ok_def
        nth_list_update less_Suc_eq)
qed (use assms in \<open>auto simp: queue_close_def pc_ok_def\<close>)

lemma proceed_ok:
  assumes "chans_ok q" and "pc_ok q pc" and "proceed q pc = Some (q', pc', e)"
  shows "chans_ok q' \<and> later q q' \<and> pc_ok q' pc'"
proof (cases pc)
  case (Sending v c g)
  with assms safeQueueSend_ok [OF assms(1), of c g v] show ?thesis by (simp add: proceed_def pc_ok_def)
next
  case (Receiving timeout c)
  with assms receive_ok [OF assms(1), of c] show ?thesis
    by (auto simp: proceed_def pop_recv_def pc_ok_def split: received.splits if_splits)
next
  case (Draining c drained)
  with assms receive_ok [OF assms(1), of c] show ?thesis
    by (auto simp: proceed_def drain_def pc_ok_def later_def split: received.splits)
next
  case (Recheck v g)
  with assms push_recheck_ok [of q v g] show ?thesis by (auto simp: proceed_def)
next
  case ClearAt
  with assms clear_swap_ok [OF assms(1)] show ?thesis by (auto simp: proceed_def split: prod.splits)
next
  case CloseAt
  with assms queue_close_ok [OF assms(1)] show ?thesis by (auto simp: proceed_def split: prod.splits)
qed (use assms in \<open>auto simp: proceed_def pc_ok_def push_begin_def pop_begin_def chans_ok_def\<close>)

lemma act_ok:
  assumes "chans_ok q" and "pc_ok q pc" and "act ch q pc = Some (q', pc', e)"
  shows "chans_ok q' \<and> later q q' \<and> pc_ok q' pc'"
proof (cases "ch = Proceed")
  case True
  with assms proceed_ok [OF assms(1,2)] show ?thesis by (simp add: act_def)
next
  case False
  with assms have "q' = q" "pc_ok q pc'"
    by (cases ch; cases pc; force simp: act_def begin_call_def timer_fires_def ctx_done_def pc_ok_def
        split: if_splits)+
  with assms(1) show ?thesis by simp
qed

lemma qrun_ok: "qrun n es (q, p) \<Longrightarrow> chans_ok q \<and> qcap q = n \<and> (\<forall>t. pc_ok q (p t))"
proof (induction es "(q, p)" arbitrary: q p rule: qrun.induct)
  case start
  then show ?case by (simp add: NewQueue_def chans_ok_def pc_ok_def)
next
  case (step es s e q' p')
  obtain q p where s: "s = (q, p)" by (cases s)
  from step.hyps(3) obtain ch t pc' where
      a: "act ch q (p t) = Some (q', pc', e)" "p' = p(t := pc')"
    unfolding s by (auto elim: qstepE)
  from step.hyps(2) [OF s] have IH: "chans_ok q" "qcap q = n" "\<And>u. pc_ok q (p u)" by simp_all
  from act_ok [OF IH(1) IH(3) a(1)] IH(2) a(2) pc_ok_later [OF IH(3)] show ?case
    by (simp add: later_def)
qed


section \<open>Conservation\<close>

lemma traces [simp]:
  "sent_on c [] = []" "received_on c [] = []"
  "sent_on c (es @ es') = sent_on c es @ sent_on c es'"
  "received_on c (es @ es') = received_on c es @ received_on c es'"
  "sent_on c [Silent] = []" "received_on c [Silent] = []"
  "sent_on c [Drained d] = []" "received_on c [Drained d] = []"
  "sent_on c [Receives d v] = []" "received_on c [Sends d v] = []"
  "sent_on c [Sends d v] = (if d = c then [v] else [])"
  "received_on c [Receives d v] = (if d = c then [v] else [])"
  by (simp_all add: sent_on_def received_on_def List.map_filter_def)

text \<open>The bookkeeping of one step: every channel is first-in first-out, and a drained channel is
  empty for good.\<close>

definition accounted :: "'a queue \<Rightarrow> 'a qevent \<Rightarrow> 'a queue \<Rightarrow> bool" where
  "accounted q e q' \<longleftrightarrow>
     (\<forall>c. buffered q c @ sent_on c [e] = received_on c [e] @ buffered q' c)
     \<and> (\<forall>c < cur q. sent_on c [e] = []) \<and> (\<forall>c. e = Drained c \<longrightarrow> c < cur q \<and> buffered q c = [])"

lemma accounted_silent: "accounted q Silent q"
  by (simp add: accounted_def)

lemma buffered_put:
  "c < length (chans q) \<Longrightarrow>
   buffered (q\<lparr>chans := (chans q)[c := c']\<rparr>) d = (if d = c then cbuf c' else buffered q d)"
  by (simp add: buffered_def)

lemma safeQueueSend_accounted:
  assumes "chans_ok q" and "c \<le> cur q" and "safeQueueSend q v c g = Some (q', pc', e)"
  shows "accounted q e q'"
proof (cases "chan_send (chans q ! c) v")
  case (Sent c')
  have c: "c < length (chans q)" using assms(1,2) by (simp add: chans_ok_def)
  from chan.send_sent [OF Sent] have "\<not> cclosed (chans q ! c)" "cbuf c' = cbuf (chans q ! c) @ [v]"
    by simp_all
  with assms c Sent show ?thesis
    by (auto simp: safeQueueSend_def accounted_def buffered_put chans_ok_def) (simp add: buffered_def)
qed (use assms in \<open>simp_all add: safeQueueSend_def accounted_silent split: if_splits\<close>)

lemma receive_accounted:
  assumes "chans_ok q" and "c \<le> cur q" and "chan_recv (chans q ! c) = Got v c'"
  shows "accounted q (Receives c v) (q\<lparr>chans := (chans q)[c := c']\<rparr>)"
proof -
  have c: "c < length (chans q)" using assms(1,2) by (simp add: chans_ok_def)
  with chan.recv_got [OF assms(3)] show ?thesis
    by (simp add: accounted_def buffered_put) (simp add: buffered_def)
qed

lemma clear_swap_accounted:
  assumes "chans_ok q" and "clear_swap q = (q', pc')"
  shows "accounted q Silent q'"
proof -
  have "buffered q' c = buffered q c" for c
    using assms
    by (auto simp: clear_swap_def chan_close_def buffered_def chans_ok_def nth_append nth_list_update
        less_Suc_eq split: if_splits)
  then show ?thesis by (simp add: accounted_def)
qed

lemma queue_close_accounted:
  assumes "chans_ok q" and "queue_close q = (q', pc')"
  shows "accounted q Silent q'"
proof -
  have "buffered q' c = buffered q c" for c
    using assms
    by (auto simp: queue_close_def chan_close_def buffered_def chans_ok_def nth_list_update
        split: if_splits)
  then show ?thesis by (simp add: accounted_def)
qed

lemma proceed_accounted:
  assumes "chans_ok q" and "pc_ok q pc" and "proceed q pc = Some (q', pc', e)"
  shows "accounted q e q'"
proof (cases pc)
  case (Sending v c g)
  with assms safeQueueSend_accounted [OF assms(1), of c] show ?thesis
    by (simp add: proceed_def pc_ok_def)
next
  case (Receiving timeout c)
  with assms receive_accounted [OF assms(1), of c] show ?thesis
    by (auto simp: proceed_def pop_recv_def pc_ok_def accounted_silent
        split: received.splits if_splits)
next
  case (Draining c drained)
  have "buffered q c = []" if "chan_recv (chans q ! c) = GotZero"
    using that by (simp add: chan.recv_zero buffered_def)
  then have "accounted q (Drained c) q" if "chan_recv (chans q ! c) = GotZero"
    using that assms(2) Draining by (simp add: accounted_def pc_ok_def)
  with Draining assms receive_accounted [OF assms(1), of c] show ?thesis
    by (auto simp: proceed_def drain_def pc_ok_def split: received.splits)
next
  case ClearAt
  with assms clear_swap_accounted [OF assms(1)] show ?thesis
    by (auto simp: proceed_def split: prod.splits)
next
  case CloseAt
  with assms queue_close_accounted [OF assms(1)] show ?thesis
    by (auto simp: proceed_def split: prod.splits)
qed (use assms in \<open>auto simp: proceed_def accounted_silent\<close>)

lemma act_accounted:
  assumes "chans_ok q" and "pc_ok q pc" and "act ch q pc = Some (q', pc', e)"
  shows "accounted q e q'"
proof (cases "ch = Proceed")
  case True
  with assms proceed_accounted [OF assms(1,2)] show ?thesis by (simp add: act_def)
next
  case False
  with assms have "q' = q \<and> e = Silent" by (cases ch) (auto simp: act_def split: if_splits)
  then show ?thesis by (simp add: accounted_silent)
qed

lemma qrun_accounted:
  "qrun n es (q, p) \<Longrightarrow> sent_on c es = received_on c es @ buffered q c
     \<and> (Drained c \<in> set es \<longrightarrow> c < cur q \<and> buffered q c = [])"
proof (induction es "(q, p)" arbitrary: q p rule: qrun.induct)
  case start
  then show ?case by (simp add: NewQueue_def buffered_def)
next
  case (step es s e q' p')
  obtain q p where s: "s = (q, p)" by (cases s)
  from step.hyps(3) obtain ch t pc' where
      a: "act ch q (p t) = Some (q', pc', e)"
    unfolding s by (auto elim: qstepE)
  from step.hyps(1) s have ok: "chans_ok q" "pc_ok q (p t)" using qrun_ok [of n es q p] by simp_all
  have acc: "buffered q c @ sent_on c [e] = received_on c [e] @ buffered q' c"
      "c < cur q \<Longrightarrow> sent_on c [e] = []" "e = Drained c \<Longrightarrow> c < cur q \<and> buffered q c = []"
    using act_accounted [OF ok a] by (auto simp: accounted_def)
  have IH: "sent_on c es = received_on c es @ buffered q c"
      "Drained c \<in> set es \<Longrightarrow> c < cur q \<and> buffered q c = []"
    using step.hyps(2) [OF s] by blast+
  have "c < cur q'" "buffered q' c = []" if "Drained c \<in> set (es @ [e])"
  proof -
    have *: "c < cur q" "buffered q c = []" using that IH(2) acc(3) by auto
    with acc(1,2) show "buffered q' c = []" by simp
    show "c < cur q'" using * act_ok [OF ok a] by (simp add: later_def)
  qed
  with IH(1) acc(1) show ?case by simp
qed

section \<open>Properties\<close>

text \<open>C3: in every interleaving of pushes, pops, clears and closes, every channel of the queue
  delivers what was sent on it, in that order and each item once, to pops and drains together;
  what is left is in its buffer, which never exceeds the capacity; and a channel that
  \<^verbatim>\<open>ClearAndDrain\<close> has finished draining has delivered everything that was ever sent on it.\<close>

theorem queue_delivers_once_in_order:
  assumes "qrun capacity es (q, p)" and "c < length (chans q)"
  shows "sent_on c es = received_on c es @ cbuf (chans q ! c)
    \<and> length (cbuf (chans q ! c)) \<le> capacity
    \<and> (Drained c \<in> set es \<longrightarrow> sent_on c es = received_on c es)"
  using qrun_accounted [OF assms(1), of c] qrun_ok [OF assms(1)] assms(2)
  by (auto simp: buffered_def chans_ok_def)


definition demo_schedule :: "(nat \<times> nat choice) list" where
  \<comment> \<open>a push races with a clear and is retried on the new channel\<close>
  "demo_schedule =
     [(0, CallPush 5), (0, Proceed), (0, Proceed), (0, Proceed),
      (0, CallPush 6), (0, Proceed), (1, CallClear), (1, Proceed), (0, Proceed), (0, Proceed),
      (0, Proceed), (0, Proceed), (1, Proceed), (1, Proceed)]"

definition demo_run :: "nat qevent list \<times> nat qsys" where
  "demo_run = the (schedule (NewQueue 2, \<lambda>_. Idle) demo_schedule)"

lemma demo_run: "qrun 2 (fst demo_run) (fst (snd demo_run), snd (snd demo_run))"
proof -
  have "\<not> Option.is_none (schedule (NewQueue 2, \<lambda>_. Idle :: nat pc) demo_schedule)"
    by code_simp
  then have "schedule (NewQueue 2, \<lambda>_. Idle) demo_schedule = Some (fst demo_run, snd demo_run)"
    by (simp add: demo_run_def Option.is_none_def)
  from schedule_qrun [OF qrun.start this] show ?thesis by simp
qed

theorem queue_delivers_once_in_order_witness:
  "sent_on 0 (fst demo_run) = [5] \<and> Drained 0 \<in> set (fst demo_run)
    \<and> sent_on 0 (fst demo_run) = received_on 0 (fst demo_run)"
proof -
  have "0 < length (chans (fst (snd demo_run)))" "sent_on 0 (fst demo_run) = [5]"
      "Drained 0 \<in> set (fst demo_run)"
    by code_simp+
  with queue_delivers_once_in_order [OF demo_run] show ?thesis by blast
qed


end
