(* ===== verification/Resource_Pool.thy ===== *)
theory Resource_Pool
  imports Go_Channel
begin

text \<open>
  \<^verbatim>\<open>internal/util/resource_pool.go\<close>: the pool that hands out connections to speech services. A
  \<^verbatim>\<open>*pooledResource\<close> is identified with the resource it wraps (the factory makes a new resource at
  every call): \<open>managed\<close> holds the keys of the map \<^verbatim>\<open>resources\<close>, \<open>obj\<close> the fields of the wrappers, and
  \<open>destroyed\<close> the calls of \<^verbatim>\<open>Resource.Close\<close>. The answers of the factory and of the resources
  (\<^verbatim>\<open>Create\<close>, \<^verbatim>\<open>Validate\<close>, \<^verbatim>\<open>IsValid\<close>, \<^verbatim>\<open>Reset\<close>) and the clock come from the caller.
\<close>

record pooled =
  createTime :: int
  lastUsed :: int
  inUse :: bool

record pool_config =
  MaxSize :: int
  MinSize :: int
  MaxIdle :: int
  IdleTimeout :: int
  ValidateOnBorrow :: bool
  ValidateOnReturn :: bool

record 'r pool =
  config :: pool_config
  available :: "'r chan"
  managed :: "'r list"
  obj :: "'r \<Rightarrow> pooled"
  pool_closed :: bool
  destroyed :: "'r list"

datatype pool_error =
    MaxSizeNotPositive | MinSizeNegative | MinAboveMax | CreateFailed nat
  | PoolClosed | PoolFull | AcquireTimeout | NotManaged | NotInUse | NewSizeNotPositive

record 'r answers =
  valid :: bool \<comment> \<open>\<^verbatim>\<open>resource.IsValid() && factory.Validate(resource)\<close>\<close>
  resets :: bool
  created :: "'r option"
  now :: int

section \<open>Operations under the lock\<close>

definition destroyResourceUnsafe :: "'r pool \<Rightarrow> 'r \<Rightarrow> 'r pool" where
  "destroyResourceUnsafe p r =
     p\<lparr>managed := removeAll r (managed p), destroyed := destroyed p @ [r]\<rparr>"

definition close_all :: "'r pool \<Rightarrow> 'r pool" where
  \<comment> \<open>the second half of \<^verbatim>\<open>Close\<close>\<close>
  "close_all p =
     (let avail = cbuf (available p);
          p1 = foldl destroyResourceUnsafe
                 (p\<lparr>available := (available p)\<lparr>cbuf := [], cclosed := True\<rparr>\<rparr>) avail
      in foldl destroyResourceUnsafe p1 (managed p1))"

fun preCreate :: "'r pool \<Rightarrow> (nat \<Rightarrow> 'r option) \<Rightarrow> int \<Rightarrow> nat \<Rightarrow> nat \<Rightarrow> 'r pool \<times> nat option" where
  \<comment> \<open>the second component is the index at which \<^verbatim>\<open>Create\<close> failed\<close>
  "preCreate p create tm i 0 = (p, None)"
| "preCreate p create tm i (Suc k) =
     (case create i of
        None \<Rightarrow> (p, Some i)
      | Some r \<Rightarrow>
          (case chan_send (available p) r of
             Sent c \<Rightarrow>
               preCreate (p\<lparr>managed := managed p @ [r],
                   obj := (obj p)(r := \<lparr>createTime = tm, lastUsed = tm, inUse = False\<rparr>),
                   available := c\<rparr>) create tm (Suc i) k
           | _ \<Rightarrow> (p, Some i)))"

definition NewResourcePool :: "pool_config \<Rightarrow> (nat \<Rightarrow> 'r option) \<Rightarrow> int \<Rightarrow> pool_error + 'r pool" where
  "NewResourcePool cfg create tm =
     (if MaxSize cfg \<le> 0 then Inl MaxSizeNotPositive
      else if MinSize cfg < 0 then Inl MinSizeNegative
      else if MinSize cfg > MaxSize cfg then Inl MinAboveMax
      else
        (case preCreate \<lparr>config = cfg, available = make_chan (nat (MaxSize cfg)), managed = [],
               obj = (\<lambda>_. \<lparr>createTime = 0, lastUsed = 0, inUse = False\<rparr>), pool_closed = False,
               destroyed = []\<rparr> create tm 0 (nat (MinSize cfg)) of
           (p, None) \<Rightarrow> Inr p
         | (p, Some i) \<Rightarrow> Inl (CreateFailed i)))"

definition tryCreateResource :: "'r pool \<Rightarrow> 'r answers \<Rightarrow> 'r pool \<times> 'r option" where
  "tryCreateResource p a =
     (if int (length (managed p)) \<ge> MaxSize (config p) then (p, None)
      else (case created a of
              None \<Rightarrow> (p, None)
            | Some r \<Rightarrow>
                (p\<lparr>managed := managed p @ [r],
                   obj := (obj p)(r := \<lparr>createTime = now a, lastUsed = now a, inUse = True\<rparr>)\<rparr>,
                 Some r)))"

definition Release :: "'r pool \<Rightarrow> 'r answers \<Rightarrow> 'r \<Rightarrow> 'r pool \<times> pool_error option" where
  "Release p a r =
     (if pool_closed p then (p, Some PoolClosed)
      else if r \<notin> set (managed p) then (p, Some NotManaged)
      else if \<not> inUse (obj p r) then (p, Some NotInUse)
      else if ValidateOnReturn (config p) \<and> \<not> valid a then (destroyResourceUnsafe p r, None)
      else if int (length (cbuf (available p))) \<ge> MaxIdle (config p)
        then (destroyResourceUnsafe p r, None)
      else
        (let p' = p\<lparr>obj := (obj p)(r := (obj p r)\<lparr>inUse := False, lastUsed := now a\<rparr>)\<rparr>
         in case chan_send (available p') r of
              Sent c \<Rightarrow> (p'\<lparr>available := c\<rparr>, None)
            | _ \<Rightarrow> (destroyResourceUnsafe p' r, None)))"

text \<open>The loop of \<^verbatim>\<open>Resize\<close>: its \<^verbatim>\<open>break\<close> leaves only the \<^verbatim>\<open>select\<close>, so the loop goes on when no
  resource is available. \<open>None\<close> is a call that never returns (and never gives up the lock).\<close>

partial_function (option) shrink :: "'r pool \<Rightarrow> int \<Rightarrow> 'r pool option" where
  "shrink p excess =
     (if excess > 0 then
        (case chan_recv (available p) of
           Got r c \<Rightarrow> shrink (destroyResourceUnsafe (p\<lparr>available := c\<rparr>) r) (excess - 1)
         | _ \<Rightarrow> shrink p excess)
      else Some p)"

definition Resize :: "'r pool \<Rightarrow> int \<Rightarrow> ('r pool \<times> pool_error option) option" where
  "Resize p newMaxSize =
     (if newMaxSize \<le> 0 then Some (p, Some NewSizeNotPositive)
      else if pool_closed p then Some (p, Some PoolClosed)
      else
        (let oldMaxSize = MaxSize (config p);
             p' = p\<lparr>config := (config p)\<lparr>MaxSize := newMaxSize\<rparr>\<rparr>
         in if newMaxSize < oldMaxSize
            then map_option (\<lambda>q. (q, None)) (shrink p' (int (length (managed p')) - newMaxSize))
            else Some (p', None)))"

fun idle_scan :: "('r \<Rightarrow> pooled) \<Rightarrow> int \<Rightarrow> int \<Rightarrow> 'r list \<Rightarrow> 'r list \<Rightarrow> 'r list \<times> 'r list" where
  "idle_scan ob tm timeout toRemove [] = (toRemove, [])"
| "idle_scan ob tm timeout toRemove (r # rs) =
     (if tm - lastUsed (ob r) > timeout then idle_scan ob tm timeout (toRemove @ [r]) rs
      else (toRemove, rs @ [r]))"

definition cleanupIdleResources :: "'r pool \<Rightarrow> int \<Rightarrow> 'r pool" where
  "cleanupIdleResources p tm =
     (if pool_closed p then p
      else
        (let (toRemove, avail) =
               idle_scan (obj p) tm (IdleTimeout (config p)) [] (cbuf (available p))
         in foldl destroyResourceUnsafe
              (p\<lparr>available := (available p)\<lparr>cbuf := avail\<rparr>\<rparr>) toRemove))"

record pool_stats =
  total_resources :: nat
  available_resources :: nat
  in_use_resources :: nat

definition Stats :: "'r pool \<Rightarrow> pool_stats" where
  "Stats p = \<lparr>total_resources = length (managed p),
     available_resources = length (cbuf (available p)),
     in_use_resources = length (filter (\<lambda>r. inUse (obj p r)) (managed p))\<rparr>"

section \<open>Acquire, part by part\<close>

datatype 'r ppc =
    Ready
  | AcqAt
  | AcqLoop
  | AcqDefault \<comment> \<open>the \<^verbatim>\<open>default\<close> case: about to call \<^verbatim>\<open>tryCreateResource\<close>\<close>
  | AcqTaken 'r
  | AcqReset 'r
  | AcqMark 'r
  | Holding 'r \<comment> \<open>\<^verbatim>\<open>Acquire\<close> has returned the resource\<close>
  | Failed pool_error
  | Closing \<comment> \<open>between the two locked parts of \<^verbatim>\<open>Close\<close>\<close>
  | NilPanic

definition acquire_select :: "'r pool \<Rightarrow> 'r pool \<times> 'r ppc" where
  \<comment> \<open>the zero value of a closed channel is a nil pointer, dereferenced in either configuration\<close>
  "acquire_select p =
     (case chan_recv (available p) of
        Got r c \<Rightarrow> (p\<lparr>available := c\<rparr>, AcqTaken r)
      | GotZero \<Rightarrow> (p, NilPanic)
      | RecvBlocks \<Rightarrow> (p, AcqDefault))"

definition acquire_part :: "'r pool \<Rightarrow> 'r answers \<Rightarrow> 'r ppc \<Rightarrow> ('r pool \<times> 'r ppc) option" where
  "acquire_part p a pc =
     (case pc of
        AcqAt \<Rightarrow> Some (p, if pool_closed p then Failed PoolClosed else AcqLoop)
      | AcqLoop \<Rightarrow> Some (acquire_select p)
      | AcqDefault \<Rightarrow>
          (case tryCreateResource p a of
             (p', Some r) \<Rightarrow> Some (p', Holding r)
           | (p', None) \<Rightarrow> Some (p', AcqLoop))
      | AcqTaken r \<Rightarrow>
          if ValidateOnBorrow (config p) \<and> \<not> valid a
          then Some (destroyResourceUnsafe p r, AcqDefault) else Some (p, AcqReset r)
      | AcqReset r \<Rightarrow>
          if \<not> resets a then Some (destroyResourceUnsafe p r, AcqLoop) else Some (p, AcqMark r)
      | AcqMark r \<Rightarrow>
          Some (p\<lparr>obj := (obj p)(r := (obj p r)\<lparr>inUse := True, lastUsed := now a\<rparr>)\<rparr>, Holding r)
      | _ \<Rightarrow> None)"

datatype pool_call = Acquire | Proceed | CtxDone | GiveBack | Tick | SetMax int | Shut

definition pool_act :: "pool_call \<Rightarrow> 'r answers \<Rightarrow> 'r pool \<Rightarrow> 'r ppc \<Rightarrow> ('r pool \<times> 'r ppc) option" where
  "pool_act call a p pc =
     (case (call, pc) of
        (Acquire, Ready) \<Rightarrow> Some (p, AcqAt)
      | (Proceed, Closing) \<Rightarrow> Some (close_all p, Ready)
      | (Proceed, Failed e) \<Rightarrow> Some (p, Ready)
      | (Proceed, _) \<Rightarrow> acquire_part p a pc
      | (CtxDone, AcqLoop) \<Rightarrow> Some (p, Failed AcquireTimeout)
      | (GiveBack, Holding r) \<Rightarrow>
          (case Release p a r of
             (p', None) \<Rightarrow> Some (p', Ready)
           | (p', Some e) \<Rightarrow> Some (p', Failed e))
      | (Tick, Ready) \<Rightarrow> Some (cleanupIdleResources p (now a), Ready)
      | (SetMax n, Ready) \<Rightarrow> map_option (\<lambda>(p', e). (p', Ready)) (Resize p n)
      | (Shut, Ready) \<Rightarrow>
          if pool_closed p then Some (p, Ready) else Some (p\<lparr>pool_closed := True\<rparr>, Closing)
      | _ \<Rightarrow> None)"


section \<open>Runs\<close>

text \<open>Any goroutine takes its next part. \<open>made\<close> remembers what the factory has made: \<^verbatim>\<open>Create\<close>
  returns a new resource at every call.\<close>

type_synonym 'r psys = "'r pool \<times> (nat \<Rightarrow> 'r ppc) \<times> 'r set"

inductive pool_step :: "int \<Rightarrow> 'r psys \<Rightarrow> 'r psys \<Rightarrow> bool" for N where
  "pool_act call a p (pcs t) = Some (p', pc') \<Longrightarrow>
   (\<And>r. created a = Some r \<Longrightarrow> r \<notin> made) \<Longrightarrow> (\<And>n. call = SetMax n \<Longrightarrow> n \<le> N) \<Longrightarrow>
   pool_step N (p, pcs, made) (p', pcs(t := pc'), made \<union> set_option (created a))"

inductive pool_run :: "int \<Rightarrow> 'r psys \<Rightarrow> bool" for N where
  fresh: "NewResourcePool cfg create tm = Inr p \<Longrightarrow> inj_on create {i. create i \<noteq> None} \<Longrightarrow>
    MaxSize cfg \<le> N \<Longrightarrow>
    pool_run N (p, \<lambda>_. Ready, {r. \<exists>i. create i = Some r})"
| later: "pool_run N s \<Longrightarrow> pool_step N s s' \<Longrightarrow> pool_run N s'"

inductive_cases pool_stepE: "pool_step N (p, pcs, made) s'"

definition owned :: "'r ppc \<Rightarrow> 'r option" where
  "owned pc =
     (case pc of AcqTaken r \<Rightarrow> Some r | AcqReset r \<Rightarrow> Some r | AcqMark r \<Rightarrow> Some r
      | Holding r \<Rightarrow> Some r | _ \<Rightarrow> None)"

lemma owned_simps [simp]:
  "owned Ready = None" "owned AcqAt = None" "owned AcqLoop = None" "owned AcqDefault = None"
  "owned (AcqTaken r) = Some r" "owned (AcqReset r) = Some r" "owned (AcqMark r) = Some r"
  "owned (Holding r) = Some r" "owned (Failed e) = None" "owned Closing = None"
  "owned NilPanic = None"
  by (simp_all add: owned_def)

abbreviation avail :: "'r pool \<Rightarrow> 'r list" where "avail p \<equiv> cbuf (available p)"

text \<open>The part of the invariant about the pool alone, and the part about who owns what.\<close>

definition store_ok :: "int \<Rightarrow> 'r pool \<Rightarrow> 'r set \<Rightarrow> bool" where
  "store_ok N p made \<longleftrightarrow>
     distinct (managed p) \<and> set (managed p) \<subseteq> made \<and> int (length (managed p)) \<le> N
     \<and> MaxSize (config p) \<le> N \<and> set (destroyed p) \<subseteq> made
     \<and> set (destroyed p) \<inter> set (managed p) = {} \<and> distinct (avail p)
     \<and> set (avail p) \<subseteq> set (managed p) \<and> (\<forall>r \<in> set (avail p). \<not> inUse (obj p r))
     \<and> (\<not> pool_closed p \<longrightarrow> \<not> cclosed (available p) \<and> distinct (destroyed p))"

definition owners_ok :: "'r pool \<Rightarrow> (nat \<Rightarrow> 'r ppc) \<Rightarrow> 'r set \<Rightarrow> bool" where
  "owners_ok p pcs made \<longleftrightarrow>
     (\<forall>t r. owned (pcs t) = Some r \<longrightarrow> r \<in> made \<and> r \<notin> set (avail p))
     \<and> (\<forall>t t' r. owned (pcs t) = Some r \<longrightarrow> owned (pcs t') = Some r \<longrightarrow> t = t')
     \<and> (\<not> pool_closed p \<longrightarrow>
          (\<forall>t r. owned (pcs t) = Some r \<longrightarrow>
             r \<in> set (managed p) \<and> (inUse (obj p r) \<longleftrightarrow> pcs t = Holding r))
          \<and> (\<forall>r \<in> set (managed p). r \<in> set (avail p) \<or> (\<exists>t. owned (pcs t) = Some r))
          \<and> (\<forall>t. pcs t \<noteq> NilPanic))"

section \<open>The effects of the parts\<close>

lemma destroy_simps [simp]:
  "managed (destroyResourceUnsafe p r) = removeAll r (managed p)"
  "available (destroyResourceUnsafe p r) = available p"
  "destroyed (destroyResourceUnsafe p r) = destroyed p @ [r]"
  "obj (destroyResourceUnsafe p r) = obj p"
  "config (destroyResourceUnsafe p r) = config p"
  "pool_closed (destroyResourceUnsafe p r) = pool_closed p"
  by (simp_all add: destroyResourceUnsafe_def)

lemma length_removeAll_le: "length (removeAll x xs) \<le> length xs"
  by (simp add: removeAll_filter_not_eq)

lemma store_destroy:
  assumes "store_ok N p made" and "r \<in> made" and "r \<notin> set (avail p)"
    and "pool_closed p \<or> r \<in> set (managed p)"
  shows "store_ok N (destroyResourceUnsafe p r) made"
proof -
  have "int (length (removeAll r (managed p))) \<le> N"
    using assms(1) length_removeAll_le [of r "managed p"] unfolding store_ok_def by linarith
  with assms show ?thesis by (auto simp: store_ok_def distinct_removeAll)
qed

lemma store_pop:
  assumes "store_ok N p made" and "chan_recv (available p) = Got r c"
  shows "store_ok N (p\<lparr>available := c\<rparr>) made" and "r \<in> set (managed p)" and "r \<notin> set (cbuf c)"
    and "\<not> inUse (obj p r)" and "avail p = r # cbuf c" and "r \<in> made"
  using assms chan.recv_got [OF assms(2)] by (auto simp: store_ok_def)

lemma owners_okI:
  assumes "\<And>t r. owned (pcs t) = Some r \<Longrightarrow> r \<in> made \<and> r \<notin> set (avail p)"
    and "\<And>t t' r. owned (pcs t) = Some r \<Longrightarrow> owned (pcs t') = Some r \<Longrightarrow> t = t'"
    and "\<And>t r. \<not> pool_closed p \<Longrightarrow> owned (pcs t) = Some r \<Longrightarrow>
      r \<in> set (managed p) \<and> (inUse (obj p r) \<longleftrightarrow> pcs t = Holding r)"
    and "\<And>r. \<not> pool_closed p \<Longrightarrow> r \<in> set (managed p) \<Longrightarrow> r \<notin> set (avail p) \<Longrightarrow>
      \<exists>t. owned (pcs t) = Some r"
    and "\<And>t. \<not> pool_closed p \<Longrightarrow> pcs t \<noteq> NilPanic"
  shows "owners_ok p pcs made"
  using assms unfolding owners_ok_def by blast

lemma owners_okD:
  assumes "owners_ok p pcs made"
  shows "owned (pcs t) = Some r \<Longrightarrow> r \<in> made" and "owned (pcs t) = Some r \<Longrightarrow> r \<notin> set (avail p)"
    and "owned (pcs t) = Some r \<Longrightarrow> owned (pcs t') = Some r \<Longrightarrow> t = t'"
    and "\<not> pool_closed p \<Longrightarrow> owned (pcs t) = Some r \<Longrightarrow> r \<in> set (managed p)"
    and "\<not> pool_closed p \<Longrightarrow> owned (pcs t) = Some r \<Longrightarrow> inUse (obj p r) \<longleftrightarrow> pcs t = Holding r"
    and "\<not> pool_closed p \<Longrightarrow> r \<in> set (managed p) \<Longrightarrow> r \<notin> set (avail p) \<Longrightarrow>
      \<exists>t. owned (pcs t) = Some r"
    and "\<not> pool_closed p \<Longrightarrow> pcs t \<noteq> NilPanic"
  using assms unfolding owners_ok_def by blast+

text \<open>Giving up a resource: its owner lets go of it, and it leaves the managed set, becomes
  available, or the pool is closed.\<close>

lemma owners_drop:
  assumes ok: "owners_ok p pcs made" and t: "owned (pcs t) = Some r" and pc': "owned pc' = None"
    "pc' \<noteq> NilPanic"
    and p': "\<And>x. x \<noteq> r \<Longrightarrow> x \<in> set (managed p') \<longleftrightarrow> x \<in> set (managed p)"
      "\<And>x. x \<noteq> r \<Longrightarrow> x \<in> set (avail p') \<longleftrightarrow> x \<in> set (avail p)"
      "\<And>x. x \<noteq> r \<Longrightarrow> obj p' x = obj p x" "pool_closed p' = pool_closed p"
      "pool_closed p \<or> r \<notin> set (managed p') \<or> r \<in> set (avail p')"
  shows "owners_ok p' (pcs(t := pc')) made"
proof (rule owners_okI)
  note D = owners_okD [OF ok]
  have other: "u \<noteq> t \<and> owned (pcs u) = Some x \<and> x \<noteq> r" if "owned ((pcs(t := pc')) u) = Some x" for u x
    using that pc'(1) D(3) [OF t, of u] by (cases "u = t") auto
  show "x \<in> made \<and> x \<notin> set (avail p')" if "owned ((pcs(t := pc')) u) = Some x" for u x
    using other [OF that] D(1) [of u x] D(2) [of u x] p'(2) [of x] by simp
  show "u = v" if "owned ((pcs(t := pc')) u) = Some x" "owned ((pcs(t := pc')) v) = Some x" for u v x
    using other [OF that(1)] other [OF that(2)] D(3) by blast
  show "x \<in> set (managed p') \<and> (inUse (obj p' x) \<longleftrightarrow> (pcs(t := pc')) u = Holding x)"
    if "\<not> pool_closed p'" "owned ((pcs(t := pc')) u) = Some x" for u x
    using other [OF that(2)] D(4) [of u x] D(5) [of u x] p'(1) [of x] p'(3) [of x] p'(4) that(1) by simp
  show "\<exists>u. owned ((pcs(t := pc')) u) = Some x"
    if x: "\<not> pool_closed p'" "x \<in> set (managed p')" "x \<notin> set (avail p')" for x
  proof -
    have "x \<noteq> r" using x p'(4,5) by auto
    then obtain u where "owned (pcs u) = Some x" using D(6) [of x] x p'(1,2,4) by blast
    moreover with t \<open>x \<noteq> r\<close> have "u \<noteq> t" by auto
    ultimately show ?thesis by (metis fun_upd_other)
  qed
  show "(pcs(t := pc')) u \<noteq> NilPanic" if "\<not> pool_closed p'" for u
    using D(7) [of u] that p'(4) pc'(2) by simp
qed

text \<open>Getting hold of a resource that nobody owns.\<close>

lemma owners_gain:
  assumes ok: "owners_ok p pcs made" and t: "owned (pcs t) = None" and pc': "owned pc' = Some r"
    and r: "r \<in> made'" "made \<subseteq> made'" "\<And>u. owned (pcs u) \<noteq> Some r" "r \<notin> set (avail p')"
      "r \<in> set (managed p')" "inUse (obj p' r) \<longleftrightarrow> pc' = Holding r"
    and p': "\<And>x. x \<noteq> r \<Longrightarrow> x \<in> set (managed p') \<longleftrightarrow> x \<in> set (managed p)"
      "\<And>x. x \<noteq> r \<Longrightarrow> x \<in> set (avail p') \<longleftrightarrow> x \<in> set (avail p)"
      "\<And>x. x \<noteq> r \<Longrightarrow> obj p' x = obj p x" "pool_closed p' = pool_closed p"
  shows "owners_ok p' (pcs(t := pc')) made'"
proof (rule owners_okI)
  note D = owners_okD [OF ok]
  have cases: "u = t \<and> x = r \<or> u \<noteq> t \<and> x \<noteq> r \<and> owned (pcs u) = Some x"
    if "owned ((pcs(t := pc')) u) = Some x" for u x
    using that pc' r(3) [of u] by (cases "u = t") auto
  show "x \<in> made' \<and> x \<notin> set (avail p')" if "owned ((pcs(t := pc')) u) = Some x" for u x
    using cases [OF that] r(1,2,4) D(1) [of u x] D(2) [of u x] p'(2) [of x] by auto
  show "u = v" if "owned ((pcs(t := pc')) u) = Some x" "owned ((pcs(t := pc')) v) = Some x" for u v x
    using cases [OF that(1)] cases [OF that(2)] D(3) by blast
  show "x \<in> set (managed p') \<and> (inUse (obj p' x) \<longleftrightarrow> (pcs(t := pc')) u = Holding x)"
    if "\<not> pool_closed p'" "owned ((pcs(t := pc')) u) = Some x" for u x
    using cases [OF that(2)] r(5,6) D(4) [of u x] D(5) [of u x] p'(1) [of x] p'(3) [of x] p'(4) that(1)
    by (elim disjE) simp_all
  show "\<exists>u. owned ((pcs(t := pc')) u) = Some x"
    if x: "\<not> pool_closed p'" "x \<in> set (managed p')" "x \<notin> set (avail p')" for x
  proof (cases "x = r")
    case True
    with pc' show ?thesis by (metis fun_upd_same)
  next
    case False
    then obtain u where "owned (pcs u) = Some x" using D(6) [of x] x p'(1,2,4) by blast
    moreover with t have "u \<noteq> t" by auto
    ultimately show ?thesis by (metis fun_upd_other)
  qed
  show "(pcs(t := pc')) u \<noteq> NilPanic" if "\<not> pool_closed p'" for u
    using D(7) [of u] that p'(4) pc' by auto
qed

lemma owners_move:
  assumes "owners_ok p pcs made" and "owned pc' = owned (pcs t)"
    and "\<And>r. pc' = Holding r \<longleftrightarrow> pcs t = Holding r" and "pc' \<noteq> NilPanic \<or> pool_closed p"
  shows "owners_ok p (pcs(t := pc')) made"
proof (rule owners_okI)
  note D = owners_okD [OF assms(1)]
  have o: "owned ((pcs(t := pc')) u) = owned (pcs u)" for u using assms(2) by simp
  have h: "(pcs(t := pc')) u = Holding r \<longleftrightarrow> pcs u = Holding r" for u r using assms(3) by simp
  show "x \<in> made \<and> x \<notin> set (avail p)" if "owned ((pcs(t := pc')) u) = Some x" for u x
    using that D(1,2) unfolding o by blast
  show "u = v" if "owned ((pcs(t := pc')) u) = Some x" "owned ((pcs(t := pc')) v) = Some x" for u v x
    using that D(3) unfolding o by blast
  show "x \<in> set (managed p) \<and> (inUse (obj p x) \<longleftrightarrow> (pcs(t := pc')) u = Holding x)"
    if "\<not> pool_closed p" "owned ((pcs(t := pc')) u) = Some x" for u x
    using that D(4,5) unfolding o h by blast
  show "\<exists>u. owned ((pcs(t := pc')) u) = Some x"
    if x: "\<not> pool_closed p" "x \<in> set (managed p)" "x \<notin> set (avail p)" for x
    using that D(6) unfolding o by blast
  show "(pcs(t := pc')) u \<noteq> NilPanic" if "\<not> pool_closed p" for u
    using D(7) [of u] that assms(4) by auto
qed


lemma owners_mark:
  assumes ok: "owners_ok p pcs made" and t: "pcs t = AcqMark r"
    and p': "p' = p\<lparr>obj := (obj p)(r := ob)\<rparr>" and ob: "inUse ob"
  shows "owners_ok p' (pcs(t := Holding r)) made"
proof (rule owners_okI)
  note D = owners_okD [OF ok]
  have tr: "owned (pcs t) = Some r" using t by simp
  have o: "owned ((pcs(t := Holding r)) u) = owned (pcs u)" for u using t by simp
  show "x \<in> made \<and> x \<notin> set (avail p')" if "owned ((pcs(t := Holding r)) u) = Some x" for u x
    using that D(1,2) unfolding o p' by simp
  show "u = v"
    if "owned ((pcs(t := Holding r)) u) = Some x" "owned ((pcs(t := Holding r)) v) = Some x" for u v x
    using that D(3) unfolding o by blast
  show "x \<in> set (managed p') \<and> (inUse (obj p' x) \<longleftrightarrow> (pcs(t := Holding r)) u = Holding x)"
    if "\<not> pool_closed p'" "owned ((pcs(t := Holding r)) u) = Some x" for u x
  proof -
    have u: "owned (pcs u) = Some x" using that(2) unfolding o .
    show ?thesis
    proof (cases "u = t")
      case True
      with u tr that(1) D(4) [of t r] ob show ?thesis by (simp add: p')
    next
      case False
      with D(3) [OF tr, of u] u have "x \<noteq> r" by auto
      with False that(1) D(4) [of u x] D(5) [of u x] u show ?thesis by (simp add: p')
    qed
  qed
  show "\<exists>u. owned ((pcs(t := Holding r)) u) = Some x"
    if x: "\<not> pool_closed p'" "x \<in> set (managed p')" "x \<notin> set (avail p')" for x
    using that D(6) unfolding o p' by simp
  show "(pcs(t := Holding r)) u \<noteq> NilPanic" if "\<not> pool_closed p'" for u
    using D(7) [of u] that p' by auto
qed

text \<open>Operations of the pool that touch no owned resource.\<close>

lemma owners_pool:
  assumes ok: "owners_ok p pcs made" and closed: "pool_closed p \<Longrightarrow> pool_closed p'"
    and own: "\<And>t x. owned (pcs t) = Some x \<Longrightarrow> x \<notin> set (avail p')"
    and man: "\<And>x. \<not> pool_closed p' \<Longrightarrow> x \<notin> set (avail p) \<Longrightarrow>
      x \<notin> set (avail p') \<and> (x \<in> set (managed p') \<longleftrightarrow> x \<in> set (managed p)) \<and> obj p' x = obj p x"
    and gone: "\<And>x. \<not> pool_closed p' \<Longrightarrow> x \<in> set (managed p') \<Longrightarrow> x \<in> set (avail p) \<Longrightarrow>
      x \<in> set (avail p')"
  shows "owners_ok p' pcs made"
proof (rule owners_okI)
  note D = owners_okD [OF ok]
  show "x \<in> made \<and> x \<notin> set (avail p')" if "owned (pcs u) = Some x" for u x
    using D(1) own that by blast
  show "u = v" if "owned (pcs u) = Some x" "owned (pcs v) = Some x" for u v x using D(3) that .
  show "x \<in> set (managed p') \<and> (inUse (obj p' x) \<longleftrightarrow> pcs u = Holding x)"
    if "\<not> pool_closed p'" "owned (pcs u) = Some x" for u x
    using D(2) [OF that(2)] D(4,5) [of u x] closed man [of x] that by auto
  show "\<exists>u. owned (pcs u) = Some x"
    if "\<not> pool_closed p'" "x \<in> set (managed p')" "x \<notin> set (avail p')" for x
    using that D(6) [of x] closed man [of x] gone [of x] by blast
  show "pcs u \<noteq> NilPanic" if "\<not> pool_closed p'" for u using D(7) [of u] that closed by blast
qed

lemma destroy_all_simps [simp]:
  "managed (foldl destroyResourceUnsafe p rs) = filter (\<lambda>x. x \<notin> set rs) (managed p)"
  "available (foldl destroyResourceUnsafe p rs) = available p"
  "destroyed (foldl destroyResourceUnsafe p rs) = destroyed p @ rs"
  "obj (foldl destroyResourceUnsafe p rs) = obj p"
  "config (foldl destroyResourceUnsafe p rs) = config p"
  "pool_closed (foldl destroyResourceUnsafe p rs) = pool_closed p"
  by (induction rs arbitrary: p) (auto simp: removeAll_filter_not_eq intro!: filter_cong)

text \<open>Destroying part \<open>rs\<close> of the available resources and keeping the others, in any order.\<close>

definition retire :: "'r pool \<Rightarrow> 'r list \<Rightarrow> 'r list \<Rightarrow> 'r pool" where
  "retire p rs keep =
     foldl destroyResourceUnsafe (p\<lparr>available := (available p)\<lparr>cbuf := keep\<rparr>\<rparr>) rs"

lemma retire_ok:
  assumes "store_ok N p made" and "owners_ok p pcs made" and "mset (avail p) = mset (rs @ keep)"
  shows "store_ok N (retire p rs keep) made" and "owners_ok (retire p rs keep) pcs made"
proof -
  have d: "distinct (rs @ keep)" "set (avail p) = set rs \<union> set keep"
    using assms(1,3) mset_eq_imp_distinct_iff [OF assms(3)] mset_eq_setD [OF assms(3)]
    by (auto simp: store_ok_def)
  have len: "int (length (filter (\<lambda>x. x \<notin> set rs) (managed p))) \<le> N"
    using assms(1) length_filter_le [of "\<lambda>x. x \<notin> set rs" "managed p"] unfolding store_ok_def
    by linarith
  from d len assms(1) show "store_ok N (retire p rs keep) made"
    by (auto simp: store_ok_def retire_def)
  show "owners_ok (retire p rs keep) pcs made"
    using d(2) owners_okD(2) [OF assms(2)]
    by (intro owners_pool [OF assms(2)]) (auto simp: retire_def)
qed

lemma idle_scan_mset:
  "idle_scan ob tm timeout acc rs = (gone, keep) \<Longrightarrow> mset (acc @ rs) = mset (gone @ keep)"
  by (induction ob tm timeout acc rs rule: idle_scan.induct) (auto split: if_splits)

lemma cleanup_ok:
  assumes "store_ok N p made" and "owners_ok p pcs made"
  shows "store_ok N (cleanupIdleResources p tm) made" and "owners_ok (cleanupIdleResources p tm) pcs made"
proof -
  obtain gone keep where s: "idle_scan (obj p) tm (IdleTimeout (config p)) [] (avail p) = (gone, keep)"
    by fastforce
  have m: "mset (avail p) = mset (gone @ keep)" using idle_scan_mset [OF s] by simp
  have "cleanupIdleResources p tm = (if pool_closed p then p else retire p gone keep)"
    by (simp add: cleanupIdleResources_def s retire_def)
  with assms retire_ok [OF assms m] show "store_ok N (cleanupIdleResources p tm) made"
    "owners_ok (cleanupIdleResources p tm) pcs made" by simp_all
qed

section \<open>The loop of Resize\<close>

lemma shrink_returns_only:
  assumes "shrink p excess = Some q"
  shows "excess \<le> int (length (avail p))"
proof (rule shrink.raw_induct [of "\<lambda>p excess q. excess \<le> int (length (avail p))", OF _ assms])
  fix self :: "'a pool \<Rightarrow> int \<Rightarrow> 'a pool option" and p excess q
  assume IH: "\<And>p excess q. self p excess = Some q \<Longrightarrow> excess \<le> int (length (avail p))"
    and body: "(if excess > 0 then
        (case chan_recv (available p) of
           Got r c \<Rightarrow> self (destroyResourceUnsafe (p\<lparr>available := c\<rparr>) r) (excess - 1)
         | _ \<Rightarrow> self p excess)
      else Some p) = Some q"
  show "excess \<le> int (length (avail p))"
  proof (cases "excess > 0")
    case True
    show ?thesis
    proof (cases "chan_recv (available p)")
      case (Got r c)
      with body True IH [of "destroyResourceUnsafe (p\<lparr>available := c\<rparr>) r" "excess - 1" q]
        chan.recv_got [OF Got]
      show ?thesis by simp
    qed (use body True IH [of p excess q] in simp_all)
  qed simp
qed

lemma shrink_done:
  "\<not> cclosed (available p) \<Longrightarrow> excess \<le> int (length (avail p)) \<Longrightarrow>
   shrink p excess = Some (retire p (take (nat excess) (avail p)) (drop (nat excess) (avail p)))"
proof (induction "avail p" arbitrary: p excess)
  case Nil
  then show ?case by (subst shrink.simps) (simp add: retire_def)
next
  case (Cons r rs)
  show ?case
  proof (cases "excess > 0")
    case False
    then show ?thesis by (subst shrink.simps) (simp add: retire_def)
  next
    case True
    let ?p = "destroyResourceUnsafe (p\<lparr>available := (available p)\<lparr>cbuf := rs\<rparr>\<rparr>) r"
    have av: "avail p = r # rs" using Cons.hyps(2) by simp
    then have "shrink p excess = shrink ?p (excess - 1)"
      using True by (subst shrink.simps) (simp add: chan_recv_def)
    also have "\<dots> = Some (retire ?p (take (nat (excess - 1)) rs) (drop (nat (excess - 1)) rs))"
      using Cons.hyps(1) [of ?p "excess - 1"] Cons.prems av by simp
    also have "retire ?p (take (nat (excess - 1)) rs) (drop (nat (excess - 1)) rs) =
        retire p (take (nat excess) (avail p)) (drop (nat excess) (avail p))"
      using True by (simp add: retire_def av destroyResourceUnsafe_def nat_diff_distrib'
          take_Cons' drop_Cons')
    finally show ?thesis .
  qed
qed

lemma shrink_iff:
  "\<not> cclosed (available p) \<Longrightarrow>
   (\<exists>q. shrink p excess = Some q) \<longleftrightarrow> excess \<le> int (length (avail p))"
  using shrink_returns_only shrink_done by blast


section \<open>Every part preserves the invariant\<close>

definition pool_inv :: "int \<Rightarrow> 'r pool \<Rightarrow> (nat \<Rightarrow> 'r ppc) \<Rightarrow> 'r set \<Rightarrow> bool" where
  "pool_inv N p pcs made \<longleftrightarrow> store_ok N p made \<and> owners_ok p pcs made"

lemma pool_inv_move:
  "pool_inv N p pcs made \<Longrightarrow> owned pc' = owned (pcs t) \<Longrightarrow>
   (\<And>r. pc' = Holding r \<longleftrightarrow> pcs t = Holding r) \<Longrightarrow> pc' \<noteq> NilPanic \<or> pool_closed p \<Longrightarrow>
   pool_inv N p (pcs(t := pc')) made"
  using owners_move unfolding pool_inv_def by blast

lemma pool_inv_destroy:
  assumes "pool_inv N p pcs made" and "owned (pcs t) = Some r" and "owned pc' = None"
    and "pc' \<noteq> NilPanic"
  shows "pool_inv N (destroyResourceUnsafe p r) (pcs(t := pc')) made"
proof -
  have ok: "store_ok N p made" "owners_ok p pcs made" using assms(1) by (simp_all add: pool_inv_def)
  note D = owners_okD [OF ok(2)]
  have "store_ok N (destroyResourceUnsafe p r) made"
    using store_destroy [OF ok(1)] D(1,2,4) assms(2) by blast
  moreover have "owners_ok (destroyResourceUnsafe p r) (pcs(t := pc')) made"
    by (rule owners_drop [OF ok(2) assms(2-4)]) auto
  ultimately show ?thesis by (simp add: pool_inv_def)
qed

lemma pool_inv_create:
  assumes "pool_inv N p pcs made" and "owned (pcs t) = None" and "r \<notin> made"
    and "int (length (managed p)) < MaxSize (config p)"
  shows "pool_inv N (p\<lparr>managed := managed p @ [r], obj := (obj p)(r := ob\<lparr>inUse := True\<rparr>)\<rparr>)
    (pcs(t := Holding r)) (insert r made)"
proof -
  have ok: "store_ok N p made" "owners_ok p pcs made" using assms(1) by (simp_all add: pool_inv_def)
  have r: "r \<notin> set (managed p)" "r \<notin> set (avail p)" "\<And>u. owned (pcs u) \<noteq> Some r"
    using ok(1) assms(3) owners_okD(1) [OF ok(2)] by (auto simp: store_ok_def)
  have "store_ok N (p\<lparr>managed := managed p @ [r], obj := (obj p)(r := ob\<lparr>inUse := True\<rparr>)\<rparr>)
      (insert r made)"
    using ok(1) r assms(3,4) by (auto simp: store_ok_def)
  moreover have "owners_ok (p\<lparr>managed := managed p @ [r], obj := (obj p)(r := ob\<lparr>inUse := True\<rparr>)\<rparr>)
      (pcs(t := Holding r)) (insert r made)"
    by (rule owners_gain [OF ok(2) assms(2), where r = r]) (use r in auto)
  ultimately show ?thesis by (simp add: pool_inv_def)
qed

lemma pool_inv_select:
  assumes "pool_inv N p pcs made" and "pcs t = AcqLoop" and "acquire_select p = (p', pc')"
  shows "pool_inv N p' (pcs(t := pc')) made"
proof (cases "chan_recv (available p)")
  case (Got r c)
  have ok: "store_ok N p made" "owners_ok p pcs made" using assms(1) by (simp_all add: pool_inv_def)
  note pop = store_pop [OF ok(1) Got]
  have eq: "p' = p\<lparr>available := c\<rparr>" "pc' = AcqTaken r"
    using assms(3) Got by (simp_all add: acquire_select_def)
  have free: "owned (pcs u) \<noteq> Some r" for u
    using owners_okD(2) [OF ok(2), of u r] pop(5) by auto
  have "owners_ok p' (pcs(t := pc')) made"
    unfolding eq by (rule owners_gain [OF ok(2), where r = r]) (use assms(2) pop free in auto)
  with pop(1) show ?thesis by (simp add: pool_inv_def eq)
next
  case GotZero
  then have "pool_closed p"
    using assms(1) by (auto simp: pool_inv_def store_ok_def chan.recv_zero)
  with assms GotZero show ?thesis
    by (auto simp: acquire_select_def intro!: pool_inv_move)
qed (use assms in \<open>auto simp: acquire_select_def intro!: pool_inv_move\<close>)

lemma pool_inv_mark:
  assumes "pool_inv N p pcs made" and "pcs t = AcqMark r" and "inUse ob"
  shows "pool_inv N (p\<lparr>obj := (obj p)(r := ob)\<rparr>) (pcs(t := Holding r)) made"
proof -
  have ok: "store_ok N p made" "owners_ok p pcs made" using assms(1) by (simp_all add: pool_inv_def)
  have "r \<notin> set (avail p)" using owners_okD(2) [OF ok(2), of t r] assms(2) by simp
  then have "store_ok N (p\<lparr>obj := (obj p)(r := ob)\<rparr>) made"
    using ok(1) by (auto simp: store_ok_def)
  with owners_mark [OF ok(2) assms(2) refl assms(3)] show ?thesis by (simp add: pool_inv_def)
qed

lemma pool_inv_acquire:
  assumes inv: "pool_inv N p pcs made" and a: "\<And>r. created a = Some r \<Longrightarrow> r \<notin> made"
    and act: "acquire_part p a (pcs t) = Some (p', pc')"
  shows "\<exists>made' \<subseteq> made \<union> set_option (created a). pool_inv N p' (pcs(t := pc')) made' \<and> made \<subseteq> made'"
proof (cases "pcs t")
  case AcqAt
  with act inv show ?thesis
    by (auto simp: acquire_part_def intro!: exI [of _ made] pool_inv_move split: if_splits)
next
  case AcqLoop
  with act inv pool_inv_select [OF inv AcqLoop] show ?thesis
    by (auto simp: acquire_part_def intro!: exI [of _ made])
next
  case AcqDefault
  show ?thesis
  proof (cases "int (length (managed p)) < MaxSize (config p) \<and> created a \<noteq> None")
    case True
    then obtain r where r: "created a = Some r" by auto
    with pool_inv_create [OF inv, of t r "\<lparr>createTime = now a, lastUsed = now a, inUse = True\<rparr>"]
      True a AcqDefault act show ?thesis
      by (auto simp: acquire_part_def tryCreateResource_def intro!: exI [of _ "insert r made"])
  next
    case False
    then have "tryCreateResource p a = (p, None)"
      by (auto simp: tryCreateResource_def split: option.splits)
    with AcqDefault act inv show ?thesis
      by (auto simp: acquire_part_def intro!: exI [of _ made] pool_inv_move)
  qed
next
  case (AcqTaken r)
  with act inv pool_inv_destroy [OF inv, of t r AcqDefault] show ?thesis
    by (auto simp: acquire_part_def intro!: exI [of _ made] pool_inv_move split: if_splits)
next
  case (AcqReset r)
  with act inv pool_inv_destroy [OF inv, of t r AcqLoop] show ?thesis
    by (auto simp: acquire_part_def intro!: exI [of _ made] pool_inv_move split: if_splits)
next
  case (AcqMark r)
  with act inv pool_inv_mark [OF inv AcqMark, of "(obj p r)\<lparr>inUse := True, lastUsed := now a\<rparr>"]
  show ?thesis by (auto simp: acquire_part_def intro!: exI [of _ made])
qed (use act in \<open>simp_all add: acquire_part_def\<close>)


lemma pool_inv_mono: "pool_inv N p pcs made \<Longrightarrow> made \<subseteq> made' \<Longrightarrow> pool_inv N p pcs made'"
  by (auto simp: pool_inv_def store_ok_def owners_ok_def)

lemma pool_inv_release:
  assumes inv: "pool_inv N p pcs made" and t: "pcs t = Holding r" and rel: "Release p a r = (p', e)"
    and pc': "owned pc' = None" "pc' \<noteq> NilPanic"
  shows "pool_inv N p' (pcs(t := pc')) made" and "\<not> pool_closed p \<Longrightarrow> e = None"
proof -
  have ok: "store_ok N p made" "owners_ok p pcs made" using inv by (simp_all add: pool_inv_def)
  have tr: "owned (pcs t) = Some r" using t by simp
  note D = owners_okD [OF ok(2)]
  have rmade: "r \<in> made" and ravail: "r \<notin> set (avail p)" using D(1,2) tr by blast+
  have "pool_inv N p' (pcs(t := pc')) made \<and> (\<not> pool_closed p \<longrightarrow> e = None)"
  proof (cases "pool_closed p")
    case True
    then have "p' = p" using rel by (simp add: Release_def)
    moreover have "owners_ok p (pcs(t := pc')) made"
      by (rule owners_drop [OF ok(2) tr pc']) (use True in auto)
    ultimately show ?thesis using ok(1) True by (simp add: pool_inv_def)
  next
    case False
    then have r: "r \<in> set (managed p)" "inUse (obj p r)" using D(4) [OF False tr] D(5) [OF False tr] t
      by simp_all
    define p1 where "p1 = p\<lparr>obj := (obj p)(r := (obj p r)\<lparr>inUse := False, lastUsed := now a\<rparr>)\<rparr>"
    have p1: "store_ok N p1 made" "avail p1 = avail p" "available p1 = available p"
        "managed p1 = managed p" "pool_closed p1 = pool_closed p"
      using ok(1) by (auto simp: p1_def store_ok_def)
    have destroy: "pool_inv N (destroyResourceUnsafe p1 r) (pcs(t := pc')) made"
    proof -
      have "store_ok N (destroyResourceUnsafe p1 r) made"
        by (rule store_destroy [OF p1(1) rmade]) (use ravail r p1 in auto)
      moreover have "owners_ok (destroyResourceUnsafe p1 r) (pcs(t := pc')) made"
        by (rule owners_drop [OF ok(2) tr pc']) (auto simp: p1_def)
      ultimately show ?thesis by (simp add: pool_inv_def)
    qed
    consider (gone) "p' = destroyResourceUnsafe p r" "e = None"
      | (gone1) "p' = destroyResourceUnsafe p1 r" "e = None"
      | (kept) c where "chan_send (available p1) r = Sent c" "p' = p1\<lparr>available := c\<rparr>" "e = None"
      using rel False r
      by (auto simp: Release_def p1_def Let_def split: if_splits sent.splits)
    then show ?thesis
    proof cases
      case gone
      with pool_inv_destroy [OF inv tr pc'] show ?thesis by simp
    next
      case gone1
      with destroy show ?thesis by simp
    next
      case kept
      note s = chan.send_sent [OF kept(1)]
      have "store_ok N p' made"
        using s kept(2) p1 r ravail ok(1) by (auto simp: store_ok_def p1_def)
      moreover have "owners_ok p' (pcs(t := pc')) made"
        by (rule owners_drop [OF ok(2) tr pc']) (use s kept(2) p1 in \<open>auto simp: p1_def\<close>)
      ultimately show ?thesis using kept(3) by (simp add: pool_inv_def)
    qed
  qed
  then show "pool_inv N p' (pcs(t := pc')) made" "\<not> pool_closed p \<Longrightarrow> e = None" by blast+
qed

lemma pool_inv_resize:
  assumes inv: "pool_inv N p pcs made" and n: "n \<le> N" and res: "Resize p n = Some (p', e)"
  shows "pool_inv N p' pcs made"
proof -
  define q where "q = p\<lparr>config := (config p)\<lparr>MaxSize := n\<rparr>\<rparr>"
  have ok: "store_ok N q made" "owners_ok q pcs made"
    using inv n by (simp_all add: pool_inv_def store_ok_def owners_ok_def q_def)
  show ?thesis
  proof (cases "n \<le> 0 \<or> pool_closed p \<or> MaxSize (config p) \<le> n")
    case True
    then have "p' = p \<or> p' = q" using res by (auto simp: Resize_def q_def split: if_splits)
    with inv ok show ?thesis by (auto simp: pool_inv_def)
  next
    case False
    let ?e = "int (length (managed q)) - n"
    have sh: "shrink q ?e = Some p'"
      using res False by (auto simp: Resize_def q_def Let_def split: if_splits)
    have "\<not> cclosed (available q)" using ok(1) False by (simp add: store_ok_def q_def)
    from shrink_done [OF this shrink_returns_only [OF sh]] sh
    have "p' = retire q (take (nat ?e) (avail q)) (drop (nat ?e) (avail q))" by simp
    with retire_ok [OF ok, of "take (nat ?e) (avail q)" "drop (nat ?e) (avail q)"] show ?thesis
      by (simp add: pool_inv_def)
  qed
qed

lemma close_all_simps:
  "managed (close_all p) = []" "avail (close_all p) = []" "pool_closed (close_all p) = pool_closed p"
  "set (destroyed (close_all p)) = set (destroyed p) \<union> set (avail p) \<union> set (managed p)"
  "config (close_all p) = config p"
  by (auto simp: close_all_def Let_def)

lemma pool_inv_close_all:
  assumes "pool_inv N p pcs made" and "pool_closed p"
  shows "pool_inv N (close_all p) pcs made"
proof -
  have ok: "store_ok N p made" "owners_ok p pcs made" using assms(1) by (simp_all add: pool_inv_def)
  then have "0 \<le> N" unfolding store_ok_def by linarith
  with ok assms(2) have "store_ok N (close_all p) made"
    by (auto simp: store_ok_def close_all_simps)
  moreover have "owners_ok (close_all p) pcs made"
    by (rule owners_pool [OF ok(2)]) (use assms(2) in \<open>simp_all add: close_all_simps\<close>)
  ultimately show ?thesis by (simp add: pool_inv_def)
qed

text \<open>Closing threads exist only once the flag is set.\<close>

definition closing_ok :: "'r pool \<Rightarrow> (nat \<Rightarrow> 'r ppc) \<Rightarrow> bool" where
  "closing_ok p pcs \<longleftrightarrow> (\<forall>t. pcs t = Closing \<longrightarrow> pool_closed p)"


lemma pool_act_ok:
  assumes inv: "pool_inv N p pcs made" and cl: "closing_ok p pcs"
    and a: "\<And>r. created a = Some r \<Longrightarrow> r \<notin> made" and n: "\<And>n. call = SetMax n \<Longrightarrow> n \<le> N"
    and act: "pool_act call a p (pcs t) = Some (p', pc')"
  shows "pool_inv N p' (pcs(t := pc')) (made \<union> set_option (created a))"
proof -
  have "\<exists>made' \<subseteq> made \<union> set_option (created a). pool_inv N p' (pcs(t := pc')) made'"
  proof (cases "call = Proceed \<and> (\<forall>e. pcs t \<noteq> Failed e) \<and> pcs t \<noteq> Closing")
    case True
    then have "acquire_part p a (pcs t) = Some (p', pc')"
      using act by (cases "pcs t") (auto simp: pool_act_def)
    from pool_inv_acquire [OF inv a this] show ?thesis by blast
  next
    case False
    have "pool_inv N p' (pcs(t := pc')) made"
    proof (cases call)
      case Acquire
      with act inv show ?thesis
        by (cases "pcs t") (auto simp: pool_act_def intro!: pool_inv_move)
    next
      case Proceed
      with False consider (failed) e where "pcs t = Failed e" | (closing) "pcs t = Closing" by blast
      then show ?thesis
      proof cases
        case failed
        with Proceed act inv show ?thesis by (auto simp: pool_act_def intro!: pool_inv_move)
      next
        case closing
        then have "pool_inv N (close_all p) pcs made"
          using pool_inv_close_all [OF inv] cl by (auto simp: closing_ok_def)
        with closing Proceed act show ?thesis by (auto simp: pool_act_def intro!: pool_inv_move)
      qed
    next
      case CtxDone
      with act inv show ?thesis by (cases "pcs t") (auto simp: pool_act_def intro!: pool_inv_move)
    next
      case GiveBack
      with act obtain r e where "pcs t = Holding r" "Release p a r = (p', e)"
          "pc' = (case e of None \<Rightarrow> Ready | Some e \<Rightarrow> Failed e)"
        by (cases "pcs t") (auto simp: pool_act_def split: prod.splits option.splits)
      with pool_inv_release(1) [OF inv, of t r a p' e pc'] show ?thesis by (simp split: option.splits)
    next
      case Tick
      have "pool_inv N (cleanupIdleResources p (now a)) pcs made"
        using cleanup_ok inv unfolding pool_inv_def by blast
      with Tick act show ?thesis
        by (cases "pcs t") (auto simp: pool_act_def intro!: pool_inv_move)
    next
      case (SetMax n')
      with act obtain e where r: "Resize p n' = Some (p', e)" "pcs t = Ready" "pc' = Ready"
        by (cases "pcs t") (auto simp: pool_act_def)
      with pool_inv_resize [OF inv n [OF SetMax] r(1)] show ?thesis by (auto intro!: pool_inv_move)
    next
      case Shut
      have "pool_inv N (p\<lparr>pool_closed := True\<rparr>) pcs made"
        using inv by (simp add: pool_inv_def store_ok_def owners_ok_def)
      with Shut act inv show ?thesis
        by (cases "pcs t") (auto simp: pool_act_def split: if_splits intro!: pool_inv_move)
    qed
    then show ?thesis by blast
  qed
  then show ?thesis using pool_inv_mono by blast
qed

lemma pool_act_closed: "pool_act call a p pc = Some (p', pc') \<Longrightarrow>
  (pool_closed p \<longrightarrow> pool_closed p') \<and> (pc' = Closing \<longrightarrow> pool_closed p' \<or> pc = Closing)"
proof -
  have "shrink q e = Some q' \<Longrightarrow> pool_closed q' = pool_closed q" for q e and q' :: "'a pool"
  proof (rule shrink.raw_induct [of "\<lambda>q e q'. pool_closed q' = pool_closed q"])
    fix self :: "'a pool \<Rightarrow> int \<Rightarrow> 'a pool option" and p excess q
    assume IH: "\<And>p excess q. self p excess = Some q \<Longrightarrow> pool_closed q = pool_closed p"
      and body: "(if excess > 0 then
        (case chan_recv (available p) of
           Got r c \<Rightarrow> self (destroyResourceUnsafe (p\<lparr>available := c\<rparr>) r) (excess - 1)
         | _ \<Rightarrow> self p excess)
      else Some p) = Some q"
    show "pool_closed q = pool_closed p"
      using body IH by (fastforce split: if_splits received.splits)
  qed
  then have resize: "Resize p n = Some (p', e) \<Longrightarrow> pool_closed p' = pool_closed p" for n e
    by (force simp: Resize_def Let_def split: if_splits)
  assume act: "pool_act call a p pc = Some (p', pc')"
  show ?thesis
  proof (cases "\<exists>n. call = SetMax n")
    case True
    with act resize show ?thesis by (cases pc) (auto simp: pool_act_def)
  next
    case False
    with act show ?thesis
      by (cases call; cases pc)
        (auto simp: pool_act_def acquire_part_def acquire_select_def tryCreateResource_def Release_def
          Let_def cleanupIdleResources_def close_all_simps
          split: if_splits option.splits received.splits sent.splits prod.splits)
  qed
qed

lemma preCreate_ok:
  "preCreate p create tm i k = (p', None) \<Longrightarrow>
   (\<forall>r \<in> set (avail p). \<not> inUse (obj p r)) \<Longrightarrow> managed p = avail p \<Longrightarrow>
   map Some (avail p) = map create [0..<i] \<Longrightarrow>
   (\<forall>r \<in> set (avail p'). \<not> inUse (obj p' r)) \<and> managed p' = avail p'
   \<and> map Some (avail p') = map create [0..<i + k] \<and> config p' = config p
   \<and> destroyed p' = destroyed p \<and> pool_closed p' = pool_closed p
   \<and> cclosed (available p') = cclosed (available p)"
proof (induction p create tm i k rule: preCreate.induct)
  case (2 p create tm i k)
  obtain r where r: "create i = Some r" using "2.prems"(1) by (auto split: option.splits)
  obtain c where c: "chan_send (available p) r = Sent c"
    using "2.prems"(1) r by (auto split: sent.splits)
  note s = chan.send_sent [OF c]
  let ?q = "p\<lparr>managed := managed p @ [r],
      obj := (obj p)(r := \<lparr>createTime = tm, lastUsed = tm, inUse = False\<rparr>), available := c\<rparr>"
  have "(\<forall>r \<in> set (avail ?q). \<not> inUse (obj ?q r)) \<and> managed ?q = avail ?q
      \<and> map Some (avail ?q) = map create [0..<Suc i]"
    using "2.prems"(2-4) s r by auto
  with "2.IH" [OF r c] "2.prems"(1) r c s show ?case by simp
qed simp

lemma NewResourcePool_ok:
  assumes "NewResourcePool cfg create tm = Inr p" and "inj_on create {i. create i \<noteq> None}"
    and "MaxSize cfg \<le> N"
  shows "pool_inv N p (\<lambda>_. Ready) {r. \<exists>i. create i = Some r}"
proof -
  define p0 :: "'a pool" where "p0 = \<lparr>config = cfg, available = make_chan (nat (MaxSize cfg)),
      managed = [], obj = (\<lambda>_. \<lparr>createTime = 0, lastUsed = 0, inUse = False\<rparr>), pool_closed = False,
      destroyed = []\<rparr>"
  have sizes: "0 < MaxSize cfg" "0 \<le> MinSize cfg" "MinSize cfg \<le> MaxSize cfg"
    and pre: "preCreate p0 create tm 0 (nat (MinSize cfg)) = (p, None)"
    using assms(1) by (auto simp: NewResourcePool_def p0_def split: if_splits prod.splits option.splits)
  have P: "(\<forall>r \<in> set (avail p). \<not> inUse (obj p r)) \<and> managed p = avail p
     \<and> map Some (avail p) = map create [0..<0 + nat (MinSize cfg)] \<and> config p = cfg
     \<and> destroyed p = [] \<and> \<not> pool_closed p \<and> \<not> cclosed (available p)"
    using preCreate_ok [OF pre] by (simp add: p0_def)
  then have m: "map Some (avail p) = map create [0..<nat (MinSize cfg)]" by simp
  have len: "length (avail p) = nat (MinSize cfg)" using arg_cong [OF m, of length] by simp
  have nth: "create i = Some (avail p ! i)" if "i < nat (MinSize cfg)" for i
    using arg_cong [OF m, of "\<lambda>xs. xs ! i"] that len by simp
  have "distinct (map create [0..<nat (MinSize cfg)])"
    using assms(2) nth by (auto simp: distinct_map intro: inj_on_subset)
  then have "distinct (avail p)" unfolding m [symmetric] by (simp add: distinct_map)
  moreover have "set (avail p) \<subseteq> {r. \<exists>i. create i = Some r}"
  proof
    fix r assume "r \<in> set (avail p)"
    then obtain i where "i < nat (MinSize cfg)" "r = avail p ! i" using len by (auto simp: in_set_conv_nth)
    with nth show "r \<in> {r. \<exists>i. create i = Some r}" by auto
  qed
  ultimately have "store_ok N p {r. \<exists>i. create i = Some r}"
    using P len sizes assms(3) by (simp add: store_ok_def)
  moreover have "owners_ok p (\<lambda>_. Ready) {r. \<exists>i. create i = Some r}"
    using P by (auto simp: owners_ok_def)
  ultimately show ?thesis by (simp add: pool_inv_def)
qed

lemma pool_run_ok: "pool_run N (p, pcs, made) \<Longrightarrow> pool_inv N p pcs made \<and> closing_ok p pcs"
proof (induction "(p, pcs, made)" arbitrary: p pcs made rule: pool_run.induct)
  case (fresh cfg create tm p)
  then show ?case using NewResourcePool_ok by (auto simp: closing_ok_def)
next
  case (later s p' pcs' made')
  obtain p pcs made where s: "s = (p, pcs, made)" by (cases s)
  from later.hyps(3) obtain call a t pc' where
      st: "pool_act call a p (pcs t) = Some (p', pc')" "pcs' = pcs(t := pc')"
      "made' = made \<union> set_option (created a)" "\<And>r. created a = Some r \<Longrightarrow> r \<notin> made"
      "\<And>n. call = SetMax n \<Longrightarrow> n \<le> N"
    unfolding s by (auto elim!: pool_stepE)
  have IH: "pool_inv N p pcs made" "closing_ok p pcs" using later.hyps(2) [OF s] by blast+
  from pool_act_ok [OF IH st(4,5,1)] pool_act_closed [OF st(1)] IH(2) show ?case
    by (auto simp: st(2,3) closing_ok_def)
qed


section \<open>Executing a schedule\<close>

fun pool_exec ::
    "int \<Rightarrow> 'r pool \<times> (nat \<Rightarrow> 'r ppc) \<times> 'r list \<Rightarrow> (nat \<times> pool_call \<times> 'r answers) list \<Rightarrow>
     ('r pool \<times> (nat \<Rightarrow> 'r ppc) \<times> 'r list) option" where
  "pool_exec N s [] = Some s"
| "pool_exec N (p, pcs, ms) ((t, call, a) # sch) =
     (if (case created a of None \<Rightarrow> True | Some r \<Rightarrow> r \<notin> set ms)
         \<and> (case call of SetMax n \<Rightarrow> n \<le> N | _ \<Rightarrow> True)
      then (case pool_act call a p (pcs t) of
              None \<Rightarrow> None
            | Some (p', pc') \<Rightarrow>
                pool_exec N (p', pcs(t := pc'), (case created a of None \<Rightarrow> ms | Some r \<Rightarrow> r # ms)) sch)
      else None)"

lemma pool_exec_run:
  "pool_exec N (p, pcs, ms) sch = Some (p', pcs', ms') \<Longrightarrow> pool_run N (p, pcs, set ms) \<Longrightarrow>
   pool_run N (p', pcs', set ms')"
proof (induction N "(p, pcs, ms)" sch arbitrary: p pcs ms rule: pool_exec.induct)
  case (2 N p pcs ms t call a sch)
  have side: "\<And>r. created a = Some r \<Longrightarrow> r \<notin> set ms" "\<And>n. call = SetMax n \<Longrightarrow> n \<le> N"
    using "2.prems"(1) by (auto split: if_splits)
  obtain q pc' where act: "pool_act call a p (pcs t) = Some (q, pc')"
    using "2.prems"(1) by (auto split: if_splits option.splits)
  let ?ms = "case created a of None \<Rightarrow> ms | Some r \<Rightarrow> r # ms"
  have "pool_step N (p, pcs, set ms) (q, pcs(t := pc'), set ms \<union> set_option (created a))"
    using act side by (rule pool_step.intros)
  moreover have "set ms \<union> set_option (created a) = set ?ms" by (auto split: option.splits)
  ultimately have run: "pool_run N (q, pcs(t := pc'), set ?ms)"
    using pool_run.later [OF "2.prems"(2)] by simp
  have "pool_exec N (q, pcs(t := pc'), ?ms) sch = Some (p', pcs', ms')"
    using "2.prems"(1) act by (simp split: if_splits)
  from "2.hyps" [OF _ act refl this run] side show ?case
    by (auto split: option.splits pool_call.splits)
qed simp

definition demo_config :: pool_config where
  "demo_config = \<lparr>MaxSize = 2, MinSize = 0, MaxIdle = 1, IdleTimeout = 300,
     ValidateOnBorrow = True, ValidateOnReturn = False\<rparr>"

definition demo_pool :: "nat pool" where
  "demo_pool = (case NewResourcePool demo_config (\<lambda>_. None) 0 of Inr p \<Rightarrow> p)"

definition makes :: "nat \<Rightarrow> nat answers" where
  "makes r = \<lparr>valid = True, resets = True, created = Some r, now = 0\<rparr>"

definition plain :: "nat answers" where
  "plain = \<lparr>valid = True, resets = True, created = None, now = 0\<rparr>"

lemma demo_pool_run: "pool_run 2 (demo_pool, \<lambda>_. Ready, set [])"
proof -
  have "NewResourcePool demo_config (\<lambda>_. None) 0 = Inr demo_pool"
    by (simp add: demo_pool_def NewResourcePool_def demo_config_def)
  from pool_run.fresh [OF this, of 2] show ?thesis by (simp add: demo_config_def)
qed

section \<open>Properties\<close>


definition demo_pool_schedule :: "(nat \<times> pool_call \<times> nat answers) list" where
  "demo_pool_schedule =
     [(0, Acquire, plain), (0, Proceed, plain), (0, Proceed, plain), (0, Proceed, makes 7),
      (0, GiveBack, plain),
      (1, Acquire, plain), (1, Proceed, plain), (1, Proceed, plain), (1, Proceed, plain),
      (1, Proceed, plain), (1, Proceed, plain),
      (0, Acquire, plain), (0, Proceed, plain), (0, Proceed, plain), (0, Proceed, makes 8)]"

definition demo_pool_end :: "nat pool \<times> (nat \<Rightarrow> nat ppc) \<times> nat list" where
  "demo_pool_end = the (pool_exec 2 (demo_pool, \<lambda>_. Ready, []) demo_pool_schedule)"


text \<open>Fact: \<^verbatim>\<open>Resize\<close> on an open pool returns exactly when the pool need not shrink, or enough of
  its resources are available to be closed at once; otherwise it loops for ever, with the lock
  held.\<close>

theorem Resize_returns_iff:
  assumes "pool_run N (p, pcs, made)" and "\<not> pool_closed p"
  shows "Resize p n \<noteq> None \<longleftrightarrow>
    n \<le> 0 \<or> MaxSize (config p) \<le> n
    \<or> int (length (managed p)) - n \<le> int (length (cbuf (available p)))"
proof -
  have "\<not> cclosed (available p)"
    using pool_run_ok [OF assms(1)] assms(2) by (simp add: pool_inv_def store_ok_def)
  then show ?thesis
    using shrink_iff [of "p\<lparr>config := (config p)\<lparr>MaxSize := n\<rparr>\<rparr>" "int (length (managed p)) - n"]
      assms(2)
    by (auto simp: Resize_def Let_def)
qed

theorem Resize_returns_iff_witness:
  "Resize (fst demo_pool_end) 1 = None"
proof -
  have "\<not> Option.is_none (pool_exec 2 (demo_pool, \<lambda>_. Ready, []) demo_pool_schedule)"
    by code_simp
  then have "pool_exec 2 (demo_pool, \<lambda>_. Ready, []) demo_pool_schedule =
      Some (fst demo_pool_end, fst (snd demo_pool_end), snd (snd demo_pool_end))"
    by (simp add: demo_pool_end_def Option.is_none_def)
  from pool_exec_run [OF this demo_pool_run]
  have run: "pool_run 2 (fst demo_pool_end, fst (snd demo_pool_end), set (snd (snd demo_pool_end)))" .
  have "\<not> pool_closed (fst demo_pool_end)" "MaxSize (config (fst demo_pool_end)) = 2"
    "length (managed (fst demo_pool_end)) = 2" "cbuf (available (fst demo_pool_end)) = []"
    by code_simp+
  with Resize_returns_iff [OF run, of 1] have "\<not> Resize (fst demo_pool_end) 1 \<noteq> None"
    by (simp del: not_None_eq)
  then show ?thesis by blast
qed

text \<open>Fact: two races with \<^verbatim>\<open>Close\<close>. A goroutine in \<^verbatim>\<open>Acquire\<close> may pick the closed channel rather
  than the ended context and dereference a nil pointer; and one that found no available resource
  before \<^verbatim>\<open>Close\<close> creates one afterwards, which a closed pool then manages for ever.\<close>

theorem acquire_races_with_close:
  "(\<exists>p pcs (made :: nat set). pool_run 2 (p, pcs, made) \<and> pcs 0 = NilPanic)
   \<and> (\<exists>p pcs made. pool_run 2 (p, pcs, made) \<and> pool_closed p \<and> pcs 1 = Ready
        \<and> pcs 0 = Holding (7 :: nat) \<and> managed p = [7]
        \<and> (\<forall>a. snd (Release p a 7) = Some PoolClosed))"
proof
  let ?entry = "[(0, Acquire, plain), (0, Proceed, plain)]"
  let ?shut = "[(1, Shut, plain), (1, Proceed, plain)]"
  let ?s1 = "?entry @ ?shut @ [(0, Proceed, plain)]"
  let ?s2 = "?entry @ [(0, Proceed, plain)] @ ?shut @ [(0, Proceed, makes 7)]"
  define e1 where "e1 = the (pool_exec 2 (demo_pool, \<lambda>_. Ready, []) ?s1)"
  define e2 where "e2 = the (pool_exec 2 (demo_pool, \<lambda>_. Ready, []) ?s2)"
  have "\<not> Option.is_none (pool_exec 2 (demo_pool, \<lambda>_. Ready, []) ?s1)" by code_simp
  then have "pool_exec 2 (demo_pool, \<lambda>_. Ready, []) ?s1 = Some (fst e1, fst (snd e1), snd (snd e1))"
    by (simp add: e1_def Option.is_none_def)
  from pool_exec_run [OF this demo_pool_run]
  have "pool_run 2 (fst e1, fst (snd e1), set (snd (snd e1)))" .
  moreover have "fst (snd e1) 0 = NilPanic" unfolding e1_def by code_simp
  ultimately show "\<exists>p pcs (made :: nat set). pool_run 2 (p, pcs, made) \<and> pcs 0 = NilPanic" by blast
  have "\<not> Option.is_none (pool_exec 2 (demo_pool, \<lambda>_. Ready, []) ?s2)" by code_simp
  then have "pool_exec 2 (demo_pool, \<lambda>_. Ready, []) ?s2 = Some (fst e2, fst (snd e2), snd (snd e2))"
    by (simp add: e2_def Option.is_none_def)
  from pool_exec_run [OF this demo_pool_run]
  have "pool_run 2 (fst e2, fst (snd e2), set (snd (snd e2)))" .
  moreover have c: "pool_closed (fst e2)" "fst (snd e2) 1 = Ready" "fst (snd e2) 0 = Holding 7"
      "managed (fst e2) = [7]"
    unfolding e2_def by code_simp+
  moreover have "snd (Release (fst e2) a 7) = Some PoolClosed" for a
    using c(1) by (simp add: Release_def)
  ultimately show "\<exists>p pcs made. pool_run 2 (p, pcs, made) \<and> pool_closed p \<and> pcs 1 = Ready
      \<and> pcs 0 = Holding (7 :: nat) \<and> managed p = [7] \<and> (\<forall>a. snd (Release p a 7) = Some PoolClosed)"
    by blast
qed

end
