(* ===== verification/Async_Executor.thy ===== *)
theory Async_Executor
  imports Prelude
begin

text \<open>
  \<^verbatim>\<open>AsyncExecutor\<close> of \<^verbatim>\<open>internal/pkg/hooks/hub.go\<close>: a bounded task queue with workers, on a mutex
  and a condition variable. Goroutines \<open>0 .. WorkerCount - 1\<close> are the workers; any other one may
  call \<^verbatim>\<open>Submit\<close> or \<^verbatim>\<open>Close\<close>. \<open>waiting\<close> is the notify list of the condition variable: \<^verbatim>\<open>Wait\<close> puts
  the goroutine on it and gives up the mutex, \<^verbatim>\<open>Signal\<close> takes off the first, \<^verbatim>\<open>Broadcast\<close> all, and a
  goroutine that is off the list goes on once it gets the mutex. \<^verbatim>\<open>Close\<close> does not take the mutex,
  so the test of the context and the registration in \<^verbatim>\<open>Wait\<close> are separate steps.
\<close>

record async_config =
  QueueSize :: int
  WorkerCount :: int
  DropWhenFull :: bool
  Timeout :: int

definition defaultAsyncConfig :: async_config where
  "defaultAsyncConfig = \<lparr>QueueSize = 1024, WorkerCount = 1, DropWhenFull = True, Timeout = 200\<rparr>"

definition WithAsyncConfig :: "async_config \<Rightarrow> async_config \<Rightarrow> async_config" where
  "WithAsyncConfig cfg h =
     \<lparr>QueueSize = (if QueueSize cfg > 0 then QueueSize cfg else QueueSize h),
      WorkerCount = (if WorkerCount cfg > 0 then WorkerCount cfg else WorkerCount h),
      DropWhenFull = DropWhenFull cfg,
      Timeout = (if Timeout cfg > 0 then Timeout cfg else Timeout h)\<rparr>"

record 'k exec =
  cfg :: async_config
  tasks :: "'k list"
  mutex :: "nat option"
  cancelled :: bool
  waiting :: "nat list"

datatype 'k epc =
    EIdle
  | WLock | WTest | WReg | WWait | WRun 'k | WExit \<comment> \<open>\<^verbatim>\<open>run\<close> and \<^verbatim>\<open>pop\<close>\<close>
  | SLock 'k | SBody 'k | STest 'k | SReg 'k | SWait 'k | SAfter 'k | SRet bool \<comment> \<open>\<^verbatim>\<open>Submit\<close>\<close>
  | CCancel | CBroadcast | CJoin | CDone \<comment> \<open>\<^verbatim>\<open>Close\<close>\<close>

datatype 'k eevent = ESilent | Accepted 'k | Taken 'k

definition effective_config :: "async_config \<Rightarrow> async_config" where
  "effective_config c =
     (let c1 = (if QueueSize c \<le> 0 then c\<lparr>QueueSize := 1024\<rparr> else c)
      in if WorkerCount c1 \<le> 0 then c1\<lparr>WorkerCount := 1\<rparr> else c1)"

definition NewAsyncExecutor :: "async_config \<Rightarrow> 'k exec \<times> (nat \<Rightarrow> 'k epc)" where
  "NewAsyncExecutor c =
     (let c2 = effective_config c
      in (\<lparr>cfg = c2, tasks = [], mutex = None, cancelled = False, waiting = []\<rparr>,
          \<lambda>t. if int t < WorkerCount c2 then WLock else EIdle))"

definition lock_to :: "'k exec \<Rightarrow> nat \<Rightarrow> 'k epc \<Rightarrow> ('k exec \<times> 'k epc \<times> 'k eevent) option" where
  "lock_to e t pc = (if mutex e = None then Some (e\<lparr>mutex := Some t\<rparr>, pc, ESilent) else None)"

definition wait_on :: "'k exec \<Rightarrow> nat \<Rightarrow> 'k exec" where
  "wait_on e t = e\<lparr>waiting := waiting e @ [t], mutex := None\<rparr>"

definition wake_to :: "'k exec \<Rightarrow> nat \<Rightarrow> 'k epc \<Rightarrow> ('k exec \<times> 'k epc \<times> 'k eevent) option" where
  "wake_to e t pc = (if t \<in> set (waiting e) then None else lock_to e t pc)"

text \<open>\<^verbatim>\<open>pop\<close>, from its loop test on.\<close>

definition pop_test :: "'k exec \<Rightarrow> 'k exec \<times> 'k epc \<times> 'k eevent" where
  "pop_test e =
     (case tasks e of
        [] \<Rightarrow> if \<not> cancelled e then (e, WReg, ESilent) else (e\<lparr>mutex := None\<rparr>, WExit, ESilent)
      | task # rest \<Rightarrow> (e\<lparr>tasks := rest, mutex := None\<rparr>, WRun task, Taken task))"

definition enqueue :: "'k exec \<Rightarrow> 'k \<Rightarrow> 'k exec \<times> 'k epc \<times> 'k eevent" where
  "enqueue e task =
     (e\<lparr>tasks := tasks e @ [task], waiting := tl (waiting e), mutex := None\<rparr>, SRet True, Accepted task)"

definition queue_full :: "'k exec \<Rightarrow> bool" where
  "queue_full e \<longleftrightarrow> int (length (tasks e)) \<ge> QueueSize (cfg e)"

definition submit_body :: "'k exec \<Rightarrow> 'k \<Rightarrow> 'k exec \<times> 'k epc \<times> 'k eevent" where
  "submit_body e task =
     (if cancelled e then (e\<lparr>mutex := None\<rparr>, SRet False, ESilent)
      else if QueueSize (cfg e) > 0 \<and> queue_full e then
        if DropWhenFull (cfg e) then (e\<lparr>mutex := None\<rparr>, SRet False, ESilent)
        else (e, STest task, ESilent)
      else enqueue e task)"

definition submit_test :: "'k exec \<Rightarrow> 'k \<Rightarrow> bool \<Rightarrow> 'k exec \<times> 'k epc \<times> 'k eevent" where
  \<comment> \<open>\<open>expired\<close>: \<^verbatim>\<open>waitCtx\<close> has reached its timeout, and so has it after the loop\<close>
  "submit_test e task expired =
     (if queue_full e \<and> \<not> expired then (e, SReg task, ESilent)
      else if expired then (e\<lparr>mutex := None\<rparr>, SRet False, ESilent)
      else (e, SAfter task, ESilent))"

definition submit_after :: "'k exec \<Rightarrow> 'k \<Rightarrow> bool \<Rightarrow> 'k exec \<times> 'k epc \<times> 'k eevent" where
  "submit_after e task expired =
     (if expired then (e\<lparr>mutex := None\<rparr>, SRet False, ESilent) else enqueue e task)"

definition exec_part ::
    "bool \<Rightarrow> nat \<Rightarrow> 'k exec \<Rightarrow> (nat \<Rightarrow> 'k epc) \<Rightarrow> ('k exec \<times> 'k epc \<times> 'k eevent) option" where
  "exec_part expired t e pcs =
     (case pcs t of
        EIdle \<Rightarrow> None
      | WLock \<Rightarrow> lock_to e t WTest
      | WTest \<Rightarrow> Some (pop_test e)
      | WReg \<Rightarrow> Some (wait_on e t, WWait, ESilent)
      | WWait \<Rightarrow> wake_to e t WTest
      | WRun task \<Rightarrow> Some (e, WLock, ESilent)
      | WExit \<Rightarrow> None
      | SLock task \<Rightarrow> lock_to e t (SBody task)
      | SBody task \<Rightarrow> Some (submit_body e task)
      | STest task \<Rightarrow> Some (submit_test e task expired)
      | SReg task \<Rightarrow> Some (wait_on e t, SWait task, ESilent)
      | SWait task \<Rightarrow> wake_to e t (STest task)
      | SAfter task \<Rightarrow> Some (submit_after e task expired)
      | SRet b \<Rightarrow> Some (e, EIdle, ESilent)
      | CCancel \<Rightarrow> Some (e\<lparr>cancelled := True\<rparr>, CBroadcast, ESilent)
      | CBroadcast \<Rightarrow> Some (e\<lparr>waiting := []\<rparr>, CJoin, ESilent)
      | CJoin \<Rightarrow>
          if \<forall>w < nat (WorkerCount (cfg e)). pcs w = WExit then Some (e, CDone, ESilent) else None
      | CDone \<Rightarrow> Some (e, EIdle, ESilent))"

datatype 'k ecall = Part bool | CallSubmit 'k | CallClose

definition exec_act ::
    "'k ecall \<Rightarrow> nat \<Rightarrow> 'k exec \<Rightarrow> (nat \<Rightarrow> 'k epc) \<Rightarrow> ('k exec \<times> 'k epc \<times> 'k eevent) option" where
  "exec_act call t e pcs =
     (case call of
        Part expired \<Rightarrow> exec_part expired t e pcs
      | CallSubmit task \<Rightarrow> (case pcs t of EIdle \<Rightarrow> Some (e, SLock task, ESilent) | _ \<Rightarrow> None)
      | CallClose \<Rightarrow> (case pcs t of EIdle \<Rightarrow> Some (e, CCancel, ESilent) | _ \<Rightarrow> None))"

type_synonym 'k esys = "'k exec \<times> (nat \<Rightarrow> 'k epc)"

inductive exec_run :: "'k esys \<Rightarrow> ('k ecall \<Rightarrow> bool) \<Rightarrow> 'k eevent list \<Rightarrow> 'k esys \<Rightarrow> bool"
  for s0 allowed where
  start: "exec_run s0 allowed [] s0"
| step: "exec_run s0 allowed es (e, pcs) \<Longrightarrow> allowed call \<Longrightarrow>
    exec_act call t e pcs = Some (e', pc', ev) \<Longrightarrow>
    exec_run s0 allowed (es @ [ev]) (e', pcs(t := pc'))"

fun exec_schedule :: "'k esys \<Rightarrow> (nat \<times> 'k ecall) list \<Rightarrow> ('k eevent list \<times> 'k esys) option" where
  "exec_schedule s [] = Some ([], s)"
| "exec_schedule (e, pcs) ((t, call) # sch) =
     (case exec_act call t e pcs of
        None \<Rightarrow> None
      | Some (e', pc', ev) \<Rightarrow>
          map_option (\<lambda>(es, s'). (ev # es, s')) (exec_schedule (e', pcs(t := pc')) sch))"

lemma exec_schedule_run:
  "exec_schedule s sch = Some (es, s') \<Longrightarrow> exec_run s0 (\<lambda>_. True) es0 s \<Longrightarrow>
   exec_run s0 (\<lambda>_. True) (es0 @ es) s'"
proof (induction s sch arbitrary: es0 es rule: exec_schedule.induct)
  case (2 e pcs t call sch)
  obtain e' pc' ev es' where a: "exec_act call t e pcs = Some (e', pc', ev)"
      "exec_schedule (e', pcs(t := pc')) sch = Some (es', s')" "es = ev # es'"
    using "2.prems"(1) by (auto split: option.splits)
  have "exec_run s0 (\<lambda>_. True) (es0 @ [ev]) (e', pcs(t := pc'))"
    using exec_run.step [OF "2.prems"(2) _ a(1)] by simp
  from "2.IH" [OF a(1) refl refl a(2) this] a(3) show ?case by simp
qed simp

lemma exec_schedule_others:
  "exec_schedule s sch = Some (es, s') \<Longrightarrow> t \<notin> fst ` set sch \<Longrightarrow> snd s' t = snd s t"
proof (induction s sch arbitrary: es rule: exec_schedule.induct)
  case (2 e pcs u call sch)
  obtain e' pc' ev es' where a: "exec_act call u e pcs = Some (e', pc', ev)"
      "exec_schedule (e', pcs(u := pc')) sch = Some (es', s')"
    using "2.prems"(1) by (auto split: option.splits)
  from "2.IH" [OF a(1) refl refl a(2)] "2.prems"(2) show ?case by simp
qed simp

section \<open>The invariant\<close>

definition holds_mutex :: "'k epc \<Rightarrow> bool" where
  "holds_mutex pc =
     (case pc of WTest \<Rightarrow> True | WReg \<Rightarrow> True | SBody k \<Rightarrow> True | STest k \<Rightarrow> True | SReg k \<Rightarrow> True
      | SAfter k \<Rightarrow> True | _ \<Rightarrow> False)"

definition exec_inv :: "'k exec \<Rightarrow> (nat \<Rightarrow> 'k epc) \<Rightarrow> bool" where
  "exec_inv e pcs \<longleftrightarrow>
     0 < QueueSize (cfg e) \<and> int (length (tasks e)) \<le> QueueSize (cfg e)
     \<and> (\<forall>t. holds_mutex (pcs t) \<longleftrightarrow> mutex e = Some t)
     \<and> (\<forall>t k. pcs t = SAfter k \<longrightarrow> \<not> queue_full e)"

definition accepted_by :: "'k eevent list \<Rightarrow> 'k list" where
  "accepted_by es = List.map_filter (\<lambda>e. case e of Accepted k \<Rightarrow> Some k | _ \<Rightarrow> None) es"

definition taken_by :: "'k eevent list \<Rightarrow> 'k list" where
  "taken_by es = List.map_filter (\<lambda>e. case e of Taken k \<Rightarrow> Some k | _ \<Rightarrow> None) es"

lemma exec_traces [simp]:
  "accepted_by [] = []" "taken_by [] = []"
  "accepted_by (es @ es') = accepted_by es @ accepted_by es'"
  "taken_by (es @ es') = taken_by es @ taken_by es'"
  "accepted_by [ESilent] = []" "taken_by [ESilent] = []"
  "accepted_by [Accepted k] = [k]" "taken_by [Accepted k] = []"
  "accepted_by [Taken k] = []" "taken_by [Taken k] = [k]"
  by (simp_all add: accepted_by_def taken_by_def List.map_filter_def)


text \<open>The mutex is taken, kept or given up with the program point, and only its holder changes the
  tasks.\<close>

definition fair_part :: "'k exec \<Rightarrow> 'k epc \<Rightarrow> nat \<Rightarrow> 'k exec \<Rightarrow> 'k epc \<Rightarrow> 'k eevent \<Rightarrow> bool" where
  "fair_part e pc t e' pc' ev \<longleftrightarrow>
     cfg e' = cfg e \<and> tasks e @ accepted_by [ev] = taken_by [ev] @ tasks e'
     \<and> (mutex e' = mutex e \<and> holds_mutex pc' = holds_mutex pc
        \<or> mutex e = None \<and> mutex e' = Some t \<and> holds_mutex pc'
        \<or> holds_mutex pc \<and> mutex e' = None \<and> \<not> holds_mutex pc')
     \<and> (tasks e' = tasks e \<or> holds_mutex pc \<and> \<not> holds_mutex pc')
     \<and> (length (tasks e') \<le> length (tasks e) \<or> length (tasks e') = Suc (length (tasks e)) \<and> \<not> queue_full e)
     \<and> (\<forall>k. pc' = SAfter k \<longrightarrow> \<not> queue_full e')"

lemmas part_defs = lock_to_def wake_to_def wait_on_def pop_test_def enqueue_def submit_body_def
  submit_test_def submit_after_def holds_mutex_def fair_part_def

lemma exec_part_fair:
  assumes "exec_inv e pcs" and "exec_part expired t e pcs = Some (e', pc', ev)"
  shows "fair_part e (pcs t) t e' pc' ev"
proof -
  have after: "\<not> queue_full e" if "pcs t = SAfter k" for k
    using assms(1) that by (auto simp: exec_inv_def)
  have pos: "0 < QueueSize (cfg e)" using assms(1) by (simp add: exec_inv_def)
  show ?thesis
  proof (cases "pcs t")
    case WTest
    with assms(2) show ?thesis
      by (auto simp: exec_part_def part_defs split: list.splits if_splits)
  next
    case (SBody k)
    with assms(2) pos show ?thesis
      by (auto simp: exec_part_def part_defs split: if_splits)
  next
    case (SAfter k)
    with assms(2) after [OF SAfter] show ?thesis
      by (auto simp: exec_part_def part_defs split: if_splits)
  qed (use assms(2) in \<open>auto simp: exec_part_def part_defs split: if_splits\<close>)
qed

lemma exec_act_fair:
  assumes "exec_inv e pcs" and "exec_act call t e pcs = Some (e', pc', ev)"
  shows "fair_part e (pcs t) t e' pc' ev"
proof (cases call)
  case (Part expired)
  with assms exec_part_fair show ?thesis by (fastforce simp: exec_act_def)
qed (use assms in \<open>auto simp: exec_act_def part_defs split: epc.splits\<close>)

lemma fair_part_inv:
  assumes inv: "exec_inv e pcs" and fair: "fair_part e (pcs t) t e' pc' ev"
  shows "exec_inv e' (pcs(t := pc'))"
proof -
  have cfg: "cfg e' = cfg e" using fair by (simp add: fair_part_def)
  have "length (tasks e') \<le> length (tasks e)
      \<or> length (tasks e') = Suc (length (tasks e)) \<and> \<not> queue_full e"
    using fair by (simp add: fair_part_def)
  then have len: "int (length (tasks e')) \<le> QueueSize (cfg e)"
    using inv unfolding exec_inv_def queue_full_def by linarith
  have hold: "holds_mutex (pcs u) \<longleftrightarrow> mutex e = Some u" for u using inv by (simp add: exec_inv_def)
  have moves: "mutex e' = mutex e \<and> holds_mutex pc' = holds_mutex (pcs t)
      \<or> mutex e = None \<and> mutex e' = Some t \<and> holds_mutex pc'
      \<or> holds_mutex (pcs t) \<and> mutex e' = None \<and> \<not> holds_mutex pc'"
    using fair by (simp add: fair_part_def)
  have "holds_mutex ((pcs(t := pc')) u) \<longleftrightarrow> mutex e' = Some u" for u
  proof (cases "u = t")
    case True
    with moves hold [of t] show ?thesis by auto
  next
    case False
    with moves hold [of u] hold [of t] show ?thesis by auto
  qed
  moreover have "\<not> queue_full e'" if "(pcs(t := pc')) u = SAfter k" for u k
  proof (cases "u = t")
    case True
    with that fair show ?thesis by (auto simp: fair_part_def)
  next
    case False
    with that have u: "pcs u = SAfter k" by simp
    then have "holds_mutex (pcs u)" by (simp add: holds_mutex_def)
    with hold False have "\<not> holds_mutex (pcs t)" by auto
    then have "tasks e' = tasks e" using fair by (auto simp: fair_part_def)
    moreover have "\<not> queue_full e" using inv u by (auto simp: exec_inv_def)
    ultimately show ?thesis by (simp add: queue_full_def cfg)
  qed
  ultimately show ?thesis using inv len by (auto simp: exec_inv_def cfg)
qed

lemma NewAsyncExecutor_inv: "exec_inv (fst (NewAsyncExecutor c)) (snd (NewAsyncExecutor c))"
  by (simp add: NewAsyncExecutor_def effective_config_def exec_inv_def holds_mutex_def Let_def)

lemma exec_run_inv:
  "exec_run (NewAsyncExecutor c) allowed es s \<Longrightarrow>
   exec_inv (fst s) (snd s) \<and> accepted_by es = taken_by es @ tasks (fst s)
   \<and> cfg (fst s) = effective_config c"
proof (induction rule: exec_run.induct)
  case start
  then show ?case using NewAsyncExecutor_inv [of c] by (simp add: NewAsyncExecutor_def Let_def)
next
  case (step es e pcs call t e' pc' ev)
  from exec_act_fair [OF _ step.hyps(3)] step.IH have fair: "fair_part e (pcs t) t e' pc' ev" by simp
  then have "tasks e @ accepted_by [ev] = taken_by [ev] @ tasks e'" "cfg e' = cfg e"
    by (simp_all add: fair_part_def)
  with fair_part_inv [where pcs = pcs and t = t, OF _ fair] step.IH show ?case by (simp del: fun_upd_apply)
qed

section \<open>Properties\<close>

text \<open>C8: in every interleaving, the tasks accepted by \<^verbatim>\<open>Submit\<close> are those the workers have taken,
  in the order of acceptance and each once, followed by those in the queue; the queue never
  exceeds its configured size, and no two goroutines hold the mutex.\<close>

theorem executor_bounded_fifo:
  assumes "exec_run (NewAsyncExecutor c) allowed es (e, pcs)"
  shows "accepted_by es = taken_by es @ tasks e
    \<and> int (length (tasks e)) \<le> (if QueueSize c \<le> 0 then 1024 else QueueSize c)
    \<and> (\<forall>t u. holds_mutex (pcs t) \<longrightarrow> holds_mutex (pcs u) \<longrightarrow> t = u)"
proof -
  have "QueueSize (effective_config c) = (if QueueSize c \<le> 0 then 1024 else QueueSize c)"
    by (simp add: effective_config_def Let_def)
  moreover have inv: "exec_inv e pcs" "accepted_by es = taken_by es @ tasks e" "cfg e = effective_config c"
    using exec_run_inv [OF assms] by simp_all
  moreover have "t = u" if "holds_mutex (pcs t)" "holds_mutex (pcs u)" for t u
    using inv(1) that by (simp add: exec_inv_def)
  ultimately show ?thesis by (simp add: exec_inv_def)
qed

definition small_config :: async_config where
  "small_config = \<lparr>QueueSize = 1, WorkerCount = 1, DropWhenFull = False, Timeout = 0\<rparr>"

definition full_schedule :: "(nat \<times> nat ecall) list" where
  \<comment> \<open>the queue is full when goroutine 1 submits task 9, and the worker then empties it\<close>
  "full_schedule =
     [(2, CallSubmit 8), (2, Part False), (2, Part False),
      (1, CallSubmit 9), (1, Part False), (1, Part False), (1, Part False), (1, Part False),
      (0, Part False), (0, Part False), (0, Part False), (0, Part False), (0, Part False),
      (0, Part False), (2, Part False)]"

definition full_end :: "nat eevent list \<times> nat esys" where
  "full_end = the (exec_schedule (NewAsyncExecutor small_config) full_schedule)"

lemma full_schedule: "exec_schedule (NewAsyncExecutor small_config) full_schedule =
    Some (fst full_end, (fst (snd full_end), snd (snd full_end)))"
proof -
  have "\<not> Option.is_none (exec_schedule (NewAsyncExecutor small_config) full_schedule)" by code_simp
  then show ?thesis by (simp add: full_end_def Option.is_none_def)
qed

lemma full_run: "exec_run (NewAsyncExecutor small_config) (\<lambda>_. True) (fst full_end)
    (fst (snd full_end), snd (snd full_end))"
  using exec_schedule_run [OF full_schedule exec_run.start] by simp

theorem executor_bounded_fifo_witness:
  "accepted_by (fst full_end) = [8] \<and> taken_by (fst full_end) = [8] \<and> tasks (fst (snd full_end)) = []"
proof -
  have "accepted_by (fst full_end) = [8]" "taken_by (fst full_end) = [8]" by code_simp+
  with executor_bounded_fifo [OF full_run] show ?thesis by simp
qed

text \<open>Fact: with \<^verbatim>\<open>DropWhenFull\<close> off, a \<^verbatim>\<open>Submit\<close> that waits for room is not woken when a worker makes
  room, nor by its one-second context: there is a run at whose end the queue is empty, the
  submitter and the worker both wait on the condition variable, and no goroutine can do anything
  until another call is made.\<close>

theorem submit_waits_beside_empty_queue:
  "\<exists>es e pcs. exec_run (NewAsyncExecutor small_config) (\<lambda>_. True) es (e, pcs)
     \<and> tasks e = [] \<and> pcs 1 = SWait (9 :: nat) \<and> (\<forall>t expired. exec_part expired t e pcs = None)"
proof -
  let ?e = "fst (snd full_end)" and ?pcs = "snd (snd full_end)"
  have v: "tasks ?e = []" "?pcs 0 = WWait" "?pcs 1 = SWait 9" "?pcs 2 = EIdle" "waiting ?e = [1, 0]"
    by code_simp+
  have rest: "?pcs t = EIdle" if "t > 2" for t
    using that exec_schedule_others [OF full_schedule, of t]
    by (simp add: full_schedule_def NewAsyncExecutor_def small_config_def effective_config_def)
  have "exec_part expired t ?e ?pcs = None" for t expired
  proof -
    consider "t = 0" | "t = 1" | "t = 2" | "t > 2" by linarith
    then show ?thesis using v rest by cases (simp_all add: exec_part_def wake_to_def)
  qed
  with full_run v show ?thesis by blast
qed


text \<open>A worker that has tested the context and is not yet on the notify list misses the broadcast of
  \<^verbatim>\<open>Close\<close>.\<close>

definition missed :: "'k exec \<Rightarrow> (nat \<Rightarrow> 'k epc) \<Rightarrow> bool" where
  "missed e pcs \<longleftrightarrow>
     cancelled e \<and> waiting e = [0] \<and> WorkerCount (cfg e) = 1 \<and> pcs 0 = WWait \<and> pcs 1 = CJoin
     \<and> (\<forall>t \<ge> 2. case pcs t of EIdle \<Rightarrow> True | SLock k \<Rightarrow> True | SBody k \<Rightarrow> True | SRet b \<Rightarrow> True | _ \<Rightarrow> False)"

lemma missed_step:
  assumes "missed e pcs" and "call \<noteq> CallClose" and "exec_act call t e pcs = Some (e', pc', ev)"
  shows "missed e' (pcs(t := pc'))"
proof -
  consider "t = 0" | "t = 1" | "t \<ge> 2" by linarith
  then show ?thesis
  proof cases
    case 1
    with assms show ?thesis
      by (cases call) (auto simp: missed_def exec_act_def exec_part_def part_defs)
  next
    case 2
    have "\<exists>w < nat (WorkerCount (cfg e)). pcs w \<noteq> WExit"
      using assms(1) by (intro exI [of _ 0]) (simp add: missed_def)
    then have "\<not> (\<forall>w < nat (WorkerCount (cfg e)). pcs w = WExit)" by blast
    then have "exec_act call 1 e pcs = None"
      using assms(1,2) by (cases call) (simp_all only: exec_act_def exec_part_def missed_def ecall.case epc.case if_False)
    with 2 assms(3) show ?thesis by simp
  next
    case 3
    then have pc: "case pcs t of EIdle \<Rightarrow> True | SLock k \<Rightarrow> True | SBody k \<Rightarrow> True | SRet b \<Rightarrow> True
        | _ \<Rightarrow> False" and c: "cancelled e"
      using assms(1) by (auto simp: missed_def)
    have e': "cancelled e' = cancelled e \<and> waiting e' = waiting e \<and> cfg e' = cfg e
      \<and> (case pc' of EIdle \<Rightarrow> True | SLock k \<Rightarrow> True | SBody k \<Rightarrow> True | SRet b \<Rightarrow> True | _ \<Rightarrow> False)"
      using pc c assms(2,3)
      by (cases "pcs t"; cases call)
        (auto simp: exec_act_def exec_part_def part_defs split: if_splits)
    with assms(1) 3 show ?thesis unfolding missed_def by simp
  qed
qed

lemma missed_run:
  "exec_run s (\<lambda>call. call \<noteq> CallClose) es s' \<Longrightarrow> missed (fst s) (snd s) \<Longrightarrow> missed (fst s') (snd s')"
  by (induction rule: exec_run.induct) (auto simp del: fun_upd_apply intro: missed_step)

definition close_schedule :: "(nat \<times> nat ecall) list" where
  "close_schedule =
     [(0, Part False), (0, Part False), (1, CallClose), (1, Part False), (1, Part False), (0, Part False)]"

text \<open>Fact: \<^verbatim>\<open>Close\<close> may never return. It broadcasts without the mutex, so a worker between its test
  of the context and its \<^verbatim>\<open>Wait\<close> is not woken: there is a run after which \<^verbatim>\<open>Close\<close> still waits for
  its worker whatever follows, as long as nobody calls \<^verbatim>\<open>Close\<close> once more.\<close>

theorem close_may_never_return:
  "\<exists>es e pcs. exec_run (NewAsyncExecutor small_config) (\<lambda>_. True) es (e, pcs :: nat \<Rightarrow> nat epc)
     \<and> pcs 1 = CJoin
     \<and> {s'. \<exists>es'. exec_run (e, pcs) (\<lambda>call. call \<noteq> CallClose) es' s'} \<subseteq> {s'. snd s' 1 = CJoin}"
proof -
  define d where "d = the (exec_schedule (NewAsyncExecutor small_config) close_schedule)"
  let ?e = "fst (snd d)" and ?pcs = "snd (snd d)"
  have "\<not> Option.is_none (exec_schedule (NewAsyncExecutor small_config) close_schedule)" by code_simp
  then have d: "exec_schedule (NewAsyncExecutor small_config) close_schedule = Some (fst d, (?e, ?pcs))"
    by (simp add: d_def Option.is_none_def)
  have v: "cancelled ?e" "waiting ?e = [0]" "WorkerCount (cfg ?e) = 1" "?pcs 0 = WWait" "?pcs 1 = CJoin"
    unfolding d_def by code_simp+
  have "?pcs t = EIdle" if "t \<ge> 2" for t
    using that exec_schedule_others [OF d, of t]
    by (simp add: close_schedule_def NewAsyncExecutor_def small_config_def effective_config_def)
  with v have "missed ?e ?pcs" by (simp add: missed_def)
  then have "snd s' 1 = CJoin" if "exec_run (?e, ?pcs) (\<lambda>call. call \<noteq> CallClose) es' s'" for es' s'
    using missed_run [OF that] by (simp add: missed_def)
  then have "{s'. \<exists>es'. exec_run (?e, ?pcs) (\<lambda>call. call \<noteq> CallClose) es' s'} \<subseteq> {s'. snd s' 1 = CJoin}"
    by blast
  moreover have "exec_run (NewAsyncExecutor small_config) (\<lambda>_. True) ([] @ fst d) (?e, ?pcs)"
    by (rule exec_schedule_run [OF d exec_run.start])
  ultimately show ?thesis using v(5) by blast
qed

end
