(* ===== verification/Hooks.thy ===== *)
theory Hooks
  imports Async_Executor Priority_Registry "HOL-Library.Sublist"
begin

text \<open>
  \<^verbatim>\<open>internal/pkg/hooks/hub.go\<close> and \<^verbatim>\<open>internal/domain/chat/hooks/{hub,types}.go\<close>: the hub through
  which plugins intercept and observe the events of a chat. An interceptor is a function of the
  context, the payload and the world it may change; it returns the next payload, whether to
  stop, an error, and the milliseconds it took. An observer is a task for the executor, which
  comes in as the function \<open>submit\<close>, with its contract in the locale \<open>task_queue\<close>.
\<close>

datatype plugin_kind = PluginKindInterceptor | PluginKindObserver

record plugin_meta =
  Name :: string
  Priority :: int
  Kind :: plugin_kind
  Stage :: string
  Enabled :: bool

type_synonym ('x, 'p, 'w, 'e) sync_handler =
  "'x \<Rightarrow> 'p \<Rightarrow> 'w \<Rightarrow> 'p \<times> bool \<times> 'e option \<times> int \<times> 'w"

record ('x, 'p, 'w, 'e) named_sync =
  smeta :: plugin_meta
  senabled :: bool
  shandler :: "('x, 'p, 'w, 'e) sync_handler"

record ('x, 'p, 'w) named_async =
  ameta :: plugin_meta
  aenabled :: bool
  ahandler :: "'x \<Rightarrow> 'p \<Rightarrow> 'w \<Rightarrow> 'w"

record plugin_stats =
  Invocations :: int
  Errors :: int
  Stops :: int
  Timeouts :: int
  DroppedAsync :: int
  TotalDurationMs :: int

type_synonym stats = "string \<Rightarrow> plugin_stats option"
type_synonym ('x, 'p, 'w) task = "('x, 'p, 'w) named_async \<times> 'x \<times> 'p"

record ('x, 'p, 'w, 'e, 'q) hub =
  syncHandlers :: "string \<Rightarrow> ('x, 'p, 'w, 'e) named_sync list"
  asyncHandlers :: "string \<Rightarrow> ('x, 'p, 'w) named_async list"
  asyncExec :: 'q
  hub_closed :: bool
  droppedAsync :: int
  pluginStats :: stats
  pluginMeta :: "string \<Rightarrow> plugin_meta option"

definition NewHub :: "'q \<Rightarrow> ('x, 'p, 'w, 'e, 'q) hub" where
  "NewHub q = \<lparr>syncHandlers = (\<lambda>_. []), asyncHandlers = (\<lambda>_. []), asyncExec = q, hub_closed = False,
     droppedAsync = 0, pluginStats = (\<lambda>_. None), pluginMeta = (\<lambda>_. None)\<rparr>"

section \<open>Statistics\<close>

definition no_stats :: plugin_stats where
  "no_stats = \<lparr>Invocations = 0, Errors = 0, Stops = 0, Timeouts = 0, DroppedAsync = 0,
     TotalDurationMs = 0\<rparr>"

definition ensurePluginStats :: "string \<Rightarrow> stats \<Rightarrow> stats" where
  "ensurePluginStats nm st = (case st nm of None \<Rightarrow> st(nm \<mapsto> no_stats) | Some s \<Rightarrow> st)"

definition stats_update :: "(plugin_stats \<Rightarrow> plugin_stats) \<Rightarrow> string \<Rightarrow> stats \<Rightarrow> stats" where
  "stats_update f nm st =
     (let st = ensurePluginStats nm st in st(nm := map_option f (st nm)))"

definition recordInvocation :: "string \<Rightarrow> stats \<Rightarrow> stats" where
  "recordInvocation = stats_update (\<lambda>s. s\<lparr>Invocations := Invocations s + 1\<rparr>)"
definition recordError :: "string \<Rightarrow> stats \<Rightarrow> stats" where
  "recordError = stats_update (\<lambda>s. s\<lparr>Errors := Errors s + 1\<rparr>)"
definition recordStop :: "string \<Rightarrow> stats \<Rightarrow> stats" where
  "recordStop = stats_update (\<lambda>s. s\<lparr>Stops := Stops s + 1\<rparr>)"
definition recordTimeout :: "string \<Rightarrow> stats \<Rightarrow> stats" where
  "recordTimeout = stats_update (\<lambda>s. s\<lparr>Timeouts := Timeouts s + 1\<rparr>)"
definition recordDropped :: "string \<Rightarrow> stats \<Rightarrow> stats" where
  "recordDropped = stats_update (\<lambda>s. s\<lparr>DroppedAsync := DroppedAsync s + 1\<rparr>)"
definition recordDuration :: "int \<Rightarrow> string \<Rightarrow> stats \<Rightarrow> stats" where
  "recordDuration ms = stats_update (\<lambda>s. s\<lparr>TotalDurationMs := TotalDurationMs s + ms\<rparr>)"

section \<open>Registration\<close>

definition RegisterSyncMeta ::
    "string \<Rightarrow> plugin_meta \<Rightarrow> ('x, 'p, 'w, 'e) sync_handler \<Rightarrow>
     ('x, 'p, 'w, 'e, 'q) hub \<Rightarrow> ('x, 'p, 'w, 'e, 'q) hub" where
  "RegisterSyncMeta event meta handler h =
     (let meta = (if Name meta = '''' then meta\<lparr>Name := event\<rparr> else meta);
          meta = meta\<lparr>Kind := PluginKindInterceptor, Stage := event\<rparr>;
          enabled = Enabled meta;
          enabled = (if \<not> Enabled meta then True else enabled);
          next = syncHandlers h event @ [\<lparr>smeta = meta, senabled = enabled, shandler = handler\<rparr>]
      in h\<lparr>pluginMeta := (pluginMeta h)(Name meta \<mapsto> meta),
           pluginStats := ensurePluginStats (Name meta) (pluginStats h),
           syncHandlers := (syncHandlers h)(event := sort_key (\<lambda>n. Priority (smeta n)) next)\<rparr>)"

definition RegisterAsyncMeta ::
    "string \<Rightarrow> plugin_meta \<Rightarrow> ('x \<Rightarrow> 'p \<Rightarrow> 'w \<Rightarrow> 'w) \<Rightarrow>
     ('x, 'p, 'w, 'e, 'q) hub \<Rightarrow> ('x, 'p, 'w, 'e, 'q) hub" where
  "RegisterAsyncMeta event meta handler h =
     (let meta = (if Name meta = '''' then meta\<lparr>Name := event\<rparr> else meta);
          meta = meta\<lparr>Kind := PluginKindObserver, Stage := event\<rparr>;
          enabled = Enabled meta;
          enabled = (if \<not> Enabled meta then True else enabled);
          next = asyncHandlers h event @ [\<lparr>ameta = meta, aenabled = enabled, ahandler = handler\<rparr>]
      in h\<lparr>pluginMeta := (pluginMeta h)(Name meta \<mapsto> meta),
           pluginStats := ensurePluginStats (Name meta) (pluginStats h),
           asyncHandlers := (asyncHandlers h)(event := sort_key (\<lambda>n. Priority (ameta n)) next)\<rparr>)"

text \<open>\<^verbatim>\<open>range\<close> over a map visits the events in some order, which the caller gives.\<close>

fun set_first :: "('n \<Rightarrow> bool) \<Rightarrow> ('n \<Rightarrow> 'n) \<Rightarrow> 'n list \<Rightarrow> 'n list option" where
  "set_first p f [] = None"
| "set_first p f (n # ns) = (if p n then Some (f n # ns) else map_option ((#) n) (set_first p f ns))"

fun set_first_event ::
    "('n \<Rightarrow> bool) \<Rightarrow> ('n \<Rightarrow> 'n) \<Rightarrow> (string \<Rightarrow> 'n list) \<Rightarrow> string list \<Rightarrow> (string \<Rightarrow> 'n list) option" where
  "set_first_event p f m [] = None"
| "set_first_event p f m (event # order) =
     (case set_first p f (m event) of
        Some ns \<Rightarrow> Some (m(event := ns))
      | None \<Rightarrow> set_first_event p f m order)"

definition setPluginEnabled ::
    "string list \<Rightarrow> string list \<Rightarrow> string \<Rightarrow> bool \<Rightarrow> ('x, 'p, 'w, 'e, 'q) hub \<Rightarrow> ('x, 'p, 'w, 'e, 'q) hub" where
  "setPluginEnabled sorder aorder nm enabled h =
     (case set_first_event (\<lambda>n. Name (smeta n) = nm) (\<lambda>n. n\<lparr>senabled := enabled\<rparr>) (syncHandlers h) sorder of
        Some m \<Rightarrow> h\<lparr>syncHandlers := m\<rparr>
      | None \<Rightarrow>
          (case set_first_event (\<lambda>n. Name (ameta n) = nm) (\<lambda>n. n\<lparr>aenabled := enabled\<rparr>)
                  (asyncHandlers h) aorder of
             Some m \<Rightarrow> h\<lparr>asyncHandlers := m\<rparr>
           | None \<Rightarrow> h))"

section \<open>Emit\<close>

fun emitAsync ::
    "('q \<Rightarrow> ('x, 'p, 'w) task \<Rightarrow> 'q \<times> bool) \<Rightarrow> 'x \<Rightarrow> ('x, 'p, 'w) named_async list \<Rightarrow> 'p \<Rightarrow>
     ('x, 'p, 'w, 'e, 'q) hub \<Rightarrow> ('x, 'p, 'w, 'e, 'q) hub" where
  "emitAsync submit x [] payload h = h"
| "emitAsync submit x (hk # hks) payload h =
     (if \<not> aenabled hk then emitAsync submit x hks payload h
      else if hub_closed h then h
      else (case submit (asyncExec h) (hk, x, payload) of
              (q, queued) \<Rightarrow>
                (let h1 = h\<lparr>asyncExec := q\<rparr>;
                     h2 = (if \<not> queued
                           then h1\<lparr>droppedAsync := droppedAsync h1 + 1,
                                  pluginStats := recordDropped (Name (ameta hk)) (pluginStats h1)\<rparr>
                           else h1)
                 in emitAsync submit x hks payload h2)))"

text \<open>The loop over the interceptors: the statistics, the world, the payload so far, whether to
  stop, and the error with the name of the hook that failed.\<close>

fun run_syncs ::
    "'x \<Rightarrow> ('x, 'p, 'w, 'e) named_sync list \<Rightarrow> 'p \<Rightarrow> stats \<Rightarrow> 'w \<Rightarrow>
     stats \<times> 'w \<times> 'p \<times> bool \<times> (string \<times> 'e) option" where
  "run_syncs x [] out st w = (st, w, out, False, None)"
| "run_syncs x (hk # hks) out st w =
     (if \<not> senabled hk then run_syncs x hks out st w
      else
        (let nm = Name (smeta hk); st1 = recordInvocation nm st
         in case shandler hk x out w of
              (next, stop, err, ms, w') \<Rightarrow>
                (let st2 = recordDuration ms nm st1
                 in case err of
                      Some e \<Rightarrow> (recordError nm st2, w', out, stop, Some (nm, e))
                    | None \<Rightarrow>
                        if stop then (recordStop nm st2, w', next, True, None)
                        else run_syncs x hks next st2 w')))"

definition Emit ::
    "('q \<Rightarrow> ('x, 'p, 'w) task \<Rightarrow> 'q \<times> bool) \<Rightarrow> string \<Rightarrow> 'x \<Rightarrow> 'p \<Rightarrow>
     ('x, 'p, 'w, 'e, 'q) hub \<Rightarrow> 'w \<Rightarrow>
     ('x, 'p, 'w, 'e, 'q) hub \<times> 'w \<times> 'p \<times> bool \<times> (string \<times> 'e) option" where
  "Emit submit event x payload h w =
     (case run_syncs x (syncHandlers h event) payload (pluginStats h) w of
        (st, w', out, stop, err) \<Rightarrow>
          (let h1 = h\<lparr>pluginStats := st\<rparr>
           in if err \<noteq> None then (h1, w', out, stop, err)
              else (emitAsync submit x (asyncHandlers h event) out h1, w', out, stop, None)))"

definition runAsyncHandler ::
    "int \<Rightarrow> bool \<Rightarrow> int \<Rightarrow> ('x, 'p, 'w) task \<Rightarrow> stats \<Rightarrow> 'w \<Rightarrow> stats \<times> 'w" where
  \<comment> \<open>\<open>late\<close>: the deadline comes before the handler is done; it runs on all the same\<close>
  "runAsyncHandler timeout late ms tk st w =
     (case tk of
        (hk, x, payload) \<Rightarrow>
          (let nm = Name (ameta hk); st1 = recordInvocation nm st; w' = ahandler hk x payload w
           in if timeout \<le> 0 then (recordDuration ms nm st1, w')
              else if \<not> late then (recordDuration ms nm st1, w')
              else (recordDuration ms nm (recordTimeout nm st1), w')))"


section \<open>The contract of the executor\<close>

locale task_queue =
  fixes submit :: "'q \<Rightarrow> 'k \<Rightarrow> 'q \<times> bool"
    and pending :: "'q \<Rightarrow> 'k list"
  assumes submit_law: "submit q k = (q', queued) \<Longrightarrow> pending q' = pending q @ (if queued then [k] else [])"
begin

text \<open>A batch of tasks submitted in order: those accepted end up in the queue in that order, the
  others are counted.\<close>

fun submit_all :: "'q \<Rightarrow> 'k list \<Rightarrow> 'q \<times> bool list" where
  "submit_all q [] = (q, [])"
| "submit_all q (k # ks) =
     (case submit q k of (q1, b) \<Rightarrow> (case submit_all q1 ks of (q2, bs) \<Rightarrow> (q2, b # bs)))"

lemma submit_all_spec:
  "submit_all q ks = (q', bs) \<Longrightarrow>
   length bs = length ks \<and> pending q' = pending q @ map fst (filter snd (zip ks bs))"
proof (induction ks arbitrary: q q' bs)
  case (Cons k ks)
  obtain q1 b where s: "submit q k = (q1, b)" by fastforce
  obtain q2 bs' where r: "submit_all q1 ks = (q2, bs')" by fastforce
  from Cons.IH [OF r] Cons.prems s r submit_law [OF s] show ?case by auto
qed simp

end

definition submit_now :: "'k exec \<Rightarrow> 'k \<Rightarrow> 'k exec \<times> bool" where
  \<comment> \<open>a call of \<^verbatim>\<open>Submit\<close> that no other goroutine disturbs; one that waits for room gives up\<close>
  "submit_now e task =
     (case submit_body e task of (e', SRet b, _) \<Rightarrow> (e', b) | (e', _, _) \<Rightarrow> (e\<lparr>mutex := None\<rparr>, False))"

interpretation executor: task_queue submit_now tasks
  by unfold_locales
    (auto simp: submit_now_def submit_body_def enqueue_def split: if_splits)

section \<open>The chat hub\<close>

definition eventKinds :: "string \<Rightarrow> plugin_kind option" where
  "eventKinds = map_of
     [(''chat.asr.output'', PluginKindInterceptor), (''chat.llm.input'', PluginKindInterceptor),
      (''chat.llm.output.raw'', PluginKindInterceptor), (''chat.tts.input'', PluginKindInterceptor),
      (''chat.tts.output.start'', PluginKindObserver), (''chat.tts.output.stop'', PluginKindObserver),
      (''chat.metric'', PluginKindObserver)]"

datatype event_error = UnknownEvent string | WrongKind string plugin_kind plugin_kind

definition ValidateEventKind :: "string \<Rightarrow> plugin_kind \<Rightarrow> event_error option" where
  "ValidateEventKind event kind =
     (case eventKinds event of
        None \<Rightarrow> Some (UnknownEvent event)
      | Some expected \<Rightarrow> if expected \<noteq> kind then Some (WrongKind event expected kind) else None)"

definition RegisterInterceptor ::
    "string \<Rightarrow> plugin_meta \<Rightarrow> ('x, 'p, 'w, 'e) sync_handler \<Rightarrow>
     ('x, 'p, 'w, 'e, 'q) hub \<Rightarrow> ('x, 'p, 'w, 'e, 'q) hub \<times> event_error option" where
  "RegisterInterceptor event meta handler h =
     (case ValidateEventKind event PluginKindInterceptor of
        Some e \<Rightarrow> (h, Some e)
      | None \<Rightarrow> (RegisterSyncMeta event meta handler h, None))"

definition RegisterObserver ::
    "string \<Rightarrow> plugin_meta \<Rightarrow> ('x \<Rightarrow> 'p \<Rightarrow> 'w \<Rightarrow> 'w) \<Rightarrow>
     ('x, 'p, 'w, 'e, 'q) hub \<Rightarrow> ('x, 'p, 'w, 'e, 'q) hub \<times> event_error option" where
  "RegisterObserver event meta handler h =
     (case ValidateEventKind event PluginKindObserver of
        Some e \<Rightarrow> (h, Some e)
      | None \<Rightarrow> (RegisterAsyncMeta event meta handler h, None))"

text \<open>\<^verbatim>\<open>EmitTyped\<close>: \<open>cast\<close> is the type assertion to the payload's own type.\<close>

definition EmitTyped ::
    "('q \<Rightarrow> ('x, 'p, 'w) task \<Rightarrow> 'q \<times> bool) \<Rightarrow> ('t \<Rightarrow> 'p) \<Rightarrow> ('p \<Rightarrow> 't option) \<Rightarrow> string \<Rightarrow> 'x \<Rightarrow> 't \<Rightarrow>
     ('x, 'p, 'w, 'e, 'q) hub \<Rightarrow> 'w \<Rightarrow>
     ('x, 'p, 'w, 'e, 'q) hub \<times> 'w \<times> 't \<times> bool \<times> (string \<times> 'e) option" where
  "EmitTyped submit wrap cast event x payload h w =
     (case Emit submit event x (wrap payload) h w of
        (h', w', out, stop, err) \<Rightarrow>
          (h', w', (case cast out of Some typed \<Rightarrow> typed | None \<Rightarrow> payload), stop, err))"

text \<open>Built-in plugins: a registration has a lifecycle, which may fail to start, and a function that
  registers its handlers. \<open>'h\<close> is the hub with what else a plugin touches.\<close>

record 'h registration =
  Meta :: plugin_meta
  Register :: "('h \<Rightarrow> plugin_meta \<Rightarrow> 'h \<times> bool) option" \<comment> \<open>the flag: an error\<close>
  Lifecycle :: "('h \<Rightarrow> 'h \<times> bool) option" \<comment> \<open>\<^verbatim>\<open>Init\<close>\<close>

record plugin_override =
  OEnabled :: "bool option"
  OPriority :: int

datatype builtin_error = InitFailed string | RegisterFailed string

definition effective_meta :: "(string \<Rightarrow> plugin_override option) \<Rightarrow> plugin_meta \<Rightarrow> plugin_meta" where
  "effective_meta overrides m =
     (case overrides (Name m) of
        None \<Rightarrow> m
      | Some ov \<Rightarrow>
          (let m1 = (case OEnabled ov of Some b \<Rightarrow> m\<lparr>Enabled := b\<rparr> | None \<Rightarrow> m)
           in if OPriority ov \<noteq> 0 then m1\<lparr>Priority := OPriority ov\<rparr> else m1))"

fun RegisterBuiltinPlugins ::
    "(string \<Rightarrow> plugin_override option) \<Rightarrow> 'h registration list \<Rightarrow> 'h \<times> string list \<Rightarrow>
     ('h \<times> string list) \<times> builtin_error option" where
  \<comment> \<open>the list: the plugins whose lifecycle has been started and will be closed, in order\<close>
  "RegisterBuiltinPlugins overrides [] s = (s, None)"
| "RegisterBuiltinPlugins overrides (reg # regs) (h, lifecycles) =
     (let m = effective_meta overrides (Meta reg)
      in if \<not> Enabled m then RegisterBuiltinPlugins overrides regs (h, lifecycles)
         else
           (let (h1, failed, lifecycles1) =
                  (case Lifecycle reg of
                     None \<Rightarrow> (h, False, lifecycles)
                   | Some init \<Rightarrow>
                       (case init h of
                          (h', True) \<Rightarrow> (h', True, lifecycles)
                        | (h', False) \<Rightarrow> (h', False, lifecycles @ [Name m])))
            in if failed then ((h1, lifecycles1), Some (InitFailed (Name m)))
               else
                 (case Register reg of
                    None \<Rightarrow> RegisterBuiltinPlugins overrides regs (h1, lifecycles1)
                  | Some rg \<Rightarrow>
                      (case rg h1 m of
                         (h2, True) \<Rightarrow> ((h2, lifecycles1), Some (RegisterFailed (Name m)))
                       | (h2, False) \<Rightarrow> RegisterBuiltinPlugins overrides regs (h2, lifecycles1)))))"

definition Close_hub :: "('x, 'p, 'w, 'e, 'q) hub \<Rightarrow> string list \<Rightarrow> ('x, 'p, 'w, 'e, 'q) hub \<times> string list" where
  \<comment> \<open>the lifecycles in the order in which they are closed\<close>
  "Close_hub h lifecycles = (h\<lparr>hub_closed := True\<rparr>, rev lifecycles)"

section \<open>The order of the interceptors\<close>

definition sync_entry :: "string \<Rightarrow> plugin_meta \<Rightarrow> ('x, 'p, 'w, 'e) sync_handler \<Rightarrow> ('x, 'p, 'w, 'e) named_sync" where
  "sync_entry event meta handler =
     \<lparr>smeta = (if Name meta = '''' then meta\<lparr>Name := event\<rparr> else meta)
        \<lparr>Kind := PluginKindInterceptor, Stage := event\<rparr>,
      senabled = True, shandler = handler\<rparr>"

definition add_sync :: "('x, 'p, 'w, 'e) named_sync list \<Rightarrow> ('x, 'p, 'w, 'e) named_sync \<Rightarrow>
    ('x, 'p, 'w, 'e) named_sync list" where
  "add_sync ns n = sort_key (\<lambda>n. Priority (smeta n)) (ns @ [n])"

interpretation sync_registry: priority_registration "\<lambda>n. Priority (smeta n)" add_sync
  using stable_insert_registration [of "\<lambda>n. Priority (smeta n)"]
  by (simp add: add_sync_def [abs_def])

definition add_async :: "('x, 'p, 'w) named_async list \<Rightarrow> ('x, 'p, 'w) named_async \<Rightarrow>
    ('x, 'p, 'w) named_async list" where
  "add_async ns n = sort_key (\<lambda>n. Priority (ameta n)) (ns @ [n])"

interpretation async_registry: priority_registration "\<lambda>n. Priority (ameta n)" add_async
  using stable_insert_registration [of "\<lambda>n. Priority (ameta n)"]
  by (simp add: add_async_def [abs_def])

lemma RegisterSyncMeta_handlers:
  "syncHandlers (RegisterSyncMeta event meta handler h) ev =
     (if ev = event then add_sync (syncHandlers h event) (sync_entry event meta handler)
      else syncHandlers h ev)"
  by (simp add: RegisterSyncMeta_def add_sync_def sync_entry_def Let_def)

lemma RegisterSyncMeta_foldl:
  "syncHandlers (foldl (\<lambda>h (event, meta, handler). RegisterSyncMeta event meta handler h) h regs) ev =
   foldl add_sync (syncHandlers h ev)
     (map (\<lambda>(event, meta, handler). sync_entry event meta handler) (filter (\<lambda>r. fst r = ev) regs))"
  by (induction regs arbitrary: h) (auto simp: RegisterSyncMeta_handlers)

text \<open>Fact: whatever the order in which interceptors are registered, for whatever events, those of an
  event run in ascending priority and, among equals, in the order of their registration; and all
  of them are enabled, also those registered with \<^verbatim>\<open>Enabled\<close> false.\<close>

theorem interceptors_in_priority_order:
  "syncHandlers (foldl (\<lambda>h (event, meta, handler). RegisterSyncMeta event meta handler h) (NewHub q) regs) ev =
   sort_key (\<lambda>n. Priority (smeta n))
     (map (\<lambda>(event, meta, handler). sync_entry event meta handler) (filter (\<lambda>r. fst r = ev) regs))"
  using sync_registry.add_all_eq
  by (simp add: RegisterSyncMeta_foldl sync_registry.add_all_def NewHub_def)

section \<open>What Emit does\<close>

lemma run_syncs_error:
  "run_syncs x hks out st w = (st', w', out', stop, Some (nm, e)) \<Longrightarrow>
   \<exists>hk \<in> set hks. senabled hk \<and> Name (smeta hk) = nm
     \<and> (\<exists>w0 nxt ms. shandler hk x out' w0 = (nxt, stop, Some e, ms, w'))"
proof (induction hks arbitrary: out st w)
  case (Cons hk hks)
  obtain nx sp er ms w1 where hd: "shandler hk x out w = (nx, sp, er, ms, w1)"
    by (cases "shandler hk x out w") auto
  show ?case
  proof (cases "senabled hk")
    case False
    with Cons.IH [of out st w] Cons.prems show ?thesis by auto
  next
    case en: True
    show ?thesis
    proof (cases er)
      case (Some e')
      with en hd Cons.prems show ?thesis by (fastforce simp: Let_def)
    next
      case None
      with Cons.IH [of nx "recordDuration ms (Name (smeta hk)) (recordInvocation (Name (smeta hk)) st)" w1]
        en hd Cons.prems
      show ?thesis by (auto simp: Let_def split: if_splits)
    qed
  qed
qed simp

definition observer_tasks :: "'x \<Rightarrow> 'p \<Rightarrow> ('x, 'p, 'w) named_async list \<Rightarrow> ('x, 'p, 'w) task list" where
  "observer_tasks x payload hks = map (\<lambda>hk. (hk, x, payload)) (filter aenabled hks)"

lemma emitAsync_submits:
  "\<not> hub_closed h \<Longrightarrow>
   executor.submit_all (asyncExec h) (observer_tasks x payload hks) = (q, bs) \<Longrightarrow>
   asyncExec (emitAsync submit_now x hks payload h) = q
   \<and> droppedAsync (emitAsync submit_now x hks payload h) =
       droppedAsync h + int (length (filter Not bs))"
proof (induction hks arbitrary: h q bs)
  case (Cons hk hks)
  show ?case
  proof (cases "aenabled hk")
    case False
    with Cons.IH [OF Cons.prems(1)] Cons.prems(2) show ?thesis by (simp add: observer_tasks_def)
  next
    case True
    obtain q1 b where s: "submit_now (asyncExec h) (hk, x, payload) = (q1, b)" by fastforce
    obtain q2 bs' where r: "executor.submit_all q1 (observer_tasks x payload hks) = (q2, bs')"
      by fastforce
    let ?h1 = "h\<lparr>asyncExec := q1\<rparr>"
    let ?h2 = "if \<not> b
      then ?h1\<lparr>droppedAsync := droppedAsync ?h1 + 1,
             pluginStats := recordDropped (Name (ameta hk)) (pluginStats ?h1)\<rparr>
      else ?h1"
    have "\<not> hub_closed ?h2" "asyncExec ?h2 = q1" using Cons.prems(1) by simp_all
    with Cons.IH [of ?h2 q2 bs'] r
    have IH: "asyncExec (emitAsync submit_now x hks payload ?h2) = q2
        \<and> droppedAsync (emitAsync submit_now x hks payload ?h2) =
          droppedAsync ?h2 + int (length (filter Not bs'))" by simp
    have "q = q2" "bs = b # bs'"
      using Cons.prems(2) True s r by (simp_all add: observer_tasks_def)
    moreover have "emitAsync submit_now x (hk # hks) payload h = emitAsync submit_now x hks payload ?h2"
      using True Cons.prems(1) s by simp
    ultimately show ?thesis using IH by simp
  qed
qed (simp add: observer_tasks_def)

section \<open>Properties\<close>


definition demo_meta :: "string \<Rightarrow> int \<Rightarrow> plugin_meta" where
  "demo_meta nm p = \<lparr>Name = nm, Priority = p, Kind = PluginKindObserver, Stage = '''', Enabled = False\<rparr>"

definition demo_hub :: "(unit, nat, nat, string, (unit, nat, nat) task exec) hub" where
  "demo_hub =
     RegisterAsyncMeta ''e'' (demo_meta ''o2'' 2) (\<lambda>_ p w. w + p)
       (RegisterAsyncMeta ''e'' (demo_meta ''o1'' 1) (\<lambda>_ p w. p)
         (RegisterSyncMeta ''e'' (demo_meta ''stop'' 5) (\<lambda>_ p w. (p * 10, True, None, 1, w))
           (RegisterSyncMeta ''e'' (demo_meta ''inc'' 1) (\<lambda>_ p w. (p + 1, False, None, 1, w))
             (NewHub (fst (NewAsyncExecutor (defaultAsyncConfig\<lparr>QueueSize := 1\<rparr>)))))))"


text \<open>Fact: disabling a plugin by name reaches one handler only. A plugin registered under one name
  for two events still runs for the other one, and which one depends on the order in which Go
  visits the map.\<close>

definition two_events :: "(unit, nat, unit, unit, unit) hub" where
  "two_events =
     RegisterSyncMeta ''b'' (demo_meta ''p'' 1) (\<lambda>_ p w. (p, False, None, 0, w))
       (RegisterSyncMeta ''a'' (demo_meta ''p'' 1) (\<lambda>_ p w. (p, False, None, 0, w)) (NewHub ()))"

theorem DisablePlugin_reaches_one_handler:
  "(let h = setPluginEnabled [''a'', ''b''] [] ''p'' False two_events
    in map senabled (syncHandlers h ''a'') = [False] \<and> map senabled (syncHandlers h ''b'') = [True])
   \<and> (let h = setPluginEnabled [''b'', ''a''] [] ''p'' False two_events
    in map senabled (syncHandlers h ''a'') = [True] \<and> map senabled (syncHandlers h ''b'') = [False])"
  by code_simp

end
