(* ===== verification/Turn_Metrics.thy ===== *)
theory Turn_Metrics
  imports Prelude
begin

text \<open>
  \<^verbatim>\<open>internal/domain/chat/hooks/statistic_plugin.go\<close>: the built-in observer that collects the
  timestamps of the latest turn of every session. Times are milliseconds; a map is a partial
  function. The loop of \<^verbatim>\<open>cleanupStaleLocked\<close> visits every session once, in any order, and looks
  only at that session, so it is written as one function on the maps.
\<close>

datatype metric_stage =
    MetricTurnStart | MetricTurnEnd | MetricAsrFirstText | MetricAsrFinalText | MetricLlmStart
  | MetricLlmFirstToken | MetricLlmEnd | MetricTtsStart | MetricTtsFirstFrame | MetricTtsStop
  | OtherStage string

record metric_data =
  Stage :: metric_stage
  Ts :: int

record turn_metric =
  turnID :: int
  turnStartTs :: int
  turnEndTs :: int
  asrFirstTextTs :: int
  asrFinalTextTs :: int
  llmStartTs :: int
  llmFirstTokenTs :: int
  llmEndTs :: int
  ttsStartTs :: int
  ttsFirstFrameTs :: int
  ttsStopTs :: int

record 's statistic_plugin =
  nextTurn :: "'s \<Rightarrow> int option"
  current :: "'s \<Rightarrow> turn_metric option"
  lastSeen :: "'s \<Rightarrow> int option"
  cleanupCounter :: int
  cleanupThreshold :: int

definition newStatisticPlugin :: "'s statistic_plugin" where
  "newStatisticPlugin = \<lparr>nextTurn = (\<lambda>_. None), current = (\<lambda>_. None), lastSeen = (\<lambda>_. None),
     cleanupCounter = 0, cleanupThreshold = 100\<rparr>"

definition new_turn :: "int \<Rightarrow> turn_metric" where
  "new_turn i = \<lparr>turnID = i, turnStartTs = 0, turnEndTs = 0, asrFirstTextTs = 0, asrFinalTextTs = 0,
     llmStartTs = 0, llmFirstTokenTs = 0, llmEndTs = 0, ttsStartTs = 0, ttsFirstFrameTs = 0,
     ttsStopTs = 0\<rparr>"

definition canReuseForLateTurnStart :: "turn_metric \<Rightarrow> bool" where
  "canReuseForLateTurnStart tm \<longleftrightarrow>
     turnStartTs tm = 0 \<and> llmStartTs tm = 0 \<and> ttsStartTs tm = 0 \<and> ttsStopTs tm = 0"

definition canStartTurnWithoutTurnStart :: "metric_stage \<Rightarrow> bool" where
  "canStartTurnWithoutTurnStart stage \<longleftrightarrow>
     stage \<in> {MetricAsrFirstText, MetricAsrFinalText, MetricLlmStart, MetricTtsStart}"

definition startNewTurn :: "'s statistic_plugin \<Rightarrow> 's \<Rightarrow> 's statistic_plugin \<times> turn_metric" where
  "startNewTurn p s =
     (let newTurnID = (case nextTurn p s of Some n \<Rightarrow> n | None \<Rightarrow> 0) + 1;
          tm = new_turn newTurnID
      in (p\<lparr>nextTurn := (nextTurn p)(s \<mapsto> newTurnID), current := (current p)(s \<mapsto> tm)\<rparr>, tm))"

definition getTurnForStage :: "'s statistic_plugin \<Rightarrow> 's \<Rightarrow> metric_stage \<Rightarrow> 's statistic_plugin \<times> turn_metric option" where
  "getTurnForStage p s stage =
     (if stage = MetricTurnStart then
        (case current p s of
           Some tm \<Rightarrow>
             if canReuseForLateTurnStart tm then (p, Some tm)
             else (case startNewTurn p s of (p', tm) \<Rightarrow> (p', Some tm))
         | None \<Rightarrow> (case startNewTurn p s of (p', tm) \<Rightarrow> (p', Some tm)))
      else
        (case current p s of
           Some tm \<Rightarrow> (p, Some tm)
         | None \<Rightarrow>
             if canStartTurnWithoutTurnStart stage
             then (case startNewTurn p s of (p', tm) \<Rightarrow> (p', Some tm))
             else (p, None)))"

text \<open>The update of the turn's record; \<open>apply_stage\<close> is the \<^verbatim>\<open>switch\<close>, without \<^verbatim>\<open>turn_end\<close>'s return.\<close>

definition apply_stage :: "turn_metric \<Rightarrow> metric_data \<Rightarrow> turn_metric" where
  "apply_stage tm d =
     (case Stage d of
        MetricTurnStart \<Rightarrow>
          if turnStartTs tm = 0 \<or> Ts d > 0 \<and> Ts d < turnStartTs tm then tm\<lparr>turnStartTs := Ts d\<rparr> else tm
      | MetricTurnEnd \<Rightarrow> if turnEndTs tm = 0 then tm\<lparr>turnEndTs := Ts d\<rparr> else tm
      | MetricAsrFirstText \<Rightarrow> if asrFirstTextTs tm = 0 then tm\<lparr>asrFirstTextTs := Ts d\<rparr> else tm
      | MetricAsrFinalText \<Rightarrow> if asrFinalTextTs tm = 0 then tm\<lparr>asrFinalTextTs := Ts d\<rparr> else tm
      | MetricLlmStart \<Rightarrow> if llmStartTs tm = 0 then tm\<lparr>llmStartTs := Ts d\<rparr> else tm
      | MetricLlmFirstToken \<Rightarrow>
          if llmStartTs tm > 0 \<and> llmFirstTokenTs tm = 0 then tm\<lparr>llmFirstTokenTs := Ts d\<rparr> else tm
      | MetricLlmEnd \<Rightarrow> if llmStartTs tm > 0 \<and> llmEndTs tm = 0 then tm\<lparr>llmEndTs := Ts d\<rparr> else tm
      | MetricTtsStart \<Rightarrow> if ttsStartTs tm = 0 then tm\<lparr>ttsStartTs := Ts d\<rparr> else tm
      | MetricTtsFirstFrame \<Rightarrow>
          if ttsStartTs tm > 0 \<and> ttsFirstFrameTs tm = 0 then tm\<lparr>ttsFirstFrameTs := Ts d\<rparr> else tm
      | MetricTtsStop \<Rightarrow> if ttsStartTs tm > 0 \<and> ttsStopTs tm = 0 then tm\<lparr>ttsStopTs := Ts d\<rparr> else tm
      | OtherStage _ \<Rightarrow> tm)"

definition applyMetric ::
    "'s statistic_plugin \<Rightarrow> 's \<Rightarrow> turn_metric \<Rightarrow> metric_data \<Rightarrow> 's statistic_plugin \<times> turn_metric option" where
  "applyMetric p s tm d =
     (if Stage d \<noteq> MetricTurnStart \<and> turnStartTs tm > 0 \<and> Ts d > 0 \<and> Ts d < turnStartTs tm
      then (p, None)
      else
        (let tm' = apply_stage tm d
         in if Stage d = MetricTurnEnd then (p\<lparr>current := (current p)(s := None)\<rparr>, Some tm')
            else (p\<lparr>current := (current p)(s \<mapsto> tm')\<rparr>, None)))"

definition stale_ttl :: int where "stale_ttl = 2 * 60 * 1000"

definition cleanupStale :: "'s statistic_plugin \<Rightarrow> int \<Rightarrow> 's statistic_plugin" where
  "cleanupStale p nowTs =
     (let stale = (\<lambda>s. case lastSeen p s of Some ts \<Rightarrow> \<not> nowTs - ts \<le> stale_ttl | None \<Rightarrow> False)
      in p\<lparr>lastSeen := (\<lambda>s. if stale s then None else lastSeen p s),
           current := (\<lambda>s. if stale s then None else current p s),
           nextTurn := (\<lambda>s. if stale s then None else nextTurn p s)\<rparr>)"

text \<open>\<open>d\<close> is \<^verbatim>\<open>None\<close> for a payload of another type.\<close>

definition onMetric ::
    "string statistic_plugin \<Rightarrow> string \<Rightarrow> int \<Rightarrow> metric_data option \<Rightarrow> string statistic_plugin \<times> turn_metric option" where
  "onMetric p s nowTs d =
     (case d of
        None \<Rightarrow> (p, None)
      | Some data \<Rightarrow>
          if s = '''' then (p, None)
          else
            (let p1 = p\<lparr>lastSeen := (lastSeen p)(s \<mapsto> nowTs), cleanupCounter := cleanupCounter p + 1\<rparr>;
                 p2 = (if cleanupCounter p1 mod cleanupThreshold p1 = 0 then cleanupStale p1 nowTs else p1)
             in case getTurnForStage p2 s (Stage data) of
                  (p3, Some tm) \<Rightarrow> applyMetric p3 s tm data
                | (p3, None) \<Rightarrow> (p3, None)))"

definition calcDelta :: "int \<Rightarrow> int \<Rightarrow> int" where
  "calcDelta start end' = (if start \<le> 0 \<or> end' \<le> 0 \<or> end' < start then 0 else end' - start)"

definition logTurnMetric :: "turn_metric \<Rightarrow> int list" where
  \<comment> \<open>the numbers of the log line, in its order\<close>
  "logTurnMetric tm =
     (let e2eTotalEndTs = (if turnEndTs tm = 0 then ttsStopTs tm else turnEndTs tm)
      in [turnID tm,
          calcDelta (turnStartTs tm) (asrFirstTextTs tm),
          calcDelta (asrFirstTextTs tm) (asrFinalTextTs tm),
          calcDelta (llmStartTs tm) (llmFirstTokenTs tm),
          calcDelta (llmStartTs tm) (llmEndTs tm),
          calcDelta (ttsStartTs tm) (ttsFirstFrameTs tm),
          calcDelta (ttsStartTs tm) (ttsStopTs tm),
          calcDelta (turnStartTs tm) (ttsFirstFrameTs tm),
          calcDelta (turnStartTs tm) e2eTotalEndTs])"

section \<open>Runs and the invariant\<close>

type_synonym metric_event = "string \<times> int \<times> metric_data option"

fun run_metrics ::
    "string statistic_plugin \<Rightarrow> metric_event list \<Rightarrow> string statistic_plugin \<times> (string \<times> turn_metric) list" where
  "run_metrics p [] = (p, [])"
| "run_metrics p ((s, nowTs, d) # es) =
     (case onMetric p s nowTs d of
        (p', c) \<Rightarrow>
          (case run_metrics p' es of
             (p'', cs) \<Rightarrow> (p'', (case c of Some tm \<Rightarrow> [(s, tm)] | None \<Rightarrow> []) @ cs)))"

definition turns_ok :: "string statistic_plugin \<Rightarrow> bool" where
  "turns_ok p \<longleftrightarrow>
     (\<forall>s tm. current p s = Some tm \<longrightarrow> nextTurn p s = Some (turnID tm) \<and> 0 < turnID tm)
     \<and> (\<forall>s n. nextTurn p s = Some n \<longrightarrow> 0 < n)"

definition done_turns :: "string statistic_plugin \<Rightarrow> string \<Rightarrow> int" where
  \<comment> \<open>the number of the last turn that is over\<close>
  "done_turns p s =
     (case current p s of Some tm \<Rightarrow> turnID tm - 1
      | None \<Rightarrow> (case nextTurn p s of Some n \<Rightarrow> n | None \<Rightarrow> 0))"

lemma apply_stage_turnID [simp]: "turnID (apply_stage tm d) = turnID tm"
  by (simp add: apply_stage_def split: metric_stage.split)

lemma turns_ok_new: "turns_ok newStatisticPlugin"
  by (simp add: turns_ok_def newStatisticPlugin_def)

lemma turns_ok_cleanup: "turns_ok p \<Longrightarrow> turns_ok (cleanupStale p t)"
  by (auto simp: turns_ok_def cleanupStale_def Let_def)

lemma done_turns_cong:
  "current p' x = current p x \<Longrightarrow> nextTurn p' x = nextTurn p x \<Longrightarrow> done_turns p' x = done_turns p x"
  unfolding done_turns_def by (simp only:)

lemma startNewTurn_ok:
  assumes "turns_ok p" and "startNewTurn p s = (p', tm)"
  shows "turns_ok p' \<and> current p' s = Some tm \<and> lastSeen p' = lastSeen p
    \<and> done_turns p s \<le> done_turns p' s \<and> (\<forall>x. x \<noteq> s \<longrightarrow> done_turns p' x = done_turns p x)"
proof -
  let ?n = "case nextTurn p s of Some n \<Rightarrow> n | None \<Rightarrow> 0"
  have n: "0 \<le> ?n" "done_turns p s \<le> ?n"
    using assms(1) by (force simp: turns_ok_def done_turns_def split: option.splits)+
  have p': "nextTurn p' = (nextTurn p)(s \<mapsto> ?n + 1)" "current p' = (current p)(s \<mapsto> tm)"
      "lastSeen p' = lastSeen p" "turnID tm = ?n + 1"
    using assms(2) by (auto simp: startNewTurn_def new_turn_def Let_def)
  have "turns_ok p'" using assms(1) n(1) p' by (auto simp: turns_ok_def)
  moreover have "done_turns p' s = ?n" using p' by (simp add: done_turns_def)
  moreover have "done_turns p' x = done_turns p x" if "x \<noteq> s" for x
    using p' that by (intro done_turns_cong) simp_all
  ultimately show ?thesis using n(2) p' by simp
qed

lemma getTurnForStage_cases:
  assumes "getTurnForStage p s stage = (p', t)"
  shows "p' = p \<and> t = current p s \<or> (\<exists>tm. startNewTurn p s = (p', tm) \<and> t = Some tm)"
  using assms
  by (cases "startNewTurn p s") (auto simp: getTurnForStage_def split: if_splits option.splits)

lemma getTurnForStage_ok:
  assumes "turns_ok p" and "getTurnForStage p s stage = (p', Some tm)"
  shows "turns_ok p' \<and> current p' s = Some tm \<and> lastSeen p' = lastSeen p
    \<and> done_turns p s \<le> done_turns p' s \<and> (\<forall>x. x \<noteq> s \<longrightarrow> done_turns p' x = done_turns p x)"
  using getTurnForStage_cases [OF assms(2)] startNewTurn_ok [OF assms(1)] assms(1) by auto

lemma getTurnForStage_none:
  "getTurnForStage p s stage = (p', None) \<Longrightarrow> p' = p"
  using getTurnForStage_cases by fastforce

lemma applyMetric_ok:
  assumes "turns_ok p" and "current p s = Some tm" and "applyMetric p s tm d = (p', c)"
  shows "turns_ok p' \<and> lastSeen p' = lastSeen p \<and> done_turns p s \<le> done_turns p' s
    \<and> (\<forall>x. x \<noteq> s \<longrightarrow> done_turns p' x = done_turns p x)
    \<and> (\<forall>f. c = Some f \<longrightarrow> turnID f = done_turns p' s \<and> done_turns p s < turnID f)"
proof -
  have n: "nextTurn p s = Some (turnID tm)" "0 < turnID tm"
    using assms(1,2) by (auto simp: turns_ok_def)
  consider (late) "p' = p" "c = None"
    | (ended) "p' = p\<lparr>current := (current p)(s := None)\<rparr>" "c = Some (apply_stage tm d)"
    | (stored) "p' = p\<lparr>current := (current p)(s \<mapsto> apply_stage tm d)\<rparr>" "c = None"
    using assms(3) by (auto simp: applyMetric_def Let_def split: if_splits)
  then show ?thesis
  proof cases
    case ended
    have "done_turns p' x = done_turns p x" if "x \<noteq> s" for x
      using ended that by (intro done_turns_cong) simp_all
    with ended n assms show ?thesis by (auto simp: turns_ok_def done_turns_def)
  next
    case stored
    have "done_turns p' x = done_turns p x" if "x \<noteq> s" for x
      using stored that by (intro done_turns_cong) simp_all
    with stored n assms show ?thesis by (auto simp: turns_ok_def done_turns_def)
  qed (use assms in simp)
qed

lemma onMetric_ok: "turns_ok p \<Longrightarrow> onMetric p s nowTs d = (p', c) \<Longrightarrow> turns_ok p'"
proof -
  assume ok: "turns_ok p" and on: "onMetric p s nowTs d = (p', c)"
  show ?thesis
  proof (cases "d = None \<or> s = ''''")
    case True
    with on ok show ?thesis by (auto simp: onMetric_def split: option.splits)
  next
    case False
    then obtain data where d: "d = Some data" by auto
    let ?p1 = "p\<lparr>lastSeen := (lastSeen p)(s \<mapsto> nowTs), cleanupCounter := cleanupCounter p + 1\<rparr>"
    let ?p2 = "if cleanupCounter ?p1 mod cleanupThreshold ?p1 = 0 then cleanupStale ?p1 nowTs else ?p1"
    have "turns_ok ?p1" using ok by (simp add: turns_ok_def)
    then have ok2: "turns_ok ?p2" using turns_ok_cleanup by simp
    obtain p3 t where g: "getTurnForStage ?p2 s (Stage data) = (p3, t)" by fastforce
    have r: "(p', c) = (case t of Some tm \<Rightarrow> applyMetric p3 s tm data | None \<Rightarrow> (p3, None))"
      using on d False g by (simp add: onMetric_def Let_def split: option.splits)
    show ?thesis
    proof (cases t)
      case None
      with r g ok2 getTurnForStage_none [of ?p2 s "Stage data" p3] show ?thesis by simp
    next
      case (Some tm)
      from getTurnForStage_ok [OF ok2 g [unfolded Some]] r Some
        applyMetric_ok [of p3 s tm data p' c] show ?thesis by simp
    qed
  qed
qed

lemma cleanup_idle:
  assumes "\<And>s ts. lastSeen p s = Some ts \<Longrightarrow> nowTs - ts \<le> stale_ttl"
  shows "cleanupStale p nowTs = p"
proof -
  have "(case lastSeen p s of Some ts \<Rightarrow> \<not> nowTs - ts \<le> stale_ttl | None \<Rightarrow> False) = False" for s
    using assms by (cases "lastSeen p s") auto
  then show ?thesis by (simp add: cleanupStale_def Let_def)
qed

lemma onMetric_progress:
  assumes ok: "turns_ok p" and on: "onMetric p s nowTs d = (p', c)"
    and seen: "\<And>s ts. lastSeen p s = Some ts \<Longrightarrow> t0 \<le> ts" and t: "t0 \<le> nowTs" "nowTs \<le> t0 + stale_ttl"
  shows "(\<forall>x ts. lastSeen p' x = Some ts \<longrightarrow> t0 \<le> ts) \<and> (\<forall>x. done_turns p x \<le> done_turns p' x)
    \<and> (\<forall>f. c = Some f \<longrightarrow> turnID f = done_turns p' s \<and> done_turns p s < turnID f)"
proof (cases "d = None \<or> s = ''''")
  case True
  with on seen show ?thesis by (auto simp: onMetric_def split: option.splits)
next
  case False
  then obtain data where d: "d = Some data" by auto
  let ?p1 = "p\<lparr>lastSeen := (lastSeen p)(s \<mapsto> nowTs), cleanupCounter := cleanupCounter p + 1\<rparr>"
  have seen1: "t0 \<le> ts" if "lastSeen ?p1 x = Some ts" for x ts
    using that seen [of x ts] t by (auto split: if_splits)
  have "cleanupStale ?p1 nowTs = ?p1"
    by (rule cleanup_idle) (use seen1 t in fastforce)
  then have p2: "(if cleanupCounter ?p1 mod cleanupThreshold ?p1 = 0 then cleanupStale ?p1 nowTs else ?p1) = ?p1"
    by simp
  obtain p3 tm where g: "getTurnForStage ?p1 s (Stage data) = (p3, tm)" by fastforce
  have r: "(p', c) = (case tm of Some tm \<Rightarrow> applyMetric p3 s tm data | None \<Rightarrow> (p3, None))"
    using on d False g
    by (simp add: onMetric_def Let_def p2 [simplified] split: option.splits)
  have ok1: "turns_ok ?p1" using ok by (simp add: turns_ok_def)
  have same: "done_turns ?p1 x = done_turns p x" for x by (rule done_turns_cong) simp_all
  show ?thesis
  proof (cases tm)
    case None
    with r g getTurnForStage_none [of ?p1 s "Stage data" p3] seen1 same show ?thesis by auto
  next
    case (Some tm0)
    note G = getTurnForStage_ok [OF ok1 g [unfolded Some]]
    with r Some have a: "applyMetric p3 s tm0 data = (p', c)" by simp
    note A = applyMetric_ok [OF _ _ a]
    have "done_turns p x \<le> done_turns p' x" for x
      using G A same [of x] by (cases "x = s") auto
    moreover have "\<forall>x ts. lastSeen p' x = Some ts \<longrightarrow> t0 \<le> ts" using G A seen1 by auto
    moreover have "\<forall>f. c = Some f \<longrightarrow> turnID f = done_turns p' s \<and> done_turns p s < turnID f"
      using G A same [of s] by fastforce
    ultimately show ?thesis by blast
  qed
qed

lemma run_metrics_ids:
  assumes "turns_ok p" and "\<And>s ts. lastSeen p s = Some ts \<Longrightarrow> t0 \<le> ts"
    and "\<And>s nowTs d. (s, nowTs, d) \<in> set es \<Longrightarrow> t0 \<le> nowTs \<and> nowTs \<le> t0 + stale_ttl"
    and "run_metrics p es = (p', cs)"
  shows "sorted_wrt (<) (map (\<lambda>c. turnID (snd c)) (filter (\<lambda>c. fst c = s) cs))
    \<and> (\<forall>c \<in> set cs. fst c = s \<longrightarrow> done_turns p s < turnID (snd c))"
  using assms
proof (induction es arbitrary: p cs)
  case (Cons ev es)
  obtain x nowTs d where ev: "ev = (x, nowTs, d)" by (cases ev)
  obtain p1 c where on: "onMetric p x nowTs d = (p1, c)" by fastforce
  obtain cs1 where r: "run_metrics p1 es = (p', cs1)" "cs = (case c of Some tm \<Rightarrow> [(x, tm)] | None \<Rightarrow> []) @ cs1"
    using Cons.prems(4) ev on by (auto split: prod.splits)
  have t: "t0 \<le> nowTs" "nowTs \<le> t0 + stale_ttl" using Cons.prems(3) [of x nowTs d] ev by simp_all
  have P: "(\<forall>y ts. lastSeen p1 y = Some ts \<longrightarrow> t0 \<le> ts) \<and> (\<forall>y. done_turns p y \<le> done_turns p1 y)
    \<and> (\<forall>f. c = Some f \<longrightarrow> turnID f = done_turns p1 x \<and> done_turns p x < turnID f)"
    by (rule onMetric_progress [OF Cons.prems(1) on _ t]) (rule Cons.prems(2))
  have IH: "sorted_wrt (<) (map (\<lambda>c. turnID (snd c)) (filter (\<lambda>c. fst c = s) cs1))
      \<and> (\<forall>c \<in> set cs1. fst c = s \<longrightarrow> done_turns p1 s < turnID (snd c))"
  proof (rule Cons.IH [OF onMetric_ok [OF Cons.prems(1) on] _ _ r(1)])
    show "t0 \<le> ts" if "lastSeen p1 y = Some ts" for y ts using P that by blast
    show "t0 \<le> n \<and> n \<le> t0 + stale_ttl" if "(y, n, e) \<in> set es" for y n e
      using Cons.prems(3) [of y n e] that by simp
  qed
  have le: "done_turns p s \<le> done_turns p1 s" using P by blast
  show ?case
  proof (cases c)
    case None
    then have "cs = cs1" using r(2) by simp
    with IH le show ?thesis by auto
  next
    case (Some f)
    with P have f: "turnID f = done_turns p1 x" "done_turns p x < turnID f" by blast+
    have "cs = (x, f) # cs1" using r(2) Some by simp
    with IH le f show ?thesis by (cases "x = s") auto
  qed
qed simp

lemma run_metrics_ok: "turns_ok p \<Longrightarrow> run_metrics p es = (p', cs) \<Longrightarrow> turns_ok p'"
proof (induction es arbitrary: p cs)
  case (Cons ev es)
  then show ?case by (cases ev) (auto split: prod.splits intro: onMetric_ok)
qed simp

section \<open>Properties\<close>

text \<open>Fact: over any stream of metrics that arrive within two minutes, the turns of a session that
  complete have strictly increasing numbers, starting from 1, whatever turns were abandoned in
  between and whatever other sessions do.\<close>

theorem completed_turns_increase:
  assumes "run_metrics newStatisticPlugin es = (p, cs)"
    and "\<And>s nowTs d. (s, nowTs, d) \<in> set es \<Longrightarrow> t0 \<le> nowTs \<and> nowTs \<le> t0 + 120000"
  shows "sorted_wrt (<) (map (\<lambda>c. turnID (snd c)) (filter (\<lambda>c. fst c = s) cs))
    \<and> (\<forall>c \<in> set cs. 1 \<le> turnID (snd c))"
proof -
  have t: "t0 \<le> nowTs \<and> nowTs \<le> t0 + stale_ttl" if "(x, nowTs, d) \<in> set es" for x nowTs d
    using assms(2) [OF that] by (simp add: stale_ttl_def)
  have new: "lastSeen newStatisticPlugin x = Some ts \<Longrightarrow> t0 \<le> ts"
      "done_turns newStatisticPlugin x = 0" for x ts
    by (simp_all add: newStatisticPlugin_def done_turns_def)
  have R: "sorted_wrt (<) (map (\<lambda>c. turnID (snd c)) (filter (\<lambda>c. fst c = x) cs))
      \<and> (\<forall>c \<in> set cs. fst c = x \<longrightarrow> done_turns newStatisticPlugin x < turnID (snd c))" for x
    by (rule run_metrics_ids [OF turns_ok_new _ _ assms(1)]) (use new(1) t in blast)+
  have "1 \<le> turnID (snd c)" if "c \<in> set cs" for c
    using R [of "fst c"] that new(2) [of "fst c"] by fastforce
  with R [of s] show ?thesis by blast
qed

definition demo_metrics :: "metric_event list" where
  "demo_metrics =
     [(''s'', 1000, Some \<lparr>Stage = MetricAsrFirstText, Ts = 900\<rparr>),
      (''s'', 1001, Some \<lparr>Stage = MetricTurnStart, Ts = 800\<rparr>),
      (''r'', 1002, Some \<lparr>Stage = MetricTurnStart, Ts = 1002\<rparr>),
      (''s'', 1003, Some \<lparr>Stage = MetricTurnStart, Ts = 1003\<rparr>),
      (''s'', 1004, Some \<lparr>Stage = MetricTurnEnd, Ts = 1000\<rparr>),
      (''s'', 1005, Some \<lparr>Stage = MetricTurnStart, Ts = 1005\<rparr>),
      (''s'', 1006, Some \<lparr>Stage = MetricTurnEnd, Ts = 1006\<rparr>),
      (''s'', 1007, Some \<lparr>Stage = MetricTurnStart, Ts = 1007\<rparr>),
      (''s'', 1008, Some \<lparr>Stage = MetricTurnEnd, Ts = 1008\<rparr>)]"

theorem completed_turns_increase_witness:
  "map (\<lambda>c. (fst c, turnID (snd c))) (snd (run_metrics newStatisticPlugin demo_metrics)) =
     [(''s'', 3), (''s'', 4)]
   \<and> sorted_wrt (<) (map (\<lambda>c. turnID (snd c))
       (filter (\<lambda>c. fst c = ''s'') (snd (run_metrics newStatisticPlugin demo_metrics))))"
proof -
  have r: "run_metrics newStatisticPlugin demo_metrics =
      (fst (run_metrics newStatisticPlugin demo_metrics), snd (run_metrics newStatisticPlugin demo_metrics))"
    by simp
  have "t0 \<le> nowTs \<and> nowTs \<le> t0 + 120000" if "(s, nowTs, d) \<in> set demo_metrics" "t0 = 1000"
    for s nowTs d t0
    using that by (auto simp: demo_metrics_def)
  then have t: "\<And>s nowTs d. (s, nowTs, d) \<in> set demo_metrics \<Longrightarrow> 1000 \<le> nowTs \<and> nowTs \<le> 1000 + 120000"
    by blast
  have "map (\<lambda>c. (fst c, turnID (snd c))) (snd (run_metrics newStatisticPlugin demo_metrics)) =
     [(''s'', 3), (''s'', 4)]"
    by code_simp
  moreover have "sorted_wrt (<) (map (\<lambda>c. turnID (snd c))
       (filter (\<lambda>c. fst c = ''s'') (snd (run_metrics newStatisticPlugin demo_metrics))))
     \<and> (\<forall>c \<in> set (snd (run_metrics newStatisticPlugin demo_metrics)). 1 \<le> turnID (snd c))"
    by (rule completed_turns_increase [OF r]) (rule t)
  ultimately show ?thesis by blast
qed

text \<open>Fact: within a turn every timestamp is written once: a metric can fill a field that is still 0
  and changes no other, except that the start of the turn may move to an earlier time. The first
  token and the end of the model's answer are recorded only after its start, the first frame and
  the end of the speech only after theirs.\<close>

theorem timestamps_written_once:
  assumes "turns_ok p" and "current p s = Some tm" and "applyMetric p s tm d = (p', c)"
    and "c = Some tm' \<or> c = None \<and> current p' s = Some tm'"
  shows "(\<forall>f \<in> {turnEndTs, asrFirstTextTs, asrFinalTextTs, llmStartTs, llmFirstTokenTs, llmEndTs,
        ttsStartTs, ttsFirstFrameTs, ttsStopTs}. f tm \<noteq> 0 \<longrightarrow> f tm' = f tm)
    \<and> (turnStartTs tm \<noteq> 0 \<longrightarrow> turnStartTs tm' \<le> turnStartTs tm)
    \<and> (llmFirstTokenTs tm' \<noteq> llmFirstTokenTs tm \<or> llmEndTs tm' \<noteq> llmEndTs tm \<longrightarrow> 0 < llmStartTs tm)
    \<and> (ttsFirstFrameTs tm' \<noteq> ttsFirstFrameTs tm \<or> ttsStopTs tm' \<noteq> ttsStopTs tm \<longrightarrow> 0 < ttsStartTs tm)
    \<and> turnID tm' = turnID tm"
proof -
  have "tm' = tm \<or> tm' = apply_stage tm d"
    using assms by (auto simp: applyMetric_def Let_def split: if_splits)
  then show ?thesis
    by (cases "Stage d") (auto simp: apply_stage_def split: if_splits)
qed

theorem timestamps_written_once_witness:
  "\<exists>p tm p'. applyMetric p ''s'' tm \<lparr>Stage = MetricLlmEnd, Ts = 70\<rparr> = (p', None)
     \<and> current p' ''s'' = Some (tm\<lparr>llmEndTs := 70\<rparr>) \<and> 0 < llmStartTs tm"
proof -
  let ?tm = "(new_turn 1)\<lparr>llmStartTs := 50\<rparr>"
  let ?p = "(newStatisticPlugin :: string statistic_plugin)\<lparr>nextTurn := [''s'' \<mapsto> 1], current := [''s'' \<mapsto> ?tm]\<rparr>"
  let ?d = "\<lparr>Stage = MetricLlmEnd, Ts = 70\<rparr>"
  let ?p' = "?p\<lparr>current := [''s'' \<mapsto> ?tm\<lparr>llmEndTs := 70\<rparr>]\<rparr>"
  have ok: "turns_ok ?p" by (simp add: turns_ok_def new_turn_def newStatisticPlugin_def)
  have cur: "current ?p ''s'' = Some ?tm" by simp
  have ap: "applyMetric ?p ''s'' ?tm ?d = (?p', None)"
    by (simp add: applyMetric_def apply_stage_def new_turn_def)
  have "0 < llmStartTs ?tm"
    using timestamps_written_once [OF ok cur ap, of "?tm\<lparr>llmEndTs := 70\<rparr>"]
    by (simp add: new_turn_def)
  with ap show ?thesis by (intro exI [of _ ?p] exI [of _ ?tm] exI [of _ ?p']) simp
qed

end
