(* ===== verification/Dialogue.thy ===== *)
theory Dialogue
  imports Prelude "HOL-Library.Sublist"
begin

text \<open>
  The dialogue history of \<^verbatim>\<open>internal/data/client/client.go\<close>: \<^verbatim>\<open>AddMessage\<close>, \<^verbatim>\<open>GetMessages\<close>,
  \<^verbatim>\<open>InitMessages\<close> and \<^verbatim>\<open>AlignToolMessages\<close>, which drops tool messages and assistant tool calls that
  do not match. A nil message is \<open>None\<close>; the panic of a slice out of range is the result \<open>None\<close>.
\<close>

datatype role = System | User | Assistant | Tool

record tool_call =
  ID :: string
  Function :: string   \<comment> \<open>its name\<close>
  Arguments :: string

datatype extra_value = ExtraBool bool | ExtraString gostr | ExtraOther

record message =
  Role :: role
  Content :: gostr
  ToolCalls :: "tool_call list"
  ToolCallID :: string
  Interrupt :: "extra_value option"  \<comment> \<open>the entry \<^verbatim>\<open>interrupt\<close> of the map \<^verbatim>\<open>Extra\<close>\<close>

type_synonym messages = "message option list"

definition calls_tools :: "message \<Rightarrow> bool" where
  "calls_tools m \<longleftrightarrow> Role m = Assistant \<and> ToolCalls m \<noteq> []"

text \<open>The two maps that the first pass fills.\<close>

definition validToolCallIDs :: "messages \<Rightarrow> string \<Rightarrow> bool" where
  "validToolCallIDs ms i \<longleftrightarrow>
     i \<noteq> '''' \<and> list_ex (\<lambda>m. case m of None \<Rightarrow> False
                   | Some msg \<Rightarrow> calls_tools msg \<and> list_ex (\<lambda>tc. ID tc = i) (ToolCalls msg)) ms"

definition usedToolCallIDs :: "messages \<Rightarrow> string \<Rightarrow> bool" where
  "usedToolCallIDs ms i \<longleftrightarrow>
     i \<noteq> '''' \<and> list_ex (\<lambda>m. case m of None \<Rightarrow> False
                   | Some msg \<Rightarrow> Role msg = Tool \<and> ToolCallID msg = i) ms"

fun align_calls :: "(string \<Rightarrow> bool) \<Rightarrow> message \<Rightarrow> tool_call list \<Rightarrow> messages" where
  "align_calls used msg [] = []"
| "align_calls used msg (tc # tcs) =
     (if ID tc \<noteq> ''''
      then if used (ID tc) then Some msg # align_calls used msg tcs else align_calls used msg tcs
      else align_calls used msg tcs)"

definition align_one :: "(string \<Rightarrow> bool) \<Rightarrow> (string \<Rightarrow> bool) \<Rightarrow> message option \<Rightarrow> messages" where
  "align_one valid used m =
     (case m of
        None \<Rightarrow> []
      | Some msg \<Rightarrow>
          if Role msg = Tool then
            (if ToolCallID msg \<noteq> '''' \<and> valid (ToolCallID msg) then [Some msg] else [])
          else if calls_tools msg then align_calls used msg (ToolCalls msg)
          else [Some msg])"

definition AlignToolMessages :: "messages \<Rightarrow> messages" where
  "AlignToolMessages ms =
     (if ms = [] then ms
      else concat (map (align_one (validToolCallIDs ms) (usedToolCallIDs ms)) ms))"

definition AddMessage :: "messages \<Rightarrow> message option \<Rightarrow> messages" where
  "AddMessage ms m = (case m of None \<Rightarrow> ms | Some msg \<Rightarrow> ms @ [Some msg])"

definition GetMessages :: "messages \<Rightarrow> int \<Rightarrow> messages option" where
  "GetMessages ms n =
     (if ms = [] then Some []
      else
        (let startIndex = int (length ms) - n;
             startIndex = (if startIndex < 0 then 0 else startIndex)
         in if startIndex > int (length ms) then None
            else Some (AlignToolMessages (drop (nat startIndex) ms))))"

definition InitMessages :: "messages \<Rightarrow> messages" where
  "InitMessages ms = AlignToolMessages ms"

section \<open>Lemmas\<close>

lemma align_calls_replicate:
  "align_calls used msg tcs =
     replicate (length (filter (\<lambda>tc. ID tc \<noteq> '''' \<and> used (ID tc)) tcs)) (Some msg)"
  by (induction tcs) auto

text \<open>How often a message of the input stands in the output.\<close>

definition copies :: "(string \<Rightarrow> bool) \<Rightarrow> (string \<Rightarrow> bool) \<Rightarrow> message option \<Rightarrow> nat" where
  "copies valid used m =
     (case m of
        None \<Rightarrow> 0
      | Some msg \<Rightarrow>
          if Role msg = Tool then if ToolCallID msg \<noteq> '''' \<and> valid (ToolCallID msg) then 1 else 0
          else if calls_tools msg
            then length (filter (\<lambda>tc. ID tc \<noteq> '''' \<and> used (ID tc)) (ToolCalls msg))
          else 1)"

lemma align_one_copies: "align_one valid used m = replicate (copies valid used m) m"
  by (simp add: align_one_def copies_def align_calls_replicate split: option.split)

lemma AlignToolMessages_eq:
  "AlignToolMessages ms =
     concat (map (\<lambda>m. replicate (copies (validToolCallIDs ms) (usedToolCallIDs ms) m) m) ms)"
  by (simp add: AlignToolMessages_def align_one_copies [abs_def])

lemma set_align: "set (AlignToolMessages ms) =
    {m \<in> set ms. 0 < copies (validToolCallIDs ms) (usedToolCallIDs ms) m}"
  by (auto simp: AlignToolMessages_eq)

lemma validToolCallIDs_iff:
  "validToolCallIDs ms i \<longleftrightarrow> i \<noteq> '''' \<and>
     (\<exists>msg. Some msg \<in> set ms \<and> calls_tools msg \<and> (\<exists>tc \<in> set (ToolCalls msg). ID tc = i))"
  by (auto simp: validToolCallIDs_def list_ex_iff split: option.splits)

lemma usedToolCallIDs_iff:
  "usedToolCallIDs ms i \<longleftrightarrow> i \<noteq> '''' \<and>
     (\<exists>msg. Some msg \<in> set ms \<and> Role msg = Tool \<and> ToolCallID msg = i)"
  by (auto simp: usedToolCallIDs_def list_ex_iff split: option.splits)

lemma kept_tool_iff:
  "Role msg = Tool \<Longrightarrow> Some msg \<in> set (AlignToolMessages ms) \<longleftrightarrow>
     Some msg \<in> set ms \<and> ToolCallID msg \<noteq> '''' \<and> validToolCallIDs ms (ToolCallID msg)"
  by (auto simp: set_align copies_def)

lemma kept_caller_iff:
  "calls_tools msg \<Longrightarrow> Some msg \<in> set (AlignToolMessages ms) \<longleftrightarrow>
     Some msg \<in> set ms \<and> (\<exists>tc \<in> set (ToolCalls msg). ID tc \<noteq> '''' \<and> usedToolCallIDs ms (ID tc))"
  by (auto simp: set_align copies_def calls_tools_def length_greater_0_conv filter_empty_conv)

text \<open>A call is used, and answered, in the output if it was used and valid in the input.\<close>

lemma used_align:
  "usedToolCallIDs (AlignToolMessages ms) i \<longleftrightarrow> usedToolCallIDs ms i \<and> validToolCallIDs ms i"
proof
  assume "usedToolCallIDs (AlignToolMessages ms) i"
  then show "usedToolCallIDs ms i \<and> validToolCallIDs ms i"
    using kept_tool_iff by (auto simp: usedToolCallIDs_iff)
next
  assume a: "usedToolCallIDs ms i \<and> validToolCallIDs ms i"
  then obtain msg where "i \<noteq> ''''" "Some msg \<in> set ms" "Role msg = Tool" "ToolCallID msg = i"
    by (auto simp: usedToolCallIDs_iff)
  then have "Some msg \<in> set (AlignToolMessages ms)"
    using a kept_tool_iff [of msg ms] by simp
  with \<open>i \<noteq> ''''\<close> \<open>Role msg = Tool\<close> \<open>ToolCallID msg = i\<close>
  show "usedToolCallIDs (AlignToolMessages ms) i"
    unfolding usedToolCallIDs_iff by blast
qed

lemma valid_align:
  "usedToolCallIDs ms i \<Longrightarrow> validToolCallIDs ms i \<Longrightarrow> validToolCallIDs (AlignToolMessages ms) i"
  unfolding validToolCallIDs_iff using kept_caller_iff by (metis usedToolCallIDs_iff)

lemma valid_align_sub: "validToolCallIDs (AlignToolMessages ms) i \<Longrightarrow> validToolCallIDs ms i"
  by (auto simp: validToolCallIDs_iff set_align)

lemma copies_align:
  assumes "m \<in> set (AlignToolMessages ms)"
  shows "copies (validToolCallIDs (AlignToolMessages ms)) (usedToolCallIDs (AlignToolMessages ms)) m =
    copies (validToolCallIDs ms) (usedToolCallIDs ms) m"
proof (cases m)
  case (Some msg)
  show ?thesis
  proof (cases "Role msg = Tool")
    case True
    then have k: "Some msg \<in> set ms" "ToolCallID msg \<noteq> ''''" "validToolCallIDs ms (ToolCallID msg)"
      using assms Some kept_tool_iff by auto
    then have "usedToolCallIDs ms (ToolCallID msg)" using True by (auto simp: usedToolCallIDs_iff)
    with k True Some valid_align show ?thesis by (simp add: copies_def)
  next
    case False
    have "usedToolCallIDs (AlignToolMessages ms) (ID tc) = usedToolCallIDs ms (ID tc)"
      if "calls_tools msg" "tc \<in> set (ToolCalls msg)" for tc
    proof -
      have "Some msg \<in> set ms" using assms Some by (simp add: set_align)
      with that have "usedToolCallIDs ms (ID tc) \<Longrightarrow> validToolCallIDs ms (ID tc)"
        by (auto simp: validToolCallIDs_iff usedToolCallIDs_iff)
      then show ?thesis using used_align by blast
    qed
    then have "calls_tools msg \<Longrightarrow>
        filter (\<lambda>tc. ID tc \<noteq> '''' \<and> usedToolCallIDs (AlignToolMessages ms) (ID tc)) (ToolCalls msg) =
        filter (\<lambda>tc. ID tc \<noteq> '''' \<and> usedToolCallIDs ms (ID tc)) (ToolCalls msg)"
      by (intro filter_cong) auto
    with False Some show ?thesis by (simp add: copies_def)
  qed
qed (simp add: copies_def)

lemma concat_replicate_filter:
  "(\<And>m. m \<in> set ms \<Longrightarrow> f m \<le> 1) \<Longrightarrow> concat (map (\<lambda>m. replicate (f m) m) ms) = filter (\<lambda>m. f m = 1) ms"
proof (induction ms)
  case (Cons m ms)
  then have "f m = 0 \<or> f m = 1" by (metis le_SucE le_zero_eq list.set_intros(1) One_nat_def)
  with Cons show ?case by auto
qed simp

section \<open>Properties\<close>

text \<open>C21: after alignment every tool message answers a call of an assistant message that is kept
  too, every kept assistant message with calls has a call that a kept tool message answers, and
  no message is new; messages of other kinds are all kept.\<close>

theorem aligned_tool_messages_match:
  shows "(\<forall>msg. Some msg \<in> set (AlignToolMessages ms) \<and> Role msg = Tool \<longrightarrow>
      (\<exists>a. Some a \<in> set (AlignToolMessages ms) \<and> calls_tools a
         \<and> (\<exists>tc \<in> set (ToolCalls a). ID tc = ToolCallID msg)))
    \<and> (\<forall>a. Some a \<in> set (AlignToolMessages ms) \<and> calls_tools a \<longrightarrow>
      (\<exists>msg. Some msg \<in> set (AlignToolMessages ms) \<and> Role msg = Tool
         \<and> (\<exists>tc \<in> set (ToolCalls a). ID tc = ToolCallID msg)))
    \<and> set (AlignToolMessages ms) \<subseteq> set ms - {None}
    \<and> (\<forall>msg. Some msg \<in> set ms \<and> Role msg \<noteq> Tool \<and> \<not> calls_tools msg \<longrightarrow>
         Some msg \<in> set (AlignToolMessages ms))"
proof (intro conjI allI impI)
  fix msg assume m: "Some msg \<in> set (AlignToolMessages ms) \<and> Role msg = Tool"
  then have k: "Some msg \<in> set ms" "ToolCallID msg \<noteq> ''''" "validToolCallIDs ms (ToolCallID msg)"
    using kept_tool_iff by auto
  then have "usedToolCallIDs ms (ToolCallID msg)" using m by (auto simp: usedToolCallIDs_iff)
  from valid_align [OF this k(3)]
  show "\<exists>a. Some a \<in> set (AlignToolMessages ms) \<and> calls_tools a
      \<and> (\<exists>tc \<in> set (ToolCalls a). ID tc = ToolCallID msg)"
    by (auto simp: validToolCallIDs_iff)
next
  fix a assume a: "Some a \<in> set (AlignToolMessages ms) \<and> calls_tools a"
  then obtain tc where tc: "Some a \<in> set ms" "tc \<in> set (ToolCalls a)" "ID tc \<noteq> ''''"
      "usedToolCallIDs ms (ID tc)"
    using kept_caller_iff by auto
  then have "validToolCallIDs ms (ID tc)" using a by (auto simp: validToolCallIDs_iff)
  with tc(4) have "usedToolCallIDs (AlignToolMessages ms) (ID tc)" by (simp add: used_align)
  with tc(2) show "\<exists>msg. Some msg \<in> set (AlignToolMessages ms) \<and> Role msg = Tool
      \<and> (\<exists>tc \<in> set (ToolCalls a). ID tc = ToolCallID msg)"
    unfolding usedToolCallIDs_iff by metis
next
  show "set (AlignToolMessages ms) \<subseteq> set ms - {None}" by (auto simp: set_align copies_def)
next
  fix msg assume "Some msg \<in> set ms \<and> Role msg \<noteq> Tool \<and> \<not> calls_tools msg"
  then show "Some msg \<in> set (AlignToolMessages ms)" by (simp add: set_align copies_def)
qed

definition tool_answer :: "string \<Rightarrow> message option" where
  "tool_answer i = Some \<lparr>Role = Tool, Content = [], ToolCalls = [], ToolCallID = i, Interrupt = None\<rparr>"

definition caller :: "string list \<Rightarrow> message option" where
  "caller is = Some \<lparr>Role = Assistant, Content = [],
     ToolCalls = map (\<lambda>i. \<lparr>ID = i, Function = ''f'', Arguments = ''''\<rparr>) is, ToolCallID = '''', Interrupt = None\<rparr>"

theorem aligned_tool_messages_match_witness:
  "AlignToolMessages [tool_answer ''x'', caller [''a'', ''b''], tool_answer ''b''] =
     [caller [''a'', ''b''], tool_answer ''b'']
   \<and> (\<exists>a. Some a \<in> set (AlignToolMessages [tool_answer ''x'', caller [''a'', ''b''], tool_answer ''b''])
       \<and> calls_tools a)"
proof -
  have eq: "AlignToolMessages [tool_answer ''x'', caller [''a'', ''b''], tool_answer ''b''] =
     [caller [''a'', ''b''], tool_answer ''b'']"
    by code_simp
  have "Some (the (tool_answer ''b'')) \<in> set (AlignToolMessages
      [tool_answer ''x'', caller [''a'', ''b''], tool_answer ''b'']) \<and> Role (the (tool_answer ''b'')) = Tool"
    unfolding eq by (simp add: tool_answer_def)
  with aligned_tool_messages_match [of "[tool_answer ''x'', caller [''a'', ''b''], tool_answer ''b'']"] eq
  show ?thesis by blast
qed

text \<open>Fact: when no assistant message has more than one answered call, alignment only deletes
  messages, keeps their order, and aligning once more changes nothing, so histories may be
  aligned at every read.\<close>

theorem align_deletes_and_is_idempotent:
  assumes "\<And>msg. Some msg \<in> set ms \<Longrightarrow> calls_tools msg \<Longrightarrow>
      length (filter (\<lambda>tc. ID tc \<noteq> '''' \<and> usedToolCallIDs ms (ID tc)) (ToolCalls msg)) \<le> 1"
  shows "subseq (AlignToolMessages ms) ms
    \<and> AlignToolMessages (AlignToolMessages ms) = AlignToolMessages ms"
proof -
  let ?c = "copies (validToolCallIDs ms) (usedToolCallIDs ms)"
  have le: "?c m \<le> 1" if "m \<in> set ms" for m
    using that assms by (auto simp: copies_def split: option.splits)
  have f: "AlignToolMessages ms = filter (\<lambda>m. ?c m = 1) ms"
    unfolding AlignToolMessages_eq by (rule concat_replicate_filter) (rule le)
  have "AlignToolMessages (AlignToolMessages ms) =
      concat (map (\<lambda>m. replicate (?c m) m) (AlignToolMessages ms))"
    unfolding AlignToolMessages_eq [of "AlignToolMessages ms"]
    using copies_align by (intro arg_cong [where f = concat] map_cong) simp_all
  also have "\<dots> = filter (\<lambda>m. ?c m = 1) (AlignToolMessages ms)"
    by (rule concat_replicate_filter) (use le set_align in auto)
  also have "\<dots> = AlignToolMessages ms" unfolding f by simp
  finally show ?thesis unfolding f by simp
qed

theorem align_deletes_and_is_idempotent_witness:
  "AlignToolMessages (AlignToolMessages [caller [''a'', ''b''], tool_answer ''b'']) =
     AlignToolMessages [caller [''a'', ''b''], tool_answer ''b'']"
proof -
  have "length (filter (\<lambda>tc. ID tc \<noteq> '''' \<and>
        usedToolCallIDs [caller [''a'', ''b''], tool_answer ''b''] (ID tc)) (ToolCalls msg)) \<le> 1"
    if "Some msg \<in> set [caller [''a'', ''b''], tool_answer ''b'']" "calls_tools msg" for msg
    using that by (auto simp: caller_def tool_answer_def calls_tools_def usedToolCallIDs_def)
  from align_deletes_and_is_idempotent [OF this] show ?thesis by blast
qed

text \<open>Fact: an assistant message with two answered calls is put into the history twice, and four
  times after the next read: the history a model sees repeats its calls.\<close>

theorem align_repeats_parallel_calls:
  "AlignToolMessages [caller [''a'', ''b''], tool_answer ''a'', tool_answer ''b''] =
     [caller [''a'', ''b''], caller [''a'', ''b''], tool_answer ''a'', tool_answer ''b'']
   \<and> map_option (\<lambda>ms. length (filter (\<lambda>m. m = caller [''a'', ''b'']) ms))
       (GetMessages (InitMessages [caller [''a'', ''b''], tool_answer ''a'', tool_answer ''b'']) 10) = Some 4"
  by code_simp

text \<open>Fact: \<^verbatim>\<open>GetMessages\<close> panics exactly for a negative count on a non-empty history; otherwise it
  aligns the last \<open>n\<close> messages.\<close>

theorem GetMessages_result:
  "GetMessages ms n =
     (if ms \<noteq> [] \<and> n < 0 then None
      else Some (AlignToolMessages (drop (length ms - nat n) ms)))"
proof (cases "ms = []")
  case False
  then show ?thesis
    by (auto simp: GetMessages_def Let_def nat_diff_distrib' intro!: arg_cong [where f = AlignToolMessages]
        arg_cong [where f = "\<lambda>k. drop k ms"])
qed (simp add: GetMessages_def AlignToolMessages_def)

end
