(* ===== verification/Client_State.thy ===== *)
theory Client_State
  imports Go_Channel
begin

text \<open>
  The state of a connected client, \<^verbatim>\<open>internal/data/client/{asr,vad,voice_status,statistics,client}.go\<close>:
  the audio that goes to speech recognition, the loop that waits for its result, the counters of
  voice activity, the cancellable contexts of a conversation, and the operations that end a
  voice segment or a session. Counters and durations are \<^verbatim>\<open>int64\<close>: 64-bit words read as signed.
\<close>

section \<open>Speech recognition (asr.go)\<close>

record 'e streaming_result =
  Text :: gostr
  IsFinal :: bool
  Error :: "'e option"
  ResultMode :: string
  RetryReason :: string

definition emptyResult :: "'e streaming_result" where
  "emptyResult = \<lparr>Text = [], IsFinal = False, Error = None, ResultMode = '''', RetryReason = ''''\<rparr>"

definition ascii_lower :: "char \<Rightarrow> char" where
  "ascii_lower c =
     (if of_char c \<ge> (65 :: nat) \<and> of_char c \<le> (90 :: nat) then char_of ((of_char c :: nat) + 32) else c)"

definition EqualFold :: "string \<Rightarrow> string \<Rightarrow> bool" where
  \<comment> \<open>\<^verbatim>\<open>strings.EqualFold\<close> on ASCII strings\<close>
  "EqualFold a b \<longleftrightarrow> map ascii_lower a = map ascii_lower b"

text \<open>What the loop of \<^verbatim>\<open>RetireAsrResult\<close> meets at each turn: the context has ended, a result, or a
  closed channel, which yields the zero result with \<^verbatim>\<open>ok = false\<close>.\<close>

datatype 'e asr_event = CtxDone | Result "'e streaming_result" | ResultsClosed

definition ignored_online :: "string \<Rightarrow> string \<Rightarrow> 'e streaming_result \<Rightarrow> bool" where
  "ignored_online asrType mode r \<longleftrightarrow>
     asrType = ''funasr'' \<and> EqualFold mode ''2pass'' \<and> EqualFold (ResultMode r) ''2pass-online''"

text \<open>The calls of the first-text callback, and the three results; \<open>None\<close> while still waiting.\<close>

fun retire_loop ::
    "string \<Rightarrow> string \<Rightarrow> bool \<Rightarrow> bool \<Rightarrow> (gostr \<times> bool) list \<Rightarrow> 'e asr_event list \<Rightarrow>
     (gostr \<times> bool) list \<times> ('e streaming_result \<times> bool \<times> 'e option) option" where
  "retire_loop asrType mode hasCallback sent calls [] = (calls, None)"
| "retire_loop asrType mode hasCallback sent calls (CtxDone # es) = (calls, Some (emptyResult, False, None))"
| "retire_loop asrType mode hasCallback sent calls (ev # es) =
     (let result = (case ev of Result r \<Rightarrow> r | _ \<Rightarrow> emptyResult); ok = (ev \<noteq> ResultsClosed)
      in case Error result of
           Some e \<Rightarrow>
             if RetryReason result \<noteq> '''' then (calls, Some (result, True, None))
             else (calls, Some (emptyResult, False, Some e))
         | None \<Rightarrow>
             (let first = (Text result \<noteq> [] \<and> \<not> sent \<and> hasCallback);
                  sent = (sent \<or> first);
                  calls = (if first then calls @ [(Text result, IsFinal result)] else calls)
              in if ignored_online asrType mode result
                 then retire_loop asrType mode hasCallback sent calls es
                 else if IsFinal result then (calls, Some (result, True, None))
                 else if \<not> ok then (calls, Some (emptyResult, True, None))
                 else retire_loop asrType mode hasCallback sent calls es))"

definition RetireAsrResult ::
    "string \<Rightarrow> string \<Rightarrow> bool \<Rightarrow> 'e asr_event list \<Rightarrow>
     (gostr \<times> bool) list \<times> ('e streaming_result \<times> bool \<times> 'e option) option" where
  "RetireAsrResult asrType mode hasCallback es = retire_loop asrType mode hasCallback False [] es"

record 'f asr =
  AsrAudioChannel :: "'f list chan option"
  HistoryAudioBuffer :: "'f list"
  ReceivedTextInTurn :: bool
  AsrResultText :: gostr

definition ResetAsr :: "'f asr \<Rightarrow> 'f asr" where "ResetAsr a = a\<lparr>AsrResultText := []\<rparr>"
definition MarkTextReceived :: "'f asr \<Rightarrow> 'f asr" where "MarkTextReceived a = a\<lparr>ReceivedTextInTurn := True\<rparr>"
definition ResetReceivedText :: "'f asr \<Rightarrow> 'f asr" where "ResetReceivedText a = a\<lparr>ReceivedTextInTurn := False\<rparr>"
definition ClearHistoryAudio :: "'f asr \<Rightarrow> 'f asr" where "ClearHistoryAudio a = a\<lparr>HistoryAudioBuffer := []\<rparr>"
definition GetHistoryAudio :: "'f asr \<Rightarrow> 'f list" where "GetHistoryAudio a = HistoryAudioBuffer a"
definition GetHistoryAudioLen :: "'f asr \<Rightarrow> nat" where "GetHistoryAudioLen a = length (HistoryAudioBuffer a)"

text \<open>\<open>None\<close> is a panic. \<^verbatim>\<open>StopWithReason\<close> also returns the channel it has closed.\<close>

definition StopWithReason :: "'f asr \<Rightarrow> ('f asr \<times> 'f list chan option) option" where
  "StopWithReason a =
     (case AsrAudioChannel a of
        None \<Rightarrow> Some (a, None)
      | Some c \<Rightarrow> (case chan_close c of None \<Rightarrow> None
                  | Some c' \<Rightarrow> Some (a\<lparr>AsrAudioChannel := None\<rparr>, Some c')))"

definition AddAudioData :: "'f asr \<Rightarrow> 'f list \<Rightarrow> ('f asr \<times> bool) option" where
  \<comment> \<open>the flag: the frame has been sent\<close>
  "AddAudioData a frame =
     (case AsrAudioChannel a of
        None \<Rightarrow> Some (a, False)
      | Some c \<Rightarrow>
          (case chan_send c frame of
             Sent c' \<Rightarrow>
               Some (a\<lparr>AsrAudioChannel := Some c', HistoryAudioBuffer := HistoryAudioBuffer a @ frame\<rparr>, True)
           | SendBlocks \<Rightarrow> Some (a, False)
           | SendPanics \<Rightarrow> None))"

definition InitAsr :: "'f asr" where
  "InitAsr = \<lparr>AsrAudioChannel = Some (make_chan 100), HistoryAudioBuffer = [], ReceivedTextInTurn = False,
     AsrResultText = []\<rparr>"

record 'f audio_buffer =
  PcmData :: "'f list"

definition AddAsrAudioData :: "'f audio_buffer \<Rightarrow> 'f list \<Rightarrow> 'f audio_buffer" where
  "AddAsrAudioData b frame = b\<lparr>PcmData := PcmData b @ frame\<rparr>"

definition GetAsrDataSize :: "'f audio_buffer \<Rightarrow> nat" where "GetAsrDataSize b = length (PcmData b)"

definition GetFrameCount :: "'f audio_buffer \<Rightarrow> int \<Rightarrow> int" where
  \<comment> \<open>Go's division truncates\<close>
  "GetFrameCount b frameSize =
     (if frameSize = 0 then 0
      else if frameSize > 0 then int (length (PcmData b)) div frameSize
      else - (int (length (PcmData b)) div (- frameSize)))"

definition GetAndClearAllData :: "'f audio_buffer \<Rightarrow> 'f audio_buffer \<times> 'f list" where
  "GetAndClearAllData b = (b\<lparr>PcmData := []\<rparr>, PcmData b)"

definition GetAsrData :: "'f audio_buffer \<Rightarrow> int \<Rightarrow> int \<Rightarrow> 'f list option" where
  \<comment> \<open>\<open>None\<close>: \<^verbatim>\<open>make\<close> panics on a negative length\<close>
  "GetAsrData b frameCount frameSize =
     (let pcmDataLen = int (length (PcmData b)); retSize = frameCount * frameSize;
          retSize = (if pcmDataLen < retSize then pcmDataLen else retSize)
      in if retSize < 0 then None else Some (drop (nat (pcmDataLen - retSize)) (PcmData b)))"

definition RemoveAsrAudioData :: "'f audio_buffer \<Rightarrow> int \<Rightarrow> int \<Rightarrow> 'f audio_buffer option" where
  "RemoveAsrAudioData b frameCount frameSize =
     (let removeSize = frameCount * frameSize;
          removeSize = (if removeSize > int (length (PcmData b)) then int (length (PcmData b)) else removeSize)
      in if removeSize < 0 then None else Some (b\<lparr>PcmData := drop (nat removeSize) (PcmData b)\<rparr>))"

definition ClearAsrAudioData :: "'f audio_buffer \<Rightarrow> 'f audio_buffer" where
  "ClearAsrAudioData b = b\<lparr>PcmData := []\<rparr>"

section \<open>Voice activity (vad.go, voice\_status.go)\<close>

type_synonym int64 = "64 word"

record vad =
  HasProvider :: bool
  IdleDuration :: int64
  VoiceDuration :: int64
  VoiceDurationInSession :: int64

definition AddIdleDuration :: "vad \<Rightarrow> int64 \<Rightarrow> vad" where
  "AddIdleDuration v d = v\<lparr>IdleDuration := IdleDuration v + d\<rparr>"
definition GetIdleDuration :: "vad \<Rightarrow> int64" where "GetIdleDuration v = IdleDuration v"
definition ResetIdleDuration :: "vad \<Rightarrow> vad" where "ResetIdleDuration v = v\<lparr>IdleDuration := 0\<rparr>"
definition AddVoiceDuration :: "vad \<Rightarrow> int64 \<Rightarrow> vad" where
  "AddVoiceDuration v d =
     v\<lparr>VoiceDurationInSession := VoiceDurationInSession v + d, VoiceDuration := VoiceDuration v + d\<rparr>"
definition GetVoiceDuration :: "vad \<Rightarrow> int64" where "GetVoiceDuration v = VoiceDuration v"
definition ResetVoiceDuration :: "vad \<Rightarrow> vad" where
  "ResetVoiceDuration v = v\<lparr>VoiceDuration := 0, VoiceDurationInSession := 0\<rparr>"
definition ResetVoiceContinuousDuration :: "vad \<Rightarrow> vad" where
  "ResetVoiceContinuousDuration v = v\<lparr>VoiceDuration := 0\<rparr>"
definition GetVoiceContinuousDuration :: "vad \<Rightarrow> int64" where
  "GetVoiceContinuousDuration v = VoiceDurationInSession v"
definition GetVoiceDurationInSession :: "vad \<Rightarrow> int64" where
  "GetVoiceDurationInSession v = VoiceDurationInSession v"
definition ResetVad :: "vad \<Rightarrow> vad" where
  \<comment> \<open>\<^verbatim>\<open>Reset\<close>: the provider goes back to its pool\<close>
  "ResetVad v = ResetVoiceDuration (ResetIdleDuration (v\<lparr>HasProvider := False\<rparr>))"

record voice_status =
  HaveVoice :: bool
  HaveVoiceLastTime :: int64
  VoiceStop :: bool
  SilenceThresholdTime :: int64

definition ResetVoiceStatus :: "voice_status \<Rightarrow> voice_status" where
  "ResetVoiceStatus v = v\<lparr>HaveVoice := False, HaveVoiceLastTime := 0, VoiceStop := False\<rparr>"
definition IsSilence :: "voice_status \<Rightarrow> int64 \<Rightarrow> bool" where
  "IsSilence v diffMilli \<longleftrightarrow> sint (SilenceThresholdTime v) < sint diffMilli"

definition MaxInt64 :: int64 where "MaxInt64 = 0x7fffffffffffffff"

text \<open>Two settings; \<open>None\<close> is a key that the configuration does not set.\<close>

definition GetMaxIdleDuration :: "int64 option \<Rightarrow> int64" where
  "GetMaxIdleDuration cfg =
     (case cfg of None \<Rightarrow> 30000 | Some d \<Rightarrow> if sint d \<le> 0 then MaxInt64 else d)"

definition GetPreAsrTextSilenceDuration :: "int64 option \<Rightarrow> voice_status \<Rightarrow> int64" where
  "GetPreAsrTextSilenceDuration cfg v =
     (case cfg of
        Some d \<Rightarrow> if sint d \<le> 0 then MaxInt64 else d
      | None \<Rightarrow>
          (let base = SilenceThresholdTime v;
               base = (if sint base \<le> 0 then 400 else base);
               pre = base * 4
           in if sint pre < 1000 then 1000 else pre))"

section \<open>Timestamps (statistics.go)\<close>

record statistic =
  TurnStartTs :: int64
  AsrFirstTextTs :: int64
  AsrFinalTextTs :: int64
  LlmStartTs :: int64
  LlmFirstTokenTs :: int64
  LlmEndTs :: int64
  TtsStartTs :: int64
  TtsFirstFrameTs :: int64
  TtsStopTs :: int64

definition MarkTurnStart :: "int64 \<Rightarrow> statistic \<Rightarrow> statistic" where
  "MarkTurnStart t s = s\<lparr>TurnStartTs := t\<rparr>"
definition MarkAsrFirstText :: "int64 \<Rightarrow> statistic \<Rightarrow> statistic" where
  "MarkAsrFirstText t s = (if AsrFirstTextTs s = 0 then s\<lparr>AsrFirstTextTs := t\<rparr> else s)"
definition MarkAsrFinalText :: "int64 \<Rightarrow> statistic \<Rightarrow> statistic" where
  "MarkAsrFinalText t s = (if AsrFinalTextTs s = 0 then s\<lparr>AsrFinalTextTs := t\<rparr> else s)"
definition MarkLlmStart :: "int64 \<Rightarrow> statistic \<Rightarrow> statistic" where
  "MarkLlmStart t s = s\<lparr>LlmStartTs := t, LlmFirstTokenTs := 0, LlmEndTs := 0\<rparr>"
definition MarkLlmFirstToken :: "int64 \<Rightarrow> statistic \<Rightarrow> statistic" where
  "MarkLlmFirstToken t s = s\<lparr>LlmFirstTokenTs := t\<rparr>"
definition MarkLlmEnd :: "int64 \<Rightarrow> statistic \<Rightarrow> statistic" where
  "MarkLlmEnd t s = s\<lparr>LlmEndTs := t\<rparr>"
definition MarkTtsStart :: "int64 \<Rightarrow> statistic \<Rightarrow> statistic" where
  "MarkTtsStart t s = s\<lparr>TtsStartTs := t, TtsFirstFrameTs := 0, TtsStopTs := 0\<rparr>"
definition MarkTtsFirstFrame :: "int64 \<Rightarrow> statistic \<Rightarrow> statistic" where
  "MarkTtsFirstFrame t s = (if TtsFirstFrameTs s = 0 then s\<lparr>TtsFirstFrameTs := t\<rparr> else s)"
definition MarkTtsStop :: "int64 \<Rightarrow> statistic \<Rightarrow> statistic" where
  "MarkTtsStop t s = s\<lparr>TtsStopTs := t\<rparr>"
definition ResetStatistic :: "statistic \<Rightarrow> statistic" where
  \<comment> \<open>the method has an empty body\<close>
  "ResetStatistic s = s"

section \<open>Contexts (client.go)\<close>

text \<open>
  Go's contexts: a context is an index into a table that holds its ancestors and whether it has
  itself been cancelled; \<^verbatim>\<open>Err\<close> is nil as long as neither it nor an ancestor has. A \<^verbatim>\<open>Ctx\<close> holds at
  most one context.
\<close>

type_synonym contexts = "(nat list \<times> bool) list"

definition live :: "contexts \<Rightarrow> nat \<Rightarrow> bool" where
  "live st i \<longleftrightarrow> i < length st \<and> list_all (\<lambda>j. \<not> snd (st ! j)) (i # fst (st ! i))"

definition WithCancel :: "contexts \<Rightarrow> nat \<Rightarrow> contexts \<times> nat" where
  "WithCancel st parent = (st @ [(parent # fst (st ! parent), False)], length st)"

definition cancel_ctx :: "contexts \<Rightarrow> nat \<Rightarrow> contexts" where
  "cancel_ctx st i = st[i := (fst (st ! i), True)]"

type_synonym ctx_slot = "nat option"

definition CtxGet :: "contexts \<Rightarrow> ctx_slot \<Rightarrow> nat \<Rightarrow> contexts \<times> ctx_slot \<times> nat" where
  "CtxGet st c parent =
     (case c of
        Some i \<Rightarrow>
          if live st i then (st, c, i)
          else (case WithCancel (cancel_ctx st i) parent of (st', j) \<Rightarrow> (st', Some j, j))
      | None \<Rightarrow> (case WithCancel st parent of (st', j) \<Rightarrow> (st', Some j, j)))"

definition CtxCancel :: "contexts \<Rightarrow> ctx_slot \<Rightarrow> contexts \<times> ctx_slot" where
  \<comment> \<open>\<^verbatim>\<open>CancelWithReason\<close>, and \<^verbatim>\<open>ResetWithReason\<close>, which does the same\<close>
  "CtxCancel st c = (case c of None \<Rightarrow> (st, None) | Some i \<Rightarrow> (cancel_ctx st i, None))"

section \<open>The client (client.go)\<close>

datatype listen_phase = ListenPhaseIdle | ListenPhaseStarting | ListenPhaseListening
datatype client_status =
  ClientStatusInit | ClientStatusListening | ClientStatusListenStop | ClientStatusLLMStart | ClientStatusTTSStart

datatype memory_mode = MemoryModeNone | MemoryModeShort | MemoryModeLong
datatype speaker_mode = SpeakerChatModeOff | SpeakerChatModeIdentifiedOnly

definition trim_lower :: "string \<Rightarrow> string" where
  "trim_lower s = map ascii_lower (trim_by (\<lambda>c. is_space (int (of_char c))) s)"

definition NormalizeMemoryMode :: "string \<Rightarrow> memory_mode" where
  "NormalizeMemoryMode mode =
     (if trim_lower mode = ''none'' then MemoryModeNone
      else if trim_lower mode = ''long'' then MemoryModeLong else MemoryModeShort)"

definition NormalizeSpeakerChatMode :: "string \<Rightarrow> speaker_mode" where
  "NormalizeSpeakerChatMode mode =
     (if trim_lower mode = ''identified_only'' then SpeakerChatModeIdentifiedOnly else SpeakerChatModeOff)"

record 'f client_state =
  ListenMode :: string
  ListenPhase :: listen_phase
  VoiceIdentify :: "string list" \<comment> \<open>the speakers configured for the device\<close>
  SpeakerChatMode :: string
  Asr :: "'f asr"
  Vad :: vad
  VoiceStatus :: voice_status
  AsrAudioBuffer :: "'f audio_buffer"
  SessionCtx :: ctx_slot
  AfterAsrSessionCtx :: ctx_slot
  Statistic :: statistic
  Status :: client_status
  IsTtsStart :: bool
  IsWelcomePlaying :: bool
  MqttLastActiveTs :: int

definition IsRealTime :: "'f client_state \<Rightarrow> bool" where
  "IsRealTime c \<longleftrightarrow> ListenMode c = ''realtime''"

definition HasSpeakerGroups :: "'f client_state \<Rightarrow> bool" where
  "HasSpeakerGroups c \<longleftrightarrow> VoiceIdentify c \<noteq> []"

definition RequireMatchedSpeakerForChat :: "'f client_state \<Rightarrow> bool" where
  "RequireMatchedSpeakerForChat c \<longleftrightarrow>
     HasSpeakerGroups c \<and> NormalizeSpeakerChatMode (SpeakerChatMode c) = SpeakerChatModeIdentifiedOnly"

definition HasMatchedConfiguredSpeaker :: "'f client_state \<Rightarrow> (bool \<times> string) option \<Rightarrow> bool" where
  \<comment> \<open>a result: whether somebody was identified, and the name\<close>
  "HasMatchedConfiguredSpeaker c result =
     (case result of None \<Rightarrow> False | Some (identified, nm) \<Rightarrow> identified \<and> nm \<in> set (VoiceIdentify c))"

definition IsActive :: "'f client_state \<Rightarrow> int \<Rightarrow> bool" where
  "IsActive c nowTs \<longleftrightarrow> 0 < MqttLastActiveTs c \<and> nowTs - MqttLastActiveTs c \<le> 120"

definition UpdateLastActiveTs :: "'f client_state \<Rightarrow> int \<Rightarrow> 'f client_state" where
  "UpdateLastActiveTs c nowTs = c\<lparr>MqttLastActiveTs := nowTs\<rparr>"

text \<open>\<open>callback\<close>: \<^verbatim>\<open>OnVoiceSilenceSpeakerCallback\<close>, the identity when it is not set.\<close>

definition OnVoiceSilence ::
    "('f client_state \<Rightarrow> 'f client_state) \<Rightarrow> int64 \<Rightarrow> 'f client_state \<Rightarrow>
     ('f client_state \<times> 'f list chan option) option" where
  "OnVoiceSilence callback t c =
     (let c1 = c\<lparr>Asr := ResetReceivedText (Asr c), VoiceStatus := (VoiceStatus c)\<lparr>VoiceStop := True\<rparr>\<rparr>
      in case StopWithReason (Asr c1) of
           None \<Rightarrow> None
         | Some (a, ch) \<Rightarrow>
             (let c2 = c1\<lparr>Asr := a, Vad := ResetVad (Vad c1), Status := ClientStatusListenStop,
                        ListenPhase := ListenPhaseIdle\<rparr>;
                  c3 = callback c2
              in Some (c3\<lparr>Statistic := MarkTurnStart t (Statistic c3)\<rparr>, ch)))"

definition Destroy :: "contexts \<Rightarrow> 'f client_state \<Rightarrow> (contexts \<times> 'f client_state \<times> 'f list chan option) option" where
  "Destroy st c =
     (case StopWithReason (Asr c) of
        None \<Rightarrow> None
      | Some (a, ch) \<Rightarrow>
          (case CtxCancel st (SessionCtx c) of
             (st1, sc) \<Rightarrow>
               (case CtxCancel st1 (AfterAsrSessionCtx c) of
                  (st2, ac) \<Rightarrow>
                    Some (st2,
                      c\<lparr>Asr := a, Vad := ResetVad (Vad c), VoiceStatus := ResetVoiceStatus (VoiceStatus c),
                        AsrAudioBuffer := ClearAsrAudioData (AsrAudioBuffer c), SessionCtx := sc,
                        AfterAsrSessionCtx := ac, Statistic := ResetStatistic (Statistic c),
                        Status := ClientStatusInit, ListenPhase := ListenPhaseIdle, IsTtsStart := False,
                        IsWelcomePlaying := False\<rparr>, ch))))"

section \<open>Lemmas\<close>

definition decides :: "string \<Rightarrow> string \<Rightarrow> 'e asr_event \<Rightarrow> bool" where
  \<comment> \<open>the events that end the wait\<close>
  "decides asrType mode ev =
     (case ev of
        CtxDone \<Rightarrow> True
      | ResultsClosed \<Rightarrow> True
      | Result r \<Rightarrow> Error r \<noteq> None \<or> (IsFinal r \<and> \<not> ignored_online asrType mode r))"

lemma zero_result_not_online: "\<not> ignored_online asrType mode emptyResult"
  by (simp add: ignored_online_def emptyResult_def EqualFold_def)

lemma emptyResult_simps [simp]:
  "Text emptyResult = []" "\<not> IsFinal emptyResult" "Error emptyResult = None"
  by (simp_all add: emptyResult_def)

definition result_of :: "'e asr_event \<Rightarrow> 'e streaming_result" where
  "result_of ev = (case ev of Result r \<Rightarrow> r | _ \<Rightarrow> emptyResult)"

lemma retire_step:
  assumes "ev \<noteq> CtxDone"
  shows "retire_loop asrType mode hasCallback sent calls (ev # es) =
      (case Error (result_of ev) of
           Some e \<Rightarrow>
             if RetryReason (result_of ev) \<noteq> '''' then (calls, Some (result_of ev, True, None))
             else (calls, Some (emptyResult, False, Some e))
         | None \<Rightarrow>
             (let first = (Text (result_of ev) \<noteq> [] \<and> \<not> sent \<and> hasCallback);
                  sent = (sent \<or> first);
                  calls = (if first then calls @ [(Text (result_of ev), IsFinal (result_of ev))] else calls)
              in if ignored_online asrType mode (result_of ev)
                 then retire_loop asrType mode hasCallback sent calls es
                 else if IsFinal (result_of ev) then (calls, Some (result_of ev, True, None))
                 else if \<not> (ev \<noteq> ResultsClosed) then (calls, Some (emptyResult, True, None))
                 else retire_loop asrType mode hasCallback sent calls es))"
proof (cases ev)
  case (Result r)
  then show ?thesis by (simp only: retire_loop.simps result_of_def asr_event.case Let_def)
next
  case ResultsClosed
  then show ?thesis by (simp only: retire_loop.simps result_of_def asr_event.case Let_def)
qed (use assms in simp)

definition retire_ok ::
    "string \<Rightarrow> string \<Rightarrow> bool \<Rightarrow> 'e asr_event list \<Rightarrow>
     (gostr \<times> bool) list \<times> ('e streaming_result \<times> bool \<times> 'e option) option \<Rightarrow> bool" where
  "retire_ok asrType mode hasCallback es out =
     (case out of (calls, r) \<Rightarrow>
        list_all (\<lambda>c. fst c \<noteq> [] \<and> (\<exists>res. Result res \<in> set es \<and> c = (Text res, IsFinal res))) calls
        \<and> (r = None \<longleftrightarrow> list_all (\<lambda>ev. \<not> decides asrType mode ev) es)
        \<and> (case r of None \<Rightarrow> True
           | Some (res, again, err) \<Rightarrow>
               res = emptyResult \<or> Result res \<in> set es
                 \<and> (Error res = None \<longrightarrow> IsFinal res \<and> again \<and> \<not> ignored_online asrType mode res)))"

lemma retire_calls:
  "retire_loop asrType mode hasCallback sent calls es = (calls', r) \<Longrightarrow>
   \<exists>new. calls' = calls @ new \<and> length new \<le> (if sent \<or> \<not> hasCallback then 0 else 1)"
proof (induction es arbitrary: sent calls)
  case (Cons ev es)
  show ?case
  proof (cases "ev = CtxDone")
    case False
    define result where "result = result_of ev"
    note eq = retire_step [OF False, folded result_def]
    show ?thesis
    proof (cases "Error result")
      case (Some e)
      with Cons.prems show ?thesis unfolding eq by (auto split: if_splits)
    next
      case None
      let ?first = "Text result \<noteq> [] \<and> \<not> sent \<and> hasCallback"
      let ?calls = "if ?first then calls @ [(Text result, IsFinal result)] else calls"
      consider (stop) "calls' = ?calls"
        | (more) "retire_loop asrType mode hasCallback (sent \<or> ?first) ?calls es = (calls', r)"
        using Cons.prems None unfolding eq by (auto simp: Let_def split: if_splits)
      then show ?thesis
      proof cases
        case stop
        then show ?thesis by auto
      next
        case more
        from Cons.IH [OF this] show ?thesis by (cases ?first) auto
      qed
    qed
  qed (use Cons.prems in auto)
qed simp

lemma retire_loop_ok:
  "retire_loop asrType mode hasCallback sent calls es = (calls', r) \<Longrightarrow>
   \<exists>new. calls' = calls @ new \<and> retire_ok asrType mode hasCallback es (new, r)"
proof (induction es arbitrary: sent calls)
  case Nil
  then show ?case by (simp add: retire_ok_def)
next
  case (Cons ev es)
  show ?case
  proof (cases ev)
    case CtxDone
    with Cons.prems show ?thesis by (auto simp: retire_ok_def decides_def)
  next
    case ResultsClosed
    then have "calls' = calls \<and> r = Some (emptyResult, True, None)"
      using Cons.prems by (simp add: Let_def zero_result_not_online)
    moreover have "retire_ok asrType mode hasCallback (ev # es) ([], Some (emptyResult, True, None))"
      using ResultsClosed by (simp add: retire_ok_def decides_def del: not_None_eq)
    ultimately show ?thesis by auto
  next
    case (Result result)
    let ?first = "Text result \<noteq> [] \<and> \<not> sent \<and> hasCallback"
    let ?one = "if ?first then [(Text result, IsFinal result)] else []"
    show ?thesis
    proof (cases "Error result = None \<and> (ignored_online asrType mode result \<or> \<not> IsFinal result)")
      case True
      then have "retire_loop asrType mode hasCallback (sent \<or> ?first) (calls @ ?one) es = (calls', r)"
        using Cons.prems Result by (auto simp: Let_def split: if_splits)
      from Cons.IH [OF this] obtain new where
        n: "calls' = calls @ (?one @ new)" "retire_ok asrType mode hasCallback es (new, r)" by auto
      have "\<not> decides asrType mode ev" using True Result by (auto simp: decides_def)
      with n(2) have "retire_ok asrType mode hasCallback (ev # es) (?one @ new, r)"
        using Result by (auto simp: retire_ok_def list_all_iff split: option.splits)
      with n(1) show ?thesis by blast
    next
      case False
      then have d: "decides asrType mode ev" using Result by (auto simp: decides_def)
      have "calls' = calls @ (if Error result = None then ?one else [])
          \<and> (\<exists>res again err. r = Some (res, again, err) \<and>
               (res = emptyResult \<or> res = result
                 \<and> (Error res = None \<longrightarrow> IsFinal res \<and> again \<and> \<not> ignored_online asrType mode res)))"
        using Cons.prems Result False by (auto simp: Let_def split: option.splits if_splits)
      with d Result show ?thesis by (auto simp: retire_ok_def)
    qed
  qed
qed

text \<open>The channel to the recogniser, used through its pointer only, is open whenever it is there.\<close>

definition asr_ok :: "'f asr \<Rightarrow> bool" where
  "asr_ok a \<longleftrightarrow> (\<forall>c. AsrAudioChannel a = Some c \<longrightarrow> \<not> cclosed c)"

datatype 'f asr_op = AddFrame "'f list" | StopAsr | RestartAsr | TakeFrame | ClearHistory | MarkText

definition asr_step :: "'f asr \<Rightarrow> 'f asr_op \<Rightarrow> ('f asr \<times> 'f list) option" where
  \<comment> \<open>with the samples that were sent; \<^verbatim>\<open>TakeFrame\<close> is the recogniser's receive, \<^verbatim>\<open>RestartAsr\<close> the new
     channel that the chat session makes\<close>
  "asr_step a op =
     (case op of
        AddFrame frame \<Rightarrow> map_option (\<lambda>(a', sent). (a', if sent then frame else [])) (AddAudioData a frame)
      | StopAsr \<Rightarrow> map_option (\<lambda>(a', ch). (a', [])) (StopWithReason a)
      | RestartAsr \<Rightarrow> Some (a\<lparr>AsrAudioChannel := Some (make_chan 100)\<rparr>, [])
      | TakeFrame \<Rightarrow>
          Some (a\<lparr>AsrAudioChannel := map_option
             (\<lambda>c. case chan_recv c of Got v c' \<Rightarrow> c' | _ \<Rightarrow> c) (AsrAudioChannel a)\<rparr>, [])
      | ClearHistory \<Rightarrow> Some (ClearHistoryAudio a, [])
      | MarkText \<Rightarrow> Some (MarkTextReceived a, []))"

fun asr_run :: "'f asr \<Rightarrow> 'f asr_op list \<Rightarrow> ('f asr \<times> 'f list) option" where
  \<comment> \<open>with the samples sent since the history was last cleared\<close>
  "asr_run a [] = Some (a, HistoryAudioBuffer a)"
| "asr_run a (op # ops) = (case asr_step a op of None \<Rightarrow> None | Some (a', s) \<Rightarrow> asr_run a' ops)"

lemma asr_step_ok:
  assumes "asr_ok a"
  shows "\<exists>a' s. asr_step a op = Some (a', s) \<and> asr_ok a'
    \<and> HistoryAudioBuffer a' = (if op = ClearHistory then [] else HistoryAudioBuffer a @ s)"
proof (cases op)
  case (AddFrame frame)
  show ?thesis
  proof (cases "AsrAudioChannel a")
    case (Some c)
    then have opened: "\<not> cclosed c" using assms by (simp add: asr_ok_def)
    show ?thesis
    proof (cases "chan_send c frame")
      case (Sent c')
      with chan.send_sent [OF Sent] Some AddFrame show ?thesis
        by (simp add: asr_step_def AddAudioData_def asr_ok_def)
    next
      case SendBlocks
      with Some AddFrame opened show ?thesis by (simp add: asr_step_def AddAudioData_def asr_ok_def)
    next
      case SendPanics
      then show ?thesis using opened by (simp add: chan.send_panics)
    qed
  qed (use AddFrame in \<open>simp add: asr_step_def AddAudioData_def asr_ok_def\<close>)
next
  case TakeFrame
  have "\<not> cclosed (case chan_recv c of Got v c' \<Rightarrow> c' | _ \<Rightarrow> c)" if "\<not> cclosed c" for c :: "'a list chan"
    using that chan.recv_got [of c] by (auto split: received.split)
  with TakeFrame assms show ?thesis by (auto simp: asr_step_def asr_ok_def)
qed (use assms in \<open>auto simp: asr_step_def StopWithReason_def chan_close_def ClearHistoryAudio_def
      MarkTextReceived_def asr_ok_def split: option.splits\<close>)

fun sent_since_clear :: "'f asr \<Rightarrow> 'f list \<Rightarrow> 'f asr_op list \<Rightarrow> 'f list" where
  "sent_since_clear a acc [] = acc"
| "sent_since_clear a acc (op # ops) =
     (case asr_step a op of
        None \<Rightarrow> acc
      | Some (a', s) \<Rightarrow> sent_since_clear a' (if op = ClearHistory then [] else acc @ s) ops)"

section \<open>Properties\<close>

text \<open>C26: waiting for a recognition result: the first-text callback is called at most once, only if
  it is set, with the text of a result that has one; the wait ends exactly at the first event
  that ends it (the context ends, the channel closes, an error, a final result); a result passed
  on as final is one that came in, and with the two-pass recogniser it is never one of the
  online pass.\<close>

theorem RetireAsrResult_spec:
  "case RetireAsrResult asrType mode hasCallback es of
     (calls, r) \<Rightarrow>
       length calls \<le> (if hasCallback then 1 else 0) \<and> retire_ok asrType mode hasCallback es (calls, r)"
proof -
  obtain calls r where r: "RetireAsrResult asrType mode hasCallback es = (calls, r)" by fastforce
  then have "retire_loop asrType mode hasCallback False [] es = (calls, r)"
    by (simp add: RetireAsrResult_def)
  from retire_calls [OF this] retire_loop_ok [OF this] show ?thesis unfolding r by auto
qed

text \<open>Fact: no sequence of frames, stops, restarts and receives makes the client panic by sending on a
  closed channel or closing one twice, and the audio kept for the chat history is exactly what
  was sent to the recogniser since the history was last cleared: frames that found the channel
  full or absent are not in it.\<close>

theorem asr_audio_history:
  assumes "asr_ok a"
  shows "\<exists>a'. asr_run a ops = Some (a', HistoryAudioBuffer a')
    \<and> HistoryAudioBuffer a' = sent_since_clear a (HistoryAudioBuffer a) ops"
  using assms
proof (induction ops arbitrary: a)
  case (Cons op ops)
  obtain a' s where st: "asr_step a op = Some (a', s)" "asr_ok a'"
      "HistoryAudioBuffer a' = (if op = ClearHistory then [] else HistoryAudioBuffer a @ s)"
    using asr_step_ok [OF Cons.prems, of op] by blast
  from Cons.IH [OF st(2)] st show ?case by simp
qed simp

theorem asr_audio_history_witness:
  "\<exists>a'. asr_run InitAsr [AddFrame [1::nat, 2], StopAsr, AddFrame [3], StopAsr, RestartAsr, AddFrame [4]] =
      Some (a', HistoryAudioBuffer a') \<and> HistoryAudioBuffer a' = [1, 2, 4]"
proof -
  have "asr_ok InitAsr" by (simp add: asr_ok_def InitAsr_def)
  moreover have "sent_since_clear InitAsr (HistoryAudioBuffer InitAsr)
      [AddFrame [1::nat, 2], StopAsr, AddFrame [3], StopAsr, RestartAsr, AddFrame [4]] = [1, 2, 4]"
    by code_simp
  ultimately show ?thesis using asr_audio_history by metis
qed

text \<open>Fact: the silence to wait for before a first recognised text is at least one second unless the
  configuration says otherwise, also for thresholds so large that four times them wraps around,
  and it is positive in every configuration; so is the idle limit.\<close>

theorem silence_durations_positive:
  "1000 \<le> sint (GetPreAsrTextSilenceDuration None v)
   \<and> 0 < sint (GetPreAsrTextSilenceDuration cfg v) \<and> 0 < sint (GetMaxIdleDuration cfg)"
proof -
  have s: "sint (1000 :: int64) = 1000" "sint (30000 :: int64) = 30000" "0 < sint MaxInt64"
    by (simp_all add: MaxInt64_def)
  have n: "1000 \<le> sint (GetPreAsrTextSilenceDuration None v)"
    by (auto simp: GetPreAsrTextSilenceDuration_def Let_def s(1))
  moreover have "0 < sint (GetPreAsrTextSilenceDuration cfg v)"
    using n s by (cases cfg) (simp_all add: GetPreAsrTextSilenceDuration_def)
  moreover have "0 < sint (GetMaxIdleDuration cfg)"
    using s by (cases cfg) (simp_all add: GetMaxIdleDuration_def)
  ultimately show ?thesis by blast
qed

text \<open>Fact: what \<^verbatim>\<open>GetVoiceContinuousDuration\<close> returns is the voice of the whole session:
  \<^verbatim>\<open>ResetVoiceContinuousDuration\<close>, which the audio loop calls at a pause, does not change it, so
  separate short sounds add up to a long one.\<close>

theorem continuous_duration_survives_pauses:
  "GetVoiceContinuousDuration (ResetVoiceContinuousDuration v) = GetVoiceContinuousDuration v
   \<and> GetVoiceContinuousDuration
       (AddVoiceDuration (ResetVoiceContinuousDuration (AddVoiceDuration (ResetVoiceDuration v) d)) d') = d + d'
   \<and> GetVoiceDuration
       (AddVoiceDuration (ResetVoiceContinuousDuration (AddVoiceDuration (ResetVoiceDuration v) d)) d') = d'"
  by (simp add: GetVoiceContinuousDuration_def ResetVoiceContinuousDuration_def AddVoiceDuration_def
      ResetVoiceDuration_def GetVoiceDuration_def)

section \<open>The contexts of a conversation\<close>

definition ctxs_ok :: "contexts \<Rightarrow> bool" where
  \<comment> \<open>ancestors are older, and so are theirs\<close>
  "ctxs_ok st \<longleftrightarrow>
     (\<forall>i < length st. \<forall>j \<in> set (fst (st ! i)). j < i \<and> set (fst (st ! j)) \<subseteq> set (fst (st ! i)))"

lemma WithCancel_live:
  assumes "ctxs_ok st" and "live st parent" and "WithCancel st parent = (st', i)"
  shows "ctxs_ok st' \<and> live st' i \<and> i = length st"
proof -
  have p: "parent < length st" "\<And>j. j \<in> set (parent # fst (st ! parent)) \<Longrightarrow> \<not> snd (st ! j)"
    using assms(2) by (auto simp: live_def list_all_iff)
  have anc: "j < parent" "set (fst (st ! j)) \<subseteq> set (fst (st ! parent))"
    if "j \<in> set (fst (st ! parent))" for j
    using assms(1) p(1) that by (auto simp: ctxs_ok_def)
  have eq: "st' = st @ [(parent # fst (st ! parent), False)]" "i = length st"
    using assms(3) by (auto simp: WithCancel_def)
  have "live st' i"
    using p anc(1) by (fastforce simp: live_def eq nth_append list_all_iff)
  moreover have "ctxs_ok st'"
    unfolding ctxs_ok_def
  proof (intro allI impI ballI)
    fix k j assume k: "k < length st'" "j \<in> set (fst (st' ! k))"
    show "j < k \<and> set (fst (st' ! j)) \<subseteq> set (fst (st' ! k))"
    proof (cases "k = length st")
      case True
      with k(2) have "j = parent \<or> j \<in> set (fst (st ! parent))" by (simp add: eq)
      then have "j < length st" "j = parent \<or> set (fst (st ! j)) \<subseteq> set (fst (st ! parent))"
        using p(1) anc [of j] by auto
      with True \<open>j = parent \<or> j \<in> set (fst (st ! parent))\<close> show ?thesis
        by (auto simp: eq nth_append)
    next
      case False
      with k have "k < length st" "j \<in> set (fst (st ! k))" by (simp_all add: eq nth_append)
      then have "j < k" "set (fst (st ! j)) \<subseteq> set (fst (st ! k))"
        using assms(1) unfolding ctxs_ok_def by blast+
      with \<open>k < length st\<close> show ?thesis by (simp add: eq nth_append)
    qed
  qed
  ultimately show ?thesis by (simp add: eq)
qed

lemma fst_cancel [simp]: "fst (cancel_ctx st i ! k) = fst (st ! k)"
  by (cases "k = i"; cases "i < length st") (simp_all add: cancel_ctx_def list_update_beyond)

lemma length_cancel [simp]: "length (cancel_ctx st i) = length st"
  by (simp add: cancel_ctx_def)

lemma cancel_ctxs_ok: "ctxs_ok st \<Longrightarrow> ctxs_ok (cancel_ctx st i)"
  by (simp add: ctxs_ok_def)

lemma cancel_dead_live:
  assumes "ctxs_ok st" and "live st p" and "i < length st" and "\<not> live st i"
  shows "live (cancel_ctx st i) p"
proof -
  have p: "p < length st" "\<And>j. j \<in> set (p # fst (st ! p)) \<Longrightarrow> \<not> snd (st ! j)"
    using assms(2) by (auto simp: live_def list_all_iff)
  have "i \<notin> set (p # fst (st ! p))"
  proof
    assume i: "i \<in> set (p # fst (st ! p))"
    then have "set (i # fst (st ! i)) \<subseteq> set (p # fst (st ! p))"
      using assms(1) p(1) by (auto simp: ctxs_ok_def)
    with p(2) assms(3) have "live st i" by (auto simp: live_def list_all_iff)
    with assms(4) show False by simp
  qed
  moreover have "cancel_ctx st i ! j = st ! j" if "j \<noteq> i" for j
    using that by (simp add: cancel_ctx_def)
  ultimately show ?thesis
    using p unfolding live_def list_all_iff by (metis fst_cancel length_cancel)
qed

text \<open>Fact: as long as the client's own context is alive, asking for the context of a conversation
  always gives a live one, a new one if the last has been cancelled; and cancelling it ends it
  and every context derived from it, such as that of the flow after recognition.\<close>

theorem conversation_contexts:
  assumes "ctxs_ok st" and "live st parent" and "case c of Some i \<Rightarrow> i < length st | None \<Rightarrow> True"
    and "CtxGet st c parent = (st', c', i)" and "CtxCancel st' c' = (st'', c'')"
  shows "live st' i \<and> ctxs_ok st' \<and> c' = Some i \<and> c'' = None
    \<and> (\<forall>j. i \<in> set (j # fst (st' ! j)) \<longrightarrow> \<not> live st'' j)"
proof -
  have get: "live st' i \<and> ctxs_ok st' \<and> c' = Some i"
  proof (cases "\<exists>k. c = Some k \<and> live st k")
    case True
    with assms(1,4) show ?thesis by (auto simp: CtxGet_def)
  next
    case False
    obtain st0 where st0: "ctxs_ok st0" "live st0 parent" "WithCancel st0 parent = (st', i)" "c' = Some i"
    proof (cases c)
      case None
      with assms(1,2,4) show thesis by (auto simp: CtxGet_def split: prod.splits intro: that)
    next
      case (Some k)
      with False have "\<not> live st k" by simp
      with Some assms show thesis
        by (auto simp: CtxGet_def split: prod.splits intro: that cancel_ctxs_ok cancel_dead_live)
    qed
    with WithCancel_live [OF st0(1-3)] show ?thesis by auto
  qed
  then have "i < length st'" by (simp add: live_def)
  moreover have "st'' = cancel_ctx st' i" "c'' = None"
    using assms(5) get by (auto simp: CtxCancel_def)
  ultimately show ?thesis using get
    by (auto simp: live_def cancel_ctx_def list_all_iff nth_list_update)
qed

theorem conversation_contexts_witness:
  "let st = [([], False)]; (st1, session, s) = CtxGet st None 0; (st2, turn, a) = CtxGet st1 None s;
       (st3, session') = CtxCancel st2 session
   in live st2 a \<and> \<not> live st3 a \<and> live st3 0"
proof -
  let ?st = "[([], False)] :: contexts"
  let ?st1 = "[([], False), ([0], False)] :: contexts"
  let ?st2 = "[([], False), ([0], False), ([1, 0], False)] :: contexts"
  have g: "CtxGet ?st None 0 = (?st1, Some 1, 1)" "CtxGet ?st1 None 1 = (?st2, Some 2, 2)"
      "CtxGet ?st2 (Some 1) 0 = (?st2, Some 1, 1)"
    by code_simp+
  have "ctxs_ok ?st2" "live ?st2 0"
    by (auto simp: ctxs_ok_def live_def less_Suc_eq numeral_2_eq_2)
  from conversation_contexts [OF this _ g(3), of "cancel_ctx ?st2 1" None]
  have "\<forall>j. 1 \<in> set (j # fst (?st2 ! j)) \<longrightarrow> \<not> live (cancel_ctx ?st2 1) j"
    by (simp add: CtxCancel_def)
  then have "\<not> live (cancel_ctx ?st2 1) 2" by (auto dest: spec [of _ 2])
  moreover have "live ?st2 2" "live (cancel_ctx ?st2 1) 0" by code_simp+
  ultimately show ?thesis by (simp add: g [simplified] CtxCancel_def Let_def)
qed

text \<open>Fact: the end of a voice segment and the end of the session never panic; afterwards audio is no
  longer sent on, the voice counters are zero and the phase is idle; and after \<^verbatim>\<open>Destroy\<close> the two
  contexts of the session are gone.\<close>

theorem voice_end_and_destroy:
  assumes "asr_ok (Asr c)"
  shows "(\<exists>c' ch. OnVoiceSilence id t c = Some (c', ch)
      \<and> AddAudioData (Asr c') frame = Some (Asr c', False) \<and> VoiceStop (VoiceStatus c')
      \<and> \<not> ReceivedTextInTurn (Asr c') \<and> Status c' = ClientStatusListenStop
      \<and> ListenPhase c' = ListenPhaseIdle \<and> GetVoiceDurationInSession (Vad c') = 0
      \<and> (\<exists>c''. OnVoiceSilence id t' c' = Some (c'', None)))
    \<and> (\<exists>st' c' ch. Destroy st c = Some (st', c', ch)
      \<and> AddAudioData (Asr c') frame = Some (Asr c', False) \<and> SessionCtx c' = None
      \<and> AfterAsrSessionCtx c' = None \<and> PcmData (AsrAudioBuffer c') = []
      \<and> Status c' = ClientStatusInit \<and> \<not> HasProvider (Vad c'))"
proof -
  obtain a ch where s: "StopWithReason (Asr c) = Some (a, ch)" "AsrAudioChannel a = None"
      "ReceivedTextInTurn a = ReceivedTextInTurn (Asr c)"
    using assms by (cases "AsrAudioChannel (Asr c)") (auto simp: StopWithReason_def asr_ok_def chan_close_def)
  obtain a' ch' where s': "StopWithReason (ResetReceivedText (Asr c)) = Some (a', ch')"
      "AsrAudioChannel a' = None" "\<not> ReceivedTextInTurn a'"
    using assms
    by (cases "AsrAudioChannel (Asr c)")
      (auto simp: StopWithReason_def asr_ok_def chan_close_def ResetReceivedText_def)
  have again: "StopWithReason (ResetReceivedText a') = Some (ResetReceivedText a', None)"
    using s'(2) by (simp add: StopWithReason_def ResetReceivedText_def)
  have "\<exists>c' ch. OnVoiceSilence id t c = Some (c', ch)
      \<and> AddAudioData (Asr c') frame = Some (Asr c', False) \<and> VoiceStop (VoiceStatus c')
      \<and> \<not> ReceivedTextInTurn (Asr c') \<and> Status c' = ClientStatusListenStop
      \<and> ListenPhase c' = ListenPhaseIdle \<and> GetVoiceDurationInSession (Vad c') = 0
      \<and> (\<exists>c''. OnVoiceSilence id t' c' = Some (c'', None))"
    using s' again
    by (simp add: OnVoiceSilence_def Let_def AddAudioData_def ResetVad_def ResetVoiceDuration_def
        GetVoiceDurationInSession_def)
  moreover have "\<exists>st' c' ch. Destroy st c = Some (st', c', ch)
      \<and> AddAudioData (Asr c') frame = Some (Asr c', False) \<and> SessionCtx c' = None
      \<and> AfterAsrSessionCtx c' = None \<and> PcmData (AsrAudioBuffer c') = []
      \<and> Status c' = ClientStatusInit \<and> \<not> HasProvider (Vad c')"
    using s
    by (auto simp: Destroy_def AddAudioData_def CtxCancel_def ClearAsrAudioData_def ResetVad_def
        ResetVoiceDuration_def ResetIdleDuration_def split: option.splits)
  ultimately show ?thesis by blast
qed

definition demo_client :: "nat client_state" where
  "demo_client =
     \<lparr>ListenMode = ''auto'', ListenPhase = ListenPhaseListening, VoiceIdentify = [],
      SpeakerChatMode = '''', Asr = InitAsr, Vad = \<lparr>HasProvider = True, IdleDuration = 7,
      VoiceDuration = 8, VoiceDurationInSession = 9\<rparr>, VoiceStatus = \<lparr>HaveVoice = True,
      HaveVoiceLastTime = 1, VoiceStop = False, SilenceThresholdTime = 400\<rparr>,
      AsrAudioBuffer = \<lparr>PcmData = [1, 2]\<rparr>, SessionCtx = None, AfterAsrSessionCtx = None,
      Statistic = \<lparr>TurnStartTs = 0, AsrFirstTextTs = 0, AsrFinalTextTs = 0, LlmStartTs = 0,
      LlmFirstTokenTs = 0, LlmEndTs = 0, TtsStartTs = 0, TtsFirstFrameTs = 0, TtsStopTs = 0\<rparr>,
      Status = ClientStatusListening, IsTtsStart = False, IsWelcomePlaying = True,
      MqttLastActiveTs = 0\<rparr>"

theorem voice_end_and_destroy_witness:
  "(\<exists>c' ch. OnVoiceSilence id 5 demo_client = Some (c', ch) \<and> Status c' = ClientStatusListenStop)
   \<and> (\<exists>st' c' ch. Destroy [] demo_client = Some (st', c', ch) \<and> PcmData (AsrAudioBuffer c') = [])"
proof -
  have "asr_ok (Asr demo_client)" by (simp add: demo_client_def asr_ok_def InitAsr_def)
  from voice_end_and_destroy [OF this, of 5 "[3]" 6 "[]"] show ?thesis by blast
qed

end
