(* ===== verification/Byte_Codec.thy ===== *)
theory Byte_Codec
  imports Prelude
begin

text \<open>
  Go's \<^verbatim>\<open>encoding/binary\<close> and \<^verbatim>\<open>encoding/hex\<close>, as far as the modelled code uses them: fixed-width
  integers as bytes in either order, and lower-case hexadecimal text.
\<close>

unbundle bit_operations_syntax

definition be16 :: "16 word \<Rightarrow> bytes" where
  "be16 w = [ucast (drop_bit 8 w), ucast w]"

definition be32 :: "32 word \<Rightarrow> bytes" where
  "be32 w = [ucast (drop_bit 24 w), ucast (drop_bit 16 w), ucast (drop_bit 8 w), ucast w]"

definition uint32_of :: "bytes \<Rightarrow> 32 word" where
  \<comment> \<open>\<^verbatim>\<open>binary.BigEndian.Uint32\<close> of the first four bytes\<close>
  "uint32_of bs =
     push_bit 24 (ucast (bs ! 0)) OR push_bit 16 (ucast (bs ! 1)) OR push_bit 8 (ucast (bs ! 2)) OR ucast (bs ! 3)"

definition le16 :: "16 word \<Rightarrow> bytes" where "le16 w = rev (be16 w)"
definition le32 :: "32 word \<Rightarrow> bytes" where "le32 w = rev (be32 w)"

definition le64 :: "64 word \<Rightarrow> bytes" where
  "le64 w = map (\<lambda>k. ucast (drop_bit (8 * k) w)) [0..<8]"

definition le_uint32_of :: "bytes \<Rightarrow> 32 word" where
  \<comment> \<open>\<^verbatim>\<open>binary.LittleEndian.Uint32\<close> of the first four bytes\<close>
  "le_uint32_of bs = uint32_of (rev (take 4 bs))"

fun hex_digit :: "nat \<Rightarrow> char" where
  "hex_digit n = (if n < 10 then char_of (48 + n) else char_of (87 + n))"

definition EncodeToString :: "bytes \<Rightarrow> string" where
  \<comment> \<open>\<^verbatim>\<open>hex.EncodeToString\<close>\<close>
  "EncodeToString bs = concat (map (\<lambda>b. [hex_digit (unat b div 16), hex_digit (unat b mod 16)]) bs)"

lemma length_be [simp]: "length (be16 w) = 2" "length (be32 v) = 4"
  by (simp_all add: be16_def be32_def)

lemma uint32_of_be32 [simp]: "uint32_of (be32 w) = w"
proof (rule bit_word_eqI)
  fix n assume "n < LENGTH(32)"
  then consider "n < 8" | "8 \<le> n" "n < 16" | "16 \<le> n" "n < 24" | "24 \<le> n" "n < 32"
    by fastforce
  then show "bit (uint32_of (be32 w)) n = bit w n"
    by cases (auto simp: uint32_of_def be32_def bit_simps)
qed

lemma length_le [simp]: "length (le16 u) = 2" "length (le32 v) = 4" "length (le64 w) = 8"
  by (simp_all add: le16_def le32_def le64_def)

lemma le_uint32_of_le32 [simp]: "le_uint32_of (le32 w @ rest) = w"
  by (simp add: le_uint32_of_def le32_def)

end
