(* ===== verification/Udp_Session.thy ===== *)
theory Udp_Session
  imports Go_Channel Byte_Codec
begin

text \<open>
  \<^verbatim>\<open>internal/app/server/mqtt_udp/udp.go\<close>: a UDP audio session. The AES block cipher of Go's
  \<^verbatim>\<open>crypto/aes\<close> is a function \<open>Block\<close> from 16-byte blocks to 16-byte blocks, of which only the length
  of its results is assumed (\<open>block_ok\<close>); counter mode, as documented in \<^verbatim>\<open>crypto/cipher\<close>, is
  written out: the key stream is the encryption of the 16-byte IV, of the IV plus one, and so on,
  the IV read as a big-endian number. A network address is of type \<open>'a\<close>.
\<close>

unbundle bit_operations_syntax

section \<open>Counter mode\<close>

fun inc_le :: "bytes \<Rightarrow> bytes" where
  "inc_le [] = []"
| "inc_le (b # bs) = (if b = 255 then 0 # inc_le bs else (b + 1) # bs)"

definition be_inc :: "bytes \<Rightarrow> bytes" where
  \<comment> \<open>the next counter block, modulo \<open>2 ^ 128\<close>\<close>
  "be_inc iv = rev (inc_le (rev iv))"

fun ctr_stream :: "(bytes \<Rightarrow> bytes) \<Rightarrow> bytes \<Rightarrow> nat \<Rightarrow> bytes" where
  \<comment> \<open>the key stream of \<open>k\<close> blocks\<close>
  "ctr_stream block iv 0 = []"
| "ctr_stream block iv (Suc k) = block iv @ ctr_stream block (be_inc iv) k"

definition XORKeyStream :: "(bytes \<Rightarrow> bytes) \<Rightarrow> bytes \<Rightarrow> bytes \<Rightarrow> bytes" where
  "XORKeyStream block iv xs = map2 (XOR) xs (ctr_stream block iv ((length xs + 15) div 16))"

section \<open>The session\<close>

record 'a session =
  ID :: string
  ConnId :: string
  ClientId :: string
  DeviceId :: string
  AesKey :: bytes
  Nonce :: bytes
  CreatedAt :: int
  LastActive :: int
  RemoteAddr :: "'a option"
  LocalSeq :: "32 word"
  RemoteSeq :: "32 word"
  Block :: "bytes \<Rightarrow> bytes"
  RecvChannel :: "bytes chan"
  SendChannel :: "bytes chan"
  sclosed :: bool

definition SetRemoteAddr :: "'a session \<Rightarrow> 'a option \<Rightarrow> 'a session" where
  "SetRemoteAddr s addr = s\<lparr>RemoteAddr := addr\<rparr>"

definition IsClosed :: "'a session \<Rightarrow> bool" where "IsClosed s = sclosed s"

text \<open>What \<^verbatim>\<open>WaitRemoteAddr\<close> sees at each turn of its loop: the session and whether the deadline has
  come. \<open>None\<close> inside means that no address came; outside, that it is still polling.\<close>

fun WaitRemoteAddr :: "int \<Rightarrow> ('a session \<times> bool) list \<Rightarrow> 'a option option" where
  "WaitRemoteAddr timeout [] = None"
| "WaitRemoteAddr timeout ((s, expired) # polls) =
     (if timeout \<le> 0 then Some (RemoteAddr s)
      else (case RemoteAddr s of
              Some a \<Rightarrow> Some (Some a)
            | None \<Rightarrow> if IsClosed s \<or> expired then Some None else WaitRemoteAddr timeout polls))"

text \<open>The loop ends in the \<^verbatim>\<open>default\<close> case of its \<^verbatim>\<open>select\<close>; a closed channel is always ready.\<close>

partial_function (option) DrainPendingAudio :: "bytes chan \<Rightarrow> nat \<Rightarrow> (bytes chan \<times> nat) option" where
  "DrainPendingAudio c drained =
     (case chan_recv c of
        Got v c' \<Rightarrow> DrainPendingAudio c' (Suc drained)
      | GotZero \<Rightarrow> DrainPendingAudio c (Suc drained)
      | RecvBlocks \<Rightarrow> Some (c, drained))"

definition nonce_header :: "'a session \<Rightarrow> 32 word \<Rightarrow> nat \<Rightarrow> bytes" where
  "nonce_header s seq len = [1, 0] @ be16 (word_of_nat len) @ Nonce s @ be32 seq"

definition Encrypt :: "'a session \<Rightarrow> bytes \<Rightarrow> 'a session \<times> bytes" where
  "Encrypt s xs =
     (let seq = LocalSeq s + 1; header = nonce_header s seq (length xs)
      in (s\<lparr>LocalSeq := seq\<rparr>, header @ XORKeyStream (Block s) header xs))"

definition Decrypt :: "'a session \<Rightarrow> bytes \<Rightarrow> ('a session \<times> bytes) option" where
  \<comment> \<open>\<open>None\<close>: the slices of a packet under 16 bytes panic\<close>
  "Decrypt s xs =
     (if length xs < 16 then None
      else
        (let nonce = take 16 xs; ciphertext = drop 16 xs; seqNum = uint32_of (take 4 (drop 12 xs))
         in Some (s\<lparr>RemoteSeq := seqNum\<rparr>, XORKeyStream (Block s) nonce ciphertext)))"

definition GetAesKeyAndNonce :: "'a session \<Rightarrow> string \<times> string" where
  "GetAesKeyAndNonce s =
     (EncodeToString (AesKey s), EncodeToString ([1, 0] @ [0, 0] @ Nonce s @ [0, 0, 0, 0]))"

datatype send_outcome = Enqueued | SessionClosed | ChannelFull

text \<open>\<open>None\<close> is the panic of a send on a closed channel.\<close>

definition RecvData :: "'a session \<Rightarrow> bytes \<Rightarrow> ('a session \<times> send_outcome) option" where
  "RecvData s xs =
     (if sclosed s then Some (s, SessionClosed)
      else (case chan_send (RecvChannel s) xs of
              Sent c \<Rightarrow> Some (s\<lparr>RecvChannel := c\<rparr>, Enqueued)
            | SendBlocks \<Rightarrow> Some (s, ChannelFull)
            | SendPanics \<Rightarrow> None))"

definition SendAudioData :: "'a session \<Rightarrow> bytes \<Rightarrow> ('a session \<times> send_outcome) option" where
  "SendAudioData s xs =
     (if sclosed s then Some (s, SessionClosed)
      else (case chan_send (SendChannel s) xs of
              Sent c \<Rightarrow> Some (s\<lparr>SendChannel := c\<rparr>, Enqueued)
            | SendBlocks \<Rightarrow> Some (s, ChannelFull)
            | SendPanics \<Rightarrow> None))"

definition DestroySession :: "'a session \<Rightarrow> 'a session option" where
  "DestroySession s =
     (if sclosed s then Some s
      else (case (chan_close (RecvChannel s), chan_close (SendChannel s)) of
              (Some r, Some t) \<Rightarrow> Some (s\<lparr>sclosed := True, RecvChannel := r, SendChannel := t\<rparr>)
            | _ \<Rightarrow> None))"

text \<open>The invariant: the channels are closed exactly with the session.\<close>

definition session_ok :: "'a session \<Rightarrow> bool" where
  "session_ok s \<longleftrightarrow> length (Nonce s) = 8
     \<and> (cclosed (RecvChannel s) \<longleftrightarrow> sclosed s) \<and> (cclosed (SendChannel s) \<longleftrightarrow> sclosed s)"

definition block_ok :: "(bytes \<Rightarrow> bytes) \<Rightarrow> bool" where
  "block_ok block \<longleftrightarrow> (\<forall>iv. length iv = 16 \<longrightarrow> length (block iv) = 16)"

section \<open>Lemmas on bytes\<close>

lemma length_inc_le [simp]: "length (inc_le bs) = length bs"
  by (induction bs) auto

lemma length_be_inc [simp]: "length (be_inc iv) = length iv"
  by (simp add: be_inc_def)

lemma length_ctr_stream: "block_ok block \<Longrightarrow> length iv = 16 \<Longrightarrow> length (ctr_stream block iv k) = 16 * k"
  by (induction k arbitrary: iv) (simp_all add: block_ok_def)

lemma map2_xor_twice: "length ks \<ge> length xs \<Longrightarrow> map2 (XOR) (map2 (XOR) xs ks) ks = (xs :: bytes)"
proof (induction xs arbitrary: ks)
  case (Cons x xs)
  then show ?case by (cases ks) (simp_all add: xor.assoc)
qed simp

lemma XORKeyStream_twice:
  assumes "block_ok block" and "length iv = 16"
  shows "XORKeyStream block iv (XORKeyStream block iv xs) = xs"
proof -
  let ?ks = "ctr_stream block iv ((length xs + 15) div 16)"
  have "length xs \<le> length ?ks" using length_ctr_stream [OF assms] by simp
  then have "length (map2 (XOR) xs ?ks) = length xs" "map2 (XOR) (map2 (XOR) xs ?ks) ?ks = xs"
    using map2_xor_twice by simp_all
  then show ?thesis unfolding XORKeyStream_def by simp
qed

lemma length_XORKeyStream:
  assumes "block_ok block" and "length iv = 16"
  shows "length (XORKeyStream block iv xs) = length xs"
  using length_ctr_stream [OF assms] by (simp add: XORKeyStream_def)

lemma length_header [simp]: "length (Nonce s) = 8 \<Longrightarrow> length (nonce_header s seq len) = 16"
  by (simp add: nonce_header_def)

lemma be32_inj: "be32 v = be32 w \<Longrightarrow> v = w"
  by (metis uint32_of_be32)

section \<open>Counters and sequence numbers\<close>

text \<open>Read as a number, a block's successor is one more, modulo \<open>2 ^ 128\<close>.\<close>

fun le_value :: "bytes \<Rightarrow> nat" where
  "le_value [] = 0"
| "le_value (b # bs) = unat b + 256 * le_value bs"

lemma unat_byte: "unat (b :: byte) < 256"
  using unsigned_less [of b] by simp

lemma unat_word32: "unat (w :: 32 word) < 2 ^ 32"
  using unsigned_less [of w] by simp

lemma le_value_less: "le_value bs < 256 ^ length bs"
proof (induction bs)
  case (Cons b bs)
  have "unat b < 256" by (rule unat_byte)
  with Cons have "unat b + 256 * le_value bs < 256 + 256 * le_value bs" by simp
  also have "\<dots> = 256 * Suc (le_value bs)" by simp
  also have "\<dots> \<le> 256 * 256 ^ length bs" using Cons by (intro mult_le_mono2) simp
  finally show ?case by simp
qed simp

lemma unat_inc_byte: "(b :: byte) \<noteq> 255 \<Longrightarrow> unat (b + 1) = unat b + 1"
proof -
  assume b: "b \<noteq> 255"
  have "b + 1 \<noteq> 0"
  proof
    assume "b + 1 = 0"
    then have "b = - 1" by (simp add: eq_neg_iff_add_eq_0)
    with b show False by simp
  qed
  then show ?thesis by (simp add: unat_plus_simple unatSuc add.commute)
qed

lemma le_value_inc:
  "le_value (inc_le bs) = (le_value bs + 1) mod 256 ^ length bs"
proof (induction bs)
  case (Cons b bs)
  show ?case
  proof (cases "b = 255")
    case True
    have "(256 + 256 * le_value bs) mod (256 * 256 ^ length bs) =
        256 * ((le_value bs + 1) mod 256 ^ length bs)"
      unfolding mult_mod_right by (simp add: distrib_left)
    with True Cons show ?thesis by simp
  next
    case False
    have "unat (b + 1) + 256 * le_value bs = le_value (b # bs) + 1"
      using unat_inc_byte [OF False] by simp
    moreover have "le_value (b # bs) + 1 < 256 ^ length (b # bs)"
      using le_value_less [of "(b + 1) # bs"] calculation by simp
    ultimately show ?thesis using False by simp
  qed
qed simp

lemma inc_le_append:
  "le_value xs + 1 < 256 ^ length xs \<Longrightarrow> inc_le (xs @ ys) = inc_le xs @ ys"
proof (induction xs)
  case (Cons b xs)
  show ?case
  proof (cases "b = 255")
    case True
    with Cons.prems have "256 * (le_value xs + 1) < 256 * 256 ^ length xs" by simp
    then have "le_value xs + 1 < 256 ^ length xs" by (simp only: mult_less_cancel1)
    with Cons.IH True show ?thesis by simp
  qed simp
qed simp

lemma rev_be32: "le_value (rev (be32 w)) = unat w"
proof -
  have b: "unat (ucast (drop_bit k w) :: byte) = unat w div 2 ^ k mod 256" for k
  proof -
    have "unat (drop_bit k w) = drop_bit k (unat w)"
      using unat_word32 [of w]
      by (simp add: unsigned_drop_bit_eq take_bit_nat_eq_self del: drop_bit_eq_div)
    then show ?thesis
      by (simp add: unsigned_ucast_eq take_bit_eq_mod drop_bit_eq_div [of k "unat w"])
  qed
  have "unat w < 2 ^ 32" by (rule unat_word32)
  then have "unat w div 2 ^ 24 < 256" by (simp add: less_mult_imp_div_less)
  moreover have "n = n mod 256 + 256 * (n div 2 ^ 8 mod 256)
      + 65536 * (n div 2 ^ 16 mod 256) + 16777216 * (n div 2 ^ 24)" for n :: nat
  proof -
    have a: "n = 256 * (n div 256) + n mod 256" by simp
    have b: "n div 256 = 256 * (n div 65536) + n div 256 mod 256"
      using mult_div_mod_eq [of 256 "n div 256"] div_mult2_eq [of n 256 256] by simp
    have c: "n div 65536 = 256 * (n div 16777216) + n div 65536 mod 256"
      using mult_div_mod_eq [of 256 "n div 65536"] div_mult2_eq [of n 65536 256] by simp
    have "n = n mod 256 + 256 * (n div 256 mod 256)
        + 65536 * (n div 65536 mod 256) + 16777216 * (n div 16777216)"
      using a b c by linarith
    then show ?thesis by simp
  qed
  from this [of "unat w"] calculation have "unat w = unat w mod 256 + 256 * (unat w div 2 ^ 8 mod 256)
      + 65536 * (unat w div 2 ^ 16 mod 256) + 16777216 * (unat w div 2 ^ 24 mod 256)"
    by simp
  then show ?thesis
    using b [of 0] b [of 8] b [of 16] b [of 24] by (simp add: be32_def)
qed

lemma le_value_inj: "length xs = length ys \<Longrightarrow> le_value xs = le_value ys \<Longrightarrow> xs = ys"
proof (induction xs ys rule: list_induct2)
  case (Cons x xs y ys)
  have "unat x < 256" "unat y < 256" by (rule unat_byte)+
  then have "unat x = (unat x + 256 * le_value xs) mod 256" "unat y = (unat y + 256 * le_value ys) mod 256"
    "le_value xs = (unat x + 256 * le_value xs) div 256" "le_value ys = (unat y + 256 * le_value ys) div 256"
    by simp_all
  with Cons.prems have "unat x = unat y" "le_value xs = le_value ys" by simp_all
  with Cons.IH show ?case by (simp add: word_unat_eq_iff)
qed simp

lemma be_inc_header:
  assumes "seq \<noteq> - 1"
  shows "be_inc (nonce_header s seq len) = nonce_header s (seq + 1) len"
proof -
  have lt: "unat seq + 1 < 2 ^ 32"
  proof -
    have "unat (seq + 1) = unat seq + 1"
      using assms by (metis add.commute eq_neg_iff_add_eq_0 unatSuc Suc_eq_plus1)
    with unat_word32 [of "seq + 1"] show ?thesis by simp
  qed
  then have u: "unat (seq + 1) = unat seq + 1" by (simp add: unat_word_ariths)
  have "le_value (inc_le (rev (be32 seq))) = le_value (rev (be32 (seq + 1)))"
    using lt u by (simp add: le_value_inc rev_be32)
  then have "inc_le (rev (be32 seq)) = rev (be32 (seq + 1))"
    by (intro le_value_inj) simp_all
  moreover have "le_value (rev (be32 seq)) + 1 < 256 ^ length (rev (be32 seq))"
    using lt by (simp add: rev_be32)
  ultimately show ?thesis
    using inc_le_append [of "rev (be32 seq)" "rev ([1, 0] @ be16 (word_of_nat len) @ Nonce s)"]
    by (simp add: be_inc_def nonce_header_def)
qed

section \<open>Encryption\<close>

lemma Encrypt_packet:
  assumes "Encrypt s xs = (s', p)" and "length (Nonce s) = 8"
  shows "s' = s\<lparr>LocalSeq := LocalSeq s + 1\<rparr>"
    and "take 16 p = nonce_header s (LocalSeq s + 1) (length xs)"
    and "drop 16 p = XORKeyStream (Block s) (nonce_header s (LocalSeq s + 1) (length xs)) xs"
  using assms by (auto simp: Encrypt_def Let_def)

lemma header_seq:
  "length (Nonce s) = 8 \<Longrightarrow> take 4 (drop 12 (nonce_header s seq len)) = be32 seq"
  by (simp add: nonce_header_def drop_Cons' take_Cons')

lemma Decrypt_Encrypt_facts:
  assumes "Encrypt s xs = (s', p)" and "length (Nonce s) = 8"
    and "block_ok (Block s)" and "Block r = Block s"
  shows "Decrypt r p = Some (r\<lparr>RemoteSeq := LocalSeq s + 1\<rparr>, xs)"
    and "length p = 16 + length xs" and "LocalSeq s' = LocalSeq s + 1"
    and "take 16 p = nonce_header s (LocalSeq s + 1) (length xs)"
proof -
  note packet = Encrypt_packet [OF assms(1,2)]
  let ?h = "nonce_header s (LocalSeq s + 1) (length xs)"
  have p: "p = ?h @ XORKeyStream (Block s) ?h xs"
    using packet(2,3) by (metis append_take_drop_id)
  show len: "length p = 16 + length xs"
    unfolding p by (simp add: length_XORKeyStream assms)
  show "take 16 p = ?h" by (rule packet(2))
  show "LocalSeq s' = LocalSeq s + 1" by (simp add: packet(1))
  have "drop 12 p = drop 12 ?h @ XORKeyStream (Block s) ?h xs"
    unfolding p by (simp add: assms(2))
  then have "take 4 (drop 12 p) = be32 (LocalSeq s + 1)"
    using header_seq [OF assms(2)] by (simp add: assms(2))
  with len packet(2,3) show "Decrypt r p = Some (r\<lparr>RemoteSeq := LocalSeq s + 1\<rparr>, xs)"
    by (simp add: Decrypt_def Let_def assms XORKeyStream_twice)
qed

text \<open>Fact: a packet encrypted by one end decrypts to the plaintext at the other end, which holds the same
  key; the receiver's sequence number becomes the sender's, and the packet is the 16-byte header
  (type 1, length, nonce, sequence number) and as many bytes as the plaintext.
\<close>

theorem Decrypt_Encrypt:
  assumes "Encrypt s xs = (s', p)" and "length (Nonce s) = 8"
    and "block_ok (Block s)" and "Block r = Block s"
  shows "Decrypt r p = Some (r\<lparr>RemoteSeq := LocalSeq s + 1\<rparr>, xs)
    \<and> length p = 16 + length xs \<and> LocalSeq s' = LocalSeq s + 1
    \<and> take 16 p = nonce_header s (LocalSeq s + 1) (length xs)"
  using Decrypt_Encrypt_facts [OF assms] by blast

definition sample_block :: "bytes \<Rightarrow> bytes" where
  \<comment> \<open>a stand-in for AES, for the witnesses\<close>
  "sample_block iv = map (\<lambda>b. 3 * b + 1) (rev iv)"

definition sample_session :: "nat session" where
  "sample_session = \<lparr>ID = ''i'', ConnId = ''01020304'', ClientId = ''c'', DeviceId = ''d'',
     AesKey = replicate 16 7, Nonce = [1, 2, 3, 4, 5, 6, 7, 8], CreatedAt = 0, LastActive = 0,
     RemoteAddr = None, LocalSeq = 0, RemoteSeq = 0, Block = sample_block,
     RecvChannel = make_chan 100, SendChannel = make_chan 100, sclosed = False\<rparr>"

lemma sample_block_ok [simp]: "block_ok sample_block"
  by (simp add: block_ok_def sample_block_def)

lemma Decrypt_Encrypt_witness:
  "Decrypt sample_session (snd (Encrypt sample_session [10, 20, 30]))
     = Some (sample_session\<lparr>RemoteSeq := 1\<rparr>, [10, 20, 30])"
  using Decrypt_Encrypt [of sample_session "[10, 20, 30]" _ _ sample_session, OF prod.collapse [symmetric]]
  by (simp add: sample_session_def)

section \<open>The key streams of consecutive packets overlap\<close>

text \<open>The sequence number is the low end of the counter block, so the second block of a packet's key
  stream is the first block of the next packet's.\<close>

lemma XORKeyStream_nth:
  assumes "block_ok block" and "length iv = 16" and "i < length xs"
  shows "XORKeyStream block iv xs ! i = xs ! i XOR ctr_stream block iv ((length xs + 15) div 16) ! i"
  using assms length_ctr_stream [OF assms(1,2)] by (simp add: XORKeyStream_def)

lemma ctr_stream_shift:
  assumes "block_ok block" and "length iv = 16" and "i + 16 < 16 * k"
  shows "ctr_stream block iv k ! (i + 16) = ctr_stream block (be_inc iv) k ! i"
proof -
  have prefix: "i < 16 * n \<Longrightarrow> length jv = 16 \<Longrightarrow> n \<le> m \<Longrightarrow> ctr_stream block jv n ! i = ctr_stream block jv m ! i"
    for n m jv i
  proof (induction n arbitrary: m jv i)
    case (Suc n)
    then obtain m' where m: "m = Suc m'" "n \<le> m'" by (cases m) auto
    have "length (block jv) = 16" using assms(1) Suc.prems(2) by (simp add: block_ok_def)
    with Suc m show ?case by (simp add: nth_append)
  qed simp
  obtain n where k: "k = Suc n" using assms(3) by (cases k) auto
  have "length (block iv) = 16" using assms(1,2) by (simp add: block_ok_def)
  then have "ctr_stream block iv k ! (i + 16) = ctr_stream block (be_inc iv) n ! i"
    by (simp add: k nth_append)
  also have "\<dots> = ctr_stream block (be_inc iv) k ! i"
    using assms(2,3) k by (intro prefix) simp_all
  finally show ?thesis .
qed

lemma xor_same_key: "(x XOR k) XOR (y XOR k) = (x XOR y :: byte)"
  by (rule bit_word_eqI) (auto simp: bit_simps)

text \<open>Fact: two packets of one session sent one after the other, of the same length, use the same key
  stream shifted by one block: an eavesdropper gets the exclusive or of the plaintexts, byte by byte,
  from the ciphertexts alone, except where the 32-bit sequence number wraps.
\<close>

theorem consecutive_packets_share_key_stream:
  assumes "Encrypt s xs = (s1, p)" and "Encrypt s1 ys = (s2, q)"
    and "length xs = length ys" and "i + 16 < length xs"
    and "LocalSeq s + 1 \<noteq> - 1" and "length (Nonce s) = 8" and "block_ok (Block s)"
  shows "p ! (16 + (i + 16)) XOR q ! (16 + i) = xs ! (i + 16) XOR ys ! i"
proof -
  let ?h = "nonce_header s (LocalSeq s + 1) (length xs)"
  let ?n = "(length xs + 15) div 16"
  note first = Encrypt_packet [OF assms(1,6)]
  have n1: "length (Nonce s1) = 8" using assms(6) by (simp add: first(1))
  note second = Encrypt_packet [OF assms(2) n1]
  have h2: "nonce_header s1 (LocalSeq s1 + 1) (length ys) = be_inc ?h"
    using be_inc_header [OF assms(5), of s "length xs"] assms(3)
    by (simp add: first(1) nonce_header_def)
  have lens: "length p = 16 + length xs" "length q = 16 + length xs"
    using Decrypt_Encrypt_facts(2) [OF assms(1,6,7) refl] Decrypt_Encrypt_facts(2) [OF assms(2) n1 _ refl] assms(3,7)
    by (simp_all add: first(1))
  have at: "p ! (16 + (i + 16)) = drop 16 p ! (i + 16)" "q ! (16 + i) = drop 16 q ! i"
    using lens by simp_all
  have "p ! (16 + (i + 16)) = xs ! (i + 16) XOR ctr_stream (Block s) ?h ?n ! (i + 16)"
    unfolding at(1) first(3) using assms(4,6) by (intro XORKeyStream_nth [OF assms(7)]) simp_all
  moreover have "q ! (16 + i) = ys ! i XOR ctr_stream (Block s) (be_inc ?h) ?n ! i"
    unfolding at(2) second(3) h2
    using XORKeyStream_nth [OF assms(7), of "be_inc ?h" i ys] assms(3,4,6)
    by (simp add: first(1))
  moreover have "ctr_stream (Block s) ?h ?n ! (i + 16) = ctr_stream (Block s) (be_inc ?h) ?n ! i"
    using assms(4,6,7) by (intro ctr_stream_shift) simp_all
  ultimately show ?thesis by (simp only: xor_same_key)
qed

text \<open>A plaintext of 17 bytes whose last byte meets the next packet's first.\<close>

lemma consecutive_packets_share_key_stream_witness:
  "let xs = [1, 2, 3, 4, 5, 6, 7, 8, 9, 10, 11, 12, 13, 14, 15, 16, 17]; ys = rev xs;
       (s1, p) = Encrypt sample_session xs; (s2, q) = Encrypt s1 ys
   in p ! 32 XOR q ! 16 = 17 XOR 17"
  using consecutive_packets_share_key_stream [of sample_session
      "[1, 2, 3, 4, 5, 6, 7, 8, 9, 10, 11, 12, 13, 14, 15, 16, 17]" _ _
      "rev [1, 2, 3, 4, 5, 6, 7, 8, 9, 10, 11, 12, 13, 14, 15, 16, 17]" _ _ 0,
      OF prod.collapse [symmetric] prod.collapse [symmetric]]
  by (simp add: Let_def split_beta sample_session_def)

section \<open>Draining\<close>

text \<open>
  \<^verbatim>\<open>DrainPendingAudio\<close> returns exactly when the channel is open; it then leaves it empty and
  returns the number of frames dropped. On a closed channel, which is always ready to receive, it
  never returns.
\<close>

lemma Drain_unfold:
  "DrainPendingAudio c n =
     (case cbuf c of
        v # vs \<Rightarrow> DrainPendingAudio (c\<lparr>cbuf := vs\<rparr>) (Suc n)
      | [] \<Rightarrow> if cclosed c then DrainPendingAudio c (Suc n) else Some (c, n))"
  by (subst DrainPendingAudio.simps) (simp add: chan_recv_def split: list.split)

lemma Drain_open:
  "\<not> cclosed c \<Longrightarrow> DrainPendingAudio c n = Some (c\<lparr>cbuf := []\<rparr>, n + length (cbuf c))"
proof (induction "cbuf c" arbitrary: c n)
  case Nil
  then show ?case by (subst Drain_unfold) (simp add: eq_commute [of "[]"])
next
  case (Cons v vs)
  from Cons.hyps(2) [symmetric] Cons.prems Cons.hyps(1) [of "c\<lparr>cbuf := vs\<rparr>" "Suc n"] show ?case
    by (subst Drain_unfold) simp
qed

lemma Drain_closed:
  assumes "DrainPendingAudio c n = Some r"
  shows "\<not> cclosed c"
proof (rule DrainPendingAudio.raw_induct [where P = "\<lambda>c n r. \<not> cclosed c", OF _ assms])
  fix drain and c :: "bytes chan" and n r
  assume IH: "\<And>c n r. drain c n = Some r \<Longrightarrow> \<not> cclosed c"
    and "(case chan_recv c of Got v c' \<Rightarrow> drain c' (Suc n) | GotZero \<Rightarrow> drain c (Suc n)
      | RecvBlocks \<Rightarrow> Some (c, n)) = Some r"
  then show "\<not> cclosed c"
    by (cases "cbuf c") (auto simp: chan_recv_def split: if_splits dest!: IH)
qed

lemma DrainPendingAudio_returns_iff_open:
  "DrainPendingAudio c 0 = (if cclosed c then None else Some (c\<lparr>cbuf := []\<rparr>, length (cbuf c)))"
  using Drain_open [of c 0] Drain_closed [of c 0]
  by (cases "DrainPendingAudio c 0") auto

section \<open>Every operation keeps the session's invariant and none panics\<close>

lemma SetRemoteAddr_ok [simp]: "session_ok (SetRemoteAddr s a) = session_ok s"
  by (simp add: SetRemoteAddr_def session_ok_def)

lemma Decrypt_ok:
  assumes "session_ok s" and "16 \<le> length xs"
  shows "\<exists>s' ys. Decrypt s xs = Some (s', ys) \<and> session_ok s' \<and> RemoteAddr s' = RemoteAddr s
    \<and> sclosed s' = sclosed s \<and> ConnId s' = ConnId s"
  using assms by (simp add: Decrypt_def Let_def session_ok_def)

lemma Encrypt_ok:
  "session_ok s \<Longrightarrow> Encrypt s xs = (s', p) \<Longrightarrow> session_ok s' \<and> RemoteAddr s' = RemoteAddr s
     \<and> sclosed s' = sclosed s \<and> ConnId s' = ConnId s"
  by (auto simp: Encrypt_def Let_def session_ok_def)

lemma RecvData_ok:
  "session_ok s \<Longrightarrow> \<exists>s' r. RecvData s xs = Some (s', r) \<and> session_ok s' \<and> RemoteAddr s' = RemoteAddr s
     \<and> sclosed s' = sclosed s \<and> ConnId s' = ConnId s"
  by (cases "chan_send (RecvChannel s) xs")
    (auto simp: RecvData_def session_ok_def chan.send_panics dest!: chan.send_sent)

lemma SendAudioData_ok:
  "session_ok s \<Longrightarrow> \<exists>s' r. SendAudioData s xs = Some (s', r) \<and> session_ok s' \<and> RemoteAddr s' = RemoteAddr s
     \<and> sclosed s' = sclosed s \<and> ConnId s' = ConnId s"
  by (cases "chan_send (SendChannel s) xs")
    (auto simp: SendAudioData_def session_ok_def chan.send_panics dest!: chan.send_sent)

lemma DestroySession_ok:
  "session_ok s \<Longrightarrow> \<exists>s'. DestroySession s = Some s' \<and> session_ok s' \<and> sclosed s'
     \<and> RemoteAddr s' = RemoteAddr s \<and> ConnId s' = ConnId s"
  by (auto simp: DestroySession_def session_ok_def chan_close_def)

end
