(* ===== verification/Udp_Server.thy ===== *)
theory Udp_Server
  imports Udp_Session
begin

text \<open>
  \<^verbatim>\<open>internal/app/server/mqtt_udp/udp_server.go\<close>: the table of UDP sessions. Sessions are pointers in
  the code: here positions in a heap that only grows. The two \<^verbatim>\<open>sync.Map\<close>s are maps to positions; an
  address is identified with its \<^verbatim>\<open>String()\<close>. Every method is one step; random bytes, the clock,
  the AES constructor and the outcome of socket writes are arguments. The goroutine that each session
  has for sending is the pair of steps \<open>sender_recv\<close> and \<open>sender_emit\<close>, between which the
  address is waited for. \<open>None\<close> is a panic or, for \<open>sender_emit\<close>, a loop that never ends.
\<close>

record 'a udp_server =
  heap :: "'a session list"
  nonce2Session :: "string \<rightharpoonup> nat"
  addr2Session :: "'a \<rightharpoonup> nat"
  conn_open :: bool

definition NewUDPServer :: "'a udp_server" where
  "NewUDPServer = \<lparr>heap = [], nonce2Session = Map.empty, addr2Session = Map.empty, conn_open = False\<rparr>"

definition StartServer :: "bool \<Rightarrow> 'a udp_server \<Rightarrow> 'a udp_server \<times> bool" where
  \<comment> \<open>whether the socket could be opened is an argument\<close>
  "StartServer listens s = (if listens then (s\<lparr>conn_open := True\<rparr>, True) else (s, False))"

definition CloseServer :: "'a udp_server \<Rightarrow> 'a udp_server" where
  "CloseServer s = s\<lparr>conn_open := False\<rparr>"

definition modify :: "nat \<Rightarrow> ('a session \<Rightarrow> 'a session) \<Rightarrow> 'a udp_server \<Rightarrow> 'a udp_server" where
  \<comment> \<open>an assignment through the pointer \<open>i\<close>\<close>
  "modify i f s = s\<lparr>heap := (heap s)[i := f (heap s ! i)]\<rparr>"

definition getSessionByNonce :: "'a udp_server \<Rightarrow> string \<Rightarrow> nat option" where
  "getSessionByNonce s connID = nonce2Session s connID"

definition SetNonce2Session :: "string \<Rightarrow> nat \<Rightarrow> 'a udp_server \<Rightarrow> 'a udp_server" where
  "SetNonce2Session connID i s = s\<lparr>nonce2Session := (nonce2Session s)(connID \<mapsto> i)\<rparr>"

definition getUdpSession :: "'a udp_server \<Rightarrow> 'a \<Rightarrow> nat option" where
  "getUdpSession s a = addr2Session s a"

definition addUdpSession :: "'a \<Rightarrow> nat \<Rightarrow> 'a udp_server \<Rightarrow> 'a udp_server" where
  "addUdpSession a i s = s\<lparr>addr2Session := (addr2Session s)(a \<mapsto> i)\<rparr>"

definition removeUdpSession :: "'a \<Rightarrow> 'a udp_server \<Rightarrow> 'a udp_server" where
  "removeUdpSession a s = s\<lparr>addr2Session := (addr2Session s)(a := None)\<rparr>"

definition clearSessionAddrBindings :: "nat \<Rightarrow> 'a udp_server \<Rightarrow> 'a udp_server" where
  "clearSessionAddrBindings i s =
     modify i (\<lambda>u. SetRemoteAddr u None)
       (s\<lparr>addr2Session := (\<lambda>a. if addr2Session s a = Some i then None else addr2Session s a)\<rparr>)"

definition rebindSessionAddr :: "'a \<Rightarrow> nat \<Rightarrow> 'a udp_server \<Rightarrow> 'a udp_server" where
  "rebindSessionAddr a i s =
     addUdpSession a i (modify i (\<lambda>u. SetRemoteAddr u (Some a)) (clearSessionAddrBindings i s))"

section \<open>Packets\<close>

datatype packet_outcome = TooSmall | NoSession | Delivered bytes | RecvFull | RecvClosed

definition packet_conn_id :: "bytes \<Rightarrow> string" where
  "packet_conn_id packet = EncodeToString (take 4 (drop 4 packet))"

definition bind_sender :: "'a \<Rightarrow> nat \<Rightarrow> 'a udp_server \<Rightarrow> 'a udp_server" where
  "bind_sender a i s =
     (if getUdpSession s a = Some i then s
      else rebindSessionAddr a i
             (case getUdpSession s a of Some _ \<Rightarrow> removeUdpSession a s | None \<Rightarrow> s))"

definition processPacket ::
  "int \<Rightarrow> 'a \<Rightarrow> bytes \<Rightarrow> 'a udp_server \<Rightarrow> ('a udp_server \<times> packet_outcome) option" where
  "processPacket now a packet s =
     (if length packet < 16 then Some (s, TooSmall)
      else (case getSessionByNonce s (packet_conn_id packet) of
              None \<Rightarrow> Some (s, NoSession)
            | Some i \<Rightarrow>
                (let s = modify i (\<lambda>u. u\<lparr>LastActive := now\<rparr>) (bind_sender a i s)
                 in case Decrypt (heap s ! i) packet of
                      None \<Rightarrow> None
                    | Some (u, decrypted) \<Rightarrow>
                        (case RecvData u decrypted of
                           None \<Rightarrow> None
                         | Some (u', r) \<Rightarrow>
                             Some (modify i (\<lambda>_. u') s,
                                   case r of Enqueued \<Rightarrow> Delivered decrypted
                                     | ChannelFull \<Rightarrow> RecvFull | SessionClosed \<Rightarrow> RecvClosed)))))"

section \<open>The life of a session\<close>

definition CreateSession ::
  "(bytes \<Rightarrow> (bytes \<Rightarrow> bytes) option) \<Rightarrow> bytes \<Rightarrow> bytes \<Rightarrow> bytes \<Rightarrow> int \<Rightarrow> string \<Rightarrow> string
    \<Rightarrow> 'a udp_server \<Rightarrow> 'a udp_server \<times> nat option" where
  "CreateSession NewCipher rid key connID now deviceId clientId s =
     (let strConnID = EncodeToString connID; timestamp = be32 (word_of_int now)
      in case NewCipher key of
           None \<Rightarrow> (s, None)
         | Some block \<Rightarrow>
             (let session = \<lparr>ID = EncodeToString rid, ConnId = strConnID, ClientId = clientId,
                    DeviceId = deviceId, AesKey = key, Nonce = connID @ timestamp, CreatedAt = now,
                    LastActive = now, RemoteAddr = None, LocalSeq = 0, RemoteSeq = 0, Block = block,
                    RecvChannel = make_chan 100, SendChannel = make_chan 100, sclosed = False\<rparr>;
                  i = length (heap s)
              in (SetNonce2Session strConnID i (s\<lparr>heap := heap s @ [session]\<rparr>), Some i)))"

definition CloseSessionByRef :: "nat option \<Rightarrow> 'a udp_server \<Rightarrow> 'a udp_server option" where
  "CloseSessionByRef ref s =
     (case ref of
        None \<Rightarrow> Some s
      | Some i \<Rightarrow>
          (let s1 = clearSessionAddrBindings i s;
               s2 = s1\<lparr>nonce2Session := (nonce2Session s1)(ConnId (heap s1 ! i) := None)\<rparr>
           in map_option (\<lambda>u. modify i (\<lambda>_. u) s2) (DestroySession (heap s2 ! i))))"

definition CloseSession :: "string \<Rightarrow> 'a udp_server \<Rightarrow> 'a udp_server option" where
  "CloseSession connID s = CloseSessionByRef (getSessionByNonce s connID) s"

definition ClearSessionAddrBinding :: "string \<Rightarrow> 'a udp_server \<Rightarrow> 'a udp_server" where
  "ClearSessionAddrBinding connID s =
     (case getSessionByNonce s connID of None \<Rightarrow> s | Some i \<Rightarrow> clearSessionAddrBindings i s)"

definition cleanup_tick :: "int \<Rightarrow> 'a udp_server \<Rightarrow> 'a udp_server" where
  \<comment> \<open>one tick of \<^verbatim>\<open>cleanupSessions\<close>, which \<^verbatim>\<open>Start\<close> does not launch; in seconds\<close>
  "cleanup_tick now s =
     s\<lparr>nonce2Session := (\<lambda>c. case nonce2Session s c of
         Some i \<Rightarrow> if now - LastActive (heap s ! i) > 5 * 60 then None else Some i
       | None \<Rightarrow> None)\<rparr>"

section \<open>The sending goroutine of a session\<close>

definition sender_recv :: "nat \<Rightarrow> 'a udp_server \<Rightarrow> 'a udp_server \<times> bytes option" where
  \<comment> \<open>\<open>None\<close>: nothing to send yet, or the loop has ended\<close>
  "sender_recv i s =
     (case chan_recv (SendChannel (heap s ! i)) of
        Got audio c \<Rightarrow> (modify i (\<lambda>u. u\<lparr>SendChannel := c\<rparr>) s, Some audio)
      | GotZero \<Rightarrow> (s, None)
      | RecvBlocks \<Rightarrow> (s, None))"

definition sender_emit ::
  "nat \<Rightarrow> bytes \<Rightarrow> 'a option \<Rightarrow> bool \<Rightarrow> 'a udp_server \<Rightarrow> ('a udp_server \<times> ('a \<times> bytes) option \<times> nat) option" where
  \<comment> \<open>the address waited for is an argument; with the datagram written and the frames dropped\<close>
  "sender_emit i audio remoteAddr write_ok s =
     (case remoteAddr of
        None \<Rightarrow>
          (case DrainPendingAudio (SendChannel (heap s ! i)) 0 of
             None \<Rightarrow> None
           | Some (c, drained) \<Rightarrow>
               Some (modify i (\<lambda>u. u\<lparr>SendChannel := c\<rparr>) s, None, 1 + drained))
      | Some a \<Rightarrow>
          (case Encrypt (heap s ! i) audio of
             (u, encrypted) \<Rightarrow>
               Some (modify i (\<lambda>_. u) s, if write_ok \<and> conn_open s then Some (a, encrypted) else None, 0)))"

section \<open>The invariant\<close>

definition server_ok :: "'a udp_server \<Rightarrow> bool" where
  "server_ok s \<longleftrightarrow>
     (\<forall>i < length (heap s). session_ok (heap s ! i))
     \<and> (\<forall>c i. nonce2Session s c = Some i \<longrightarrow>
          i < length (heap s) \<and> ConnId (heap s ! i) = c \<and> \<not> sclosed (heap s ! i))
     \<and> (\<forall>a i. addr2Session s a = Some i \<longrightarrow>
          i < length (heap s) \<and> RemoteAddr (heap s ! i) = Some a \<and> \<not> sclosed (heap s ! i))"

lemma server_okI:
  assumes "\<And>i. i < length (heap s) \<Longrightarrow> session_ok (heap s ! i)"
    and "\<And>c i. nonce2Session s c = Some i \<Longrightarrow>
           i < length (heap s) \<and> ConnId (heap s ! i) = c \<and> \<not> sclosed (heap s ! i)"
    and "\<And>a i. addr2Session s a = Some i \<Longrightarrow>
           i < length (heap s) \<and> RemoteAddr (heap s ! i) = Some a \<and> \<not> sclosed (heap s ! i)"
  shows "server_ok s"
  using assms unfolding server_ok_def by blast

lemma server_okD:
  assumes "server_ok s"
  shows "i < length (heap s) \<Longrightarrow> session_ok (heap s ! i)"
    and "nonce2Session s c = Some i \<Longrightarrow> i < length (heap s) \<and> ConnId (heap s ! i) = c \<and> \<not> sclosed (heap s ! i)"
    and "addr2Session s a = Some i \<Longrightarrow> i < length (heap s) \<and> RemoteAddr (heap s ! i) = Some a \<and> \<not> sclosed (heap s ! i)"
  using assms unfolding server_ok_def by blast+

lemma modify_simps [simp]:
  "length (heap (modify i f s)) = length (heap s)"
  "nonce2Session (modify i f s) = nonce2Session s"
  "addr2Session (modify i f s) = addr2Session s"
  "conn_open (modify i f s) = conn_open s"
  "i < length (heap s) \<Longrightarrow> heap (modify i f s) ! j = (if j = i then f (heap s ! i) else heap s ! j)"
  by (auto simp: modify_def nth_list_update)

text \<open>A session updated in place keeps the invariant if it keeps what the maps rely on.\<close>

lemma modify_ok:
  assumes "server_ok s" and "i < length (heap s)"
    and "session_ok (f (heap s ! i))" and "ConnId (f (heap s ! i)) = ConnId (heap s ! i)"
    and "RemoteAddr (f (heap s ! i)) = RemoteAddr (heap s ! i)"
    and "sclosed (f (heap s ! i)) = sclosed (heap s ! i)"
  shows "server_ok (modify i f s)"
  using assms by (intro server_okI) (auto dest: server_okD)

lemma SetRemoteAddr_simps [simp]:
  "ConnId (SetRemoteAddr u a) = ConnId u" "sclosed (SetRemoteAddr u a) = sclosed u"
  "RemoteAddr (SetRemoteAddr u a) = a" "SendChannel (SetRemoteAddr u a) = SendChannel u"
  "RecvChannel (SetRemoteAddr u a) = RecvChannel u" "Block (SetRemoteAddr u a) = Block u"
  "Nonce (SetRemoteAddr u a) = Nonce u" "LocalSeq (SetRemoteAddr u a) = LocalSeq u"
  by (simp_all add: SetRemoteAddr_def)

lemma clear_simps [simp]:
  "length (heap (clearSessionAddrBindings i s)) = length (heap s)"
  "nonce2Session (clearSessionAddrBindings i s) = nonce2Session s"
  "addr2Session (clearSessionAddrBindings i s) a =
     (if addr2Session s a = Some i then None else addr2Session s a)"
  "i < length (heap s) \<Longrightarrow> heap (clearSessionAddrBindings i s) ! j =
     (if j = i then SetRemoteAddr (heap s ! i) None else heap s ! j)"
  by (simp_all add: clearSessionAddrBindings_def)

lemma clear_ok:
  assumes "server_ok s" and "i < length (heap s)"
  shows "server_ok (clearSessionAddrBindings i s)"
  using assms(2) server_okD [OF assms(1)]
  by (intro server_okI) (auto split: if_splits)

lemma remove_ok: "server_ok s \<Longrightarrow> server_ok (removeUdpSession a s)"
  by (intro server_okI) (auto simp: removeUdpSession_def dest: server_okD split: if_splits)

lemma bind_sender_facts:
  fixes s :: "'a udp_server" and a :: 'a
  assumes "server_ok s" and "i < length (heap s)" and "\<not> sclosed (heap s ! i)"
  defines "t \<equiv> bind_sender a i s"
  shows "server_ok t" and "length (heap t) = length (heap s)" and "nonce2Session t = nonce2Session s"
    and "addr2Session t a = Some i" and "RemoteAddr (heap t ! i) = Some a"
    and "\<exists>r. heap t ! i = SetRemoteAddr (heap s ! i) r"
    and "j \<noteq> i \<Longrightarrow> heap t ! j = heap s ! j"
proof -
  let ?r = "case getUdpSession s a of Some _ \<Rightarrow> removeUdpSession a s | None \<Rightarrow> s"
  have r: "heap ?r = heap s" "nonce2Session ?r = nonce2Session s" "addr2Session ?r a = None"
    "\<And>b. b \<noteq> a \<Longrightarrow> addr2Session ?r b = addr2Session s b"
    by (auto simp: getUdpSession_def removeUdpSession_def split: option.splits)
  have t: "t = (if addr2Session s a = Some i then s else rebindSessionAddr a i ?r)"
    by (simp add: t_def bind_sender_def getUdpSession_def)
  have same: "SetRemoteAddr (heap s ! i) (RemoteAddr (heap s ! i)) = heap s ! i"
    by (simp add: SetRemoteAddr_def)
  show "length (heap t) = length (heap s)" "nonce2Session t = nonce2Session s"
    "addr2Session t a = Some i" "RemoteAddr (heap t ! i) = Some a"
    "j \<noteq> i \<Longrightarrow> heap t ! j = heap s ! j"
    using assms(2) r server_okD(3) [OF assms(1), of a i]
    by (auto simp: t rebindSessionAddr_def addUdpSession_def)
  show "\<exists>r. heap t ! i = SetRemoteAddr (heap s ! i) r"
  proof (cases "addr2Session s a = Some i")
    case True
    then show ?thesis by (metis t same)
  next
    case False
    then have "heap t ! i = SetRemoteAddr (heap s ! i) (Some a)"
      using assms(2) r by (simp add: t rebindSessionAddr_def addUdpSession_def SetRemoteAddr_def)
    then show ?thesis by blast
  qed
  show "server_ok t"
  proof (cases "addr2Session s a = Some i")
    case True
    then show ?thesis using assms(1) by (simp add: t)
  next
    case False
    then show ?thesis
      using assms(2,3) r server_okD [OF assms(1)]
      by (intro server_okI) (auto simp: t rebindSessionAddr_def addUdpSession_def split: if_splits)
  qed
qed

section \<open>Every operation keeps it\<close>

lemma processPacket_known:
  assumes "server_ok s" and "16 \<le> length packet" and "nonce2Session s (packet_conn_id packet) = Some i"
  shows "\<exists>t r. processPacket now a packet s = Some (t, r) \<and> server_ok t
    \<and> length (heap t) = length (heap s) \<and> nonce2Session t = nonce2Session s
    \<and> addr2Session t a = Some i \<and> RemoteAddr (heap t ! i) = Some a
    \<and> Block (heap t ! i) = Block (heap s ! i) \<and> LocalSeq (heap t ! i) = LocalSeq (heap s ! i)
    \<and> Nonce (heap t ! i) = Nonce (heap s ! i) \<and> LastActive (heap t ! i) = now
    \<and> (\<forall>j. j \<noteq> i \<longrightarrow> heap t ! j = heap s ! j)"
proof -
  have i: "i < length (heap s)" "\<not> sclosed (heap s ! i)"
    using server_okD(2) [OF assms(1,3)] by simp_all
  note bind = bind_sender_facts [OF assms(1) i, where a = a]
  let ?b = "bind_sender a i s"
  let ?m = "modify i (\<lambda>u. u\<lparr>LastActive := now\<rparr>) ?b"
  let ?u = "heap ?m ! i"
  have u: "?u = (heap ?b ! i)\<lparr>LastActive := now\<rparr>" using bind(2) i(1) by simp
  have ok: "server_ok ?m"
    by (rule modify_ok [OF bind(1)])
      (use bind(2) i(1) server_okD(1) [OF bind(1), of i] in \<open>simp_all add: session_ok_def\<close>)
  have "session_ok ?u" by (rule server_okD(1) [OF ok]) (simp add: bind(2) i(1))
  with assms(2) obtain v plain where v: "Decrypt ?u packet = Some (v, plain)" "session_ok v"
      "RemoteAddr v = RemoteAddr ?u" "sclosed v = sclosed ?u" "ConnId v = ConnId ?u"
    using Decrypt_ok by metis
  obtain w r where w: "RecvData v plain = Some (w, r)" "session_ok w"
      "RemoteAddr w = RemoteAddr v" "sclosed w = sclosed v" "ConnId w = ConnId v"
    using RecvData_ok [OF v(2)] by metis
  have fields: "Block w = Block ?u \<and> LocalSeq w = LocalSeq ?u \<and> Nonce w = Nonce ?u \<and> LastActive w = LastActive ?u"
    using v(1) w(1) by (auto simp: Decrypt_def Let_def RecvData_def split: if_splits sent.splits)
  let ?t = "modify i (\<lambda>_. w) ?m"
  have "processPacket now a packet s = Some (?t, case r of Enqueued \<Rightarrow> Delivered plain
      | ChannelFull \<Rightarrow> RecvFull | SessionClosed \<Rightarrow> RecvClosed)"
    using assms(2,3) v(1) w(1) by (simp add: processPacket_def getSessionByNonce_def)
  moreover have "server_ok ?t"
    by (rule modify_ok [OF ok]) (use bind(2) i(1) w v in simp_all)
  moreover obtain x where "heap ?b ! i = SetRemoteAddr (heap s ! i) x" using bind(6) by blast
  ultimately show ?thesis
    using bind i(1) w v fields u by simp
qed

lemma processPacket_other:
  "\<not> (16 \<le> length packet \<and> nonce2Session s (packet_conn_id packet) \<noteq> None) \<Longrightarrow>
   \<exists>r. processPacket now a packet s = Some (s, r)"
  by (auto simp: processPacket_def getSessionByNonce_def)

lemma processPacket_ok:
  assumes "server_ok s"
  shows "\<exists>t r. processPacket now a packet s = Some (t, r) \<and> server_ok t"
proof (cases "16 \<le> length packet \<and> nonce2Session s (packet_conn_id packet) \<noteq> None")
  case True
  then obtain i where "16 \<le> length packet" "nonce2Session s (packet_conn_id packet) = Some i" by blast
  from processPacket_known [OF assms this, where now = now and a = a] show ?thesis by blast
next
  case False
  from processPacket_other [OF this, where now = now and a = a] assms show ?thesis by blast
qed

lemma CreateSession_facts:
  assumes "CreateSession NewCipher rid key connID now d c s = (t, Some i)"
  shows "i = length (heap s)" and "length (heap t) = Suc (length (heap s))"
    and "j < length (heap s) \<Longrightarrow> heap t ! j = heap s ! j"
    and "\<not> sclosed (heap t ! i)" and "RemoteAddr (heap t ! i) = None"
    and "ConnId (heap t ! i) = EncodeToString connID"
    and "nonce2Session t = (nonce2Session s)(EncodeToString connID \<mapsto> i)"
    and "addr2Session t = addr2Session s"
    and "length connID = 4 \<Longrightarrow> session_ok (heap t ! i)"
  using assms
  by (auto simp: CreateSession_def SetNonce2Session_def Let_def nth_append session_ok_def
      split: option.splits)

lemma CreateSession_ok:
  assumes "server_ok s" and "CreateSession NewCipher rid key connID now d c s = (t, r)"
    and "length connID = 4"
  shows "server_ok t"
proof (cases r)
  case None
  with assms show ?thesis by (auto simp: CreateSession_def Let_def split: option.splits)
next
  case (Some i)
  note facts = CreateSession_facts [OF assms(2) [unfolded Some]]
  show ?thesis
    using facts server_okD [OF assms(1)] assms(3)
    by (intro server_okI) (auto simp: less_Suc_eq split: if_splits)
qed

lemma CloseSessionByRef_facts:
  assumes "server_ok s" and "i < length (heap s)"
  shows "\<exists>t. CloseSessionByRef (Some i) s = Some t \<and> server_ok t \<and> length (heap t) = length (heap s)
    \<and> (\<forall>j. j \<noteq> i \<longrightarrow> heap t ! j = heap s ! j)
    \<and> sclosed (heap t ! i) \<and> RemoteAddr (heap t ! i) = None \<and> ConnId (heap t ! i) = ConnId (heap s ! i)
    \<and> nonce2Session t = (nonce2Session s)(ConnId (heap s ! i) := None)
    \<and> cbuf (SendChannel (heap t ! i)) = cbuf (SendChannel (heap s ! i))
    \<and> cclosed (SendChannel (heap t ! i))
    \<and> (\<forall>a. addr2Session t a \<noteq> Some i)"
proof -
  let ?u = "SetRemoteAddr (heap s ! i) None"
  have ok: "session_ok ?u" using server_okD(1) [OF assms] by simp
  then obtain v where v: "DestroySession ?u = Some v" "session_ok v" "sclosed v"
      "RemoteAddr v = None" "ConnId v = ConnId ?u"
    using DestroySession_ok [OF ok] by auto
  have buf: "cbuf (SendChannel v) = cbuf (SendChannel ?u)" "cclosed (SendChannel v)"
    using v(1,2,3) by (auto simp: DestroySession_def session_ok_def chan_close_def split: if_splits)
  let ?s1 = "clearSessionAddrBindings i s"
  let ?t = "modify i (\<lambda>_. v) (?s1\<lparr>nonce2Session := (nonce2Session ?s1)(ConnId (heap ?s1 ! i) := None)\<rparr>)"
  have heap: "heap (?s1\<lparr>nonce2Session := m\<rparr>) = heap ?s1" for m by simp
  have "CloseSessionByRef (Some i) s = Some ?t"
    using assms(2) v(1) by (simp add: CloseSessionByRef_def Let_def)
  moreover have ht: "heap ?t ! j = (if j = i then v else heap s ! j)" for j
    using assms(2) by (simp add: modify_def)
  moreover have mt: "nonce2Session ?t = (nonce2Session s)(ConnId (heap s ! i) := None)"
    "addr2Session ?t a = (if addr2Session s a = Some i then None else addr2Session s a)"
    "length (heap ?t) = length (heap s)" for a
    using assms(2) by simp_all
  moreover have "server_ok ?t"
  proof (rule server_okI)
    show "j < length (heap ?t) \<Longrightarrow> session_ok (heap ?t ! j)" for j
      using server_okD(1) [OF assms(1)] v(2) unfolding ht mt by auto
    show "nonce2Session ?t c = Some j \<Longrightarrow>
        j < length (heap ?t) \<and> ConnId (heap ?t ! j) = c \<and> \<not> sclosed (heap ?t ! j)" for c j
      using server_okD(2) [OF assms(1), of c j] unfolding ht mt by (auto split: if_splits)
    show "addr2Session ?t a = Some j \<Longrightarrow>
        j < length (heap ?t) \<and> RemoteAddr (heap ?t ! j) = Some a \<and> \<not> sclosed (heap ?t ! j)" for a j
      using server_okD(3) [OF assms(1), of a j] unfolding ht mt by (auto split: if_splits)
  qed
  ultimately show ?thesis using v buf
    by (intro exI [of _ ?t]) (auto simp only: ht mt SetRemoteAddr_simps split: if_splits)
qed

section \<open>The server as a transition system\<close>

datatype 'a server_action =
    APacket int 'a bytes
  | ACreate bytes bytes bytes int string string
  | ACloseConn string
  | ACloseRef nat
  | AClear string
  | ATick int
  | ASendAudio nat bytes
  | ASenderRecv nat
  | ASenderEmit nat bytes "'a option" bool

definition server_step ::
  "(bytes \<Rightarrow> (bytes \<Rightarrow> bytes) option) \<Rightarrow> 'a server_action \<Rightarrow> 'a udp_server \<Rightarrow> 'a udp_server option" where
  "server_step NewCipher act s =
     (case act of
        APacket now a packet \<Rightarrow> map_option fst (processPacket now a packet s)
      | ACreate rid key connID now d c \<Rightarrow> Some (fst (CreateSession NewCipher rid key connID now d c s))
      | ACloseConn c \<Rightarrow> CloseSession c s
      | ACloseRef i \<Rightarrow> CloseSessionByRef (Some i) s
      | AClear c \<Rightarrow> Some (ClearSessionAddrBinding c s)
      | ATick now \<Rightarrow> Some (cleanup_tick now s)
      | ASendAudio i audio \<Rightarrow>
          map_option (\<lambda>(u, _). modify i (\<lambda>_. u) s) (SendAudioData (heap s ! i) audio)
      | ASenderRecv i \<Rightarrow> Some (fst (sender_recv i s))
      | ASenderEmit i audio addr ok \<Rightarrow> map_option fst (sender_emit i audio addr ok s))"

text \<open>Pointers point to sessions that exist, and \<^verbatim>\<open>CreateSession\<close> draws four bytes.\<close>

definition action_valid :: "'a udp_server \<Rightarrow> 'a server_action \<Rightarrow> bool" where
  "action_valid s act \<longleftrightarrow>
     (case act of
        ACreate _ _ connID _ _ _ \<Rightarrow> length connID = 4
      | ACloseRef i \<Rightarrow> i < length (heap s)
      | ASendAudio i _ \<Rightarrow> i < length (heap s)
      | ASenderRecv i \<Rightarrow> i < length (heap s)
      | ASenderEmit i _ _ _ \<Rightarrow> i < length (heap s)
      | _ \<Rightarrow> True)"

inductive server_reachable ::
  "(bytes \<Rightarrow> (bytes \<Rightarrow> bytes) option) \<Rightarrow> 'a udp_server \<Rightarrow> bool" for NewCipher where
  reach_new: "server_reachable NewCipher NewUDPServer"
| reach_start: "server_reachable NewCipher s \<Longrightarrow> server_reachable NewCipher (fst (StartServer b s))"
| reach_close: "server_reachable NewCipher s \<Longrightarrow> server_reachable NewCipher (CloseServer s)"
| reach_step: "server_reachable NewCipher s \<Longrightarrow> action_valid s act \<Longrightarrow>
    server_step NewCipher act s = Some t \<Longrightarrow> server_reachable NewCipher t"

definition spins :: "'a udp_server \<Rightarrow> 'a server_action \<Rightarrow> bool" where
  \<comment> \<open>the sender of a closed session that has no address\<close>
  "spins s act \<longleftrightarrow>
     (case act of ASenderEmit i _ None _ \<Rightarrow> sclosed (heap s ! i) | _ \<Rightarrow> False)"

lemma open_flag_ok [simp]: "server_ok (s\<lparr>conn_open := b\<rparr>) = server_ok s"
  by (simp add: server_ok_def)

lemma sender_recv_ok:
  assumes "server_ok s" and "i < length (heap s)"
  shows "server_ok (fst (sender_recv i s))"
proof (cases "chan_recv (SendChannel (heap s ! i))")
  case (Got v c)
  have "server_ok (modify i (\<lambda>u. u\<lparr>SendChannel := c\<rparr>) s)"
    by (rule modify_ok [OF assms])
      (use server_okD(1) [OF assms] chan.recv_got [OF Got] in \<open>simp_all add: session_ok_def\<close>)
  with Got show ?thesis by (simp add: sender_recv_def)
qed (use assms in \<open>simp_all add: sender_recv_def\<close>)

lemma sender_emit_step:
  assumes "server_ok s" and "i < length (heap s)"
  shows "sender_emit i audio addr ok s = None \<longleftrightarrow> addr = None \<and> sclosed (heap s ! i)"
    and "sender_emit i audio addr ok s = Some (t, out) \<Longrightarrow> server_ok t"
proof -
  have session: "session_ok (heap s ! i)" by (rule server_okD(1) [OF assms])
  then show "sender_emit i audio addr ok s = None \<longleftrightarrow> addr = None \<and> sclosed (heap s ! i)"
    by (auto simp: sender_emit_def DrainPendingAudio_returns_iff_open session_ok_def
        split: option.splits prod.splits)
  assume t: "sender_emit i audio addr ok s = Some (t, out)"
  show "server_ok t"
  proof (cases addr)
    case None
    with t have "t = modify i (\<lambda>u. u\<lparr>SendChannel := (SendChannel (heap s ! i))\<lparr>cbuf := []\<rparr>\<rparr>) s"
      by (auto simp: sender_emit_def DrainPendingAudio_returns_iff_open split: if_splits)
    then show ?thesis
      using session by (auto intro!: modify_ok [OF assms] simp: session_ok_def)
  next
    case (Some a)
    obtain u p where e: "Encrypt (heap s ! i) audio = (u, p)" by fastforce
    with t Some have "t = modify i (\<lambda>_. u) s" by (simp add: sender_emit_def)
    with Encrypt_ok [OF session e] show ?thesis by (auto intro!: modify_ok [OF assms])
  qed
qed

lemma CloseSessionByRef_ok:
  assumes "server_ok s" and "\<And>i. r = Some i \<Longrightarrow> i < length (heap s)"
  shows "\<exists>t. CloseSessionByRef r s = Some t \<and> server_ok t"
proof (cases r)
  case None
  with assms(1) show ?thesis by (simp add: CloseSessionByRef_def)
next
  case (Some i)
  with CloseSessionByRef_facts [OF assms(1) assms(2) [OF Some]] show ?thesis by auto
qed

text \<open>From a server whose maps only point to open sessions, bound to the address and connection id
  they are found under, every operation returns a server for which this holds again; the only
  operation that can fail to return is the sending goroutine of a closed session without an address.
  No operation panics.
\<close>

lemma server_step_total:
  assumes "server_ok s" and "action_valid s act"
  shows "server_step NewCipher act s = None \<longleftrightarrow> spins s act"
    and "server_step NewCipher act s = Some t \<Longrightarrow> server_ok t"
proof -
  have "(server_step NewCipher act s = None \<longleftrightarrow> spins s act)
    \<and> (\<forall>t. server_step NewCipher act s = Some t \<longrightarrow> server_ok t)"
  proof (cases act)
    case (APacket now a packet)
    with processPacket_ok [OF assms(1), of now a packet] show ?thesis
      by (auto simp: server_step_def spins_def)
  next
    case (ACreate rid key connID now d c)
    obtain t r where "CreateSession NewCipher rid key connID now d c s = (t, r)" by fastforce
    with CreateSession_ok [OF assms(1) this] assms(2) ACreate show ?thesis
      by (auto simp: server_step_def spins_def action_valid_def)
  next
    case (ACloseConn c)
    have "\<exists>t. CloseSessionByRef (getSessionByNonce s c) s = Some t \<and> server_ok t"
      by (rule CloseSessionByRef_ok [OF assms(1)])
        (use server_okD(2) [OF assms(1)] in \<open>auto simp: getSessionByNonce_def\<close>)
    with ACloseConn show ?thesis by (auto simp: server_step_def spins_def CloseSession_def)
  next
    case (ACloseRef i)
    with CloseSessionByRef_ok [OF assms(1), of "Some i"] assms(2) show ?thesis
      by (auto simp: server_step_def spins_def action_valid_def)
  next
    case (AClear c)
    have "server_ok (ClearSessionAddrBinding c s)"
      using assms(1) clear_ok [OF assms(1)] server_okD(2) [OF assms(1), of c]
      by (auto simp: ClearSessionAddrBinding_def getSessionByNonce_def split: option.split)
    with AClear show ?thesis by (simp add: server_step_def spins_def)
  next
    case (ATick now)
    have "server_ok (cleanup_tick now s)"
      using server_okD [OF assms(1)]
      by (intro server_okI) (auto simp: cleanup_tick_def split: option.splits if_splits)
    with ATick show ?thesis by (simp add: server_step_def spins_def)
  next
    case (ASendAudio i audio)
    then have i: "i < length (heap s)" using assms(2) by (simp add: action_valid_def)
    obtain u r where u: "SendAudioData (heap s ! i) audio = Some (u, r)" "session_ok u"
        "RemoteAddr u = RemoteAddr (heap s ! i)" "sclosed u = sclosed (heap s ! i)"
        "ConnId u = ConnId (heap s ! i)"
      using SendAudioData_ok [OF server_okD(1) [OF assms(1) i]] by blast
    have "server_ok (modify i (\<lambda>_. u) s)" by (rule modify_ok [OF assms(1) i]) (use u in simp_all)
    with ASendAudio u show ?thesis by (simp add: server_step_def spins_def)
  next
    case (ASenderRecv i)
    with sender_recv_ok [OF assms(1)] assms(2) show ?thesis
      by (simp add: server_step_def spins_def action_valid_def)
  next
    case (ASenderEmit i audio addr ok)
    then have i: "i < length (heap s)" using assms(2) by (simp add: action_valid_def)
    from sender_emit_step [OF assms(1) i, where audio = audio and addr = addr and ok = ok] ASenderEmit
    show ?thesis by (auto simp: server_step_def spins_def split: option.split)
  qed
  then show "server_step NewCipher act s = None \<longleftrightarrow> spins s act"
    "server_step NewCipher act s = Some t \<Longrightarrow> server_ok t" by blast+
qed

lemma start_close_ok:
  "server_ok s \<Longrightarrow> server_ok (fst (StartServer b s))" "server_ok s \<Longrightarrow> server_ok (CloseServer s)"
  by (simp_all add: StartServer_def CloseServer_def)

lemma reachable_ok: "server_reachable NewCipher s \<Longrightarrow> server_ok s"
proof (induction rule: server_reachable.induct)
  case reach_new
  show ?case by (simp add: server_ok_def NewUDPServer_def)
next
  case (reach_step s act t)
  then show ?case using server_step_total(2) by blast
qed (auto intro: start_close_ok)

lemma reachable_facts:
  assumes "server_reachable NewCipher s"
  shows "addr2Session s a = Some i \<Longrightarrow>
      i < length (heap s) \<and> \<not> sclosed (heap s ! i) \<and> RemoteAddr (heap s ! i) = Some a"
    and "nonce2Session s c = Some i \<Longrightarrow>
      i < length (heap s) \<and> \<not> sclosed (heap s ! i) \<and> ConnId (heap s ! i) = c"
    and "addr2Session s a = Some i \<Longrightarrow> addr2Session s b = Some i \<Longrightarrow> a = b"
proof -
  note ok = server_okD [OF reachable_ok [OF assms]]
  show bound: "i < length (heap s) \<and> \<not> sclosed (heap s ! i) \<and> RemoteAddr (heap s ! i) = Some a"
    if "addr2Session s a = Some i" for a i
    using ok(3) [OF that] by simp
  show "i < length (heap s) \<and> \<not> sclosed (heap s ! i) \<and> ConnId (heap s ! i) = c"
    if "nonce2Session s c = Some i"
    using ok(2) [OF that] by simp
  show "a = b" if "addr2Session s a = Some i" "addr2Session s b = Some i"
    using bound [OF that(1)] bound [OF that(2)] by simp
qed


definition sample_cipher :: "bytes \<Rightarrow> (bytes \<Rightarrow> bytes) option" where
  "sample_cipher key = (if length key = 16 then Some sample_block else None)"

definition sample_server :: "nat udp_server" where
  \<comment> \<open>a session with connection id 1.2.3.4, listening, that has talked from address 7\<close>
  "sample_server =
     (let s = fst (CreateSession sample_cipher [] (replicate 16 0) [1, 2, 3, 4] 0 ''d'' ''c''
                (fst (StartServer True NewUDPServer)))
      in fst (the (processPacket 1 7 [1, 0, 0, 0, 1, 2, 3, 4, 0, 0, 0, 0, 0, 0, 0, 1, 99] s)))"

lemma conn_id_1234 [simp]:
  "EncodeToString [1, 2, 3, 4] = ''01020304''"
  "packet_conn_id (a0 # a1 # a2 # a3 # 1 # 2 # 3 # 4 # rest) = ''01020304''"
proof -
  show "EncodeToString [1, 2, 3, 4] = ''01020304''" by code_simp
  then show "packet_conn_id (a0 # a1 # a2 # a3 # 1 # 2 # 3 # 4 # rest) = ''01020304''"
    by (simp add: packet_conn_id_def)
qed

lemma sample_server_facts:
  "server_reachable sample_cipher sample_server"
  "addr2Session sample_server 7 = Some 0" "nonce2Session sample_server ''01020304'' = Some 0"
  "length (heap sample_server) = 1"
proof -
  let ?s0 = "fst (StartServer True NewUDPServer) :: nat udp_server"
  let ?c = "ACreate [] (replicate 16 0) [1, 2, 3, 4] 0 ''d'' ''c'' :: nat server_action"
  let ?p = "[1, 0, 0, 0, 1, 2, 3, 4, 0, 0, 0, 0, 0, 0, 0, 1, 99] :: bytes"
  let ?s1 = "fst (CreateSession sample_cipher [] (replicate 16 0) [1, 2, 3, 4] 0 ''d'' ''c'' ?s0)"
  have 0: "server_reachable sample_cipher ?s0"
    by (rule reach_start [OF reach_new])
  have 1: "server_reachable sample_cipher ?s1"
    by (rule reach_step [OF 0, of ?c]) (simp_all add: action_valid_def server_step_def)
  have s1: "length (heap ?s1) = 1" "nonce2Session ?s1 ''01020304'' = Some 0"
    by (simp_all add: CreateSession_def sample_cipher_def StartServer_def NewUDPServer_def
        SetNonce2Session_def Let_def)
  have len: "16 \<le> length ?p" and known: "nonce2Session ?s1 (packet_conn_id ?p) = Some 0"
    using s1(2) by simp_all
  from processPacket_known [OF reachable_ok [OF 1] len known, where now = 1 and a = 7]
  obtain t r where t: "processPacket 1 7 ?p ?s1 = Some (t, r)" "addr2Session t 7 = Some 0"
      "nonce2Session t = nonce2Session ?s1" "length (heap t) = length (heap ?s1)" by blast
  then have "server_reachable sample_cipher t"
    using reach_step [OF 1, of "APacket 1 7 ?p"] by (simp add: action_valid_def server_step_def)
  moreover have "sample_server = t"
    unfolding sample_server_def Let_def t(1) by simp
  ultimately show "server_reachable sample_cipher sample_server"
    "addr2Session sample_server 7 = Some 0" "nonce2Session sample_server ''01020304'' = Some 0"
    "length (heap sample_server) = 1"
    using t s1 by simp_all
qed




text \<open>Fact: any datagram of at least 16 bytes whose bytes 4 to 7 are the connection id of an open session
  takes the session over, whatever else it holds and wherever it comes from: the session is bound to
  the sender's address and the next audio frame is sent there. A session the address was bound to
  before keeps it as its own remote address.
\<close>

theorem packet_takes_session_over:
  assumes "server_reachable NewCipher s" and "16 \<le> length packet"
    and "nonce2Session s (packet_conn_id packet) = Some i"
  shows "\<exists>t r. processPacket now a packet s = Some (t, r) \<and> addr2Session t a = Some i
    \<and> RemoteAddr (heap t ! i) = Some a
    \<and> (conn_open t \<longrightarrow> (\<exists>u p. sender_emit i audio (RemoteAddr (heap t ! i)) True t = Some (u, Some (a, p), 0)))
    \<and> (\<forall>j. j \<noteq> i \<longrightarrow> RemoteAddr (heap t ! j) = RemoteAddr (heap s ! j))"
proof -
  from processPacket_known [OF reachable_ok [OF assms(1)] assms(2,3), where now = now and a = a]
  obtain t r where t: "processPacket now a packet s = Some (t, r)" "addr2Session t a = Some i"
    "RemoteAddr (heap t ! i) = Some a" "\<And>j. j \<noteq> i \<Longrightarrow> heap t ! j = heap s ! j" by blast
  then show ?thesis by (auto simp: sender_emit_def split: prod.split)
qed

lemma packet_takes_session_over_witness:
  "\<exists>t r. processPacket 2 8 [9, 9, 9, 9, 1, 2, 3, 4, 9, 9, 9, 9, 9, 9, 9, 9] sample_server = Some (t, r)
     \<and> addr2Session t 8 = Some 0"
proof -
  let ?p = "[9, 9, 9, 9, 1, 2, 3, 4, 9, 9, 9, 9, 9, 9, 9, 9] :: bytes"
  have "16 \<le> length ?p" "nonce2Session sample_server (packet_conn_id ?p) = Some 0"
    by (simp_all add: sample_server_facts(3))
  from packet_takes_session_over [OF sample_server_facts(1) this, where now = 2 and a = 8] show ?thesis
    by blast
qed

text \<open>Fact: closing a session that still has audio to send makes its sending goroutine spin for ever: it
  takes the next frame off the closed channel, finds no address at once, and drains a channel that is
  always ready.
\<close>

theorem close_with_pending_audio_spins:
  assumes "server_reachable NewCipher s" and "i < length (heap s)"
    and "cbuf (SendChannel (heap s ! i)) = audio # rest"
    and "CloseSessionByRef (Some i) s = Some t"
  shows "\<exists>u. sender_recv i t = (u, Some audio)
    \<and> WaitRemoteAddr 2000 ((heap u ! i, expired) # polls) = Some None
    \<and> sender_emit i audio None ok u = None"
proof -
  let ?u = "heap t ! i"
  from CloseSessionByRef_facts [OF reachable_ok [OF assms(1)] assms(2)] assms(3,4)
  have t: "i < length (heap t)" "sclosed ?u" "RemoteAddr ?u = None"
    "cbuf (SendChannel ?u) = audio # rest" "cclosed (SendChannel ?u)"
    using assms(2) by auto
  let ?t = "modify i (\<lambda>u. u\<lparr>SendChannel := (SendChannel u)\<lparr>cbuf := rest\<rparr>\<rparr>) t"
  have "sender_recv i t = (?t, Some audio)"
    using t by (simp add: sender_recv_def chan_recv_def modify_def)
  moreover have "WaitRemoteAddr 2000 ((heap ?t ! i, expired) # polls) = Some None"
    using t by (simp add: IsClosed_def)
  moreover have "sender_emit i audio None ok ?t = None"
    using t by (simp add: sender_emit_def DrainPendingAudio_returns_iff_open)
  ultimately show ?thesis by blast
qed

lemma close_with_pending_audio_spins_witness:
  "\<exists>s t u. SendAudioData (heap sample_server ! 0) [5] = Some (s, Enqueued)
     \<and> CloseSessionByRef (Some 0) (modify 0 (\<lambda>_. s) sample_server) = Some t
     \<and> sender_recv 0 t = (u, Some [5]) \<and> sender_emit 0 [5] None True u = None"
proof -
  have ok: "session_ok (heap sample_server ! 0)"
    using server_okD(1) [OF reachable_ok [OF sample_server_facts(1)]] by (simp add: sample_server_facts(4))
  let ?u = "heap sample_server ! 0"
  have open0: "\<not> sclosed ?u"
    using reachable_facts(1) [OF sample_server_facts(1,2)] by blast
  have empty: "cbuf (SendChannel ?u) = []" "ccap (SendChannel ?u) = 100" "\<not> cclosed (SendChannel ?u)"
    by code_simp+
  let ?s = "?u\<lparr>SendChannel := (SendChannel ?u)\<lparr>cbuf := [[5]]\<rparr>\<rparr>"
  have send: "SendAudioData ?u [5] = Some (?s, Enqueued)"
    using open0 empty by (simp add: SendAudioData_def chan_send_def)
  let ?m = "modify 0 (\<lambda>_. ?s) sample_server"
  have reach: "server_reachable sample_cipher ?m"
    by (rule reach_step [OF sample_server_facts(1), of "ASendAudio 0 [5]"])
      (simp_all add: action_valid_def server_step_def send sample_server_facts(4))
  have len: "0 < length (heap ?m)" and pending: "cbuf (SendChannel (heap ?m ! 0)) = [[5]]"
    by (simp_all add: sample_server_facts(4))
  obtain t where t: "CloseSessionByRef (Some 0) ?m = Some t"
    using CloseSessionByRef_facts [OF reachable_ok [OF reach] len] by blast
  from close_with_pending_audio_spins [OF reach len pending t] send t show ?thesis by blast
qed

section \<open>What the transport relies on\<close>

text \<open>The contract of a session table for a client that keeps references to sessions: which are live,
  what creating and closing one does. The client's part is an ownership map from its own objects to
  references.\<close>

locale session_service =
  fixes good :: "'s \<Rightarrow> bool"
    and known :: "'s \<Rightarrow> nat \<Rightarrow> bool"
    and live :: "'s \<Rightarrow> nat \<Rightarrow> bool"
    and create :: "'s \<Rightarrow> 's \<times> nat option"
    and close_ref :: "nat option \<Rightarrow> 's \<Rightarrow> 's option"
  assumes live_known: "live s r \<Longrightarrow> known s r"
    and create_new: "good s \<Longrightarrow> create s = (s', Some r) \<Longrightarrow>
      good s' \<and> \<not> known s r \<and> (\<forall>q. known s' q \<longleftrightarrow> q = r \<or> known s q)
      \<and> (\<forall>q. live s' q \<longleftrightarrow> q = r \<or> live s q)"
    and create_fails: "create s = (s', None) \<Longrightarrow> s' = s"
    and close_none: "close_ref None s = Some s"
    and close_known: "good s \<Longrightarrow> known s r \<Longrightarrow>
      \<exists>s'. close_ref (Some r) s = Some s' \<and> good s' \<and> (\<forall>q. known s' q \<longleftrightarrow> known s q)
        \<and> (\<forall>q. live s' q \<longleftrightarrow> q \<noteq> r \<and> live s q)"
begin

definition owned :: "(nat \<rightharpoonup> nat) \<Rightarrow> 's \<Rightarrow> bool" where
  \<comment> \<open>every live session has exactly one owner, and owners own live sessions\<close>
  "owned m s \<longleftrightarrow> good s \<and> (\<forall>r. live s r \<longleftrightarrow> (\<exists>k. m k = Some r))
     \<and> (\<forall>j k r. m j = Some r \<longrightarrow> m k = Some r \<longrightarrow> j = k)"

lemma ownedD:
  assumes "owned m s"
  shows "good s" and "m k = Some r \<Longrightarrow> live s r" and "live s r \<Longrightarrow> \<exists>k. m k = Some r"
    and "m j = Some r \<Longrightarrow> m k = Some r \<Longrightarrow> j = k"
  using assms unfolding owned_def by blast+

lemma ownedI:
  assumes "good s" and "\<And>k r. m k = Some r \<Longrightarrow> live s r" and "\<And>r. live s r \<Longrightarrow> \<exists>k. m k = Some r"
    and "\<And>j k r. m j = Some r \<Longrightarrow> m k = Some r \<Longrightarrow> j = k"
  shows "owned m s"
  unfolding owned_def using assms by blast

lemma owned_create:
  assumes "owned m s" and "m k = None" and "create s = (s', Some r)"
  shows "owned (m(k \<mapsto> r)) s'"
proof -
  note old = ownedD [OF assms(1)]
  from create_new [OF old(1) assms(3)] have new: "good s'" "\<not> known s r" "\<And>q. live s' q \<longleftrightarrow> q = r \<or> live s q"
    by auto
  have unowned: "m j \<noteq> Some r" for j using old(2) live_known new(2) by blast
  show ?thesis
  proof (rule ownedI)
    show "(m(k \<mapsto> r)) j = Some q \<Longrightarrow> live s' q" for j q
      using new(3) old(2) by (auto split: if_splits)
    show "\<exists>j. (m(k \<mapsto> r)) j = Some q" if "live s' q" for q
    proof (cases "q = r")
      case False
      with that new(3) old(3) obtain j where "m j = Some q" by blast
      with assms(2) show ?thesis by (intro exI [of _ j]) auto
    qed (auto intro: exI [of _ k])
    show "(m(k \<mapsto> r)) i = Some q \<Longrightarrow> (m(k \<mapsto> r)) j = Some q \<Longrightarrow> i = j" for i j q
      using unowned old(4) [of i q j] by (auto split: if_splits)
  qed (rule new(1))
qed

lemma owned_close:
  assumes "owned m s" and "m k = Some r"
  shows "\<exists>s'. close_ref (Some r) s = Some s' \<and> owned (m(k := None)) s'"
proof -
  note old = ownedD [OF assms(1)]
  have "known s r" using old(2) [OF assms(2)] live_known by blast
  with close_known [OF old(1)] obtain s' where s': "close_ref (Some r) s = Some s'" "good s'"
      "\<And>q. live s' q \<longleftrightarrow> q \<noteq> r \<and> live s q"
    by blast
  have "owned (m(k := None)) s'"
  proof (rule ownedI)
    show "(m(k := None)) j = Some q \<Longrightarrow> live s' q" for j q
      using s'(3) old(2,4) assms(2) by (auto split: if_splits)
    show "\<exists>j. (m(k := None)) j = Some q" if "live s' q" for q
    proof -
      from that s'(3) old(3) obtain j where "q \<noteq> r" "m j = Some q" by blast
      with assms(2) show ?thesis by (intro exI [of _ j]) auto
    qed
    show "(m(k := None)) i = Some q \<Longrightarrow> (m(k := None)) j = Some q \<Longrightarrow> i = j" for i j q
      using old(4) [of i q j] by (auto split: if_splits)
  qed (rule s'(2))
  with s'(1) show ?thesis by blast
qed

text \<open>A new session takes the place of an owner's old one, which is closed afterwards.\<close>

lemma owned_replace:
  assumes "owned m s" and "m k = Some r" and "create s = (s1, Some q)"
  shows "\<exists>s2. close_ref (Some r) s1 = Some s2 \<and> owned (m(k \<mapsto> q)) s2"
proof -
  note old = ownedD [OF assms(1)]
  have "known s r" using old(2) [OF assms(2)] live_known by blast
  with create_new [OF old(1) assms(3)] have new: "good s1" "\<not> known s q" "known s1 r"
      "\<And>p. live s1 p \<longleftrightarrow> p = q \<or> live s p"
    by auto
  from close_known [OF new(1,3)] obtain s2 where s2: "close_ref (Some r) s1 = Some s2" "good s2"
      "\<And>p. live s2 p \<longleftrightarrow> p \<noteq> r \<and> live s1 p"
    by blast
  have unowned: "m j \<noteq> Some q" for j using old(2) live_known new(2) by blast
  with assms(2) have "q \<noteq> r" by blast
  have "owned (m(k \<mapsto> q)) s2"
  proof (rule ownedI)
    show "(m(k \<mapsto> q)) j = Some p \<Longrightarrow> live s2 p" for j p
      using s2(3) new(4) old(2,4) assms(2) \<open>q \<noteq> r\<close> by (auto split: if_splits)
    show "\<exists>j. (m(k \<mapsto> q)) j = Some p" if "live s2 p" for p
    proof (cases "p = q")
      case False
      with that s2(3) new(4) old(3) obtain j where "p \<noteq> r" "m j = Some p" by blast
      with assms(2) show ?thesis by (intro exI [of _ j]) auto
    qed (auto intro: exI [of _ k])
    show "(m(k \<mapsto> q)) i = Some p \<Longrightarrow> (m(k \<mapsto> q)) j = Some p \<Longrightarrow> i = j" for i j p
      using unowned old(4) [of i p j] by (auto split: if_splits)
  qed (rule s2(2))
  with s2(1) show ?thesis by blast
qed

end

definition session_live :: "'a udp_server \<Rightarrow> nat \<Rightarrow> bool" where
  "session_live s i \<longleftrightarrow> i < length (heap s) \<and> \<not> sclosed (heap s ! i)"

definition session_known :: "'a udp_server \<Rightarrow> nat \<Rightarrow> bool" where
  "session_known s i \<longleftrightarrow> i < length (heap s)"

text \<open>The inputs of one creation: session id, key, connection id, clock, device and client.\<close>

type_synonym creation = "bytes \<times> bytes \<times> bytes \<times> int \<times> string \<times> string"

definition create_with ::
  "(bytes \<Rightarrow> (bytes \<Rightarrow> bytes) option) \<Rightarrow> creation \<Rightarrow> 'a udp_server \<Rightarrow> 'a udp_server \<times> nat option" where
  "create_with NewCipher k s =
     (case k of (rid, key, connID, now, d, c) \<Rightarrow>
        if length connID = 4 then CreateSession NewCipher rid key connID now d c s else (s, None))"

interpretation udp: session_service server_ok session_known session_live "create_with NewCipher k" CloseSessionByRef
  for NewCipher k
proof unfold_locales
  fix s s' :: "'a udp_server" and r
  obtain rid key connID now d c where k: "k = (rid, key, connID, now, d, c)" by (cases k)
  show "session_live s r \<Longrightarrow> session_known s r"
    by (simp add: session_live_def session_known_def)
  show "CloseSessionByRef None s = Some s" by (simp add: CloseSessionByRef_def)
  show "create_with NewCipher k s = (s', None) \<Longrightarrow> s' = s"
    by (auto simp: create_with_def k CreateSession_def Let_def split: if_splits option.splits)
  show "server_ok s' \<and> \<not> session_known s r \<and> (\<forall>q. session_known s' q \<longleftrightarrow> q = r \<or> session_known s q)
      \<and> (\<forall>q. session_live s' q \<longleftrightarrow> q = r \<or> session_live s q)"
    if ok: "server_ok s" and "create_with NewCipher k s = (s', Some r)"
  proof -
    from that have c: "CreateSession NewCipher rid key connID now d c s = (s', Some r)" "length connID = 4"
      by (simp_all add: create_with_def k split: if_splits)
    note facts = CreateSession_facts [OF c(1)]
    show ?thesis
      using facts CreateSession_ok [OF ok c] by (auto simp: session_known_def session_live_def less_Suc_eq)
  qed
  show "\<exists>s'. CloseSessionByRef (Some r) s = Some s' \<and> server_ok s'
      \<and> (\<forall>q. session_known s' q \<longleftrightarrow> session_known s q)
      \<and> (\<forall>q. session_live s' q \<longleftrightarrow> q \<noteq> r \<and> session_live s q)"
    if ok: "server_ok s" and "session_known s r"
  proof -
    from that have r: "r < length (heap s)" by (simp add: session_known_def)
    from CloseSessionByRef_facts [OF ok r] obtain t where t: "CloseSessionByRef (Some r) s = Some t"
        "server_ok t" "length (heap t) = length (heap s)" "\<And>j. j \<noteq> r \<Longrightarrow> heap t ! j = heap s ! j"
        "sclosed (heap t ! r)" by blast
    have "session_live t q \<longleftrightarrow> q \<noteq> r \<and> session_live s q" for q
      using t(3,4,5) by (cases "q = r") (simp_all add: session_live_def)
    with t(1,2,3) show ?thesis by (simp add: session_known_def)
  qed
qed

section \<open>The data plane leaves the sessions alive\<close>

definition data_plane :: "'a server_action \<Rightarrow> bool" where
  \<comment> \<open>the steps that neither create nor close a session\<close>
  "data_plane act \<longleftrightarrow>
     (case act of ACreate _ _ _ _ _ _ \<Rightarrow> False | ACloseConn _ \<Rightarrow> False | ACloseRef _ \<Rightarrow> False | _ \<Rightarrow> True)"

lemma modify_live:
  "sclosed (f (heap s ! i)) = sclosed (heap s ! i) \<Longrightarrow> session_live (modify i f s) = session_live s"
proof (cases "i < length (heap s)")
  case False
  then show ?thesis by (simp add: modify_def list_update_beyond session_live_def fun_eq_iff)
qed (auto simp: session_live_def fun_eq_iff)

lemma addr_live [simp]:
  "session_live (s\<lparr>addr2Session := m\<rparr>) = session_live s" "session_live (s\<lparr>nonce2Session := n\<rparr>) = session_live s"
  "session_live (s\<lparr>conn_open := b\<rparr>) = session_live s"
  by (simp_all add: session_live_def fun_eq_iff)

lemma processPacket_live:
  assumes "server_ok s" and "processPacket now a packet s = Some (t, r)"
  shows "session_live t = session_live s"
proof (cases "16 \<le> length packet \<and> nonce2Session s (packet_conn_id packet) \<noteq> None")
  case True
  then obtain i where i: "16 \<le> length packet" "nonce2Session s (packet_conn_id packet) = Some i" by blast
  from processPacket_known [OF assms(1) i, where now = now and a = a] assms(2)
  have t: "server_ok t" "length (heap t) = length (heap s)" "nonce2Session t = nonce2Session s"
    "\<And>j. j \<noteq> i \<Longrightarrow> heap t ! j = heap s ! j" by auto
  then have "\<not> sclosed (heap t ! i)" "\<not> sclosed (heap s ! i)"
    using server_okD(2) [OF t(1), of _ i] server_okD(2) [OF assms(1), of _ i] i(2) by auto
  with t(2,4) show ?thesis
    by (intro ext) (metis session_live_def)
next
  case False
  from processPacket_other [OF this, where now = now and a = a] assms(2) show ?thesis by auto
qed

lemma data_plane_live:
  assumes "server_ok s" and "action_valid s act" and "data_plane act"
    and "server_step NewCipher act s = Some t"
  shows "session_live t = session_live s"
proof (cases act)
  case (APacket now a packet)
  with assms(4) processPacket_live [OF assms(1)] show ?thesis by (auto simp: server_step_def)
next
  case (AClear c)
  with assms(4) show ?thesis
    by (auto simp: server_step_def ClearSessionAddrBinding_def clearSessionAddrBindings_def modify_live
        addr_live split: option.splits)
next
  case (ATick now)
  with assms(4) show ?thesis
    by (auto simp: server_step_def cleanup_tick_def session_live_def fun_eq_iff)
next
  case (ASendAudio i audio)
  with assms(2) have "session_ok (heap s ! i)"
    using server_okD(1) [OF assms(1)] by (simp add: action_valid_def)
  from SendAudioData_ok [OF this, of audio] ASendAudio assms(4) show ?thesis
    by (auto simp: server_step_def intro: modify_live)
next
  case (ASenderRecv i)
  with assms(4) show ?thesis
    by (auto simp: server_step_def sender_recv_def modify_live split: received.splits)
next
  case (ASenderEmit i audio addr ok)
  with assms(2) have s: "session_ok (heap s ! i)"
    using server_okD(1) [OF assms(1)] by (simp add: action_valid_def)
  obtain u p where e: "Encrypt (heap s ! i) audio = (u, p)" by fastforce
  with Encrypt_ok [OF s e] ASenderEmit assms(4) show ?thesis
    by (auto simp: server_step_def sender_emit_def modify_live split: option.splits prod.splits)
qed (use assms(3) in \<open>simp_all add: data_plane_def\<close>)

end
