(* ===== verification/Mqtt_Udp_Conn.thy ===== *)
theory Mqtt_Udp_Conn
  imports Udp_Server "HOL-Library.Monad_Syntax"
begin

text \<open>
  \<^verbatim>\<open>internal/app/server/mqtt_udp/mqtt_udp_conn.go\<close>: the connection of one device over MQTT and UDP.
  Times are nanoseconds, \<open>unix\<close> is \<^verbatim>\<open>Unix()\<close>. The MQTT client, which is third-party, is a handle and
  the outcome of publishing an argument. A connection refers to its UDP session by its position in the
  UDP server's heap. What concerns the adapter's maps too (\<^verbatim>\<open>ReleaseUdpSession\<close>, \<^verbatim>\<open>Destroy\<close>) is in
  \<open>Mqtt_Udp_Adapter\<close>.
\<close>

definition unix :: "int \<Rightarrow> int" where "unix ns = ns div 10 ^ 9"
definition unix_milli :: "int \<Rightarrow> int" where "unix_milli ns = ns div 10 ^ 6"

definition MaxIdleDuration :: int where "MaxIdleDuration = 300"

datatype close_cb = HandleDisconnect | OtherClose nat

record mqtt_conn =
  conn_device :: string
  PubTopic :: string
  MqttClient :: "nat option"
  UdpSession :: "nat option"
  recvCmdChan :: "bytes chan"
  conn_data :: "string \<rightharpoonup> string"
  onCloseCbList :: "close_cb list"
  lastActiveTs :: int
  retainedUntilTs :: int
  conn_online :: bool
  cancelled :: bool

definition NewMqttUdpConn :: "int \<Rightarrow> string \<Rightarrow> string \<Rightarrow> nat option \<Rightarrow> nat option \<Rightarrow> mqtt_conn" where
  "NewMqttUdpConn now d pubTopic client udpSession =
     \<lparr>conn_device = d, PubTopic = pubTopic, MqttClient = client, UdpSession = udpSession,
      recvCmdChan = make_chan 100, conn_data = Map.empty, onCloseCbList = [],
      lastActiveTs = unix now, retainedUntilTs = 0, conn_online = False, cancelled = False\<rparr>"

definition OnCloseConn :: "close_cb \<Rightarrow> mqtt_conn \<Rightarrow> mqtt_conn" where
  "OnCloseConn cb c = c\<lparr>onCloseCbList := onCloseCbList c @ [cb]\<rparr>"

definition SetData :: "string \<Rightarrow> string \<Rightarrow> mqtt_conn \<Rightarrow> mqtt_conn" where
  "SetData key v c = c\<lparr>conn_data := (conn_data c)(key \<mapsto> v)\<rparr>"

definition GetData :: "string \<Rightarrow> mqtt_conn \<Rightarrow> string option" where
  "GetData key c = conn_data c key"

definition SetMqttClient :: "nat \<Rightarrow> mqtt_conn \<Rightarrow> mqtt_conn" where
  "SetMqttClient client c = c\<lparr>MqttClient := Some client\<rparr>"

definition SetUdpSession :: "nat \<Rightarrow> mqtt_conn \<Rightarrow> mqtt_conn" where
  "SetUdpSession i c = c\<lparr>UdpSession := Some i\<rparr>"

section \<open>Being active\<close>

definition conn_active :: "int \<Rightarrow> mqtt_conn \<Rightarrow> bool" where
  "conn_active now c =
     (if conn_online c then True
      else if retainedUntilTs c > unix now then True
      else unix now - lastActiveTs c < MaxIdleDuration)"

definition MarkBrokerOnline :: "int \<Rightarrow> mqtt_conn \<Rightarrow> mqtt_conn" where
  "MarkBrokerOnline now c = c\<lparr>conn_online := True, retainedUntilTs := 0, lastActiveTs := unix now\<rparr>"

definition MarkBrokerOffline :: "int \<Rightarrow> int \<Rightarrow> mqtt_conn \<Rightarrow> mqtt_conn" where
  "MarkBrokerOffline now grace c = c\<lparr>conn_online := False, retainedUntilTs := unix (now + grace)\<rparr>"

section \<open>Commands and audio\<close>

definition SendCmd :: "int \<Rightarrow> bool \<Rightarrow> mqtt_conn \<Rightarrow> mqtt_conn \<times> bool" where
  \<comment> \<open>whether publishing succeeds is an argument; \<open>False\<close> is an error\<close>
  "SendCmd now published c =
     (let c = c\<lparr>lastActiveTs := unix now\<rparr>
      in case MqttClient c of None \<Rightarrow> (c, False) | Some _ \<Rightarrow> (c, published))"

definition PushMsgToRecvCmd :: "int \<Rightarrow> bytes \<Rightarrow> mqtt_conn \<Rightarrow> (mqtt_conn \<times> bool) option" where
  "PushMsgToRecvCmd now msg c =
     (case chan_send (recvCmdChan c) msg of
        Sent q \<Rightarrow> Some (c\<lparr>recvCmdChan := q, lastActiveTs := unix now\<rparr>, True)
      | SendBlocks \<Rightarrow> Some (c, False)
      | SendPanics \<Rightarrow> None)"

text \<open>A \<^verbatim>\<open>select\<close> between the context, a channel and a timer: which case is taken is an argument;
  \<open>None\<close> if that case is not ready.\<close>

datatype ready = CtxDone | FromChan | Timeout
datatype recv_result = RecvMsg bytes | RecvNothing | RecvError

definition RecvCmd :: "ready \<Rightarrow> mqtt_conn \<Rightarrow> (mqtt_conn \<times> recv_result) option" where
  "RecvCmd r c =
     (case r of
        CtxDone \<Rightarrow> Some (c, RecvError)
      | Timeout \<Rightarrow> Some (c, RecvNothing)
      | FromChan \<Rightarrow>
          (case chan_recv (recvCmdChan c) of
             Got msg q \<Rightarrow> Some (c\<lparr>recvCmdChan := q\<rparr>, RecvMsg msg)
           | GotZero \<Rightarrow> Some (c, RecvMsg [])
           | RecvBlocks \<Rightarrow> None))"

datatype audio_result = AudioOk | AudioFull

definition SendAudio :: "bytes \<Rightarrow> mqtt_conn \<Rightarrow> 'a udp_server \<Rightarrow> ('a udp_server \<times> audio_result) option" where
  "SendAudio audio c s =
     (case UdpSession c of
        None \<Rightarrow> Some (s, AudioOk)
      | Some i \<Rightarrow>
          (case SendAudioData (heap s ! i) audio of
             None \<Rightarrow> None
           | Some (u, ChannelFull) \<Rightarrow> Some (modify i (\<lambda>_. u) s, AudioFull)
           | Some (u, Enqueued) \<Rightarrow> Some (modify i (\<lambda>_. u) s, AudioOk)
           | Some (u, SessionClosed) \<Rightarrow> Some (modify i (\<lambda>_. u) s, if IsClosed u then AudioOk else AudioFull)))"

definition wait_duration :: "int \<Rightarrow> int" where
  \<comment> \<open>seconds waited for without a session, the timeout if it is shorter than one second\<close>
  "wait_duration timeout = (if timeout > 0 \<and> timeout < 1 then timeout else 1)"

definition RecvAudio ::
  "int \<Rightarrow> ready \<Rightarrow> mqtt_conn \<Rightarrow> 'a udp_server \<Rightarrow> ('a udp_server \<times> mqtt_conn \<times> recv_result) option" where
  "RecvAudio now r c s =
     (case UdpSession c of
        None \<Rightarrow> (case r of CtxDone \<Rightarrow> Some (s, c, RecvError) | Timeout \<Rightarrow> Some (s, c, RecvNothing) | FromChan \<Rightarrow> None)
      | Some i \<Rightarrow>
          (case r of
             CtxDone \<Rightarrow> Some (s, c, RecvError)
           | Timeout \<Rightarrow> Some (s, c, RecvNothing)
           | FromChan \<Rightarrow>
               (case chan_recv (RecvChannel (heap s ! i)) of
                  Got audio q \<Rightarrow> Some (modify i (\<lambda>u. u\<lparr>RecvChannel := q\<rparr>) s,
                                     c\<lparr>lastActiveTs := unix now\<rparr>, RecvMsg audio)
                | GotZero \<Rightarrow> Some (s, c, RecvNothing)
                | RecvBlocks \<Rightarrow> None)))"

section \<open>How long a connection stays active\<close>

text \<open>Fact: once the broker reports a device offline its connection is active until both the grace
  period, in whole seconds, and five minutes since its last activity are over. A shorter grace period
  changes nothing: a new connection, offline at once with 20 milliseconds of grace, is still active
  after 35 milliseconds, and for 300 seconds.\<close>

theorem offline_conn_active_until:
  "(conn_active now (MarkBrokerOffline at grace c) \<longleftrightarrow>
      unix now < max (unix (at + grace)) (lastActiveTs c + MaxIdleDuration))
   \<and> conn_active (35 * 10 ^ 6) (MarkBrokerOffline 0 (20 * 10 ^ 6) (NewMqttUdpConn 0 d t cl u))
   \<and> \<not> conn_active (300 * 10 ^ 9) (MarkBrokerOffline 0 (20 * 10 ^ 6) (NewMqttUdpConn 0 d t cl u))"
  by (simp add: conn_active_def MarkBrokerOffline_def NewMqttUdpConn_def unix_def MaxIdleDuration_def) auto

end
