(* ===== verification/Mqtt_Udp_Adapter.thy ===== *)
theory Mqtt_Udp_Adapter
  imports Mqtt_Udp_Conn
begin

text \<open>
  \<^verbatim>\<open>internal/app/server/mqtt_udp/mqtt_udp_adapter.go\<close>: the adapter that keeps, for every device, the
  broker's view of it (the lifecycle state), its connection and its UDP session. Every method is one
  step on the adapter's state, in the option monad (\<open>None\<close>: a panic). Connections are positions in a
  list that only grows. The callbacks to the application are recorded in \<open>trace\<close>; a new connection
  that the application cannot serve is closed inside the callback, as \<^verbatim>\<open>app.OnNewConnection\<close> does,
  which is an argument. So are the clock, random bytes and what JSON parsing yields. A connection's
  pointer to its UDP server is the adapter's current one: \<^verbatim>\<open>ReloadUdpServer\<close> releases all sessions
  before it replaces the server.
\<close>

section \<open>Strings\<close>

definition ReplaceAll :: "char \<Rightarrow> char \<Rightarrow> string \<Rightarrow> string" where
  "ReplaceAll a b s = map (\<lambda>c. if c = a then b else c) s"

fun split_from :: "string \<Rightarrow> string \<Rightarrow> string \<Rightarrow> string list" where
  "split_from sep acc [] = [rev acc]"
| "split_from sep acc (c # cs) =
     (if prefix sep (c # cs) then rev acc # split_from sep [] (drop (length sep - 1) cs)
      else split_from sep (c # acc) cs)"

definition Split :: "string \<Rightarrow> string \<Rightarrow> string list" where
  \<comment> \<open>\<^verbatim>\<open>strings.Split\<close> for a non-empty separator\<close>
  "Split s sep = split_from sep [] s"

definition go_string :: "gostr \<Rightarrow> string" where
  "go_string s = map (\<lambda>b. char_of b) (utf8 s)"

section \<open>State\<close>

record lifecycle =
  brokerOnline :: bool
  lastEventTs :: int
  cleanupTimer :: "64 word option"
  cleanupVersion :: "64 word"

datatype notice = DeviceOnline string | DeviceOffline string | TransportReady string
  | NewConnection nat | OtherClosed nat string

record mqtt_message =
  Topic :: string
  Payload :: bytes

record 'a adapter =
  mclient :: "nat option"
  udpServer :: "'a udp_server option"
  conns :: "mqtt_conn list"
  deviceId2Conn :: "string \<rightharpoonup> nat"
  lifecycleStates :: "string \<rightharpoonup> lifecycle"
  msgChan :: "mqtt_message chan"
  offlineGracePeriod :: int
  stopped :: bool
  trace :: "notice list"

definition defaultOfflineGracePeriod :: int where
  "defaultOfflineGracePeriod = 2 * 60 * 10 ^ 9"

definition NewMqttUdpAdapter :: "'a udp_server option \<Rightarrow> int option \<Rightarrow> 'a adapter" where
  \<comment> \<open>the options \<^verbatim>\<open>WithUdpServer\<close> and \<^verbatim>\<open>WithOfflineGracePeriod\<close>; the callbacks are set\<close>
  "NewMqttUdpAdapter server grace =
     \<lparr>mclient = None, udpServer = server, conns = [], deviceId2Conn = Map.empty,
      lifecycleStates = Map.empty, msgChan = make_chan 10000,
      offlineGracePeriod = (case grace of None \<Rightarrow> defaultOfflineGracePeriod | Some g \<Rightarrow> g),
      stopped = False, trace = []\<rparr>"

definition notify :: "notice \<Rightarrow> 'a adapter \<Rightarrow> 'a adapter" where
  "notify n s = s\<lparr>trace := trace s @ [n]\<rparr>"

definition upd_conn :: "nat \<Rightarrow> (mqtt_conn \<Rightarrow> mqtt_conn) \<Rightarrow> 'a adapter \<Rightarrow> 'a adapter" where
  "upd_conn c f s = s\<lparr>conns := (conns s)[c := f (conns s ! c)]\<rparr>"

definition getDeviceSession :: "'a adapter \<Rightarrow> string \<Rightarrow> nat option" where
  "getDeviceSession s d = deviceId2Conn s d"

definition SetDeviceSession :: "string \<Rightarrow> nat \<Rightarrow> 'a adapter \<Rightarrow> 'a adapter" where
  "SetDeviceSession d c s = s\<lparr>deviceId2Conn := (deviceId2Conn s)(d \<mapsto> c)\<rparr>"

section \<open>Lifecycle events\<close>

definition fresh_state :: lifecycle where
  "fresh_state = \<lparr>brokerOnline = False, lastEventTs = 0, cleanupTimer = None, cleanupVersion = 0\<rparr>"

definition getLifecycleState :: "'a adapter \<Rightarrow> string \<Rightarrow> lifecycle option" where
  "getLifecycleState s d = (if d = [] then None else lifecycleStates s d)"

definition set_state :: "string \<Rightarrow> lifecycle \<Rightarrow> 'a adapter \<Rightarrow> 'a adapter" where
  "set_state d st s = s\<lparr>lifecycleStates := (lifecycleStates s)(d \<mapsto> st)\<rparr>"

definition getOrCreateLifecycleState :: "string \<Rightarrow> 'a adapter \<Rightarrow> ('a adapter \<times> lifecycle) option" where
  "getOrCreateLifecycleState d s =
     (if d = [] then None
      else (case getLifecycleState s d of
              Some st \<Rightarrow> Some (s, st)
            | None \<Rightarrow> Some (set_state d fresh_state s, fresh_state)))"

definition event_time :: "int \<Rightarrow> int \<Rightarrow> int" where
  "event_time now ts = (if ts \<le> 0 then unix_milli now else ts)"

definition is_stale :: "int \<Rightarrow> lifecycle \<Rightarrow> bool" where
  "is_stale ts st \<longleftrightarrow> lastEventTs st > 0 \<and> ts < lastEventTs st"

definition mark_online :: "int \<Rightarrow> lifecycle \<Rightarrow> lifecycle \<times> bool" where
  \<comment> \<open>the locked part of \<^verbatim>\<open>markDeviceOnline\<close>\<close>
  "mark_online ts st =
     (if is_stale ts st then (st, False)
      else (\<lparr>brokerOnline = True, lastEventTs = max (lastEventTs st) ts, cleanupTimer = None,
             cleanupVersion = cleanupVersion st + 1\<rparr>, \<not> brokerOnline st))"

definition mark_offline :: "int \<Rightarrow> lifecycle \<Rightarrow> lifecycle \<times> bool \<times> 64 word" where
  "mark_offline ts st =
     (if is_stale ts st then (st, False, 0)
      else (let version = cleanupVersion st + 1
            in (\<lparr>brokerOnline = False, lastEventTs = max (lastEventTs st) ts,
                 cleanupTimer = Some version, cleanupVersion = version\<rparr>, brokerOnline st, version)))"

definition markDeviceOnline :: "int \<Rightarrow> string \<Rightarrow> int \<Rightarrow> 'a adapter \<Rightarrow> 'a adapter \<times> bool" where
  "markDeviceOnline now d ts s =
     (case getOrCreateLifecycleState d s of
        None \<Rightarrow> (s, False)
      | Some (s, st) \<Rightarrow> (case mark_online (event_time now ts) st of (st, n) \<Rightarrow> (set_state d st s, n)))"

definition markDeviceOffline :: "int \<Rightarrow> string \<Rightarrow> int \<Rightarrow> 'a adapter \<Rightarrow> 'a adapter \<times> bool \<times> 64 word" where
  "markDeviceOffline now d ts s =
     (case getOrCreateLifecycleState d s of
        None \<Rightarrow> (s, False, 0)
      | Some (s, st) \<Rightarrow>
          (case mark_offline (event_time now ts) st of (st, n, v) \<Rightarrow> (set_state d st s, n, v)))"

section \<open>Releasing connections\<close>

definition ReleaseUdpSession :: "nat \<Rightarrow> 'a adapter \<Rightarrow> 'a adapter option" where
  "ReleaseUdpSession c s =
     (case UdpSession (conns s ! c) of
        None \<Rightarrow> Some s
      | Some i \<Rightarrow>
          (let s = upd_conn c (\<lambda>k. k\<lparr>UdpSession := None\<rparr>) s
           in case udpServer s of
                None \<Rightarrow> Some s
              | Some server \<Rightarrow> do {
                  server' \<leftarrow> CloseSessionByRef (Some i) server;
                  Some (s\<lparr>udpServer := Some server'\<rparr>)
                }))"

definition disconnect_state :: "string \<Rightarrow> 'a adapter \<Rightarrow> 'a adapter \<times> bool" where
  \<comment> \<open>the first part of \<^verbatim>\<open>handleDisconnect\<close>: the state is deleted unless a timer is pending\<close>
  "disconnect_state d s =
     (case getLifecycleState s d of
        None \<Rightarrow> (s, False)
      | Some st \<Rightarrow>
          (let (st, n) =
             (if brokerOnline st
              then (st\<lparr>brokerOnline := False, cleanupVersion := cleanupVersion st + 1,
                       cleanupTimer := None\<rparr>, True)
              else (st, False))
           in if \<not> brokerOnline st \<and> cleanupTimer st = None
              then (s\<lparr>lifecycleStates := (lifecycleStates s)(d := None)\<rparr>, n)
              else (set_state d st s, n)))"

definition handleDisconnect :: "string \<Rightarrow> 'a adapter \<Rightarrow> 'a adapter option" where
  "handleDisconnect d s =
     (let (s, notifyOffline) = disconnect_state d s; told = (if notifyOffline then notify (DeviceOffline d) else id)
      in case getDeviceSession s d of
           None \<Rightarrow> Some (told s)
         | Some c \<Rightarrow> do {
             s \<leftarrow> ReleaseUdpSession c s;
             Some (told (s\<lparr>deviceId2Conn := (deviceId2Conn s)(d := None)\<rparr>))
           })"

fun run_callbacks :: "string \<Rightarrow> close_cb list \<Rightarrow> 'a adapter \<Rightarrow> 'a adapter option" where
  "run_callbacks d [] s = Some s"
| "run_callbacks d (HandleDisconnect # cbs) s = do { s \<leftarrow> handleDisconnect d s; run_callbacks d cbs s }"
| "run_callbacks d (OtherClose k # cbs) s = run_callbacks d cbs (notify (OtherClosed k d) s)"

definition DestroyConn :: "nat \<Rightarrow> 'a adapter \<Rightarrow> 'a adapter option" where
  \<comment> \<open>\<^verbatim>\<open>MqttUdpConn.Destroy\<close>\<close>
  "DestroyConn c s =
     run_callbacks (conn_device (conns s ! c)) (onCloseCbList (conns s ! c))
       (upd_conn c (\<lambda>k. k\<lparr>conn_online := False, retainedUntilTs := 0, cancelled := True\<rparr>) s)"

definition cleanupOfflineTransport :: "string \<Rightarrow> 64 word \<Rightarrow> 'a adapter \<Rightarrow> 'a adapter option" where
  "cleanupOfflineTransport d version s =
     (case getLifecycleState s d of
        None \<Rightarrow> Some s
      | Some st \<Rightarrow>
          if brokerOnline st \<or> cleanupVersion st \<noteq> version then Some s
          else (let s = set_state d (st\<lparr>cleanupTimer := None\<rparr>) s
                in case getDeviceSession s d of
                     None \<Rightarrow> Some (s\<lparr>lifecycleStates := (lifecycleStates s)(d := None)\<rparr>)
                   | Some c \<Rightarrow> DestroyConn c s))"

section \<open>Transports\<close>

definition MDeviceLifecycleTopic :: string where
  "MDeviceLifecycleTopic = ''/p2p/device_public/_server/lifecycle''"
definition ServerPubTopicPrefix :: string where
  "ServerPubTopicPrefix = ''/p2p/device_sub/''"

definition createUdpSession ::
  "(bytes \<Rightarrow> (bytes \<Rightarrow> bytes) option) \<Rightarrow> creation \<Rightarrow> 'a adapter \<Rightarrow> ('a adapter \<times> nat) option" where
  \<comment> \<open>here \<open>None\<close> is an error, and then the state is unchanged\<close>
  "createUdpSession NewCipher k s =
     (case udpServer s of
        None \<Rightarrow> None
      | Some server \<Rightarrow>
          (case create_with NewCipher k server of
             (_, None) \<Rightarrow> None
           | (server', Some i) \<Rightarrow> Some (s\<lparr>udpServer := Some server'\<rparr>, i)))"

definition bindUdpSessionData :: "nat \<Rightarrow> nat \<Rightarrow> 'a adapter \<Rightarrow> 'a adapter" where
  "bindUdpSessionData c i s =
     (case udpServer s of
        None \<Rightarrow> s
      | Some server \<Rightarrow>
          (case GetAesKeyAndNonce (heap server ! i) of
             (strAesKey, strFullNonce) \<Rightarrow>
               upd_conn c (\<lambda>k. SetData ''full_nonce'' strFullNonce
                 (SetData ''aes_key'' strAesKey (SetUdpSession i k))) s))"

definition EnsureDeviceTransport ::
  "(bytes \<Rightarrow> (bytes \<Rightarrow> bytes) option) \<Rightarrow> int \<Rightarrow> creation \<Rightarrow> bool \<Rightarrow> string \<Rightarrow> 'a adapter
    \<Rightarrow> ('a adapter \<times> nat option) option" where
  \<comment> \<open>\<open>serves\<close>: whether the application serves the new connection; with the connection, if no error\<close>
  "EnsureDeviceTransport NewCipher now k serves d s =
     (case getDeviceSession s d of
        Some c \<Rightarrow> Some (upd_conn c (MarkBrokerOnline now) s, Some c)
      | None \<Rightarrow>
          (case createUdpSession NewCipher k s of
             None \<Rightarrow> Some (s, None)
           | Some (s1, i) \<Rightarrow>
               (case mclient s1 of
                  None \<Rightarrow> do {
                    server \<leftarrow> CloseSessionByRef (Some i) (the (udpServer s1));
                    Some (s1\<lparr>udpServer := Some server\<rparr>, None)
                  }
                | Some client \<Rightarrow>
                    (let publicTopic = ServerPubTopicPrefix @ ReplaceAll CHR '':'' CHR ''_'' d;
                         c = length (conns s1);
                         s2 = s1\<lparr>conns := conns s1 @ [NewMqttUdpConn now d publicTopic (Some client) (Some i)]\<rparr>;
                         s3 = upd_conn c (MarkBrokerOnline now) (bindUdpSessionData c i s2);
                         s4 = upd_conn c (OnCloseConn HandleDisconnect) (SetDeviceSession d c s3);
                         s5 = notify (NewConnection c) s4
                     in if serves then Some (upd_conn c (OnCloseConn (OtherClose c)) s5, Some c)
                        else do { s6 \<leftarrow> DestroyConn c s5; Some (s6, Some c) }))))"

definition promoteDeviceOnline ::
  "(bytes \<Rightarrow> (bytes \<Rightarrow> bytes) option) \<Rightarrow> int \<Rightarrow> creation \<Rightarrow> bool \<Rightarrow> string \<Rightarrow> int \<Rightarrow> 'a adapter
    \<Rightarrow> ('a adapter \<times> nat option \<times> bool) option" where
  "promoteDeviceOnline NewCipher now k serves d ts s =
     (case markDeviceOnline now d ts s of
        (s, notifyOnline) \<Rightarrow> do {
          (s, conn) \<leftarrow> EnsureDeviceTransport NewCipher now k serves d s;
          Some ((case conn of Some c \<Rightarrow> upd_conn c (MarkBrokerOnline now) s | None \<Rightarrow> s), conn, notifyOnline)
        })"

definition tell_online :: "bool \<Rightarrow> string \<Rightarrow> 'a adapter \<Rightarrow> 'a adapter" where
  "tell_online notifyOnline d s =
     (if notifyOnline then notify (TransportReady d) (notify (DeviceOnline d) s) else s)"

definition handleLifecycleMessage ::
  "(bytes \<Rightarrow> (bytes \<Rightarrow> bytes) option) \<Rightarrow> (bytes \<Rightarrow> (gostr \<times> gostr \<times> int) option) \<Rightarrow> int \<Rightarrow> creation \<Rightarrow> bool
    \<Rightarrow> bytes \<Rightarrow> 'a adapter \<Rightarrow> 'a adapter option" where
  \<comment> \<open>\<open>parse\<close> gives the fields \<^verbatim>\<open>device_id\<close>, \<^verbatim>\<open>state\<close> and \<^verbatim>\<open>ts\<close>, or an error\<close>
  "handleLifecycleMessage NewCipher parse now k serves payload s =
     (case parse payload of
        None \<Rightarrow> Some s
      | Some (dev, st, ts) \<Rightarrow>
          (let d = go_string (TrimSpace dev); st = go_string (TrimSpace st)
           in if d = [] then Some s
              else if st = ''online'' then do {
                (s, conn, notifyOnline) \<leftarrow> promoteDeviceOnline NewCipher now k serves d ts s;
                Some (case conn of None \<Rightarrow> s | Some _ \<Rightarrow> tell_online notifyOnline d s)
              }
              else if st = ''offline'' then
                (let s = (case getDeviceSession s d of
                            Some c \<Rightarrow> upd_conn c (MarkBrokerOffline now (offlineGracePeriod s)) s
                          | None \<Rightarrow> s)
                 in case markDeviceOffline now d ts s of
                      (s, notifyOffline, _) \<Rightarrow>
                        Some (if notifyOffline then notify (DeviceOffline d) s else s))
              else Some s))"

section \<open>Messages\<close>

definition getDeviceIdByTopic :: "string \<Rightarrow> string \<times> string" where
  "getDeviceIdByTopic topic =
     (let strList = Split topic ''/''
      in if length strList = 4 then
           (let topicMacAddr = strList ! 3
            in if sublist ''@@@'' topicMacAddr then
                 (let parts = Split topicMacAddr ''@@@''
                  in if length parts \<ge> 2 then (topicMacAddr, ReplaceAll CHR ''_'' CHR '':'' (parts ! 1))
                     else (topicMacAddr, []))
               else (topicMacAddr, ReplaceAll CHR ''_'' CHR '':'' topicMacAddr))
         else ([], []))"

definition rotateDeviceUdpSession ::
  "(bytes \<Rightarrow> (bytes \<Rightarrow> bytes) option) \<Rightarrow> creation \<Rightarrow> nat \<Rightarrow> 'a adapter \<Rightarrow> ('a adapter \<times> nat option) option" where
  "rotateDeviceUdpSession NewCipher k c s =
     (case createUdpSession NewCipher k s of
        None \<Rightarrow> Some (s, None)
      | Some (s1, i) \<Rightarrow>
          (let oldSession = UdpSession (conns s1 ! c); s2 = bindUdpSessionData c i s1
           in do {
             server \<leftarrow> CloseSessionByRef oldSession (the (udpServer s2));
             Some (s2\<lparr>udpServer := Some server\<rparr>, Some i)
           }))"

definition handleMessage :: "mqtt_message \<Rightarrow> 'a adapter \<Rightarrow> 'a adapter option" where
  "handleMessage msg s =
     (case chan_send (msgChan s) msg of
        Sent q \<Rightarrow> Some (s\<lparr>msgChan := q\<rparr>)
      | SendBlocks \<Rightarrow> Some s
      | SendPanics \<Rightarrow> None)"

definition process_one ::
  "(bytes \<Rightarrow> (bytes \<Rightarrow> bytes) option) \<Rightarrow> (bytes \<Rightarrow> (gostr \<times> gostr \<times> int) option) \<Rightarrow> (bytes \<Rightarrow> string option)
    \<Rightarrow> int \<Rightarrow> creation \<Rightarrow> creation \<Rightarrow> bool \<Rightarrow> mqtt_message \<Rightarrow> 'a adapter \<Rightarrow> 'a adapter option" where
  \<comment> \<open>the body of the loop of \<^verbatim>\<open>processMessage\<close>; \<open>parse_type\<close> gives the field \<^verbatim>\<open>type\<close>\<close>
  "process_one NewCipher parse parse_type now k1 k2 serves msg s =
     (if Topic msg = MDeviceLifecycleTopic
      then handleLifecycleMessage NewCipher parse now k1 serves (Payload msg) s
      else (case parse_type (Payload msg) of
              None \<Rightarrow> Some s
            | Some ty \<Rightarrow>
                (let d = snd (getDeviceIdByTopic (Topic msg))
                 in if d = [] then Some s
                    else (let existingSession = getDeviceSession s d
                          in do {
                            (s, conn, notifyOnline) \<leftarrow>
                              promoteDeviceOnline NewCipher now k1 serves d (unix_milli now) s;
                            case conn of
                              None \<Rightarrow> Some s
                            | Some c \<Rightarrow> do {
                                (s, ok) \<leftarrow>
                                  (let s = tell_online notifyOnline d s
                                   in if existingSession \<noteq> None \<and> ty = ''hello''
                                      then do {
                                        (s, r) \<leftarrow> rotateDeviceUdpSession NewCipher k2 c s;
                                        Some (s, r \<noteq> None)
                                      }
                                      else Some (s, True));
                                if ok then do {
                                  (k, _) \<leftarrow> PushMsgToRecvCmd now (Payload msg) (conns s ! c);
                                  Some (upd_conn c (\<lambda>_. k) s)
                                } else Some s
                              }
                          }))))"

definition processMessage ::
  "(bytes \<Rightarrow> (bytes \<Rightarrow> bytes) option) \<Rightarrow> (bytes \<Rightarrow> (gostr \<times> gostr \<times> int) option) \<Rightarrow> (bytes \<Rightarrow> string option)
    \<Rightarrow> int \<Rightarrow> creation \<Rightarrow> creation \<Rightarrow> bool \<Rightarrow> 'a adapter \<Rightarrow> 'a adapter option" where
  \<comment> \<open>one turn of the loop; without a message it waits\<close>
  "processMessage NewCipher parse parse_type now k1 k2 serves s =
     (if stopped s then Some s
      else (case chan_recv (msgChan s) of
              Got msg q \<Rightarrow> process_one NewCipher parse parse_type now k1 k2 serves msg (s\<lparr>msgChan := q\<rparr>)
            | _ \<Rightarrow> Some s))"

section \<open>Ticks, stopping and reloading\<close>

text \<open>The order in which \<^verbatim>\<open>sync.Map.Range\<close> visits the devices is an argument.\<close>

fun check_devices :: "int \<Rightarrow> string list \<Rightarrow> 'a adapter \<Rightarrow> 'a adapter option" where
  "check_devices now [] s = Some s"
| "check_devices now (d # ds) s =
     (case getDeviceSession s d of
        None \<Rightarrow> check_devices now ds s
      | Some c \<Rightarrow>
          if conn_active now (conns s ! c) then check_devices now ds s
          else do { s \<leftarrow> DestroyConn c s; check_devices now ds s })"

definition checkClientActive :: "int \<Rightarrow> string list \<Rightarrow> 'a adapter \<Rightarrow> 'a adapter option" where
  "checkClientActive now ds s = (if stopped s then Some s else check_devices now ds s)"

fun clearDeviceSessions :: "string list \<Rightarrow> 'a adapter \<Rightarrow> 'a adapter option" where
  "clearDeviceSessions [] s = Some s"
| "clearDeviceSessions (d # ds) s =
     (case getDeviceSession s d of
        None \<Rightarrow> clearDeviceSessions ds s
      | Some c \<Rightarrow> do {
          s \<leftarrow> DestroyConn c s;
          clearDeviceSessions ds (s\<lparr>deviceId2Conn := (deviceId2Conn s)(d := None)\<rparr>)
        })"

definition clearLifecycleStates :: "'a adapter \<Rightarrow> 'a adapter" where
  "clearLifecycleStates s = s\<lparr>lifecycleStates := Map.empty\<rparr>"

definition updateSessionsClient :: "nat \<Rightarrow> 'a adapter \<Rightarrow> 'a adapter" where
  "updateSessionsClient client s =
     s\<lparr>conns := map (\<lambda>k. if deviceId2Conn s (conn_device (conns s ! k)) = Some k
                          then SetMqttClient client (conns s ! k) else conns s ! k) [0..<length (conns s)]\<rparr>"

definition setClient :: "nat \<Rightarrow> 'a adapter \<Rightarrow> 'a adapter" where
  "setClient client s = updateSessionsClient client (s\<lparr>mclient := Some client\<rparr>)"

fun connectAndRetry :: "(nat \<times> bool) list \<Rightarrow> 'a adapter \<Rightarrow> 'a adapter \<times> bool" where
  \<comment> \<open>the clients tried, with whether they connected; \<open>True\<close> once connected\<close>
  "connectAndRetry [] s = (s, False)"
| "connectAndRetry ((client, connected) # attempts) s =
     (if stopped s then (s, False)
      else if connected then (setClient client s, True)
      else connectAndRetry attempts (setClient client s))"

definition StopAdapter :: "string list \<Rightarrow> 'a adapter \<Rightarrow> 'a adapter option" where
  "StopAdapter ds s =
     clearDeviceSessions ds
       (clearLifecycleStates (s\<lparr>stopped := True, udpServer := map_option CloseServer (udpServer s)\<rparr>))"

definition ReloadMqttClient :: "string list \<Rightarrow> 'a adapter \<Rightarrow> 'a adapter option" where
  "ReloadMqttClient ds s = clearDeviceSessions ds (clearLifecycleStates s)"

definition ReloadUdpServer :: "'a udp_server \<Rightarrow> string list \<Rightarrow> 'a adapter \<Rightarrow> 'a adapter option" where
  "ReloadUdpServer newUdpServer ds s =
     map_option (\<lambda>s. s\<lparr>udpServer := Some newUdpServer\<rparr>) (clearDeviceSessions ds (clearLifecycleStates s))"

section \<open>The invariant: every live UDP session belongs to the connection of one device\<close>

definition session_of :: "'a adapter \<Rightarrow> nat \<rightharpoonup> nat" where
  "session_of s c = (if c < length (conns s) then UdpSession (conns s ! c) else None)"

definition sessions_owned :: "'a udp_server option \<Rightarrow> (nat \<rightharpoonup> nat) \<Rightarrow> bool" where
  "sessions_owned server m = (case server of None \<Rightarrow> m = Map.empty | Some srv \<Rightarrow> udp.owned m srv)"

definition conns_registered :: "'a adapter \<Rightarrow> bool" where
  "conns_registered s \<longleftrightarrow>
     (\<forall>d c. deviceId2Conn s d = Some c \<longrightarrow> c < length (conns s) \<and> conn_device (conns s ! c) = d
        \<and> HandleDisconnect \<in> set (onCloseCbList (conns s ! c)))
     \<and> (\<forall>c < length (conns s). \<not> cclosed (recvCmdChan (conns s ! c)))"

definition adapter_ok :: "'a adapter \<Rightarrow> bool" where
  "adapter_ok s \<longleftrightarrow> sessions_owned (udpServer s) (session_of s) \<and> conns_registered s
     \<and> (\<forall>c i. session_of s c = Some i \<longrightarrow> deviceId2Conn s (conn_device (conns s ! c)) = Some c)
     \<and> \<not> cclosed (msgChan s)"

lemma adapter_okD:
  assumes "adapter_ok s"
  shows "sessions_owned (udpServer s) (session_of s)" and "conns_registered s"
    and "session_of s c = Some i \<Longrightarrow> deviceId2Conn s (conn_device (conns s ! c)) = Some c"
    and "deviceId2Conn s d = Some c \<Longrightarrow> c < length (conns s) \<and> conn_device (conns s ! c) = d
      \<and> HandleDisconnect \<in> set (onCloseCbList (conns s ! c))"
    and "c < length (conns s) \<Longrightarrow> \<not> cclosed (recvCmdChan (conns s ! c))"
    and "\<not> cclosed (msgChan s)"
  using assms unfolding adapter_ok_def conns_registered_def by blast+

lemma session_of_cong: "conns t = conns s \<Longrightarrow> session_of t = session_of s"
  by (simp add: session_of_def fun_eq_iff)

lemma adapter_ok_cong:
  "udpServer t = udpServer s \<Longrightarrow> conns t = conns s \<Longrightarrow> deviceId2Conn t = deviceId2Conn s \<Longrightarrow>
   msgChan t = msgChan s \<Longrightarrow> adapter_ok t = adapter_ok s"
  using session_of_cong [of t s] by (simp add: adapter_ok_def conns_registered_def)

lemma adapter_ok_simps [simp]:
  "adapter_ok (s\<lparr>mclient := m\<rparr>) = adapter_ok s"
  "adapter_ok (s\<lparr>lifecycleStates := l\<rparr>) = adapter_ok s"
  "adapter_ok (s\<lparr>stopped := b\<rparr>) = adapter_ok s"
  "adapter_ok (s\<lparr>trace := tr\<rparr>) = adapter_ok s"
  "adapter_ok (notify n s) = adapter_ok s"
  "adapter_ok (set_state d st s) = adapter_ok s"
  "adapter_ok (clearLifecycleStates s) = adapter_ok s"
  by (rule adapter_ok_cong; simp add: notify_def set_state_def clearLifecycleStates_def)+

lemma frame_simps [simp]:
  "deviceId2Conn (notify n s) = deviceId2Conn s" "conns (notify n s) = conns s"
  "udpServer (notify n s) = udpServer s" "mclient (notify n s) = mclient s"
  "deviceId2Conn (set_state d st s) = deviceId2Conn s" "conns (set_state d st s) = conns s"
  "udpServer (set_state d st s) = udpServer s" "mclient (set_state d st s) = mclient s"
  "deviceId2Conn (upd_conn c f s) = deviceId2Conn s" "udpServer (upd_conn c f s) = udpServer s"
  "mclient (upd_conn c f s) = mclient s" "length (conns (upd_conn c f s)) = length (conns s)"
  "lifecycleStates (upd_conn c f s) = lifecycleStates s" "lifecycleStates (notify n s) = lifecycleStates s"
  "msgChan (upd_conn c f s) = msgChan s" "trace (upd_conn c f s) = trace s"
  "trace (set_state d st s) = trace s" "trace (notify n s) = trace s @ [n]"
  by (simp_all add: notify_def set_state_def upd_conn_def)

lemma conns_upd_conn [simp]:
  "c < length (conns s) \<Longrightarrow> conns (upd_conn c f s) ! j = (if j = c then f (conns s ! c) else conns s ! j)"
  by (simp add: upd_conn_def nth_list_update)

lemma upd_conn_ok:
  assumes "adapter_ok s"
    and "c < length (conns s) \<Longrightarrow> conn_device (f (conns s ! c)) = conn_device (conns s ! c)
      \<and> UdpSession (f (conns s ! c)) = UdpSession (conns s ! c)
      \<and> set (onCloseCbList (conns s ! c)) \<subseteq> set (onCloseCbList (f (conns s ! c)))
      \<and> \<not> cclosed (recvCmdChan (f (conns s ! c)))"
  shows "adapter_ok (upd_conn c f s)"
proof (cases "c < length (conns s)")
  case True
  then have "session_of (upd_conn c f s) = session_of s"
    using assms(2) by (auto simp: session_of_def fun_eq_iff)
  with True show ?thesis
    using assms(1) assms(2) [OF True] by (auto simp: adapter_ok_def conns_registered_def)
next
  case False
  then have "upd_conn c f s = s" by (simp add: upd_conn_def list_update_beyond)
  with assms(1) show ?thesis by simp
qed

lemma mark_conn_ok [simp]:
  assumes "adapter_ok s"
  shows "adapter_ok (upd_conn c (MarkBrokerOnline now) s)"
    and "adapter_ok (upd_conn c (MarkBrokerOffline now g) s)"
    and "adapter_ok (upd_conn c (OnCloseConn cb) s)"
    and "adapter_ok (upd_conn c (\<lambda>k. k\<lparr>conn_online := False, retainedUntilTs := 0, cancelled := True\<rparr>) s)"
  using adapter_okD(5) [OF assms]
  by (auto intro!: upd_conn_ok [OF assms] simp: MarkBrokerOnline_def MarkBrokerOffline_def OnCloseConn_def)

section \<open>Closing keeps it\<close>

lemma session_of_release:
  "session_of (upd_conn c (\<lambda>k. k\<lparr>UdpSession := None\<rparr>) s) = (session_of s)(c := None)"
  by (cases "c < length (conns s)")
    (auto simp: session_of_def fun_eq_iff upd_conn_def list_update_beyond)

lemma ReleaseUdpSession_facts:
  assumes "adapter_ok s" and "c < length (conns s)"
  shows "\<exists>t. ReleaseUdpSession c s = Some t \<and> adapter_ok t \<and> session_of t = (session_of s)(c := None)
    \<and> deviceId2Conn t = deviceId2Conn s \<and> length (conns t) = length (conns s)
    \<and> (\<forall>k. conn_device (conns t ! k) = conn_device (conns s ! k)
         \<and> onCloseCbList (conns t ! k) = onCloseCbList (conns s ! k))
    \<and> lifecycleStates t = lifecycleStates s \<and> trace t = trace s \<and> stopped t = stopped s"
proof (cases "UdpSession (conns s ! c)")
  case None
  then have "ReleaseUdpSession c s = Some s" "(session_of s)(c := None) = session_of s"
    by (auto simp: ReleaseUdpSession_def session_of_def fun_eq_iff)
  with assms(1) show ?thesis by auto
next
  case (Some i)
  then have m: "session_of s c = Some i" using assms(2) by (simp add: session_of_def)
  obtain srv where srv: "udpServer s = Some srv" "udp.owned (session_of s) srv"
    using adapter_okD(1) [OF assms(1)] m by (cases "udpServer s") (auto simp: sessions_owned_def)
  from udp.owned_close [OF srv(2) m] obtain srv' where srv':
      "CloseSessionByRef (Some i) srv = Some srv'" "udp.owned ((session_of s)(c := None)) srv'" by blast
  let ?t = "(upd_conn c (\<lambda>k. k\<lparr>UdpSession := None\<rparr>) s)\<lparr>udpServer := Some srv'\<rparr>"
  have "ReleaseUdpSession c s = Some ?t"
    using Some srv(1) srv'(1) by (simp add: ReleaseUdpSession_def Let_def)
  moreover have own: "session_of ?t = (session_of s)(c := None)"
    using session_of_release [of c s] session_of_cong [of ?t "upd_conn c (\<lambda>k. k\<lparr>UdpSession := None\<rparr>) s"] by simp
  moreover have "adapter_ok ?t"
    unfolding adapter_ok_def own
    using assms srv' adapter_okD [OF assms(1)]
    by (auto simp: sessions_owned_def conns_registered_def split: if_splits)
  ultimately show ?thesis using assms(2) by (auto simp: upd_conn_def nth_list_update)
qed

lemma unmap_ok:
  assumes "adapter_ok s" and "\<And>c. deviceId2Conn s d = Some c \<Longrightarrow> session_of s c = None"
  shows "adapter_ok (s\<lparr>deviceId2Conn := (deviceId2Conn s)(d := None)\<rparr>)"
proof -
  let ?t = "s\<lparr>deviceId2Conn := (deviceId2Conn s)(d := None)\<rparr>"
  have "session_of ?t = session_of s" by (rule session_of_cong) simp
  moreover have "conn_device (conns s ! c) \<noteq> d" if "session_of s c = Some i" for c i
    using adapter_okD(3) [OF assms(1) that] assms(2) [of c] that by auto
  ultimately show ?thesis
    using assms adapter_okD [OF assms(1)]
    by (auto simp: adapter_ok_def conns_registered_def split: if_splits)
qed

lemma disconnect_state_frame:
  assumes "disconnect_state d s = (t, n)"
  shows "adapter_ok t = adapter_ok s" and "deviceId2Conn t = deviceId2Conn s" and "conns t = conns s"
    and "udpServer t = udpServer s" and "trace t = trace s" and "stopped t = stopped s"
  using assms
  by (auto simp: disconnect_state_def Let_def set_state_def split: option.splits if_splits)

lemma handleDisconnect_ok:
  assumes "adapter_ok s"
  shows "\<exists>t. handleDisconnect d s = Some t \<and> adapter_ok t \<and> deviceId2Conn t = (deviceId2Conn s)(d := None)
    \<and> length (conns t) = length (conns s)"
proof -
  obtain u n where u: "disconnect_state d s = (u, n)" by fastforce
  note frame = disconnect_state_frame [OF u]
  show ?thesis
  proof (cases "deviceId2Conn s d")
    case None
    with u frame assms show ?thesis
      by (auto simp: handleDisconnect_def getDeviceSession_def fun_upd_idem)
  next
    case (Some c)
    have ok: "adapter_ok u" using frame(1) assms by simp
    have c: "c < length (conns u)" using adapter_okD(4) [OF ok] Some frame(2) by metis
    from ReleaseUdpSession_facts [OF ok c] obtain t where t: "ReleaseUdpSession c u = Some t" "adapter_ok t"
        "session_of t = (session_of u)(c := None)" "deviceId2Conn t = deviceId2Conn u"
        "length (conns t) = length (conns u)" by blast
    have "adapter_ok (t\<lparr>deviceId2Conn := (deviceId2Conn t)(d := None)\<rparr>)"
      by (rule unmap_ok [OF t(2)]) (use t(3,4) frame(2) Some in simp)
    with t u frame Some show ?thesis
      by (auto simp: handleDisconnect_def getDeviceSession_def)
  qed
qed

lemma run_callbacks_ok:
  assumes "adapter_ok s"
  shows "\<exists>t. run_callbacks d cbs s = Some t \<and> adapter_ok t \<and> length (conns t) = length (conns s)
    \<and> deviceId2Conn t = (if HandleDisconnect \<in> set cbs then (deviceId2Conn s)(d := None) else deviceId2Conn s)"
  using assms
proof (induction d cbs s rule: run_callbacks.induct)
  case (2 d cbs s)
  from handleDisconnect_ok [OF "2.prems", of d] obtain u where u: "handleDisconnect d s = Some u" "adapter_ok u"
    "deviceId2Conn u = (deviceId2Conn s)(d := None)" "length (conns u) = length (conns s)" by blast
  from "2.IH" [OF u(1,2)] u show ?case by (auto simp: fun_upd_idem)
qed (simp_all cong: if_cong)

lemma DestroyConn_ok:
  assumes "adapter_ok s"
  shows "\<exists>t. DestroyConn c s = Some t \<and> adapter_ok t \<and> length (conns t) = length (conns s)
    \<and> deviceId2Conn t = (if HandleDisconnect \<in> set (onCloseCbList (conns s ! c))
         then (deviceId2Conn s)(conn_device (conns s ! c) := None) else deviceId2Conn s)"
  using run_callbacks_ok [OF mark_conn_ok(4) [OF assms, of c],
      of "conn_device (conns s ! c)" "onCloseCbList (conns s ! c)"]
  by (simp add: DestroyConn_def cong: if_cong)

lemma cleanupOfflineTransport_ok:
  assumes "adapter_ok s"
  shows "\<exists>t. cleanupOfflineTransport d v s = Some t \<and> adapter_ok t"
proof -
  have "\<exists>t. DestroyConn c (set_state d st s) = Some t \<and> adapter_ok t" for c st
    using DestroyConn_ok [of "set_state d st s" c] assms by auto
  with assms show ?thesis
    by (auto simp: cleanupOfflineTransport_def Let_def split: option.splits)
qed

lemma check_devices_ok:
  "adapter_ok s \<Longrightarrow> \<exists>t. check_devices now ds s = Some t \<and> adapter_ok t"
proof (induction ds arbitrary: s)
  case (Cons d ds)
  show ?case
  proof (cases "getDeviceSession s d")
    case (Some c)
    obtain u where "DestroyConn c s = Some u" "adapter_ok u"
      using DestroyConn_ok [OF Cons.prems] by blast
    with Cons Some show ?thesis by auto
  qed (use Cons in simp)
qed simp

lemma clearDeviceSessions_ok:
  "adapter_ok s \<Longrightarrow> \<exists>t. clearDeviceSessions ds s = Some t \<and> adapter_ok t
     \<and> dom (deviceId2Conn t) \<subseteq> dom (deviceId2Conn s) - set ds"
proof (induction ds arbitrary: s)
  case (Cons d ds)
  show ?case
  proof (cases "getDeviceSession s d")
    case None
    with Cons.IH [OF Cons.prems] show ?thesis by (auto simp: getDeviceSession_def)
  next
    case (Some c)
    then have c: "conn_device (conns s ! c) = d" "HandleDisconnect \<in> set (onCloseCbList (conns s ! c))"
      using adapter_okD(4) [OF Cons.prems] by (auto simp: getDeviceSession_def)
    obtain u where u: "DestroyConn c s = Some u" "adapter_ok u"
        "deviceId2Conn u = (deviceId2Conn s)(d := None)"
      using DestroyConn_ok [OF Cons.prems, of c] c by auto
    have "u\<lparr>deviceId2Conn := (deviceId2Conn u)(d := None)\<rparr> = u" using u(3) by simp
    then have "clearDeviceSessions (d # ds) s = clearDeviceSessions ds u"
      using u(1) Some by simp
    moreover obtain t where "clearDeviceSessions ds u = Some t" "adapter_ok t"
        "dom (deviceId2Conn t) \<subseteq> dom (deviceId2Conn u) - set ds"
      using Cons.IH [OF u(2)] by blast
    moreover have "dom (deviceId2Conn u) = dom (deviceId2Conn s) - {d}" using u(3) by simp
    ultimately show ?thesis by (intro exI [of _ t]) auto
  qed
qed simp

section \<open>Creating and rotating keep it\<close>

lemma create_for:
  assumes "adapter_ok s" and "createUdpSession NewCipher k s = Some (s1, i)"
  shows "\<exists>srv srv'. udpServer s = Some srv \<and> create_with NewCipher k srv = (srv', Some i)
    \<and> s1 = s\<lparr>udpServer := Some srv'\<rparr> \<and> udp.owned (session_of s) srv"
  using adapter_okD(1) [OF assms(1)] assms(2)
  by (auto simp: createUdpSession_def sessions_owned_def split: option.splits prod.splits)

lemma bind_conn:
  assumes "udpServer s = Some srv" and "c < length (conns s)"
  shows "\<exists>k. bindUdpSessionData c i s = s\<lparr>conns := (conns s)[c := k]\<rparr> \<and> UdpSession k = Some i
    \<and> conn_device k = conn_device (conns s ! c) \<and> recvCmdChan k = recvCmdChan (conns s ! c)
    \<and> onCloseCbList k = onCloseCbList (conns s ! c)"
proof -
  obtain x y where xy: "GetAesKeyAndNonce (heap srv ! i) = (x, y)" by fastforce
  show ?thesis
    by (intro exI [of _ "SetData ''full_nonce'' y (SetData ''aes_key'' x (SetUdpSession i (conns s ! c)))"])
      (simp add: assms xy bindUdpSessionData_def upd_conn_def SetData_def SetUdpSession_def)
qed

lemma session_of_set:
  "c < length (conns s) \<Longrightarrow> session_of (s\<lparr>conns := (conns s)[c := k]\<rparr>) = (session_of s)(c := UdpSession k)"
  by (auto simp: session_of_def fun_eq_iff nth_list_update)

lemma rotate_ok:
  assumes "adapter_ok s" and "deviceId2Conn s d = Some c"
  shows "\<exists>t r. rotateDeviceUdpSession NewCipher k c s = Some (t, r) \<and> adapter_ok t
    \<and> deviceId2Conn t = deviceId2Conn s \<and> length (conns t) = length (conns s)"
proof (cases "createUdpSession NewCipher k s")
  case None
  with assms show ?thesis by (auto simp: rotateDeviceUdpSession_def)
next
  case (Some p)
  then obtain s1 i where p: "createUdpSession NewCipher k s = Some (s1, i)" by (cases p) auto
  from create_for [OF assms(1) p] obtain srv srv' where srv: "udpServer s = Some srv"
    "create_with NewCipher k srv = (srv', Some i)" "s1 = s\<lparr>udpServer := Some srv'\<rparr>"
    "udp.owned (session_of s) srv" by blast
  have c: "c < length (conns s)" "conn_device (conns s ! c) = d" using adapter_okD(4) [OF assms] by auto
  obtain q where q: "bindUdpSessionData c i s1 = s1\<lparr>conns := (conns s1)[c := q]\<rparr>" "UdpSession q = Some i"
      "conn_device q = d" "recvCmdChan q = recvCmdChan (conns s ! c)"
      "onCloseCbList q = onCloseCbList (conns s ! c)"
    using bind_conn [of s1 srv' c i] c srv(3) by auto
  have old: "session_of s c = UdpSession (conns s ! c)" using c by (simp add: session_of_def)
  obtain srv2 where srv2: "CloseSessionByRef (UdpSession (conns s ! c)) srv' = Some srv2"
      "udp.owned ((session_of s)(c \<mapsto> i)) srv2"
  proof (cases "UdpSession (conns s ! c)")
    case None
    with udp.owned_create [OF srv(4) _ srv(2), of c] old that show ?thesis
      by (simp add: udp.close_none)
  next
    case (Some j)
    with udp.owned_replace [OF srv(4) _ srv(2), of c j] old that show ?thesis by auto
  qed
  let ?t = "s\<lparr>udpServer := Some srv2, conns := (conns s)[c := q]\<rparr>"
  have "rotateDeviceUdpSession NewCipher k c s = Some (?t, Some i)"
    using p q(1) srv(3) srv2(1) by (simp add: rotateDeviceUdpSession_def Let_def)
  moreover have m: "session_of ?t = (session_of s)(c \<mapsto> i)"
    using session_of_set [OF c(1), of q] session_of_cong [of ?t "s\<lparr>conns := (conns s)[c := q]\<rparr>"] q(2) by simp
  moreover have "adapter_ok ?t"
  proof -
    have nth: "conn_device (conns ?t ! e) = conn_device (conns s ! e)
        \<and> recvCmdChan (conns ?t ! e) = recvCmdChan (conns s ! e)
        \<and> onCloseCbList (conns ?t ! e) = onCloseCbList (conns s ! e)" for e
      using q(3,4,5) c by (cases "e = c") simp_all
    have "conns_registered ?t"
      using adapter_okD(4,5) [OF assms(1)] nth by (simp add: conns_registered_def)
    moreover have "deviceId2Conn ?t (conn_device (conns ?t ! e)) = Some e" if "session_of ?t e = Some j" for e j
    proof (cases "e = c")
      case True
      with nth [of c] c(2) assms(2) show ?thesis by simp
    next
      case False
      with that m adapter_okD(3) [OF assms(1), of e j] nth [of e] show ?thesis by simp
    qed
    ultimately show ?thesis
      using srv2(2) m adapter_okD(6) [OF assms(1)] by (simp add: adapter_ok_def sessions_owned_def)
  qed
  ultimately show ?thesis by auto
qed

lemma new_conn_fields [simp]:
  "conn_device (NewMqttUdpConn now d t m u) = d" "UdpSession (NewMqttUdpConn now d t m u) = u"
  "\<not> cclosed (recvCmdChan (NewMqttUdpConn now d t m u))" "onCloseCbList (NewMqttUdpConn now d t m u) = []"
  by (simp_all add: NewMqttUdpConn_def)

lemma add_conn_ok:
  assumes "adapter_ok s" and "deviceId2Conn s d = None"
    and "udpServer s = Some srv" and "create_with NewCipher k srv = (srv', Some i)"
    and "conn_device q = d" and "UdpSession q = Some i" and "\<not> cclosed (recvCmdChan q)"
    and "HandleDisconnect \<in> set (onCloseCbList q)"
  shows "adapter_ok (s\<lparr>udpServer := Some srv', conns := conns s @ [q],
      deviceId2Conn := (deviceId2Conn s)(d \<mapsto> length (conns s))\<rparr>)"
proof -
  let ?c = "length (conns s)"
  let ?t = "s\<lparr>udpServer := Some srv', conns := conns s @ [q], deviceId2Conn := (deviceId2Conn s)(d \<mapsto> ?c)\<rparr>"
  have m: "session_of ?t = (session_of s)(?c \<mapsto> i)"
    using assms(6) by (auto simp: session_of_def fun_eq_iff nth_append)
  have "udp.owned (session_of s) srv"
    using adapter_okD(1) [OF assms(1)] assms(3) by (simp add: sessions_owned_def)
  from udp.owned_create [OF this _ assms(4), of ?c] have own: "udp.owned ((session_of s)(?c \<mapsto> i)) srv'"
    by (simp add: session_of_def)
  have lt: "c < ?c" if "session_of s c = Some j" for c j
    using that by (simp add: session_of_def split: if_splits)
  have dev: "conn_device (conns s ! c) \<noteq> d" if "session_of s c = Some j" for c j
    using adapter_okD(3) [OF assms(1) that] assms(2) by auto
  have "deviceId2Conn ?t (conn_device (conns ?t ! c)) = Some c" if "session_of ?t c = Some j" for c j
  proof (cases "c = ?c")
    case False
    with that m have "session_of s c = Some j" by simp
    with lt dev adapter_okD(3) [OF assms(1)] show ?thesis by (simp add: nth_append)
  qed (use assms(5) in simp)
  moreover have "conns_registered ?t"
    using adapter_okD(4,5) [OF assms(1)] assms(5,7,8)
    by (auto simp: conns_registered_def nth_append less_Suc_eq)
  ultimately show ?thesis
    using own adapter_okD(6) [OF assms(1)] m by (simp add: adapter_ok_def sessions_owned_def)
qed

lemma upd_last: "c = length xs \<Longrightarrow> upd_conn c f (s\<lparr>conns := xs @ [q]\<rparr>) = s\<lparr>conns := xs @ [f q]\<rparr>"
  by (simp add: upd_conn_def)

lemma bind_last:
  assumes "udpServer s = Some srv" and "c = length xs"
  shows "\<exists>k. bindUdpSessionData c i (s\<lparr>conns := xs @ [q]\<rparr>) = s\<lparr>conns := xs @ [k]\<rparr> \<and> UdpSession k = Some i
    \<and> conn_device k = conn_device q \<and> recvCmdChan k = recvCmdChan q \<and> onCloseCbList k = onCloseCbList q"
  using bind_conn [of "s\<lparr>conns := xs @ [q]\<rparr>" srv c i] assms by auto

text \<open>A new connection, as the application gets it.\<close>

lemma Ensure_new:
  assumes "adapter_ok s" and none: "deviceId2Conn s d = None" and Some: "mclient s = Some client"
    and p: "createUdpSession NewCipher k s = Some (s1, i)"
  shows "\<exists>t. EnsureDeviceTransport NewCipher now k serves d s =
      (if serves then Some (upd_conn (length (conns s)) (OnCloseConn (OtherClose (length (conns s)))) t, Some (length (conns s)))
       else do { s6 \<leftarrow> DestroyConn (length (conns s)) t; Some (s6, Some (length (conns s))) })
    \<and> adapter_ok t \<and> length (conns t) = Suc (length (conns s))
    \<and> conn_device (conns t ! length (conns s)) = d \<and> onCloseCbList (conns t ! length (conns s)) = [HandleDisconnect]
    \<and> deviceId2Conn t = (deviceId2Conn s)(d \<mapsto> length (conns s))
    \<and> lifecycleStates t = lifecycleStates s \<and> trace t = trace s @ [NewConnection (length (conns s))]"
proof -
  let ?c = "length (conns s)"
  from create_for [OF assms(1) p] obtain srv srv' where srv: "udpServer s = Some srv"
    "create_with NewCipher k srv = (srv', Some i)" "s1 = s\<lparr>udpServer := Some srv'\<rparr>"
    "udp.owned (session_of s) srv" by blast
  let ?topic = "ServerPubTopicPrefix @ ReplaceAll CHR '':'' CHR ''_'' d"
  let ?new = "NewMqttUdpConn now d ?topic (Some client) (Some i)"
  obtain q where q: "bindUdpSessionData ?c i (s1\<lparr>conns := conns s @ [?new]\<rparr>) = s1\<lparr>conns := conns s @ [q]\<rparr>"
      "UdpSession q = Some i" "conn_device q = d" "recvCmdChan q = recvCmdChan ?new" "onCloseCbList q = []"
    using bind_last [of s1 srv' ?c "conns s" i ?new] srv(3) by auto
  let ?q = "OnCloseConn HandleDisconnect (MarkBrokerOnline now q)"
  let ?t = "s\<lparr>udpServer := Some srv', conns := conns s @ [?q],
      deviceId2Conn := (deviceId2Conn s)(d \<mapsto> ?c)\<rparr>"
  have ok: "adapter_ok ?t"
    by (rule add_conn_ok [OF assms(1) none srv(1,2)])
      (simp_all add: q OnCloseConn_def MarkBrokerOnline_def)
  have s4: "upd_conn ?c (OnCloseConn HandleDisconnect) (SetDeviceSession d ?c
      (upd_conn ?c (MarkBrokerOnline now) (bindUdpSessionData ?c i (s1\<lparr>conns := conns s1 @ [?new]\<rparr>)))) = ?t"
    using q(1) srv(3) by (simp add: upd_conn_def SetDeviceSession_def)
  have step: "EnsureDeviceTransport NewCipher now k serves d s =
    (if serves then Some (upd_conn ?c (OnCloseConn (OtherClose ?c)) (notify (NewConnection ?c) ?t), Some ?c)
     else do { s6 \<leftarrow> DestroyConn ?c (notify (NewConnection ?c) ?t); Some (s6, Some ?c) })"
    using none p Some srv(3) s4 by (simp add: EnsureDeviceTransport_def getDeviceSession_def Let_def)
  show ?thesis
    by (rule exI [of _ "notify (NewConnection ?c) ?t"])
      (use step ok q in \<open>simp add: OnCloseConn_def MarkBrokerOnline_def notify_def\<close>)
qed

lemma Ensure_ok:
  assumes "adapter_ok s"
  shows "\<exists>t r. EnsureDeviceTransport NewCipher now k serves d s = Some (t, r) \<and> adapter_ok t
    \<and> (\<forall>c. r = Some c \<longrightarrow> c < length (conns t) \<and> (serves \<or> deviceId2Conn s d \<noteq> None \<longrightarrow> deviceId2Conn t d = Some c))
    \<and> (\<forall>c. deviceId2Conn s d = Some c \<longrightarrow> r = Some c)"
proof (cases "deviceId2Conn s d")
  case (Some c)
  with adapter_okD(4) [OF assms Some] assms show ?thesis
    by (auto simp: EnsureDeviceTransport_def getDeviceSession_def)
next
  case none: None
  show ?thesis
  proof (cases "createUdpSession NewCipher k s")
    case None
    with none assms show ?thesis by (simp add: EnsureDeviceTransport_def getDeviceSession_def)
  next
    case (Some p)
    then obtain s1 i where p: "createUdpSession NewCipher k s = Some (s1, i)" by (cases p) auto
    from create_for [OF assms p] obtain srv srv' where srv: "udpServer s = Some srv"
      "create_with NewCipher k srv = (srv', Some i)" "s1 = s\<lparr>udpServer := Some srv'\<rparr>"
      "udp.owned (session_of s) srv" by blast
    let ?c = "length (conns s)"
    have fresh: "session_of s ?c = None" by (simp add: session_of_def)
    show ?thesis
    proof (cases "mclient s")
      case None
      from udp.owned_close [OF udp.owned_create [OF srv(4) fresh srv(2)], of ?c i]
      obtain srv2 where srv2: "CloseSessionByRef (Some i) srv' = Some srv2" "udp.owned (session_of s) srv2"
        using fresh by (auto simp: fun_upd_idem)
      let ?t = "s\<lparr>udpServer := Some srv2\<rparr>"
      have "EnsureDeviceTransport NewCipher now k serves d s = Some (?t, None)"
        using none p srv(3) None srv2(1) by (simp add: EnsureDeviceTransport_def getDeviceSession_def)
      moreover have "adapter_ok ?t"
        using srv2(2) session_of_cong [of ?t s] assms
        by (simp add: adapter_ok_def sessions_owned_def conns_registered_def)
      ultimately show ?thesis using none by simp
    next
      case (Some client)
      from Ensure_new [OF assms none Some p, of now serves] obtain t where t:
        "EnsureDeviceTransport NewCipher now k serves d s =
          (if serves then Some (upd_conn ?c (OnCloseConn (OtherClose ?c)) t, Some ?c)
           else do { s6 \<leftarrow> DestroyConn ?c t; Some (s6, Some ?c) })"
        "adapter_ok t" "length (conns t) = Suc ?c" "deviceId2Conn t = (deviceId2Conn s)(d \<mapsto> ?c)" by blast
      show ?thesis
      proof (cases serves)
        case True
        with t none show ?thesis by simp
      next
        case False
        obtain t6 where t6: "DestroyConn ?c t = Some t6" "adapter_ok t6" "length (conns t6) = Suc ?c"
          using DestroyConn_ok [OF t(2), of ?c] t(3) by auto
        with False t none show ?thesis by simp
      qed
    qed
  qed
qed

lemma mark_online_frame [simp]:
  "adapter_ok (fst (markDeviceOnline now d ts s)) = adapter_ok s"
  "deviceId2Conn (fst (markDeviceOnline now d ts s)) = deviceId2Conn s"
  "adapter_ok (fst (markDeviceOffline now d ts s)) = adapter_ok s"
  "trace (fst (markDeviceOnline now d ts s)) = trace s"
  by (auto simp: markDeviceOnline_def markDeviceOffline_def getOrCreateLifecycleState_def
      split: option.splits prod.splits if_splits)

lemma promote_ok:
  assumes "adapter_ok s"
  shows "\<exists>t r n. promoteDeviceOnline NewCipher now k serves d ts s = Some (t, r, n) \<and> adapter_ok t
    \<and> (\<forall>c. r = Some c \<longrightarrow> c < length (conns t) \<and> (serves \<or> deviceId2Conn s d \<noteq> None \<longrightarrow> deviceId2Conn t d = Some c))"
proof -
  obtain u n where u: "markDeviceOnline now d ts s = (u, n)" by fastforce
  have ok: "adapter_ok u" "deviceId2Conn u = deviceId2Conn s"
    using mark_online_frame(1,2) [of now d ts s] assms u by simp_all
  from Ensure_ok [OF ok(1), of NewCipher now k serves d] obtain t r where t:
    "EnsureDeviceTransport NewCipher now k serves d u = Some (t, r)" "adapter_ok t"
    "\<And>c. r = Some c \<Longrightarrow> c < length (conns t) \<and> (serves \<or> deviceId2Conn s d \<noteq> None \<longrightarrow> deviceId2Conn t d = Some c)"
    unfolding ok(2) by blast
  then show ?thesis
    using u by (cases r) (auto simp: promoteDeviceOnline_def)
qed

lemma tell_online_simps [simp]:
  "adapter_ok (tell_online n d s) = adapter_ok s" "deviceId2Conn (tell_online n d s) = deviceId2Conn s"
  "conns (tell_online n d s) = conns s"
  by (simp_all add: tell_online_def)

lemma handleLifecycleMessage_ok:
  assumes "adapter_ok s"
  shows "\<exists>t. handleLifecycleMessage NewCipher parse now k serves payload s = Some t \<and> adapter_ok t"
proof (cases "parse payload")
  case (Some e)
  obtain dev st ts where e: "e = (dev, st, ts)" by (cases e)
  let ?d = "go_string (TrimSpace dev)"
  from promote_ok [OF assms, of NewCipher now k serves ?d ts] obtain t r n where t:
    "promoteDeviceOnline NewCipher now k serves ?d ts s = Some (t, r, n)" "adapter_ok t" by blast
  have off: "adapter_ok (fst (markDeviceOffline now ?d ts u))" if "adapter_ok u" for u
    using that by simp
  let ?u = "case getDeviceSession s ?d of
      Some c \<Rightarrow> upd_conn c (MarkBrokerOffline now (offlineGracePeriod s)) s | None \<Rightarrow> s"
  have "adapter_ok ?u" using assms by (simp split: option.split)
  from off [OF this] obtain w n' v where w: "markDeviceOffline now ?d ts ?u = (w, n', v)" "adapter_ok w"
    by (metis fst_conv prod_cases3)
  show ?thesis
    using Some e t w assms by (cases r) (simp_all add: handleLifecycleMessage_def Let_def)
qed (use assms in \<open>simp add: handleLifecycleMessage_def\<close>)

lemma push_ok:
  assumes "adapter_ok s" and "c < length (conns s)"
  shows "\<exists>k b. PushMsgToRecvCmd now msg (conns s ! c) = Some (k, b) \<and> adapter_ok (upd_conn c (\<lambda>_. k) s)"
proof -
  have "\<not> cclosed (recvCmdChan (conns s ! c))" by (rule adapter_okD(5) [OF assms])
  then obtain k b where k: "PushMsgToRecvCmd now msg (conns s ! c) = Some (k, b)"
    "conn_device k = conn_device (conns s ! c)" "UdpSession k = UdpSession (conns s ! c)"
    "onCloseCbList k = onCloseCbList (conns s ! c)" "\<not> cclosed (recvCmdChan k)"
  proof (cases "chan_send (recvCmdChan (conns s ! c)) msg")
    case (Sent q)
    with chan.send_sent [OF Sent] that show ?thesis by (auto simp: PushMsgToRecvCmd_def)
  next
    case SendBlocks
    with \<open>\<not> cclosed (recvCmdChan (conns s ! c))\<close> that show ?thesis by (auto simp: PushMsgToRecvCmd_def)
  next
    case SendPanics
    with \<open>\<not> cclosed (recvCmdChan (conns s ! c))\<close> show ?thesis by (simp add: chan.send_panics)
  qed
  then have "adapter_ok (upd_conn c (\<lambda>_. k) s)" by (intro upd_conn_ok [OF assms(1)]) simp
  with k(1) show ?thesis by blast
qed

lemma process_one_ok:
  assumes "adapter_ok s"
  shows "\<exists>t. process_one NewCipher parse ptype now k1 k2 serves msg s = Some t \<and> adapter_ok t"
proof (cases "Topic msg = MDeviceLifecycleTopic \<or> ptype (Payload msg) = None \<or> snd (getDeviceIdByTopic (Topic msg)) = []")
  case True
  with handleLifecycleMessage_ok [OF assms] assms show ?thesis
    by (auto simp: process_one_def split: option.split)
next
  case False
  then obtain ty where ty: "ptype (Payload msg) = Some ty" by auto
  let ?d = "snd (getDeviceIdByTopic (Topic msg))"
  from promote_ok [OF assms, of NewCipher now k1 serves ?d "unix_milli now"] obtain t r n where t:
    "promoteDeviceOnline NewCipher now k1 serves ?d (unix_milli now) s = Some (t, r, n)" "adapter_ok t"
    "\<And>c. r = Some c \<Longrightarrow> c < length (conns t) \<and> (serves \<or> deviceId2Conn s ?d \<noteq> None \<longrightarrow> deviceId2Conn t ?d = Some c)"
    by blast
  show ?thesis
  proof (cases r)
    case None
    with False ty t show ?thesis by (simp add: process_one_def Let_def)
  next
    case (Some c)
    let ?t = "tell_online n ?d t"
    have c: "c < length (conns ?t)" using t(3) [OF Some] by simp
    obtain u ok where u: "(if getDeviceSession s ?d \<noteq> None \<and> ty = ''hello''
        then do { (s, r) \<leftarrow> rotateDeviceUdpSession NewCipher k2 c ?t; Some (s, r \<noteq> None) }
        else Some (?t, True)) = Some (u, ok)" "adapter_ok u" "length (conns u) = length (conns ?t)"
    proof (cases "getDeviceSession s ?d \<noteq> None \<and> ty = ''hello''")
      case True
      then have "deviceId2Conn ?t ?d = Some c" using t(3) [OF Some] by (simp add: getDeviceSession_def)
      from rotate_ok [OF _ this, of NewCipher k2] t(2) that True show ?thesis by fastforce
    next
      case False
      with that [of ?t True] t(2) show ?thesis by (simp only: if_False tell_online_simps simp_thms)
    qed
    from push_ok [OF u(2), of c] c u(3) obtain k b where k:
      "PushMsgToRecvCmd now (Payload msg) (conns u ! c) = Some (k, b)" "adapter_ok (upd_conn c (\<lambda>_. k) u)"
      by (metis push_ok u(2))
    have "process_one NewCipher parse ptype now k1 k2 serves msg s =
        (if ok then Some (upd_conn c (\<lambda>_. k) u) else Some u)"
      using False ty t(1) Some k(1) by (simp add: process_one_def Let_def u(1) del: not_None_eq)
    with k(2) u(2) show ?thesis by simp
  qed
qed

lemma processMessage_ok:
  assumes "adapter_ok s"
  shows "\<exists>t. processMessage NewCipher parse ptype now k1 k2 serves s = Some t \<and> adapter_ok t"
proof (cases "stopped s")
  case False
  show ?thesis
  proof (cases "chan_recv (msgChan s)")
    case (Got msg q)
    have "\<not> cclosed q" using chan.recv_got [OF Got] adapter_okD(6) [OF assms] by simp
    moreover have "session_of (s\<lparr>msgChan := q\<rparr>) = session_of s" by (rule session_of_cong) simp
    ultimately have "adapter_ok (s\<lparr>msgChan := q\<rparr>)"
      using assms by (simp add: adapter_ok_def conns_registered_def)
    from process_one_ok [OF this] False Got show ?thesis by (simp add: processMessage_def)
  qed (use assms False in \<open>simp_all add: processMessage_def\<close>)
qed (use assms in \<open>simp add: processMessage_def\<close>)

lemma handleMessage_ok:
  assumes "adapter_ok s"
  shows "\<exists>t. handleMessage msg s = Some t \<and> adapter_ok t"
proof (cases "chan_send (msgChan s) msg")
  case (Sent q)
  have "\<not> cclosed q" using chan.send_sent [OF Sent] by simp
  moreover have "session_of (s\<lparr>msgChan := q\<rparr>) = session_of s" by (rule session_of_cong) simp
  ultimately have "adapter_ok (s\<lparr>msgChan := q\<rparr>)"
    using assms by (simp add: adapter_ok_def conns_registered_def)
  with Sent show ?thesis by (simp add: handleMessage_def)
next
  case SendPanics
  with chan.send_panics adapter_okD(6) [OF assms] show ?thesis by metis
qed (use assms in \<open>simp add: handleMessage_def\<close>)

lemma setClient_ok:
  assumes "adapter_ok s"
  shows "adapter_ok (setClient client s)"
proof -
  let ?t = "setClient client s"
  have nth: "k < length (conns s) \<Longrightarrow> conn_device (conns ?t ! k) = conn_device (conns s ! k)
      \<and> UdpSession (conns ?t ! k) = UdpSession (conns s ! k)
      \<and> onCloseCbList (conns ?t ! k) = onCloseCbList (conns s ! k)
      \<and> recvCmdChan (conns ?t ! k) = recvCmdChan (conns s ! k)" for k
    by (simp add: setClient_def updateSessionsClient_def SetMqttClient_def)
  have len: "length (conns ?t) = length (conns s)" "deviceId2Conn ?t = deviceId2Conn s"
    "udpServer ?t = udpServer s" "msgChan ?t = msgChan s"
    by (simp_all add: setClient_def updateSessionsClient_def)
  have "session_of ?t = session_of s" using nth len(1) by (simp add: session_of_def fun_eq_iff)
  moreover have "conns_registered ?t"
    using adapter_okD(4,5) [OF assms] nth len by (auto simp: conns_registered_def)
  moreover have "session_of s c = Some i \<Longrightarrow> deviceId2Conn s (conn_device (conns ?t ! c)) = Some c" for c i
    using adapter_okD(3) [OF assms, of c i] nth [of c] by (simp add: session_of_def split: if_splits)
  ultimately show ?thesis
    using adapter_okD(1,6) [OF assms] len by (simp add: adapter_ok_def)
qed

lemma connectAndRetry_ok: "adapter_ok s \<Longrightarrow> adapter_ok (fst (connectAndRetry attempts s))"
  by (induction attempts s rule: connectAndRetry.induct) (auto intro: setClient_ok)

section \<open>The transport as a transition system\<close>

datatype 'a adapter_action =
    MArrive mqtt_message
  | MProcess int creation creation bool
  | MEnsure int creation bool string
  | MTimer string "64 word"
  | MCheck int "string list"
  | MClose nat
  | MCloseAudio nat
  | MRecvCmd ready nat
  | MConnect "(nat \<times> bool) list"
  | MStop "string list"
  | MReloadMqtt "string list"
  | MReloadUdp "'a udp_server" "string list"
  | MServer "'a server_action"

definition recv_cmd_of :: "ready \<Rightarrow> nat \<Rightarrow> 'a adapter \<Rightarrow> 'a adapter" where
  \<comment> \<open>a connection's reader takes a command, if it can\<close>
  "recv_cmd_of r c s =
     (case RecvCmd r (conns s ! c) of Some (k, _) \<Rightarrow> upd_conn c (\<lambda>_. k) s | None \<Rightarrow> s)"

definition adapter_step ::
  "(bytes \<Rightarrow> (bytes \<Rightarrow> bytes) option) \<Rightarrow> (bytes \<Rightarrow> (gostr \<times> gostr \<times> int) option) \<Rightarrow> (bytes \<Rightarrow> string option)
    \<Rightarrow> 'a adapter_action \<Rightarrow> 'a adapter \<Rightarrow> 'a adapter option" where
  "adapter_step NewCipher parse ptype act s =
     (case act of
        MArrive msg \<Rightarrow> handleMessage msg s
      | MProcess now k1 k2 serves \<Rightarrow> processMessage NewCipher parse ptype now k1 k2 serves s
      | MEnsure now k serves d \<Rightarrow> map_option fst (EnsureDeviceTransport NewCipher now k serves d s)
      | MTimer d v \<Rightarrow> cleanupOfflineTransport d v s
      | MCheck now ds \<Rightarrow> checkClientActive now ds s
      | MClose c \<Rightarrow> DestroyConn c s
      | MCloseAudio c \<Rightarrow> ReleaseUdpSession c s
      | MRecvCmd r c \<Rightarrow> Some (recv_cmd_of r c s)
      | MConnect attempts \<Rightarrow> Some (fst (connectAndRetry attempts s))
      | MStop ds \<Rightarrow> StopAdapter ds s
      | MReloadMqtt ds \<Rightarrow> ReloadMqttClient ds s
      | MReloadUdp srv ds \<Rightarrow> ReloadUdpServer srv ds s
      | MServer a \<Rightarrow>
          (case udpServer s of
             None \<Rightarrow> Some s
           | Some srv \<Rightarrow> map_option (\<lambda>t. s\<lparr>udpServer := Some t\<rparr>) (server_step NewCipher a srv)))"

text \<open>References exist, \<^verbatim>\<open>Range\<close> visits every device, a new server has no sessions, and the sessions are
  created and closed through the adapter only.\<close>

definition adapter_valid :: "'a adapter \<Rightarrow> 'a adapter_action \<Rightarrow> bool" where
  "adapter_valid s act \<longleftrightarrow>
     (case act of
        MClose c \<Rightarrow> c < length (conns s)
      | MCloseAudio c \<Rightarrow> c < length (conns s)
      | MRecvCmd _ c \<Rightarrow> c < length (conns s)
      | MStop ds \<Rightarrow> dom (deviceId2Conn s) \<subseteq> set ds
      | MReloadMqtt ds \<Rightarrow> dom (deviceId2Conn s) \<subseteq> set ds
      | MReloadUdp srv ds \<Rightarrow> dom (deviceId2Conn s) \<subseteq> set ds \<and> server_ok srv \<and> (\<forall>i. \<not> session_live srv i)
      | MServer a \<Rightarrow> (case udpServer s of None \<Rightarrow> True | Some srv \<Rightarrow> action_valid srv a \<and> data_plane a \<and> \<not> spins srv a)
      | _ \<Rightarrow> True)"

lemma recv_cmd_ok:
  assumes "adapter_ok s" and "c < length (conns s)"
  shows "adapter_ok (recv_cmd_of r c s)"
proof (cases "RecvCmd r (conns s ! c)")
  case (Some p)
  obtain k x where p: "p = (k, x)" by (cases p)
  have "adapter_ok (upd_conn c (\<lambda>_. k) s)"
    using Some p adapter_okD(5) [OF assms]
    by (intro upd_conn_ok [OF assms(1)])
      (auto simp: RecvCmd_def split: ready.splits received.splits dest!: chan.recv_got)
  with Some p show ?thesis by (simp add: recv_cmd_of_def)
qed (use assms in \<open>simp add: recv_cmd_of_def\<close>)

lemma empty_adapter_ok:
  assumes "adapter_ok s" and "deviceId2Conn s = Map.empty"
  shows "session_of s = Map.empty"
  using adapter_okD(3) [OF assms(1)] assms(2) by (auto simp: fun_eq_iff intro: ccontr)

lemma reload_udp_ok:
  assumes "adapter_ok s" and "dom (deviceId2Conn s) \<subseteq> set ds" and "server_ok srv" and "\<forall>i. \<not> session_live srv i"
  shows "\<exists>t. ReloadUdpServer srv ds s = Some t \<and> adapter_ok t"
proof -
  from clearDeviceSessions_ok [of "clearLifecycleStates s" ds] assms(1) obtain t where t:
    "clearDeviceSessions ds (clearLifecycleStates s) = Some t" "adapter_ok t"
    "dom (deviceId2Conn t) \<subseteq> dom (deviceId2Conn (clearLifecycleStates s)) - set ds" by auto
  have "dom (deviceId2Conn (clearLifecycleStates s)) = dom (deviceId2Conn s)" by (simp add: clearLifecycleStates_def)
  with t(3) assms(2) have "dom (deviceId2Conn t) = {}" by auto
  then have "session_of t = Map.empty" using empty_adapter_ok [OF t(2)] by simp
  moreover have "session_of (t\<lparr>udpServer := Some srv\<rparr>) = session_of t" by (rule session_of_cong) simp
  moreover have "udp.owned Map.empty srv" using assms(3,4) by (auto intro: udp.ownedI)
  ultimately have "adapter_ok (t\<lparr>udpServer := Some srv\<rparr>)"
    using t(2) by (simp add: adapter_ok_def sessions_owned_def conns_registered_def)
  with t(1) show ?thesis by (simp add: ReloadUdpServer_def)
qed

lemma owned_same_live:
  "udp.owned m s \<Longrightarrow> server_ok t \<Longrightarrow> session_live t = session_live s \<Longrightarrow> udp.owned m t"
  by (rule udp.ownedI) (auto dest: udp.ownedD)

lemma server_action_ok:
  assumes "adapter_ok s" and "udpServer s = Some srv" and "action_valid srv a" and "data_plane a" and "\<not> spins srv a"
  shows "\<exists>t. server_step NewCipher a srv = Some t \<and> adapter_ok (s\<lparr>udpServer := Some t\<rparr>)"
proof -
  have own: "udp.owned (session_of s) srv"
    using adapter_okD(1) [OF assms(1)] assms(2) by (simp add: sessions_owned_def)
  note ok = udp.ownedD(1) [OF own]
  from server_step_total(1) [OF ok assms(3)] assms(5) obtain t where t: "server_step NewCipher a srv = Some t"
    by (metis not_None_eq)
  have "udp.owned (session_of s) t"
    by (rule owned_same_live [OF own server_step_total(2) [OF ok assms(3) t] data_plane_live [OF ok assms(3,4) t]])
  moreover have "session_of (s\<lparr>udpServer := Some t\<rparr>) = session_of s" by (rule session_of_cong) simp
  ultimately have "adapter_ok (s\<lparr>udpServer := Some t\<rparr>)"
    using assms(1) by (simp add: adapter_ok_def sessions_owned_def conns_registered_def)
  with t show ?thesis by blast
qed

lemma adapter_step_ok:
  assumes "adapter_ok s" and "adapter_valid s act"
  shows "\<exists>t. adapter_step NewCipher parse ptype act s = Some t \<and> adapter_ok t"
proof (cases act)
  case (MEnsure now k serves d)
  from Ensure_ok [OF assms(1), of NewCipher now k serves d] MEnsure show ?thesis
    by (auto simp: adapter_step_def)
next
  case (MCheck now ds)
  with check_devices_ok [OF assms(1)] assms(1) show ?thesis
    by (simp add: adapter_step_def checkClientActive_def)
next
  case (MClose c)
  from DestroyConn_ok [OF assms(1), of c] MClose show ?thesis by (auto simp: adapter_step_def)
next
  case (MCloseAudio c)
  then have "c < length (conns s)" using assms(2) by (simp add: adapter_valid_def)
  from ReleaseUdpSession_facts [OF assms(1) this] MCloseAudio show ?thesis by (auto simp: adapter_step_def)
next
  case (MStop ds)
  have "adapter_ok (s\<lparr>stopped := True, udpServer := map_option CloseServer (udpServer s)\<rparr>)"
  proof -
    let ?t = "s\<lparr>stopped := True, udpServer := map_option CloseServer (udpServer s)\<rparr>"
    have "session_of ?t = session_of s" by (rule session_of_cong) simp
    moreover have "udp.owned m (CloseServer srv)" if "udp.owned m srv" for m and srv :: "'a udp_server"
      using owned_same_live [OF that, of "CloseServer srv"] udp.ownedD(1) [OF that] by (simp add: CloseServer_def)
    ultimately show ?thesis
      using assms(1) by (auto simp: adapter_ok_def sessions_owned_def conns_registered_def split: option.splits)
  qed
  then have "adapter_ok (clearLifecycleStates
      (s\<lparr>stopped := True, udpServer := map_option CloseServer (udpServer s)\<rparr>))" by simp
  from clearDeviceSessions_ok [OF this, of ds] MStop show ?thesis
    by (auto simp: adapter_step_def StopAdapter_def)
next
  case (MReloadMqtt ds)
  with clearDeviceSessions_ok [of "clearLifecycleStates s" ds] assms(1) show ?thesis
    by (auto simp: adapter_step_def ReloadMqttClient_def)
next
  case (MServer a)
  show ?thesis
  proof (cases "udpServer s")
    case (Some srv)
    with MServer assms(2) have a: "action_valid srv a" "data_plane a" "\<not> spins srv a"
      by (simp_all add: adapter_valid_def)
    from server_action_ok [OF assms(1) Some a, of NewCipher] MServer Some show ?thesis
      by (auto simp: adapter_step_def)
  qed (use MServer assms(1) in \<open>simp add: adapter_step_def\<close>)
next
  case (MReloadUdp srv ds)
  with reload_udp_ok [OF assms(1)] assms(2) show ?thesis
    by (simp add: adapter_step_def adapter_valid_def)
qed (use assms handleMessage_ok processMessage_ok cleanupOfflineTransport_ok recv_cmd_ok connectAndRetry_ok
  in \<open>simp_all add: adapter_step_def adapter_valid_def\<close>)

section \<open>No UDP session leaks\<close>

inductive adapter_reachable ::
  "(bytes \<Rightarrow> (bytes \<Rightarrow> bytes) option) \<Rightarrow> (bytes \<Rightarrow> (gostr \<times> gostr \<times> int) option) \<Rightarrow> (bytes \<Rightarrow> string option)
    \<Rightarrow> 'a adapter \<Rightarrow> bool" for NewCipher parse ptype where
  adapter_new: "(\<And>srv. server = Some srv \<Longrightarrow> server_ok srv \<and> (\<forall>i. \<not> session_live srv i)) \<Longrightarrow>
    adapter_reachable NewCipher parse ptype (NewMqttUdpAdapter server grace)"
| adapter_next: "adapter_reachable NewCipher parse ptype s \<Longrightarrow> adapter_valid s act \<Longrightarrow>
    adapter_step NewCipher parse ptype act s = Some t \<Longrightarrow> adapter_reachable NewCipher parse ptype t"

lemma NewMqttUdpAdapter_ok:
  assumes "\<And>srv. server = Some srv \<Longrightarrow> server_ok srv \<and> (\<forall>i. \<not> session_live srv i)"
  shows "adapter_ok (NewMqttUdpAdapter server grace)"
proof -
  have "session_of (NewMqttUdpAdapter server grace) = Map.empty"
    by (simp add: session_of_def NewMqttUdpAdapter_def fun_eq_iff)
  moreover have "udp.owned Map.empty srv" if "server = Some srv" for srv
    using assms [OF that] by (auto intro: udp.ownedI)
  ultimately show ?thesis
    by (simp add: adapter_ok_def sessions_owned_def conns_registered_def NewMqttUdpAdapter_def split: option.split)
qed

lemma adapter_reachable_ok: "adapter_reachable NewCipher parse ptype s \<Longrightarrow> adapter_ok s"
proof (induction rule: adapter_reachable.induct)
  case (adapter_next s act t)
  from adapter_step_ok [OF adapter_next.IH adapter_next.hyps(2), of NewCipher parse ptype] adapter_next.hyps(3)
  show ?case by simp
qed (rule NewMqttUdpAdapter_ok)


text \<open>Fact: no operation of the transport panics: in every reachable state every message, timer, closing,
  reload and datagram is handled to its end.\<close>

theorem transport_never_panics:
  assumes "adapter_reachable NewCipher parse ptype s" and "adapter_valid s act"
  shows "adapter_step NewCipher parse ptype act s \<noteq> None"
  using adapter_step_ok [OF adapter_reachable_ok [OF assms(1)] assms(2), of NewCipher parse ptype] by auto

section \<open>Lifecycle events and cleanup timers\<close>

fun run_events :: "(bool \<times> int) list \<Rightarrow> lifecycle \<Rightarrow> lifecycle" where
  \<comment> \<open>online and offline events with their times\<close>
  "run_events [] st = st"
| "run_events ((online, ts) # evs) st =
     run_events evs (if online then fst (mark_online ts st) else fst (mark_offline ts st))"

fun applied :: "(bool \<times> int) list \<Rightarrow> lifecycle \<Rightarrow> nat" where
  \<comment> \<open>how many of them were not stale\<close>
  "applied [] st = 0"
| "applied ((online, ts) # evs) st =
     (if is_stale ts st then applied evs st
      else Suc (applied evs (if online then fst (mark_online ts st) else fst (mark_offline ts st))))"

lemma stale_event:
  "is_stale ts st \<Longrightarrow> mark_online ts st = (st, False)" "is_stale ts st \<Longrightarrow> mark_offline ts st = (st, False, 0)"
  by (simp_all add: mark_online_def mark_offline_def)

lemma fresh_event_version:
  "\<not> is_stale ts st \<Longrightarrow> cleanupVersion (fst (mark_online ts st)) = cleanupVersion st + 1"
  "\<not> is_stale ts st \<Longrightarrow> cleanupVersion (fst (mark_offline ts st)) = cleanupVersion st + 1"
  by (simp_all add: mark_online_def mark_offline_def Let_def)

lemma run_events_version:
  "cleanupVersion (run_events evs st) = cleanupVersion st + of_nat (applied evs st)"
proof (induction evs st rule: run_events.induct)
  case (2 online ts evs st)
  then show ?case
    by (cases "is_stale ts st") (auto simp: stale_event fresh_event_version)
qed simp

lemma run_events_stale: "applied evs st = 0 \<Longrightarrow> run_events evs st = st"
proof (induction evs st rule: run_events.induct)
  case (2 online ts evs st)
  then show ?case by (cases "is_stale ts st"; cases online) (auto simp: stale_event)
qed simp

lemma applied_le: "applied evs st \<le> length evs"
  by (induction evs st rule: applied.induct) (auto split: if_splits)

text \<open>Fact: the cleanup timer of an offline event tears a device's transport down only if no event that is
  not stale came after it; otherwise it does nothing, even if it could not be stopped in time.\<close>

theorem only_last_offline_cleans_up:
  assumes "mark_offline ts st = (st1, was, version)" and "\<not> is_stale ts st"
    and "lifecycleStates s d = Some (run_events evs st1)" and "d \<noteq> []" and "length evs < 2 ^ 64"
  shows "(applied evs st1 \<noteq> 0 \<longrightarrow> cleanupOfflineTransport d version s = Some s)
    \<and> (applied evs st1 = 0 \<longrightarrow> cleanupOfflineTransport d version s =
        (let s' = set_state d (st1\<lparr>cleanupTimer := None\<rparr>) s
         in case deviceId2Conn s d of
              None \<Rightarrow> Some (s'\<lparr>lifecycleStates := (lifecycleStates s')(d := None)\<rparr>)
            | Some c \<Rightarrow> DestroyConn c s'))"
proof -
  have v: "cleanupVersion st1 = version" "\<not> brokerOnline st1"
    using assms(1,2) by (auto simp: mark_offline_def Let_def)
  have "applied evs st1 < 2 ^ 64" using applied_le [of evs st1] assms(5) by simp
  then have "(word_of_nat (applied evs st1) :: 64 word) = 0 \<longleftrightarrow> applied evs st1 = 0"
    using word64_of_nat_eq_iff [of "applied evs st1" 0] by simp
  then have "cleanupVersion (run_events evs st1) = version \<longleftrightarrow> applied evs st1 = 0"
    using run_events_version [of evs st1] v(1) by auto
  with assms(3,4) v run_events_stale [of evs st1] show ?thesis
    by (auto simp: cleanupOfflineTransport_def getLifecycleState_def getDeviceSession_def Let_def)
qed

definition timer_state :: lifecycle where
  "timer_state = fst (mark_offline 200 (fst (mark_online 100 fresh_state)))"

lemma only_last_offline_cleans_up_witness:
  "let s = set_state ''d'' (run_events [(True, 150), (True, 300)] timer_state) (NewMqttUdpAdapter None None)
   in cleanupOfflineTransport ''d'' 2 s = Some s"
proof -
  let ?s = "set_state ''d'' (run_events [(True, 150), (True, 300)] timer_state) (NewMqttUdpAdapter None None)"
  have m: "mark_offline 200 (fst (mark_online 100 fresh_state)) = (timer_state, True, 2)"
    "\<not> is_stale 200 (fst (mark_online 100 fresh_state))"
    "applied [(True, 150), (True, 300)] timer_state \<noteq> 0"
    by code_simp+
  have "lifecycleStates ?s ''d'' = Some (run_events [(True, 150), (True, 300)] timer_state)"
    by (simp add: set_state_def)
  from only_last_offline_cleans_up [OF m(1,2) this] m(3) show ?thesis by (simp add: Let_def)
qed

lemma new_server_free: "server_ok NewUDPServer" "\<not> session_live NewUDPServer i"
  by (simp_all add: server_ok_def NewUDPServer_def session_live_def)

definition sample_transport :: "nat adapter" where
  \<comment> \<open>a client, then device d is connected and has a UDP session\<close>
  "sample_transport = the (adapter_step sample_cipher (\<lambda>_. None) (\<lambda>_. None)
     (MEnsure 0 ([], replicate 16 0, [1, 2, 3, 4], 0, ''d'', ''c'') True ''d'')
     (setClient 5 (NewMqttUdpAdapter (Some NewUDPServer) None)))"

lemma sample_transport_reachable: "adapter_reachable sample_cipher (\<lambda>_. None) (\<lambda>_. None) sample_transport"
proof -
  let ?s0 = "NewMqttUdpAdapter (Some NewUDPServer) None :: nat adapter"
  let ?a = "MConnect [(5, True)] :: nat adapter_action"
  let ?b = "MEnsure 0 ([], replicate 16 0, [1, 2, 3, 4], 0, ''d'', ''c'') True ''d'' :: nat adapter_action"
  have 0: "adapter_reachable sample_cipher (\<lambda>_. None) (\<lambda>_. None) ?s0"
    by (rule adapter_new) (simp add: new_server_free)
  have "adapter_step sample_cipher (\<lambda>_. None) (\<lambda>_. None) ?a ?s0 = Some (setClient 5 ?s0)"
    by (simp add: adapter_step_def NewMqttUdpAdapter_def)
  from adapter_next [OF 0 _ this] have 1: "adapter_reachable sample_cipher (\<lambda>_. None) (\<lambda>_. None) (setClient 5 ?s0)"
    by (simp add: adapter_valid_def)
  have valid: "adapter_valid (setClient 5 ?s0) ?b" by (simp add: adapter_valid_def)
  from adapter_step_ok [OF adapter_reachable_ok [OF 1] valid, of sample_cipher "\<lambda>_. None" "\<lambda>_. None"]
  obtain t where "adapter_step sample_cipher (\<lambda>_. None) (\<lambda>_. None) ?b (setClient 5 ?s0) = Some t" by blast
  with adapter_next [OF 1 valid this] show ?thesis by (simp add: sample_transport_def)
qed

lemma sample_transport_server: "\<exists>srv. udpServer sample_transport = Some srv \<and> session_live srv 0"
  by (simp add: sample_transport_def adapter_step_def EnsureDeviceTransport_def getDeviceSession_def
      createUdpSession_def create_with_def CreateSession_def sample_cipher_def setClient_def
      updateSessionsClient_def NewMqttUdpAdapter_def NewUDPServer_def Let_def SetNonce2Session_def
      bindUdpSessionData_def SetDeviceSession_def session_live_def notify_def upd_conn_def split: prod.split)


lemma transport_never_panics_witness:
  "adapter_step sample_cipher (\<lambda>_. None) (\<lambda>_. None) (MCheck 0 [''d'']) sample_transport \<noteq> None"
  by (rule transport_never_panics [OF sample_transport_reachable]) (simp add: adapter_valid_def)

section \<open>What the application is told\<close>

lemma handleDisconnect_trace:
  assumes "adapter_ok s" and "handleDisconnect d s = Some t"
  shows "trace t = trace s @ (if snd (disconnect_state d s) then [DeviceOffline d] else [])"
    and "lifecycleStates t = lifecycleStates (fst (disconnect_state d s))"
proof -
  obtain u n where u: "disconnect_state d s = (u, n)" by fastforce
  note frame = disconnect_state_frame [OF u]
  have ok: "adapter_ok u" using frame(1) assms(1) by simp
  have "trace t = trace s @ (if n then [DeviceOffline d] else []) \<and> lifecycleStates t = lifecycleStates u"
  proof (cases "deviceId2Conn u d")
    case None
    with assms(2) u frame(5) show ?thesis
      by (auto simp: handleDisconnect_def getDeviceSession_def)
  next
    case (Some c)
    have c: "c < length (conns u)" using adapter_okD(4) [OF ok Some] by simp
    from ReleaseUdpSession_facts [OF ok c] obtain w where "ReleaseUdpSession c u = Some w"
        "trace w = trace u" "lifecycleStates w = lifecycleStates u" by blast
    with Some assms(2) u frame(5) show ?thesis
      by (auto simp: handleDisconnect_def getDeviceSession_def)
  qed
  with u show "trace t = trace s @ (if snd (disconnect_state d s) then [DeviceOffline d] else [])"
    "lifecycleStates t = lifecycleStates (fst (disconnect_state d s))" by simp_all
qed

definition no_offline :: "notice list \<Rightarrow> bool" where
  "no_offline ns \<longleftrightarrow> (\<forall>n \<in> set ns. case n of DeviceOffline _ \<Rightarrow> False | _ \<Rightarrow> True)"

lemma no_offline_append [simp]:
  "no_offline []" "no_offline (xs @ ys) \<longleftrightarrow> no_offline xs \<and> no_offline ys"
  "no_offline [OtherClosed k d]"
  by (auto simp: no_offline_def)

lemma run_callbacks_unknown:
  "adapter_ok s \<Longrightarrow> lifecycleStates s = Map.empty \<Longrightarrow> run_callbacks d cbs s = Some t \<Longrightarrow>
   lifecycleStates t = Map.empty \<and> (\<exists>ns. trace t = trace s @ ns \<and> no_offline ns)"
proof (induction d cbs s rule: run_callbacks.induct)
  case (2 d cbs s)
  from handleDisconnect_ok [OF "2.prems"(1), of d] obtain u where u: "handleDisconnect d s = Some u" "adapter_ok u"
    by blast
  have none: "disconnect_state d s = (s, False)"
    using "2.prems"(2) by (simp add: disconnect_state_def getLifecycleState_def)
  have "lifecycleStates u = Map.empty" "trace u = trace s"
    using handleDisconnect_trace [OF "2.prems"(1) u(1)] none "2.prems"(2) by simp_all
  with "2.IH" [OF u(1,2)] "2.prems"(3) u(1) show ?case by simp
next
  case (3 d k cbs s)
  from "3.IH" "3.prems" obtain ns where "lifecycleStates t = Map.empty"
      "trace t = trace (notify (OtherClosed k d) s) @ ns" "no_offline ns" by auto
  then show ?case by (auto intro!: exI [of _ "OtherClosed k d # ns"] simp: no_offline_def)
qed (auto intro!: exI [of _ "[]"])

lemma clearDeviceSessions_unknown:
  "adapter_ok s \<Longrightarrow> lifecycleStates s = Map.empty \<Longrightarrow> clearDeviceSessions ds s = Some t \<Longrightarrow>
   \<exists>ns. trace t = trace s @ ns \<and> no_offline ns"
proof (induction ds arbitrary: s)
  case (Cons d ds)
  show ?case
  proof (cases "getDeviceSession s d")
    case (Some c)
    then have c: "conn_device (conns s ! c) = d" "HandleDisconnect \<in> set (onCloseCbList (conns s ! c))"
      using adapter_okD(4) [OF Cons.prems(1)] by (auto simp: getDeviceSession_def)
    obtain u where u: "DestroyConn c s = Some u" "adapter_ok u" "deviceId2Conn u = (deviceId2Conn s)(d := None)"
      using DestroyConn_ok [OF Cons.prems(1), of c] c by auto
    let ?s = "upd_conn c (\<lambda>k. k\<lparr>conn_online := False, retainedUntilTs := 0, cancelled := True\<rparr>) s"
    have run: "run_callbacks (conn_device (conns s ! c)) (onCloseCbList (conns s ! c)) ?s = Some u"
      using u(1) by (simp add: DestroyConn_def)
    have "lifecycleStates ?s = Map.empty" using Cons.prems(2) by simp
    from run_callbacks_unknown [OF mark_conn_ok(4) [OF Cons.prems(1)] this run] obtain ns where
      ns: "lifecycleStates u = Map.empty" "trace u = trace s @ ns" "no_offline ns" by auto
    have "clearDeviceSessions ds u = Some t"
    proof -
      have "u\<lparr>deviceId2Conn := (deviceId2Conn u)(d := None)\<rparr> = u" using u(3) by simp
      with Cons.prems(3) Some u(1) show ?thesis by simp
    qed
    with Cons.IH [OF u(2) ns(1)] ns(2,3) show ?thesis by auto
  qed (use Cons in simp)
qed (auto intro!: exI [of _ "[]"])

text \<open>Fact: reloading the UDP server or the MQTT client closes every device's connection without telling the
  application that a device went offline: the lifecycle states are cleared first, so \<^verbatim>\<open>handleDisconnect\<close>
  finds nothing to report.\<close>

theorem reload_reports_nobody_offline:
  assumes "adapter_reachable NewCipher parse ptype s" and "dom (deviceId2Conn s) \<subseteq> set ds"
    and "ReloadUdpServer srv ds s = Some t"
  shows "deviceId2Conn t = Map.empty \<and> (\<exists>ns. trace t = trace s @ ns \<and> no_offline ns)"
proof -
  let ?s = "clearLifecycleStates s"
  have ok: "adapter_ok ?s" using adapter_reachable_ok [OF assms(1)] by simp
  have same: "deviceId2Conn ?s = deviceId2Conn s" "trace ?s = trace s" "lifecycleStates ?s = Map.empty"
    by (simp_all add: clearLifecycleStates_def)
  from clearDeviceSessions_ok [OF ok, of ds] obtain u where u: "clearDeviceSessions ds ?s = Some u"
      "dom (deviceId2Conn u) \<subseteq> dom (deviceId2Conn ?s) - set ds" by blast
  then have "deviceId2Conn u = Map.empty" using assms(2) same(1) by auto
  with u(1) assms(3) clearDeviceSessions_unknown [OF ok same(3) u(1)] same(2) show ?thesis
    by (auto simp: ReloadUdpServer_def)
qed

lemma sample_transport_devices: "deviceId2Conn sample_transport = [''d'' \<mapsto> 0]"
  by (simp add: sample_transport_def adapter_step_def EnsureDeviceTransport_def getDeviceSession_def
      createUdpSession_def create_with_def CreateSession_def sample_cipher_def setClient_def
      updateSessionsClient_def NewMqttUdpAdapter_def NewUDPServer_def Let_def SetNonce2Session_def
      bindUdpSessionData_def SetDeviceSession_def notify_def upd_conn_def split: prod.split)

lemma reload_reports_nobody_offline_witness:
  "\<exists>t. ReloadUdpServer NewUDPServer [''d''] sample_transport = Some t \<and> deviceId2Conn t = Map.empty"
proof -
  have ds: "dom (deviceId2Conn sample_transport) \<subseteq> set [''d'']" by (simp add: sample_transport_devices)
  from reload_udp_ok [OF adapter_reachable_ok [OF sample_transport_reachable] ds, of NewUDPServer]
  obtain t where t: "ReloadUdpServer NewUDPServer [''d''] sample_transport = Some t"
    using new_server_free by blast
  from reload_reports_nobody_offline [OF sample_transport_reachable ds t] t show ?thesis by blast
qed

text \<open>The device's first message: the lifecycle state turns online before the transport exists.\<close>

lemma markDeviceOnline_first:
  assumes "d \<noteq> []" and "lifecycleStates s d = None" and "now \<ge> 10 ^ 6"
  shows "\<exists>st. markDeviceOnline now d (unix_milli now) s = (set_state d st s, True) \<and> brokerOnline st
    \<and> cleanupTimer st = None"
proof -
  have "unix_milli now > 0" using assms(3) by (simp add: unix_milli_def pos_imp_zdiv_pos_iff)
  with assms(1,2) show ?thesis
    by (intro exI [of _ "fst (mark_online (unix_milli now) fresh_state)"])
      (simp add: markDeviceOnline_def getOrCreateLifecycleState_def getLifecycleState_def event_time_def
        mark_online_def is_stale_def fresh_state_def set_state_def)
qed

lemma markDeviceOnline_again:
  assumes "d \<noteq> []" and "lifecycleStates s d = Some st" and "brokerOnline st"
  shows "snd (markDeviceOnline now d ts s) = False"
  using assms
  by (simp add: markDeviceOnline_def getOrCreateLifecycleState_def getLifecycleState_def mark_online_def)

lemma Ensure_trace:
  assumes "adapter_ok s" and "EnsureDeviceTransport NewCipher now k True d s = Some (t, r)"
  shows "lifecycleStates t = lifecycleStates s \<and> (trace t = trace s \<or> (\<exists>c. trace t = trace s @ [NewConnection c]))"
  using assms(2)
  by (auto simp: EnsureDeviceTransport_def createUdpSession_def Let_def notify_def upd_conn_def bindUdpSessionData_def
      SetDeviceSession_def split: option.splits prod.splits bind_splits)

definition told_online :: "string \<Rightarrow> notice list \<Rightarrow> bool" where
  "told_online d ns \<longleftrightarrow> DeviceOnline d \<in> set ns"

text \<open>Fact: a device whose first message arrives before the MQTT client is set is never reported online:
  that message turns its state online, gets no transport and no notice; a later message gets the
  transport, and no notice either, because the state is online already.\<close>

theorem failed_transport_loses_online_notice:
  assumes "adapter_reachable NewCipher parse ptype s" and "mclient s = None"
    and "lifecycleStates s d = None" and "deviceId2Conn s d = None"
    and "Topic msg \<noteq> MDeviceLifecycleTopic" and "ptype (Payload msg) = Some ty"
    and "d = snd (getDeviceIdByTopic (Topic msg))" and "d \<noteq> []" and "10 ^ 6 \<le> now"
  shows "\<exists>t. process_one NewCipher parse ptype now k1 k2 True msg s = Some t \<and> trace t = trace s
    \<and> deviceId2Conn t d = None
    \<and> (\<forall>client now' k3 u c notified. promoteDeviceOnline NewCipher now' k3 True d (unix_milli now') (setClient client t)
          = Some (u, Some c, notified) \<longrightarrow> \<not> notified \<and> deviceId2Conn u d = Some c
            \<and> (told_online d (trace u) \<longrightarrow> told_online d (trace s)))"
proof -
  note ok = adapter_reachable_ok [OF assms(1)]
  from markDeviceOnline_first [OF assms(8,3,9)] obtain st where st:
    "markDeviceOnline now d (unix_milli now) s = (set_state d st s, True)" "brokerOnline st" by blast
  let ?s = "set_state d st s"
  have ok': "adapter_ok ?s" using ok by simp
  from Ensure_ok [OF ok', of NewCipher now k1 True d] obtain t r where
    t: "EnsureDeviceTransport NewCipher now k1 True d ?s = Some (t, r)" "adapter_ok t" by blast
  have step: "r = None \<and> lifecycleStates t = lifecycleStates ?s \<and> trace t = trace s \<and> deviceId2Conn t = deviceId2Conn s"
    using t(1) assms(2,4)
    by (auto simp: EnsureDeviceTransport_def getDeviceSession_def createUdpSession_def
        split: option.splits prod.splits bind_splits)
  have "process_one NewCipher parse ptype now k1 k2 True msg s = Some t"
    using assms(5,6,8) st(1) t(1) step
    by (simp add: process_one_def Let_def promoteDeviceOnline_def flip: assms(7))
  moreover have "\<not> notified \<and> deviceId2Conn u d = Some c \<and> (told_online d (trace u) \<longrightarrow> told_online d (trace s))"
    if p: "promoteDeviceOnline NewCipher now' k3 True d (unix_milli now') (setClient client t) = Some (u, Some c, notified)"
    for client now' k3 u c notified
  proof -
    let ?t = "setClient client t"
    have okt: "adapter_ok ?t" by (rule setClient_ok [OF t(2)])
    have same: "lifecycleStates ?t d = Some st" "trace ?t = trace s" "deviceId2Conn ?t = deviceId2Conn s"
      using step by (simp_all add: setClient_def updateSessionsClient_def set_state_def)
    obtain w n where w: "markDeviceOnline now' d (unix_milli now') ?t = (w, n)" by fastforce
    have n: "\<not> n" using markDeviceOnline_again [OF assms(8) same(1) st(2), of now' "unix_milli now'"] w by simp
    have w': "trace w = trace s" "adapter_ok w"
      using mark_online_frame(1,4) [of now' d "unix_milli now'" ?t] w same(2) okt by simp_all
    obtain v where v: "EnsureDeviceTransport NewCipher now' k3 True d w = Some (v, Some c)" "n = notified"
        "u = upd_conn c (MarkBrokerOnline now') v"
      using p w by (auto simp: promoteDeviceOnline_def split: bind_splits)
    from Ensure_trace [OF w'(2) v(1)] w'(1) have "told_online d (trace u) \<longrightarrow> told_online d (trace s)"
      unfolding v(3) told_online_def by auto
    moreover have "deviceId2Conn u d = Some c"
      using promote_ok [OF okt, of NewCipher now' k3 True d "unix_milli now'"] p by auto
    ultimately show ?thesis using n v(2) by blast
  qed
  ultimately show ?thesis using step assms(4)
    by (intro exI [of _ t] conjI allI impI) (blast | simp)+
qed

lemma fresh_device_id:
  "snd (getDeviceIdByTopic ''/p2p/device_public/aa_bb'') = ''aa:bb''"
  "snd (getDeviceIdByTopic ''/p2p/device_public/GID@@@aa_bb@@@u'') = ''aa:bb''"
  "''/p2p/device_public/aa_bb'' \<noteq> MDeviceLifecycleTopic"
  by code_simp+

definition first_message :: mqtt_message where
  "first_message = \<lparr>Topic = ''/p2p/device_public/aa_bb'', Payload = []\<rparr>"

definition no_creation :: creation where
  "no_creation = ([], [], [], 0, [], [])"

lemma failed_transport_loses_online_notice_witness:
  "\<exists>t. process_one sample_cipher (\<lambda>_. None) (\<lambda>_. Some ''hello'') (10 ^ 9) no_creation no_creation True first_message
     (NewMqttUdpAdapter (Some (NewUDPServer :: nat udp_server)) None) = Some t \<and> trace t = []"
proof -
  let ?s = "NewMqttUdpAdapter (Some NewUDPServer) None :: nat adapter"
  have reach: "adapter_reachable sample_cipher (\<lambda>_. None) (\<lambda>_. Some ''hello'') ?s"
    by (rule adapter_new) (simp add: new_server_free)
  have s: "mclient ?s = None" "lifecycleStates ?s ''aa:bb'' = None" "deviceId2Conn ?s ''aa:bb'' = None"
    "trace ?s = []" by (simp_all add: NewMqttUdpAdapter_def)
  have msg: "Topic first_message \<noteq> MDeviceLifecycleTopic"
    "''aa:bb'' = snd (getDeviceIdByTopic (Topic first_message))"
    using fresh_device_id by (simp_all add: first_message_def)
  have "(10 :: int) ^ 6 \<le> 10 ^ 9" and "''aa:bb'' \<noteq> ([] :: string)" by simp_all
  from failed_transport_loses_online_notice [OF reach s(1-3) msg(1) refl msg(2) this(2,1), of no_creation no_creation]
  show ?thesis unfolding s(4) by blast
qed

text \<open>Fact: when the application cannot serve a device's new connection and closes it in the callback, as
  \<^verbatim>\<open>NewChatManager\<close> does when it cannot load the device's configuration, the application is told that
  the device went offline and then that it is online: the device stays reported online although it has
  no connection.\<close>

theorem unserved_device_reported_online:
  assumes "adapter_reachable NewCipher parse ptype s" and "mclient s = Some client"
    and "lifecycleStates s d = None" and "deviceId2Conn s d = None"
    and "Topic msg \<noteq> MDeviceLifecycleTopic" and "ptype (Payload msg) = Some ty"
    and "d = snd (getDeviceIdByTopic (Topic msg))" and "d \<noteq> []" and "10 ^ 6 \<le> now"
    and "createUdpSession NewCipher k1 s \<noteq> None"
  shows "\<exists>t c. process_one NewCipher parse ptype now k1 k2 False msg s = Some t \<and> deviceId2Conn t d = None
    \<and> trace t = trace s @ [NewConnection c, DeviceOffline d, DeviceOnline d, TransportReady d]"
proof -
  note ok = adapter_reachable_ok [OF assms(1)]
  from markDeviceOnline_first [OF assms(8,3,9)] obtain st where st:
    "markDeviceOnline now d (unix_milli now) s = (set_state d st s, True)" "brokerOnline st" by blast
  let ?s = "set_state d st s" and ?c = "length (conns s)"
  obtain s1 i where "createUdpSession NewCipher k1 s = Some (s1, i)" using assms(10) by fastforce
  then obtain s2 where s2: "createUdpSession NewCipher k1 ?s = Some (s2, i)"
    by (auto simp: createUdpSession_def split: option.splits prod.splits)
  have ok': "adapter_ok ?s" and none: "deviceId2Conn ?s d = None" and cl: "mclient ?s = Some client"
    using ok assms(2,4) by simp_all
  from Ensure_new [OF ok' none cl s2, of now False] obtain t where t:
    "EnsureDeviceTransport NewCipher now k1 False d ?s = do { s6 \<leftarrow> DestroyConn ?c t; Some (s6, Some ?c) }"
    "adapter_ok t" "length (conns t) = Suc ?c" "conn_device (conns t ! ?c) = d"
    "onCloseCbList (conns t ! ?c) = [HandleDisconnect]" "deviceId2Conn t = (deviceId2Conn s)(d \<mapsto> ?c)"
    "lifecycleStates t = lifecycleStates ?s" "trace t = trace s @ [NewConnection ?c]" by auto
  let ?t = "upd_conn ?c (\<lambda>k. k\<lparr>conn_online := False, retainedUntilTs := 0, cancelled := True\<rparr>) t"
  have okt: "adapter_ok ?t" by (rule mark_conn_ok(4) [OF t(2)])
  from handleDisconnect_ok [OF okt, of d] obtain u where u: "handleDisconnect d ?t = Some u" "adapter_ok u"
    "deviceId2Conn u = (deviceId2Conn ?t)(d := None)" "length (conns u) = Suc ?c" using t(3) by auto
  have "snd (disconnect_state d ?t)"
    using t(7) st(2) assms(8)
    by (simp add: disconnect_state_def getLifecycleState_def set_state_def upd_conn_def)
  then have trace: "trace u = trace s @ [NewConnection ?c, DeviceOffline d]"
    using handleDisconnect_trace(1) [OF okt u(1)] t(8) by simp
  have destroy: "DestroyConn ?c t = Some u" using u(1) t(4,5) by (simp add: DestroyConn_def)
  let ?u = "tell_online True d (upd_conn ?c (MarkBrokerOnline now) u)"
  have oku: "adapter_ok ?u" using u(2) by simp
  from push_ok [OF oku, of ?c now "Payload msg"] u(4) obtain q b where
    q: "PushMsgToRecvCmd now (Payload msg) (conns ?u ! ?c) = Some (q, b)" by auto
  have "process_one NewCipher parse ptype now k1 k2 False msg s = Some (upd_conn ?c (\<lambda>_. q) ?u)"
    using assms(4,5,6,8) st(1) t(1) destroy q
    by (simp add: process_one_def Let_def promoteDeviceOnline_def getDeviceSession_def flip: assms(7))
  moreover have "trace ?u = trace s @ [NewConnection ?c, DeviceOffline d, DeviceOnline d, TransportReady d]"
    using trace by (simp add: tell_online_def)
  ultimately show ?thesis using u(3) by simp
qed

lemma unserved_device_reported_online_witness:
  "\<exists>t c. process_one sample_cipher (\<lambda>_. None) (\<lambda>_. Some ''hello'') (10 ^ 9)
       ([], replicate 16 0, [1, 2, 3, 4], 0, ''aa:bb'', ''c'') no_creation False first_message
       (setClient 5 (NewMqttUdpAdapter (Some (NewUDPServer :: nat udp_server)) None)) = Some t
     \<and> trace t = [NewConnection c, DeviceOffline ''aa:bb'', DeviceOnline ''aa:bb'', TransportReady ''aa:bb'']"
proof -
  let ?new = "NewMqttUdpAdapter (Some NewUDPServer) None :: nat adapter"
  let ?s = "setClient 5 ?new"
  have 0: "adapter_reachable sample_cipher (\<lambda>_. None) (\<lambda>_. Some ''hello'') ?new"
    by (rule adapter_new) (simp add: new_server_free)
  have step: "adapter_step sample_cipher (\<lambda>_. None) (\<lambda>_. Some ''hello'') (MConnect [(5, True)]) ?new = Some ?s"
    by (simp add: adapter_step_def NewMqttUdpAdapter_def)
  have reach: "adapter_reachable sample_cipher (\<lambda>_. None) (\<lambda>_. Some ''hello'') ?s"
    by (rule adapter_next [OF 0 _ step]) (simp add: adapter_valid_def)
  have s: "mclient ?s = Some 5" "lifecycleStates ?s ''aa:bb'' = None" "deviceId2Conn ?s ''aa:bb'' = None"
    "trace ?s = []"
    by (simp_all add: NewMqttUdpAdapter_def setClient_def updateSessionsClient_def)
  have create: "createUdpSession sample_cipher ([], replicate 16 0, [1, 2, 3, 4], 0, ''aa:bb'', ''c'') ?s \<noteq> None"
    by (simp add: createUdpSession_def create_with_def CreateSession_def sample_cipher_def setClient_def
        updateSessionsClient_def NewMqttUdpAdapter_def Let_def)
  have msg: "Topic first_message \<noteq> MDeviceLifecycleTopic"
    "''aa:bb'' = snd (getDeviceIdByTopic (Topic first_message))"
    using fresh_device_id by (simp_all add: first_message_def)
  from unserved_device_reported_online [OF reach s(1-3) msg(1) refl msg(2) _ _ create, of "10 ^ 9" no_creation] s(4)
  show ?thesis by auto
qed

end
