(* ===== verification/Ogg_Opus.thy ===== *)
theory Ogg_Opus
  imports Byte_Codec
begin

text \<open>
  \<^verbatim>\<open>internal/util/ogg_opus.go\<close> and the Ogg/Opus reader and packet arithmetic of
  \<^verbatim>\<open>internal/util/audio_utils.go\<close>: packets wrapped into Ogg pages and read back. The reader's stream
  is the list of bytes still to come; its loops consume at least a page header each turn, so they end.
  The Opus codec itself, which is third-party, is not modelled; \<^verbatim>\<open>PCM16ToOggOpus\<close> gets the encoder as a
  function. Sample rates are far below the bounds of \<^verbatim>\<open>int\<close>.
\<close>

section \<open>Sample rates\<close>

definition supportedOpusSampleRates :: "int list" where
  "supportedOpusSampleRates = [8000, 12000, 16000, 24000, 48000]"

fun nearest_rate :: "int \<Rightarrow> int list \<Rightarrow> int \<Rightarrow> int \<Rightarrow> int" where
  "nearest_rate sampleRate [] best bestDistance = best"
| "nearest_rate sampleRate (candidate # cs) best bestDistance =
     (let distance = \<bar>sampleRate - candidate\<bar>
      in if distance < bestDistance then nearest_rate sampleRate cs candidate distance
         else nearest_rate sampleRate cs best bestDistance)"

definition NormalizeOpusSampleRate :: "int \<Rightarrow> int" where
  "NormalizeOpusSampleRate sampleRate =
     (if sampleRate \<le> 0 then 16000
      else (let best = hd supportedOpusSampleRates
            in nearest_rate sampleRate (tl supportedOpusSampleRates) best \<bar>sampleRate - best\<bar>))"

section \<open>Writing pages\<close>

text \<open>\<^verbatim>\<open>hash/crc32\<close> with the IEEE polynomial, bit by bit.\<close>

fun crc_bits :: "nat \<Rightarrow> 32 word \<Rightarrow> 32 word" where
  "crc_bits 0 c = c"
| "crc_bits (Suc n) c = crc_bits n (if bit c 0 then drop_bit 1 c XOR 0xEDB88320 else drop_bit 1 c)"

definition ChecksumIEEE :: "bytes \<Rightarrow> 32 word" where
  "ChecksumIEEE bs = NOT (foldl (\<lambda>c b. crc_bits 8 (c XOR ucast b)) (NOT 0) bs)"

definition ascii :: "string \<Rightarrow> bytes" where
  "ascii s = map (\<lambda>c. of_nat (of_char c)) s"

fun buildOggSegments :: "nat \<Rightarrow> bytes" where
  \<comment> \<open>lengths are not negative: \<^verbatim>\<open>packetLen <= 0\<close> is 0\<close>
  "buildOggSegments packetLen =
     (if packetLen = 0 then [0]
      else replicate (packetLen div 255) 255 @ [of_nat (packetLen mod 255)])"

definition buildOggPage :: "32 word \<Rightarrow> 32 word \<Rightarrow> byte \<Rightarrow> 64 word \<Rightarrow> bytes \<Rightarrow> bytes" where
  "buildOggPage serial sequence headerType granulePosition packet =
     (let segments = buildOggSegments (length packet);
          before = ascii ''OggS'' @ [0, headerType] @ le64 granulePosition @ le32 serial @ le32 sequence;
          after = [of_nat (length segments)] @ segments @ packet;
          checksum = ChecksumIEEE (before @ [0, 0, 0, 0] @ after)
      in before @ le32 checksum @ after)"

definition buildOpusHeadPacket :: "int \<Rightarrow> int \<Rightarrow> bytes" where
  "buildOpusHeadPacket sampleRate channels =
     ascii ''OpusHead'' @ [1, of_int channels] @ le16 0 @ le32 (of_int sampleRate) @ le16 0 @ [0]"

definition buildOpusTagsPacket :: bytes where
  "buildOpusTagsPacket =
     (let vendor = ascii ''xiaozhi-mock-ai-server''
      in ascii ''OpusTags'' @ le32 (of_nat (length vendor)) @ vendor @ le32 0)"

definition ogg_serial :: "32 word" where "ogg_serial = 0x58495a48"

fun wrap_packets :: "64 word \<Rightarrow> nat \<Rightarrow> 64 word \<Rightarrow> bytes list \<Rightarrow> bytes" where
  \<comment> \<open>the loop, from packet \<open>i\<close> on\<close>
  "wrap_packets frameSize i granulePosition [] = []"
| "wrap_packets frameSize i granulePosition (packet # packets) =
     (let granulePosition = granulePosition + frameSize;
          headerType = (if packets = [] then 0x04 else 0)
      in buildOggPage ogg_serial (of_nat (i + 2)) headerType granulePosition packet
         @ wrap_packets frameSize (Suc i) granulePosition packets)"

definition WrapOggOpusPackets :: "bytes list \<Rightarrow> int \<Rightarrow> int \<Rightarrow> int \<Rightarrow> bytes" where
  "WrapOggOpusPackets packets sampleRate channels frameSizePerChannel =
     buildOggPage ogg_serial 0 0x02 0 (buildOpusHeadPacket sampleRate channels)
     @ buildOggPage ogg_serial 1 0x00 0 buildOpusTagsPacket
     @ wrap_packets (of_int frameSizePerChannel) 0 0 packets"

section \<open>Encoding\<close>

type_synonym ('enc) opus_encode = "'enc \<Rightarrow> int list \<Rightarrow> ('enc \<times> bytes) option"

function frames_of :: "nat \<Rightarrow> int list \<Rightarrow> int list list" where
  \<comment> \<open>frames of \<open>frameSize\<close> samples, the last one padded with zeros\<close>
  "frames_of frameSize samples =
     (if samples = [] \<or> frameSize = 0 then []
      else (take frameSize samples @ replicate (frameSize - length samples) 0)
           # frames_of frameSize (drop frameSize samples))"
  by pat_completeness auto
termination
  by (relation "measure (\<lambda>(n, xs). length xs)") (auto simp: length_greater_0_conv)

declare frames_of.simps [simp del]

fun encode_frames :: "'enc opus_encode \<Rightarrow> 'enc \<Rightarrow> int list list \<Rightarrow> bytes list option" where
  "encode_frames enc e [] = Some []"
| "encode_frames enc e (f # fs) =
     (case enc e f of
        None \<Rightarrow> None
      | Some (e', packet) \<Rightarrow> map_option (Cons packet) (encode_frames enc e' fs))"

definition PCM16ToOggOpus ::
  "(int \<Rightarrow> int \<Rightarrow> 'enc option) \<Rightarrow> 'enc opus_encode \<Rightarrow> int list \<Rightarrow> int \<Rightarrow> int \<Rightarrow> int \<Rightarrow> bytes option" where
  \<comment> \<open>\<open>None\<close>: an error\<close>
  "PCM16ToOggOpus NewEncoder enc samples sampleRate channels frameDurationMs =
     (if channels < 1 \<or> channels > 2 then None
      else (let sampleRate = NormalizeOpusSampleRate sampleRate;
                frameDurationMs = (if frameDurationMs \<le> 0 then 20 else frameDurationMs);
                frameSizePerChannel = sampleRate * frameDurationMs div 1000
            in if frameSizePerChannel \<le> 0 then None
               else (case NewEncoder sampleRate channels of
                       None \<Rightarrow> None
                     | Some e \<Rightarrow>
                         (case encode_frames enc e (frames_of (nat (frameSizePerChannel * channels)) samples) of
                            None \<Rightarrow> None
                          | Some packets \<Rightarrow>
                              Some (WrapOggOpusPackets packets sampleRate channels frameSizePerChannel)))))"

section \<open>Reading pages\<close>

datatype ogg_error = EOF | UnexpectedEOF | BadPage | BadPacket | MissingHeader

record ogg_page =
  HeaderType :: byte
  Segments :: bytes
  Body :: bytes

record stream_info =
  SampleRate :: int
  Channels :: int

record ogg_reader =
  rest :: bytes
  packet_queue :: "bytes list"
  carry :: bytes
  info :: stream_info
  headSeen :: bool
  tagsSeen :: bool

definition new_reader :: "bytes \<Rightarrow> ogg_reader" where
  "new_reader bs = \<lparr>rest = bs, packet_queue = [], carry = [], info = \<lparr>SampleRate = 0, Channels = 0\<rparr>,
     headSeen = False, tagsSeen = False\<rparr>"

definition readOggPage :: "bytes \<Rightarrow> (ogg_error + ogg_page) \<times> bytes" where
  \<comment> \<open>with what is left of the stream\<close>
  "readOggPage bs =
     (if bs = [] then (Inl EOF, [])
      else if length bs < 27 then (Inl UnexpectedEOF, [])
      else (let header = take 27 bs; bs1 = drop 27 bs
            in if take 4 header \<noteq> ascii ''OggS'' then (Inl BadPage, bs1)
               else if header ! 4 \<noteq> 0 then (Inl BadPage, bs1)
               else (let segmentCount = unat (header ! 26)
                     in if length bs1 < segmentCount then (Inl UnexpectedEOF, [])
                        else (let segments = take segmentCount bs1; bs2 = drop segmentCount bs1;
                                  bodyLen = sum_list (map (\<lambda>b. unat b) segments)
                              in if length bs2 < bodyLen then (Inl UnexpectedEOF, [])
                                 else (Inr \<lparr>HeaderType = header ! 5, Segments = segments,
                                            Body = take bodyLen bs2\<rparr>, drop bodyLen bs2)))))"

definition parseOpusHeadPacket :: "bytes \<Rightarrow> stream_info option" where
  "parseOpusHeadPacket packet =
     (if length packet < 19 then None
      else if \<not> prefix (ascii ''OpusHead'') packet then None
      else (let channels = (if uint (packet ! 9) < 1 then 1 else uint (packet ! 9));
                sampleRate = uint (le_uint32_of (drop 12 packet));
                sampleRate = (if sampleRate \<le> 0 then 48000 else sampleRate)
            in Some \<lparr>SampleRate = NormalizeOpusSampleRate sampleRate, Channels = channels\<rparr>))"

definition handlePacket :: "bytes \<Rightarrow> ogg_reader \<Rightarrow> ogg_reader \<times> ogg_error option" where
  "handlePacket packet r =
     (if \<not> headSeen r then
        (case parseOpusHeadPacket packet of
           None \<Rightarrow> (r, Some BadPacket)
         | Some i \<Rightarrow> (r\<lparr>info := i, headSeen := True\<rparr>, None))
      else if \<not> tagsSeen r then
        (if prefix (ascii ''OpusTags'') packet then (r\<lparr>tagsSeen := True\<rparr>, None)
         else (r, Some BadPacket))
      else if packet \<noteq> [] then (r\<lparr>packet_queue := packet_queue r @ [packet]\<rparr>, None)
      else (r, None))"

fun read_segments :: "bytes \<Rightarrow> bytes \<Rightarrow> bytes \<Rightarrow> ogg_reader \<Rightarrow> ogg_reader \<times> (ogg_error + bytes \<times> bytes)" where
  \<comment> \<open>the loop over segment lengths: the rest of the body and the packet so far\<close>
  "read_segments [] body packet r = (r, Inr (body, packet))"
| "read_segments (segmentLen # segs) body packet r =
     (if unat segmentLen > length body then (r, Inl BadPage)
      else (let packet = packet @ take (unat segmentLen) body; body = drop (unat segmentLen) body
            in if segmentLen < 255 then
                 (case handlePacket packet r of
                    (r, Some e) \<Rightarrow> (r, Inl e)
                  | (r, None) \<Rightarrow> read_segments segs body [] r)
               else read_segments segs body packet r))"

definition readNextPage :: "ogg_reader \<Rightarrow> ogg_reader \<times> ogg_error option" where
  "readNextPage r =
     (case readOggPage (rest r) of
        (Inl e, bs) \<Rightarrow> (r\<lparr>rest := bs\<rparr>, Some e)
      | (Inr page, bs) \<Rightarrow>
          (let r = r\<lparr>rest := bs\<rparr>
           in if carry r = [] \<and> HeaderType page AND 0x01 \<noteq> 0 then (r, Some BadPage)
              else (case read_segments (Segments page) (Body page) (carry r) r of
                      (r, Inl e) \<Rightarrow> (r, Some e)
                    | (r, Inr (body, packet)) \<Rightarrow>
                        if body \<noteq> [] then (r, Some BadPage) else (r\<lparr>carry := packet\<rparr>, None))))"

text \<open>Every page read, also one that is refused, takes bytes off the stream.\<close>

lemma readOggPage_shorter: "readOggPage bs = (x, bs') \<Longrightarrow> bs \<noteq> [] \<Longrightarrow> length bs' < length bs"
  by (auto simp: readOggPage_def Let_def split: if_splits)

lemma handlePacket_rest [simp]: "rest (fst (handlePacket p r)) = rest r"
  by (simp add: handlePacket_def split: option.split)

lemma read_segments_rest [simp]: "rest (fst (read_segments segs body p r)) = rest r"
proof (induction segs body p r rule: read_segments.induct)
  case (2 s segs body p r)
  obtain r' x where x: "handlePacket (p @ take (unat s) body) r = (r', x)" by fastforce
  then have "rest r' = rest r" using handlePacket_rest [of "p @ take (unat s) body" r] by simp
  with 2 x show ?case by (cases x) (auto simp: Let_def)
qed simp

lemma readNextPage_rest [simp]: "rest (fst (readNextPage r)) = snd (readOggPage (rest r))"
proof -
  obtain x bs where x: "readOggPage (rest r) = (x, bs)" by fastforce
  show ?thesis
  proof (cases x)
    case (Inr page)
    obtain r' y where y: "read_segments (Segments page) (Body page) (carry r) (r\<lparr>rest := bs\<rparr>) = (r', y)"
      by fastforce
    then have "rest r' = bs"
      using read_segments_rest [of "Segments page" "Body page" "carry r" "r\<lparr>rest := bs\<rparr>"] by simp
    with x y Inr show ?thesis by (cases y) (auto simp: readNextPage_def Let_def)
  qed (use x in \<open>simp add: readNextPage_def\<close>)
qed

lemma readNextPage_shorter:
  assumes "readNextPage r = (r', e)" and "rest r \<noteq> []"
  shows "length (rest r') < length (rest r)"
  using readNextPage_rest [of r] readOggPage_shorter [of "rest r"] assms by (metis fst_conv prod.collapse)

lemma readNextPage_empty: "rest r = [] \<Longrightarrow> readNextPage r = (r, Some EOF)"
  by (simp add: readNextPage_def readOggPage_def)

function Prepare :: "ogg_reader \<Rightarrow> ogg_reader \<times> (ogg_error + stream_info)" where
  "Prepare r =
     (if \<not> headSeen r \<or> \<not> tagsSeen r then
        (if rest r = [] then (r, Inl MissingHeader)
         else (case readNextPage r of
                 (r, None) \<Rightarrow> Prepare r
               | (r, Some e) \<Rightarrow> (r, Inl (if e = EOF then MissingHeader else e))))
      else (let i = info r;
                i = (if SampleRate i \<le> 0 then i\<lparr>SampleRate := 48000\<rparr> else i);
                i = (if Channels i \<le> 0 then i\<lparr>Channels := 1\<rparr> else i)
            in (r\<lparr>info := i\<rparr>, Inr i)))"
  by pat_completeness auto
termination
  by (relation "measure (\<lambda>r. length (rest r))") (auto intro: readNextPage_shorter [OF sym])

function NextPacket :: "ogg_reader \<Rightarrow> ogg_reader \<times> (ogg_error + bytes)" where
  "NextPacket r =
     (case packet_queue r of
        packet # queue \<Rightarrow> (r\<lparr>packet_queue := queue\<rparr>, Inr packet)
      | [] \<Rightarrow>
          (if rest r = [] then (r, Inl (if carry r \<noteq> [] then UnexpectedEOF else EOF))
           else (case readNextPage r of
                   (r, None) \<Rightarrow> NextPacket r
                 | (r, Some e) \<Rightarrow> (r, Inl (if e = EOF \<and> carry r \<noteq> [] then UnexpectedEOF else e)))))"
  by pat_completeness auto
termination
  by (relation "measure (\<lambda>r. length (rest r))") (auto intro: readNextPage_shorter [OF sym])

declare Prepare.simps [simp del] NextPacket.simps [simp del]

text \<open>The empty stream, where \<^verbatim>\<open>readNextPage\<close> reports the end, is written out in both loops; it is the
  same as reading on.\<close>

lemma Prepare_at_end:
  "\<not> headSeen r \<or> \<not> tagsSeen r \<Longrightarrow> Prepare r =
     (case readNextPage r of
        (r, None) \<Rightarrow> Prepare r
      | (r, Some e) \<Rightarrow> (r, Inl (if e = EOF then MissingHeader else e)))"
  by (subst Prepare.simps) (auto simp: readNextPage_empty)

lemma NextPacket_at_end:
  "packet_queue r = [] \<Longrightarrow> NextPacket r =
     (case readNextPage r of
        (r, None) \<Rightarrow> NextPacket r
      | (r, Some e) \<Rightarrow> (r, Inl (if e = EOF \<and> carry r \<noteq> [] then UnexpectedEOF else e)))"
  by (subst NextPacket.simps) (auto simp: readNextPage_empty)

section \<open>Packet durations\<close>

definition opusPacketSamplesPerFrame :: "byte \<Rightarrow> int \<Rightarrow> int" where
  "opusPacketSamplesPerFrame toc sampleRate =
     (if toc AND 0x80 \<noteq> 0 then (sampleRate * 2 ^ unat (drop_bit 3 toc AND 0x03)) div 400
      else if toc AND 0x60 = 0x60 then
        (if toc AND 0x08 \<noteq> 0 then sampleRate div 50 else sampleRate div 100)
      else (let audioSize = drop_bit 3 toc AND 0x03
            in if audioSize = 3 then sampleRate * 60 div 1000
               else (sampleRate * 2 ^ unat audioSize) div 100))"

definition opusPacketFrameCount :: "bytes \<Rightarrow> int option" where
  "opusPacketFrameCount packet =
     (case packet of
        [] \<Rightarrow> None
      | b # bs \<Rightarrow>
          (let c = b AND 0x03
           in if c = 0 then Some 1
              else if c = 1 \<or> c = 2 then Some 2
              else (case bs of [] \<Rightarrow> None | n # _ \<Rightarrow> Some (uint (n AND 0x3F)))))"

definition opusPacketDurationMs :: "bytes \<Rightarrow> int \<Rightarrow> int option" where
  "opusPacketDurationMs packet sampleRate =
     (case packet of
        [] \<Rightarrow> None
      | b # _ \<Rightarrow>
          (let sampleRate = (if sampleRate \<le> 0 then 48000 else sampleRate);
               samplesPerFrame = opusPacketSamplesPerFrame b sampleRate
           in map_option (\<lambda>frameCount. samplesPerFrame * frameCount * 1000 div sampleRate)
                (opusPacketFrameCount packet)))"

section \<open>A page is read back\<close>

lemma length_ascii [simp]: "length (ascii s) = length s"
  by (simp add: ascii_def)

lemma length_segments: "length (buildOggSegments n) = n div 255 + 1"
  by simp

lemma sum_segments: "sum_list (map (\<lambda>b. unat b) (buildOggSegments n)) = n"
proof -
  have small: "n mod 255 < 256" using mod_less_divisor [of 255 n] by linarith
  then have "unat (of_nat (n mod 255) :: byte) = n mod 255"
    by (simp add: unsigned_of_nat take_bit_nat_eq_self)
  moreover have "sum_list (map (\<lambda>b. unat b) (replicate k (255 :: byte))) = 255 * k" for k
    by (induction k) simp_all
  ultimately show ?thesis by simp
qed

declare buildOggSegments.simps [simp del]

lemma page_split:
  "\<exists>bs22 crc. length bs22 = 22 \<and> take 4 bs22 = ascii ''OggS'' \<and> bs22 ! 4 = 0 \<and> bs22 ! 5 = ht \<and> length crc = 4
     \<and> buildOggPage serial sq ht gp packet
         = bs22 @ crc @ [of_nat (length (buildOggSegments (length packet)))] @ buildOggSegments (length packet) @ packet"
  unfolding buildOggPage_def Let_def
  by (intro exI [of _ "ascii ''OggS'' @ [0, ht] @ le64 gp @ le32 serial @ le32 sq"] exI conjI)
    (auto simp: ascii_def nth_append)

lemma read_built_page:
  assumes "length packet < 65025"
  shows "readOggPage (buildOggPage serial sq ht gp packet @ after_page) =
     (Inr \<lparr>HeaderType = ht, Segments = buildOggSegments (length packet), Body = packet\<rparr>, after_page)"
proof -
  let ?segs = "buildOggSegments (length packet)" and ?n = "of_nat (length (buildOggSegments (length packet))) :: byte"
  obtain bs22 crc where s: "length bs22 = 22" "take 4 bs22 = ascii ''OggS''" "bs22 ! 4 = 0" "bs22 ! 5 = ht" "length crc = 4"
      "buildOggPage serial sq ht gp packet = bs22 @ crc @ [?n] @ ?segs @ packet"
    using page_split by metis
  have "length ?segs < 256" using assms unfolding length_segments by (simp add: less_mult_imp_div_less)
  then have n: "unat ?n = length ?segs" by (simp add: unsigned_of_nat take_bit_nat_eq_self)
  have bs: "buildOggPage serial sq ht gp packet @ after_page = (bs22 @ crc @ [?n]) @ ?segs @ packet @ after_page"
    using s(6) by simp
  have header: "take 27 ((bs22 @ crc @ [?n]) @ ?segs @ packet @ after_page) = bs22 @ crc @ [?n]"
    "drop 27 ((bs22 @ crc @ [?n]) @ ?segs @ packet @ after_page) = ?segs @ packet @ after_page"
    "\<not> length ((bs22 @ crc @ [?n]) @ ?segs @ packet @ after_page) < 27"
    "(bs22 @ crc @ [?n]) @ ?segs @ packet @ after_page \<noteq> []"
    using s(1,5) by simp_all
  have fields: "take 4 (bs22 @ crc @ [?n]) = ascii ''OggS''" "(bs22 @ crc @ [?n]) ! 4 = 0"
    "(bs22 @ crc @ [?n]) ! 5 = ht" "(bs22 @ crc @ [?n]) ! 26 = ?n"
    using s(1-5) by (simp_all add: nth_append)
  show ?thesis
    unfolding bs readOggPage_def Let_def header fields n
    using sum_segments [of "length packet"] s(1,5) by simp
qed

lemma read_run_segments:
  "length body = 255 * k + unat m \<Longrightarrow> m < 255 \<Longrightarrow>
   read_segments (replicate k 255 @ [m]) body packet r =
     (case handlePacket (packet @ body) r of (r, Some e) \<Rightarrow> (r, Inl e) | (r, None) \<Rightarrow> (r, Inr ([], [])))"
proof (induction k arbitrary: body packet)
  case 0
  then show ?case by (auto simp: Let_def split: prod.split option.split)
next
  case (Suc k)
  let ?b = "drop 255 body"
  have "length ?b = 255 * k + unat m" using Suc.prems(1) by simp
  from Suc.IH [OF this Suc.prems(2), of "packet @ take 255 body"] Suc.prems(1) show ?case
    by (simp add: Let_def)
qed

lemma read_built_segments:
  "read_segments (buildOggSegments (length body)) body packet r =
     (case handlePacket (packet @ body) r of (r, Some e) \<Rightarrow> (r, Inl e) | (r, None) \<Rightarrow> (r, Inr ([], [])))"
proof (cases "body = []")
  case True
  then show ?thesis
    using read_run_segments [of body 0 0 packet r] by (simp add: buildOggSegments.simps)
next
  case False
  let ?m = "of_nat (length body mod 255) :: byte"
  have lt: "length body mod 255 < 255" by simp
  then have m: "unat ?m = length body mod 255" by (simp add: unsigned_of_nat take_bit_nat_eq_self)
  then have "?m < 255" using lt by (simp add: word_less_nat_alt)
  moreover have "length body = 255 * (length body div 255) + unat ?m" by (simp add: m)
  ultimately show ?thesis
    using read_run_segments [of body "length body div 255" ?m packet r] False
    by (simp add: buildOggSegments.simps)
qed

text \<open>A packet's page read at a packet boundary: the packet is handled, nothing is carried over.\<close>

lemma readNextPage_built:
  assumes "length packet < 65025" and "rest r = buildOggPage serial sq ht gp packet @ after_page"
    and "carry r = []" and "ht AND 1 = 0"
  shows "readNextPage r =
     (case handlePacket packet (r\<lparr>rest := after_page\<rparr>) of
        (r, Some e) \<Rightarrow> (r, Some e) | (r, None) \<Rightarrow> (r\<lparr>carry := []\<rparr>, None))"
  using assms
  by (simp add: readNextPage_def read_built_page read_built_segments Let_def split: prod.split option.split)

section \<open>A wrapped stream is read back\<close>

fun read_packets :: "nat \<Rightarrow> ogg_reader \<Rightarrow> bytes list \<times> ogg_error option" where
  \<comment> \<open>what the decoder does: the next packet, up to \<open>n\<close> times, until there is none\<close>
  "read_packets 0 r = ([], None)"
| "read_packets (Suc n) r =
     (case NextPacket r of
        (r, Inl e) \<Rightarrow> ([], Some e)
      | (r, Inr packet) \<Rightarrow> (case read_packets n r of (ps, e) \<Rightarrow> (packet # ps, e)))"

definition packet_fits :: "bytes \<Rightarrow> bool" where
  \<comment> \<open>what one page can hold\<close>
  "packet_fits packet \<longleftrightarrow> packet \<noteq> [] \<and> length packet < 65025"

lemma last_page_flag: "(0x04 :: byte) AND 1 = 0" "(0x02 :: byte) AND 1 = 0"
  by code_simp+

lemma Cons_page_nonempty [simp]: "buildOggPage serial sq ht gp packet \<noteq> []"
  by (simp add: buildOggPage_def Let_def ascii_def)

lemma NextPacket_wrapped:
  assumes "packet_fits packet" and "headSeen r" and "tagsSeen r" and "carry r = []" and "packet_queue r = []"
    and "rest r = buildOggPage serial sq ht gp packet @ after_page" and "ht AND 1 = 0"
  shows "NextPacket r = (r\<lparr>rest := after_page\<rparr>, Inr packet)"
proof -
  have "handlePacket packet (r\<lparr>rest := after_page\<rparr>) = (r\<lparr>rest := after_page, packet_queue := [packet]\<rparr>, None)"
    using assms(1-3,5) by (simp add: handlePacket_def packet_fits_def)
  with readNextPage_built [OF _ assms(6,4,7)] assms(1)
  have "readNextPage r = (r\<lparr>rest := after_page, packet_queue := [packet], carry := []\<rparr>, None)"
    by (simp add: packet_fits_def)
  then have "NextPacket r = NextPacket (r\<lparr>rest := after_page, packet_queue := [packet], carry := []\<rparr>)"
    using assms(5,6) by (subst NextPacket.simps) simp
  also have "\<dots> = (r\<lparr>rest := after_page\<rparr>, Inr packet)"
    using assms(4,5) by (subst NextPacket.simps) simp
  finally show ?thesis .
qed

lemma read_wrapped:
  assumes "\<forall>p \<in> set packets. packet_fits p" and "headSeen r" and "tagsSeen r" and "carry r = []" and "packet_queue r = []"
    and "rest r = wrap_packets fs i gp packets"
  shows "read_packets (Suc (length packets)) r = (packets, Some EOF)"
  using assms
proof (induction packets arbitrary: i gp r)
  case Nil
  then show ?case by (simp add: NextPacket.simps [of r])
next
  case (Cons packet packets)
  let ?ht = "if packets = [] then 0x04 else 0 :: byte"
  let ?after = "wrap_packets fs (Suc i) (gp + fs) packets"
  have page: "rest r = buildOggPage ogg_serial (of_nat (i + 2)) ?ht (gp + fs) packet @ ?after"
    using Cons.prems(6) by (simp add: Let_def)
  have "packet_fits packet" and ht: "?ht AND 1 = 0" using Cons.prems(1) last_page_flag by simp_all
  from NextPacket_wrapped [OF this(1) Cons.prems(2-5) page ht]
  have next_p: "NextPacket r = (r\<lparr>rest := ?after\<rparr>, Inr packet)" .
  have "read_packets (Suc (length packets)) (r\<lparr>rest := ?after\<rparr>) = (packets, Some EOF)"
    by (rule Cons.IH) (use Cons.prems in simp_all)
  then show ?case
    unfolding length_Cons by (subst read_packets.simps(2)) (simp add: next_p del: read_packets.simps)
qed

lemma head_packet:
  "length (buildOpusHeadPacket sr ch) = 19" "prefix (ascii ''OpusHead'') (buildOpusHeadPacket sr ch)"
  "buildOpusHeadPacket sr ch ! 9 = of_int ch"
  "drop 12 (buildOpusHeadPacket sr ch) = le32 (of_int sr) @ le16 0 @ [0]"
  by (simp_all add: buildOpusHeadPacket_def ascii_def nth_append)

lemma tags_packet: "length buildOpusTagsPacket = 38" "prefix (ascii ''OpusTags'') buildOpusTagsPacket"
  by (simp_all add: buildOpusTagsPacket_def Let_def)

lemma parse_head:
  assumes "0 < sr" and "sr < 2 ^ 32" and "1 \<le> ch" and "ch < 256"
  shows "parseOpusHeadPacket (buildOpusHeadPacket sr ch)
    = Some \<lparr>SampleRate = NormalizeOpusSampleRate sr, Channels = ch\<rparr>"
proof -
  have "uint (of_int ch :: byte) = ch" "uint (of_int sr :: 32 word) = sr"
    using assms by (simp_all add: unsigned_of_int take_bit_int_eq_self)
  with assms head_packet [of sr ch] show ?thesis by (simp add: parseOpusHeadPacket_def Let_def)
qed

lemma nearest_rate_spec:
  "bestDistance = \<bar>sr - best\<bar> \<Longrightarrow>
   nearest_rate sr cs best bestDistance \<in> insert best (set cs)
   \<and> (\<forall>c \<in> insert best (set cs). \<bar>sr - nearest_rate sr cs best bestDistance\<bar> \<le> \<bar>sr - c\<bar>)"
proof (induction sr cs best bestDistance rule: nearest_rate.induct)
  case (2 sr c cs best d)
  show ?case
  proof (cases "\<bar>sr - c\<bar> < d")
    case True
    with 2 show ?thesis by (auto simp: Let_def)
  next
    case False
    with 2 show ?thesis by (fastforce simp: Let_def)
  qed
qed simp

text \<open>Fact: the normalised sample rate is one that Opus supports, and none is nearer to a positive rate;
  supported rates stay as they are.\<close>

theorem normalized_rate_is_nearest:
  "NormalizeOpusSampleRate sr \<in> set supportedOpusSampleRates
   \<and> (0 < sr \<longrightarrow> (\<forall>c \<in> set supportedOpusSampleRates. \<bar>sr - NormalizeOpusSampleRate sr\<bar> \<le> \<bar>sr - c\<bar>))
   \<and> (sr \<in> set supportedOpusSampleRates \<longrightarrow> NormalizeOpusSampleRate sr = sr)"
proof -
  have near: "0 < sr \<Longrightarrow> NormalizeOpusSampleRate sr \<in> set supportedOpusSampleRates
    \<and> (\<forall>c \<in> set supportedOpusSampleRates. \<bar>sr - NormalizeOpusSampleRate sr\<bar> \<le> \<bar>sr - c\<bar>)"
    using nearest_rate_spec [of _ sr "hd supportedOpusSampleRates" "tl supportedOpusSampleRates"]
    by (simp add: NormalizeOpusSampleRate_def supportedOpusSampleRates_def Let_def del: nearest_rate.simps)
  have fixed: "NormalizeOpusSampleRate sr = sr" if "sr \<in> set supportedOpusSampleRates"
  proof -
    have "0 < sr" using that by (auto simp: supportedOpusSampleRates_def)
    from near [OF this] that have "\<bar>sr - NormalizeOpusSampleRate sr\<bar> \<le> \<bar>sr - sr\<bar>" by blast
    then show ?thesis by simp
  qed
  show ?thesis
  proof (cases "0 < sr")
    case True
    with near fixed show ?thesis by blast
  next
    case False
    then have "NormalizeOpusSampleRate sr = 16000" by (simp add: NormalizeOpusSampleRate_def)
    with False fixed show ?thesis by (simp add: supportedOpusSampleRates_def)
  qed
qed

lemma NormalizeOpusSampleRate_pos: "0 < NormalizeOpusSampleRate sr"
proof (cases "0 < sr")
  case True
  have "NormalizeOpusSampleRate sr \<in> set supportedOpusSampleRates"
    using nearest_rate_spec [of _ sr "hd supportedOpusSampleRates" "tl supportedOpusSampleRates"] True
    by (simp add: NormalizeOpusSampleRate_def supportedOpusSampleRates_def Let_def del: nearest_rate.simps)
  then show ?thesis by (auto simp: supportedOpusSampleRates_def)
qed (simp add: NormalizeOpusSampleRate_def)

lemma Prepare_wrapped:
  assumes "0 < sr" and "sr < 2 ^ 32" and "1 \<le> ch" and "ch < 256"
  shows "\<exists>r. Prepare (new_reader (WrapOggOpusPackets packets sr ch fs))
      = (r, Inr \<lparr>SampleRate = NormalizeOpusSampleRate sr, Channels = ch\<rparr>)
    \<and> headSeen r \<and> tagsSeen r \<and> carry r = [] \<and> packet_queue r = []
    \<and> rest r = wrap_packets (of_int fs) 0 0 packets"
proof -
  let ?i = "\<lparr>SampleRate = NormalizeOpusSampleRate sr, Channels = ch\<rparr>"
  let ?w = "wrap_packets (of_int fs) 0 0 packets"
  let ?tags = "buildOggPage ogg_serial 1 0x00 0 buildOpusTagsPacket"
  let ?r0 = "new_reader (WrapOggOpusPackets packets sr ch fs)"
  let ?r1 = "?r0\<lparr>rest := ?tags @ ?w, info := ?i, headSeen := True\<rparr>"
  let ?r2 = "?r1\<lparr>rest := ?w, tagsSeen := True\<rparr>"
  have rest0: "rest ?r0 = buildOggPage ogg_serial 0 0x02 0 (buildOpusHeadPacket sr ch) @ ?tags @ ?w"
    "carry ?r0 = []" by (simp_all add: new_reader_def WrapOggOpusPackets_def)
  have "handlePacket (buildOpusHeadPacket sr ch) (?r0\<lparr>rest := ?tags @ ?w\<rparr>) = (?r1, None)"
    by (simp add: handlePacket_def new_reader_def parse_head [OF assms])
  with readNextPage_built [OF _ rest0 last_page_flag(2)] have p1: "readNextPage ?r0 = (?r1, None)"
    by (simp add: head_packet new_reader_def)
  have "handlePacket buildOpusTagsPacket (?r1\<lparr>rest := ?w\<rparr>) = (?r2, None)"
    using tags_packet(2) by (simp add: handlePacket_def new_reader_def)
  with readNextPage_built [of buildOpusTagsPacket ?r1] have p2: "readNextPage ?r1 = (?r2, None)"
    by (simp add: tags_packet(1) new_reader_def)
  have "Prepare ?r0 = Prepare ?r1"
    using rest0(1) by (subst Prepare.simps) (simp add: p1, simp add: new_reader_def)
  also have "\<dots> = Prepare ?r2" by (subst Prepare.simps) (simp add: p2, simp add: new_reader_def)
  also have "\<dots> = (?r2, Inr ?i)"
    using NormalizeOpusSampleRate_pos [of sr] assms(3)
    by (subst Prepare.simps) (simp add: new_reader_def Let_def)
  finally show ?thesis by (intro exI [of _ ?r2]) (simp add: new_reader_def)
qed

text \<open>C34: what \<^verbatim>\<open>WrapOggOpusPackets\<close> writes, the Ogg/Opus reader reads: the stream information, then the
  packets, in order and unchanged, then the end of the stream, for packets of 1 to 65024 bytes.\<close>

theorem wrapped_packets_read_back:
  assumes "\<forall>p \<in> set packets. packet_fits p"
    and "0 < sr" and "sr < 2 ^ 32" and "1 \<le> ch" and "ch < 256"
  shows "\<exists>r. Prepare (new_reader (WrapOggOpusPackets packets sr ch fs))
      = (r, Inr \<lparr>SampleRate = NormalizeOpusSampleRate sr, Channels = ch\<rparr>)
    \<and> read_packets (Suc (length packets)) r = (packets, Some EOF)"
  using Prepare_wrapped [OF assms(2-5), of packets fs] read_wrapped [OF assms(1)] by blast

lemma wrapped_packets_read_back_witness:
  "\<exists>r. Prepare (new_reader (WrapOggOpusPackets [[1, 2, 3], replicate 300 7] 16000 1 320))
      = (r, Inr \<lparr>SampleRate = 16000, Channels = 1\<rparr>)
    \<and> read_packets 3 r = ([[1, 2, 3], replicate 300 7], Some EOF)"
proof -
  have "NormalizeOpusSampleRate 16000 = 16000" by code_simp
  moreover have "\<forall>p \<in> set [[1, 2, 3], replicate 300 (7 :: byte)]. packet_fits p"
    by (simp add: packet_fits_def)
  ultimately show ?thesis
    using wrapped_packets_read_back [of "[[1, 2, 3], replicate 300 7]" 16000 1 320]
    by (simp add: numeral_3_eq_3)
qed

section \<open>Frame sizes\<close>

text \<open>The table of RFC 6716: the frame size of each of the 32 configurations, in units of 2.5 ms.\<close>

definition rfc6716_frame_units :: "int list" where
  "rfc6716_frame_units =
     [4, 8, 16, 24, 4, 8, 16, 24, 4, 8, 16, 24, 4, 8, 4, 8, 1, 2, 4, 8, 1, 2, 4, 8, 1, 2, 4, 8, 1, 2, 4, 8]"

lemma all_bytes: "(\<forall>n < 256. P (word_of_nat n :: byte)) \<Longrightarrow> P b"
proof -
  assume all: "\<forall>n < 256. P (word_of_nat n :: byte)"
  have "unat b < 256" using unsigned_less [of b] by simp
  with all have "P (word_of_nat (unat b))" by blast
  then show "P b" by simp
qed

definition frame_units :: "byte \<Rightarrow> int" where
  "frame_units toc =
     (if toc AND 0x80 \<noteq> 0 then 2 ^ unat (drop_bit 3 toc AND 0x03)
      else if toc AND 0x60 = 0x60 then (if toc AND 0x08 \<noteq> 0 then 8 else 4)
      else (let s = drop_bit 3 toc AND 0x03 in if s = 3 then 24 else 4 * 2 ^ unat s))"

lemma frame_units_table: "frame_units toc = rfc6716_frame_units ! unat (drop_bit 3 toc)"
proof -
  have "list_all (\<lambda>n. frame_units (word_of_nat n) = rfc6716_frame_units ! unat (drop_bit 3 (word_of_nat n :: byte))) [0..<256]"
    by code_simp
  then have "\<forall>n < 256. frame_units (word_of_nat n) = rfc6716_frame_units ! unat (drop_bit 3 (word_of_nat n :: byte))"
    by (simp add: list_all_iff)
  then show ?thesis by (rule all_bytes)
qed

lemma unit_divisions:
  "(400 * k * n) div 400 = (n * k :: int)" "400 * k div 50 = 8 * (k :: int)" "400 * k div 100 = 4 * (k :: int)"
  "400 * k * 60 div 1000 = 24 * (k :: int)" "(400 * k * n) div 100 = 4 * n * (k :: int)"
proof -
  show "(400 * k * n) div 400 = n * k" using nonzero_mult_div_cancel_left [of 400 "k * n"] by (simp add: ac_simps)
  show "(400 * k * n) div 100 = 4 * n * k" using nonzero_mult_div_cancel_left [of 100 "4 * (k * n)"] by (simp add: ac_simps)
qed simp_all

text \<open>Fact: for every packet type and every sample rate that is a multiple of 400, so all that Opus supports,
  \<^verbatim>\<open>opusPacketSamplesPerFrame\<close> is the frame size that the table of RFC 6716 gives for the packet's
  configuration.\<close>

theorem samples_per_frame_is_rfc6716:
  "opusPacketSamplesPerFrame toc (400 * k) = rfc6716_frame_units ! unat (drop_bit 3 toc) * k"
  unfolding frame_units_table [symmetric]
  by (simp add: opusPacketSamplesPerFrame_def frame_units_def unit_divisions Let_def)

end
