(* ===== verification/Openclaw_Text.thy ===== *)
theory Openclaw_Text
  imports Prelude
begin

text \<open>
  The text routines of \<^verbatim>\<open>internal/domain/openclaw/manager.go\<close>: speech text is stripped of markup and
  normalised, compared up to white space and pauses, and cut into sentences. Text is a list of runes;
  a text that is not valid UTF-8 is outside the model. \<^verbatim>\<open>strings.NewReplacer\<close> replaces from left to
  right, at each place the first old string in argument order that matches.
\<close>

section \<open>Replacing\<close>

fun first_match :: "(gostr \<times> gostr) list \<Rightarrow> gostr \<Rightarrow> (gostr \<times> gostr) option" where
  "first_match [] s = None"
| "first_match ((old, new) # ps) s = (if prefix old s then Some (old, new) else first_match ps s)"

fun replace_all :: "(gostr \<times> gostr) list \<Rightarrow> gostr \<Rightarrow> gostr" where
  \<comment> \<open>the old strings are not empty\<close>
  "replace_all ps [] = []"
| "replace_all ps (r # rs) =
     (case first_match ps (r # rs) of
        None \<Rightarrow> r # replace_all ps rs
      | Some (old, new) \<Rightarrow> new @ replace_all ps (drop (length old - 1) rs))"

section \<open>Classes of runes\<close>

definition space :: rune where "space = 0x20"
definition comma :: rune where "comma = 0xff0c"  \<comment> \<open>the full-width comma\<close>
definition colon :: rune where "colon = 0xff1a"  \<comment> \<open>the full-width colon\<close>
definition bullet :: rune where "bullet = 0x2022"
definition dash :: rune where "dash = 0x2d"

definition isOpenClawSentenceSeparator :: "rune \<Rightarrow> bool" where
  "isOpenClawSentenceSeparator r \<longleftrightarrow> r \<in> {0x3002, 0xff1f, 0xff01, 0x3b, 0xff1b, 0x2e, 0x3f, 0x21}"

definition isOpenClawSoftSeparator :: "rune \<Rightarrow> bool" where
  "isOpenClawSoftSeparator r \<longleftrightarrow> r \<in> {0xff0c, 0x2c, 0x3001}"

definition isOpenClawPauseRune :: "rune \<Rightarrow> bool" where
  "isOpenClawPauseRune r \<longleftrightarrow>
     r \<in> {0x20, 0xff0c, 0x2c, 0x3001, 0x3002, 0xff01, 0xff1f, 0x21, 0x3f, 0xff1b, 0x3b, 0xff1a, 0x3a}"

definition isOpenClawComparableIgnorableRune :: "rune \<Rightarrow> bool" where
  "isOpenClawComparableIgnorableRune r \<longleftrightarrow> is_space r \<or> isOpenClawPauseRune r"

section \<open>Normalising\<close>

definition segment_replacer :: "(gostr \<times> gostr) list" where
  "segment_replacer =
     map (\<lambda>p. ([space, p], [p])) [0xff0c, 0x3002, 0xff01, 0xff1f, 0xff1b, 0xff1a]
     @ [([0x28, space], [0x28]), ([0xff08, space], [0xff08]), ([space, 0x29], [0x29]), ([space, 0xff09], [0xff09])]"

definition left_junk :: "rune \<Rightarrow> bool" where
  "left_junk r \<longleftrightarrow> r \<in> {dash, bullet, 0x2a, 0xff0c, 0x2c, 0x3001, 0x3b, 0xff1b, 0x3a, 0xff1a, space}"

definition trimOpenClawSegment :: "gostr \<Rightarrow> gostr" where
  "trimOpenClawSegment text =
     TrimSpace (replace_all segment_replacer (dropWhile left_junk (TrimSpace text)))"

definition trimOpenClawTrailingSpace :: "gostr \<Rightarrow> gostr" where
  \<comment> \<open>on the output in reverse\<close>
  "trimOpenClawTrailingSpace out = dropWhile (\<lambda>r. r = space) out"

definition markup_replacer :: "(gostr \<times> gostr) list" where
  "markup_replacer =
     [([0x0d], []), ([0x09], [space]), ([0x60, 0x60, 0x60], []), ([0x60], []),
      ([0x2a, 0x2a], []), ([0x5f, 0x5f], []), ([0x23, 0x23, 0x23], []), ([0x23, 0x23], []), ([0x23], []),
      ([0x0a, dash, space], [comma]), ([0x0a, 0x2a, space], [comma]), ([0x0a, bullet, space], [comma]),
      ([0x0a], [comma]), ([0x7c], [comma])]"

definition speech_step :: "rune \<Rightarrow> gostr \<Rightarrow> gostr" where
  \<comment> \<open>the body of the loop, on the output in reverse\<close>
  "speech_step r out =
     (if is_space r then
        (if out = [] \<or> hd out = space \<or> isOpenClawPauseRune (hd out) then out else space # out)
      else if r = 0x2a \<or> r = 0x5f \<or> r = 0x60 \<or> r = 0x23 then out
      else if isOpenClawSoftSeparator r then
        (let out = trimOpenClawTrailingSpace out
         in if out = [] \<or> isOpenClawPauseRune (hd out) then out else comma # out)
      else if isOpenClawSentenceSeparator r then
        (let out = trimOpenClawTrailingSpace out in if out = [] then out else r # out)
      else if r = colon \<or> r = 0x3a then
        (let out = trimOpenClawTrailingSpace out in if out = [] then out else colon # out)
      else if r = dash \<or> r = bullet then
        (if out = [] \<or> isOpenClawPauseRune (hd out) then out else r # out)
      else r # out)"

definition speech_loop :: "gostr \<Rightarrow> gostr" where
  "speech_loop text = rev (fold speech_step text [])"

definition normalizeOpenClawSpeechText :: "gostr \<Rightarrow> gostr" where
  "normalizeOpenClawSpeechText text =
     (if TrimSpace text = [] then []
      else trimOpenClawSegment (speech_loop (replace_all markup_replacer text)))"

section \<open>Comparing\<close>

definition openClawCanonicalKey :: "gostr \<Rightarrow> gostr" where
  "openClawCanonicalKey text = filter (\<lambda>r. \<not> is_space r) (normalizeOpenClawSpeechText text)"

definition openClawComparableKey :: "gostr \<Rightarrow> gostr" where
  "openClawComparableKey text =
     filter (\<lambda>r. \<not> isOpenClawComparableIgnorableRune r) (normalizeOpenClawSpeechText text)"

fun match_prefix :: "gostr \<Rightarrow> gostr \<Rightarrow> gostr option" where
  \<comment> \<open>the loop over the text; the prefix runes still to match start with one that counts\<close>
  "match_prefix prefixRunes [] = None"
| "match_prefix prefixRunes (r # textRunes) =
     (if isOpenClawComparableIgnorableRune r then match_prefix prefixRunes textRunes
      else (case prefixRunes of
              [] \<Rightarrow> None
            | p # ps \<Rightarrow>
                if r \<noteq> p then None
                else (case dropWhile isOpenClawComparableIgnorableRune ps of
                        [] \<Rightarrow> Some (TrimSpace (dropWhile isOpenClawComparableIgnorableRune textRunes))
                      | ps' \<Rightarrow> match_prefix ps' textRunes)))"

definition trimOpenClawCanonicalPrefix :: "gostr \<Rightarrow> gostr \<Rightarrow> gostr option" where
  \<comment> \<open>\<open>None\<close> is \<^verbatim>\<open>ok == false\<close>\<close>
  "trimOpenClawCanonicalPrefix text pre =
     (let normalizedText = normalizeOpenClawSpeechText text;
          normalizedPrefix = normalizeOpenClawSpeechText pre
      in if normalizedPrefix = [] then Some (TrimSpace normalizedText)
         else (let textKey = openClawComparableKey normalizedText;
                   prefixKey = openClawComparableKey normalizedPrefix
               in if prefixKey = [] then Some (TrimSpace normalizedText)
                  else if \<not> prefix prefixKey textKey then None
                  else if textKey = prefixKey then Some []
                  else match_prefix (dropWhile isOpenClawComparableIgnorableRune normalizedPrefix) normalizedText))"

definition isOpenClawCanonicalGrowth :: "gostr \<Rightarrow> gostr \<Rightarrow> bool" where
  "isOpenClawCanonicalGrowth base candidate =
     (let baseKey = openClawComparableKey base; candidateKey = openClawComparableKey candidate
      in if baseKey = [] \<or> candidateKey = [] then False
         else prefix baseKey candidateKey \<or> prefix candidateKey baseKey)"

definition isOpenClawPunctuationOnly :: "gostr \<Rightarrow> bool" where
  "isOpenClawPunctuationOnly text =
     (let normalized = normalizeOpenClawSpeechText text
      in normalized \<noteq> [] \<and> list_all (\<lambda>r. is_space r \<or> isOpenClawPauseRune r) normalized)"

section \<open>Sentences\<close>

definition skipOpenClawDelimiters :: "gostr \<Rightarrow> nat \<Rightarrow> nat" where
  "skipOpenClawDelimiters rs start =
     skip_fwd (\<lambda>r. is_space r \<or> isOpenClawSoftSeparator r) rs (length rs) start"

function sentence_loop :: "gostr \<Rightarrow> nat \<Rightarrow> nat \<Rightarrow> nat \<Rightarrow> gostr list \<times> nat" where
  \<comment> \<open>from position \<open>i\<close>, the current sentence beginning at \<open>start\<close>\<close>
  "sentence_loop rs minLen i start =
     (if i < length rs then
        (if \<not> isOpenClawSentenceSeparator (rs ! i) then sentence_loop rs minLen (Suc i) start
         else (let segment = trimOpenClawSegment (take (Suc i - start) (drop start rs))
               in if segment = [] then sentence_loop rs minLen (Suc i) (skipOpenClawDelimiters rs (Suc i))
                  else if length segment < minLen then sentence_loop rs minLen (Suc i) start
                  else (case sentence_loop rs minLen (Suc i) (skipOpenClawDelimiters rs (Suc i)) of
                          (sentences, rest) \<Rightarrow> (segment # sentences, rest))))
      else ([], start))"
  by pat_completeness auto
termination
  by (relation "measure (\<lambda>(rs, minLen, i, start). length rs - i)") auto

declare sentence_loop.simps [simp del]

definition extractOpenClawSentences :: "gostr \<Rightarrow> nat \<Rightarrow> gostr list \<times> gostr" where
  "extractOpenClawSentences text minLen =
     (let rs = normalizeOpenClawSpeechText text
      in if rs = [] then ([], [])
         else (case sentence_loop rs minLen 0 0 of
                 (sentences, start) \<Rightarrow> (sentences, trimOpenClawSegment (drop start rs))))"

section \<open>The normal form\<close>

text \<open>What may stand at the beginning, what may follow what, and which runes occur at all.\<close>

definition plain_rune :: "rune \<Rightarrow> bool" where
  "plain_rune r \<longleftrightarrow> r \<noteq> space \<and> r \<noteq> comma \<and> r \<noteq> colon \<and> r \<noteq> dash \<and> r \<noteq> bullet \<and> \<not> isOpenClawSentenceSeparator r"

definition allowed_rune :: "rune \<Rightarrow> bool" where
  "allowed_rune r \<longleftrightarrow> (is_space r \<longrightarrow> r = space) \<and> (isOpenClawSoftSeparator r \<longrightarrow> r = comma)
     \<and> r \<notin> {0x2a, 0x5f, 0x60, 0x23, 0x3a, 0x7c}"

definition may_follow :: "rune \<Rightarrow> rune \<Rightarrow> bool" where
  "may_follow x y \<longleftrightarrow>
     (y = space \<or> y = comma \<or> y = dash \<or> y = bullet \<longrightarrow> \<not> isOpenClawPauseRune x)
     \<and> (y = colon \<or> isOpenClawSentenceSeparator y \<longrightarrow> x \<noteq> space)"

definition spoken :: "gostr \<Rightarrow> bool" where
  "spoken xs \<longleftrightarrow> list_all allowed_rune xs \<and> (xs \<noteq> [] \<longrightarrow> plain_rune (hd xs)) \<and> successively may_follow xs"

lemmas rune_simps = space_def comma_def colon_def bullet_def dash_def

lemma is_space_cases: "is_space space" "\<not> is_space comma" "\<not> is_space colon" "\<not> is_space dash" "\<not> is_space bullet"
  by code_simp+

lemma pause_space [simp]: "isOpenClawPauseRune space"
  by (simp add: isOpenClawPauseRune_def space_def)

lemma spoken_Nil [simp]: "spoken []"
  by (simp add: spoken_def)

lemma spoken_snoc:
  "spoken (xs @ [r]) \<longleftrightarrow> spoken xs \<and> allowed_rune r \<and> (if xs = [] then plain_rune r else may_follow (last xs) r)"
  by (auto simp: spoken_def successively_append_iff)

lemma spoken_prefix: "spoken (xs @ ys) \<Longrightarrow> spoken xs"
  by (auto simp: spoken_def successively_append_iff)

lemma trailing_space_spoken:
  assumes "spoken (rev out)"
  shows "spoken (rev (trimOpenClawTrailingSpace out))"
    and "trimOpenClawTrailingSpace out = [] \<or> hd (trimOpenClawTrailingSpace out) \<noteq> space"
proof -
  have "rev out = rev (trimOpenClawTrailingSpace out) @ rev (takeWhile (\<lambda>r. r = space) out)"
    unfolding trimOpenClawTrailingSpace_def by (metis rev_append takeWhile_dropWhile_id)
  with assms show "spoken (rev (trimOpenClawTrailingSpace out))" using spoken_prefix by metis
  show "trimOpenClawTrailingSpace out = [] \<or> hd (trimOpenClawTrailingSpace out) \<noteq> space"
    unfolding trimOpenClawTrailingSpace_def using hd_dropWhile by blast
qed

text \<open>Disjointness of the classes, on concrete runes.\<close>

lemma separator_facts:
  "isOpenClawSentenceSeparator r \<Longrightarrow> \<not> is_space r \<and> \<not> isOpenClawSoftSeparator r
     \<and> r \<notin> {0x2a, 0x5f, 0x60, 0x23, 0x3a, 0x7c, space, comma, colon, dash, bullet}"
  "isOpenClawSoftSeparator r \<Longrightarrow> \<not> is_space r \<and> isOpenClawPauseRune r"
  by (auto simp: isOpenClawSentenceSeparator_def isOpenClawSoftSeparator_def is_space_def in_ranges_def
      isOpenClawPauseRune_def rune_simps)

lemma rune_classes [simp]:
  "allowed_rune space" "allowed_rune comma" "allowed_rune colon" "allowed_rune dash" "allowed_rune bullet"
  "\<not> plain_rune space" "\<not> isOpenClawSentenceSeparator space" "\<not> isOpenClawSentenceSeparator comma"
  "\<not> isOpenClawSentenceSeparator colon" "\<not> isOpenClawSentenceSeparator dash" "\<not> isOpenClawSentenceSeparator bullet"
  "isOpenClawSoftSeparator comma" "\<not> isOpenClawSoftSeparator colon" "\<not> isOpenClawSoftSeparator dash"
  "\<not> isOpenClawSoftSeparator bullet" "\<not> isOpenClawSoftSeparator space"
  by (simp_all add: allowed_rune_def plain_rune_def isOpenClawSentenceSeparator_def isOpenClawSoftSeparator_def
      is_space_def in_ranges_def rune_simps)

lemma rune_distinct [simp]:
  "space \<noteq> comma" "space \<noteq> colon" "space \<noteq> dash" "space \<noteq> bullet" "comma \<noteq> space" "comma \<noteq> colon" "comma \<noteq> dash"
  "comma \<noteq> bullet" "colon \<noteq> space" "colon \<noteq> comma" "colon \<noteq> dash" "colon \<noteq> bullet" "dash \<noteq> space" "dash \<noteq> comma"
  "dash \<noteq> colon" "dash \<noteq> bullet" "bullet \<noteq> space" "bullet \<noteq> comma" "bullet \<noteq> colon" "bullet \<noteq> dash"
  by (simp_all add: rune_simps)

lemma allowed_separator: "isOpenClawSentenceSeparator r \<Longrightarrow> allowed_rune r"
  using separator_facts(1) [of r] by (auto simp: allowed_rune_def)

lemma spoken_Cons_rev:
  "spoken (rev (r # out)) \<longleftrightarrow>
     spoken (rev out) \<and> allowed_rune r \<and> (if out = [] then plain_rune r else may_follow (hd out) r)"
  by (simp add: spoken_snoc last_rev)

lemma push_spoken:
  assumes "spoken (rev out)" and "allowed_rune r" and "out = [] \<Longrightarrow> plain_rune r" and "out \<noteq> [] \<Longrightarrow> may_follow (hd out) r"
  shows "spoken (rev (r # out))"
  using assms unfolding spoken_Cons_rev by simp

lemma plain_facts:
  assumes "plain_rune r" and "\<not> is_space r" and "\<not> isOpenClawSoftSeparator r" and "r \<notin> {0x2a, 0x5f, 0x60, 0x23, 0x3a, 0x7c}"
  shows "allowed_rune r" and "may_follow x r"
  using assms by (simp_all add: allowed_rune_def may_follow_def plain_rune_def)

lemma speech_step_spoken:
  assumes "spoken (rev out)" and "r \<noteq> 0x7c"
  shows "spoken (rev (speech_step r out))"
proof -
  note trailing = trailing_space_spoken [OF assms(1)]
  let ?out = "trimOpenClawTrailingSpace out"
  have after: "spoken (rev (y # ?out))" if "?out \<noteq> []" "y = colon \<or> isOpenClawSentenceSeparator y" for y
    using that trailing allowed_separator separator_facts(1) [of y]
    by (intro push_spoken) (auto simp: may_follow_def)
  show ?thesis
  proof (cases "is_space r")
    case True
    have "spoken (rev (space # out))" if "out \<noteq> []" "\<not> isOpenClawPauseRune (hd out)"
      by (rule push_spoken [OF assms(1)]) (use that in \<open>simp_all add: may_follow_def\<close>)
    with True assms(1) show ?thesis by (simp add: speech_step_def)
  next
    case space: False
    show ?thesis
    proof (cases "r = 0x2a \<or> r = 0x5f \<or> r = 0x60 \<or> r = 0x23")
      case True
      with space assms(1) show ?thesis by (simp add: speech_step_def)
    next
      case markup: False
      show ?thesis
      proof (cases "isOpenClawSoftSeparator r")
        case True
        have "spoken (rev (comma # ?out))" if "?out \<noteq> []" "\<not> isOpenClawPauseRune (hd ?out)"
          by (rule push_spoken [OF trailing(1)]) (use that in \<open>simp_all add: may_follow_def\<close>)
        with True space markup trailing(1) show ?thesis by (simp add: speech_step_def Let_def)
      next
        case soft: False
        show ?thesis
        proof (cases "isOpenClawSentenceSeparator r")
          case True
          with after [of r] space markup soft trailing(1) show ?thesis by (simp add: speech_step_def Let_def)
        next
          case sep: False
          show ?thesis
          proof (cases "r = colon \<or> r = 0x3a")
            case True
            with after [of colon] space markup soft sep trailing(1) show ?thesis
              by (simp add: speech_step_def Let_def)
          next
            case col: False
            show ?thesis
            proof (cases "r = dash \<or> r = bullet")
              case True
              have "spoken (rev (r # out))" if "out \<noteq> []" "\<not> isOpenClawPauseRune (hd out)"
                by (rule push_spoken [OF assms(1)]) (use that True in \<open>auto simp: may_follow_def\<close>)
              with True space markup soft sep col assms(1) show ?thesis by (simp add: speech_step_def)
            next
              case False
              have "plain_rune r"
                using False col sep space soft is_space_cases(1) rune_classes(12) unfolding plain_rune_def by metis
              then have "spoken (rev (r # out))"
                using plain_facts [of r] space soft markup col assms by (intro push_spoken) simp_all
              with False space markup soft sep col show ?thesis by (simp add: speech_step_def)
            qed
          qed
        qed
      qed
    qed
  qed
qed

lemma spoken_fold:
  "spoken (rev out) \<Longrightarrow> 0x7c \<notin> set cs \<Longrightarrow> spoken (rev (fold speech_step cs out))"
  by (induction cs arbitrary: out) (simp_all add: speech_step_spoken)

lemma speech_loop_spoken: "0x7c \<notin> set text \<Longrightarrow> spoken (speech_loop text)"
  unfolding speech_loop_def by (rule spoken_fold) simp_all

text \<open>On text in this form the loop changes nothing.\<close>

lemma plain_not_space: "plain_rune r \<Longrightarrow> r \<noteq> space"
  by (simp add: plain_rune_def)

lemma trailing_space_id: "out = [] \<or> hd out \<noteq> space \<Longrightarrow> trimOpenClawTrailingSpace out = out"
  by (cases out) (simp_all add: trimOpenClawTrailingSpace_def)

lemma speech_step_id:
  assumes "spoken (rev (r # out))"
  shows "speech_step r out = r # out"
proof -
  have r: "allowed_rune r" "out = [] \<Longrightarrow> plain_rune r" "out \<noteq> [] \<Longrightarrow> may_follow (hd out) r"
    using assms unfolding spoken_Cons_rev by (auto split: if_splits)
  have nm: "r \<noteq> 0x2a" "r \<noteq> 0x5f" "r \<noteq> 0x60" "r \<noteq> 0x23" "r \<noteq> 0x3a" using r(1) by (auto simp: allowed_rune_def)
  show ?thesis
  proof (cases "is_space r")
    case True
    then have "r = space" using r(1) by (simp add: allowed_rune_def)
    with r(2,3) True have "out \<noteq> []" "\<not> isOpenClawPauseRune (hd out)" by (auto simp: may_follow_def)
    moreover have "hd out \<noteq> space" using \<open>\<not> isOpenClawPauseRune (hd out)\<close> by auto
    ultimately show ?thesis using True \<open>r = space\<close> by (simp add: speech_step_def)
  next
    case sp: False
    have tr: "trimOpenClawTrailingSpace out = out"
      if "r = comma \<or> r = colon \<or> isOpenClawSentenceSeparator r"
      by (rule trailing_space_id) (use that r(3) in \<open>auto simp: may_follow_def\<close>)
    show ?thesis
    proof (cases "isOpenClawSoftSeparator r")
      case True
      then have "r = comma" using r(1) by (simp add: allowed_rune_def)
      with r(2,3) tr sp nm show ?thesis
        by (auto simp: speech_step_def Let_def may_follow_def plain_rune_def)
    next
      case soft: False
      show ?thesis
      proof (cases "isOpenClawSentenceSeparator r")
        case True
        with r(2) tr sp nm soft show ?thesis by (auto simp: speech_step_def Let_def plain_rune_def)
      next
        case False
        with r(2,3) tr sp nm soft show ?thesis
          by (auto simp: speech_step_def Let_def plain_rune_def may_follow_def)
      qed
    qed
  qed
qed

lemma fold_id: "spoken (rev out @ cs) \<Longrightarrow> fold speech_step cs out = rev cs @ out"
proof (induction cs arbitrary: out)
  case (Cons r cs)
  have "spoken (rev (r # out))" using Cons.prems spoken_prefix [of "rev (r # out)" cs] by simp
  then have "speech_step r out = r # out" by (rule speech_step_id)
  with Cons.IH [of "r # out"] Cons.prems show ?case by simp
qed simp

lemma speech_loop_id: "spoken text \<Longrightarrow> speech_loop text = text"
  unfolding speech_loop_def using fold_id [of "[]"] by simp

text \<open>The markup that the replacer removes.\<close>

lemma first_match_absent:
  "\<forall>p \<in> set ps. fst p \<noteq> [] \<and> hd (fst p) \<noteq> r \<Longrightarrow> first_match ps (r # rs) = None"
proof (induction ps)
  case (Cons q qs)
  obtain old new where q: "q = (old, new)" by (cases q)
  with Cons.prems have "\<not> prefix old (r # rs)" by (cases old) auto
  with Cons q show ?case by simp
qed simp

lemma replace_all_absent:
  "\<forall>r \<in> set cs. \<forall>p \<in> set ps. fst p \<noteq> [] \<and> hd (fst p) \<noteq> r \<Longrightarrow> replace_all ps cs = cs"
  by (induction cs) (simp_all add: first_match_absent)

lemma markup_pairs:
  assumes "(old, new) \<in> set markup_replacer"
  shows "old \<noteq> [] \<and> hd old \<in> {0x0d, 0x09, 0x60, 0x2a, 0x5f, 0x23, 0x0a, 0x7c} \<and> set new \<subseteq> {space, comma}"
  using assms unfolding markup_replacer_def by auto

lemma allowed_no_markup:
  assumes "allowed_rune r"
  shows "r \<notin> {0x0d, 0x09, 0x60, 0x2a, 0x5f, 0x23, 0x0a, 0x7c}"
proof -
  have "is_space 0x0d" "is_space 0x09" "is_space 0x0a" by (simp_all add: is_space_def in_ranges_def)
  with assms show ?thesis by (auto simp: allowed_rune_def space_def)
qed

lemma allowed_replaced:
  assumes "list_all allowed_rune cs"
  shows "replace_all markup_replacer cs = cs"
proof (rule replace_all_absent, intro ballI)
  fix r p
  assume "r \<in> set cs" and p: "p \<in> set markup_replacer"
  with assms have "r \<notin> {0x0d, 0x09, 0x60, 0x2a, 0x5f, 0x23, 0x0a, 0x7c}"
    using allowed_no_markup by (simp add: list_all_iff)
  with markup_pairs [of "fst p" "snd p"] p show "fst p \<noteq> [] \<and> hd (fst p) \<noteq> r" by auto
qed

lemma spoken_no_markup: "spoken cs \<Longrightarrow> replace_all markup_replacer cs = cs"
  by (rule allowed_replaced) (simp add: spoken_def)

lemma first_match_in: "first_match ps s = Some (old, new) \<Longrightarrow> (old, new) \<in> set ps \<and> prefix old s"
  by (induction ps) (auto split: if_splits)

lemma first_match_bar: "first_match markup_replacer (0x7c # rs) \<noteq> None"
  by (simp add: markup_replacer_def)

lemma replaced_no_bar: "0x7c \<notin> set (replace_all markup_replacer cs)"
proof (induction markup_replacer cs rule: replace_all.induct)
  case (2 r rs)
  show ?case
  proof (cases "first_match markup_replacer (r # rs)")
    case None
    then have "r \<noteq> 0x7c" using first_match_bar [of rs] by auto
    with None 2 show ?thesis by auto
  next
    case (Some p)
    obtain old new where p: "p = (old, new)" by (cases p)
    with first_match_in [of markup_replacer "r # rs" old new] markup_pairs [of old new] Some
    have "set new \<subseteq> {space, comma}" by simp
    then have "0x7c \<notin> set new" by (auto simp: rune_simps)
    with Some p 2 show ?thesis by auto
  qed
qed simp

text \<open>On text of this form the second replacer only takes out the space inside a parenthesis.\<close>

definition open_paren :: "rune \<Rightarrow> bool" where "open_paren r \<longleftrightarrow> r = 0x28 \<or> r = 0xff08"
definition close_paren :: "rune \<Rightarrow> bool" where "close_paren r \<longleftrightarrow> r = 0x29 \<or> r = 0xff09"

fun squeeze :: "gostr \<Rightarrow> gostr" where
  "squeeze (x # y # zs) =
     (if open_paren x \<and> y = space then x # squeeze zs
      else if x = space \<and> close_paren y then y # squeeze zs
      else x # squeeze (y # zs))"
| "squeeze xs = xs"

definition may_sit :: "rune \<Rightarrow> rune \<Rightarrow> bool" where
  "may_sit x y \<longleftrightarrow> may_follow x y \<and> \<not> (open_paren x \<and> y = space) \<and> \<not> (x = space \<and> close_paren y)"

lemma paren_facts:
  "open_paren x \<Longrightarrow> plain_rune x \<and> allowed_rune x \<and> x \<noteq> space"
  "close_paren x \<Longrightarrow> plain_rune x \<and> allowed_rune x \<and> x \<noteq> space \<and> \<not> open_paren x"
  by (auto simp: open_paren_def close_paren_def plain_rune_def allowed_rune_def isOpenClawSentenceSeparator_def
      isOpenClawSoftSeparator_def is_space_def in_ranges_def rune_simps)

lemma may_follow_plain: "plain_rune y \<Longrightarrow> may_follow x y"
  by (simp add: may_follow_def plain_rune_def)

lemma follows_space: "may_follow space y \<Longrightarrow> plain_rune y"
  by (auto simp: may_follow_def plain_rune_def)

lemma first_match_segment:
  assumes "rs \<noteq> [] \<Longrightarrow> may_follow r (hd rs)"
  shows "first_match segment_replacer (r # rs) =
    (if rs \<noteq> [] \<and> open_paren r \<and> hd rs = space then Some ([r, space], [r])
     else if rs \<noteq> [] \<and> r = space \<and> close_paren (hd rs) then Some ([space, hd rs], [hd rs]) else None)"
proof (cases rs)
  case Nil
  then show ?thesis by (simp add: segment_replacer_def)
next
  case (Cons y ys)
  have p: "\<not> (r = space \<and> (y = 0xff0c \<or> y = 0x3002 \<or> y = 0xff01 \<or> y = 0xff1f \<or> y = 0xff1b \<or> y = 0xff1a))"
    using assms Cons follows_space [of y]
    by (auto simp: plain_rune_def comma_def colon_def isOpenClawSentenceSeparator_def)
  show ?thesis
  proof (cases "r = space")
    case True
    with p Cons show ?thesis
      by (auto simp: segment_replacer_def open_paren_def close_paren_def space_def)
  next
    case False
    with Cons show ?thesis by (auto simp: segment_replacer_def open_paren_def close_paren_def)
  qed
qed

lemma replace_all_squeeze: "successively may_follow xs \<Longrightarrow> replace_all segment_replacer xs = squeeze xs"
proof (induction xs rule: squeeze.induct)
  case (1 x y zs)
  have "first_match segment_replacer (x # y # zs) =
     (if open_paren x \<and> y = space then Some ([x, space], [x])
      else if x = space \<and> close_paren y then Some ([space, y], [y]) else None)"
    using 1(4) first_match_segment [of "y # zs" x] by simp
  moreover have "successively may_follow zs" using 1(4) by (cases zs) auto
  ultimately show ?case using 1 paren_facts by simp
qed (simp_all add: segment_replacer_def)

lemma squeeze_hd: "squeeze (x # xs) \<noteq> [] \<and> (hd (squeeze (x # xs)) = x \<or> x = space \<and> plain_rune (hd (squeeze (x # xs))))"
  by (cases xs) (auto dest: paren_facts(2))

lemma squeeze_allowed: "list_all allowed_rune xs \<Longrightarrow> list_all allowed_rune (squeeze xs)"
  by (induction xs rule: squeeze.induct) auto

lemma squeeze_sits: "successively may_follow xs \<Longrightarrow> successively may_sit (squeeze xs)"
proof (induction xs rule: squeeze.induct)
  case (1 x y zs)
  have zs: "successively may_follow zs" "zs \<noteq> [] \<Longrightarrow> may_follow y (hd zs)" using 1(4) by (cases zs; simp)+
  show ?case
  proof (cases "open_paren x \<and> y = space")
    case True
    have "may_sit x (hd (squeeze zs))" if "zs \<noteq> []"
    proof -
      obtain z us where z: "zs = z # us" using \<open>zs \<noteq> []\<close> by (cases zs) auto
      then have "plain_rune z" using zs(2) True follows_space by simp
      then have "plain_rune (hd (squeeze zs))" using squeeze_hd [of z us] z plain_not_space by auto
      then show ?thesis using True paren_facts(1) may_follow_plain by (auto simp: may_sit_def plain_rune_def)
    qed
    with True 1(1) zs(1) show ?thesis by (cases zs) (auto simp: successively_Cons)
  next
    case no_open: False
    show ?thesis
    proof (cases "x = space \<and> close_paren y")
      case True
      have "may_sit y (hd (squeeze zs))" if "zs \<noteq> []"
      proof -
        obtain z us where z: "zs = z # us" using \<open>zs \<noteq> []\<close> by (cases zs) auto
        then have "may_follow y (hd (squeeze zs))"
          using zs(2) squeeze_hd [of z us] may_follow_plain by auto
        then show ?thesis using True paren_facts(2) by (auto simp: may_sit_def)
      qed
      with True no_open 1(2) zs(1) show ?thesis by (cases zs) (auto simp: successively_Cons)
    next
      case False
      have f: "may_follow x y" "successively may_follow (y # zs)" using 1(4) by simp_all
      have "may_sit x (hd (squeeze (y # zs)))"
      proof (cases "hd (squeeze (y # zs)) = y")
        case True
        with f(1) no_open False show ?thesis by (auto simp: may_sit_def)
      next
        case other: False
        then have p: "y = space" "plain_rune (hd (squeeze (y # zs)))" using squeeze_hd [of y zs] by auto
        then have "x \<noteq> space" using f(1) follows_space [of y] by auto
        with p show ?thesis using may_follow_plain by (auto simp: may_sit_def plain_rune_def)
      qed
      with False no_open 1(3) f(2) squeeze_hd [of y zs] show ?thesis by (auto simp: successively_Cons)
    qed
  qed
qed simp_all

lemma squeeze_id: "successively may_sit xs \<Longrightarrow> squeeze xs = xs"
  by (induction xs rule: squeeze.induct) (auto simp: may_sit_def)

definition normal_speech :: "gostr \<Rightarrow> bool" where
  "normal_speech xs \<longleftrightarrow> spoken xs \<and> successively may_sit xs \<and> (xs \<noteq> [] \<longrightarrow> last xs \<noteq> space)"

lemma spoken_spaces: "spoken xs \<Longrightarrow> x \<in> set xs \<Longrightarrow> is_space x \<longleftrightarrow> x = space"
  using is_space_cases(1) by (auto simp: spoken_def list_all_iff allowed_rune_def)

lemma spoken_hd: "spoken xs \<Longrightarrow> xs \<noteq> [] \<Longrightarrow> \<not> is_space (hd xs) \<and> \<not> left_junk (hd xs)"
  using spoken_spaces [of xs "hd xs"] plain_not_space [of "hd xs"] separator_facts
  by (cases xs) (auto simp: spoken_def left_junk_def plain_rune_def allowed_rune_def isOpenClawSoftSeparator_def
      isOpenClawSentenceSeparator_def comma_def colon_def)

lemma dropWhile_spoken: "spoken xs \<Longrightarrow> dropWhile left_junk xs = xs \<and> dropWhile is_space xs = xs"
  using spoken_hd [of xs] by (cases xs) auto

lemma TrimSpace_spoken:
  assumes "spoken xs"
  shows "\<exists>vs. xs = TrimSpace xs @ vs" and "spoken (TrimSpace xs)"
proof -
  show "\<exists>vs. xs = TrimSpace xs @ vs"
    using dropWhile_trim_by [of is_space xs] dropWhile_spoken [OF assms] by (simp add: TrimSpace_def)
  then show "spoken (TrimSpace xs)" using assms spoken_prefix by metis
qed

lemma TrimSpace_normal: "normal_speech xs \<Longrightarrow> TrimSpace xs = xs"
proof -
  assume n: "normal_speech xs"
  then have "dropWhile is_space xs = xs" using dropWhile_spoken by (simp add: normal_speech_def)
  moreover have "dropWhile is_space (rev xs) = rev xs"
    using n spoken_spaces [of xs "last xs"] by (cases xs rule: rev_cases) (auto simp: normal_speech_def)
  ultimately show ?thesis by (simp add: TrimSpace_def trim_by_def)
qed

lemma trim_spoken:
  assumes "spoken xs"
  shows "normal_speech (trimOpenClawSegment xs)"
proof -
  let ?t = "TrimSpace xs" let ?q = "squeeze ?t"
  have t: "spoken ?t" using TrimSpace_spoken(2) [OF assms] .
  have eq: "trimOpenClawSegment xs = TrimSpace ?q"
    using dropWhile_spoken [OF t] replace_all_squeeze t by (simp add: trimOpenClawSegment_def spoken_def)
  have q: "spoken ?q" "successively may_sit ?q"
  proof -
    show s: "successively may_sit ?q" using squeeze_sits t by (simp add: spoken_def)
    have "successively may_follow ?q" by (rule successively_mono [OF s]) (simp add: may_sit_def)
    moreover have "?t = [] \<or> plain_rune (hd ?q)"
    proof (cases ?t)
      case (Cons a us)
      then show ?thesis using t squeeze_hd [of a us] by (auto simp: spoken_def)
    qed simp
    moreover have "?t = [] \<Longrightarrow> ?q = []" by simp
    ultimately show "spoken ?q" using t squeeze_allowed [of ?t] unfolding spoken_def by blast
  qed
  obtain vs where vs: "?q = TrimSpace ?q @ vs" using TrimSpace_spoken(1) [OF q(1)] by blast
  have "successively may_sit (TrimSpace ?q)" using q(2) vs by (metis successively_append_iff)
  moreover have "TrimSpace ?q \<noteq> [] \<longrightarrow> last (TrimSpace ?q) \<noteq> space"
    using last_trim_by [of is_space ?q] is_space_cases(1) by (auto simp: TrimSpace_def)
  ultimately show ?thesis using TrimSpace_spoken(2) [OF q(1)] eq by (simp add: normal_speech_def)
qed

lemma trim_normal: "normal_speech xs \<Longrightarrow> trimOpenClawSegment xs = xs"
  using TrimSpace_normal [of xs] dropWhile_spoken [of xs] replace_all_squeeze [of xs] squeeze_id [of xs]
  by (simp add: trimOpenClawSegment_def normal_speech_def spoken_def)

lemma normalize_normal: "normal_speech (normalizeOpenClawSpeechText cs)"
  unfolding normalizeOpenClawSpeechText_def
  using trim_spoken [OF speech_loop_spoken [OF replaced_no_bar [of cs]]] by (simp add: normal_speech_def)

lemma normalize_id: "normal_speech xs \<Longrightarrow> normalizeOpenClawSpeechText xs = xs"
  using TrimSpace_normal [of xs] spoken_no_markup [of xs] speech_loop_id [of xs] trim_normal [of xs]
  by (simp add: normalizeOpenClawSpeechText_def normal_speech_def)

section \<open>Comparing up to pauses\<close>

definition counted :: "gostr \<Rightarrow> gostr" where
  "counted xs = filter (\<lambda>r. \<not> isOpenClawComparableIgnorableRune r) xs"

lemma counted_append [simp]: "counted (xs @ ys) = counted xs @ counted ys"
  by (simp add: counted_def)

lemma counted_Nil [simp]: "counted [] = []"
  by (simp add: counted_def)

lemma counted_dropWhile [simp]: "counted (dropWhile isOpenClawComparableIgnorableRune xs) = counted xs"
  unfolding counted_def by (rule filter_dropWhile_not)

lemma counted_Cons:
  "counted (r # rs) = (if isOpenClawComparableIgnorableRune r then counted rs else r # counted rs)"
  by (simp add: counted_def)

lemma counted_Nil_dropWhile: "counted xs = [] \<longleftrightarrow> dropWhile isOpenClawComparableIgnorableRune xs = []"
  by (simp add: counted_def filter_empty_conv)

lemma key_counted: "openClawComparableKey cs = counted (normalizeOpenClawSpeechText cs)"
  by (simp add: openClawComparableKey_def counted_def)

lemma key_normalized: "openClawComparableKey (normalizeOpenClawSpeechText cs) = openClawComparableKey cs"
  by (simp add: key_counted normalize_id [OF normalize_normal])

lemma match_prefix_result:
  assumes "ps \<noteq> []" and "\<not> isOpenClawComparableIgnorableRune (hd ps)" and "prefix (counted ps) (counted ts)"
  shows "\<exists>us vs. ts = us @ vs \<and> counted us = counted ps
           \<and> match_prefix ps ts = Some (TrimSpace (dropWhile isOpenClawComparableIgnorableRune vs))"
  using assms
proof (induction ps ts rule: match_prefix.induct)
  case (1 ps)
  then show ?case by (cases ps) (simp_all add: counted_Cons)
next
  case (2 ps r ts)
  show ?case
  proof (cases "isOpenClawComparableIgnorableRune r")
    case True
    with 2 obtain us vs where "ts = us @ vs" "counted us = counted ps"
      "match_prefix ps ts = Some (TrimSpace (dropWhile isOpenClawComparableIgnorableRune vs))"
      by (auto simp: counted_Cons)
    with True have "r # ts = (r # us) @ vs \<and> counted (r # us) = counted ps
      \<and> match_prefix ps (r # ts) = Some (TrimSpace (dropWhile isOpenClawComparableIgnorableRune vs))"
      by (simp add: counted_Cons)
    then show ?thesis by blast
  next
    case False
    obtain p qs where ps: "ps = p # qs" using 2(3) by (cases ps) auto
    have p: "p = r" "prefix (counted qs) (counted ts)"
      using 2(4,5) False ps by (simp_all add: counted_Cons)
    show ?thesis
    proof (cases "dropWhile isOpenClawComparableIgnorableRune qs")
      case Nil
      then have "counted [r] = counted ps"
        using p False ps counted_Nil_dropWhile [of qs] by (simp add: counted_Cons)
      moreover have "match_prefix ps (r # ts) = Some (TrimSpace (dropWhile isOpenClawComparableIgnorableRune ts))"
        using False ps p by (simp add: Nil del: dropWhile_eq_Nil_conv)
      ultimately show ?thesis by (intro exI [of _ "[r]"] exI [of _ ts]) simp
    next
      case (Cons q qs')
      have hd: "\<not> isOpenClawComparableIgnorableRune q"
        using Cons by (metis dropWhile_eq_Cons_conv)
      have "counted (q # qs') = counted qs" using Cons by (metis counted_dropWhile)
      with 2(2) [OF False ps _ Cons] p hd False obtain us vs where
        "ts = us @ vs" "counted us = counted qs"
        "match_prefix (q # qs') ts = Some (TrimSpace (dropWhile isOpenClawComparableIgnorableRune vs))"
        by auto
      with False ps p Cons have "r # ts = (r # us) @ vs \<and> counted (r # us) = counted ps
        \<and> match_prefix ps (r # ts) = Some (TrimSpace (dropWhile isOpenClawComparableIgnorableRune vs))"
        by (simp add: counted_Cons)
      then show ?thesis by blast
    qed
  qed
qed

lemma TrimSpace_suffix:
  assumes "normal_speech xs" and "suffix ys xs" and "ys = [] \<or> \<not> is_space (hd ys)"
  shows "TrimSpace ys = ys"
proof (cases "ys = []")
  case False
  then have "last ys = last xs" "last xs \<in> set xs" "xs \<noteq> []"
    using assms(2) by (auto simp: suffix_def)
  then have "\<not> is_space (last ys)" using assms(1) spoken_spaces [of xs "last xs"] by (simp add: normal_speech_def)
  then have "dropWhile is_space (rev ys) = rev ys" using False by (cases ys rule: rev_cases) auto
  moreover have "dropWhile is_space ys = ys" using assms(3) False by (cases ys) auto
  ultimately show ?thesis by (simp add: TrimSpace_def trim_by_def)
qed (simp add: TrimSpace_def)

lemma hd_counted: "dropWhile isOpenClawComparableIgnorableRune vs = [] \<or>
  \<not> is_space (hd (dropWhile isOpenClawComparableIgnorableRune vs))"
  using hd_dropWhile [of isOpenClawComparableIgnorableRune vs]
  by (auto simp: isOpenClawComparableIgnorableRune_def)

lemma trim_prefix_result:
  assumes "prefix (openClawComparableKey pre) (openClawComparableKey cs)"
  shows "\<exists>rest. trimOpenClawCanonicalPrefix cs pre = Some rest \<and> suffix rest (normalizeOpenClawSpeechText cs)
           \<and> openClawComparableKey cs = openClawComparableKey pre @ counted rest"
proof -
  let ?n = "normalizeOpenClawSpeechText cs" let ?p = "normalizeOpenClawSpeechText pre"
  let ?ps = "dropWhile isOpenClawComparableIgnorableRune ?p"
  note key = key_counted [of cs] key_counted [of pre]
  have trim: "TrimSpace ?n = ?n" using TrimSpace_normal normalize_normal by blast
  consider (empty) "counted ?p = []" | (all) "counted ?p \<noteq> []" "counted ?n = counted ?p"
    | (some) "counted ?p \<noteq> []" "counted ?n \<noteq> counted ?p" by blast
  then show ?thesis
  proof cases
    case empty
    then have "trimOpenClawCanonicalPrefix cs pre = Some ?n"
      using trim key by (simp add: trimOpenClawCanonicalPrefix_def Let_def key_normalized)
    with empty key show ?thesis by simp
  next
    case all
    moreover have "?p \<noteq> []" using all(1) by auto
    ultimately have "trimOpenClawCanonicalPrefix cs pre = Some []"
      using key by (simp add: trimOpenClawCanonicalPrefix_def Let_def key_normalized)
    with all key show ?thesis by simp
  next
    case some
    have ps: "?ps \<noteq> []" "\<not> isOpenClawComparableIgnorableRune (hd ?ps)" "prefix (counted ?ps) (counted ?n)"
      using some(1) counted_Nil_dropWhile [of ?p] hd_dropWhile [of isOpenClawComparableIgnorableRune ?p] assms key
      by simp_all
    obtain us vs where uv: "?n = us @ vs" "counted us = counted ?ps"
      "match_prefix ?ps ?n = Some (TrimSpace (dropWhile isOpenClawComparableIgnorableRune vs))"
      using match_prefix_result [OF ps] by blast
    let ?rest = "dropWhile isOpenClawComparableIgnorableRune vs"
    have suf: "suffix ?rest ?n"
      using uv(1) by (metis suffix_append suffix_appendI suffix_dropWhile)
    have "TrimSpace ?rest = ?rest" by (rule TrimSpace_suffix [OF normalize_normal suf hd_counted])
    moreover have "trimOpenClawCanonicalPrefix cs pre = match_prefix ?ps ?n"
      using some ps(1) key assms by (auto simp: trimOpenClawCanonicalPrefix_def Let_def key_normalized)
    moreover have "counted ?n = counted ?p @ counted ?rest" using uv(1,2) by simp
    ultimately show ?thesis using uv(3) suf key by simp
  qed
qed

section \<open>Cutting keeps the words\<close>

definition word_rune :: "rune \<Rightarrow> bool" where
  "word_rune r \<longleftrightarrow> \<not> isOpenClawComparableIgnorableRune r \<and> \<not> left_junk r"

definition word_runes :: "gostr \<Rightarrow> gostr" where
  "word_runes xs = filter word_rune xs"

lemma word_runes_append [simp]: "word_runes (xs @ ys) = word_runes xs @ word_runes ys"
  by (simp add: word_runes_def)

lemma filter_dropWhile_weaker: "(\<And>x. q x \<Longrightarrow> \<not> p x) \<Longrightarrow> filter q (dropWhile p xs) = filter q xs"
  by (induction xs) auto

lemma word_TrimSpace: "word_runes (TrimSpace xs) = word_runes xs"
proof -
  have "word_runes ys = filter word_rune (filter (\<lambda>r. \<not> is_space r) ys)" for ys
    unfolding word_runes_def filter_filter
    by (rule filter_cong) (auto simp: word_rune_def isOpenClawComparableIgnorableRune_def)
  from this [of "TrimSpace xs"] this [of xs] show ?thesis
    unfolding TrimSpace_def by (simp only: filter_trim_by)
qed

lemma word_replace_all:
  "\<forall>p \<in> set ps. fst p \<noteq> [] \<and> word_runes (fst p) = word_runes (snd p)
    \<Longrightarrow> word_runes (replace_all ps xs) = word_runes xs"
proof (induction ps xs rule: replace_all.induct)
  case (2 ps r rs)
  show ?case
  proof (cases "first_match ps (r # rs)")
    case None
    with 2 show ?thesis by (simp add: word_runes_def)
  next
    case (Some p)
    obtain old new where p: "p = (old, new)" by (cases p)
    with Some have m: "(old, new) \<in> set ps" "prefix old (r # rs)" using first_match_in [of ps "r # rs"] by auto
    with 2(3) have w: "old \<noteq> []" "word_runes old = word_runes new" by auto
    then obtain old' where old: "old = r # old'" "prefix old' rs" using m(2) by (cases old) auto
    then have "rs = old' @ drop (length old - 1) rs" by (auto simp: prefix_def)
    then have "word_runes (r # rs) = word_runes old @ word_runes (drop (length old - 1) rs)"
      using old(1) by (metis append_Cons word_runes_append)
    with 2 Some p w(2) show ?thesis by simp
  qed
qed simp

lemma word_segment: "word_runes (trimOpenClawSegment xs) = word_runes xs"
proof -
  have "\<forall>p \<in> set segment_replacer. fst p \<noteq> [] \<and> word_runes (fst p) = word_runes (snd p)"
    by (simp add: segment_replacer_def word_runes_def word_rune_def isOpenClawComparableIgnorableRune_def
        isOpenClawPauseRune_def space_def)
  moreover have "word_runes (dropWhile left_junk ys) = word_runes ys" for ys
    unfolding word_runes_def by (rule filter_dropWhile_weaker) (simp add: word_rune_def)
  ultimately show ?thesis by (simp add: trimOpenClawSegment_def word_TrimSpace word_replace_all)
qed

lemma skip_delimiters:
  assumes "i \<le> length rs"
  shows "skipOpenClawDelimiters rs i \<le> length rs"
    and "word_runes (drop (skipOpenClawDelimiters rs i) rs) = word_runes (drop i rs)"
proof -
  show "skipOpenClawDelimiters rs i \<le> length rs"
    unfolding skipOpenClawDelimiters_def by (rule skip_fwd_le [OF assms])
  show "word_runes (drop (skipOpenClawDelimiters rs i) rs) = word_runes (drop i rs)"
    unfolding skipOpenClawDelimiters_def skip_fwd_dropWhile [OF assms] word_runes_def
    by (rule filter_dropWhile_weaker)
      (auto simp: word_rune_def isOpenClawComparableIgnorableRune_def isOpenClawPauseRune_def isOpenClawSoftSeparator_def)
qed

definition sentence_ok :: "nat \<Rightarrow> gostr \<Rightarrow> bool" where
  "sentence_ok minLen s \<longleftrightarrow> s \<noteq> [] \<and> minLen \<le> length s"

lemma skip_fwd_between: "i \<le> j \<Longrightarrow> j < skip_fwd p xs n i \<Longrightarrow> p (xs ! j)"
proof (induction p xs n i rule: skip_fwd.induct)
  case (1 p xs n i)
  then show ?case by (cases "j = i") (auto simp: skip_fwd.simps [of p xs n i] split: if_splits)
qed

lemma sentence_loop_keeps:
  assumes "sentence_loop rs minLen i start = (sentences, rest)" and "start \<le> length rs"
    and "\<And>j. i \<le> j \<Longrightarrow> j < start \<Longrightarrow> \<not> isOpenClawSentenceSeparator (rs ! j)"
  shows "rest \<le> length rs \<and> list_all (sentence_ok minLen) sentences
    \<and> word_runes (concat sentences @ drop rest rs) = word_runes (drop start rs)"
  using assms
proof (induction rs minLen i start arbitrary: sentences rest rule: sentence_loop.induct)
  case (1 rs minLen i start)
  note step = "1.prems"(1) [unfolded sentence_loop.simps [of rs minLen i start]]
  show ?case
  proof (cases "i < length rs \<and> isOpenClawSentenceSeparator (rs ! i)")
    case False
    with step "1.IH"(1) [of sentences rest] "1.prems"(2,3) show ?thesis
      by (auto split: if_splits simp: word_runes_def)
  next
    case True
    let ?seg = "trimOpenClawSegment (take (Suc i - start) (drop start rs))"
    let ?next = "skipOpenClawDelimiters rs (Suc i)"
    have nxt: "?next \<le> length rs" "word_runes (drop ?next rs) = word_runes (drop (Suc i) rs)"
      using skip_delimiters [of "Suc i" rs] True by simp_all
    have nosep: "\<not> isOpenClawSentenceSeparator (rs ! j)" if "Suc i \<le> j" "j < ?next" for j
      using skip_fwd_between [OF that [unfolded skipOpenClawDelimiters_def]] separator_facts(1) [of "rs ! j"] by blast
    have "start \<le> i" using "1.prems"(3) [of i] True by fastforce
    then have "drop start rs = take (Suc i - start) (drop start rs) @ drop (Suc i) rs"
      by (metis append_take_drop_id drop_drop le_SucI le_add_diff_inverse2)
    then have seg: "word_runes (drop start rs) = word_runes ?seg @ word_runes (drop (Suc i) rs)"
      by (metis word_runes_append word_segment)
    obtain ss r where rec: "sentence_loop rs minLen (Suc i) ?next = (ss, r)" by fastforce
    have IH: "r \<le> length rs \<and> list_all (sentence_ok minLen) ss
        \<and> word_runes (concat ss @ drop r rs) = word_runes (drop ?next rs)"
      if "?seg = [] \<or> \<not> length ?seg < minLen"
      using that True "1.IH"(2) [OF _ _ refl _ rec nxt(1) nosep] "1.IH"(4) [OF _ _ refl _ _ rec nxt(1) nosep] by blast
    show ?thesis
    proof (cases "?seg = []")
      case True': True
      with step True rec have "(sentences, rest) = (ss, r)" by simp
      with IH True' seg nxt(2) show ?thesis by (simp add: word_runes_def)
    next
      case nonempty: False
      show ?thesis
      proof (cases "length ?seg < minLen")
        case short: True
        have "sentence_loop rs minLen (Suc i) start = (sentences, rest)" using step True nonempty short by simp
        with "1.IH"(3) [OF _ _ refl nonempty short _ "1.prems"(2)] "1.prems"(3) True show ?thesis by simp
      next
        case False
        with step True rec nonempty have "(sentences, rest) = (?seg # ss, r)" by simp
        moreover have "sentence_ok minLen ?seg" using False nonempty by (simp add: sentence_ok_def)
        ultimately show ?thesis using IH False seg nxt(2) by simp
      qed
    qed
  qed
qed

lemma extract_keeps:
  "case extractOpenClawSentences cs minLen of (sentences, remaining) \<Rightarrow>
     list_all (sentence_ok minLen) sentences
     \<and> word_runes (concat sentences @ remaining) = word_runes (normalizeOpenClawSpeechText cs)"
proof -
  let ?rs = "normalizeOpenClawSpeechText cs"
  obtain ss r where rec: "sentence_loop ?rs minLen 0 0 = (ss, r)" by fastforce
  have "list_all (sentence_ok minLen) ss \<and> word_runes (concat ss @ drop r ?rs) = word_runes (drop 0 ?rs)"
    using sentence_loop_keeps [OF rec] by simp
  then show ?thesis
    using rec by (auto simp: extractOpenClawSentences_def Let_def word_segment word_runes_def [of "[]"])
qed

section \<open>Properties\<close>

text \<open>Fact: Speech text has a normal form. Normalising never leaves markup runes, tabs, line ends, ASCII commas or
  colons, and what it returns is a fixed point of the normalisation, of the trimming of segments and of
  \<^verbatim>\<open>strings.TrimSpace\<close>, although the loop, the two replacers and the trims run one after another.\<close>

theorem speech_text_normal_form:
  "normalizeOpenClawSpeechText (normalizeOpenClawSpeechText cs) = normalizeOpenClawSpeechText cs
   \<and> trimOpenClawSegment (normalizeOpenClawSpeechText cs) = normalizeOpenClawSpeechText cs
   \<and> TrimSpace (normalizeOpenClawSpeechText cs) = normalizeOpenClawSpeechText cs
   \<and> set (normalizeOpenClawSpeechText cs) \<inter> set (runes ''*_`#|,:'') = {}
   \<and> filter is_space (normalizeOpenClawSpeechText cs) = filter ((=) space) (normalizeOpenClawSpeechText cs)"
proof (intro conjI)
  let ?n = "normalizeOpenClawSpeechText cs"
  have n: "normal_speech ?n" by (rule normalize_normal)
  then have ok: "allowed_rune r" if "r \<in> set ?n" for r
    using that by (simp add: normal_speech_def spoken_def list_all_iff)
  show "normalizeOpenClawSpeechText ?n = ?n" by (rule normalize_id [OF n])
  show "trimOpenClawSegment ?n = ?n" by (rule trim_normal [OF n])
  show "TrimSpace ?n = ?n" by (rule TrimSpace_normal [OF n])
  have "r \<notin> set (runes ''*_`#|,:'')" if "allowed_rune r" for r
    using that by (auto simp: runes_def allowed_rune_def isOpenClawSoftSeparator_def comma_def)
  with ok show "set ?n \<inter> set (runes ''*_`#|,:'') = {}" by blast
  show "filter is_space ?n = filter ((=) space) ?n"
    using n spoken_spaces [of ?n] by (intro filter_cong) (auto simp: normal_speech_def)
qed

lemma canonical_prefix_none:
  "trimOpenClawCanonicalPrefix cs pre = None \<longleftrightarrow> \<not> prefix (openClawComparableKey pre) (openClawComparableKey cs)"
proof (cases "prefix (openClawComparableKey pre) (openClawComparableKey cs)")
  case True
  then show ?thesis using trim_prefix_result [OF True] by auto
next
  case False
  then have "openClawComparableKey pre \<noteq> []" by auto
  then have "normalizeOpenClawSpeechText pre \<noteq> []" by (auto simp: key_counted)
  with False \<open>openClawComparableKey pre \<noteq> []\<close> show ?thesis
    by (simp add: trimOpenClawCanonicalPrefix_def Let_def key_normalized)
qed

text \<open>Fact: Cutting a known prefix off a text is exact up to white space and pauses: it fails only when the comparable
  key of the prefix is not a prefix of the key of the text, and otherwise the rest is an end piece of the
  normalised text whose counted runes are exactly those of the text that follow the prefix, none lost and none twice.\<close>

theorem canonical_prefix_exact:
  "case trimOpenClawCanonicalPrefix cs pre of
     None \<Rightarrow> \<not> prefix (openClawComparableKey pre) (openClawComparableKey cs)
   | Some rest \<Rightarrow> suffix rest (normalizeOpenClawSpeechText cs)
       \<and> openClawComparableKey cs = openClawComparableKey pre @ counted rest"
  using canonical_prefix_none [of cs pre] trim_prefix_result [of pre cs] by (auto split: option.split)

text \<open>Fact: Cutting speech text into sentences loses no words: the sentences and the remaining text together hold the
  word runes of the normalised text, in order, and no sentence is empty or shorter than asked for.\<close>

theorem sentences_keep_words:
  "list_all (\<lambda>s. s \<noteq> [] \<and> minLen \<le> length s) (fst (extractOpenClawSentences cs minLen))
   \<and> word_runes (concat (fst (extractOpenClawSentences cs minLen))) @ word_runes (snd (extractOpenClawSentences cs minLen))
       = word_runes (normalizeOpenClawSpeechText cs)"
  using extract_keeps [where cs = cs and minLen = minLen] by (simp add: case_prod_beta sentence_ok_def [abs_def])

section \<open>Sentences are trimmed, and joining texts in normal form keeps the words\<close>

lemma segment_trimmed [simp]: "TrimSpace (trimOpenClawSegment s) = trimOpenClawSegment s"
  by (simp add: trimOpenClawSegment_def)

lemma sentence_loop_trimmed:
  "sentence_loop rs minLen i start = (sentences, rest) \<Longrightarrow> list_all (\<lambda>s. TrimSpace s = s) sentences"
proof (induction rs minLen i start arbitrary: sentences rest rule: sentence_loop.induct)
  case (1 rs minLen i start)
  show ?case
    using "1.prems" "1.IH"
    unfolding sentence_loop.simps [of rs minLen i start]
    by (auto simp: Let_def split: if_splits prod.splits)
qed

lemma extract_trimmed:
  "extractOpenClawSentences cs minLen = (sentences, remaining) \<Longrightarrow>
     list_all (\<lambda>s. TrimSpace s = s) sentences \<and> TrimSpace remaining = remaining"
  by (auto simp: extractOpenClawSentences_def Let_def sentence_loop_trimmed split: if_splits prod.splits)
    (simp add: TrimSpace_def)

text \<open>The runes that normalising never drops or changes, apart from markup.\<close>

definition letter_rune :: "rune \<Rightarrow> bool" where
  "letter_rune r \<longleftrightarrow> word_rune r \<and> \<not> isOpenClawSentenceSeparator r"

definition letters :: "gostr \<Rightarrow> gostr" where
  "letters xs = filter letter_rune xs"

lemma letters_append [simp]: "letters (xs @ ys) = letters xs @ letters ys"
  by (simp add: letters_def)

lemma letters_Nil [simp]: "letters [] = []"
  by (simp add: letters_def)

lemma letters_words: "letters xs = filter (\<lambda>r. \<not> isOpenClawSentenceSeparator r) (word_runes xs)"
  unfolding letters_def word_runes_def filter_filter by (rule filter_cong) (auto simp: letter_rune_def)

lemma letters_TrimSpace [simp]: "letters (TrimSpace xs) = letters xs"
  by (simp add: letters_words word_TrimSpace)

lemma letters_segment [simp]: "letters (trimOpenClawSegment xs) = letters xs"
  by (simp add: letters_words word_segment)

lemma no_letters:
  "\<not> letter_rune space" "\<not> letter_rune comma" "\<not> letter_rune colon" "\<not> letter_rune 0x3a" "\<not> letter_rune dash" "\<not> letter_rune bullet"
  "isOpenClawSentenceSeparator r \<Longrightarrow> \<not> letter_rune r"
  by (simp_all add: letter_rune_def word_rune_def isOpenClawComparableIgnorableRune_def isOpenClawPauseRune_def left_junk_def
      comma_def colon_def)

lemma letters_push: "\<not> letter_rune x \<Longrightarrow> letters (rev (x # out)) = letters (rev out)"
  by (simp add: letters_def)

lemma letters_trailing: "letters (rev (trimOpenClawTrailingSpace out)) = letters (rev out)"
proof -
  have "filter letter_rune (dropWhile (\<lambda>r. r = space) out) = filter letter_rune out"
    by (rule filter_dropWhile_weaker) (use no_letters(1) in auto)
  then show ?thesis by (simp add: letters_def trimOpenClawTrailingSpace_def flip: rev_filter)
qed

lemma step_letters:
  assumes "allowed_rune r"
  shows "letters (rev (speech_step r out)) = letters (rev out) @ letters [r]"
proof -
  have sp: "is_space r \<Longrightarrow> r = space" and sf: "isOpenClawSoftSeparator r \<Longrightarrow> r = comma"
    and nm: "\<not> (r = 0x2a \<or> r = 0x5f \<or> r = 0x60 \<or> r = 0x23)"
    using assms by (auto simp: allowed_rune_def)
  have dropped: "\<not> letter_rune r \<Longrightarrow> letters [r] = []" by (simp add: letters_def)
  consider "is_space r" | "\<not> is_space r" "isOpenClawSoftSeparator r"
    | "\<not> is_space r" "\<not> isOpenClawSoftSeparator r" "isOpenClawSentenceSeparator r"
    | "\<not> is_space r" "\<not> isOpenClawSoftSeparator r" "\<not> isOpenClawSentenceSeparator r" "r = colon \<or> r = 0x3a"
    | "\<not> is_space r" "\<not> isOpenClawSoftSeparator r" "\<not> isOpenClawSentenceSeparator r" "\<not> (r = colon \<or> r = 0x3a)"
    by blast
  then show ?thesis
  proof cases
    case 1
    then show ?thesis using sp no_letters(1) dropped letters_push [OF no_letters(1)] by (simp add: speech_step_def)
  next
    case 2
    then show ?thesis using sf nm no_letters(2) dropped letters_push [OF no_letters(2)] letters_trailing [of out]
      by (simp add: speech_step_def Let_def)
  next
    case 3
    have "letters (rev (r # o')) = letters (rev o')" for o' by (rule letters_push [OF no_letters(7) [OF 3(3)]])
    with 3 show ?thesis using nm no_letters(7) [OF 3(3)] dropped letters_trailing [of out]
      by (cases "trimOpenClawTrailingSpace out = []") (simp_all add: speech_step_def Let_def)
  next
    case 4
    then have "\<not> letter_rune r" using no_letters by blast
    with 4 show ?thesis using nm dropped letters_push [OF no_letters(3)] letters_trailing [of out]
      by (cases "trimOpenClawTrailingSpace out = []") (simp_all add: speech_step_def Let_def)
  next
    case 5
    show ?thesis
    proof (cases "r = dash \<or> r = bullet")
      case True
      then have "\<not> letter_rune r" using no_letters by blast
      with 5 True show ?thesis using nm dropped letters_push [of r] by (simp add: speech_step_def)
    next
      case False
      with 5 show ?thesis using nm by (simp add: speech_step_def)
    qed
  qed
qed

lemma loop_letters: "list_all allowed_rune cs \<Longrightarrow> letters (speech_loop cs) = letters cs"
proof -
  have "list_all allowed_rune cs \<Longrightarrow> letters (rev (fold speech_step cs out)) = letters (rev out) @ letters cs" for out
  proof (induction cs arbitrary: out)
    case (Cons r cs)
    then show ?case using step_letters [of r out] letters_append [of "[r]" cs] by simp
  qed simp
  from this [of "[]"] show "list_all allowed_rune cs \<Longrightarrow> letters (speech_loop cs) = letters cs"
    by (simp add: speech_loop_def)
qed

lemma normalize_letters: "list_all allowed_rune cs \<Longrightarrow> letters (normalizeOpenClawSpeechText cs) = letters cs"
  using letters_TrimSpace [of cs]
  by (cases "TrimSpace cs = []")
    (simp_all add: normalizeOpenClawSpeechText_def allowed_replaced loop_letters del: letters_TrimSpace)

lemma normal_allowed: "list_all allowed_rune (normalizeOpenClawSpeechText cs)"
  using normalize_normal [of cs] by (simp add: normal_speech_def spoken_def)

lemma allowed_sub: "set ys \<subseteq> set xs \<Longrightarrow> list_all allowed_rune xs \<Longrightarrow> list_all allowed_rune ys"
  by (auto simp: list_all_iff)

lemma set_TrimSpace: "set (TrimSpace xs) \<subseteq> set xs"
  unfolding TrimSpace_def using set_mono_sublist [OF trim_by_sublist] .

lemma allowed_TrimSpace: "list_all allowed_rune xs \<Longrightarrow> list_all allowed_rune (TrimSpace xs)"
  by (rule allowed_sub [OF set_TrimSpace])

lemma set_replace_all: "set (replace_all ps xs) \<subseteq> set xs \<union> \<Union> (set (map (set \<circ> snd) ps))"
proof (induction ps xs rule: replace_all.induct)
  case (2 ps r rs)
  show ?case
  proof (cases "first_match ps (r # rs)")
    case None
    with 2 show ?thesis by auto
  next
    case (Some p)
    obtain old new where p: "p = (old, new)" by (cases p)
    with first_match_in [of ps "r # rs" old new] Some have "(old, new) \<in> set ps" by simp
    then have "set new \<subseteq> \<Union> (set (map (set \<circ> snd) ps))" by force
    moreover have "set (drop (length old - 1) rs) \<subseteq> set (r # rs)" using set_drop_subset [of "length old - 1" rs] by auto
    ultimately show ?thesis using 2(2) [OF Some p [symmetric]] Some p by auto
  qed
qed simp

lemma allowed_segment:
  assumes "list_all allowed_rune xs"
  shows "list_all allowed_rune (trimOpenClawSegment xs)"
proof -
  have "list_all allowed_rune (dropWhile left_junk (TrimSpace xs))"
    by (rule allowed_sub [OF _ allowed_TrimSpace [OF assms]]) (auto dest: set_dropWhileD)
  moreover have "\<Union> (set (map (set \<circ> snd) segment_replacer))
      \<subseteq> {0xff0c, 0x3002, 0xff01, 0xff1f, 0xff1b, 0xff1a, 0x28, 0xff08, 0x29, 0xff09}"
    by (simp add: segment_replacer_def)
  moreover have "allowed_rune r" if "r \<in> {0xff0c, 0x3002, 0xff01, 0xff1f, 0xff1b, 0xff1a, 0x28, 0xff08, 0x29, 0xff09}" for r
    using that by (auto simp: allowed_rune_def is_space_def in_ranges_def isOpenClawSoftSeparator_def comma_def)
  ultimately have "list_all allowed_rune (replace_all segment_replacer (dropWhile left_junk (TrimSpace xs)))"
    using set_replace_all [of segment_replacer "dropWhile left_junk (TrimSpace xs)"]
    by (simp only: list_all_iff) blast
  then show ?thesis unfolding trimOpenClawSegment_def by (rule allowed_TrimSpace)
qed

lemma extract_allowed: "extractOpenClawSentences cs minLen = (sentences, remaining) \<Longrightarrow> list_all allowed_rune remaining"
proof -
  have "list_all allowed_rune (trimOpenClawSegment (drop n (normalizeOpenClawSpeechText cs)))" for n
    by (rule allowed_segment, rule allowed_sub [OF set_drop_subset normal_allowed])
  then show "extractOpenClawSentences cs minLen = (sentences, remaining) \<Longrightarrow> list_all allowed_rune remaining"
    by (auto simp: extractOpenClawSentences_def Let_def split: if_splits prod.splits)
qed

lemma extract_letters:
  assumes "extractOpenClawSentences cs minLen = (sentences, remaining)"
  shows "letters (concat sentences) @ letters remaining = letters (normalizeOpenClawSpeechText cs)"
  using extract_keeps [where cs = cs and minLen = minLen] assms
  by (simp add: letters_words flip: filter_append)

lemma trim_prefix_trimmed: "trimOpenClawCanonicalPrefix cs pre = Some rest \<Longrightarrow> TrimSpace rest = rest"
proof -
  have m: "match_prefix ps ts = Some r \<Longrightarrow> TrimSpace r = r" for ps ts r
    by (induction ps ts rule: match_prefix.induct) (auto split: if_splits list.splits)
  show "trimOpenClawCanonicalPrefix cs pre = Some rest \<Longrightarrow> TrimSpace rest = rest"
    by (auto simp: trimOpenClawCanonicalPrefix_def Let_def m split: if_splits) (simp add: TrimSpace_def)
qed

definition pause_like :: "rune \<Rightarrow> bool" where
  "pause_like r \<longleftrightarrow> is_space r \<or> isOpenClawPauseRune r \<or> isOpenClawSentenceSeparator r"

lemma replace_all_pause: "list_all pause_like cs \<Longrightarrow> list_all pause_like (replace_all markup_replacer cs)"
proof (induction markup_replacer cs rule: replace_all.induct)
  case (2 r rs)
  have tail: "list_all pause_like (drop n rs)" for n
    using 2(3) set_drop_subset [of n rs] by (auto simp: list_all_iff)
  show ?case
  proof (cases "first_match markup_replacer (r # rs)")
    case None
    with 2 show ?thesis by simp
  next
    case (Some p)
    obtain old new where p: "p = (old, new)" by (cases p)
    with first_match_in [of markup_replacer "r # rs" old new] markup_pairs [of old new] Some
    have "set new \<subseteq> {space, comma}" by simp
    moreover have "pause_like space" "pause_like comma"
      by (simp_all add: pause_like_def isOpenClawPauseRune_def comma_def space_def)
    ultimately have "list_all pause_like new" by (auto simp: list_all_iff)
    with Some p 2(2) tail show ?thesis by simp
  qed
qed simp

lemma pause_step:
  assumes "pause_like r"
  shows "speech_step r [] = []"
proof (cases "is_space r \<or> isOpenClawSoftSeparator r \<or> isOpenClawSentenceSeparator r \<or> r = colon \<or> r = 0x3a")
  case True
  then show ?thesis by (auto simp: speech_step_def trimOpenClawTrailingSpace_def)
next
  case False
  moreover have "is_space 0x20" by (simp add: is_space_def in_ranges_def)
  ultimately show ?thesis using assms
    by (auto simp: pause_like_def isOpenClawPauseRune_def isOpenClawSoftSeparator_def isOpenClawSentenceSeparator_def
        colon_def)
qed

lemma pause_loop: "list_all pause_like cs \<Longrightarrow> speech_loop cs = []"
proof -
  have "list_all pause_like cs \<Longrightarrow> fold speech_step cs [] = []" by (induction cs) (simp_all add: pause_step)
  then show "list_all pause_like cs \<Longrightarrow> speech_loop cs = []" by (simp add: speech_loop_def)
qed

text \<open>Fact: Punctuation on its own never survives: a text of white space, pauses and sentence ends is normalised to the
  empty text, so \<^verbatim>\<open>isOpenClawPunctuationOnly\<close>, which looks at the normalised text, is false of every text and
  the branch of \<^verbatim>\<open>toIncrementalContent\<close> that should append a piece of punctuation is never taken.\<close>

theorem punctuation_alone_vanishes:
  "normalizeOpenClawSpeechText (filter pause_like cs) = [] \<and> \<not> isOpenClawPunctuationOnly cs"
proof
  have "list_all pause_like (filter pause_like cs)" by (simp add: list_all_iff)
  then have "speech_loop (replace_all markup_replacer (filter pause_like cs)) = []"
    by (intro pause_loop replace_all_pause)
  then show "normalizeOpenClawSpeechText (filter pause_like cs) = []"
    by (simp add: normalizeOpenClawSpeechText_def trimOpenClawSegment_def TrimSpace_def)
  have "spoken (normalizeOpenClawSpeechText cs)" using normalize_normal [of cs] by (simp add: normal_speech_def)
  moreover have "\<not> isOpenClawPauseRune r \<and> \<not> is_space r" if "plain_rune r" "allowed_rune r" for r
    using that unfolding plain_rune_def allowed_rune_def isOpenClawPauseRune_def isOpenClawSoftSeparator_def
      isOpenClawSentenceSeparator_def rune_simps by blast
  ultimately show "\<not> isOpenClawPunctuationOnly cs"
    by (cases "normalizeOpenClawSpeechText cs") (auto simp: isOpenClawPunctuationOnly_def Let_def spoken_def)
qed

end
