(* ===== verification/Openclaw_Offline.thy ===== *)
theory Openclaw_Offline
  imports Prelude
begin

text \<open>
  The offline messages of \<^verbatim>\<open>internal/domain/openclaw/manager.go\<close>: what a device has missed is kept per
  device, at most twenty messages and for a day. A \<^verbatim>\<open>time.Time\<close> is a number of nanoseconds, \<open>None\<close> the
  zero time, and \<open>now\<close> is what \<^verbatim>\<open>time.Now\<close> returns; each operation between \<^verbatim>\<open>offlineMu.Lock\<close> and
  \<^verbatim>\<open>Unlock\<close> is one step. A replay holds the lock only while it takes its snapshot and while it removes
  what was delivered, so it is two steps with the deliveries between them.
\<close>

section \<open>Operations\<close>

definition MaxOfflineMessagesPerDevice :: nat where
  "MaxOfflineMessagesPerDevice = 20"

definition OfflineMessageTTL :: int where
  "OfflineMessageTTL = 24 * 3600 * 1000000000"

record offline_message =
  omText :: gostr
  omCorrelationID :: gostr
  omIsEnd :: bool
  omCreatedAt :: "int option"

type_synonym offline = "gostr \<Rightarrow> offline_message list option"

definition live :: "int \<Rightarrow> offline_message \<Rightarrow> bool" where
  "live now msg \<longleftrightarrow> (case omCreatedAt msg of None \<Rightarrow> False | Some t \<Rightarrow> \<not> now - t > OfflineMessageTTL)"

definition queued :: "offline \<Rightarrow> gostr \<Rightarrow> offline_message list" where
  \<comment> \<open>\<^verbatim>\<open>m.offline[deviceID]\<close>\<close>
  "queued off device = (case off device of None \<Rightarrow> [] | Some msgs \<Rightarrow> msgs)"

definition pruneOfflineLocked :: "int \<Rightarrow> gostr \<Rightarrow> offline \<Rightarrow> offline" where
  "pruneOfflineLocked now device off =
     (let msgList = queued off device
      in if msgList = [] then off(device := None)
         else (let filtered = filter (live now) msgList
               in if filtered = [] then off(device := None) else off(device := Some filtered)))"

fun mark_end :: "gostr \<Rightarrow> offline_message list \<Rightarrow> offline_message list option" where
  \<comment> \<open>the loop from the last message backwards, on the list in reverse\<close>
  "mark_end corr [] = None"
| "mark_end corr (m # ms) =
     (if corr = [] \<or> TrimSpace (omCorrelationID m) = corr then Some (m\<lparr>omIsEnd := True\<rparr> # ms)
      else map_option ((#) m) (mark_end corr ms))"

definition append_message :: "offline_message list \<Rightarrow> offline_message \<Rightarrow> offline_message list" where
  "append_message msgList msg =
     (let msgList = msgList @ [msg]
      in if length msgList > MaxOfflineMessagesPerDevice
         then drop (length msgList - MaxOfflineMessagesPerDevice) msgList else msgList)"

definition AddOfflineMessage :: "int \<Rightarrow> gostr \<Rightarrow> gostr \<Rightarrow> gostr \<Rightarrow> bool \<Rightarrow> offline \<Rightarrow> offline" where
  "AddOfflineMessage now deviceID text' correlationID isEnd off =
     (let device = TrimSpace deviceID; text' = TrimSpace text'; corr = TrimSpace correlationID
      in if device = [] \<or> (text' = [] \<and> \<not> isEnd) then off
         else (let off = pruneOfflineLocked now device off;
                   msgList = queued off device;
                   msg = \<lparr>omText = text', omCorrelationID = corr, omIsEnd = isEnd, omCreatedAt = Some now\<rparr>
               in case (if text' = [] \<and> isEnd then mark_end corr (rev msgList) else None) of
                    Some marked \<Rightarrow> off(device := Some (rev marked))
                  | None \<Rightarrow> off(device := Some (append_message msgList msg))))"

definition replay_snapshot :: "int \<Rightarrow> gostr \<Rightarrow> offline \<Rightarrow> offline_message list \<times> offline" where
  "replay_snapshot now device off =
     (let off = pruneOfflineLocked now device off in (queued off device, off))"

fun replay_loop :: "('w \<Rightarrow> offline_message \<Rightarrow> bool \<times> 'w) \<Rightarrow> 'w \<Rightarrow> offline_message list \<Rightarrow> nat \<times> 'w" where
  \<comment> \<open>\<open>deliver\<close> says whether it returned no error\<close>
  "replay_loop deliver w [] = (0, w)"
| "replay_loop deliver w (msg # msgs) =
     (case deliver w msg of
        (False, w) \<Rightarrow> (0, w)
      | (True, w) \<Rightarrow> (case replay_loop deliver w msgs of (n, w) \<Rightarrow> (Suc n, w)))"

definition replay_remove :: "int \<Rightarrow> gostr \<Rightarrow> nat \<Rightarrow> offline \<Rightarrow> (nat \<times> nat) \<times> offline" where
  "replay_remove now device delivered off =
     (let off = pruneOfflineLocked now device off; current = queued off device
      in if delivered > 0 then
           (if delivered \<ge> length current then ((delivered, 0), off(device := None))
            else ((delivered, length (drop delivered current)), off(device := Some (drop delivered current))))
         else ((delivered, length current), off))"

definition ReplayOfflineMessages ::
  "int \<Rightarrow> int \<Rightarrow> gostr \<Rightarrow> ('w \<Rightarrow> offline_message \<Rightarrow> bool \<times> 'w) option \<Rightarrow> 'w \<Rightarrow> offline \<Rightarrow> (nat \<times> nat) \<times> 'w \<times> offline"
where
  \<comment> \<open>when no other operation on the queues comes between its two steps, at \<open>now\<close> and \<open>now'\<close>\<close>
  "ReplayOfflineMessages now now' deviceID deliver w off =
     (let device = TrimSpace deviceID
      in case deliver of
           None \<Rightarrow> ((0, 0), w, off)
         | Some deliver \<Rightarrow>
             if device = [] then ((0, 0), w, off)
             else (case replay_snapshot now device off of
                     (snapshot, off) \<Rightarrow>
                       (case replay_loop deliver w snapshot of
                          (delivered, w) \<Rightarrow>
                            (case replay_remove now' device delivered off of
                               (result, off) \<Rightarrow> (result, w, off)))))"

section \<open>The queue of a device\<close>

definition sound_message :: "offline_message \<Rightarrow> bool" where
  "sound_message m \<longleftrightarrow> (omText m \<noteq> [] \<or> omIsEnd m) \<and> TrimSpace (omText m) = omText m \<and> omCreatedAt m \<noteq> None"

definition sound_queue :: "offline_message list \<Rightarrow> bool" where
  "sound_queue msgs \<longleftrightarrow> msgs \<noteq> [] \<and> length msgs \<le> MaxOfflineMessagesPerDevice \<and> list_all sound_message msgs"

definition sound_offline :: "offline \<Rightarrow> bool" where
  "sound_offline off \<longleftrightarrow> (\<forall>device msgs. off device = Some msgs \<longrightarrow> sound_queue msgs)"

lemma sound_offlineI: "(\<And>device msgs. off device = Some msgs \<Longrightarrow> sound_queue msgs) \<Longrightarrow> sound_offline off"
  by (simp add: sound_offline_def)

lemma sound_offline_upd [inv_intros]:
  "sound_offline off \<Longrightarrow> (\<And>msgs. q = Some msgs \<Longrightarrow> sound_queue msgs) \<Longrightarrow> sound_offline (off(device := q))"
  by (auto simp: sound_offline_def)

lemma queued_upd [simp]: "queued (off(device := q)) device' =
  (if device' = device then (case q of None \<Rightarrow> [] | Some msgs \<Rightarrow> msgs) else queued off device')"
  by (simp add: queued_def)

lemma queued_prune [simp]:
  "queued (pruneOfflineLocked now device off) device' =
     (if device' = device then filter (live now) (queued off device) else queued off device')"
  by (simp add: pruneOfflineLocked_def Let_def)

lemma prune_at: "pruneOfflineLocked now device off device =
    (if filter (live now) (queued off device) = [] then None else Some (filter (live now) (queued off device)))"
  by (auto simp: pruneOfflineLocked_def Let_def filter_empty_conv)

lemma prune_other: "d \<noteq> device \<Longrightarrow> pruneOfflineLocked now device off d = off d"
  by (simp add: pruneOfflineLocked_def Let_def)

lemma sound_queued: "sound_offline off \<Longrightarrow> queued off device = [] \<or> sound_queue (queued off device)"
  by (auto simp: sound_offline_def queued_def split: option.splits)

lemma sound_filter: "sound_queue msgs \<Longrightarrow> filter p msgs = [] \<or> sound_queue (filter p msgs)"
  using order_trans [OF length_filter_le [of p msgs]] by (auto simp: sound_queue_def list_all_iff)

lemma sound_prune [inv_intros]: "sound_offline off \<Longrightarrow> sound_offline (pruneOfflineLocked now device off)"
proof (rule sound_offlineI)
  fix d msgs
  assume s: "sound_offline off" and "pruneOfflineLocked now device off d = Some msgs"
  then show "sound_queue msgs"
    using sound_filter [of "queued off device" "live now"] sound_queued [OF s, of device]
    by (cases "d = device") (auto simp: prune_at prune_other sound_offline_def split: if_splits)
qed

lemma mark_end_result:
  "mark_end corr ms = Some ms' \<Longrightarrow> \<exists>us m vs. ms = us @ m # vs \<and> ms' = us @ m\<lparr>omIsEnd := True\<rparr> # vs
     \<and> (corr = [] \<or> TrimSpace (omCorrelationID m) = corr)
     \<and> list_all (\<lambda>u. corr \<noteq> [] \<and> TrimSpace (omCorrelationID u) \<noteq> corr) us"
proof (induction ms arbitrary: ms')
  case (Cons a ms)
  show ?case
  proof (cases "corr = [] \<or> TrimSpace (omCorrelationID a) = corr")
    case True
    with Cons.prems have "ms' = a\<lparr>omIsEnd := True\<rparr> # ms" by simp
    with True show ?thesis by (intro exI [of _ "[]"] exI [of _ a] exI [of _ ms]) simp
  next
    case False
    with Cons.prems obtain ms'' where "mark_end corr ms = Some ms''" "ms' = a # ms''" by auto
    with Cons.IH obtain us m vs where "ms = us @ m # vs" "ms'' = us @ m\<lparr>omIsEnd := True\<rparr> # vs"
      "corr = [] \<or> TrimSpace (omCorrelationID m) = corr"
      "list_all (\<lambda>u. corr \<noteq> [] \<and> TrimSpace (omCorrelationID u) \<noteq> corr) us" by blast
    with False \<open>ms' = a # ms''\<close> show ?thesis
      by (intro exI [of _ "a # us"] exI [of _ m] exI [of _ vs]) simp
  qed
qed simp

lemma mark_end_None: "mark_end corr ms = None \<longleftrightarrow> ms = [] \<or> corr \<noteq> [] \<and> list_all (\<lambda>u. TrimSpace (omCorrelationID u) \<noteq> corr) ms"
  by (induction ms) auto

lemma sound_mark: "list_all sound_message ms \<Longrightarrow> mark_end corr ms = Some ms' \<Longrightarrow>
  list_all sound_message ms' \<and> length ms' = length ms"
  by (drule mark_end_result) (auto simp: sound_message_def)

lemma append_message_simp:
  "append_message msgs msg = drop (length msgs + 1 - MaxOfflineMessagesPerDevice) (msgs @ [msg])"
  by (auto simp: append_message_def Let_def)

lemma sound_append:
  assumes "msgs = [] \<or> sound_queue msgs" and "sound_message msg"
  shows "sound_queue (append_message msgs msg)"
proof -
  have "list_all sound_message (msgs @ [msg])" using assms by (auto simp: sound_queue_def)
  then have "list_all sound_message (append_message msgs msg)"
    unfolding append_message_simp list_all_iff using set_drop_subset by fastforce
  moreover have "length msgs \<le> MaxOfflineMessagesPerDevice" using assms(1) by (auto simp: sound_queue_def)
  ultimately show ?thesis
    by (auto simp: sound_queue_def append_message_simp MaxOfflineMessagesPerDevice_def)
qed

lemma AddOfflineMessage_sound [inv_intros]:
  assumes "sound_offline off"
  shows "sound_offline (AddOfflineMessage now deviceID s corr isEnd off)"
proof (cases "TrimSpace deviceID = [] \<or> (TrimSpace s = [] \<and> \<not> isEnd)")
  case True
  with assms show ?thesis by (simp add: AddOfflineMessage_def Let_def)
next
  case False
  let ?d = "TrimSpace deviceID" let ?off = "pruneOfflineLocked now ?d off"
  let ?msg = "\<lparr>omText = TrimSpace s, omCorrelationID = TrimSpace corr, omIsEnd = isEnd, omCreatedAt = Some now\<rparr>"
  have off: "sound_offline ?off" using assms by (rule sound_prune)
  have q: "queued ?off ?d = [] \<or> sound_queue (queued ?off ?d)" using sound_queued [OF off] .
  have "sound_message ?msg" using False by (simp add: sound_message_def)
  from sound_append [OF q this] have app: "sound_queue (append_message (queued ?off ?d) ?msg)" .
  have mark: "sound_queue (rev marked)" if "mark_end c (rev (queued ?off ?d)) = Some marked" for c marked
  proof -
    have "queued ?off ?d \<noteq> []" using that by auto
    with q have "sound_queue (queued ?off ?d)" by blast
    with sound_mark [OF _ that] show ?thesis by (auto simp: sound_queue_def)
  qed
  show ?thesis
  proof (cases "if TrimSpace s = [] \<and> isEnd then mark_end (TrimSpace corr) (rev (queued ?off ?d)) else None")
    case None
    show ?thesis
      unfolding AddOfflineMessage_def Let_def if_not_P [OF False] None option.case
      by (rule sound_offline_upd [OF off]) (use app in simp)
  next
    case (Some marked)
    then have "sound_queue (rev marked)" using mark by (auto split: if_splits)
    then show ?thesis
      unfolding AddOfflineMessage_def Let_def if_not_P [OF False] Some option.case
      by (intro sound_offline_upd [OF off]) simp
  qed
qed

lemma replay_snapshot_result:
  "replay_snapshot now device off = (filter (live now) (queued off device), pruneOfflineLocked now device off)"
  by (simp add: replay_snapshot_def Let_def)

lemma replay_remove_result:
  "replay_remove now device n off =
     ((n, length (filter (live now) (queued off device)) - n),
      (pruneOfflineLocked now device off)
        (device := (if drop n (filter (live now) (queued off device)) = [] then None
                    else Some (drop n (filter (live now) (queued off device))))))"
proof -
  let ?msgs = "filter (live now) (queued off device)" let ?off = "pruneOfflineLocked now device off"
  have "?off(device := (if ?msgs = [] then None else Some ?msgs)) = ?off"
    by (rule ext) (simp add: prune_at)
  then show ?thesis by (auto simp: replay_remove_def Let_def)
qed

lemma replay_remove_sound [inv_intros]:
  "sound_offline off \<Longrightarrow> sound_offline (snd (replay_remove now device n off))"
proof -
  assume s: "sound_offline off"
  let ?msgs = "filter (live now) (queued off device)"
  have "sound_queue (drop n ?msgs)" if "drop n ?msgs \<noteq> []"
  proof -
    have "sound_queue ?msgs" using sound_queued [OF s, of device] sound_filter that by force
    with that show ?thesis using set_drop_subset [of n ?msgs] by (auto simp: sound_queue_def list_all_iff)
  qed
  then show ?thesis unfolding replay_remove_result snd_conv
    by (intro inv_intros s) (auto split: if_splits)
qed

lemma replay_sound [inv_intros]:
  assumes "sound_offline off"
  shows "sound_offline (snd (snd (ReplayOfflineMessages now now' deviceID deliver w off)))"
  using assms replay_remove_sound [OF sound_prune [OF assms]]
  by (auto simp: ReplayOfflineMessages_def Let_def replay_snapshot_result split: option.split prod.split)
    (metis snd_conv)

lemma replay_loop_seen:
  assumes "replay_loop (\<lambda>w m. (b w m, w @ [m])) w msgs = (n, seen)"
  shows "n \<le> length msgs \<and> seen = w @ take (Suc n) msgs"
  using assms
proof (induction msgs arbitrary: w n seen)
  case (Cons m msgs)
  then show ?case by (fastforce split: bool.splits prod.splits)
qed simp

section \<open>Properties\<close>

text \<open>The effect of adding, in terms of the messages still alive.\<close>

definition still_queued :: "int \<Rightarrow> gostr \<Rightarrow> offline \<Rightarrow> offline_message list" where
  "still_queued now device off = filter (live now) (queued off device)"

lemma AddOfflineMessage_text:
  assumes "TrimSpace deviceID \<noteq> []" and "TrimSpace s \<noteq> []"
  shows "AddOfflineMessage now deviceID s corr isEnd off =
    (pruneOfflineLocked now (TrimSpace deviceID) off)
      (TrimSpace deviceID \<mapsto> append_message (still_queued now (TrimSpace deviceID) off)
         \<lparr>omText = TrimSpace s, omCorrelationID = TrimSpace corr, omIsEnd = isEnd, omCreatedAt = Some now\<rparr>)"
  using assms by (simp add: AddOfflineMessage_def Let_def still_queued_def)

lemma AddOfflineMessage_end:
  assumes "TrimSpace deviceID \<noteq> []" and "TrimSpace s = []"
  shows "AddOfflineMessage now deviceID s corr True off =
    (pruneOfflineLocked now (TrimSpace deviceID) off)
      (TrimSpace deviceID \<mapsto>
        (case mark_end (TrimSpace corr) (rev (still_queued now (TrimSpace deviceID) off)) of
           Some marked \<Rightarrow> rev marked
         | None \<Rightarrow> append_message (still_queued now (TrimSpace deviceID) off)
             \<lparr>omText = [], omCorrelationID = TrimSpace corr, omIsEnd = True, omCreatedAt = Some now\<rparr>))"
  using assms by (simp add: AddOfflineMessage_def Let_def still_queued_def split: option.split)

lemma AddOfflineMessage_other:
  "d \<noteq> TrimSpace deviceID \<Longrightarrow> AddOfflineMessage now deviceID s corr isEnd off d = off d"
  by (auto simp: AddOfflineMessage_def Let_def prune_other split: option.split)

text \<open>Fact: Adding a text to the offline messages of a device keeps the twenty newest of the messages still alive and the
  new one, in order, whatever was queued before, and touches no other device.\<close>

theorem add_keeps_newest_twenty:
  assumes "TrimSpace deviceID \<noteq> []" and "TrimSpace s \<noteq> []"
  shows "AddOfflineMessage now deviceID s corr isEnd off = off(TrimSpace deviceID \<mapsto>
      rev (take 20 (rev (still_queued now (TrimSpace deviceID) off
        @ [\<lparr>omText = TrimSpace s, omCorrelationID = TrimSpace corr, omIsEnd = isEnd, omCreatedAt = Some now\<rparr>]))))"
proof -
  have "append_message msgs m = rev (take 20 (rev (msgs @ [m])))" for msgs m
    by (simp add: append_message_simp MaxOfflineMessagesPerDevice_def rev_take del: rev_append)
  moreover have "(pruneOfflineLocked now d off)(d := q) = off(d := q)" for d q
    by (rule ext) (simp add: prune_other)
  ultimately show ?thesis using AddOfflineMessage_text [OF assms] by (simp del: rev_append)
qed

definition example_queue :: offline where
  "example_queue = (\<lambda>_. None)(runes ''d'' \<mapsto>
     map (\<lambda>k. \<lparr>omText = [0x61 + int k], omCorrelationID = [], omIsEnd = False, omCreatedAt = Some 5\<rparr>) [0..<20])"

lemma example_device: "TrimSpace (runes ''d'') = runes ''d''" "TrimSpace (runes ''x'') = runes ''x''"
  by code_simp+

lemma add_keeps_newest_twenty_witness:
  "length (queued (AddOfflineMessage 7 (runes ''d'') (runes ''x'') [] False example_queue) (runes ''d'')) = 20"
proof -
  have "length (still_queued 7 (runes ''d'') example_queue) = 20"
    by (simp add: still_queued_def example_queue_def live_def OfflineMessageTTL_def)
  then show ?thesis
    using add_keeps_newest_twenty [of "runes ''d''" "runes ''x''" 7 "[]" False example_queue]
    by (simp add: example_device) (simp add: runes_def)
qed

lemma Replay_unfold:
  assumes "TrimSpace deviceID \<noteq> []" and "replay_loop f w (still_queued now (TrimSpace deviceID) off) = (k, w')"
  shows "ReplayOfflineMessages now now' deviceID (Some f) w off =
    (fst (replay_remove now' (TrimSpace deviceID) k (pruneOfflineLocked now (TrimSpace deviceID) off)), w',
     snd (replay_remove now' (TrimSpace deviceID) k (pruneOfflineLocked now (TrimSpace deviceID) off)))"
  using assms by (simp add: ReplayOfflineMessages_def Let_def replay_snapshot_result case_prod_beta
      flip: still_queued_def)

text \<open>Fact: A replay that nothing interferes with hands the messages still alive to the device in order, stops at the
  first that fails, and leaves exactly the messages not delivered, the failed one first, in the queue; it reports
  the number delivered and the number left.\<close>

theorem replay_delivers_prefix:
  assumes "TrimSpace deviceID \<noteq> []"
    and "ReplayOfflineMessages now now' deviceID (Some (\<lambda>w m. (b w m, w @ [m]))) [] off = ((n, remaining), seen, off')"
    and "still_queued now' (TrimSpace deviceID) off = still_queued now (TrimSpace deviceID) off"
    and "now \<le> now'"
  shows "seen = take (Suc n) (still_queued now (TrimSpace deviceID) off)
    \<and> queued off' (TrimSpace deviceID) = drop n (still_queued now (TrimSpace deviceID) off)
    \<and> n + remaining = length (still_queued now (TrimSpace deviceID) off)"
proof -
  let ?d = "TrimSpace deviceID" let ?msgs = "still_queued now ?d off"
  have mono: "live now m" if "live now' m" for m
    using that assms(4) by (auto simp: live_def split: option.splits)
  have "filter (live now') (filter (live now) (queued off ?d)) = filter (live now') (queued off ?d)"
    unfolding filter_filter by (rule filter_cong) (use mono in auto)
  then have alive: "filter (live now') (filter (live now) (queued off ?d)) = ?msgs"
    using assms(3) by (simp add: still_queued_def)
  obtain k w where loop: "replay_loop (\<lambda>w m. (b w m, w @ [m])) [] ?msgs = (k, w)" by fastforce
  let ?off = "pruneOfflineLocked now ?d off"
  have q: "filter (live now') (queued ?off ?d) = ?msgs" using alive by (simp del: filter_filter)
  have "((n, remaining), seen, off') = (fst (replay_remove now' ?d k ?off), w, snd (replay_remove now' ?d k ?off))"
    using assms(2) Replay_unfold [OF assms(1) loop] by simp
  then have "n = k \<and> remaining = length ?msgs - k \<and> seen = w \<and> queued off' ?d = drop k ?msgs"
    unfolding replay_remove_result q by (simp del: queued_prune)
  moreover have "k \<le> length ?msgs" "w = take (Suc k) ?msgs" using replay_loop_seen [OF loop] by simp_all
  ultimately show ?thesis by simp
qed

definition three_messages :: offline where
  "three_messages = (\<lambda>_. None)(runes ''d'' \<mapsto>
     map (\<lambda>c. \<lparr>omText = [c], omCorrelationID = [], omIsEnd = False, omCreatedAt = Some 5\<rparr>) [0x61, 0x62, 0x63])"

lemma replay_delivers_prefix_witness:
  "case ReplayOfflineMessages 7 8 (runes ''d'') (Some (\<lambda>w m. (w = [], w @ [m]))) [] three_messages of
     ((n, remaining), seen, off') \<Rightarrow> length seen = 2 \<and> length (queued off' (runes ''d'')) = 2 \<and> n + remaining = 3"
proof -
  let ?q = "map (\<lambda>c. \<lparr>omText = [c], omCorrelationID = [], omIsEnd = False, omCreatedAt = Some (5::int)\<rparr>) [0x61, 0x62, 0x63]"
  have q: "still_queued t (runes ''d'') three_messages = ?q" if "t = 7 \<or> t = 8" for t
    using that by (auto simp: still_queued_def three_messages_def live_def OfflineMessageTTL_def)
  have d: "runes ''d'' \<noteq> []" by (simp add: runes_def)
  let ?run = "ReplayOfflineMessages 7 8 (runes ''d'') (Some (\<lambda>w m. (w = [], w @ [m]))) [] three_messages"
  obtain n r seen off' where res: "?run = ((n, r), seen, off')"
    by (cases ?run, cases "fst ?run", cases "snd ?run") simp
  have "replay_loop (\<lambda>w m. (w = [], w @ [m])) [] ?q = (1, take 2 ?q)" by simp
  then have loop: "replay_loop (\<lambda>w m. (w = [], w @ [m])) []
      (still_queued 7 (TrimSpace (runes ''d'')) three_messages) = (1, take 2 ?q)"
    using q [of 7] by (simp only: example_device) simp
  have d': "TrimSpace (runes ''d'') \<noteq> []" using d by (simp only: example_device) simp
  have "n = 1" using res unfolding Replay_unfold [OF d' loop] replay_remove_result by (simp del: queued_prune)
  moreover have "still_queued 8 (TrimSpace (runes ''d'')) three_messages
      = still_queued 7 (TrimSpace (runes ''d'')) three_messages"
    using q [of 7] q [of 8] by (simp only: example_device) simp
  ultimately have "seen = take 2 ?q \<and> queued off' (runes ''d'') = drop 1 ?q \<and> n + r = 3"
    using replay_delivers_prefix [OF d' res] q by (simp add: example_device)
  then show ?thesis using res by simp
qed

text \<open>Fact: The two steps of a replay do lose messages when something comes between them: with a full queue, a message
  that arrives while the snapshot is being delivered is removed with it and never delivered.\<close>

theorem replay_loses_new_message:
  assumes "TrimSpace deviceID \<noteq> []" and "TrimSpace s \<noteq> []"
    and "still_queued now (TrimSpace deviceID) off = msgs" and "length msgs = 20"
    and "off1 = snd (replay_snapshot now (TrimSpace deviceID) off)"
    and "off2 = AddOfflineMessage now deviceID s corr isEnd off1"
  shows "fst (replay_snapshot now (TrimSpace deviceID) off) = msgs
    \<and> omText (last (queued off2 (TrimSpace deviceID))) = TrimSpace s
    \<and> queued (snd (replay_remove now (TrimSpace deviceID) (length msgs) off2)) (TrimSpace deviceID) = []"
proof -
  let ?d = "TrimSpace deviceID"
  let ?m = "\<lparr>omText = TrimSpace s, omCorrelationID = TrimSpace corr, omIsEnd = isEnd, omCreatedAt = Some now\<rparr>"
  have "still_queued now ?d off1 = still_queued now ?d off"
    unfolding assms(5) by (simp add: replay_snapshot_result still_queued_def)
  then have "still_queued now ?d off1 = msgs" using assms(3) by simp
  then have q2: "queued off2 ?d = drop 1 (msgs @ [?m])"
    using AddOfflineMessage_text [OF assms(1,2)] assms(4,6)
    by (simp add: append_message_simp MaxOfflineMessagesPerDevice_def)
  then have "length (filter (live now) (queued off2 ?d)) \<le> 20"
    using order_trans [OF length_filter_le, of "queued off2 ?d" 20 "live now"] assms(4) by simp
  moreover have "msgs \<noteq> []" using assms(4) by auto
  moreover have "filter (live now) msgs = msgs" using assms(3) by (auto simp: still_queued_def)
  ultimately show ?thesis using q2 assms(3,4) by (simp add: replay_snapshot_result replay_remove_result still_queued_def)
qed

lemma replay_loses_new_message_witness:
  "queued (snd (replay_remove 7 (runes ''d'') 20
      (AddOfflineMessage 7 (runes ''d'') (runes ''x'') [] False (snd (replay_snapshot 7 (runes ''d'') example_queue)))))
    (runes ''d'') = []"
proof -
  have "length (still_queued 7 (runes ''d'') example_queue) = 20"
    by (simp add: still_queued_def example_queue_def live_def OfflineMessageTTL_def)
  then show ?thesis
    using replay_loses_new_message [of "runes ''d''" "runes ''x''" 7 example_queue, OF _ _ refl _ refl refl]
    by (simp add: example_device) (simp add: runes_def)
qed

datatype offline_op = AddOp gostr gostr gostr bool | SnapshotOp gostr | RemoveOp gostr nat

fun offline_step :: "int \<Rightarrow> offline_op \<Rightarrow> offline \<Rightarrow> offline" where
  "offline_step now (AddOp device s corr isEnd) off = AddOfflineMessage now device s corr isEnd off"
| "offline_step now (SnapshotOp device) off = snd (replay_snapshot now device off)"
| "offline_step now (RemoveOp device n) off = snd (replay_remove now device n off)"

lemma offline_step_sound [inv_intros]: "sound_offline off \<Longrightarrow> sound_offline (offline_step now op off)"
  by (cases op) (simp_all add: inv_intros replay_snapshot_result)

text \<open>C30: Whatever is added, marked, pruned and replayed, in any order and with replays interrupted between their two
  steps, the queue of a device is never empty, never longer than twenty, and holds only messages with a text
  or an end mark and a time.\<close>

theorem offline_queues_stay_sound:
  "sound_offline (fold (\<lambda>(now, op). offline_step now op) steps (\<lambda>_. None))"
proof -
  have "sound_offline off \<Longrightarrow> sound_offline (fold (\<lambda>(now, op). offline_step now op) steps off)" for off
    by (induction steps arbitrary: off) (auto intro: inv_intros)
  moreover have "sound_offline (\<lambda>_. None)" by (simp add: sound_offline_def)
  ultimately show ?thesis by blast
qed

end
