(* ===== verification/Openclaw_Manager.thy ===== *)
theory Openclaw_Manager
  imports Openclaw_Text Openclaw_Offline
begin

text \<open>
  The sessions and streamed responses of \<^verbatim>\<open>internal/domain/openclaw/manager.go\<close>. An \<^verbatim>\<open>AgentSession\<close> is a
  record whose three \<^verbatim>\<open>sync.Map\<close>s are maps; the manager refers to its sessions by numbers into a store,
  since the code compares the pointers. One call of \<^verbatim>\<open>HandleResponse\<close> is one step: the responses of an agent
  are handled by the reading loop of its connection. \<^verbatim>\<open>deliver\<close> is a function on the state of its caller,
  and the event is what it is given. The connection, \<^verbatim>\<open>uuid.NewString\<close> and \<^verbatim>\<open>time.Now\<close> are arguments.
\<close>

section \<open>Metadata\<close>

text \<open>
  The values of the metadata: a number stands for any of Go's number types as long as it holds a whole
  number of the range of \<^verbatim>\<open>int64\<close>; \<open>MetaOther\<close> is a value of any other type, with its rendering by \<^verbatim>\<open>%v\<close>.
\<close>

datatype meta_value = MetaNull | MetaBool bool | MetaString gostr | MetaInt int | MetaOther gostr

type_synonym metadata = "gostr \<Rightarrow> meta_value option"

fun digits :: "nat \<Rightarrow> gostr" where
  "digits n = (if n < 10 then [48 + int n] else digits (n div 10) @ [48 + int (n mod 10)])"

declare digits.simps [simp del]

definition decimal :: "int \<Rightarrow> gostr" where
  "decimal k = (if k < 0 then 0x2d # digits (nat (- k)) else digits (nat k))"

definition readMetadataString :: "metadata \<Rightarrow> gostr \<Rightarrow> gostr" where
  "readMetadataString md key =
     (case md key of
        None \<Rightarrow> []
      | Some MetaNull \<Rightarrow> []
      | Some (MetaString v) \<Rightarrow> TrimSpace v
      | Some (MetaBool b) \<Rightarrow> runes (if b then ''true'' else ''false'')
      | Some (MetaInt k) \<Rightarrow> decimal k
      | Some (MetaOther v) \<Rightarrow> TrimSpace v)"

definition ParseBool :: "gostr \<Rightarrow> bool" where
  \<comment> \<open>whether \<^verbatim>\<open>strconv.ParseBool\<close> gives true and no error\<close>
  "ParseBool s \<longleftrightarrow> s \<in> set (map runes [''1'', ''t'', ''T'', ''true'', ''TRUE'', ''True''])"

definition ParseInt :: "gostr \<Rightarrow> int option" where
  \<comment> \<open>\<^verbatim>\<open>strconv.ParseInt(s, 10, 64)\<close>\<close>
  "ParseInt s =
     (let neg = (s \<noteq> [] \<and> hd s = 0x2d);
          ds = (if s \<noteq> [] \<and> (hd s = 0x2d \<or> hd s = 0x2b) then tl s else s);
          v = foldl (\<lambda>a d. 10 * a + (d - 48)) 0 ds;
          k = (if neg then - v else v)
      in if ds = [] \<or> \<not> list_all ascii_digit ds \<or> k < - (2 ^ 63) \<or> 2 ^ 63 \<le> k then None else Some k)"

definition parseMetadataBool :: "metadata \<Rightarrow> gostr \<Rightarrow> bool" where
  "parseMetadataBool md key =
     (case md key of
        Some (MetaBool b) \<Rightarrow> b
      | Some (MetaString v) \<Rightarrow> ParseBool (TrimSpace v)
      | Some (MetaInt k) \<Rightarrow> k \<noteq> 0
      | _ \<Rightarrow> False)"

definition parseMetadataInt64 :: "metadata \<Rightarrow> gostr \<Rightarrow> int" where
  "parseMetadataInt64 md key =
     (case md key of
        Some (MetaInt k) \<Rightarrow> k
      | Some (MetaString v) \<Rightarrow> (case ParseInt (TrimSpace v) of None \<Rightarrow> 0 | Some k \<Rightarrow> k)
      | _ \<Rightarrow> 0)"

definition ToLower :: "gostr \<Rightarrow> gostr" where
  \<comment> \<open>\<^verbatim>\<open>strings.ToLower\<close> on ASCII; the results are only compared with ASCII literals, and no other rune has a
    lower case among the letters of these\<close>
  "ToLower s = map (\<lambda>r. if 0x41 \<le> r \<and> r \<le> 0x5a then r + 32 else r) s"

definition isOpenClawSnapshotFrame :: "gostr \<Rightarrow> gostr \<Rightarrow> bool" where
  "isOpenClawSnapshotFrame phase contentType \<longleftrightarrow>
     TrimSpace (ToLower phase) = runes ''snapshot'' \<or> TrimSpace (ToLower contentType) = runes ''snapshot''"

definition isOpenClawTestDevice :: "gostr \<Rightarrow> bool" where
  "isOpenClawTestDevice deviceID \<longleftrightarrow> prefix (runes ''__openclaw_test__:'') (TrimSpace deviceID)"

section \<open>The state of a stream\<close>

record stream_state =
  DeviceID :: gostr
  Buffer :: gostr
  EmittedText :: gostr
  PendingText :: gostr
  HasDelta :: bool
  IsFirst :: bool
  LastSeq :: int
  CreatedAt :: int

definition new_stream :: "int \<Rightarrow> stream_state" where
  "new_stream now = \<lparr>DeviceID = [], Buffer = [], EmittedText = [], PendingText = [], HasDelta = False,
     IsFirst = True, LastSeq = 0, CreatedAt = now\<rparr>"

definition accountedText :: "stream_state \<Rightarrow> gostr" where
  "accountedText s = normalizeOpenClawSpeechText (TrimSpace (EmittedText s) @ TrimSpace (Buffer s))"

definition take_pending :: "stream_state \<Rightarrow> gostr \<times> stream_state" where
  \<comment> \<open>\<^verbatim>\<open>snapshot := s.PendingText; s.PendingText = ""; return snapshot\<close>\<close>
  "take_pending s = (PendingText s, s\<lparr>PendingText := []\<rparr>)"

definition toIncrementalContent :: "gostr \<Rightarrow> bool \<Rightarrow> stream_state \<Rightarrow> gostr \<times> stream_state" where
  "toIncrementalContent content streamDone s =
     (let normalizedContent = normalizeOpenClawSpeechText content;
          delta = (case trimOpenClawCanonicalPrefix normalizedContent (accountedText s) of
                     Some delta \<Rightarrow> delta | None \<Rightarrow> normalizedContent);
          deferred = (\<lambda>s. if streamDone then take_pending s else ([], s))
      in if normalizedContent = [] then
           (if streamDone \<and> \<not> HasDelta s \<and> PendingText s \<noteq> [] then take_pending s else ([], s))
         else if HasDelta s then
           ((if accountedText s \<noteq> [] then delta else normalizedContent), s)
         else if accountedText s \<noteq> [] then (delta, s\<lparr>HasDelta := True\<rparr>)
         else if PendingText s = [] then deferred (s\<lparr>PendingText := normalizedContent\<rparr>)
         else if isOpenClawCanonicalGrowth (PendingText s) normalizedContent then
           deferred
             (if length (utf8 (openClawCanonicalKey normalizedContent)) \<ge> length (utf8 (openClawCanonicalKey (PendingText s)))
              then s\<lparr>PendingText := normalizedContent\<rparr> else s)
         else if isOpenClawPunctuationOnly normalizedContent then
           deferred (s\<lparr>PendingText := normalizeOpenClawSpeechText (PendingText s @ normalizedContent)\<rparr>)
         else (normalizeOpenClawSpeechText (PendingText s @ normalizedContent), s\<lparr>HasDelta := True, PendingText := []\<rparr>))"

definition applySnapshotContent :: "gostr \<Rightarrow> stream_state \<Rightarrow> stream_state" where
  \<comment> \<open>the text returned is only logged\<close>
  "applySnapshotContent content s =
     (let normalizedContent = normalizeOpenClawSpeechText content
      in if normalizedContent = [] then s
         else (let emittedText = normalizeOpenClawSpeechText (EmittedText s);
                   snapshotBuffer =
                     (if emittedText \<noteq> [] then
                        (case trimOpenClawCanonicalPrefix normalizedContent emittedText of
                           Some rest \<Rightarrow> rest | None \<Rightarrow> normalizedContent)
                      else normalizedContent)
               in s\<lparr>PendingText := [], Buffer := normalizeOpenClawSpeechText snapshotBuffer\<rparr>))"

definition markEmitted :: "gostr \<Rightarrow> stream_state \<Rightarrow> stream_state" where
  "markEmitted s' s =
     (let normalized = normalizeOpenClawSpeechText s'
      in if normalized = [] then s
         else s\<lparr>EmittedText := normalizeOpenClawSpeechText (EmittedText s @ normalized)\<rparr>)"

section \<open>Sessions\<close>

record pending_route =
  prDeviceID :: gostr
  prCreatedAt :: int

record agent_session =
  agentID :: gostr
  conn :: nat
  open_conn :: bool  \<comment> \<open>neither cancelled nor closed\<close>
  pending :: "gostr \<Rightarrow> pending_route option"
  modes :: "gostr \<Rightarrow> bool option"
  streams :: "gostr \<Rightarrow> stream_state option"

definition newAgentSession :: "gostr \<Rightarrow> nat \<Rightarrow> agent_session" where
  "newAgentSession agent c = \<lparr>agentID = agent, conn = c, open_conn = True, pending = (\<lambda>_. None),
     modes = (\<lambda>_. None), streams = (\<lambda>_. None)\<rparr>"

definition TrackPending :: "int \<Rightarrow> gostr \<Rightarrow> gostr \<Rightarrow> agent_session \<Rightarrow> agent_session" where
  "TrackPending now correlationID deviceID s =
     (let corr = TrimSpace correlationID; device = TrimSpace deviceID
      in if corr = [] \<or> device = [] then s
         else s\<lparr>pending := (pending s)(corr \<mapsto> \<lparr>prDeviceID = device, prCreatedAt = now\<rparr>)\<rparr>)"

definition RemovePending :: "gostr \<Rightarrow> agent_session \<Rightarrow> agent_session" where
  "RemovePending correlationID s =
     (let corr = TrimSpace correlationID in if corr = [] then s else s\<lparr>pending := (pending s)(corr := None)\<rparr>)"

definition ResolvePending :: "gostr \<Rightarrow> agent_session \<Rightarrow> gostr option \<times> agent_session" where
  "ResolvePending correlationID s =
     (if TrimSpace correlationID = [] then (None, s)
      else (case pending s correlationID of
              None \<Rightarrow> (None, s)
            | Some route \<Rightarrow>
                (if prDeviceID route = [] then None else Some (prDeviceID route),
                 s\<lparr>pending := (pending s)(correlationID := None)\<rparr>)))"

definition PeekPending :: "gostr \<Rightarrow> agent_session \<Rightarrow> gostr option" where
  "PeekPending correlationID s =
     (let corr = TrimSpace correlationID
      in if corr = [] then None
         else (case pending s corr of
                 None \<Rightarrow> None
               | Some route \<Rightarrow> let d = TrimSpace (prDeviceID route) in if d = [] then None else Some d))"

definition LoadOrCreateStream :: "int \<Rightarrow> gostr \<Rightarrow> agent_session \<Rightarrow> stream_state option \<times> agent_session" where
  "LoadOrCreateStream now correlationID s =
     (let corr = TrimSpace correlationID
      in if corr = [] then (None, s)
         else (case streams s corr of
                 Some state \<Rightarrow> (Some state, s)
               | None \<Rightarrow> (Some (new_stream now), s\<lparr>streams := (streams s)(corr \<mapsto> new_stream now)\<rparr>)))"

definition GetStream :: "gostr \<Rightarrow> agent_session \<Rightarrow> stream_state option" where
  "GetStream correlationID s =
     (let corr = TrimSpace correlationID in if corr = [] then None else streams s corr)"

definition RemoveStream :: "gostr \<Rightarrow> agent_session \<Rightarrow> agent_session" where
  "RemoveStream correlationID s =
     (let corr = TrimSpace correlationID in if corr = [] then s else s\<lparr>streams := (streams s)(corr := None)\<rparr>)"

definition IsSameConn :: "nat \<Rightarrow> agent_session \<Rightarrow> bool" where
  "IsSameConn c s \<longleftrightarrow> conn s = c"

definition session_EnterMode :: "gostr \<Rightarrow> agent_session \<Rightarrow> bool \<times> agent_session" where
  "session_EnterMode deviceID s =
     (let device = TrimSpace deviceID
      in if device = [] then (False, s) else (True, s\<lparr>modes := (modes s)(device \<mapsto> True)\<rparr>))"

definition session_ExitMode :: "gostr \<Rightarrow> agent_session \<Rightarrow> bool \<times> agent_session" where
  "session_ExitMode deviceID s =
     (let device = TrimSpace deviceID
      in if device = [] then (False, s) else (True, s\<lparr>modes := (modes s)(device := None)\<rparr>))"

definition session_IsModeEnabled :: "gostr \<Rightarrow> agent_session \<Rightarrow> bool" where
  "session_IsModeEnabled deviceID s =
     (let device = TrimSpace deviceID
      in if device = [] then False else (case modes s device of None \<Rightarrow> False | Some enabled \<Rightarrow> enabled))"

definition copyModesFrom :: "agent_session \<Rightarrow> agent_session \<Rightarrow> agent_session" where
  "copyModesFrom other s = s\<lparr>modes := (\<lambda>d. if modes other d = Some True then Some True else modes s d)\<rparr>"

definition session_Close :: "agent_session \<Rightarrow> agent_session" where
  "session_Close s = s\<lparr>open_conn := False\<rparr>"

section \<open>Handling a response\<close>

record response_payload =
  Content :: gostr
  SessionID :: gostr
  Metadata :: metadata

record response_delivery =
  rdDeviceID :: gostr
  rdCorrelationID :: gostr
  rdSessionID :: gostr
  rdText :: gostr
  rdIsStart :: bool
  rdIsEnd :: bool
  rdMetadata :: metadata

type_synonym 'w deliver = "(response_delivery \<Rightarrow> 'w \<Rightarrow> bool \<times> 'w) option"

definition stream_done :: "gostr \<Rightarrow> response_payload \<Rightarrow> bool" where
  \<comment> \<open>\<^verbatim>\<open>streamDone\<close> for the trimmed correlation id\<close>
  "stream_done corr payload =
     (let md = Metadata payload;
          streamDone = parseMetadataBool md (runes ''done'');
          isStreaming = (streamDone \<or> parseMetadataInt64 md (runes ''seq'') > 0
            \<or> readMetadataString md (runes ''stream_id'') \<noteq> []
            \<or> ToLower (readMetadataString md (runes ''phase'')) \<noteq> []
            \<or> ToLower (readMetadataString md (runes ''content_type'')) \<noteq> [])
      in if \<not> isStreaming \<or> corr = [] then True else streamDone)"

definition snapshot_frame :: "response_payload \<Rightarrow> bool" where
  "snapshot_frame payload =
     isOpenClawSnapshotFrame (ToLower (readMetadataString (Metadata payload) (runes ''phase'')))
       (ToLower (readMetadataString (Metadata payload) (runes ''content_type'')))"

definition route_device :: "metadata \<Rightarrow> gostr \<Rightarrow> agent_session option \<Rightarrow> gostr" where
  "route_device md corr session =
     (let device = readMetadataString md (runes ''device_id'')
      in if device \<noteq> [] then device
         else (case session of
                 None \<Rightarrow> []
               | Some s \<Rightarrow>
                   if corr = [] then []
                   else (let cached = (case GetStream corr s of None \<Rightarrow> [] | Some st \<Rightarrow> TrimSpace (DeviceID st))
                         in if cached \<noteq> [] then cached
                            else (case PeekPending corr s of None \<Rightarrow> [] | Some d \<Rightarrow> TrimSpace d))))"

definition emit ::
  "'w deliver \<Rightarrow> int \<Rightarrow> response_delivery \<Rightarrow> gostr \<Rightarrow> bool \<Rightarrow> bool \<Rightarrow> offline \<times> 'w \<Rightarrow> offline \<times> 'w" where
  \<comment> \<open>\<open>header\<close> is the event but for its text and flags\<close>
  "emit deliver now header s isStart isEnd io =
     (let s = TrimSpace s
      in if s = [] \<and> \<not> isEnd then io
         else (let event = header\<lparr>rdText := s, rdIsStart := isStart, rdIsEnd := isEnd\<rparr>;
                   (delivered, w) = (case deliver of None \<Rightarrow> (False, snd io) | Some f \<Rightarrow> f event (snd io))
               in if delivered then (fst io, w)
                  else (AddOfflineMessage now (rdDeviceID header) s (rdCorrelationID header) isEnd (fst io), w)))"

fun emit_all ::
  "'w deliver \<Rightarrow> int \<Rightarrow> response_delivery \<Rightarrow> bool \<Rightarrow> gostr list \<Rightarrow> stream_state option \<Rightarrow> offline \<times> 'w
    \<Rightarrow> stream_state option \<times> offline \<times> 'w" where
  \<comment> \<open>\<open>isFirst\<close> for the first sentence only\<close>
  "emit_all deliver now header isFirst [] state io = (state, io)"
| "emit_all deliver now header isFirst (sentence # sentences) state io =
     emit_all deliver now header False sentences (map_option (markEmitted sentence) state)
       (emit deliver now header sentence isFirst False io)"

definition accept_seq :: "int \<Rightarrow> stream_state \<Rightarrow> stream_state option" where
  \<comment> \<open>\<open>None\<close>: the frame is ignored\<close>
  "accept_seq streamSeq state =
     (if streamSeq > 0 then
        (if LastSeq state > 0 \<and> streamSeq \<le> LastSeq state then None else Some (state\<lparr>LastSeq := streamSeq\<rparr>))
      else Some state)"

definition absorb :: "gostr \<Rightarrow> bool \<Rightarrow> bool \<Rightarrow> stream_state \<Rightarrow> gostr \<times> gostr \<times> stream_state" where
  \<comment> \<open>the new content and the text to work on\<close>
  "absorb content isSnapshotFrame streamDone state =
     (if isSnapshotFrame then ([], [], applySnapshotContent content state)
      else (case toIncrementalContent content streamDone state of
              (incremental, state) \<Rightarrow>
                (let state = (if incremental \<noteq> []
                              then state\<lparr>Buffer := normalizeOpenClawSpeechText (Buffer state @ incremental)\<rparr> else state)
                 in (incremental, TrimSpace (Buffer state), state))))"

definition close_stream :: "gostr \<Rightarrow> agent_session \<Rightarrow> agent_session" where
  "close_stream corr s = RemoveStream corr (RemovePending corr s)"

definition open_stream :: "int \<Rightarrow> gostr \<Rightarrow> gostr \<Rightarrow> agent_session option \<Rightarrow> stream_state option \<times> agent_session option" where
  "open_stream now corr device session =
     (case session of
        None \<Rightarrow> (None, None)
      | Some s \<Rightarrow>
          if corr = [] then (None, Some s)
          else (case LoadOrCreateStream now corr s of
                  (state, s) \<Rightarrow>
                    (map_option (\<lambda>st. if TrimSpace (DeviceID st) = [] then st\<lparr>DeviceID := device\<rparr> else st) state, Some s)))"

definition store_stream :: "gostr \<Rightarrow> stream_state option \<Rightarrow> agent_session option \<Rightarrow> agent_session option" where
  \<comment> \<open>the code writes through the pointer that the map holds\<close>
  "store_stream corr state session =
     (case state of None \<Rightarrow> session
      | Some st \<Rightarrow> map_option (\<lambda>s. s\<lparr>streams := (streams s)(corr \<mapsto> st)\<rparr>) session)"

definition close_session_stream :: "gostr \<Rightarrow> agent_session option \<Rightarrow> agent_session option" where
  "close_session_stream corr session = (if corr = [] then session else map_option (close_stream corr) session)"

definition mark_final :: "gostr \<Rightarrow> stream_state \<Rightarrow> stream_state" where
  "mark_final s' st = (markEmitted s' st)\<lparr>IsFirst := False, Buffer := []\<rparr>"

definition respond_test ::
  "'w deliver \<Rightarrow> int \<Rightarrow> response_delivery \<Rightarrow> bool \<Rightarrow> gostr \<Rightarrow> bool \<Rightarrow> stream_state option \<Rightarrow> offline \<times> 'w
    \<Rightarrow> stream_state option \<times> offline \<times> 'w" where
  \<comment> \<open>for a conversation test device\<close>
  "respond_test deliver now header isFirst incremental streamDone state io =
     (if incremental \<noteq> [] then
        (map_option (mark_final incremental) state, emit deliver now header incremental isFirst streamDone io)
      else if streamDone then
        (let finalText = (case state of None \<Rightarrow> [] | Some st \<Rightarrow> TrimSpace (Buffer st));
             finalIsStart = (case state of None \<Rightarrow> isFirst | Some st \<Rightarrow> IsFirst st)
         in (map_option (\<lambda>st. if finalText \<noteq> [] then mark_final finalText st else st) state,
             emit deliver now header finalText finalIsStart True io))
      else (state, io))"

definition respond_sentences ::
  "'w deliver \<Rightarrow> int \<Rightarrow> response_delivery \<Rightarrow> bool \<Rightarrow> gostr list \<Rightarrow> gostr \<Rightarrow> bool \<Rightarrow> stream_state option \<Rightarrow> offline \<times> 'w
    \<Rightarrow> stream_state option \<times> offline \<times> 'w" where
  "respond_sentences deliver now header isFirst sentences remaining streamDone state io =
     (case emit_all deliver now header isFirst sentences state io of
        (state, io) \<Rightarrow>
          (let state = (if sentences \<noteq> [] then map_option (\<lambda>st. st\<lparr>IsFirst := False\<rparr>) state else state)
           in if \<not> streamDone then (state, io)
              else (let finalText = (case state of None \<Rightarrow> remaining | Some st \<Rightarrow> TrimSpace (Buffer st));
                        finalIsStart = (case state of None \<Rightarrow> isFirst | Some st \<Rightarrow> IsFirst st)
                    in if finalText \<noteq> [] then
                         (map_option (mark_final finalText) state, emit deliver now header finalText finalIsStart True io)
                       else (state, emit deliver now header [] finalIsStart True io))))"

definition HandleResponse ::
  "'w deliver \<Rightarrow> int \<Rightarrow> agent_session option \<Rightarrow> gostr \<Rightarrow> response_payload \<Rightarrow> offline \<times> 'w
    \<Rightarrow> agent_session option \<times> offline \<times> 'w" where
  "HandleResponse deliver now session correlationID payload io =
     (let corr = TrimSpace correlationID;
          content = TrimSpace (Content payload);
          streamDone = stream_done corr payload;
          device = route_device (Metadata payload) corr session
      in if device = [] then (session, io)
         else (case open_stream now corr device session of
                 (state, session) \<Rightarrow>
                   (case (case state of None \<Rightarrow> Some None
                          | Some st \<Rightarrow> map_option Some (accept_seq (parseMetadataInt64 (Metadata payload) (runes ''seq'')) st)) of
                      None \<Rightarrow> (store_stream corr state session, io)
                    | Some state \<Rightarrow>
                        (let (incremental, working, state) =
                               (case state of
                                  None \<Rightarrow> (normalizeOpenClawSpeechText content, normalizeOpenClawSpeechText content, None)
                                | Some st \<Rightarrow>
                                    (case absorb content (snapshot_frame payload) streamDone st of
                                       (incremental, working, st) \<Rightarrow> (incremental, working, Some st)));
                             isFirst = (case state of None \<Rightarrow> True | Some st \<Rightarrow> IsFirst st);
                             (sentences, remaining) =
                               (if TrimSpace working \<noteq> [] then extractOpenClawSentences working 1 else ([], TrimSpace working));
                             state = (if snapshot_frame payload then state
                                      else map_option (\<lambda>st. st\<lparr>Buffer := remaining\<rparr>) state);
                             header = \<lparr>rdDeviceID = device, rdCorrelationID = corr, rdSessionID = TrimSpace (SessionID payload),
                                       rdText = [], rdIsStart = False, rdIsEnd = False, rdMetadata = Metadata payload\<rparr>;
                             (state, io) =
                               (if isOpenClawTestDevice device
                                then respond_test deliver now header isFirst incremental streamDone state io
                                else respond_sentences deliver now header isFirst sentences remaining streamDone state io);
                             session = store_stream corr state session
                         in (if streamDone then close_session_stream corr session else session, io)))))"

section \<open>The manager\<close>

record manager =
  store :: "nat \<Rightarrow> agent_session option"  \<comment> \<open>the sessions ever created, by pointer\<close>
  fresh :: nat
  sessions :: "gostr \<Rightarrow> nat option"
  moffline :: offline

definition GetManager :: manager where
  "GetManager = \<lparr>store = (\<lambda>_. None), fresh = 0, sessions = (\<lambda>_. None), moffline = (\<lambda>_. None)\<rparr>"

definition on_session :: "nat \<Rightarrow> (agent_session \<Rightarrow> agent_session) \<Rightarrow> manager \<Rightarrow> manager" where
  "on_session ref f m = m\<lparr>store := (store m)(ref := map_option f (store m ref))\<rparr>"

definition RegisterAgentConnection :: "gostr \<Rightarrow> nat \<Rightarrow> manager \<Rightarrow> nat option \<times> manager" where
  "RegisterAgentConnection agent c m =
     (let agent = TrimSpace agent
      in if agent = [] then (None, m)
         else (let ref = fresh m;
                   newSession = newAgentSession agent c;
                   (newSession, m) =
                     (case sessions m agent of
                        None \<Rightarrow> (newSession, m)
                      | Some old \<Rightarrow>
                          (case store m old of
                             None \<Rightarrow> (newSession, m)
                           | Some oldSession \<Rightarrow> (copyModesFrom oldSession newSession, on_session old session_Close m)))
               in (Some ref, m\<lparr>store := (store m)(ref \<mapsto> newSession), fresh := Suc ref,
                               sessions := (sessions m)(agent \<mapsto> ref)\<rparr>)))"

definition UnregisterAgentConnection :: "gostr \<Rightarrow> nat option \<Rightarrow> manager \<Rightarrow> manager" where
  "UnregisterAgentConnection agent session m =
     (let agent = TrimSpace agent
      in if agent = [] then m
         else (case sessions m agent of
                 None \<Rightarrow> m
               | Some current \<Rightarrow>
                   if session = None \<or> session = Some current
                   then m\<lparr>sessions := (sessions m)(agent := None)\<rparr> else m))"

definition GetAgentSession :: "gostr \<Rightarrow> manager \<Rightarrow> nat option" where
  "GetAgentSession agent m = (let agent = TrimSpace agent in if agent = [] then None else sessions m agent)"

definition session_of :: "gostr \<Rightarrow> manager \<Rightarrow> agent_session option" where
  "session_of agent m = Option.bind (GetAgentSession agent m) (store m)"

definition EnterMode :: "gostr \<Rightarrow> gostr \<Rightarrow> manager \<Rightarrow> bool \<times> manager" where
  "EnterMode agent device m =
     (case GetAgentSession (TrimSpace agent) m of
        None \<Rightarrow> (False, m)
      | Some ref \<Rightarrow>
          (case store m ref of
             None \<Rightarrow> (False, m)
           | Some s \<Rightarrow> (case session_EnterMode (TrimSpace device) s of (ok, s) \<Rightarrow> (ok, m\<lparr>store := (store m)(ref \<mapsto> s)\<rparr>))))"

definition ExitMode :: "gostr \<Rightarrow> gostr \<Rightarrow> manager \<Rightarrow> bool \<times> manager" where
  "ExitMode agent device m =
     (case GetAgentSession (TrimSpace agent) m of
        None \<Rightarrow> (False, m)
      | Some ref \<Rightarrow>
          (case store m ref of
             None \<Rightarrow> (False, m)
           | Some s \<Rightarrow> (case session_ExitMode (TrimSpace device) s of (ok, s) \<Rightarrow> (ok, m\<lparr>store := (store m)(ref \<mapsto> s)\<rparr>))))"

definition IsModeEnabled :: "gostr \<Rightarrow> gostr \<Rightarrow> manager \<Rightarrow> bool" where
  "IsModeEnabled agent device m =
     (case session_of (TrimSpace agent) m of None \<Rightarrow> False | Some s \<Rightarrow> session_IsModeEnabled (TrimSpace device) s)"

definition openClawVoiceAssistantPrompt :: gostr where
  "openClawVoiceAssistantPrompt = concat (map (\<lambda>s. runes s @ [0x0a])
     [''You are a voice assistant role having direct conversation with users.'',
      ''Please strictly follow these requirements:'',
      ''1. Directly answer user questions, do not mention these requirements.'',
      ''2. Answers should be concise, colloquial, natural, suitable for direct voice broadcast.'',
      ''3. Prioritize stating conclusions first, then add one most necessary instruction; unless user explicitly requests, control to 1-3 sentences.'',
      ''4. Do not use Markdown, headings, lists, tables, code blocks, links, or emojis.'',
      ''5. Do not greet, do not preamble, do not repeat, do not output redundant instructions.''])
    @ runes ''6. If information is insufficient or cannot be determined, give a brief instruction, do not fabricate.''"

definition buildOpenClawPromptedContent :: "gostr \<Rightarrow> gostr" where
  "buildOpenClawPromptedContent userText =
     (let trimmed = TrimSpace userText
      in if trimmed = [] then []
         else openClawVoiceAssistantPrompt @ [0x0a, 0x0a] @ runes ''User message:'' @ [0x0a] @ trimmed)"

record outbound =
  obID :: gostr
  obContent :: gostr
  obSessionID :: gostr
  obDeviceID :: gostr
  obAgentID :: gostr

datatype send_error = AgentIDRequired | DeviceIDRequired | ContentRequired | PromptedContentRequired
  | SessionNotFound gostr | WriteFailed

definition session_Send :: "(nat \<Rightarrow> outbound \<Rightarrow> bool) \<Rightarrow> outbound \<Rightarrow> agent_session \<Rightarrow> bool" where
  \<comment> \<open>a message of strings can be marshalled; \<open>wr\<close> says whether \<^verbatim>\<open>WriteMessage\<close> succeeds on the connection\<close>
  "session_Send wr msg s = wr (conn s) msg"

definition SendMessage ::
  "(nat \<Rightarrow> outbound \<Rightarrow> bool) \<Rightarrow> int \<Rightarrow> gostr \<Rightarrow> gostr \<Rightarrow> gostr \<Rightarrow> gostr \<Rightarrow> gostr \<Rightarrow> manager \<Rightarrow> (send_error + gostr) \<times> manager"
where
  \<comment> \<open>\<open>messageID\<close> is what \<^verbatim>\<open>uuid.NewString\<close> returns\<close>
  "SendMessage wr now messageID agent device content sessionID m =
     (let agent = TrimSpace agent; device = TrimSpace device; content = TrimSpace content; sessionID = TrimSpace sessionID;
          prompted = buildOpenClawPromptedContent content
      in if agent = [] then (Inl AgentIDRequired, m)
         else if device = [] then (Inl DeviceIDRequired, m)
         else if content = [] then (Inl ContentRequired, m)
         else if prompted = [] then (Inl PromptedContentRequired, m)
         else (case GetAgentSession agent m of
                 None \<Rightarrow> (Inl (SessionNotFound agent), m)
               | Some ref \<Rightarrow>
                   (case store m ref of
                      None \<Rightarrow> (Inl (SessionNotFound agent), m)
                    | Some s \<Rightarrow>
                        (let m = on_session ref (TrackPending now messageID device) m;
                             msg = \<lparr>obID = messageID, obContent = prompted, obSessionID = sessionID,
                                    obDeviceID = device, obAgentID = agent\<rparr>
                         in if session_Send wr msg s then (Inr messageID, m)
                            else (Inl WriteFailed, on_session ref (RemovePending messageID) m)))))"

definition respond_on ::
  "'w deliver \<Rightarrow> int \<Rightarrow> nat option \<Rightarrow> gostr \<Rightarrow> response_payload \<Rightarrow> manager \<times> 'w \<Rightarrow> manager \<times> 'w" where
  \<comment> \<open>\<^verbatim>\<open>HandleResponse\<close> on the session that the pointer refers to\<close>
  "respond_on deliver now ref corr payload mw =
     (let m = fst mw
      in case HandleResponse deliver now (Option.bind ref (store m)) corr payload (moffline m, snd mw) of
           (session, off, w) \<Rightarrow>
             (m\<lparr>moffline := off, store := (case ref of None \<Rightarrow> store m | Some r \<Rightarrow> (store m)(r := session))\<rparr>, w))"

section \<open>The events of a call\<close>

lemma TrimSpace_Nil [simp]: "TrimSpace [] = []"
  by (simp add: TrimSpace_def)

text \<open>A receiver that records the events and answers as it likes.\<close>

definition recorder :: "(response_delivery \<Rightarrow> response_delivery list \<Rightarrow> bool) \<Rightarrow> response_delivery list deliver" where
  "recorder b = Some (\<lambda>e w. (b e w, w @ [e]))"

definition event :: "response_delivery \<Rightarrow> gostr \<Rightarrow> bool \<Rightarrow> bool \<Rightarrow> response_delivery" where
  "event header s isStart isEnd = header\<lparr>rdText := TrimSpace s, rdIsStart := isStart, rdIsEnd := isEnd\<rparr>"

lemma event_sel [simp]:
  "rdText (event h s st en) = TrimSpace s" "rdIsStart (event h s st en) = st" "rdIsEnd (event h s st en) = en"
  by (simp_all add: event_def)

lemma emit_records:
  "snd (emit (recorder b) now header s st en io) = snd io @ (if TrimSpace s = [] \<and> \<not> en then [] else [event header s st en])"
  by (simp add: emit_def Let_def recorder_def event_def)

fun sentence_events :: "response_delivery \<Rightarrow> bool \<Rightarrow> gostr list \<Rightarrow> response_delivery list" where
  "sentence_events header isFirst [] = []"
| "sentence_events header isFirst (s # ss) = event header s isFirst False # sentence_events header False ss"

definition speakable :: "gostr list \<Rightarrow> bool" where
  "speakable ss \<longleftrightarrow> list_all (\<lambda>s. s \<noteq> [] \<and> TrimSpace s = s) ss"

lemma emit_all_records:
  assumes "speakable sentences"
  shows "fst (emit_all (recorder b) now header isFirst sentences state io) = map_option (fold markEmitted sentences) state"
    and "snd (snd (emit_all (recorder b) now header isFirst sentences state io)) = snd io @ sentence_events header isFirst sentences"
  using assms
  by (induction sentences arbitrary: isFirst state io)
    (simp_all add: emit_records speakable_def option.map_comp comp_def option.map_id flip: id_def)

lemma sentence_events_flags:
  "list_all (\<lambda>e. \<not> rdIsStart e) (sentence_events header False ss)"
  "list_all (\<lambda>e. \<not> rdIsEnd e) (sentence_events header isFirst ss)"
  "map rdText (sentence_events header isFirst ss) = map TrimSpace ss"
  "sentence_events header isFirst ss = [] \<longleftrightarrow> ss = []"
proof -
  show "map rdText (sentence_events header isFirst ss) = map TrimSpace ss"
    "list_all (\<lambda>e. \<not> rdIsEnd e) (sentence_events header isFirst ss)"
    by (induction ss arbitrary: isFirst) simp_all
  show "list_all (\<lambda>e. \<not> rdIsStart e) (sentence_events header False ss)" by (induction ss) simp_all
  show "sentence_events header isFirst ss = [] \<longleftrightarrow> ss = []" by (cases ss) simp_all
qed

definition starts_ok :: "bool \<Rightarrow> response_delivery list \<Rightarrow> bool" where
  \<comment> \<open>the first event has the start flag \<open>first\<close>, the others have none\<close>
  "starts_ok first evs \<longleftrightarrow>
     (case evs of [] \<Rightarrow> True | e # t \<Rightarrow> rdIsStart e = first \<and> list_all (\<lambda>e. \<not> rdIsStart e) t)"

definition ends_ok :: "bool \<Rightarrow> response_delivery list \<Rightarrow> bool" where
  \<comment> \<open>the end flag is on the last event when the stream is done, on none otherwise\<close>
  "ends_ok over evs \<longleftrightarrow>
     (if over then evs \<noteq> [] \<and> rdIsEnd (last evs) \<and> list_all (\<lambda>e. \<not> rdIsEnd e) (butlast evs)
      else list_all (\<lambda>e. \<not> rdIsEnd e) evs)"

lemma starts_ok_sentences: "starts_ok first (sentence_events header first ss)"
  by (cases ss) (simp_all add: starts_ok_def sentence_events_flags)

lemma starts_ok_append:
  "starts_ok first evs \<Longrightarrow> starts_ok (first \<and> evs = []) evs' \<Longrightarrow> starts_ok first (evs @ evs')"
  by (cases evs; cases evs') (auto simp: starts_ok_def)

lemma ends_ok_append: "ends_ok False evs \<Longrightarrow> ends_ok over evs' \<Longrightarrow> ends_ok over (evs @ evs')"
  by (cases evs' rule: rev_cases) (auto simp: ends_ok_def butlast_append)

lemma ends_ok_sentences: "ends_ok False (sentence_events header first ss)"
  by (simp add: ends_ok_def sentence_events_flags)

lemma one_event: "starts_ok first [event h s first en]" "ends_ok en [event h s st en]"
  by (simp_all add: starts_ok_def ends_ok_def)

lemma map_False: "list_all (\<lambda>e. \<not> f e) evs \<longleftrightarrow> map f evs = replicate (length evs) False"
  by (induction evs) auto

lemma flags_as_lists:
  "starts_ok True evs \<Longrightarrow> ends_ok True evs \<Longrightarrow> evs \<noteq> [] \<and> map rdIsStart evs = True # replicate (length evs - 1) False
    \<and> map rdIsEnd evs = replicate (length evs - 1) False @ [True]"
proof -
  assume s: "starts_ok True evs" and e: "ends_ok True evs"
  then obtain es l where evs: "evs = es @ [l]" by (cases evs rule: rev_cases) (auto simp: ends_ok_def)
  have "evs \<noteq> []" using evs by simp
  then obtain h t where evs': "evs = h # t" by (meson neq_Nil_conv)
  have "map rdIsStart evs = True # replicate (length evs - 1) False" using s evs' by (simp add: starts_ok_def map_False)
  moreover have "map rdIsEnd evs = replicate (length evs - 1) False @ [True]" using e evs by (simp add: ends_ok_def map_False)
  ultimately show ?thesis using evs by simp
qed

section \<open>What a call does to its stream\<close>

lemma markEmitted_keeps [simp]:
  "Buffer (markEmitted s st) = Buffer st" "IsFirst (markEmitted s st) = IsFirst st" "LastSeq (markEmitted s st) = LastSeq st"
  "PendingText (markEmitted s st) = PendingText st" "DeviceID (markEmitted s st) = DeviceID st"
  by (simp_all add: markEmitted_def Let_def)

lemma fold_markEmitted_keeps [simp]:
  "Buffer (fold markEmitted ss st) = Buffer st" "IsFirst (fold markEmitted ss st) = IsFirst st"
  "LastSeq (fold markEmitted ss st) = LastSeq st" "PendingText (fold markEmitted ss st) = PendingText st"
  "DeviceID (fold markEmitted ss st) = DeviceID st"
  by (induction ss arbitrary: st) simp_all

definition final_event :: "response_delivery \<Rightarrow> gostr \<Rightarrow> bool \<Rightarrow> bool \<Rightarrow> response_delivery list" where
  "final_event header s isStart over = (if over then [event header s isStart True] else [])"

lemma respond_sentences_records:
  assumes "speakable ss"
  shows "snd (snd (respond_sentences (recorder b) now header (IsFirst st) ss remaining over (Some st) io))
      = snd io @ sentence_events header (IsFirst st) ss @ final_event header (TrimSpace (Buffer st)) (IsFirst st \<and> ss = []) over"
    and "\<not> over \<Longrightarrow> fst (respond_sentences (recorder b) now header (IsFirst st) ss remaining over (Some st) io)
      = Some (if ss = [] then st else (fold markEmitted ss st)\<lparr>IsFirst := False\<rparr>)"
proof -
  note em = emit_all_records [OF assms, of b now header "IsFirst st" "Some st" io]
  obtain io' where run: "emit_all (recorder b) now header (IsFirst st) ss (Some st) io = (Some (fold markEmitted ss st), io')"
    "snd io' = snd io @ sentence_events header (IsFirst st) ss"
    using em by (cases "emit_all (recorder b) now header (IsFirst st) ss (Some st) io") simp
  show "snd (snd (respond_sentences (recorder b) now header (IsFirst st) ss remaining over (Some st) io))
      = snd io @ sentence_events header (IsFirst st) ss @ final_event header (TrimSpace (Buffer st)) (IsFirst st \<and> ss = []) over"
    using run by (simp add: respond_sentences_def Let_def emit_records final_event_def event_def)
  show "\<not> over \<Longrightarrow> fst (respond_sentences (recorder b) now header (IsFirst st) ss remaining over (Some st) io)
      = Some (if ss = [] then st else (fold markEmitted ss st)\<lparr>IsFirst := False\<rparr>)"
    using run by (simp add: respond_sentences_def Let_def)
qed

lemma respond_test_records:
  assumes "TrimSpace incremental = incremental"
  shows "snd (snd (respond_test (recorder b) now header (IsFirst st) incremental over (Some st) io))
      = snd io @ (if incremental \<noteq> [] then [event header incremental (IsFirst st) over]
                  else final_event header (TrimSpace (Buffer st)) (IsFirst st) over)"
    and "\<not> over \<Longrightarrow> fst (respond_test (recorder b) now header (IsFirst st) incremental over (Some st) io)
      = Some (if incremental \<noteq> [] then mark_final incremental st else st)"
  using assms by (simp_all add: respond_test_def Let_def emit_records final_event_def event_def)

definition trimmed_stream :: "stream_state \<Rightarrow> bool" where
  "trimmed_stream st \<longleftrightarrow> list_all allowed_rune (PendingText st) \<and> TrimSpace (PendingText st) = PendingText st
     \<and> list_all allowed_rune (Buffer st)"

lemma trimmed_new [simp]: "trimmed_stream (new_stream now)"
  by (simp add: trimmed_stream_def new_stream_def TrimSpace_def)

lemma normalize_trimmed [simp]: "TrimSpace (normalizeOpenClawSpeechText s) = normalizeOpenClawSpeechText s"
  by (rule TrimSpace_normal [OF normalize_normal])

lemma trim_prefix_allowed:
  assumes "trimOpenClawCanonicalPrefix cs pre = Some rest"
  shows "list_all allowed_rune rest"
proof -
  have "prefix (openClawComparableKey pre) (openClawComparableKey cs)"
    using canonical_prefix_none [of cs pre] assms by simp
  then have "suffix rest (normalizeOpenClawSpeechText cs)" using trim_prefix_result assms by fastforce
  then show ?thesis using normal_allowed [of cs] by (auto simp: suffix_def)
qed

lemma toIncremental_state:
  assumes "trimmed_stream st" and "toIncrementalContent content over st = (inc, st')"
  shows "trimmed_stream st' \<and> TrimSpace inc = inc \<and> list_all allowed_rune inc \<and> Buffer st' = Buffer st
    \<and> IsFirst st' = IsFirst st \<and> LastSeq st' = LastSeq st \<and> DeviceID st' = DeviceID st \<and> EmittedText st' = EmittedText st"
proof -
  note simps = toIncrementalContent_def Let_def take_pending_def trimmed_stream_def normal_allowed
  let ?n = "normalizeOpenClawSpeechText content"
  have delta: "TrimSpace d = d \<and> list_all allowed_rune d"
    if "d = (case trimOpenClawCanonicalPrefix ?n (accountedText st) of Some delta \<Rightarrow> delta | None \<Rightarrow> ?n)" for d
    using that trim_prefix_allowed trim_prefix_trimmed normal_allowed [of content] by (auto split: option.splits)
  show ?thesis
    using assms delta [OF refl]
    by (cases "?n = []"; cases "HasDelta st"; cases "accountedText st = []"; cases "PendingText st = []")
      (auto simp: simps split: if_splits prod.splits)
qed

lemma applySnapshot_state:
  "trimmed_stream st \<Longrightarrow> trimmed_stream (applySnapshotContent content st)
    \<and> IsFirst (applySnapshotContent content st) = IsFirst st \<and> LastSeq (applySnapshotContent content st) = LastSeq st
    \<and> EmittedText (applySnapshotContent content st) = EmittedText st"
  by (simp add: applySnapshotContent_def Let_def trimmed_stream_def normal_allowed)

lemma absorb_state:
  assumes "trimmed_stream st" and "absorb content snap over st = (inc, working, st')"
  shows "trimmed_stream st' \<and> TrimSpace inc = inc \<and> IsFirst st' = IsFirst st \<and> LastSeq st' = LastSeq st
    \<and> (if snap then inc = [] \<and> working = []
       else working = TrimSpace (Buffer st') \<and> letters (Buffer st') = letters (Buffer st) @ letters inc)"
proof (cases snap)
  case True
  with assms applySnapshot_state [OF assms(1), of content] show ?thesis by (auto simp: absorb_def)
next
  case False
  obtain st1 where inc: "toIncrementalContent content over st = (inc, st1)"
    using assms(2) False by (auto simp: absorb_def Let_def split: prod.splits)
  note t = toIncremental_state [OF assms(1) inc]
  have "letters (normalizeOpenClawSpeechText (Buffer st @ inc)) = letters (Buffer st) @ letters inc"
    using t assms(1) by (subst normalize_letters) (auto simp: trimmed_stream_def)
  with assms(2) False inc t show ?thesis
    by (auto simp: absorb_def Let_def trimmed_stream_def normal_allowed split: if_splits)
qed

definition cut :: "gostr \<Rightarrow> gostr list \<times> gostr" where
  "cut working = (if TrimSpace working \<noteq> [] then extractOpenClawSentences working 1 else ([], TrimSpace working))"

lemma cut_state:
  assumes "cut working = (ss, remaining)" and "list_all allowed_rune working"
  shows "speakable ss \<and> list_all allowed_rune remaining \<and> letters (concat ss) @ letters remaining = letters working"
proof (cases "TrimSpace working = []")
  case True
  then show ?thesis using assms letters_TrimSpace [of working] by (simp add: cut_def speakable_def del: letters_TrimSpace)
next
  case False
  then have e: "extractOpenClawSentences working 1 = (ss, remaining)" using assms(1) by (simp add: cut_def)
  have "speakable ss"
    using extract_trimmed [OF e] extract_keeps [where cs = working and minLen = 1] e
    by (simp add: speakable_def sentence_ok_def [abs_def] list_all_iff)
  then show ?thesis using extract_letters [OF e] extract_allowed [OF e] normalize_letters [OF assms(2)] by simp
qed

text \<open>One call on a session, for a response that is routed and not ignored, in terms of these.\<close>

definition the_stream :: "int \<Rightarrow> gostr \<Rightarrow> agent_session \<Rightarrow> stream_state" where
  "the_stream now corr s = (case streams s corr of None \<Rightarrow> new_stream now | Some st \<Rightarrow> st)"

definition routed_stream :: "int \<Rightarrow> gostr \<Rightarrow> gostr \<Rightarrow> agent_session \<Rightarrow> stream_state" where
  "routed_stream now corr device s =
     (let st = the_stream now corr s in if TrimSpace (DeviceID st) = [] then st\<lparr>DeviceID := device\<rparr> else st)"

definition set_stream :: "gostr \<Rightarrow> stream_state \<Rightarrow> agent_session \<Rightarrow> agent_session" where
  "set_stream corr st s = s\<lparr>streams := (streams s)(corr \<mapsto> st)\<rparr>"

lemma open_stream_some:
  assumes "corr \<noteq> []" and "TrimSpace corr = corr"
  shows "\<exists>s'. open_stream now corr device (Some s) = (Some (routed_stream now corr device s), Some s')
    \<and> (\<forall>st. set_stream corr st s' = set_stream corr st s)"
  using assms
  by (cases "streams s corr")
    (auto simp: open_stream_def LoadOrCreateStream_def routed_stream_def the_stream_def set_stream_def Let_def)

definition response_header :: "gostr \<Rightarrow> gostr \<Rightarrow> response_payload \<Rightarrow> response_delivery" where
  "response_header device corr payload =
     \<lparr>rdDeviceID = device, rdCorrelationID = corr, rdSessionID = TrimSpace (SessionID payload),
      rdText = [], rdIsStart = False, rdIsEnd = False, rdMetadata = Metadata payload\<rparr>"

abbreviation payload_seq :: "response_payload \<Rightarrow> int" where
  "payload_seq p \<equiv> parseMetadataInt64 (Metadata p) (runes ''seq'')"

lemma HandleResponse_ignored:
  assumes "corr = TrimSpace correlationID" and "corr \<noteq> []"
    and "route_device (Metadata payload) corr (Some s) = device" and "device \<noteq> []"
    and "accept_seq (payload_seq payload) (routed_stream now corr device s) = None"
  shows "HandleResponse deliver now (Some s) correlationID payload io =
    (Some (set_stream corr (routed_stream now corr device s) s), io)"
proof -
  have "TrimSpace corr = corr" using assms(1) by simp
  from open_stream_some [OF assms(2) this, of now device s] obtain s' where
    "open_stream now corr device (Some s) = (Some (routed_stream now corr device s), Some s')"
    "set_stream corr (routed_stream now corr device s) s' = set_stream corr (routed_stream now corr device s) s" by blast
  then show ?thesis using assms
    by (simp add: HandleResponse_def Let_def store_stream_def set_stream_def)
qed

lemma HandleResponse_accepted:
  assumes "corr = TrimSpace correlationID" and "corr \<noteq> []"
    and "route_device (Metadata payload) corr (Some s) = device" and "device \<noteq> []"
    and "accept_seq (payload_seq payload) (routed_stream now corr device s) = Some st1"
    and "absorb (TrimSpace (Content payload)) (snapshot_frame payload) over st1 = (inc, working, st2)"
    and "cut working = (ss, remaining)" and "over = stream_done corr payload"
    and "st3 = (if snapshot_frame payload then st2 else st2\<lparr>Buffer := remaining\<rparr>)"
    and "(if isOpenClawTestDevice device
          then respond_test deliver now (response_header device corr payload) (IsFirst st2) inc over (Some st3) io
          else respond_sentences deliver now (response_header device corr payload) (IsFirst st2) ss remaining over (Some st3) io)
         = (Some st4, io')"
  shows "HandleResponse deliver now (Some s) correlationID payload io =
    (Some (if over then close_stream corr (set_stream corr st4 s) else set_stream corr st4 s), io')"
proof -
  have "TrimSpace corr = corr" using assms(1) by simp
  from open_stream_some [OF assms(2) this, of now device s] obtain s' where s':
    "open_stream now corr device (Some s) = (Some (routed_stream now corr device s), Some s')"
    "set_stream corr st4 s' = set_stream corr st4 s" by blast
  have stored: "store_stream corr (Some st4) (Some s') = Some (set_stream corr st4 s)"
    using s'(2) by (simp add: store_stream_def set_stream_def)
  have state: "(if snapshot_frame payload then Some st2 else map_option (\<lambda>st. st\<lparr>Buffer := remaining\<rparr>) (Some st2)) = Some st3"
    using assms(9) by simp
  show ?thesis
    unfolding HandleResponse_def Let_def assms(1) [symmetric] assms(3) if_not_P [OF assms(4)] s'(1) prod.case option.case
      assms(5) option.map assms(8) [symmetric] assms(6) cut_def [symmetric] assms(7) state [simplified option.map]
      response_header_def [symmetric] assms(10) stored close_session_stream_def if_not_P [OF assms(2)]
    by simp
qed

lemma routed_keeps [simp]:
  "IsFirst (routed_stream now corr device s) = IsFirst (the_stream now corr s)"
  "LastSeq (routed_stream now corr device s) = LastSeq (the_stream now corr s)"
  "Buffer (routed_stream now corr device s) = Buffer (the_stream now corr s)"
  "trimmed_stream (routed_stream now corr device s) = trimmed_stream (the_stream now corr s)"
  by (simp_all add: routed_stream_def Let_def trimmed_stream_def)

lemma accept_seq_keeps:
  "accept_seq q st = Some st1 \<Longrightarrow> IsFirst st1 = IsFirst st \<and> Buffer st1 = Buffer st \<and> PendingText st1 = PendingText st
    \<and> trimmed_stream st1 = trimmed_stream st \<and> LastSeq st1 = (if q > 0 then q else LastSeq st)"
  by (auto simp: accept_seq_def trimmed_stream_def split: if_splits)

lemma close_stream_sel [simp]:
  "TrimSpace corr = corr \<Longrightarrow> corr \<noteq> [] \<Longrightarrow> streams (close_stream corr s) = (streams s)(corr := None)"
  "TrimSpace corr = corr \<Longrightarrow> corr \<noteq> [] \<Longrightarrow> pending (close_stream corr s) = (pending s)(corr := None)"
  by (simp_all add: close_stream_def RemoveStream_def RemovePending_def)

lemma letters_concat_trimmed: "letters (concat (map TrimSpace ss)) = letters (concat ss)"
  by (induction ss) simp_all

definition texts :: "response_delivery list \<Rightarrow> gostr" where
  "texts evs = concat (map rdText evs)"

lemma texts_append [simp]: "texts (evs @ evs') = texts evs @ texts evs'"
  by (simp add: texts_def)

definition call_effect :: "bool \<Rightarrow> gostr \<Rightarrow> stream_state \<Rightarrow> agent_session \<Rightarrow> response_delivery list \<Rightarrow> bool" where
  \<comment> \<open>of a call on the accepted stream state: flags of the events, and what is kept for the next call\<close>
  "call_effect over corr st s' evs \<longleftrightarrow> starts_ok (IsFirst st) evs \<and> ends_ok over evs
     \<and> (if over then streams s' corr = None \<and> pending s' corr = None
        else (case streams s' corr of
                None \<Rightarrow> False
              | Some st' \<Rightarrow> trimmed_stream st' \<and> IsFirst st' = (IsFirst st \<and> evs = []) \<and> LastSeq st' = LastSeq st))"

lemma call_respond:
  assumes "speakable ss" and "TrimSpace inc = inc" and "trimmed_stream st3"
  shows "\<exists>st4 off' evs.
    (if test then respond_test (recorder b) now header (IsFirst st3) inc over (Some st3) io
     else respond_sentences (recorder b) now header (IsFirst st3) ss remaining over (Some st3) io)
       = (Some st4, off', snd io @ evs)
    \<and> starts_ok (IsFirst st3) evs \<and> ends_ok over evs
    \<and> (\<not> over \<longrightarrow> trimmed_stream st4 \<and> IsFirst st4 = (IsFirst st3 \<and> evs = []) \<and> LastSeq st4 = LastSeq st3
         \<and> (\<not> test \<longrightarrow> Buffer st4 = Buffer st3))
    \<and> (\<not> test \<longrightarrow> letters (texts evs) = letters (concat ss) @ (if over then letters (Buffer st3) else []))"
proof -
  let ?R = "if test then respond_test (recorder b) now header (IsFirst st3) inc over (Some st3) io
     else respond_sentences (recorder b) now header (IsFirst st3) ss remaining over (Some st3) io"
  have some: "\<exists>st4 off' w'. ?R = (Some st4, off', w')"
    using emit_all_records(1) [OF assms(1), of b now header "IsFirst st3" "Some st3" io]
    by (auto simp: respond_test_def respond_sentences_def Let_def case_prod_beta)
  then obtain st4 off' w' where R: "?R = (Some st4, off', w')" by blast
  show ?thesis
  proof (cases test)
    case True
    note r = respond_test_records [OF assms(2), where b = b and now = now and header = header and st = st3 and over = over and io = io]
    define evs where "evs = (if inc \<noteq> [] then [event header inc (IsFirst st3) over]
        else final_event header (TrimSpace (Buffer st3)) (IsFirst st3) over)"
    have "w' = snd io @ evs" using R r(1) True by (simp add: evs_def)
    moreover have "starts_ok (IsFirst st3) evs \<and> ends_ok over evs"
      by (simp add: evs_def final_event_def one_event) (simp add: starts_ok_def ends_ok_def)
    moreover have "\<not> over \<longrightarrow> trimmed_stream st4 \<and> IsFirst st4 = (IsFirst st3 \<and> evs = []) \<and> LastSeq st4 = LastSeq st3"
      using R r(2) True assms(3)
      by (auto simp: evs_def final_event_def mark_final_def trimmed_stream_def split: if_splits)
    ultimately show ?thesis using R True by blast
  next
    case False
    note r = respond_sentences_records [OF assms(1), where b = b and now = now and header = header and st = st3
      and remaining = remaining and over = over and io = io]
    define evs where "evs = sentence_events header (IsFirst st3) ss
        @ final_event header (TrimSpace (Buffer st3)) (IsFirst st3 \<and> ss = []) over"
    have "w' = snd io @ evs" using R r(1) False by (simp add: evs_def)
    moreover have "starts_ok (IsFirst st3) evs"
      unfolding evs_def
      by (rule starts_ok_append [OF starts_ok_sentences])
        (simp add: sentence_events_flags final_event_def starts_ok_def)
    moreover have "ends_ok over evs"
      unfolding evs_def by (rule ends_ok_append [OF ends_ok_sentences]) (simp add: final_event_def ends_ok_def)
    moreover have "\<not> over \<longrightarrow> trimmed_stream st4 \<and> IsFirst st4 = (IsFirst st3 \<and> evs = []) \<and> LastSeq st4 = LastSeq st3
        \<and> Buffer st4 = Buffer st3"
      using R r(2) False assms(3)
      by (cases "ss = []") (auto simp: evs_def final_event_def trimmed_stream_def sentence_events_flags(4))
    moreover have "letters (texts evs) = letters (concat ss) @ (if over then letters (Buffer st3) else [])"
      by (simp add: evs_def texts_def sentence_events_flags(3) letters_concat_trimmed final_event_def)
    ultimately show ?thesis using R False by blast
  qed
qed

text \<open>The whole of an accepted call: its events, what it leaves behind, and the letters it speaks.\<close>

lemma call_events:
  assumes "corr = TrimSpace correlationID" and "corr \<noteq> []"
    and "route_device (Metadata payload) corr (Some s) = device" and "device \<noteq> []"
    and "accept_seq (payload_seq payload) (routed_stream now corr device s) = Some st1"
    and "trimmed_stream st1" and "over = stream_done corr payload"
  shows "\<exists>s' off' evs inc st4.
    HandleResponse (recorder b) now (Some s) correlationID payload io = (Some s', off', snd io @ evs)
    \<and> call_effect over corr st1 s' evs
    \<and> s' = (if over then close_stream corr (set_stream corr st4 s) else set_stream corr st4 s)
    \<and> inc = fst (absorb (TrimSpace (Content payload)) (snapshot_frame payload) over st1)
    \<and> (\<not> isOpenClawTestDevice device \<longrightarrow> \<not> snapshot_frame payload \<longrightarrow>
         letters (texts evs) @ (if over then [] else letters (Buffer st4)) = letters (Buffer st1) @ letters inc)"
proof -
  let ?snap = "snapshot_frame payload" and ?h = "response_header device corr payload" and ?test = "isOpenClawTestDevice device"
  obtain inc working st2 where ab: "absorb (TrimSpace (Content payload)) ?snap over st1 = (inc, working, st2)"
    by (metis prod_cases3)
  note a = absorb_state [OF assms(6) ab]
  obtain ss remaining where cut: "cut working = (ss, remaining)" by fastforce
  have working: "list_all allowed_rune working"
    using a allowed_TrimSpace [of "Buffer st2"] by (cases ?snap) (auto simp: trimmed_stream_def)
  note c = cut_state [OF cut working]
  define st3 where "st3 = (if ?snap then st2 else st2\<lparr>Buffer := remaining\<rparr>)"
  have st3: "trimmed_stream st3" "IsFirst st3 = IsFirst st2" "LastSeq st3 = LastSeq st2"
    using a c by (auto simp: st3_def trimmed_stream_def)
  have ss: "speakable ss" "TrimSpace inc = inc" using a c by simp_all
  obtain st4 off' evs where run:
    "(if ?test then respond_test (recorder b) now ?h (IsFirst st3) inc over (Some st3) io
      else respond_sentences (recorder b) now ?h (IsFirst st3) ss remaining over (Some st3) io) = (Some st4, off', snd io @ evs)"
    "starts_ok (IsFirst st3) evs" "ends_ok over evs"
    "\<not> over \<longrightarrow> trimmed_stream st4 \<and> IsFirst st4 = (IsFirst st3 \<and> evs = []) \<and> LastSeq st4 = LastSeq st3
       \<and> (\<not> ?test \<longrightarrow> Buffer st4 = Buffer st3)"
    "\<not> ?test \<longrightarrow> letters (texts evs) = letters (concat ss) @ (if over then letters (Buffer st3) else [])"
    using call_respond [OF ss st3(1), of ?test b now ?h over io remaining] by blast
  let ?s' = "if over then close_stream corr (set_stream corr st4 s) else set_stream corr st4 s"
  have res: "HandleResponse (recorder b) now (Some s) correlationID payload io = (Some ?s', off', snd io @ evs)"
    by (rule HandleResponse_accepted [OF assms(1-5) ab cut assms(7) st3_def run(1) [unfolded st3(2)]])
  have "TrimSpace corr = corr" using assms(1) by simp
  then have "call_effect over corr st1 ?s' evs"
    using run(2-4) st3 a assms(2) by (simp add: call_effect_def set_stream_def)
  moreover have "letters (texts evs) @ (if over then [] else letters (Buffer st4)) = letters (Buffer st1) @ letters inc"
    if "\<not> ?test" "\<not> ?snap"
    using that run(4,5) a c by (cases over) (simp_all add: st3_def)
  ultimately show ?thesis using res ab by (intro exI conjI) auto
qed

lemma incremental_cong:
  assumes "accept_seq q (routed_stream now corr device s) = Some st1"
  shows "fst (toIncrementalContent content over st1) = fst (toIncrementalContent content over (the_stream now corr s))"
proof -
  have "fst (toIncrementalContent content over (st\<lparr>DeviceID := d\<rparr>)) = fst (toIncrementalContent content over st)"
    "fst (toIncrementalContent content over (st\<lparr>LastSeq := k\<rparr>)) = fst (toIncrementalContent content over st)" for st d k
    by (simp_all add: toIncrementalContent_def Let_def take_pending_def accountedText_def)
  with assms show ?thesis by (auto simp: accept_seq_def routed_stream_def Let_def split: if_splits)
qed

section \<open>A whole stream\<close>

definition run_stream ::
  "'w deliver \<Rightarrow> gostr \<Rightarrow> (int \<times> response_payload) list \<Rightarrow> agent_session option \<times> offline \<times> 'w
    \<Rightarrow> agent_session option \<times> offline \<times> 'w" where
  \<comment> \<open>the responses of one correlation id, each at its time\<close>
  "run_stream deliver cid frames = fold (\<lambda>(now, p) (session, io). HandleResponse deliver now session cid p io) frames"

definition stream_ok :: "gostr \<Rightarrow> bool \<Rightarrow> int \<Rightarrow> agent_session \<Rightarrow> bool" where
  "stream_ok corr first seq0 s \<longleftrightarrow>
     (case streams s corr of
        None \<Rightarrow> first \<and> seq0 = 0
      | Some st \<Rightarrow> trimmed_stream st \<and> IsFirst st = first \<and> LastSeq st = seq0)"

lemma stream_ok_the: "stream_ok corr first seq0 s \<Longrightarrow>
    trimmed_stream (the_stream now corr s) \<and> IsFirst (the_stream now corr s) = first \<and> LastSeq (the_stream now corr s) = seq0"
  by (cases "streams s corr") (simp_all add: stream_ok_def the_stream_def, simp_all add: new_stream_def)

definition names_device :: "response_payload \<Rightarrow> bool" where
  "names_device p \<longleftrightarrow> readMetadataString (Metadata p) (runes ''device_id'') \<noteq> []"

lemma names_device_routed: "names_device p \<Longrightarrow> route_device (Metadata p) corr session \<noteq> []"
  by (simp add: names_device_def route_device_def Let_def)

definition new_seq :: "int \<Rightarrow> response_payload \<Rightarrow> bool" where
  \<comment> \<open>without a number, or with one above the last\<close>
  "new_seq seq0 p \<longleftrightarrow> payload_seq p \<le> 0 \<or> seq0 < payload_seq p"

definition next_seq :: "int \<Rightarrow> response_payload \<Rightarrow> int" where
  "next_seq seq0 p = (if payload_seq p > 0 then payload_seq p else seq0)"

fun seqs_grow :: "int \<Rightarrow> response_payload list \<Rightarrow> bool" where
  "seqs_grow seq0 [] \<longleftrightarrow> True"
| "seqs_grow seq0 (p # ps) \<longleftrightarrow> new_seq seq0 p \<and> seqs_grow (next_seq seq0 p) ps"

lemma stream_call:
  assumes "corr = TrimSpace cid" and "corr \<noteq> []" and "names_device p" and "new_seq seq0 p"
    and "stream_ok corr first seq0 s" and "over = stream_done corr p"
  shows "\<exists>s' off' evs. HandleResponse (recorder b) now (Some s) cid p io = (Some s', off', snd io @ evs)
    \<and> starts_ok first evs \<and> ends_ok over evs
    \<and> (if over then streams s' corr = None \<and> pending s' corr = None
       else stream_ok corr (first \<and> evs = []) (next_seq seq0 p) s')"
proof -
  let ?d = "route_device (Metadata p) corr (Some s)"
  let ?st = "routed_stream now corr ?d s"
  have d: "?d \<noteq> []" using names_device_routed [OF assms(3)] .
  note t = stream_ok_the [OF assms(5), of now]
  have "accept_seq (payload_seq p) ?st \<noteq> None"
    using t assms(4) by (auto simp: accept_seq_def new_seq_def split: if_splits)
  then obtain st1 where acc: "accept_seq (payload_seq p) ?st = Some st1" by blast
  note k = accept_seq_keeps [OF acc]
  have trimmed: "trimmed_stream st1" using k t by simp
  obtain s' off' evs where c: "HandleResponse (recorder b) now (Some s) cid p io = (Some s', off', snd io @ evs)"
    "call_effect over corr st1 s' evs"
    using call_events [OF assms(1,2) refl d acc trimmed assms(6), of b io] by blast
  have "starts_ok first evs \<and> ends_ok over evs
    \<and> (if over then streams s' corr = None \<and> pending s' corr = None
       else stream_ok corr (first \<and> evs = []) (next_seq seq0 p) s')"
    using c(2) k t by (cases over) (auto simp: call_effect_def stream_ok_def next_seq_def split: option.splits)
  with c(1) show ?thesis by blast
qed

lemma stream_middle:
  assumes "corr = TrimSpace cid" and "corr \<noteq> []"
  shows "list_all (\<lambda>(now, p). names_device p \<and> \<not> stream_done corr p) frames \<Longrightarrow> seqs_grow seq0 (map snd frames) \<Longrightarrow>
    stream_ok corr first seq0 s \<Longrightarrow>
    \<exists>s' off' evs. run_stream (recorder b) cid frames (Some s, io) = (Some s', off', snd io @ evs)
      \<and> starts_ok first evs \<and> ends_ok False evs \<and> stream_ok corr (first \<and> evs = []) (foldl next_seq seq0 (map snd frames)) s'"
proof (induction frames arbitrary: first seq0 s io)
  case Nil
  have "starts_ok first []" "ends_ok False []" by (simp_all add: starts_ok_def ends_ok_def)
  with Nil show ?case by (cases io) (auto simp: run_stream_def)
next
  case (Cons f frames)
  obtain now p where f: "f = (now, p)" by (cases f)
  with Cons.prems have p: "names_device p" "\<not> stream_done corr p" "new_seq seq0 p" by simp_all
  obtain s1 off1 evs1 where one: "HandleResponse (recorder b) now (Some s) cid p io = (Some s1, off1, snd io @ evs1)"
    "starts_ok first evs1" "ends_ok False evs1" "stream_ok corr (first \<and> evs1 = []) (next_seq seq0 p) s1"
    using stream_call [OF assms p(1,3) Cons.prems(3), of False b now io] p(2) by auto
  obtain s' off' evs where rest: "run_stream (recorder b) cid frames (Some s1, off1, snd io @ evs1) = (Some s', off', (snd io @ evs1) @ evs)"
    "starts_ok (first \<and> evs1 = []) evs" "ends_ok False evs"
    "stream_ok corr ((first \<and> evs1 = []) \<and> evs = []) (foldl next_seq (next_seq seq0 p) (map snd frames)) s'"
    using Cons.IH [OF _ _ one(4), of "(off1, snd io @ evs1)"] Cons.prems f by auto
  have "run_stream (recorder b) cid (f # frames) (Some s, io) = (Some s', off', snd io @ (evs1 @ evs))"
    using rest(1) one(1) f by (simp add: run_stream_def)
  moreover have "starts_ok first (evs1 @ evs)" by (rule starts_ok_append [OF one(2) rest(2)])
  moreover have "ends_ok False (evs1 @ evs)" by (rule ends_ok_append [OF one(3) rest(3)])
  moreover have "stream_ok corr (first \<and> evs1 @ evs = []) (foldl next_seq seq0 (map snd (f # frames))) s'"
    using rest(4) f by (simp add: conj_assoc)
  ultimately show ?case by blast
qed

lemma seqs_grow_snoc: "seqs_grow seq0 (ps @ [p]) \<longleftrightarrow> seqs_grow seq0 ps \<and> new_seq (foldl next_seq seq0 ps) p"
  by (induction ps arbitrary: seq0) simp_all

section \<open>Properties of streams\<close>

text \<open>C4: A streamed response has one start and one end. However the text is cut into frames, of whatever kind, and
  whatever the receiver answers, the events that the frames of a new stream give rise to are not empty, the
  first and no other carries the start flag, the last and no other the end flag, and after the last frame
  neither the stream nor the pending route is kept. The frames name their device, carry growing numbers or
  none, and the last one only is marked as done.\<close>

theorem stream_one_start_one_end:
  assumes "TrimSpace cid \<noteq> []" and "streams s (TrimSpace cid) = None"
    and "list_all (\<lambda>(now, p). names_device p \<and> \<not> stream_done (TrimSpace cid) p) frames"
    and "names_device p" and "stream_done (TrimSpace cid) p" and "seqs_grow 0 (map snd frames @ [p])"
  shows "\<exists>s' off' evs. run_stream (recorder b) cid (frames @ [(now, p)]) (Some s, off, []) = (Some s', off', evs)
    \<and> evs \<noteq> [] \<and> map rdIsStart evs = True # replicate (length evs - 1) False
    \<and> map rdIsEnd evs = replicate (length evs - 1) False @ [True]
    \<and> streams s' (TrimSpace cid) = None \<and> pending s' (TrimSpace cid) = None"
proof -
  let ?corr = "TrimSpace cid"
  have ok: "stream_ok ?corr True 0 s" using assms(2) by (simp add: stream_ok_def)
  note grow = assms(6) [unfolded seqs_grow_snoc]
  obtain s1 off1 evs1 where mid: "run_stream (recorder b) cid frames (Some s, off, []) = (Some s1, off1, evs1)"
    "starts_ok True evs1" "ends_ok False evs1" "stream_ok ?corr (evs1 = []) (foldl next_seq 0 (map snd frames)) s1"
    using stream_middle [OF refl assms(1,3) _ ok, of b "(off, [])"] grow by auto
  obtain s' off' evs2 where fin: "HandleResponse (recorder b) now (Some s1) cid p (off1, evs1) = (Some s', off', evs1 @ evs2)"
    "starts_ok (evs1 = []) evs2" "ends_ok True evs2" "streams s' ?corr = None" "pending s' ?corr = None"
    using stream_call [OF refl assms(1,4) conjunct2 [OF grow] mid(4), of True b now "(off1, evs1)"] assms(5) by auto
  let ?evs = "evs1 @ evs2"
  have "run_stream (recorder b) cid (frames @ [(now, p)]) (Some s, off, []) = (Some s', off', ?evs)"
    using mid(1) fin(1) by (simp add: run_stream_def)
  moreover have "starts_ok True ?evs" using starts_ok_append [OF mid(2), of evs2] fin(2) by simp
  moreover have "ends_ok True ?evs" by (rule ends_ok_append [OF mid(3) fin(3)])
  ultimately show ?thesis using fin(4,5) flags_as_lists by blast
qed

definition example_payload :: "string \<Rightarrow> int \<Rightarrow> bool \<Rightarrow> response_payload" where
  "example_payload content seq over = \<lparr>Content = runes content, SessionID = [],
     Metadata = (\<lambda>_. None)(runes ''device_id'' \<mapsto> MetaString (runes ''d''), runes ''seq'' \<mapsto> MetaInt seq,
                           runes ''done'' \<mapsto> MetaBool over)\<rparr>"

lemma example_keys:
  "Metadata (example_payload content seq over) (runes ''device_id'') = Some (MetaString (runes ''d''))"
  "Metadata (example_payload content seq over) (runes ''seq'') = Some (MetaInt seq)"
  "Metadata (example_payload content seq over) (runes ''done'') = Some (MetaBool over)"
  "Metadata (example_payload content seq over) (runes ''stream_id'') = None"
  "Metadata (example_payload content seq over) (runes ''phase'') = None"
  "Metadata (example_payload content seq over) (runes ''content_type'') = None"
  by (simp_all add: example_payload_def runes_def)

lemma example_frame:
  "names_device (example_payload content seq over)"
  "seq > 0 \<Longrightarrow> stream_done (runes ''c'') (example_payload content seq over) = over"
  "payload_seq (example_payload content seq over) = seq"
  "TrimSpace (runes ''c'') = runes ''c''" "runes ''c'' \<noteq> []" "TrimSpace (runes ''d'') = runes ''d''" "runes ''d'' \<noteq> []"
proof -
  show c: "TrimSpace (runes ''c'') = runes ''c''" "TrimSpace (runes ''d'') = runes ''d''" by code_simp+
  show ne: "runes ''c'' \<noteq> []" "runes ''d'' \<noteq> []" by (simp_all add: runes_def)
  show "names_device (example_payload content seq over)"
    using c(2) ne(2) by (simp add: names_device_def readMetadataString_def example_keys)
  show "payload_seq (example_payload content seq over) = seq"
    by (simp add: parseMetadataInt64_def example_keys)
  then show "seq > 0 \<Longrightarrow> stream_done (runes ''c'') (example_payload content seq over) = over"
    using ne(1) by (simp add: stream_done_def Let_def parseMetadataBool_def example_keys)
qed

lemma stream_one_start_one_end_witness:
  "\<exists>s' off' evs. run_stream (recorder (\<lambda>e w. w = [])) (runes ''c'')
      [(5, example_payload ''Hello.'' 1 False), (6, example_payload '' world'' 3 False), (7, example_payload '''' 4 True)]
      (Some (newAgentSession (runes ''a'') 0), (\<lambda>_. None), []) = (Some s', off', evs)
    \<and> map rdIsStart evs = True # replicate (length evs - 1) False"
proof -
  let ?frames = "[(5, example_payload ''Hello.'' 1 False), (6, example_payload '' world'' 3 False)]"
  have "list_all (\<lambda>(now, p). names_device p \<and> \<not> stream_done (TrimSpace (runes ''c'')) p) ?frames"
    by (simp add: example_frame)
  moreover have "seqs_grow 0 (map snd ?frames @ [example_payload '''' 4 True])"
    by (simp add: new_seq_def next_seq_def example_frame)
  moreover have "stream_done (TrimSpace (runes ''c'')) (example_payload '''' 4 True)" by (simp add: example_frame)
  moreover have "streams (newAgentSession (runes ''a'') 0) (TrimSpace (runes ''c'')) = None"
    by (simp add: newAgentSession_def)
  moreover have "TrimSpace (runes ''c'') \<noteq> []" by (simp add: example_frame)
  ultimately show ?thesis
    using stream_one_start_one_end [of "runes ''c''" "newAgentSession (runes ''a'') 0" ?frames
        "example_payload '''' 4 True" "\<lambda>e w. w = []" 7 "\<lambda>_. None"] example_frame(1)
    by auto
qed


lemma example_ordinary: "\<not> snapshot_frame (example_payload content seq over)"
  "\<not> isOpenClawTestDevice (route_device (Metadata (example_payload content seq over)) corr session)"
proof -
  have "readMetadataString (Metadata (example_payload content seq over)) (runes ''phase'') = []"
    "readMetadataString (Metadata (example_payload content seq over)) (runes ''content_type'') = []"
    by (simp_all add: readMetadataString_def example_keys)
  moreover have "ToLower [] = []" by (simp add: ToLower_def)
  ultimately show "\<not> snapshot_frame (example_payload content seq over)"
    by (simp add: snapshot_frame_def isOpenClawSnapshotFrame_def runes_def)
  have "route_device (Metadata (example_payload content seq over)) corr session = runes ''d''"
    by (simp add: route_device_def Let_def readMetadataString_def example_keys example_frame)
  then show "\<not> isOpenClawTestDevice (route_device (Metadata (example_payload content seq over)) corr session)"
    by (simp add: isOpenClawTestDevice_def example_frame) (simp add: runes_def)
qed


text \<open>Fact: A response without a session, which has no stream, starts twice: when it holds a sentence, its first event
  carries the start flag and so does its last, although these are two events.\<close>

theorem stateless_response_starts_twice:
  assumes "names_device p" and "\<not> isOpenClawTestDevice (route_device (Metadata p) corr None)"
    and "corr = TrimSpace cid" and "stream_done corr p"
    and "fst (cut (normalizeOpenClawSpeechText (TrimSpace (Content p)))) \<noteq> []"
  shows "\<exists>off' evs. HandleResponse (recorder b) now None cid p (off, []) = (None, off', evs)
    \<and> length evs \<ge> 2 \<and> rdIsStart (hd evs) \<and> rdIsStart (last evs)"
proof -
  let ?d = "route_device (Metadata p) corr None" let ?n = "normalizeOpenClawSpeechText (TrimSpace (Content p))"
  have d: "?d \<noteq> []" using names_device_routed [OF assms(1)] .
  obtain s ss remaining where cut: "cut ?n = (s # ss, remaining)" using assms(5) by (cases "cut ?n"; cases "fst (cut ?n)") auto
  have speak: "speakable (s # ss)" using cut_state [OF cut normal_allowed] by blast
  let ?h = "response_header ?d corr p"
  obtain io' where em: "emit_all (recorder b) now ?h True (s # ss) None (off, []) = (None, io')"
    "snd io' = sentence_events ?h True (s # ss)"
    using emit_all_records [OF speak, of b now ?h True None "(off, [])"]
    by (cases "emit_all (recorder b) now ?h True (s # ss) None (off, [])") simp
  have "respond_sentences (recorder b) now ?h True (s # ss) remaining True None (off, []) =
      (None, emit (recorder b) now ?h remaining True True io')"
    using em(1) by (simp add: respond_sentences_def Let_def)
  moreover have "snd (emit (recorder b) now ?h remaining True True io')
      = sentence_events ?h True (s # ss) @ [event ?h remaining True True]"
    using em(2) by (simp add: emit_records)
  moreover have "HandleResponse (recorder b) now None cid p (off, []) =
      (None, snd (respond_sentences (recorder b) now ?h True (s # ss) remaining True None (off, [])))"
    unfolding HandleResponse_def Let_def assms(3) [symmetric] if_not_P [OF d] open_stream_def option.case prod.case
      cut_def [symmetric] cut if_not_P [OF assms(2)] response_header_def [symmetric]
    using assms(4) calculation(1) by (simp add: store_stream_def close_session_stream_def cut)
  ultimately have "HandleResponse (recorder b) now None cid p (off, []) =
      (None, fst (emit (recorder b) now ?h remaining True True io'), sentence_events ?h True (s # ss) @ [event ?h remaining True True])"
    by (simp add: prod_eq_iff)
  then show ?thesis by simp
qed

lemma stateless_response_starts_twice_witness:
  "\<exists>off' evs. HandleResponse (recorder (\<lambda>e w. True)) 5 None (runes ''c'') (example_payload ''Hi.'' 1 True) (\<lambda>_. None, []) = (None, off', evs)
    \<and> length evs \<ge> 2 \<and> rdIsStart (hd evs) \<and> rdIsStart (last evs)"
proof -
  have "fst (cut (normalizeOpenClawSpeechText (TrimSpace (runes ''Hi.'')))) \<noteq> []" by code_simp
  then show ?thesis
    using stateless_response_starts_twice [of "example_payload ''Hi.'' 1 True" "runes ''c''" "runes ''c''" "\<lambda>e w. True" 5 "\<lambda>_. None"]
    by (simp add: example_frame example_ordinary) (simp add: example_payload_def)
qed

end
