(* ===== verification/Openclaw_Modes.thy ===== *)
theory Openclaw_Modes
  imports Openclaw_Manager
begin

text \<open>
  The sessions of the OpenClaw manager against an abstract specification: which agents are connected and for
  which devices of theirs the OpenClaw mode is on. The manager's own state is the store of sessions with
  their maps; registering, replacing and unregistering connections, entering and leaving the mode, sending
  and answering are each matched by one step of the specification.
\<close>

section \<open>The invariant\<close>

definition sound_manager :: "manager \<Rightarrow> bool" where
  "sound_manager m \<longleftrightarrow>
     (\<forall>a r. sessions m a = Some r \<longrightarrow> a \<noteq> [] \<and> TrimSpace a = a \<and> r < fresh m \<and> (\<exists>s. store m r = Some s \<and> open_conn s))
     \<and> inj_on (sessions m) (dom (sessions m))
     \<and> (\<forall>r s d. store m r = Some s \<longrightarrow> r < fresh m \<and> (modes s d \<noteq> None \<longrightarrow> modes s d = Some True \<and> d \<noteq> [] \<and> TrimSpace d = d))"

lemma sound_managerD:
  assumes "sound_manager m"
  shows "sessions m a = Some r \<Longrightarrow> a \<noteq> [] \<and> TrimSpace a = a \<and> r < fresh m \<and> (\<exists>s. store m r = Some s \<and> open_conn s)"
    and "sessions m a = Some r \<Longrightarrow> sessions m a' = Some r \<Longrightarrow> a' = a"
    and "store m r = Some s \<Longrightarrow> r < fresh m"
    and "store m r = Some s \<Longrightarrow> modes s d \<noteq> None \<Longrightarrow> modes s d = Some True \<and> d \<noteq> [] \<and> TrimSpace d = d"
  using assms unfolding sound_manager_def inj_on_def by (blast, metis domI, blast+)

lemma sound_managerI:
  assumes "\<And>a r. sessions m a = Some r \<Longrightarrow> a \<noteq> [] \<and> TrimSpace a = a \<and> r < fresh m \<and> (\<exists>s. store m r = Some s \<and> open_conn s)"
    and "\<And>a a' r. sessions m a = Some r \<Longrightarrow> sessions m a' = Some r \<Longrightarrow> a' = a"
    and "\<And>r s. store m r = Some s \<Longrightarrow> r < fresh m"
    and "\<And>r s d. store m r = Some s \<Longrightarrow> modes s d \<noteq> None \<Longrightarrow> modes s d = Some True \<and> d \<noteq> [] \<and> TrimSpace d = d"
  shows "sound_manager m"
  unfolding sound_manager_def
proof (intro conjI allI impI inj_onI)
  fix a a' assume "a \<in> dom (sessions m)" "a' \<in> dom (sessions m)" "sessions m a = sessions m a'"
  then show "a = a'" using assms(2) [of a'] by auto
qed (use assms(1,3,4) in \<open>blast+\<close>)

lemma sound_GetManager: "sound_manager GetManager"
  by (rule sound_managerI) (simp_all add: GetManager_def)

section \<open>The specification\<close>

record mode_spec =
  connected :: "gostr set"
  enabled :: "(gostr \<times> gostr) set"

definition mode_abs :: "manager \<Rightarrow> mode_spec" where
  "mode_abs m = \<lparr>connected = dom (sessions m),
     enabled = {(a, d). \<exists>r s. sessions m a = Some r \<and> store m r = Some s \<and> modes s d = Some True}\<rparr>"

datatype mode_op =
    Connect gostr nat
  | Disconnect gostr "nat option"
  | Enter gostr gostr
  | Exit gostr gostr
  | Send gostr gostr gostr gostr gostr
  | Respond "nat option" gostr response_payload

fun mode_step ::
  "(nat \<Rightarrow> outbound \<Rightarrow> bool) \<Rightarrow> 'w deliver \<Rightarrow> int \<Rightarrow> mode_op \<Rightarrow> manager \<times> 'w \<Rightarrow> manager \<times> 'w" where
  "mode_step wr deliver now (Connect agent c) (m, w) = (snd (RegisterAgentConnection agent c m), w)"
| "mode_step wr deliver now (Disconnect agent ref) (m, w) = (UnregisterAgentConnection agent ref m, w)"
| "mode_step wr deliver now (Enter agent device) (m, w) = (snd (EnterMode agent device m), w)"
| "mode_step wr deliver now (Exit agent device) (m, w) = (snd (ExitMode agent device m), w)"
| "mode_step wr deliver now (Send messageID agent device content sessionID) (m, w) =
     (snd (SendMessage wr now messageID agent device content sessionID m), w)"
| "mode_step wr deliver now (Respond ref corr payload) (m, w) = respond_on deliver now ref corr payload (m, w)"

definition spec_connect :: "gostr \<Rightarrow> mode_spec \<Rightarrow> mode_spec" where
  \<comment> \<open>a connection that is replaced hands its modes on\<close>
  "spec_connect a s = (if a = [] then s else s\<lparr>connected := insert a (connected s)\<rparr>)"

definition spec_disconnect :: "gostr \<Rightarrow> mode_spec \<Rightarrow> mode_spec" where
  "spec_disconnect a s = s\<lparr>connected := connected s - {a}, enabled := {p \<in> enabled s. fst p \<noteq> a}\<rparr>"

definition spec_enter :: "gostr \<Rightarrow> gostr \<Rightarrow> mode_spec \<Rightarrow> mode_spec" where
  "spec_enter a d s = (if a \<in> connected s \<and> d \<noteq> [] then s\<lparr>enabled := insert (a, d) (enabled s)\<rparr> else s)"

definition spec_exit :: "gostr \<Rightarrow> gostr \<Rightarrow> mode_spec \<Rightarrow> mode_spec" where
  "spec_exit a d s = s\<lparr>enabled := enabled s - {(a, d)}\<rparr>"

fun spec_step :: "manager \<Rightarrow> mode_op \<Rightarrow> mode_spec \<Rightarrow> mode_spec" where
  \<comment> \<open>the manager is asked only whether the connection that ends is the current one\<close>
  "spec_step m (Connect agent c) s = spec_connect (TrimSpace agent) s"
| "spec_step m (Disconnect agent ref) s =
     (if ref = None \<or> ref = sessions m (TrimSpace agent) then spec_disconnect (TrimSpace agent) s else s)"
| "spec_step m (Enter agent device) s = spec_enter (TrimSpace agent) (TrimSpace device) s"
| "spec_step m (Exit agent device) s = spec_exit (TrimSpace agent) (TrimSpace device) s"
| "spec_step m (Send messageID agent device content sessionID) s = s"
| "spec_step m (Respond ref corr payload) s = s"

section \<open>Sessions keep their modes\<close>

lemma handled_modes:
  assumes "HandleResponse deliver now session cid p io = (session', io')"
  shows "map_option modes session' = map_option modes session \<and> map_option open_conn session' = map_option open_conn session"
proof -
  have store: "map_option modes (store_stream corr st ss) = map_option modes ss
      \<and> map_option open_conn (store_stream corr st ss) = map_option open_conn ss" for corr st ss
    by (cases st; cases ss) (simp_all add: store_stream_def)
  have close: "map_option modes (close_session_stream corr ss) = map_option modes ss
      \<and> map_option open_conn (close_session_stream corr ss) = map_option open_conn ss" for corr ss
    by (cases ss) (simp_all add: close_session_stream_def close_stream_def RemoveStream_def RemovePending_def Let_def)
  have opened: "map_option modes (snd (open_stream now corr d ss)) = map_option modes ss
      \<and> map_option open_conn (snd (open_stream now corr d ss)) = map_option open_conn ss" for corr d ss
    by (cases ss) (auto simp: open_stream_def LoadOrCreateStream_def Let_def split: option.splits)
  show ?thesis
    using assms opened [of "TrimSpace cid" "route_device (Metadata p) (TrimSpace cid) session" session]
    by (auto simp: HandleResponse_def Let_def store close split: if_splits prod.splits option.splits)
qed

definition same_modes :: "manager \<Rightarrow> manager \<Rightarrow> bool" where
  \<comment> \<open>the same connections, and sessions that differ at most in pending routes and streams\<close>
  "same_modes m m' \<longleftrightarrow> sessions m' = sessions m \<and> fresh m' = fresh m
     \<and> (\<forall>r. map_option modes (store m' r) = map_option modes (store m r)
          \<and> map_option open_conn (store m' r) = map_option open_conn (store m r))"

lemma same_modesD:
  assumes "same_modes m m'" and "store m' r = Some s'"
  shows "\<exists>s. store m r = Some s \<and> modes s' = modes s \<and> open_conn s' = open_conn s"
proof -
  have "map_option modes (store m r) = Some (modes s')" "map_option open_conn (store m r) = Some (open_conn s')"
    using assms unfolding same_modes_def by (metis option.simps(9))+
  then show ?thesis by auto
qed

lemma same_modes_sym: "same_modes m m' \<Longrightarrow> same_modes m' m"
  by (simp add: same_modes_def)

lemma same_modes_abs: "same_modes m m' \<Longrightarrow> mode_abs m' = mode_abs m"
proof -
  assume s: "same_modes m m'"
  have "(\<exists>st. store m' r = Some st \<and> modes st d = Some True) \<longleftrightarrow> (\<exists>st. store m r = Some st \<and> modes st d = Some True)" for r d
    using same_modesD [OF s, of r] same_modesD [OF same_modes_sym [OF s], of r] by metis
  then show ?thesis using s by (auto simp: mode_abs_def same_modes_def)
qed

lemma same_modes_sound:
  assumes s: "same_modes m m'" and m: "sound_manager m"
  shows "sound_manager m'"
proof -
  have eq: "sessions m' = sessions m" "fresh m' = fresh m" using s by (simp_all add: same_modes_def)
  show ?thesis
  proof (rule sound_managerI, goal_cases)
    case (1 a r)
    then have a: "a \<noteq> [] \<and> TrimSpace a = a \<and> r < fresh m" and "\<exists>t. store m r = Some t \<and> open_conn t"
      using sound_managerD(1) [OF m] eq by auto
    then obtain t where "store m r = Some t" "open_conn t" by blast
    then show ?case using a eq same_modesD [OF same_modes_sym [OF s]] by metis
  next
    case (2 a a' r)
    then show ?case using sound_managerD(2) [OF m] eq by metis
  next
    case (3 r t)
    then show ?case using sound_managerD(3) [OF m] eq same_modesD [OF s] by metis
  next
    case (4 r t d)
    then show ?case using sound_managerD(4) [OF m] same_modesD [OF s] by metis
  qed
qed

lemma same_modes_refl [simp]: "same_modes m m"
  by (simp add: same_modes_def)

lemma same_modes_trans: "same_modes m m' \<Longrightarrow> same_modes m' m'' \<Longrightarrow> same_modes m m''"
  by (simp add: same_modes_def)

lemma same_modes_on_session:
  "(\<And>s. modes (f s) = modes s \<and> open_conn (f s) = open_conn s) \<Longrightarrow> same_modes m (on_session r f m)"
  by (simp add: same_modes_def on_session_def option.map_comp comp_def)

lemma TrackPending_modes [simp]:
  "modes (TrackPending now corr d s) = modes s" "open_conn (TrackPending now corr d s) = open_conn s"
  by (simp_all add: TrackPending_def Let_def)

lemma RemovePending_modes [simp]:
  "modes (RemovePending corr s) = modes s" "open_conn (RemovePending corr s) = open_conn s"
  by (simp_all add: RemovePending_def Let_def)

lemma SendMessage_same: "same_modes m (snd (SendMessage wr now messageID agent device content sessionID m))"
proof -
  have track: "same_modes m (on_session r (TrackPending now messageID d) m)" for r d
    by (rule same_modes_on_session) simp
  have untrack: "same_modes m' (on_session r (RemovePending messageID) m')" for r m'
    by (rule same_modes_on_session) simp
  have "same_modes m (on_session r (RemovePending messageID) (on_session r (TrackPending now messageID d) m))" for r d
    by (rule same_modes_trans [OF track untrack])
  with track show ?thesis by (simp add: SendMessage_def Let_def split: option.split)
qed

lemma respond_same: "same_modes m (fst (respond_on deliver now ref corr payload (m, w)))"
proof -
  obtain session' io' where h:
    "HandleResponse deliver now (Option.bind ref (store m)) corr payload (moffline m, w) = (session', io')"
    by (cases "HandleResponse deliver now (Option.bind ref (store m)) corr payload (moffline m, w)") simp
  note k = handled_modes [OF h]
  show ?thesis using h k by (cases ref; cases io') (auto simp: respond_on_def Let_def same_modes_def)
qed

section \<open>The operations that change modes\<close>

lemma abs_enabled: "(a, d) \<in> enabled (mode_abs m) \<longleftrightarrow> (\<exists>r s. sessions m a = Some r \<and> store m r = Some s \<and> modes s d = Some True)"
  by (simp add: mode_abs_def)

lemma abs_connected: "connected (mode_abs m) = dom (sessions m)"
  by (simp add: mode_abs_def)

lemma mode_spec_eqI: "connected s = connected t \<Longrightarrow> (\<And>a d. (a, d) \<in> enabled s \<longleftrightarrow> (a, d) \<in> enabled t) \<Longrightarrow> s = t"
  for s t :: mode_spec
  by (cases s; cases t) auto

lemma set_mode:
  assumes m: "sound_manager m" and r: "sessions m a = Some r" and s: "store m r = Some s"
    and s': "modes s' = (modes s)(d := v)" "open_conn s' = open_conn s"
    and d: "v = None \<or> v = Some True" "d \<noteq> []" "TrimSpace d = d"
  shows "sound_manager (m\<lparr>store := (store m)(r \<mapsto> s')\<rparr>)"
    and "mode_abs (m\<lparr>store := (store m)(r \<mapsto> s')\<rparr>) =
      (mode_abs m)\<lparr>enabled := (if v = None then enabled (mode_abs m) - {(a, d)} else insert (a, d) (enabled (mode_abs m)))\<rparr>"
proof -
  let ?m = "m\<lparr>store := (store m)(r \<mapsto> s')\<rparr>"
  show "sound_manager ?m"
  proof (rule sound_managerI, goal_cases)
    case (1 b q)
    then show ?case using sound_managerD(1) [OF m, of b q] s s'(2) by (cases "q = r") auto
  next
    case (2 b b' q)
    then show ?case using sound_managerD(2) [OF m] by (metis manager.select_convs(3) manager.surjective manager.update_convs(1))
  next
    case (3 q t)
    then show ?case using sound_managerD(3) [OF m] s by (auto split: if_splits)
  next
    case (4 q t e)
    then show ?case
      using sound_managerD(4) [OF m, of q t e] sound_managerD(4) [OF m s, of e] s' d by (auto split: if_splits)
  qed
  have "(b, e) \<in> enabled (mode_abs ?m) \<longleftrightarrow>
      (if (b, e) = (a, d) then v = Some True else (b, e) \<in> enabled (mode_abs m))" for b e
  proof (cases "sessions m b = Some r")
    case True
    then have "b = a" using sound_managerD(2) [OF m r] by blast
    then show ?thesis using r s s'(1) by (auto simp: abs_enabled)
  next
    case False
    then show ?thesis using r by (auto simp: abs_enabled)
  qed
  then show "mode_abs ?m =
      (mode_abs m)\<lparr>enabled := (if v = None then enabled (mode_abs m) - {(a, d)} else insert (a, d) (enabled (mode_abs m)))\<rparr>"
    using d(1) by (intro mode_spec_eqI) (auto simp: abs_connected)
qed

lemma the_session:
  assumes "sound_manager m"
  shows "GetAgentSession (TrimSpace agent) m = sessions m (TrimSpace agent)"
proof (cases "TrimSpace agent = []")
  case True
  then show ?thesis using sound_managerD(1) [OF assms, of "[]"] by (cases "sessions m []") (auto simp: GetAgentSession_def)
qed (simp add: GetAgentSession_def)

lemma Enter_refines:
  assumes m: "sound_manager m"
  shows "sound_manager (snd (EnterMode agent device m))
    \<and> mode_abs (snd (EnterMode agent device m)) = spec_enter (TrimSpace agent) (TrimSpace device) (mode_abs m)"
proof (cases "sessions m (TrimSpace agent)")
  case None
  then show ?thesis using m the_session [OF m, of agent]
    by (simp add: EnterMode_def spec_enter_def abs_connected domIff)
next
  case (Some r)
  then obtain s where s: "store m r = Some s" using sound_managerD(1) [OF m] by blast
  show ?thesis
  proof (cases "TrimSpace device = []")
    case True
    have "m\<lparr>store := (store m)(r \<mapsto> s)\<rparr> = m" using s by (simp add: fun_upd_idem)
    with True show ?thesis using m Some s the_session [OF m, of agent]
      by (simp add: EnterMode_def session_EnterMode_def spec_enter_def)
  next
    case False
    let ?s = "s\<lparr>modes := (modes s)(TrimSpace device \<mapsto> True)\<rparr>"
    have "EnterMode agent device m = (True, m\<lparr>store := (store m)(r \<mapsto> ?s)\<rparr>)"
      using False Some s the_session [OF m, of agent] by (simp add: EnterMode_def session_EnterMode_def)
    then show ?thesis
      using set_mode [OF m Some s, of ?s "TrimSpace device" "Some True"] False Some
      by (simp add: spec_enter_def abs_connected domIff)
  qed
qed

lemma Exit_refines:
  assumes m: "sound_manager m"
  shows "sound_manager (snd (ExitMode agent device m))
    \<and> mode_abs (snd (ExitMode agent device m)) = spec_exit (TrimSpace agent) (TrimSpace device) (mode_abs m)"
proof (cases "sessions m (TrimSpace agent)")
  case None
  then have "spec_exit (TrimSpace agent) (TrimSpace device) (mode_abs m) = mode_abs m"
    by (intro mode_spec_eqI) (auto simp: spec_exit_def abs_enabled)
  then show ?thesis using m None the_session [OF m, of agent] by (simp add: ExitMode_def)
next
  case (Some r)
  then obtain s where s: "store m r = Some s" using sound_managerD(1) [OF m] by blast
  show ?thesis
  proof (cases "TrimSpace device = []")
    case True
    have "spec_exit (TrimSpace agent) [] (mode_abs m) = mode_abs m"
      using sound_managerD(4) [OF m, of _ _ "[]"]
      by (intro mode_spec_eqI) (auto simp: spec_exit_def abs_enabled)
    moreover have "m\<lparr>store := (store m)(r \<mapsto> s)\<rparr> = m" using s by (simp add: fun_upd_idem)
    ultimately show ?thesis using m True Some s the_session [OF m, of agent]
      by (simp add: ExitMode_def session_ExitMode_def)
  next
    case False
    let ?s = "s\<lparr>modes := (modes s)(TrimSpace device := None)\<rparr>"
    have "ExitMode agent device m = (True, m\<lparr>store := (store m)(r \<mapsto> ?s)\<rparr>)"
      using False Some s the_session [OF m, of agent] by (simp add: ExitMode_def session_ExitMode_def)
    then show ?thesis
      using set_mode [OF m Some s, of ?s "TrimSpace device" None] False by (simp add: spec_exit_def)
  qed
qed

lemma Disconnect_refines:
  assumes m: "sound_manager m"
  shows "sound_manager (UnregisterAgentConnection agent ref m)
    \<and> mode_abs (UnregisterAgentConnection agent ref m) = spec_step m (Disconnect agent ref) (mode_abs m)"
proof (cases "sessions m (TrimSpace agent)")
  case None
  then have "spec_disconnect (TrimSpace agent) (mode_abs m) = mode_abs m"
    by (intro mode_spec_eqI) (auto simp: spec_disconnect_def abs_enabled abs_connected)
  then show ?thesis using m None by (simp add: UnregisterAgentConnection_def Let_def)
next
  case (Some r)
  then have ne: "TrimSpace agent \<noteq> []" using sound_managerD(1) [OF m] by blast
  let ?m = "m\<lparr>sessions := (sessions m)(TrimSpace agent := None)\<rparr>"
  have "sound_manager ?m"
  proof (rule sound_managerI, goal_cases)
    case (1 a q)
    then show ?case using sound_managerD(1) [OF m, of a q] by (auto split: if_splits)
  next
    case (2 a a' q)
    then show ?case using sound_managerD(2) [OF m, of a q a'] by (auto split: if_splits)
  next
    case (3 q t)
    then show ?case using sound_managerD(3) [OF m, of q t] by simp
  next
    case (4 q t d)
    then show ?case using sound_managerD(4) [OF m, of q t d] by simp
  qed
  moreover have "mode_abs ?m = spec_disconnect (TrimSpace agent) (mode_abs m)"
    by (rule mode_spec_eqI) (auto simp: spec_disconnect_def abs_enabled abs_connected split: if_splits)
  ultimately show ?thesis using m Some ne by (auto simp: UnregisterAgentConnection_def Let_def)
qed

lemma Connect_refines:
  assumes m: "sound_manager m"
  shows "sound_manager (snd (RegisterAgentConnection agent c m))
    \<and> mode_abs (snd (RegisterAgentConnection agent c m)) = spec_connect (TrimSpace agent) (mode_abs m)"
proof (cases "TrimSpace agent = []")
  case True
  then show ?thesis using m by (simp add: RegisterAgentConnection_def Let_def spec_connect_def)
next
  case ne: False
  let ?a = "TrimSpace agent" let ?new = "newAgentSession ?a c"
  obtain st' new where reg: "snd (RegisterAgentConnection agent c m) =
      m\<lparr>store := st'(fresh m \<mapsto> new), fresh := Suc (fresh m), sessions := (sessions m)(?a \<mapsto> fresh m)\<rparr>"
    and new: "open_conn new" "\<And>d. modes new d = (if (?a, d) \<in> enabled (mode_abs m) then Some True else None)"
    and st': "\<And>r. r \<noteq> fresh m \<Longrightarrow> map_option modes (st' r) = map_option modes (store m r)"
      "\<And>r. Some r \<noteq> sessions m ?a \<Longrightarrow> st' r = store m r"
  proof (cases "sessions m ?a")
    case None
    show ?thesis
      by (rule that [of "store m" ?new])
        (use ne None in \<open>simp_all add: RegisterAgentConnection_def Let_def newAgentSession_def abs_enabled\<close>)
  next
    case (Some old)
    then obtain s where s: "store m old = Some s" using sound_managerD(1) [OF m] by blast
    show ?thesis
      by (rule that [of "(store m)(old := Some (session_Close s))" "copyModesFrom s ?new"])
        (use ne Some s in \<open>auto simp: RegisterAgentConnection_def Let_def newAgentSession_def abs_enabled copyModesFrom_def
          session_Close_def on_session_def\<close>)
  qed
  let ?m = "m\<lparr>store := st'(fresh m \<mapsto> new), fresh := Suc (fresh m), sessions := (sessions m)(?a \<mapsto> fresh m)\<rparr>"
  have stored: "\<exists>t. store m r = Some t \<and> modes t = modes t'" if "st' r = Some t'" "r \<noteq> fresh m" for r t'
    using st'(1) [OF that(2)] that(1) by (cases "store m r") auto
  have other: "sessions m b \<noteq> Some (fresh m)" for b using sound_managerD(1) [OF m] by blast
  have apart: "st' r = store m r" if "b \<noteq> ?a" "sessions m b = Some r" for b r
    using st'(2) [of r] sound_managerD(2) [OF m that(2)] that(1) by metis
  have "sound_manager ?m"
  proof (rule sound_managerI, goal_cases)
    case (1 b r)
    show ?case
    proof (cases "b = ?a")
      case True
      with 1 ne new(1) show ?thesis by simp
    next
      case False
      with 1 have b: "sessions m b = Some r" by simp
      then have "r < fresh m" using sound_managerD(1) [OF m] by blast
      with apart [OF False b] sound_managerD(1) [OF m b] show ?thesis by auto
    qed
  next
    case (2 b b' r)
    then show ?case using sound_managerD(2) [OF m] other by (auto split: if_splits)
  next
    case (3 r t)
    then show ?case using sound_managerD(3) [OF m] stored by (fastforce split: if_splits)
  next
    case (4 r t d)
    show ?case
    proof (cases "r = fresh m")
      case True
      with 4 new(2) [of d] have "(?a, d) \<in> enabled (mode_abs m)" "modes t d = Some True" by (auto split: if_splits)
      then show ?thesis using sound_managerD(4) [OF m] by (fastforce simp: abs_enabled)
    next
      case False
      with 4 stored [of r t] sound_managerD(4) [OF m] show ?thesis by fastforce
    qed
  qed
  moreover have "mode_abs ?m = spec_connect ?a (mode_abs m)"
  proof (rule mode_spec_eqI)
    show "connected (mode_abs ?m) = connected (spec_connect ?a (mode_abs m))"
      using ne by (auto simp: abs_connected spec_connect_def split: if_splits)
    fix b d
    show "(b, d) \<in> enabled (mode_abs ?m) \<longleftrightarrow> (b, d) \<in> enabled (spec_connect ?a (mode_abs m))"
    proof (cases "b = ?a")
      case True
      then show ?thesis using ne new(2) [of d] by (simp add: abs_enabled [of _ _ ?m] spec_connect_def)
    next
      case False
      have "st' r = store m r \<and> r \<noteq> fresh m" if "sessions m b = Some r" for r
        using apart [OF False that] other [of b] that by auto
      then have "(\<exists>r t. sessions m b = Some r \<and> (st'(fresh m \<mapsto> new)) r = Some t \<and> modes t d = Some True) \<longleftrightarrow>
          (\<exists>r t. sessions m b = Some r \<and> store m r = Some t \<and> modes t d = Some True)" by fastforce
      then show ?thesis using ne False by (simp add: abs_enabled spec_connect_def)
    qed
  qed
  ultimately show ?thesis using reg by simp
qed

section \<open>Properties\<close>


text \<open>What the mode means to a caller.\<close>

lemma IsModeEnabled_abs:
  assumes m: "sound_manager m"
  shows "IsModeEnabled agent device m \<longleftrightarrow> (TrimSpace agent, TrimSpace device) \<in> enabled (mode_abs m)"
proof (cases "sessions m (TrimSpace agent)")
  case None
  then show ?thesis using the_session [OF m, of agent] by (simp add: IsModeEnabled_def session_of_def abs_enabled)
next
  case (Some r)
  then obtain s where s: "store m r = Some s" using sound_managerD(1) [OF m] by blast
  have "modes s [] = None" using sound_managerD(4) [OF m s, of "[]"] by blast
  then show ?thesis using Some s the_session [OF m, of agent]
    by (auto simp: IsModeEnabled_def session_of_def abs_enabled session_IsModeEnabled_def Let_def split: option.splits)
qed

section \<open>Sending and the way back\<close>

lemma pending_sent:
  assumes "messageID \<noteq> []" and "TrimSpace messageID = messageID" and "TrimSpace device \<noteq> []"
  shows "PeekPending messageID (TrackPending now messageID device s) = Some (TrimSpace device)"
  using assms by (simp add: PeekPending_def TrackPending_def Let_def)

lemma SendMessage_cases:
  assumes "SendMessage wr now messageID agent device content sessionID m = (result, m')"
  obtains (refused) e where "result = Inl e" "e \<noteq> WriteFailed" "m' = m"
    | (failed) q where "result = Inl WriteFailed" "TrimSpace device \<noteq> []" "GetAgentSession (TrimSpace agent) m = Some q"
        "m' = on_session q (RemovePending messageID) (on_session q (TrackPending now messageID (TrimSpace device)) m)"
    | (sent) q where "result = Inr messageID" "TrimSpace device \<noteq> []" "GetAgentSession (TrimSpace agent) m = Some q"
        "m' = on_session q (TrackPending now messageID (TrimSpace device)) m"
proof -
  note d = assms [unfolded SendMessage_def Let_def]
  show thesis
  proof (cases "TrimSpace agent = [] \<or> TrimSpace device = [] \<or> TrimSpace content = []
      \<or> buildOpenClawPromptedContent (TrimSpace content) = []")
    case True
    then show ?thesis using d refused by (fastforce split: if_splits)
  next
    case False
    then have ne: "TrimSpace agent \<noteq> []" "TrimSpace device \<noteq> []" "TrimSpace content \<noteq> []"
      "buildOpenClawPromptedContent (TrimSpace content) \<noteq> []" by simp_all
    note d' = d [unfolded if_not_P [OF ne(1)] if_not_P [OF ne(2)] if_not_P [OF ne(3)] if_not_P [OF ne(4)]]
    show ?thesis
    proof (cases "Option.bind (GetAgentSession (TrimSpace agent) m) (store m)")
      case None
      then have "(Inl (SessionNotFound (TrimSpace agent)), m) = (result, m')"
        using d' by (cases "GetAgentSession (TrimSpace agent) m") simp_all
      then show ?thesis using refused [of "SessionNotFound (TrimSpace agent)"] by simp
    next
      case (Some t)
      then obtain q where q: "GetAgentSession (TrimSpace agent) m = Some q" "store m q = Some t"
        by (auto simp: bind_eq_Some_conv)
      let ?ok = "session_Send wr \<lparr>obID = messageID, obContent = buildOpenClawPromptedContent (TrimSpace content),
          obSessionID = TrimSpace sessionID, obDeviceID = TrimSpace device, obAgentID = TrimSpace agent\<rparr> t"
      show ?thesis
      proof (cases ?ok)
        case True
        with d' q show ?thesis using sent [OF _ ne(2) q(1)] by simp
      next
        case False
        with d' q show ?thesis using failed [OF _ ne(2) q(1)] by simp
      qed
    qed
  qed
qed

lemma failed_send_leaves_no_route:
  assumes "SendMessage wr now messageID agent device content sessionID m = (Inl e, m')"
    and "store m r = Some s" and "pending s (TrimSpace messageID) = None"
  shows "map_option pending (store m' r) = Some (pending s)"
  using assms(1)
proof (cases rule: SendMessage_cases)
  case (failed q)
  have "(pending s)(TrimSpace messageID := None) = pending s" using assms(3) by (simp add: fun_upd_idem)
  then show ?thesis using failed(4) assms(2)
    by (cases "r = q"; cases "TrimSpace messageID = []") (simp_all add: on_session_def RemovePending_def TrackPending_def Let_def)
qed (use assms(2) in simp_all)

text \<open>Fact: A message that was sent leaves a way back: a response with its id that names no device itself is routed to the
  device that sent the message, as long as no stream of that id exists.\<close>

theorem sent_message_routes_back:
  assumes "messageID \<noteq> []" and "TrimSpace messageID = messageID"
    and "SendMessage wr now messageID agent device content sessionID m = (Inr sent, m')"
    and "GetAgentSession agent m = Some r" and "store m r = Some s" and "streams s messageID = None"
    and "readMetadataString md (runes ''device_id'') = []"
  shows "sent = messageID \<and> route_device md sent (store m' r) = TrimSpace device"
  using assms(3)
proof (cases rule: SendMessage_cases)
  case (sent q)
  have "q = r" using sent(3) assms(4) by (simp add: GetAgentSession_def)
  then have "store m' r = Some (TrackPending now messageID (TrimSpace device) s)"
    using sent(4) assms(5) by (simp add: on_session_def)
  moreover have "streams (TrackPending now messageID (TrimSpace device) s) messageID = None"
    using assms(6) by (simp add: TrackPending_def Let_def)
  ultimately show ?thesis
    using sent(1,2) assms(1,2,7) pending_sent [OF assms(1,2), of "TrimSpace device" now s]
    by (simp add: route_device_def Let_def GetStream_def)
qed simp_all

definition example_manager :: manager where
  "example_manager = snd (RegisterAgentConnection (runes ''a'') 7 GetManager)"

lemma sent_message_routes_back_witness:
  "\<exists>sent m'. SendMessage (\<lambda>_ _. True) 5 (runes ''m'') (runes ''a'') (runes ''d'') (runes ''hi'') [] example_manager = (Inr sent, m')
    \<and> route_device (\<lambda>_. None) sent (store m' 0) = TrimSpace (runes ''d'')"
proof -
  have t: "TrimSpace (runes ''m'') = runes ''m''" "TrimSpace (runes ''a'') = runes ''a''" "TrimSpace (runes ''hi'') = runes ''hi''"
    "TrimSpace (runes ''d'') = runes ''d''" by code_simp+
  have ne: "runes ''m'' \<noteq> []" "runes ''a'' \<noteq> []" "runes ''d'' \<noteq> []" "runes ''hi'' \<noteq> []" by (simp_all add: runes_def)
  let ?s = "newAgentSession (runes ''a'') 7"
  have m: "GetAgentSession (runes ''a'') example_manager = Some 0" "store example_manager 0 = Some ?s"
    using t ne by (simp_all add: example_manager_def RegisterAgentConnection_def GetManager_def GetAgentSession_def Let_def)
  have "buildOpenClawPromptedContent (runes ''hi'') \<noteq> []"
    using t ne by (simp add: buildOpenClawPromptedContent_def Let_def)
  then obtain m' where sent: "SendMessage (\<lambda>_ _. True) 5 (runes ''m'') (runes ''a'') (runes ''d'') (runes ''hi'') [] example_manager
      = (Inr (runes ''m''), m')"
    using t ne m by (simp add: SendMessage_def session_Send_def Let_def)
  have "streams ?s (runes ''m'') = None" by (simp add: newAgentSession_def)
  with sent_message_routes_back [OF ne(1) t(1) sent m, of "\<lambda>_. None"] sent show ?thesis
    by (simp add: readMetadataString_def)
qed

end
