(* ===== verification/Media_Player.thy ===== *)
theory Media_Player
  imports Prelude
begin

text \<open>
  The media player of a device (\<^verbatim>\<open>internal/app/server/chat/media_player.go\<close>): a runtime that outlives the
  sessions of its device, the playlists of the agents, and the goroutine that plays. A control operation of
  the runtime is one step, with the releases that it makes after its lock; the goroutine of a playback is a
  program counter whose steps are its sections between locks and blocking calls. Playbacks are numbered, as
  the code compares their pointers; an attachment is its number and its session, and the exclusive state of
  a session's output is a flag, as \<^verbatim>\<open>BeginExclusiveMediaPlayback\<close> and \<^verbatim>\<open>EndExclusiveMediaPlayback\<close> of
  \<^verbatim>\<open>tts.go\<close> keep it.
\<close>

section \<open>Sources\<close>

datatype any_value = AnyInt int | AnyString gostr | AnyOther nat

type_synonym 'v go_map = "(gostr \<times> 'v) list option"  \<comment> \<open>\<open>None\<close> is the nil map; the keys are distinct\<close>

datatype source_type = NoSourceType | MCPResource | HTTPURL | LocalFile | InlineAudio | OtherSourceType gostr

record mcp_source =
  ServerName :: gostr
  EndpointSnapshot :: gostr
  ToolName :: gostr
  ResourceURI :: gostr
  DirectAudioURL :: gostr
  Description :: gostr
  ReadArgs :: "any_value go_map"
  PageSize :: int
  Client :: "nat option"

record media_source =
  SourceID :: gostr
  Title :: gostr
  MIMEType :: gostr
  SourceType :: source_type
  Meta :: "gostr go_map"
  MCP :: "mcp_source option"
  HTTP :: "gostr option"
  Local :: "gostr option"
  Inline :: "bytes option"

record playlist_item =
  ItemID :: gostr
  ItemSource :: media_source
  AddedAt :: int

definition cloneMediaSourceMap :: "'v go_map \<Rightarrow> 'v go_map" where
  \<comment> \<open>both \<^verbatim>\<open>cloneMediaSourceStringMap\<close> and \<^verbatim>\<open>cloneMediaSourceAnyMap\<close>: an empty map becomes nil\<close>
  "cloneMediaSourceMap m = (case m of None \<Rightarrow> None | Some [] \<Rightarrow> None | Some kvs \<Rightarrow> Some kvs)"

definition cloneMediaSourceDescriptor :: "media_source \<Rightarrow> media_source" where
  "cloneMediaSourceDescriptor s =
     s\<lparr>Meta := cloneMediaSourceMap (Meta s),
       MCP := map_option (\<lambda>m. m\<lparr>ReadArgs := cloneMediaSourceMap (ReadArgs m)\<rparr>) (MCP s)\<rparr>"

definition cloneMediaPlaylistItem :: "playlist_item \<Rightarrow> playlist_item" where
  "cloneMediaPlaylistItem i = i\<lparr>ItemSource := cloneMediaSourceDescriptor (ItemSource i)\<rparr>"

definition cloneMediaPlaylistItems :: "playlist_item list \<Rightarrow> playlist_item list" where
  "cloneMediaPlaylistItems items = map cloneMediaPlaylistItem items"

definition last_part :: "gostr \<Rightarrow> gostr" where
  \<comment> \<open>the last element of \<^verbatim>\<open>strings.Split(base, "/")\<close>\<close>
  "last_part s = rev (takeWhile (\<lambda>r. r \<noteq> 0x2f) (rev s))"

definition deriveMediaTitle :: "(gostr \<Rightarrow> gostr option) \<Rightarrow> media_source \<Rightarrow> gostr" where
  \<comment> \<open>\<open>url_path\<close> is the path of \<^verbatim>\<open>url.Parse\<close>, or \<open>None\<close> when it fails\<close>
  "deriveMediaTitle url_path s =
     (if TrimSpace (Title s) \<noteq> [] then TrimSpace (Title s)
      else (case (SourceType s, HTTP s, Local s, MCP s) of
              (HTTPURL, Some url, _) \<Rightarrow>
                (case url_path url of
                   None \<Rightarrow> TrimSpace url
                 | Some path \<Rightarrow> if TrimSpace path \<noteq> [] then TrimSpace (last_part (TrimSpace path)) else TrimSpace url)
            | (LocalFile, _, Some path, _) \<Rightarrow> TrimSpace path
            | (MCPResource, _, _, Some m) \<Rightarrow>
                if TrimSpace (Description m) \<noteq> [] then TrimSpace (Description m)
                else if TrimSpace (DirectAudioURL m) \<noteq> [] then TrimSpace (DirectAudioURL m)
                else TrimSpace (ResourceURI m)
            | _ \<Rightarrow> runes ''unknown audio''))"

definition media_item :: "(gostr \<Rightarrow> gostr option) \<Rightarrow> int \<Rightarrow> gostr \<Rightarrow> media_source \<Rightarrow> playlist_item" where
  \<comment> \<open>\<open>new_id\<close> is the identifier made from the clock\<close>
  "media_item url_path now new_id source =
     (let cloned = cloneMediaSourceDescriptor source;
          cloned = (if SourceID cloned = [] then cloned\<lparr>SourceID := new_id\<rparr> else cloned);
          cloned = (if Title cloned = [] then cloned\<lparr>Title := deriveMediaTitle url_path cloned\<rparr> else cloned)
      in \<lparr>ItemID = SourceID cloned, ItemSource = cloned, AddedAt = now\<rparr>)"

definition buildMediaPlaylistItems ::
  "(gostr \<Rightarrow> gostr option) \<Rightarrow> int \<Rightarrow> (nat \<Rightarrow> gostr) \<Rightarrow> media_source list \<Rightarrow> playlist_item list" where
  "buildMediaPlaylistItems url_path now new_id sources =
     map (\<lambda>(i, s). media_item url_path now (new_id i) s) (enumerate 0 sources)"

record audio_config =
  SampleRate :: int
  FrameDuration :: int

definition normalizeMediaPlaybackAudioConfig :: "audio_config \<Rightarrow> audio_config \<Rightarrow> audio_config" where
  "normalizeMediaPlaybackAudioConfig primary fallback =
     (let cfg = fallback;
          cfg = (if SampleRate primary > 0 then cfg\<lparr>SampleRate := SampleRate primary\<rparr> else cfg);
          cfg = (if FrameDuration primary > 0 then cfg\<lparr>FrameDuration := FrameDuration primary\<rparr> else cfg);
          cfg = (if SampleRate cfg \<le> 0 then cfg\<lparr>SampleRate := 16000\<rparr> else cfg);
          cfg = (if FrameDuration cfg \<le> 0 then cfg\<lparr>FrameDuration := 60\<rparr> else cfg)
      in cfg)"

section \<open>The runtime\<close>

datatype playback_status = StatusIdle | StatusPlaying | StatusPaused | StatusStopped | StatusError
datatype playback_mode = NoMode | Standalone | AgentPlaylist
datatype pause_reason = ReasonNone | ReasonUser | ReasonInterrupt
datatype recovery_trigger = TriggerUser | TriggerAttach

type_synonym attachment = "nat \<times> nat"  \<comment> \<open>its number, its session\<close>

record playback =
  paused :: bool
  exclusiveHeld :: bool
  cancelled :: bool
  finished :: bool  \<comment> \<open>\<^verbatim>\<open>done\<close> is closed\<close>

record player =
  playlists :: "gostr \<Rightarrow> playlist_item list option"
  Status :: playback_status
  Playlist :: "playlist_item list"
  CurrentIndex :: int
  CurrentTitle :: gostr
  CurrentSourceType :: source_type
  PositionMs :: int
  UpdatedAt :: int
  ErrMsg :: gostr
  mode :: playback_mode
  playlistAgentID :: gostr
  standaloneItems :: "playlist_item list"
  playbackIndex :: int
  audioConfig :: audio_config
  currentSource :: "media_source option"
  active :: "nat option"
  pauseReason :: pause_reason
  attachment :: "attachment option"
  attachmentGen :: nat  \<comment> \<open>how often \<^verbatim>\<open>attachmentWaitCh\<close> was closed and made anew\<close>
  resumeOnAttach :: bool
  exclusiveAttachment :: "attachment option"
  playbacks :: "nat \<Rightarrow> playback"
  nextPlayback :: nat
  nextAttachment :: nat
  exclusive :: "nat \<Rightarrow> bool"  \<comment> \<open>\<^verbatim>\<open>mediaPlaybackActive\<close> of a session's output\<close>

definition fresh_playback :: playback where
  "fresh_playback = \<lparr>paused = False, exclusiveHeld = False, cancelled = False, finished = False\<rparr>"

definition newDeviceMediaRuntime :: "int \<Rightarrow> player" where
  "newDeviceMediaRuntime now =
     \<lparr>playlists = (\<lambda>_. None), Status = StatusIdle, Playlist = [], CurrentIndex = -1, CurrentTitle = [],
      CurrentSourceType = NoSourceType, PositionMs = 0, UpdatedAt = now, ErrMsg = [], mode = NoMode,
      playlistAgentID = [], standaloneItems = [], playbackIndex = -1,
      audioConfig = \<lparr>SampleRate = 0, FrameDuration = 0\<rparr>, currentSource = None, active = None,
      pauseReason = ReasonNone, attachment = None, attachmentGen = 0, resumeOnAttach = False,
      exclusiveAttachment = None, playbacks = (\<lambda>_. fresh_playback), nextPlayback = 0, nextAttachment = 0,
      exclusive = (\<lambda>_. False)\<rparr>"

definition on_playback :: "nat \<Rightarrow> (playback \<Rightarrow> playback) \<Rightarrow> player \<Rightarrow> player" where
  "on_playback p f r = r\<lparr>playbacks := (playbacks r)(p := f (playbacks r p))\<rparr>"

definition setPaused :: "nat \<Rightarrow> bool \<Rightarrow> player \<Rightarrow> bool \<times> player" where
  \<comment> \<open>the channel \<^verbatim>\<open>resumeCh\<close> is open exactly while the playback is paused\<close>
  "setPaused p b r = (paused (playbacks r p) \<noteq> b, on_playback p (paused_update (\<lambda>_. b)) r)"

definition setExclusiveHeld :: "nat \<Rightarrow> bool \<Rightarrow> player \<Rightarrow> player" where
  "setExclusiveHeld p b r = on_playback p (exclusiveHeld_update (\<lambda>_. b)) r"

definition releaseMediaAttachment :: "attachment option \<Rightarrow> player \<Rightarrow> player" where
  "releaseMediaAttachment a r = (case a of None \<Rightarrow> r | Some (_, session) \<Rightarrow> r\<lparr>exclusive := (exclusive r)(session := False)\<rparr>)"

definition stopOldPlayback :: "nat option \<Rightarrow> player \<Rightarrow> player" where
  \<comment> \<open>the wait for its end is bounded by two seconds and promises nothing\<close>
  "stopOldPlayback p r = (case p of None \<Rightarrow> r | Some p \<Rightarrow> on_playback p (cancelled_update (\<lambda>_. True)) r)"

definition notifyAttachmentChangedLocked :: "player \<Rightarrow> player" where
  "notifyAttachmentChangedLocked r = r\<lparr>attachmentGen := Suc (attachmentGen r)\<rparr>"

definition snapshotAgentPlaylist :: "gostr \<Rightarrow> player \<Rightarrow> playlist_item list" where
  \<comment> \<open>a playlist that does not exist is made, empty\<close>
  "snapshotAgentPlaylist agentID r =
     (let agentID = TrimSpace agentID
      in if agentID = [] then [] else (case playlists r agentID of None \<Rightarrow> [] | Some items \<Rightarrow> cloneMediaPlaylistItems items))"

definition appendToAgentPlaylist ::
  "(gostr \<Rightarrow> gostr option) \<Rightarrow> int \<Rightarrow> gostr \<Rightarrow> gostr \<Rightarrow> media_source \<Rightarrow> player
    \<Rightarrow> (playlist_item \<times> int \<times> playlist_item list) option \<times> player" where
  "appendToAgentPlaylist url_path now new_id agentID source r =
     (let agentID = TrimSpace agentID
      in if agentID = [] then (None, r)
         else (let item = media_item url_path now new_id source;
                   items = (case playlists r agentID of None \<Rightarrow> [] | Some items \<Rightarrow> items) @ [item]
               in (Some (cloneMediaPlaylistItem item, int (length items) - 1, cloneMediaPlaylistItems items),
                   r\<lparr>playlists := (playlists r)(agentID \<mapsto> items)\<rparr>)))"

section \<open>Control operations\<close>

datatype media_error = EmptyAgentID | EmptyPlaylist | InvalidStartIndex int | NotPlaying | NoChannel | NotPlayable
  | NothingToAdd | CannotAdd | NotInPlaylist

definition replaceActivePlaybackLocked :: "nat option \<Rightarrow> player \<Rightarrow> nat option \<times> attachment option \<times> player" where
  "replaceActivePlaybackLocked new r =
     (let oldActive = active r; oldExclusive = exclusiveAttachment r;
          r = (case oldActive of None \<Rightarrow> r | Some p \<Rightarrow> setExclusiveHeld p False r)
      in (oldActive, oldExclusive, r\<lparr>active := new, exclusiveAttachment := None\<rparr>))"

definition newActiveMediaPlayback :: "player \<Rightarrow> nat \<times> player" where
  "newActiveMediaPlayback r =
     (nextPlayback r, (on_playback (nextPlayback r) (\<lambda>_. fresh_playback) r)\<lparr>nextPlayback := Suc (nextPlayback r)\<rparr>)"

definition refreshPublicStateLocked :: "player \<Rightarrow> player" where
  "refreshPublicStateLocked r =
     (if mode r = AgentPlaylist then
        (let snapshot = snapshotAgentPlaylist (playlistAgentID r) r
         in r\<lparr>Playlist := snapshot,
              CurrentIndex := (if snapshot \<noteq> [] \<and> 0 \<le> playbackIndex r \<and> playbackIndex r < int (length snapshot)
                               then playbackIndex r else -1)\<rparr>)
      else r\<lparr>Playlist := [], CurrentIndex := -1\<rparr>)"

definition currentPlaybackQueueLocked :: "player \<Rightarrow> playlist_item list" where
  "currentPlaybackQueueLocked r =
     (if mode r = AgentPlaylist then snapshotAgentPlaylist (playlistAgentID r) r
      else cloneMediaPlaylistItems (standaloneItems r))"

definition start_track :: "int \<Rightarrow> playlist_item \<Rightarrow> player \<Rightarrow> player" where
  \<comment> \<open>the assignments that \<^verbatim>\<open>ReplaceStandaloneQueueAndPlayWithHandle\<close> and \<^verbatim>\<open>PlayAgentPlaylistIndex\<close> share\<close>
  "start_track now item r =
     r\<lparr>currentSource := Some (cloneMediaSourceDescriptor (ItemSource item)), pauseReason := ReasonNone,
       resumeOnAttach := False, Status := StatusPlaying, CurrentTitle := Title (ItemSource item),
       CurrentSourceType := SourceType (ItemSource item), PositionMs := 0, ErrMsg := [], UpdatedAt := now\<rparr>"

definition Stop :: "int \<Rightarrow> player \<Rightarrow> player" where
  "Stop now r =
     (let p = active r; exclusiveAttach = exclusiveAttachment r;
          r = (case p of None \<Rightarrow> r | Some p \<Rightarrow> setExclusiveHeld p False r);
          r = r\<lparr>active := None, pauseReason := ReasonNone, exclusiveAttachment := None, resumeOnAttach := False,
                Status := StatusStopped, PositionMs := 0, ErrMsg := [], UpdatedAt := now\<rparr>
      in stopOldPlayback p (releaseMediaAttachment exclusiveAttach r))"

text \<open>The number returned is the playback whose goroutine is started.\<close>

definition ReplaceStandaloneQueueAndPlay ::
  "(gostr \<Rightarrow> gostr option) \<Rightarrow> int \<Rightarrow> (nat \<Rightarrow> gostr) \<Rightarrow> media_source list \<Rightarrow> int \<Rightarrow> audio_config \<Rightarrow> player
    \<Rightarrow> (media_error + nat option) \<times> player" where
  "ReplaceStandaloneQueueAndPlay url_path now new_id sources startIndex cfg r =
     (if sources = [] then (Inr None, Stop now r)
      else if startIndex < 0 \<or> startIndex \<ge> int (length sources) then (Inl (InvalidStartIndex startIndex), r)
      else (let items = buildMediaPlaylistItems url_path now new_id sources;
                (p, r) = newActiveMediaPlayback r;
                (oldActive, oldExclusive, r) = replaceActivePlaybackLocked (Some p) r;
                r = start_track now (items ! nat startIndex)
                      (r\<lparr>mode := Standalone, playlistAgentID := [], standaloneItems := cloneMediaPlaylistItems items,
                         playbackIndex := startIndex, audioConfig := normalizeMediaPlaybackAudioConfig cfg (audioConfig r)\<rparr>);
                r = r\<lparr>Playlist := [], CurrentIndex := -1\<rparr>
            in (Inr (Some p), stopOldPlayback oldActive (releaseMediaAttachment oldExclusive r))))"

definition PlayAgentPlaylistIndex ::
  "int \<Rightarrow> gostr \<Rightarrow> int \<Rightarrow> audio_config \<Rightarrow> player \<Rightarrow> (media_error + nat option) \<times> player" where
  "PlayAgentPlaylistIndex now agentID startIndex cfg r =
     (let agentID = TrimSpace agentID; snapshot = snapshotAgentPlaylist agentID r
      in if agentID = [] then (Inl EmptyAgentID, r)
         else if snapshot = [] then (Inl EmptyPlaylist, r)
         else if startIndex < 0 \<or> startIndex \<ge> int (length snapshot) then (Inl (InvalidStartIndex startIndex), r)
         else (let (p, r) = newActiveMediaPlayback r;
                   (oldActive, oldExclusive, r) = replaceActivePlaybackLocked (Some p) r;
                   r = start_track now (snapshot ! nat startIndex)
                         (r\<lparr>mode := AgentPlaylist, playlistAgentID := agentID, standaloneItems := [],
                            playbackIndex := startIndex, audioConfig := normalizeMediaPlaybackAudioConfig cfg (audioConfig r)\<rparr>);
                   r = r\<lparr>Playlist := cloneMediaPlaylistItems snapshot, CurrentIndex := startIndex\<rparr>
               in (Inr (Some p), stopOldPlayback oldActive (releaseMediaAttachment oldExclusive r))))"

definition PlayAgentPlaylist :: "int \<Rightarrow> gostr \<Rightarrow> audio_config \<Rightarrow> player \<Rightarrow> (media_error + nat option) \<times> player" where
  "PlayAgentPlaylist now agentID cfg r =
     (let agentID = TrimSpace agentID; snapshot = snapshotAgentPlaylist agentID r
      in if agentID = [] then (Inl EmptyAgentID, r)
         else if snapshot = [] then (Inl EmptyPlaylist, r)
         else PlayAgentPlaylistIndex now agentID
                (if mode r = AgentPlaylist \<and> playlistAgentID r = agentID \<and> 0 \<le> playbackIndex r
                    \<and> playbackIndex r < int (length snapshot) then playbackIndex r else 0) cfg r)"

definition pausePlayback :: "int \<Rightarrow> bool \<Rightarrow> pause_reason \<Rightarrow> player \<Rightarrow> media_error option \<times> player" where
  "pausePlayback now requireActive reason r =
     (case active r of
        None \<Rightarrow> (if requireActive then Some NotPlaying else None, r)
      | Some p \<Rightarrow>
          (let r = snd (setPaused p True r); exclusiveAttach = exclusiveAttachment r;
               r = setExclusiveHeld p False (r\<lparr>exclusiveAttachment := None\<rparr>);
               r = r\<lparr>pauseReason := reason, resumeOnAttach := False, Status := StatusPaused, UpdatedAt := now\<rparr>
           in (None, releaseMediaAttachment exclusiveAttach r)))"

definition Pause :: "int \<Rightarrow> player \<Rightarrow> media_error option \<times> player" where
  "Pause now r = pausePlayback now True ReasonUser r"

definition Suspend :: "int \<Rightarrow> player \<Rightarrow> media_error option \<times> player" where
  "Suspend now r = pausePlayback now False ReasonInterrupt r"

definition recoverActivePlayback :: "int \<Rightarrow> player \<Rightarrow> media_error option \<times> player" where
  "recoverActivePlayback now r =
     (case active r of
        None \<Rightarrow> (Some NotPlaying, r)
      | Some p \<Rightarrow>
          if attachment r = None then (Some NoChannel, r)
          else (case setPaused p False r of
                  (False, r) \<Rightarrow> (None, r\<lparr>resumeOnAttach := False\<rparr>)
                | (True, r) \<Rightarrow> (None, r\<lparr>pauseReason := ReasonNone, resumeOnAttach := False, Status := StatusPlaying, UpdatedAt := now\<rparr>)))"

definition Resume :: "int \<Rightarrow> player \<Rightarrow> media_error option \<times> player" where
  "Resume now r = recoverActivePlayback now r"

definition ResumeIfInterruptedPause :: "int \<Rightarrow> player \<Rightarrow> (media_error + bool) \<times> player" where
  "ResumeIfInterruptedPause now r =
     (if active r \<noteq> None \<and> pauseReason r = ReasonInterrupt then
        (case recoverActivePlayback now r of (Some e, r) \<Rightarrow> (Inl e, r) | (None, r) \<Rightarrow> (Inr True, r))
      else (Inr False, r))"

definition as_result :: "media_error option \<times> player \<Rightarrow> (media_error + nat option) \<times> player" where
  "as_result er = (case fst er of None \<Rightarrow> Inr None | Some e \<Rightarrow> Inl e, snd er)"

definition RecoverPlayback ::
  "(gostr \<Rightarrow> gostr option) \<Rightarrow> int \<Rightarrow> (nat \<Rightarrow> gostr) \<Rightarrow> audio_config \<Rightarrow> recovery_trigger \<Rightarrow> player
    \<Rightarrow> (media_error + nat option) \<times> player" where
  "RecoverPlayback url_path now new_id cfg trigger r =
     (if trigger = TriggerAttach \<and> \<not> resumeOnAttach r then (Inr None, r)
      else (case active r of
              Some p \<Rightarrow>
                if paused (playbacks r p) then as_result (recoverActivePlayback now r)
                else (Inr None, if trigger = TriggerAttach then r\<lparr>resumeOnAttach := False\<rparr> else r)
            | None \<Rightarrow>
                if mode r = AgentPlaylist then
                  (let snapshot = snapshotAgentPlaylist (playlistAgentID r) r
                   in if snapshot = [] then (Inl EmptyPlaylist, r)
                      else PlayAgentPlaylistIndex now (playlistAgentID r)
                             (if playbackIndex r < 0 \<or> playbackIndex r \<ge> int (length snapshot) then 0 else playbackIndex r) cfg r)
                else (case currentSource r of
                        None \<Rightarrow> (Inl NotPlayable, r)
                      | Some s \<Rightarrow> ReplaceStandaloneQueueAndPlay url_path now new_id [cloneMediaSourceDescriptor s] 0 cfg r)))"

definition go_mod :: "int \<Rightarrow> int \<Rightarrow> int" where
  \<comment> \<open>Go's \<^verbatim>\<open>%\<close> truncates\<close>
  "go_mod a b = (if a < 0 then - ((- a) mod b) else a mod b)"

definition jumpToRelative :: "int \<Rightarrow> int \<Rightarrow> audio_config \<Rightarrow> player \<Rightarrow> (media_error + nat option) \<times> player" where
  "jumpToRelative now delta cfg r =
     (if mode r \<noteq> AgentPlaylist then (Inl NotInPlaylist, r)
      else (let snapshot = snapshotAgentPlaylist (playlistAgentID r) r; n = int (length snapshot)
            in if snapshot = [] then (Inl EmptyPlaylist, r)
               else (let currentIndex = (if playbackIndex r < 0 \<or> playbackIndex r \<ge> n
                                         then (if delta \<ge> 0 then 0 else n - 1) else playbackIndex r);
                         nextIndex = go_mod (currentIndex + delta) n;
                         nextIndex = (if nextIndex < 0 then nextIndex + n else nextIndex)
                     in PlayAgentPlaylistIndex now (playlistAgentID r) nextIndex cfg r)))"

definition Next :: "int \<Rightarrow> audio_config \<Rightarrow> player \<Rightarrow> (media_error + nat option) \<times> player" where
  "Next now cfg r = jumpToRelative now 1 cfg r"

definition Prev :: "int \<Rightarrow> audio_config \<Rightarrow> player \<Rightarrow> (media_error + nat option) \<times> player" where
  "Prev now cfg r = jumpToRelative now (- 1) cfg r"

record append_result =
  AddedTitle :: gostr
  PlaylistLength :: int
  arCurrentIndex :: int
  CurrentStatus :: playback_status
  arCurrentSource :: source_type
  CurrentPosition :: int

definition AppendCurrentToAgentPlaylist ::
  "(gostr \<Rightarrow> gostr option) \<Rightarrow> int \<Rightarrow> gostr \<Rightarrow> gostr \<Rightarrow> player \<Rightarrow> (media_error + append_result) \<times> player" where
  "AppendCurrentToAgentPlaylist url_path now new_id agentID r =
     (let agentID = TrimSpace agentID
      in case currentSource r of
           None \<Rightarrow> (Inl NothingToAdd, r)
         | Some source \<Rightarrow>
             (let source = cloneMediaSourceDescriptor source
              in if SourceType source = InlineAudio then (Inl CannotAdd, r)
                 else (case appendToAgentPlaylist url_path now new_id agentID source r of
                         (None, r) \<Rightarrow> (Inl EmptyAgentID, r)
                       | (Some (item, index, snapshot), r) \<Rightarrow>
                           (let preserveCurrentPlayback = (mode r = AgentPlaylist \<and> playlistAgentID r = agentID
                                  \<and> 0 \<le> playbackIndex r \<and> playbackIndex r < int (length snapshot));
                                target = (if preserveCurrentPlayback then playbackIndex r else index);
                                current = cloneMediaSourceDescriptor source
                            in (Inr \<lparr>AddedTitle = Title (ItemSource item), PlaylistLength = int (length snapshot),
                                      arCurrentIndex = target, CurrentStatus = Status r,
                                      arCurrentSource = SourceType (ItemSource item), CurrentPosition = PositionMs r\<rparr>,
                                r\<lparr>mode := AgentPlaylist, playlistAgentID := agentID, playbackIndex := target,
                                  currentSource := Some current, Playlist := cloneMediaPlaylistItems snapshot,
                                  CurrentIndex := target, CurrentTitle := Title current,
                                  CurrentSourceType := SourceType current, UpdatedAt := now\<rparr>)))))"

definition GetState :: "player \<Rightarrow> player" where
  \<comment> \<open>the caller gets the public fields of the refreshed state\<close>
  "GetState r = refreshPublicStateLocked r"

definition isRealtimeMcpAudioSourceType :: "source_type \<Rightarrow> bool" where
  "isRealtimeMcpAudioSourceType t \<longleftrightarrow> t = MCPResource \<or> t = InlineAudio"

definition realtimeMcpAudioGateStatus :: "player \<Rightarrow> bool \<times> bool" where
  "realtimeMcpAudioGateStatus r =
     (let sourceType = (case (CurrentSourceType r, currentSource r) of
                          (NoSourceType, Some s) \<Rightarrow> SourceType s | (t, _) \<Rightarrow> t)
      in if \<not> isRealtimeMcpAudioSourceType sourceType then (False, False)
         else (let canControl = (active r \<noteq> None \<or> resumeOnAttach r \<or> Status r = StatusPaused)
               in (case active r of
                     None \<Rightarrow> (canControl, False)
                   | Some p \<Rightarrow>
                       if attachment r = None \<or> Status r \<noteq> StatusPlaying then (canControl, False)
                       else (True, \<not> paused (playbacks r p)))))"

definition hasRealtimeMcpAudioControlContext :: "player \<Rightarrow> bool" where
  "hasRealtimeMcpAudioControlContext r = fst (realtimeMcpAudioGateStatus r)"

definition shouldGateRealtimeMcpAudioASR :: "player \<Rightarrow> bool" where
  "shouldGateRealtimeMcpAudioASR r = snd (realtimeMcpAudioGateStatus r)"

definition attachSession :: "nat \<Rightarrow> player \<Rightarrow> bool \<times> player" where
  \<comment> \<open>whether a recovery is started for it\<close>
  "attachSession session r =
     (if (case attachment r of None \<Rightarrow> False | Some (_, s) \<Rightarrow> s = session) then (False, r)
      else (let r = notifyAttachmentChangedLocked (r\<lparr>attachment := Some (nextAttachment r, session), nextAttachment := Suc (nextAttachment r)\<rparr>)
            in (resumeOnAttach r, r)))"

definition detachSession :: "int \<Rightarrow> nat \<Rightarrow> bool \<Rightarrow> player \<Rightarrow> player" where
  "detachSession now session preserve r =
     (case attachment r of
        None \<Rightarrow> r
      | Some current \<Rightarrow>
          if snd current \<noteq> session then r
          else (let r = (case active r of
                           None \<Rightarrow> r
                         | Some p \<Rightarrow>
                             if preserve \<and> Status r = StatusPlaying
                             then (snd (setPaused p True r))\<lparr>Status := StatusPaused, UpdatedAt := now, resumeOnAttach := True\<rparr>
                             else r);
                    release = exclusiveAttachment r = Some current;
                    r = r\<lparr>attachment := None\<rparr>;
                    r = (if release
                         then (case active r of None \<Rightarrow> r | Some p \<Rightarrow> setExclusiveHeld p False r)\<lparr>exclusiveAttachment := None\<rparr>
                         else r);
                    r = notifyAttachmentChangedLocked r
                in releaseMediaAttachment (if release then Some current else None) r))"

section \<open>Sections of the playing goroutine\<close>

definition currentIndexForActive :: "nat \<Rightarrow> player \<Rightarrow> int" where
  "currentIndexForActive p r = (if active r \<noteq> Some p then -1 else playbackIndex r)"

definition prepareTrack :: "int \<Rightarrow> nat \<Rightarrow> int \<Rightarrow> player \<Rightarrow> playlist_item option \<times> player" where
  "prepareTrack now p index r =
     (let queue = currentPlaybackQueueLocked r
      in if active r \<noteq> Some p \<or> index < 0 \<or> index \<ge> int (length queue) then (None, r)
         else (let item = cloneMediaPlaylistItem (queue ! nat index);
                   r = r\<lparr>playbackIndex := index, currentSource := Some (cloneMediaSourceDescriptor (ItemSource item)),
                         CurrentTitle := Title (ItemSource item), CurrentSourceType := SourceType (ItemSource item),
                         PositionMs := 0, ErrMsg := [],
                         Status := (if paused (playbacks r p) then StatusPaused else StatusPlaying), UpdatedAt := now\<rparr>
               in (Some item, refreshPublicStateLocked r)))"

definition end_playback :: "int \<Rightarrow> playback_status \<Rightarrow> player \<Rightarrow> player" where
  "end_playback now status r =
     r\<lparr>active := None, pauseReason := ReasonNone, resumeOnAttach := False, Status := status, UpdatedAt := now\<rparr>"

definition advanceAfterTrack :: "int \<Rightarrow> nat \<Rightarrow> int \<Rightarrow> player \<Rightarrow> int option \<times> player" where
  "advanceAfterTrack now p index r =
     (if active r \<noteq> Some p then (None, r)
      else (let queue = currentPlaybackQueueLocked r;
                currentIndex = (if playbackIndex r < 0 \<or> playbackIndex r \<ge> int (length queue) then index else playbackIndex r);
                nextIndex = currentIndex + 1
            in if nextIndex \<ge> int (length queue)
               then (None, refreshPublicStateLocked ((end_playback now StatusStopped r)\<lparr>PositionMs := 0\<rparr>))
               else (let source = ItemSource (queue ! nat nextIndex)
                     in (Some nextIndex,
                         refreshPublicStateLocked
                           (r\<lparr>playbackIndex := nextIndex, currentSource := Some (cloneMediaSourceDescriptor source),
                              CurrentTitle := Title source, CurrentSourceType := SourceType source, PositionMs := 0,
                              Status := StatusPlaying, UpdatedAt := now\<rparr>)))))"

definition markPlaybackError :: "int \<Rightarrow> nat \<Rightarrow> gostr \<Rightarrow> player \<Rightarrow> player" where
  "markPlaybackError now p err r =
     (if active r \<noteq> Some p then r
      else refreshPublicStateLocked ((end_playback now StatusError r)\<lparr>ErrMsg := err\<rparr>))"

definition markPlaybackStopped :: "int \<Rightarrow> nat \<Rightarrow> playback_status \<Rightarrow> gostr \<Rightarrow> player \<Rightarrow> player" where
  "markPlaybackStopped now p status errMsg r =
     (if active r \<noteq> Some p then r
      else refreshPublicStateLocked ((end_playback now status r)\<lparr>ErrMsg := errMsg\<rparr>))"

definition holds_exclusive :: "nat \<Rightarrow> attachment \<Rightarrow> player \<Rightarrow> bool" where
  \<comment> \<open>the first section of \<^verbatim>\<open>ensureExclusivePlayback\<close>\<close>
  "holds_exclusive p a r \<longleftrightarrow> active r = Some p \<and> exclusiveAttachment r = Some a \<and> exclusiveHeld (playbacks r p)"

definition BeginExclusiveMediaPlayback :: "nat \<Rightarrow> bool \<Rightarrow> player \<Rightarrow> bool \<times> player" where
  \<comment> \<open>of the output of a session; \<open>interrupted\<close>: clearing the speech that is being spoken went well\<close>
  "BeginExclusiveMediaPlayback session interrupted r =
     (if exclusive r session then (False, r)
      else if interrupted then (True, r\<lparr>exclusive := (exclusive r)(session := True)\<rparr>)
      else (False, r\<lparr>exclusive := (exclusive r)(session := False)\<rparr>))"

definition take_exclusive :: "nat \<Rightarrow> attachment \<Rightarrow> player \<Rightarrow> bool \<times> player" where
  \<comment> \<open>the last section of \<^verbatim>\<open>ensureExclusivePlayback\<close>, after a begin that succeeded; \<open>False\<close> is \<^verbatim>\<open>context.Canceled\<close>\<close>
  "take_exclusive p a r =
     (if active r \<noteq> Some p \<or> attachment r \<noteq> Some a then (False, releaseMediaAttachment (Some a) r)
      else (let release = (if exclusiveAttachment r \<noteq> Some a then exclusiveAttachment r else None)
            in (True, releaseMediaAttachment release (setExclusiveHeld p True (r\<lparr>exclusiveAttachment := Some a\<rparr>)))))"

definition releaseExclusivePlayback :: "nat \<Rightarrow> player \<Rightarrow> player" where
  "releaseExclusivePlayback p r =
     (if \<not> exclusiveHeld (playbacks r p) then r
      else releaseMediaAttachment (exclusiveAttachment r) (setExclusiveHeld p False (r\<lparr>exclusiveAttachment := None\<rparr>)))"

definition handleAttachmentFailure :: "int \<Rightarrow> nat \<Rightarrow> attachment \<Rightarrow> player \<Rightarrow> player" where
  "handleAttachmentFailure now p a r =
     (if attachment r \<noteq> Some a \<or> active r \<noteq> Some p then r
      else (let release = (exclusiveAttachment r = Some a);
                r = (if release then setExclusiveHeld p False (r\<lparr>exclusiveAttachment := None\<rparr>) else r);
                r = (if Status r = StatusPlaying
                     then (snd (setPaused p True r))\<lparr>Status := StatusPaused, UpdatedAt := now, resumeOnAttach := True\<rparr> else r);
                r = notifyAttachmentChangedLocked (r\<lparr>attachment := None\<rparr>)
            in releaseMediaAttachment (if release then Some a else None) r))"

definition incrementPlaybackPosition :: "int \<Rightarrow> nat \<Rightarrow> int \<Rightarrow> player \<Rightarrow> player" where
  "incrementPlaybackPosition now p deltaMs r =
     (if deltaMs \<le> 0 \<or> active r \<noteq> Some p then r else r\<lparr>PositionMs := PositionMs r + deltaMs, UpdatedAt := now\<rparr>)"

definition currentFrameDurationMs :: "player \<Rightarrow> int" where
  "currentFrameDurationMs r = (if FrameDuration (audioConfig r) \<le> 0 then 60 else FrameDuration (audioConfig r))"

end
