(* ===== verification/Media_Playback.thy ===== *)
theory Media_Playback
  imports Media_Player
begin

text \<open>
  The playing goroutine of \<^verbatim>\<open>media_player.go\<close> (\<^verbatim>\<open>runPlayback\<close>, \<^verbatim>\<open>playItem\<close>, \<^verbatim>\<open>streamMediaAudio\<close> and what they call)
  as a program counter with one step per section, and the system of the runtime's control operations, of any
  number of such goroutines, of late failures of the output and of other devices that append to playlists.
\<close>

section \<open>The goroutine\<close>

record stream =
  sIndex :: int
  sText :: gostr
  sStartedOn :: "attachment option"
  sEnqueued :: bool
  sFrameMs :: int

datatype play_pc =
    PcStart
  | PcLoop int
  | PcPrepare int
  | PcOpen int playlist_item
  | PcReceive stream
  | PcGate stream
  | PcAttach stream
  | PcEnsure stream attachment
  | PcBegin stream attachment
  | PcTake stream attachment
  | PcSentence stream attachment
  | PcSend stream attachment
  | PcSentenceEnd stream
  | PcAwaitEnd stream attachment
  | PcAdvance int
  | PcCancelled
  | PcFailed gostr
  | PcRelease
  | PcClose
  | PcFinished

datatype answer = Proceed | Fails gostr | CtxDone | StreamClosed | Frame bytes
  \<comment> \<open>of the source, of the output and of \<^verbatim>\<open>select\<close>\<close>

definition play_text :: "(gostr \<Rightarrow> gostr option) \<Rightarrow> playlist_item \<Rightarrow> gostr" where
  "play_text url_path item =
     (let title = deriveMediaTitle url_path (ItemSource item)
      in if title \<noteq> [] then runes ''now playing: '' @ title else [])"

definition wait_if_paused :: "nat \<Rightarrow> player \<Rightarrow> play_pc \<Rightarrow> (play_pc \<times> player) option" where
  \<comment> \<open>goes on, is cancelled, or blocks\<close>
  "wait_if_paused p r next =
     (if \<not> paused (playbacks r p) then Some (next, r)
      else if cancelled (playbacks r p) then Some (PcCancelled, r) else None)"

fun receive_step :: "nat \<Rightarrow> answer \<Rightarrow> stream \<Rightarrow> player \<Rightarrow> (play_pc \<times> player) option" where
  "receive_step p CtxDone st r = (if cancelled (playbacks r p) then Some (PcCancelled, r) else None)"
| "receive_step p StreamClosed st r = Some (if sEnqueued st then PcSentenceEnd st else PcAdvance (sIndex st), r)"
| "receive_step p (Frame f) st r = Some (if f = [] then PcReceive st else PcGate st, r)"
| "receive_step p _ st r = None"

fun begin_step :: "int \<Rightarrow> nat \<Rightarrow> answer \<Rightarrow> stream \<Rightarrow> attachment \<Rightarrow> player \<Rightarrow> (play_pc \<times> player) option" where
  "begin_step now p Proceed st a r =
     (case BeginExclusiveMediaPlayback (snd a) True r of
        (True, r) \<Rightarrow> Some (PcTake st a, r)
      | (False, r) \<Rightarrow> Some (PcGate st, handleAttachmentFailure now p a r))"
| "begin_step now p (Fails e) st a r =
     Some (PcGate st, handleAttachmentFailure now p a (snd (BeginExclusiveMediaPlayback (snd a) False r)))"
| "begin_step now p CtxDone st a r =
     (if cancelled (playbacks r p) \<and> \<not> exclusive r (snd a)
      then Some (PcCancelled, snd (BeginExclusiveMediaPlayback (snd a) False r)) else None)"
| "begin_step now p _ st a r = None"

fun output_step :: "int \<Rightarrow> nat \<Rightarrow> answer \<Rightarrow> stream \<Rightarrow> attachment \<Rightarrow> player \<Rightarrow> play_pc \<times> player \<Rightarrow> (play_pc \<times> player) option" where
  \<comment> \<open>a message to the output: what follows, or the failure of the attachment\<close>
  "output_step now p Proceed st a r next = Some next"
| "output_step now p (Fails e) st a r next = Some (PcGate st, handleAttachmentFailure now p a r)"
| "output_step now p _ st a r next = None"

fun play_step :: "(gostr \<Rightarrow> gostr option) \<Rightarrow> int \<Rightarrow> nat \<Rightarrow> answer \<Rightarrow> play_pc \<Rightarrow> player \<Rightarrow> (play_pc \<times> player) option" where
  "play_step up now p ans PcStart r =
     Some (if currentIndexForActive p r \<ge> 0 then PcLoop (currentIndexForActive p r) else PcRelease, r)"
| "play_step up now p ans (PcLoop i) r = wait_if_paused p r (PcPrepare i)"
| "play_step up now p ans (PcPrepare i) r =
     (case prepareTrack now p i r of (None, r) \<Rightarrow> Some (PcRelease, r) | (Some item, r) \<Rightarrow> Some (PcOpen i item, r))"
| "play_step up now p ans (PcOpen i item) r =
     (case ans of
        Proceed \<Rightarrow> Some (PcReceive \<lparr>sIndex = i, sText = play_text up item, sStartedOn = None, sEnqueued = False,
                                  sFrameMs = currentFrameDurationMs r\<rparr>, r)
      | Fails e \<Rightarrow> Some (PcFailed e, r)
      | CtxDone \<Rightarrow> if cancelled (playbacks r p) then Some (PcCancelled, r) else None
      | _ \<Rightarrow> None)"
| "play_step up now p ans (PcReceive st) r =
     (if paused (playbacks r p) then wait_if_paused p r (PcReceive st) else receive_step p ans st r)"
| "play_step up now p ans (PcGate st) r = wait_if_paused p r (PcAttach st)"
| "play_step up now p ans (PcAttach st) r =
     (if active r \<noteq> Some p then Some (PcCancelled, r)
      else (case attachment r of
              Some a \<Rightarrow> Some (PcEnsure st a, r)
            | None \<Rightarrow> if cancelled (playbacks r p) then Some (PcCancelled, r) else None))"
| "play_step up now p ans (PcEnsure st a) r = Some (if holds_exclusive p a r then PcSentence st a else PcBegin st a, r)"
| "play_step up now p ans (PcBegin st a) r = begin_step now p ans st a r"
| "play_step up now p ans (PcTake st a) r =
     (case take_exclusive p a r of (True, r) \<Rightarrow> Some (PcSentence st a, r) | (False, r) \<Rightarrow> Some (PcCancelled, r))"
| "play_step up now p ans (PcSentence st a) r =
     (if sStartedOn st \<noteq> Some a \<and> sText st \<noteq> []
      then output_step now p ans st a r (PcSend (st\<lparr>sStartedOn := Some a\<rparr>) a, r)
      else Some (PcSend st a, r))"
| "play_step up now p ans (PcSend st a) r =
     output_step now p ans st a r (PcReceive (st\<lparr>sEnqueued := True\<rparr>), incrementPlaybackPosition now p (sFrameMs st) r)"
| "play_step up now p ans (PcSentenceEnd st) r =
     (if active r \<noteq> Some p then Some (PcAdvance (sIndex st), r)
      else (case attachment r of
              None \<Rightarrow> Some (PcAdvance (sIndex st), r)
            | Some a \<Rightarrow>
                (case ans of
                   Proceed \<Rightarrow> Some (PcAwaitEnd st a, r)
                 | Fails e \<Rightarrow> Some (PcFailed e, handleAttachmentFailure now p a r)
                 | CtxDone \<Rightarrow> if cancelled (playbacks r p) then Some (PcCancelled, handleAttachmentFailure now p a r) else None
                 | _ \<Rightarrow> None)))"
| "play_step up now p ans (PcAwaitEnd st a) r =
     (case ans of
        Proceed \<Rightarrow> Some (PcAdvance (sIndex st), r)
      | Fails e \<Rightarrow> Some (PcFailed e, r)
      | CtxDone \<Rightarrow> if cancelled (playbacks r p) then Some (PcCancelled, r) else None
      | _ \<Rightarrow> None)"
| "play_step up now p ans (PcAdvance i) r =
     (case advanceAfterTrack now p i r of (Some n, r) \<Rightarrow> Some (PcLoop n, r) | (None, r) \<Rightarrow> Some (PcRelease, r))"
| "play_step up now p ans PcCancelled r = Some (PcRelease, markPlaybackStopped now p StatusStopped [] r)"
| "play_step up now p ans (PcFailed e) r = Some (PcRelease, markPlaybackError now p e r)"
| "play_step up now p ans PcRelease r = Some (PcClose, releaseExclusivePlayback p r)"
| "play_step up now p ans PcClose r = Some (PcFinished, on_playback p (finished_update (\<lambda>_. True)) r)"
| "play_step up now p ans PcFinished r = None"

section \<open>The system\<close>

datatype control =
    CReplace "media_source list" int audio_config
  | CPlayIndex gostr int audio_config
  | CPlayList gostr audio_config
  | CRecover audio_config recovery_trigger
  | CNext audio_config
  | CPrev audio_config
  | CPause
  | CSuspend
  | CResume
  | CResumeInterrupted
  | CStop
  | CAppend gostr
  | CGetState
  | CAttach nat
  | CDetach nat bool

fun control_step ::
  "(gostr \<Rightarrow> gostr option) \<Rightarrow> int \<Rightarrow> (nat \<Rightarrow> gostr) \<Rightarrow> control \<Rightarrow> player \<Rightarrow> nat option \<times> player" where
  \<comment> \<open>with the playback whose goroutine it starts\<close>
  "control_step up now ids (CReplace sources i cfg) r = map_prod (case_sum (\<lambda>_. None) id) id (ReplaceStandaloneQueueAndPlay up now ids sources i cfg r)"
| "control_step up now ids (CPlayIndex agentID i cfg) r = map_prod (case_sum (\<lambda>_. None) id) id (PlayAgentPlaylistIndex now agentID i cfg r)"
| "control_step up now ids (CPlayList agentID cfg) r = map_prod (case_sum (\<lambda>_. None) id) id (PlayAgentPlaylist now agentID cfg r)"
| "control_step up now ids (CRecover cfg trigger) r = map_prod (case_sum (\<lambda>_. None) id) id (RecoverPlayback up now ids cfg trigger r)"
| "control_step up now ids (CNext cfg) r = map_prod (case_sum (\<lambda>_. None) id) id (Next now cfg r)"
| "control_step up now ids (CPrev cfg) r = map_prod (case_sum (\<lambda>_. None) id) id (Prev now cfg r)"
| "control_step up now ids CPause r = (None, snd (Pause now r))"
| "control_step up now ids CSuspend r = (None, snd (Suspend now r))"
| "control_step up now ids CResume r = (None, snd (Resume now r))"
| "control_step up now ids CResumeInterrupted r = (None, snd (ResumeIfInterruptedPause now r))"
| "control_step up now ids CStop r = (None, Stop now r)"
| "control_step up now ids (CAppend agentID) r = (None, snd (AppendCurrentToAgentPlaylist up now (ids 0) agentID r))"
| "control_step up now ids CGetState r = (None, GetState r)"
| "control_step up now ids (CAttach session) r = (None, snd (attachSession session r))"
| "control_step up now ids (CDetach session preserve) r = (None, detachSession now session preserve r)"

type_synonym psys = "player \<times> (nat \<Rightarrow> play_pc option)"

datatype paction =
    Control control
  | Run nat answer
  | LateFailure nat attachment  \<comment> \<open>\<^verbatim>\<open>onError\<close> of a message sent earlier\<close>
  | OtherAppend gostr media_source  \<comment> \<open>another device of the agent\<close>

inductive psys_step :: "(gostr \<Rightarrow> gostr option) \<Rightarrow> psys \<Rightarrow> paction \<Rightarrow> psys \<Rightarrow> bool" for up where
  control: "control_step up now ids c r = (spawned, r') \<Longrightarrow>
    psys_step up (r, pcs) (Control c) (r', case spawned of None \<Rightarrow> pcs | Some p \<Rightarrow> pcs(p \<mapsto> PcStart))"
| run: "pcs p = Some c \<Longrightarrow> play_step up now p ans c r = Some (c', r') \<Longrightarrow>
    psys_step up (r, pcs) (Run p ans) (r', pcs(p \<mapsto> c'))"
| late: "psys_step up (r, pcs) (LateFailure p a) (handleAttachmentFailure now p a r, pcs)"
| other: "psys_step up (r, pcs) (OtherAppend agentID source) (snd (appendToAgentPlaylist up now new_id agentID source r), pcs)"

inductive reachable :: "(gostr \<Rightarrow> gostr option) \<Rightarrow> psys \<Rightarrow> bool" for up where
  init: "reachable up (newDeviceMediaRuntime now, \<lambda>_. None)"
| step: "reachable up s \<Longrightarrow> psys_step up s act s' \<Longrightarrow> reachable up s'"

section \<open>Who holds the output\<close>

definition excl :: "player \<Rightarrow> attachment option \<times> (nat \<Rightarrow> bool)" where
  "excl r = (exclusiveAttachment r, exclusive r)"

definition dropped :: "attachment option \<times> (nat \<Rightarrow> bool) \<Rightarrow> attachment option \<times> (nat \<Rightarrow> bool)" where
  "dropped e = (None, case fst e of None \<Rightarrow> snd e | Some (_, s) \<Rightarrow> (snd e)(s := False))"

definition keeps_or_drops :: "player \<Rightarrow> player \<Rightarrow> bool" where
  "keeps_or_drops r r' \<longleftrightarrow> excl r' = excl r \<or> excl r' = dropped (excl r)"

lemmas excl_simps = excl_def dropped_def releaseMediaAttachment_def setExclusiveHeld_def on_playback_def setPaused_def
  stopOldPlayback_def replaceActivePlaybackLocked_def newActiveMediaPlayback_def start_track_def notifyAttachmentChangedLocked_def
  refreshPublicStateLocked_def end_playback_def

lemma keeps_refl [simp]: "keeps_or_drops r r"
  by (simp add: keeps_or_drops_def)

lemma excl_refresh [simp]: "excl (refreshPublicStateLocked r) = excl r"
  by (simp add: excl_def refreshPublicStateLocked_def Let_def)

lemma keeps_Replace: "keeps_or_drops r (snd (ReplaceStandaloneQueueAndPlay up now ids sources i cfg r))"
  by (auto simp: keeps_or_drops_def ReplaceStandaloneQueueAndPlay_def Stop_def Let_def excl_simps split: option.split prod.split)

lemma keeps_Index: "keeps_or_drops r (snd (PlayAgentPlaylistIndex now agentID i cfg r))"
  by (auto simp: keeps_or_drops_def PlayAgentPlaylistIndex_def Let_def excl_simps split: option.split prod.split)

lemma keeps_List: "keeps_or_drops r (snd (PlayAgentPlaylist now agentID cfg r))"
  using keeps_Index by (auto simp: PlayAgentPlaylist_def Let_def)

lemma keeps_jump: "keeps_or_drops r (snd (jumpToRelative now d cfg r))"
  using keeps_Index by (auto simp: jumpToRelative_def Let_def)

lemma keeps_recoverActive: "keeps_or_drops r (snd (recoverActivePlayback now r))"
  by (auto simp: keeps_or_drops_def recoverActivePlayback_def Let_def excl_simps split: option.split bool.split)

lemma keeps_Recover: "keeps_or_drops r (snd (RecoverPlayback up now ids cfg trigger r))"
proof -
  have "keeps_or_drops r (r\<lparr>resumeOnAttach := False\<rparr>)" by (simp add: keeps_or_drops_def excl_def)
  then show ?thesis
    using keeps_Replace keeps_Index keeps_recoverActive
    by (auto simp: RecoverPlayback_def as_result_def Let_def split: option.split)
qed

lemma keeps_pause: "keeps_or_drops r (snd (pausePlayback now req reason r))"
  by (auto simp: keeps_or_drops_def pausePlayback_def Let_def excl_simps split: option.split prod.split)

lemma keeps_Stop: "keeps_or_drops r (Stop now r)"
  by (auto simp: keeps_or_drops_def Stop_def Let_def excl_simps split: option.split prod.split)

lemma keeps_ResumeInterrupted: "keeps_or_drops r (snd (ResumeIfInterruptedPause now r))"
  using keeps_recoverActive [of r now] by (auto simp: ResumeIfInterruptedPause_def split: option.splits prod.splits)

lemma keeps_Append: "keeps_or_drops r (snd (AppendCurrentToAgentPlaylist up now new_id agentID r))"
  by (auto simp: keeps_or_drops_def AppendCurrentToAgentPlaylist_def appendToAgentPlaylist_def Let_def excl_def
      split: option.split)

lemma keeps_attach: "keeps_or_drops r (snd (attachSession session r))"
  by (auto simp: keeps_or_drops_def attachSession_def Let_def excl_simps)

lemma keeps_detach: "keeps_or_drops r (detachSession now session preserve r)"
  by (auto simp: keeps_or_drops_def detachSession_def Let_def excl_simps split: option.split prod.split)

lemma keeps_failure: "keeps_or_drops r (handleAttachmentFailure now p a r)"
  by (cases a) (auto simp: keeps_or_drops_def handleAttachmentFailure_def Let_def excl_simps)

lemma keeps_release: "keeps_or_drops r (releaseExclusivePlayback p r)"
  by (auto simp: keeps_or_drops_def releaseExclusivePlayback_def Let_def excl_simps split: option.split prod.split)

lemma keeps_control: "control_step up now ids c r = (spawned, r') \<Longrightarrow> keeps_or_drops r r'"
  using keeps_Replace keeps_Index keeps_List keeps_jump keeps_Recover keeps_pause keeps_Stop keeps_ResumeInterrupted
    keeps_Append keeps_attach keeps_detach keeps_recoverActive
  by (cases c) (auto simp: map_prod_def case_prod_beta Next_def Prev_def Pause_def Suspend_def Resume_def GetState_def
      keeps_or_drops_def [of r "refreshPublicStateLocked r"])

definition taker :: "(nat \<Rightarrow> play_pc option) \<Rightarrow> nat \<Rightarrow> nat \<Rightarrow> bool" where
  \<comment> \<open>the goroutine between a begin that succeeded on the session and its entry in the runtime\<close>
  "taker pcs s p \<longleftrightarrow> (\<exists>st a. pcs p = Some (PcTake st a) \<and> snd a = s)"

definition output_owned :: "attachment option \<times> (nat \<Rightarrow> bool) \<Rightarrow> (nat \<Rightarrow> play_pc option) \<Rightarrow> bool" where
  "output_owned e pcs \<longleftrightarrow>
     (\<forall>i s. fst e = Some (i, s) \<longrightarrow> snd e s \<and> (\<forall>p. \<not> taker pcs s p))
     \<and> (\<forall>s p. taker pcs s p \<longrightarrow> snd e s \<and> (\<forall>q. taker pcs s q \<longrightarrow> q = p))
     \<and> (\<forall>s. snd e s \<longrightarrow> (\<exists>i. fst e = Some (i, s)) \<or> (\<exists>p. taker pcs s p))"

lemma output_ownedD:
  assumes "output_owned e pcs"
  shows "fst e = Some (i, s) \<Longrightarrow> snd e s \<and> \<not> taker pcs s p"
    and "taker pcs s p \<Longrightarrow> snd e s" and "taker pcs s p \<Longrightarrow> taker pcs s q \<Longrightarrow> q = p"
    and "snd e s \<Longrightarrow> (\<exists>i. fst e = Some (i, s)) \<or> (\<exists>p. taker pcs s p)"
  using assms unfolding output_owned_def by blast+

lemma owned_dropped: "output_owned e pcs \<Longrightarrow> output_owned (dropped e) pcs"
proof (cases "fst e")
  case None
  assume "output_owned e pcs"
  moreover have "dropped e = e" using None by (cases e) (simp add: dropped_def)
  ultimately show ?thesis by simp
next
  case (Some a)
  assume o: "output_owned e pcs"
  obtain i s where a: "a = (i, s)" by (cases a)
  have d: "dropped e = (None, (snd e)(s := False))" using Some a by (simp add: dropped_def)
  have no: "\<not> taker pcs s p" for p using output_ownedD(1) [OF o, of i s p] Some a by blast
  show ?thesis
    unfolding output_owned_def d
  proof (intro conjI allI impI)
    fix t assume "snd (None, (snd e)(s := False)) t"
    then have t: "t \<noteq> s" "snd e t" by (auto split: if_splits)
    then show "(\<exists>i. fst (None, (snd e)(s := False)) = Some (i, t)) \<or> (\<exists>p. taker pcs t p)"
      using output_ownedD(4) [OF o t(2)] Some a by auto
  next
    fix t p assume "taker pcs t p"
    then show "snd (None, (snd e)(s := False)) t" using output_ownedD(2) [OF o] no by auto
  next
    fix t p q assume "taker pcs t p" "taker pcs t q"
    then show "q = p" by (rule output_ownedD(3) [OF o])
  qed simp_all
qed

lemma owned_keeps: "keeps_or_drops r r' \<Longrightarrow> output_owned (excl r) pcs \<Longrightarrow> output_owned (excl r') pcs"
  unfolding keeps_or_drops_def using owned_dropped by metis

lemma owned_move:
  assumes "output_owned e pcs" and "\<And>s. \<not> taker pcs s p" and "\<And>st a. c \<noteq> PcTake st a"
  shows "output_owned e (pcs(p \<mapsto> c))"
proof -
  have same: "taker (pcs(p \<mapsto> c)) s q \<longleftrightarrow> taker pcs s q" if "q \<noteq> p" for s q
    using that by (simp add: taker_def)
  have "\<not> taker (pcs(p \<mapsto> c)) s p" for s unfolding taker_def using assms(3) by (metis fun_upd_same option.inject)
  with same assms(2) have "taker (pcs(p \<mapsto> c)) s q = taker pcs s q" for s q by metis
  then have eq: "taker (pcs(p \<mapsto> c)) = taker pcs" by (intro ext)
  show ?thesis unfolding output_owned_def eq by (rule assms(1) [unfolded output_owned_def])
qed

text \<open>Steps other than begin and take do not touch the ownership beyond dropping it.\<close>

lemma play_keeps:
  assumes "play_step up now p ans c r = Some (c', r')"
    and "\<And>st a. c \<noteq> PcBegin st a" and "\<And>st a. c \<noteq> PcTake st a"
  shows "keeps_or_drops r r' \<and> (\<forall>st a. c' \<noteq> PcTake st a)"
proof -
  have out: "keeps_or_drops r r' \<and> (\<forall>st a. c' \<noteq> PcTake st a)"
    if "output_step now p ans st a r (c1, r1) = Some (c', r')" "keeps_or_drops r r1" "\<And>st a. c1 \<noteq> PcTake st a" for st a c1 r1
    using that keeps_failure [of r now p a] by (cases ans) auto
  have inc: "keeps_or_drops r (incrementPlaybackPosition now p d r)" for d
    by (simp add: keeps_or_drops_def incrementPlaybackPosition_def excl_def)
  have prep: "keeps_or_drops r (snd (prepareTrack now p i r))" for i
    by (auto simp: keeps_or_drops_def prepareTrack_def Let_def excl_def refreshPublicStateLocked_def)
  have adv: "keeps_or_drops r (snd (advanceAfterTrack now p i r))" for i
    by (auto simp: keeps_or_drops_def advanceAfterTrack_def Let_def excl_def refreshPublicStateLocked_def end_playback_def)
  have mark: "keeps_or_drops r (markPlaybackError now p e r)" "keeps_or_drops r (markPlaybackStopped now p s e r)" for e s
    by (auto simp: keeps_or_drops_def markPlaybackError_def markPlaybackStopped_def excl_def refreshPublicStateLocked_def
        end_playback_def Let_def)
  show ?thesis
  proof (cases c)
    case (PcReceive st)
    then show ?thesis using assms(1) by (cases ans) (auto simp: wait_if_paused_def split: if_splits)
  next
    case (PcPrepare i)
    then show ?thesis using assms(1) prep [of i] by (auto split: prod.splits option.splits)
  next
    case (PcAdvance i)
    then show ?thesis using assms(1) adv [of i] by (auto split: prod.splits option.splits)
  next
    case (PcSentence st a)
    then show ?thesis using assms(1) out [of st a _ r] by (auto split: if_splits)
  next
    case (PcSend st a)
    then show ?thesis using assms(1) out [of st a _ _, OF _ inc] by auto
  next
    case (PcSentenceEnd st)
    then show ?thesis using assms(1) keeps_failure [of r now p]
      by (cases "active r = Some p"; cases "attachment r"; cases ans) (simp_all, auto split: if_splits)
  next
    case PcClose
    then show ?thesis using assms(1) by (auto simp: keeps_or_drops_def excl_def on_playback_def)
  next
    case (PcOpen i item)
    then show ?thesis using assms(1) by (cases ans) (auto split: if_splits)
  next
    case (PcAwaitEnd st a)
    then show ?thesis using assms(1) by (cases ans) (auto split: if_splits)
  next
    case (PcAttach st)
    then show ?thesis using assms(1) by (cases "attachment r") (auto split: if_splits)
  next
    case PcRelease
    then show ?thesis using assms(1) keeps_release [of r p] by auto
  next
    case (PcBegin st a)
    then show ?thesis using assms(2) by simp
  next
    case (PcTake st a)
    then show ?thesis using assms(3) by simp
  next
    case PcCancelled
    then show ?thesis using assms(1) mark by auto
  next
    case (PcFailed e)
    then show ?thesis using assms(1) mark by auto
  qed (use assms(1) in \<open>auto simp: wait_if_paused_def split: if_splits\<close>)
qed

lemma taker_upd: "taker (pcs(p \<mapsto> c)) s q \<longleftrightarrow> (if q = p then \<exists>st a. c = PcTake st a \<and> snd a = s else taker pcs s q)"
  by (auto simp: taker_def)

lemma owned_begin:
  assumes o: "output_owned (ea, ex) pcs" and "\<not> ex (snd a)" and p: "\<And>t. \<not> taker pcs t p"
  shows "output_owned (ea, ex(snd a := True)) (pcs(p \<mapsto> PcTake st a))"
proof -
  have no: "\<not> taker pcs (snd a) q" for q using output_ownedD(2) [OF o] assms(2) by auto
  have t: "taker (pcs(p \<mapsto> PcTake st a)) t q \<longleftrightarrow> (if q = p then snd a = t else taker pcs t q)" for t q
    by (simp add: taker_upd)
  show ?thesis
    unfolding output_owned_def fst_conv snd_conv
  proof (intro conjI allI impI)
    fix i t q assume ea: "ea = Some (i, t)"
    then have "ex t" "\<not> taker pcs t q" using output_ownedD(1) [OF o, of i t q] by auto
    then show "(ex(snd a := True)) t" "\<not> taker (pcs(p \<mapsto> PcTake st a)) t q" using assms(2) by (auto simp: t)
  next
    fix t q assume q: "taker (pcs(p \<mapsto> PcTake st a)) t q"
    then show "(ex(snd a := True)) t" using output_ownedD(2) [OF o] unfolding t by (auto split: if_splits)
    fix q' assume "taker (pcs(p \<mapsto> PcTake st a)) t q'"
    with q show "q' = q" using no output_ownedD(3) [OF o] unfolding t by (metis (full_types))
  next
    fix t assume "(ex(snd a := True)) t"
    then have "t = snd a \<or> ex t" by (auto split: if_splits)
    then show "(\<exists>i. ea = Some (i, t)) \<or> (\<exists>q. taker (pcs(p \<mapsto> PcTake st a)) t q)"
    proof (cases "t = snd a")
      case True
      then show ?thesis unfolding t by auto
    next
      case False
      with \<open>t = snd a \<or> ex t\<close> have "(\<exists>i. ea = Some (i, t)) \<or> (\<exists>q. taker pcs t q)"
        using output_ownedD(4) [OF o, of t] by simp
      then show ?thesis using p unfolding t by metis
    qed
  qed
qed

lemma owned_take:
  assumes o: "output_owned (excl r) pcs" and p: "pcs p = Some (PcTake st a)"
    and step: "take_exclusive p a r = (ok, r')" and c: "\<And>st a. c \<noteq> PcTake st a"
  shows "output_owned (excl r') (pcs(p \<mapsto> c))"
proof -
  obtain i s where a: "a = (i, s)" by (cases a)
  have tp: "taker pcs s p" using p a by (simp add: taker_def)
  have s1: "exclusive r s" using output_ownedD(2) [OF o tp] by (simp add: excl_def)
  have s2: "taker pcs s q \<Longrightarrow> q = p" for q by (rule output_ownedD(3) [OF o tp])
  have s3: "exclusiveAttachment r \<noteq> Some (j, s)" for j
    using output_ownedD(1) [OF o, of j s p] tp by (auto simp: excl_def)
  note s = s1 s2 s3
  have t: "taker (pcs(p \<mapsto> c)) u q \<longleftrightarrow> q \<noteq> p \<and> taker pcs u q" for u q
    using c by (auto simp: taker_upd)
  have only: "taker pcs u p \<Longrightarrow> u = s" for u using p a by (simp add: taker_def)
  show ?thesis
  proof (cases "active r \<noteq> Some p \<or> attachment r \<noteq> Some a")
    case True
    then have r': "excl r' = (exclusiveAttachment r, (exclusive r)(s := False))"
      using step a by (auto simp: take_exclusive_def releaseMediaAttachment_def excl_def)
    show ?thesis
      unfolding output_owned_def r' fst_conv snd_conv t
    proof (intro conjI allI impI)
      fix j u q assume ea: "exclusiveAttachment r = Some (j, u)"
      then have "u \<noteq> s" using s(3) by blast
      then show "((exclusive r)(s := False)) u" using output_ownedD(1) [OF o, of j u q] ea by (simp add: excl_def)
      show "\<not> (q \<noteq> p \<and> taker pcs u q)" using output_ownedD(1) [OF o, of j u q] ea by (simp add: excl_def)
    next
      fix u q assume q: "q \<noteq> p \<and> taker pcs u q"
      then have "u \<noteq> s" using s(2) by blast
      then show "((exclusive r)(s := False)) u" using output_ownedD(2) [OF o, of u q] q by (simp add: excl_def)
      fix q' assume "q' \<noteq> p \<and> taker pcs u q'"
      with q show "q' = q" using output_ownedD(3) [OF o] by blast
    next
      fix u assume "((exclusive r)(s := False)) u"
      then have u: "u \<noteq> s" "exclusive r u" by (auto split: if_splits)
      then have "(\<exists>j. exclusiveAttachment r = Some (j, u)) \<or> (\<exists>q. taker pcs u q)"
        using output_ownedD(4) [OF o, of u] by (simp add: excl_def)
      then show "(\<exists>j. exclusiveAttachment r = Some (j, u)) \<or> (\<exists>q. q \<noteq> p \<and> taker pcs u q)"
        using only u(1) by metis
    qed
  next
    case False
    define ex where "ex = (case exclusiveAttachment r of None \<Rightarrow> exclusive r | Some (_, u) \<Rightarrow> (exclusive r)(u := False))"
    have r': "excl r' = (Some a, ex)"
      using step a False s(3)
      by (auto simp: take_exclusive_def releaseMediaAttachment_def excl_def setExclusiveHeld_def on_playback_def Let_def ex_def
          split: option.splits if_splits)
    have ex: "ex u \<longleftrightarrow> exclusive r u \<and> (\<forall>j. exclusiveAttachment r \<noteq> Some (j, u))" for u
      by (auto simp: ex_def split: option.splits)
    have free: "taker pcs u q \<Longrightarrow> exclusiveAttachment r \<noteq> Some (j, u)" for u q j
      using output_ownedD(1) [OF o, of j u q] by (auto simp: excl_def)
    show ?thesis
      unfolding output_owned_def r' fst_conv snd_conv t
    proof (intro conjI allI impI)
      fix j u q assume "Some a = Some (j, u)"
      then have u: "u = s" using a by simp
      then show "ex u" using s by (simp add: ex)
      show "\<not> (q \<noteq> p \<and> taker pcs u q)" using s(2) u by blast
    next
      fix u q assume q: "q \<noteq> p \<and> taker pcs u q"
      then show "ex u" using output_ownedD(2) [OF o, of u q] free [of u q] by (simp add: ex excl_def)
      fix q' assume "q' \<noteq> p \<and> taker pcs u q'"
      with q show "q' = q" using output_ownedD(3) [OF o] by blast
    next
      fix u assume "ex u"
      then have u: "exclusive r u" "\<forall>j. exclusiveAttachment r \<noteq> Some (j, u)" by (simp_all add: ex)
      then obtain q where q: "taker pcs u q" using output_ownedD(4) [OF o, of u] by (auto simp: excl_def)
      show "(\<exists>j. Some a = Some (j, u)) \<or> (\<exists>q. q \<noteq> p \<and> taker pcs u q)"
        using q only a by (cases "q = p") auto
    qed
  qed
qed

text \<open>The numbers of playbacks are fresh.\<close>

definition spawn_ok :: "player \<Rightarrow> (media_error + nat option) \<times> player \<Rightarrow> bool" where
  "spawn_ok r er \<longleftrightarrow> (case case_sum (\<lambda>_. None) id (fst er) of None \<Rightarrow> nextPlayback (snd er) = nextPlayback r
     | Some p \<Rightarrow> p = nextPlayback r \<and> nextPlayback (snd er) = Suc (nextPlayback r))"

lemmas next_simps = setExclusiveHeld_def on_playback_def setPaused_def stopOldPlayback_def releaseMediaAttachment_def
  replaceActivePlaybackLocked_def newActiveMediaPlayback_def start_track_def

lemma spawn_error [simp]: "spawn_ok r (Inl e, r)" "spawn_ok r (Inr None, r)"
  by (simp_all add: spawn_ok_def)

lemma spawn_Replace: "spawn_ok r (ReplaceStandaloneQueueAndPlay up now ids sources i cfg r)"
  by (auto simp: spawn_ok_def ReplaceStandaloneQueueAndPlay_def Stop_def Let_def next_simps split: option.split prod.split)

lemma spawn_Index: "spawn_ok r (PlayAgentPlaylistIndex now agentID i cfg r)"
  by (auto simp: spawn_ok_def PlayAgentPlaylistIndex_def Let_def next_simps split: option.split prod.split)

lemma spawn_List: "spawn_ok r (PlayAgentPlaylist now agentID cfg r)"
  by (simp add: PlayAgentPlaylist_def Let_def spawn_Index)

lemma spawn_jump: "spawn_ok r (jumpToRelative now d cfg r)"
  by (simp add: jumpToRelative_def Let_def spawn_Index)

lemma next_recoverActive: "nextPlayback (snd (recoverActivePlayback now r)) = nextPlayback r"
  by (auto simp: recoverActivePlayback_def next_simps split: option.split bool.split)

lemma spawn_Recover: "spawn_ok r (RecoverPlayback up now ids cfg trigger r)"
proof -
  have "spawn_ok r (as_result (recoverActivePlayback now r))"
    using next_recoverActive [of now r] by (simp add: spawn_ok_def as_result_def split: option.split)
  moreover have "spawn_ok r (Inr None, r\<lparr>resumeOnAttach := False\<rparr>)" by (simp add: spawn_ok_def)
  ultimately show ?thesis
    by (simp add: RecoverPlayback_def Let_def spawn_Index spawn_Replace split: option.split)
qed

lemma next_control:
  assumes "control_step up now ids c r = (spawned, r')"
  shows "(case spawned of None \<Rightarrow> nextPlayback r' = nextPlayback r
     | Some p \<Rightarrow> p = nextPlayback r \<and> nextPlayback r' = Suc (nextPlayback r))"
proof -
  let ?ok = "case spawned of None \<Rightarrow> nextPlayback r' = nextPlayback r
     | Some p \<Rightarrow> p = nextPlayback r \<and> nextPlayback r' = Suc (nextPlayback r)"
  have sp: ?ok if "spawn_ok r er" "map_prod (case_sum (\<lambda>_. None) id) id er = (spawned, r')" for er
    using that by (cases er) (auto simp: spawn_ok_def split: option.splits)
  have pau: "nextPlayback (snd (pausePlayback now req reason r)) = nextPlayback r" for req reason
    by (auto simp: pausePlayback_def Let_def next_simps split: option.split prod.split)
  have rip: "nextPlayback (snd (ResumeIfInterruptedPause now r)) = nextPlayback r"
    using next_recoverActive [of now r] by (auto simp: ResumeIfInterruptedPause_def split: option.splits prod.splits)
  show ?thesis
  proof (cases c)
    case (CReplace sources i cfg)
    show ?thesis by (rule sp [OF spawn_Replace]) (use assms CReplace in \<open>simp\<close>)
  next
    case (CPlayIndex agentID i cfg)
    show ?thesis by (rule sp [OF spawn_Index]) (use assms CPlayIndex in \<open>simp\<close>)
  next
    case (CPlayList agentID cfg)
    show ?thesis by (rule sp [OF spawn_List]) (use assms CPlayList in \<open>simp\<close>)
  next
    case (CRecover cfg trigger)
    show ?thesis by (rule sp [OF spawn_Recover]) (use assms CRecover in \<open>simp\<close>)
  next
    case (CNext cfg)
    show ?thesis by (rule sp [OF spawn_jump]) (use assms CNext in \<open>simp add: Next_def\<close>)
  next
    case (CPrev cfg)
    show ?thesis by (rule sp [OF spawn_jump]) (use assms CPrev in \<open>simp add: Prev_def\<close>)
  next
    case CStop
    then show ?thesis using assms by (auto simp: Stop_def Let_def next_simps split: option.split prod.split)
  next
    case (CAppend agentID)
    then show ?thesis using assms
      by (auto simp: AppendCurrentToAgentPlaylist_def appendToAgentPlaylist_def Let_def split: option.split)
  next
    case CGetState
    then show ?thesis using assms by (auto simp: GetState_def refreshPublicStateLocked_def Let_def)
  next
    case (CAttach session)
    then show ?thesis using assms by (auto simp: attachSession_def notifyAttachmentChangedLocked_def Let_def)
  next
    case (CDetach session preserve)
    then show ?thesis using assms
      by (auto simp: detachSession_def notifyAttachmentChangedLocked_def Let_def next_simps split: option.split prod.split)
  qed (use assms next_recoverActive [of now r] pau rip in \<open>auto simp: Pause_def Suspend_def Resume_def\<close>)
qed

lemma next_play: "play_step up now p ans c r = Some (c', r') \<Longrightarrow> nextPlayback r' = nextPlayback r"
proof -
  assume step: "play_step up now p ans c r = Some (c', r')"
  have fail: "nextPlayback (handleAttachmentFailure now p a r) = nextPlayback r" for a r
    by (cases a) (auto simp: handleAttachmentFailure_def notifyAttachmentChangedLocked_def Let_def next_simps)
  have beg: "nextPlayback (snd (BeginExclusiveMediaPlayback s b r)) = nextPlayback r" for s b
    by (simp add: BeginExclusiveMediaPlayback_def)
  have out: "nextPlayback r' = nextPlayback r"
    if "output_step now p ans st a r (c1, r1) = Some (c', r')" "nextPlayback r1 = nextPlayback r" for st a c1 r1
    using that fail [of a r] by (cases ans) auto
  have inc: "nextPlayback (incrementPlaybackPosition now p d r) = nextPlayback r" for d
    by (simp add: incrementPlaybackPosition_def)
  have prep: "nextPlayback (snd (prepareTrack now p i r)) = nextPlayback r" for i
    by (auto simp: prepareTrack_def Let_def refreshPublicStateLocked_def)
  have adv: "nextPlayback (snd (advanceAfterTrack now p i r)) = nextPlayback r" for i
    by (auto simp: advanceAfterTrack_def Let_def refreshPublicStateLocked_def end_playback_def)
  show ?thesis
  proof (cases c)
    case (PcPrepare i)
    then show ?thesis using step prep [of i] by (auto split: prod.splits option.splits)
  next
    case (PcOpen i item)
    then show ?thesis using step by (cases ans) (auto split: if_splits)
  next
    case (PcReceive st)
    then show ?thesis using step by (cases ans) (auto simp: wait_if_paused_def split: if_splits)
  next
    case (PcAttach st)
    then show ?thesis using step by (cases "attachment r") (auto split: if_splits)
  next
    case (PcBegin st a)
    then show ?thesis using step beg [of "snd a" True] beg [of "snd a" False] fail [of a]
      by (cases ans) (auto split: prod.splits bool.splits if_splits)
  next
    case (PcTake st a)
    have "nextPlayback (snd (take_exclusive p a r)) = nextPlayback r"
      by (cases a) (auto simp: take_exclusive_def Let_def next_simps split: option.split prod.split)
    then show ?thesis using step PcTake by (auto split: prod.splits bool.splits)
  next
    case (PcSentence st a)
    then show ?thesis using step out [of st a _ r] by (auto split: if_splits)
  next
    case (PcSend st a)
    then show ?thesis using step out [of st a _ _, OF _ inc] by auto
  next
    case (PcSentenceEnd st)
    then show ?thesis using step fail by (cases "active r = Some p"; cases "attachment r"; cases ans) (auto split: if_splits)
  next
    case (PcAwaitEnd st a)
    then show ?thesis using step by (cases ans) (auto split: if_splits)
  next
    case (PcAdvance i)
    then show ?thesis using step adv [of i] by (auto split: prod.splits option.splits)
  next
    case PcCancelled
    then show ?thesis using step by (auto simp: markPlaybackStopped_def refreshPublicStateLocked_def end_playback_def Let_def)
  next
    case (PcFailed e)
    then show ?thesis using step by (auto simp: markPlaybackError_def refreshPublicStateLocked_def end_playback_def Let_def)
  next
    case PcRelease
    then show ?thesis using step by (auto simp: releaseExclusivePlayback_def next_simps split: option.split prod.split)
  qed (use step in \<open>auto simp: wait_if_paused_def on_playback_def split: if_splits\<close>)
qed

definition owned_system :: "psys \<Rightarrow> bool" where
  "owned_system s \<longleftrightarrow> output_owned (excl (fst s)) (snd s) \<and> (\<forall>p. snd s p \<noteq> None \<longrightarrow> p < nextPlayback (fst s))"

lemma owned_play:
  assumes o: "output_owned (excl r) pcs" and c: "pcs p = Some c" and step: "play_step up now p ans c r = Some (c', r')"
  shows "output_owned (excl r') (pcs(p \<mapsto> c'))"
proof -
  have untaken: "\<not> taker pcs s p" if "\<And>st a. c \<noteq> PcTake st a" for s using c that by (simp add: taker_def)
  show ?thesis
  proof (cases c)
    case (PcBegin st a)
    have un: "\<not> taker pcs s p" for s by (rule untaken) (simp add: PcBegin)
    have failed: "keeps_or_drops r (handleAttachmentFailure now p a r)" by (rule keeps_failure)
    show ?thesis
    proof (cases "ans = Proceed \<and> \<not> exclusive r (snd a)")
      case True
      then have "c' = PcTake st a" "excl r' = (exclusiveAttachment r, (exclusive r)(snd a := True))"
        using step PcBegin by (auto simp: BeginExclusiveMediaPlayback_def excl_def)
      then show ?thesis using owned_begin [of "exclusiveAttachment r" "exclusive r" pcs a p st] o un True
        by (simp add: excl_def)
    next
      case False
      have same: "excl (snd (BeginExclusiveMediaPlayback s b r)) = excl r" if "exclusive r s \<or> \<not> b" for s b
        using that by (auto simp: BeginExclusiveMediaPlayback_def excl_def fun_upd_idem)
      have "keeps_or_drops r r' \<and> (\<forall>st a. c' \<noteq> PcTake st a)"
      proof (cases ans)
        case Proceed
        then have "exclusive r (snd a)" using False by simp
        then show ?thesis using step PcBegin Proceed failed by (auto simp: BeginExclusiveMediaPlayback_def)
      next
        case (Fails e)
        have "keeps_or_drops r (handleAttachmentFailure now p a (snd (BeginExclusiveMediaPlayback (snd a) False r)))"
          using keeps_failure [of "snd (BeginExclusiveMediaPlayback (snd a) False r)" now p a] same [of "snd a" False]
          by (simp add: keeps_or_drops_def)
        then show ?thesis using step PcBegin Fails by auto
      next
        case CtxDone
        then show ?thesis using step PcBegin same [of "snd a" False] by (auto simp: keeps_or_drops_def split: if_splits)
      qed (use step PcBegin in auto)
      then show ?thesis using owned_move [OF owned_keeps [OF _ o] un] by blast
    qed
  next
    case (PcTake st a)
    obtain ok r1 where t: "take_exclusive p a r = (ok, r1)" by fastforce
    then have r1: "r' = r1" and c': "\<And>st a. c' \<noteq> PcTake st a" using step PcTake by (auto split: bool.splits)
    have "pcs p = Some (PcTake st a)" using c PcTake by simp
    from owned_take [OF o this t c'] r1 show ?thesis by simp
  qed (use owned_move [OF owned_keeps [OF _ o] untaken, of r' c'] play_keeps [OF step] in auto)
qed

lemma owned_reachable: "reachable up s \<Longrightarrow> owned_system s"
proof (induction rule: reachable.induct)
  case (init now)
  then show ?case by (simp add: owned_system_def output_owned_def excl_def newDeviceMediaRuntime_def taker_def)
next
  case (step s act s')
  from step.hyps(2) step.IH show ?case
  proof (cases rule: psys_step.cases)
    case (control now ids c r spawned r' pcs)
    have o: "output_owned (excl r') pcs"
      using owned_keeps [OF keeps_control [OF control(4)]] step.IH control(1) by (simp add: owned_system_def)
    note n = next_control [OF control(4)]
    show ?thesis
    proof (cases spawned)
      case None
      then show ?thesis using o n step.IH control(1,3) by (simp add: owned_system_def)
    next
      case (Some p)
      have "pcs p = None" using step.IH control(1) n Some by (auto simp: owned_system_def)
      then have "output_owned (excl r') (pcs(p \<mapsto> PcStart))" by (intro owned_move [OF o]) (simp_all add: taker_def)
      then show ?thesis using n Some step.IH control(1,3) by (fastforce simp: owned_system_def less_Suc_eq)
    qed
  next
    case (run pcs p c now ans r c' r')
    then show ?thesis using owned_play [of r pcs p c up now ans c' r'] next_play [of up now p ans c r c' r'] step.IH
      by (auto simp: owned_system_def)
  next
    case (late r pcs p a now)
    have "nextPlayback (handleAttachmentFailure now p a r) = nextPlayback r"
      by (cases a) (auto simp: handleAttachmentFailure_def notifyAttachmentChangedLocked_def Let_def next_simps)
    then show ?thesis using late owned_keeps [OF keeps_failure [of r now p a]] step.IH by (simp add: owned_system_def)
  next
    case (other r pcs agentID source now new_id)
    then show ?thesis using step.IH
      by (auto simp: owned_system_def appendToAgentPlaylist_def Let_def excl_def)
  qed
qed

section \<open>Properties\<close>


section \<open>The state of the runtime\<close>

definition queue_len :: "player \<Rightarrow> int" where
  "queue_len r = int (length (currentPlaybackQueueLocked r))"

definition playback_ok :: "nat \<Rightarrow> player \<Rightarrow> bool" where
  "playback_ok p r \<longleftrightarrow> p < nextPlayback r \<and> \<not> cancelled (playbacks r p)
     \<and> 0 \<le> playbackIndex r \<and> playbackIndex r < queue_len r
     \<and> (Status r = StatusPaused \<or> resumeOnAttach r \<or> pauseReason r \<noteq> ReasonNone \<longrightarrow> paused (playbacks r p))
     \<and> (Status r = StatusPlaying \<or> Status r = StatusPaused) \<and> currentSource r \<noteq> None"

definition runtime_ok :: "player \<Rightarrow> bool" where
  "runtime_ok r \<longleftrightarrow>
     (case active r of
        None \<Rightarrow> pauseReason r = ReasonNone \<and> \<not> resumeOnAttach r \<and> Status r \<in> {StatusIdle, StatusStopped, StatusError}
      | Some p \<Rightarrow> playback_ok p r)"

lemma queue_length: "queue_len r =
    (if mode r = AgentPlaylist then int (length (snapshotAgentPlaylist (playlistAgentID r) r)) else int (length (standaloneItems r)))"
  by (simp add: queue_len_def currentPlaybackQueueLocked_def cloneMediaPlaylistItems_def)

lemma snapshot_cong: "playlists r' = playlists r \<Longrightarrow> snapshotAgentPlaylist a r' = snapshotAgentPlaylist a r"
  by (simp add: snapshotAgentPlaylist_def Let_def)

lemma queue_len_cong: "mode r' = mode r \<Longrightarrow> playlistAgentID r' = playlistAgentID r \<Longrightarrow> standaloneItems r' = standaloneItems r \<Longrightarrow>
    playlists r' = playlists r \<Longrightarrow> queue_len r' = queue_len r"
  using snapshot_cong [of r' r] by (simp add: queue_length)

lemma snapshot_trim [simp]: "snapshotAgentPlaylist (TrimSpace a) r = snapshotAgentPlaylist a r"
  by (simp add: snapshotAgentPlaylist_def)

text \<open>The fields the invariant looks at.\<close>

definition same_track :: "player \<Rightarrow> player \<Rightarrow> bool" where
  "same_track r r' \<longleftrightarrow> active r' = active r \<and> nextPlayback r' = nextPlayback r \<and> playbackIndex r' = playbackIndex r
     \<and> mode r' = mode r \<and> playlistAgentID r' = playlistAgentID r \<and> standaloneItems r' = standaloneItems r
     \<and> playlists r' = playlists r \<and> currentSource r' = currentSource r
     \<and> Status r' = Status r \<and> resumeOnAttach r' = resumeOnAttach r \<and> pauseReason r' = pauseReason r
     \<and> (\<forall>p. paused (playbacks r' p) = paused (playbacks r p) \<and> (active r = Some p \<longrightarrow> cancelled (playbacks r' p) = cancelled (playbacks r p)))"

lemma same_track_ok: "same_track r r' \<Longrightarrow> runtime_ok r \<Longrightarrow> runtime_ok r'"
  using queue_len_cong [of r' r]
  by (cases "active r") (auto simp: same_track_def runtime_ok_def playback_ok_def)

lemma same_track_trans: "same_track r r' \<Longrightarrow> same_track r' r'' \<Longrightarrow> same_track r r''"
  by (simp add: same_track_def)

lemma same_release [simp]: "same_track r (releaseMediaAttachment a r)"
  by (simp add: same_track_def releaseMediaAttachment_def split: option.split prod.split)

lemma same_held [simp]: "same_track r (setExclusiveHeld p b r)"
  by (simp add: same_track_def setExclusiveHeld_def on_playback_def)

lemma same_exclusive [simp]: "same_track r (r\<lparr>exclusiveAttachment := a\<rparr>)" "same_track r (r\<lparr>attachment := b\<rparr>)"
  "same_track r (notifyAttachmentChangedLocked r)" "same_track r r"
  by (simp_all add: same_track_def notifyAttachmentChangedLocked_def)

lemma same_refresh [simp]: "same_track r (refreshPublicStateLocked r)"
  by (simp add: same_track_def refreshPublicStateLocked_def Let_def)

lemma same_stop: "p = None \<or> active r \<noteq> p \<Longrightarrow> same_track r (stopOldPlayback p r)"
  by (cases p) (auto simp: same_track_def stopOldPlayback_def on_playback_def)

lemma ok_idle: "active r = None \<Longrightarrow> runtime_ok r \<Longrightarrow> pauseReason r = ReasonNone \<and> \<not> resumeOnAttach r \<and> Status r \<in> {StatusIdle, StatusStopped, StatusError}"
  by (simp add: runtime_ok_def)

lemma ok_active: "runtime_ok r \<Longrightarrow> active r = Some p \<Longrightarrow> playback_ok p r"
  by (simp add: runtime_ok_def)

text \<open>Starting a track on a new playback.\<close>

lemma started_ok:
  assumes r: "runtime_ok r"
    and new: "newActiveMediaPlayback r = (p, r1)" and repl: "replaceActivePlaybackLocked (Some p) r1 = (old, ex, r2)"
    and q: "0 \<le> i" "i < queue_len r3" and i: "playbackIndex r3 = i"
    and r3: "active r3 = active r2" "nextPlayback r3 = nextPlayback r2" "playbacks r3 = playbacks r2"
    and r4: "\<exists>pl ci. r4 = (start_track now item r3)\<lparr>Playlist := pl, CurrentIndex := ci\<rparr>"
  shows "runtime_ok (stopOldPlayback old (releaseMediaAttachment ex r4))"
proof -
  have p: "p = nextPlayback r" "r1 = (on_playback p (\<lambda>_. fresh_playback) r)\<lparr>nextPlayback := Suc p\<rparr>"
    using new by (auto simp: newActiveMediaPlayback_def)
  have old: "old = active r" "active r2 = Some p" "nextPlayback r2 = Suc p"
    and pb: "paused (playbacks r2 p) = False" "cancelled (playbacks r2 p) = False"
    using repl p by (auto simp: replaceActivePlaybackLocked_def Let_def setExclusiveHeld_def on_playback_def fresh_playback_def
        split: option.splits if_splits)
  obtain pl ci where r4: "r4 = (start_track now item r3)\<lparr>Playlist := pl, CurrentIndex := ci\<rparr>" using r4 by blast
  have "queue_len r4 = queue_len r3" by (rule queue_len_cong) (simp_all add: r4 start_track_def)
  then have "runtime_ok r4"
    using q i r3 old pb by (simp add: runtime_ok_def playback_ok_def r4 start_track_def)
  then have "runtime_ok (releaseMediaAttachment ex r4)" using same_track_ok [OF same_release] by blast
  moreover have "active (releaseMediaAttachment ex r4) \<noteq> old"
    using old(1,2) r3(1) ok_active [OF r, of p] p(1)
    by (auto simp: r4 start_track_def releaseMediaAttachment_def playback_ok_def split: option.split prod.split)
  ultimately show ?thesis using same_track_ok [OF same_stop [OF disjI2]] by blast
qed

lemma Stop_ok: "runtime_ok r \<Longrightarrow> runtime_ok (Stop now r)"
proof -
  let ?r = "(case active r of None \<Rightarrow> r | Some p \<Rightarrow> setExclusiveHeld p False r)\<lparr>active := None, pauseReason := ReasonNone,
     exclusiveAttachment := None, resumeOnAttach := False, Status := StatusStopped, PositionMs := 0, ErrMsg := [], UpdatedAt := now\<rparr>"
  have "runtime_ok ?r" by (simp add: runtime_ok_def)
  then have "runtime_ok (releaseMediaAttachment (exclusiveAttachment r) ?r)" using same_track_ok [OF same_release] by blast
  moreover have "active (releaseMediaAttachment (exclusiveAttachment r) ?r) = None"
    by (simp add: releaseMediaAttachment_def split: option.split prod.split)
  ultimately have "runtime_ok (stopOldPlayback (active r) (releaseMediaAttachment (exclusiveAttachment r) ?r))"
    using same_track_ok [OF same_stop] by (metis option.distinct(1))
  then show ?thesis by (simp add: Stop_def Let_def)
qed

lemma Replace_ok: "runtime_ok r \<Longrightarrow> runtime_ok (snd (ReplaceStandaloneQueueAndPlay up now ids sources i cfg r))"
proof (cases "sources = [] \<or> i < 0 \<or> i \<ge> int (length sources)")
  case True
  then show "runtime_ok r \<Longrightarrow> ?thesis" using Stop_ok by (auto simp: ReplaceStandaloneQueueAndPlay_def)
next
  case False
  assume r: "runtime_ok r"
  let ?items = "buildMediaPlaylistItems up now ids sources"
  obtain p r1 where new: "newActiveMediaPlayback r = (p, r1)" by fastforce
  obtain old ex r2 where repl: "replaceActivePlaybackLocked (Some p) r1 = (old, ex, r2)" by (metis prod_cases3)
  let ?r3 = "r2\<lparr>mode := Standalone, playlistAgentID := [], standaloneItems := cloneMediaPlaylistItems ?items,
      playbackIndex := i, audioConfig := normalizeMediaPlaybackAudioConfig cfg (audioConfig r2)\<rparr>"
  have "length ?items = length sources" by (simp add: buildMediaPlaylistItems_def)
  then have "i < queue_len ?r3"
    using False by (simp add: queue_length cloneMediaPlaylistItems_def)
  then have "runtime_ok (stopOldPlayback old (releaseMediaAttachment ex
      ((start_track now (?items ! nat i) ?r3)\<lparr>Playlist := [], CurrentIndex := -1\<rparr>)))"
    using False by (intro started_ok [OF r new repl, of i ?r3]) auto
  then show ?thesis using False new repl by (simp add: ReplaceStandaloneQueueAndPlay_def Let_def)
qed

lemma Index_ok: "runtime_ok r \<Longrightarrow> runtime_ok (snd (PlayAgentPlaylistIndex now agentID i cfg r))"
proof (cases "TrimSpace agentID = [] \<or> snapshotAgentPlaylist agentID r = [] \<or> i < 0 \<or> i \<ge> int (length (snapshotAgentPlaylist agentID r))")
  case True
  then show "runtime_ok r \<Longrightarrow> ?thesis" by (auto simp: PlayAgentPlaylistIndex_def Let_def)
next
  case False
  assume r: "runtime_ok r"
  obtain p r1 where new: "newActiveMediaPlayback r = (p, r1)" by fastforce
  obtain old ex r2 where repl: "replaceActivePlaybackLocked (Some p) r1 = (old, ex, r2)" by (metis prod_cases3)
  let ?r3 = "r2\<lparr>mode := AgentPlaylist, playlistAgentID := TrimSpace agentID, standaloneItems := [],
      playbackIndex := i, audioConfig := normalizeMediaPlaybackAudioConfig cfg (audioConfig r2)\<rparr>"
  have "playlists ?r3 = playlists r"
    using new repl by (auto simp: newActiveMediaPlayback_def replaceActivePlaybackLocked_def Let_def setExclusiveHeld_def
        on_playback_def split: option.splits)
  then have "i < queue_len ?r3"
    using False snapshot_cong [of ?r3 r] by (simp add: queue_length)
  then have "runtime_ok (stopOldPlayback old (releaseMediaAttachment ex
      ((start_track now (snapshotAgentPlaylist agentID r ! nat i) ?r3)
         \<lparr>Playlist := cloneMediaPlaylistItems (snapshotAgentPlaylist agentID r), CurrentIndex := i\<rparr>)))"
    using False by (intro started_ok [OF r new repl, of i ?r3]) auto
  then show ?thesis using False new repl by (simp add: PlayAgentPlaylistIndex_def Let_def)
qed

lemma List_ok: "runtime_ok r \<Longrightarrow> runtime_ok (snd (PlayAgentPlaylist now agentID cfg r))"
  by (simp add: PlayAgentPlaylist_def Let_def Index_ok)

lemma jump_ok: "runtime_ok r \<Longrightarrow> runtime_ok (snd (jumpToRelative now d cfg r))"
  by (simp add: jumpToRelative_def Let_def Index_ok)

lemma pause_ok: "runtime_ok r \<Longrightarrow> runtime_ok (snd (pausePlayback now req reason r))"
proof (cases "active r")
  case (Some p)
  assume r: "runtime_ok r"
  let ?r = "(setExclusiveHeld p False ((snd (setPaused p True r))\<lparr>exclusiveAttachment := None\<rparr>))
    \<lparr>pauseReason := reason, resumeOnAttach := False, Status := StatusPaused, UpdatedAt := now\<rparr>"
  have "queue_len ?r = queue_len r"
    by (rule queue_len_cong) (simp_all add: setExclusiveHeld_def setPaused_def on_playback_def)
  then have "runtime_ok ?r"
    using ok_active [OF r Some] Some
    by (simp add: runtime_ok_def playback_ok_def setExclusiveHeld_def setPaused_def on_playback_def)
  moreover have "exclusiveAttachment (snd (setPaused p True r)) = exclusiveAttachment r" by (simp add: setPaused_def on_playback_def)
  ultimately show ?thesis using Some same_track_ok [OF same_release] by (simp add: pausePlayback_def Let_def)
qed (simp add: pausePlayback_def)

lemma recoverActive_ok: "runtime_ok r \<Longrightarrow> runtime_ok (snd (recoverActivePlayback now r))"
proof (cases "active r")
  case (Some p)
  assume r: "runtime_ok r"
  note ok = ok_active [OF r Some]
  let ?u = "snd (setPaused p False r)"
  have u: "active ?u = Some p" using Some by (simp add: setPaused_def on_playback_def)
  show ?thesis
  proof (cases "attachment r = None")
    case True
    then show ?thesis using Some r by (simp add: recoverActivePlayback_def)
  next
    case False
    then show ?thesis
    proof (cases "paused (playbacks r p)")
      case True
      let ?r = "?u\<lparr>pauseReason := ReasonNone, resumeOnAttach := False, Status := StatusPlaying, UpdatedAt := now\<rparr>"
      have "queue_len ?r = queue_len r" by (rule queue_len_cong) (simp_all add: setPaused_def on_playback_def)
      then have "runtime_ok ?r"
        using ok Some by (simp add: runtime_ok_def playback_ok_def setPaused_def on_playback_def)
      then show ?thesis using Some \<open>attachment r \<noteq> None\<close> True by (auto simp: recoverActivePlayback_def setPaused_def split: bool.split)
    next
      case unpaused: False
      let ?r = "?u\<lparr>resumeOnAttach := False\<rparr>"
      have "queue_len ?r = queue_len r" by (rule queue_len_cong) (simp_all add: setPaused_def on_playback_def)
      then have "runtime_ok ?r"
        using ok Some unpaused by (auto simp: runtime_ok_def playback_ok_def setPaused_def on_playback_def)
      then show ?thesis using Some \<open>attachment r \<noteq> None\<close> unpaused by (auto simp: recoverActivePlayback_def setPaused_def split: bool.split)
    qed
  qed
qed (simp add: recoverActivePlayback_def)

lemma Recover_ok: "runtime_ok r \<Longrightarrow> runtime_ok (snd (RecoverPlayback up now ids cfg trigger r))"
proof -
  assume r: "runtime_ok r"
  have "queue_len (r\<lparr>resumeOnAttach := False\<rparr>) = queue_len r" by (rule queue_len_cong) simp_all
  then have "runtime_ok (r\<lparr>resumeOnAttach := False\<rparr>)"
    using r by (cases "active r") (auto simp: runtime_ok_def playback_ok_def)
  then show ?thesis
    using r Replace_ok Index_ok recoverActive_ok
    by (simp add: RecoverPlayback_def as_result_def Let_def split: option.split)
qed

lemma ResumeInterrupted_ok: "runtime_ok r \<Longrightarrow> runtime_ok (snd (ResumeIfInterruptedPause now r))"
  using recoverActive_ok [of r now] by (auto simp: ResumeIfInterruptedPause_def split: option.splits prod.splits)

lemma appended_length:
  "appendToAgentPlaylist up now new_id agentID source r = (Some (item, index, snapshot), r') \<Longrightarrow>
     TrimSpace agentID \<noteq> [] \<and> snapshot = snapshotAgentPlaylist agentID r' \<and> index = int (length snapshot) - 1 \<and> snapshot \<noteq> []
     \<and> length (snapshotAgentPlaylist b r) \<le> length (snapshotAgentPlaylist b r')"
  by (auto simp: appendToAgentPlaylist_def Let_def snapshotAgentPlaylist_def cloneMediaPlaylistItems_def split: if_splits option.split)

lemma appended_only:
  "\<exists>pl. snd (appendToAgentPlaylist up now new_id agentID source r) = r\<lparr>playlists := pl\<rparr>"
proof -
  have "\<exists>pl. r = r\<lparr>playlists := pl\<rparr>" by (rule exI [of _ "playlists r"]) simp
  then show ?thesis by (auto simp: appendToAgentPlaylist_def Let_def)
qed

lemma longer_ok:
  assumes "runtime_ok r" and "queue_len r \<le> queue_len (r\<lparr>playlists := pl\<rparr>)"
  shows "runtime_ok (r\<lparr>playlists := pl\<rparr>)"
  using assms by (cases "active r") (auto simp: runtime_ok_def playback_ok_def)

lemma appended_ok:
  assumes "runtime_ok r"
  shows "runtime_ok (snd (appendToAgentPlaylist up now new_id agentID source r))"
proof -
  obtain pl where pl: "snd (appendToAgentPlaylist up now new_id agentID source r) = r\<lparr>playlists := pl\<rparr>"
    using appended_only by blast
  have "length (snapshotAgentPlaylist b r) \<le> length (snapshotAgentPlaylist b (r\<lparr>playlists := pl\<rparr>))" for b
  proof (cases "fst (appendToAgentPlaylist up now new_id agentID source r)")
    case None
    then show ?thesis using pl by (auto simp: appendToAgentPlaylist_def Let_def split: if_splits)
  next
    case (Some t)
    obtain item index snapshot where "t = (item, index, snapshot)" by (cases t)
    then have "appendToAgentPlaylist up now new_id agentID source r = (Some (item, index, snapshot), r\<lparr>playlists := pl\<rparr>)"
      using Some pl by (metis prod.collapse)
    from appended_length [OF this, of b] show ?thesis by simp
  qed
  then have "queue_len r \<le> queue_len (r\<lparr>playlists := pl\<rparr>)" by (simp add: queue_length)
  then show ?thesis using longer_ok [OF assms] pl by simp
qed

lemma Append_ok:
  assumes r: "runtime_ok r"
  shows "runtime_ok (snd (AppendCurrentToAgentPlaylist up now new_id agentID r))"
proof (cases "currentSource r")
  case None
  then show ?thesis using r by (simp add: AppendCurrentToAgentPlaylist_def Let_def)
next
  case (Some s)
  let ?s = "cloneMediaSourceDescriptor s"
  let ?a = "appendToAgentPlaylist up now new_id (TrimSpace agentID) ?s r"
  show ?thesis
  proof (cases "SourceType ?s = InlineAudio \<or> fst ?a = None")
    case True
    moreover have "snd ?a = r" if "fst ?a = None" using that by (auto simp: appendToAgentPlaylist_def Let_def split: if_splits)
    ultimately show ?thesis using Some r by (cases ?a) (auto simp: AppendCurrentToAgentPlaylist_def Let_def)
  next
    case False
    then obtain item index snapshot r1 where a: "?a = (Some (item, index, snapshot), r1)"
      by (cases ?a) auto
    obtain pl where pl: "r1 = r\<lparr>playlists := pl\<rparr>" using appended_only [of up now new_id "TrimSpace agentID" ?s r] a by auto
    have l: "snapshot = snapshotAgentPlaylist agentID r1" "index = int (length snapshot) - 1" "snapshot \<noteq> []"
      using appended_length [OF a, of agentID] by auto
    have "runtime_ok r1" using appended_ok [OF r, of up now new_id "TrimSpace agentID" ?s] a by simp
    define keep where "keep = (mode r1 = AgentPlaylist \<and> playlistAgentID r1 = TrimSpace agentID
        \<and> 0 \<le> playbackIndex r1 \<and> playbackIndex r1 < int (length snapshot))"
    define target where "target = (if keep then playbackIndex r1 else index)"
    let ?r = "r1\<lparr>mode := AgentPlaylist, playlistAgentID := TrimSpace agentID, playbackIndex := target,
        currentSource := Some (cloneMediaSourceDescriptor ?s), Playlist := cloneMediaPlaylistItems snapshot,
        CurrentIndex := target, CurrentTitle := Title (cloneMediaSourceDescriptor ?s),
        CurrentSourceType := SourceType (cloneMediaSourceDescriptor ?s), UpdatedAt := now\<rparr>"
    have "queue_len ?r = int (length snapshot)"
      using snapshot_cong [of ?r r1] by (simp add: queue_length l(1))
    moreover have "0 < length snapshot" using l(3) by simp
    then have "0 \<le> target \<and> target < int (length snapshot)" using l(2) by (simp add: target_def keep_def)
    ultimately have "runtime_ok ?r"
      using \<open>runtime_ok r1\<close> by (cases "active r1") (auto simp: runtime_ok_def playback_ok_def)
    then show ?thesis
      using Some False a by (simp add: AppendCurrentToAgentPlaylist_def Let_def target_def keep_def)
  qed
qed

lemma attach_ok: "runtime_ok r \<Longrightarrow> runtime_ok (snd (attachSession session r))"
proof -
  assume r: "runtime_ok r"
  have "same_track r (notifyAttachmentChangedLocked (r\<lparr>attachment := Some (nextAttachment r, session), nextAttachment := Suc (nextAttachment r)\<rparr>))"
    by (simp add: same_track_def notifyAttachmentChangedLocked_def)
  then show ?thesis using r same_track_ok by (auto simp: attachSession_def Let_def)
qed

text \<open>A playing playback is paused because its attachment went away.\<close>

definition suspend_for_attach :: "int \<Rightarrow> nat \<Rightarrow> player \<Rightarrow> player" where
  "suspend_for_attach now p r = (snd (setPaused p True r))\<lparr>Status := StatusPaused, UpdatedAt := now, resumeOnAttach := True\<rparr>"

lemma suspend_ok: "runtime_ok r \<Longrightarrow> active r = Some p \<Longrightarrow> runtime_ok (suspend_for_attach now p r)"
proof -
  assume r: "runtime_ok r" and p: "active r = Some p"
  have "queue_len (suspend_for_attach now p r) = queue_len r"
    by (rule queue_len_cong) (simp_all add: suspend_for_attach_def setPaused_def on_playback_def)
  then show ?thesis
    using ok_active [OF r p] p by (simp add: runtime_ok_def playback_ok_def suspend_for_attach_def setPaused_def on_playback_def)
qed

lemma detach_ok:
  assumes r: "runtime_ok r"
  shows "runtime_ok (detachSession now session preserve r)"
proof (cases "attachment r")
  case (Some c)
  show ?thesis
  proof (cases "snd c = session")
    case True
    define r1 where "r1 = (case active r of None \<Rightarrow> r
      | Some p \<Rightarrow> if preserve \<and> Status r = StatusPlaying then suspend_for_attach now p r else r)"
    have ok1: "runtime_ok r1" using r suspend_ok by (simp add: r1_def split: option.split)
    define rel where "rel = (exclusiveAttachment r1 = Some c)"
    define r2 where "r2 = r1\<lparr>attachment := None\<rparr>"
    define r3 where "r3 = (if rel then (case active r2 of None \<Rightarrow> r2 | Some p \<Rightarrow> setExclusiveHeld p False r2)\<lparr>exclusiveAttachment := None\<rparr> else r2)"
    have "same_track r1 r2" by (simp add: r2_def)
    moreover have "same_track r2 r3"
      unfolding r3_def using same_track_trans [OF same_held same_exclusive(1)] by (auto split: option.split)
    moreover have "same_track r3 (releaseMediaAttachment (if rel then Some c else None) (notifyAttachmentChangedLocked r3))"
      using same_track_trans [OF same_exclusive(3) same_release] by blast
    ultimately have "runtime_ok (releaseMediaAttachment (if rel then Some c else None) (notifyAttachmentChangedLocked r3))"
      using ok1 same_track_ok same_track_trans by blast
    moreover have "detachSession now session preserve r
        = releaseMediaAttachment (if rel then Some c else None) (notifyAttachmentChangedLocked r3)"
      using Some True unfolding detachSession_def Let_def r3_def r2_def rel_def r1_def suspend_for_attach_def
      by (simp only: option.case if_True if_False simp_thms refl)
    ultimately show ?thesis by simp
  qed (use Some r in \<open>simp add: detachSession_def\<close>)
qed (use r in \<open>simp add: detachSession_def\<close>)

lemma control_ok: "control_step up now ids c r = (spawned, r') \<Longrightarrow> runtime_ok r \<Longrightarrow> runtime_ok r'"
  using Replace_ok Index_ok List_ok jump_ok Recover_ok pause_ok Stop_ok ResumeInterrupted_ok Append_ok attach_ok detach_ok
    recoverActive_ok same_track_ok [OF same_refresh]
  by (cases c) (auto simp: map_prod_def case_prod_beta Next_def Prev_def Pause_def Suspend_def Resume_def GetState_def)

lemma same_increment: "same_track r (incrementPlaybackPosition now p d r)"
  by (simp add: same_track_def incrementPlaybackPosition_def)

lemma failure_ok:
  assumes r: "runtime_ok r"
  shows "runtime_ok (handleAttachmentFailure now p a r)"
proof (cases "attachment r \<noteq> Some a \<or> active r \<noteq> Some p")
  case False
  define rel where "rel = (exclusiveAttachment r = Some a)"
  define r1 where "r1 = (if rel then setExclusiveHeld p False (r\<lparr>exclusiveAttachment := None\<rparr>) else r)"
  have s: "same_track r r1" unfolding r1_def using same_track_trans [OF same_exclusive(1) same_held] by auto
  have ok1: "runtime_ok r1" using same_track_ok [OF s r] .
  have p: "active r1 = Some p" using False s by (simp add: same_track_def)
  define r2 where "r2 = (if Status r1 = StatusPlaying then suspend_for_attach now p r1 else r1)"
  have ok2: "runtime_ok r2" using suspend_ok [OF ok1 p] ok1 by (simp add: r2_def)
  have "same_track r2 (releaseMediaAttachment (if rel then Some a else None) (notifyAttachmentChangedLocked (r2\<lparr>attachment := None\<rparr>)))"
    using same_track_trans [OF same_track_trans [OF same_exclusive(2) same_exclusive(3)] same_release] by blast
  then have "runtime_ok (releaseMediaAttachment (if rel then Some a else None) (notifyAttachmentChangedLocked (r2\<lparr>attachment := None\<rparr>)))"
    using ok2 same_track_ok by blast
  moreover have "handleAttachmentFailure now p a r
      = releaseMediaAttachment (if rel then Some a else None) (notifyAttachmentChangedLocked (r2\<lparr>attachment := None\<rparr>))"
    using False unfolding handleAttachmentFailure_def Let_def r2_def r1_def rel_def suspend_for_attach_def
    by (simp only: if_False simp_thms refl)
  ultimately show ?thesis by simp
qed (use r in \<open>auto simp: handleAttachmentFailure_def\<close>)

lemma releaseExclusive_ok: "runtime_ok r \<Longrightarrow> runtime_ok (releaseExclusivePlayback p r)"
  using same_track_ok [OF same_track_trans [OF same_track_trans [OF same_exclusive(1) same_held] same_release]]
  by (simp add: releaseExclusivePlayback_def)

lemma take_ok: "runtime_ok r \<Longrightarrow> runtime_ok (snd (take_exclusive p a r))"
  using same_track_ok [OF same_track_trans [OF same_track_trans [OF same_exclusive(1) same_held] same_release]]
    same_track_ok [OF same_release]
  by (simp add: take_exclusive_def Let_def)

lemma begin_ok: "runtime_ok r \<Longrightarrow> runtime_ok (snd (BeginExclusiveMediaPlayback s ok r))"
proof -
  assume r: "runtime_ok r"
  have "same_track r (r\<lparr>exclusive := e\<rparr>)" for e by (simp add: same_track_def)
  then show ?thesis using r same_track_ok by (auto simp: BeginExclusiveMediaPlayback_def)
qed

lemma ended_ok: "status \<in> {StatusStopped, StatusError} \<Longrightarrow> runtime_ok ((end_playback now status r)\<lparr>PositionMs := n, ErrMsg := e\<rparr>)"
  by (auto simp: runtime_ok_def end_playback_def)

lemma marked_ok:
  assumes "runtime_ok r"
  shows "runtime_ok (markPlaybackError now p e r)" and "runtime_ok (markPlaybackStopped now p StatusStopped e r)"
proof -
  have "runtime_ok ((end_playback now s r)\<lparr>ErrMsg := e\<rparr>)" if "s \<in> {StatusStopped, StatusError}" for s
    using that by (auto simp: runtime_ok_def end_playback_def)
  then show "runtime_ok (markPlaybackError now p e r)" "runtime_ok (markPlaybackStopped now p StatusStopped e r)"
    using assms same_track_ok [OF same_refresh] by (simp_all add: markPlaybackError_def markPlaybackStopped_def)
qed

lemma prepare_ok: "runtime_ok r \<Longrightarrow> runtime_ok (snd (prepareTrack now p i r))"
proof (cases "active r \<noteq> Some p \<or> i < 0 \<or> i \<ge> queue_len r")
  case True
  then show "runtime_ok r \<Longrightarrow> ?thesis" by (auto simp: prepareTrack_def Let_def queue_len_def)
next
  case False
  assume r: "runtime_ok r"
  define item where "item = cloneMediaPlaylistItem (currentPlaybackQueueLocked r ! nat i)"
  let ?r = "r\<lparr>playbackIndex := i, currentSource := Some (cloneMediaSourceDescriptor (ItemSource item)),
     CurrentTitle := Title (ItemSource item), CurrentSourceType := SourceType (ItemSource item),
     PositionMs := 0, ErrMsg := [],
     Status := (if paused (playbacks r p) then StatusPaused else StatusPlaying), UpdatedAt := now\<rparr>"
  have "queue_len ?r = queue_len r" by (rule queue_len_cong) simp_all
  then have "runtime_ok ?r"
    using False ok_active [OF r, of p] by (auto simp: runtime_ok_def playback_ok_def)
  then have "runtime_ok (refreshPublicStateLocked ?r)" using same_track_ok [OF same_refresh] by blast
  then show ?thesis using False by (simp add: prepareTrack_def Let_def queue_len_def item_def)
qed

lemma advance_ok: "runtime_ok r \<Longrightarrow> runtime_ok (snd (advanceAfterTrack now p i r))"
proof (cases "active r = Some p")
  case True
  assume r: "runtime_ok r"
  note ok = ok_active [OF r True]
  define n where "n = playbackIndex r + 1"
  have n: "(if playbackIndex r < 0 \<or> playbackIndex r \<ge> int (length (currentPlaybackQueueLocked r)) then i else playbackIndex r) + 1 = n"
    using ok by (simp add: playback_ok_def queue_len_def n_def)
  show ?thesis
  proof (cases "n \<ge> queue_len r")
    case past: True
    have "runtime_ok ((end_playback now StatusStopped r)\<lparr>PositionMs := 0\<rparr>)" by (simp add: runtime_ok_def end_playback_def)
    then show ?thesis using True past n same_track_ok [OF same_refresh] by (simp add: advanceAfterTrack_def Let_def queue_len_def)
  next
    case False
    define source where "source = ItemSource (currentPlaybackQueueLocked r ! nat n)"
    let ?r = "r\<lparr>playbackIndex := n, currentSource := Some (cloneMediaSourceDescriptor source),
       CurrentTitle := Title source, CurrentSourceType := SourceType source, PositionMs := 0,
       Status := StatusPlaying, UpdatedAt := now\<rparr>"
    have "queue_len ?r = queue_len r" by (rule queue_len_cong) simp_all
    then have "runtime_ok ?r" using False ok True by (auto simp: runtime_ok_def playback_ok_def n_def)
    then have "runtime_ok (refreshPublicStateLocked ?r)" using same_track_ok [OF same_refresh] by blast
    then show ?thesis using True False n by (simp add: advanceAfterTrack_def Let_def queue_len_def source_def)
  qed
qed (simp add: advanceAfterTrack_def)

lemma wait_same: "wait_if_paused p r c = Some (c', r') \<Longrightarrow> r' = r"
  by (auto simp: wait_if_paused_def split: if_splits)

lemma receive_same: "receive_step p ans st r = Some (c', r') \<Longrightarrow> r' = r"
  by (cases ans) (auto split: if_splits)

lemma begin_step_ok: "begin_step now p ans st a r = Some (c', r') \<Longrightarrow> runtime_ok r \<Longrightarrow> runtime_ok r'"
proof (cases ans)
  case Proceed
  assume s: "begin_step now p ans st a r = Some (c', r')" and r: "runtime_ok r"
  obtain ok r1 where b: "BeginExclusiveMediaPlayback (snd a) True r = (ok, r1)" by (cases "BeginExclusiveMediaPlayback (snd a) True r") simp
  have "runtime_ok r1" using begin_ok [OF r, of "snd a" True] b by simp
  then show "runtime_ok r'" using s Proceed b failure_ok [where a=a] by (cases ok) auto
qed (use begin_ok failure_ok [where a=a] in \<open>auto split: if_splits\<close>)

lemma output_step_ok:
  "output_step now p ans st a r next = Some (c', r') \<Longrightarrow> runtime_ok r \<Longrightarrow> runtime_ok (snd next) \<Longrightarrow> runtime_ok r'"
  using failure_ok [where a=a] by (cases ans) auto

lemma play_ok: "play_step up now p ans c r = Some (c', r') \<Longrightarrow> runtime_ok r \<Longrightarrow> runtime_ok r'"
proof (cases c)
  case (PcPrepare i)
  assume s: "play_step up now p ans c r = Some (c', r')" and r: "runtime_ok r"
  then show "runtime_ok r'" using prepare_ok [OF r, of now p i] PcPrepare by (auto split: option.splits prod.splits)
next
  case (PcTake st a)
  assume s: "play_step up now p ans c r = Some (c', r')" and r: "runtime_ok r"
  then show "runtime_ok r'" using take_ok [OF r, where p=p and a=a] PcTake by (auto split: bool.splits prod.splits)
next
  case (PcAdvance i)
  assume s: "play_step up now p ans c r = Some (c', r')" and r: "runtime_ok r"
  then show "runtime_ok r'" using advance_ok [OF r, of now p i] PcAdvance by (auto split: option.splits prod.splits)
next
  case (PcSend st a)
  assume s: "play_step up now p ans c r = Some (c', r')" and r: "runtime_ok r"
  from output_step_ok [OF s [unfolded PcSend play_step.simps] r] same_track_ok [OF same_increment r] show "runtime_ok r'" by simp
next
  case (PcSentence st a)
  assume s: "play_step up now p ans c r = Some (c', r')" and r: "runtime_ok r"
  show "runtime_ok r'"
  proof (cases "sStartedOn st \<noteq> Some a \<and> sText st \<noteq> []")
    case True
    then have "output_step now p ans st a r (PcSend (st\<lparr>sStartedOn := Some a\<rparr>) a, r) = Some (c', r')"
      using s PcSentence by simp
    from output_step_ok [OF this r] r show ?thesis by simp
  qed (use s r PcSentence in auto)
next
  case (PcReceive st)
  assume "play_step up now p ans c r = Some (c', r')" and "runtime_ok r"
  then show "runtime_ok r'" using PcReceive by (auto dest: wait_same receive_same split: if_splits)
next
  case PcClose
  assume s: "play_step up now p ans c r = Some (c', r')" and r: "runtime_ok r"
  have "same_track r (on_playback p (finished_update (\<lambda>_. True)) r)" by (simp add: same_track_def on_playback_def)
  then show "runtime_ok r'" using s r PcClose same_track_ok by auto
next
  case (PcSentenceEnd st)
  assume "play_step up now p ans c r = Some (c', r')" and r: "runtime_ok r"
  moreover have "runtime_ok (handleAttachmentFailure now p a r)" for a by (rule failure_ok [OF r])
  ultimately show "runtime_ok r'" using PcSentenceEnd by (auto split: option.splits answer.splits if_splits)
qed (auto simp: marked_ok releaseExclusive_ok dest: wait_same begin_step_ok split: if_splits answer.splits option.splits)

lemma runtime_reachable: "reachable up s \<Longrightarrow> runtime_ok (fst s)"
proof (induction rule: reachable.induct)
  case (init now)
  then show ?case by (simp add: runtime_ok_def newDeviceMediaRuntime_def)
next
  case (step s act s')
  from step.hyps(2) step.IH show ?case
  proof (cases rule: psys_step.cases)
    case (control now ids c r spawned r' pcs)
    then show ?thesis using control_ok [of up now ids c r spawned r'] step.IH by simp
  next
    case (run pcs p c now ans r c' r')
    then show ?thesis using play_ok [of up now p ans c r c' r'] step.IH by simp
  next
    case (late r pcs p a now)
    then show ?thesis using failure_ok [of r now p a] step.IH by simp
  next
    case (other r pcs agentID source now new_id)
    then show ?thesis using appended_ok [of r up now new_id agentID source] step.IH by simp
  qed
qed

text \<open>C25: The state of the runtime is consistent in every reachable state. With no active playback the runtime
  is idle, stopped or failed and waits for nothing; with one, the status is playing or paused, the index lies in the queue that
  plays, a track is current, the playback is not cancelled, and whenever the status is paused, a pause reason is kept or a
  resumption is due, the playback is really paused.\<close>

theorem media_runtime_consistent:
  assumes "reachable up (r, pcs)"
  shows "case active r of
      None \<Rightarrow> pauseReason r = ReasonNone \<and> \<not> resumeOnAttach r \<and> Status r \<in> {StatusIdle, StatusStopped, StatusError}
    | Some p \<Rightarrow> p < nextPlayback r \<and> \<not> cancelled (playbacks r p)
        \<and> 0 \<le> playbackIndex r \<and> playbackIndex r < int (length (currentPlaybackQueueLocked r))
        \<and> currentSource r \<noteq> None \<and> Status r \<in> {StatusPlaying, StatusPaused}
        \<and> (Status r = StatusPaused \<or> resumeOnAttach r \<or> pauseReason r \<noteq> ReasonNone \<longrightarrow> paused (playbacks r p))"
  using runtime_reachable [OF assms] by (auto simp: runtime_ok_def playback_ok_def queue_len_def split: option.splits)


lemma media_runtime_consistent_witness:
  "case active (newDeviceMediaRuntime 7) of
      None \<Rightarrow> pauseReason (newDeviceMediaRuntime 7) = ReasonNone \<and> \<not> resumeOnAttach (newDeviceMediaRuntime 7)
        \<and> Status (newDeviceMediaRuntime 7) \<in> {StatusIdle, StatusStopped, StatusError}
    | Some p \<Rightarrow> False"
  using media_runtime_consistent [OF reachable.init [of "\<lambda>_. None" 7]] by (simp add: newDeviceMediaRuntime_def)

end
