(* ===== verification/Media_Control.thy ===== *)
theory Media_Control
  imports Media_Playback
begin

text \<open>
  What the playing goroutine of a replaced playback may still do, that it ends, and how the control operations
  of the media player move through a playlist.
\<close>

section \<open>A replaced playback\<close>

definition output_only :: "player \<Rightarrow> player \<Rightarrow> bool" where
  \<comment> \<open>the runtime but for the ownership of the output and the playbacks' own flags\<close>
  "output_only r r' \<longleftrightarrow> (\<exists>e ex pb. r' = r\<lparr>exclusiveAttachment := e, exclusive := ex, playbacks := pb\<rparr>)"

lemma output_only_refl [simp]: "output_only r r"
  unfolding output_only_def
  by (rule exI [of _ "exclusiveAttachment r"], rule exI [of _ "exclusive r"], rule exI [of _ "playbacks r"]) simp

lemma output_only_upd:
  "output_only r (r\<lparr>exclusive := ex\<rparr>)" "output_only r (on_playback p f r)" "output_only r (r\<lparr>exclusiveAttachment := e\<rparr>)"
proof -
  have "r\<lparr>exclusive := ex\<rparr> = r\<lparr>exclusiveAttachment := exclusiveAttachment r, exclusive := ex, playbacks := playbacks r\<rparr>"
    "on_playback p f r = r\<lparr>exclusiveAttachment := exclusiveAttachment r, exclusive := exclusive r, playbacks := (playbacks r)(p := f (playbacks r p))\<rparr>"
    "r\<lparr>exclusiveAttachment := e\<rparr> = r\<lparr>exclusiveAttachment := e, exclusive := exclusive r, playbacks := playbacks r\<rparr>"
    by (simp_all add: on_playback_def)
  then show "output_only r (r\<lparr>exclusive := ex\<rparr>)" "output_only r (on_playback p f r)" "output_only r (r\<lparr>exclusiveAttachment := e\<rparr>)"
    unfolding output_only_def by blast+
qed

lemma output_only_trans: "output_only r r' \<Longrightarrow> output_only r' r'' \<Longrightarrow> output_only r r''"
proof -
  assume "output_only r r'" and "output_only r' r''"
  then obtain e ex pb e' ex' pb' where "r' = r\<lparr>exclusiveAttachment := e, exclusive := ex, playbacks := pb\<rparr>"
    "r'' = r'\<lparr>exclusiveAttachment := e', exclusive := ex', playbacks := pb'\<rparr>" unfolding output_only_def by blast
  then have "r'' = r\<lparr>exclusiveAttachment := e', exclusive := ex', playbacks := pb'\<rparr>" by simp
  then show ?thesis unfolding output_only_def by blast
qed

lemma output_only_release: "output_only r (releaseMediaAttachment a r)"
  by (auto simp: releaseMediaAttachment_def output_only_upd split: option.split prod.split)

lemma output_only_active: "output_only r r' \<Longrightarrow> active r' = active r"
  by (auto simp: output_only_def)

lemma output_only_releaseExclusive: "output_only r (releaseExclusivePlayback p r)"
  unfolding releaseExclusivePlayback_def setExclusiveHeld_def
  by (auto intro: output_only_trans [OF output_only_trans [OF output_only_upd(3) output_only_upd(2)] output_only_release])

lemma output_only_begin: "output_only r (snd (BeginExclusiveMediaPlayback s ok r))"
  by (simp add: BeginExclusiveMediaPlayback_def output_only_upd)

lemma failure_stale [simp]: "active r \<noteq> Some p \<Longrightarrow> handleAttachmentFailure now p a r = r"
  by (simp add: handleAttachmentFailure_def)

lemma begin_step_stale:
  assumes "active r \<noteq> Some p" and "begin_step now p ans st a r = Some (c', r')"
  shows "output_only r r'"
proof -
  have o: "output_only r (snd (BeginExclusiveMediaPlayback (snd a) b r))" for b by (rule output_only_begin)
  have f: "handleAttachmentFailure now p a (snd (BeginExclusiveMediaPlayback (snd a) b r)) = snd (BeginExclusiveMediaPlayback (snd a) b r)" for b
    using assms(1) output_only_active [OF o] by simp
  show ?thesis
  proof (cases ans)
    case Proceed
    then show ?thesis using assms(2) o [of True] f [of True]
      by (cases "BeginExclusiveMediaPlayback (snd a) True r") (auto split: bool.splits)
  qed (use assms(2) o [of False] f [of False] in \<open>auto split: if_splits\<close>)
qed

lemma output_step_stale:
  "active r \<noteq> Some p \<Longrightarrow> output_step now p ans st a r (c, r) = Some (c', r') \<Longrightarrow> r' = r"
  by (cases ans) auto

text \<open>Fact: A replaced playback cannot disturb its successor. A step of a playing goroutine whose playback is
  no longer the active one changes nothing of the runtime, not its status, track, position, queue, attachment or
  pending resumption, except the flags of the playbacks and the ownership of the output.\<close>

theorem stale_playback_is_harmless:
  assumes "active r \<noteq> Some p" and "play_step up now p ans c r = Some (c', r')"
  shows "\<exists>e ex pb. r' = r\<lparr>exclusiveAttachment := e, exclusive := ex, playbacks := pb\<rparr>"
proof -
  have "output_only r r'"
  proof (cases c)
    case (PcBegin st a)
    then show ?thesis using assms begin_step_stale by simp
  next
    case (PcTake st a)
    then show ?thesis using assms output_only_release [of r "Some a"] by (auto simp: take_exclusive_def)
  next
    case (PcSentence st a)
    then show ?thesis using assms by (auto dest: output_step_stale split: if_splits)
  next
    case (PcSend st a)
    have "incrementPlaybackPosition now p (sFrameMs st) r = r" using assms(1) by (simp add: incrementPlaybackPosition_def)
    then show ?thesis using PcSend assms by (auto dest: output_step_stale)
  next
    case PcRelease
    then show ?thesis using assms output_only_releaseExclusive by auto
  next
    case PcClose
    then show ?thesis using assms output_only_upd(2) by auto
  qed (use assms in \<open>auto simp: prepareTrack_def advanceAfterTrack_def markPlaybackStopped_def markPlaybackError_def Let_def
      dest: wait_same receive_same split: if_splits answer.splits option.splits\<close>)
  then show ?thesis by (simp add: output_only_def)
qed

section \<open>The end of a playback\<close>

definition gives_up :: "player \<Rightarrow> player \<Rightarrow> bool" where
  "gives_up r r' \<longleftrightarrow> nextPlayback r \<le> nextPlayback r' \<and>
     (\<forall>p < nextPlayback r. (cancelled (playbacks r p) \<or> (active r = Some p \<and> active r' \<noteq> Some p) \<longrightarrow> cancelled (playbacks r' p))
        \<and> (active r' = Some p \<longrightarrow> active r = Some p))"

lemma gives_up_refl [simp]: "gives_up r r"
  by (simp add: gives_up_def)

lemma gives_Replace: "gives_up r (snd (ReplaceStandaloneQueueAndPlay up now ids sources i cfg r))"
  by (auto simp: gives_up_def ReplaceStandaloneQueueAndPlay_def Stop_def Let_def excl_simps split: option.split prod.split)

lemma gives_Index: "gives_up r (snd (PlayAgentPlaylistIndex now agentID i cfg r))"
  by (auto simp: gives_up_def PlayAgentPlaylistIndex_def Let_def excl_simps split: option.split prod.split)

lemma gives_List: "gives_up r (snd (PlayAgentPlaylist now agentID cfg r))"
  using gives_Index by (auto simp: PlayAgentPlaylist_def Let_def)

lemma gives_jump: "gives_up r (snd (jumpToRelative now d cfg r))"
  using gives_Index by (auto simp: jumpToRelative_def Let_def)

lemma gives_recoverActive: "gives_up r (snd (recoverActivePlayback now r))"
  by (auto simp: gives_up_def recoverActivePlayback_def Let_def excl_simps split: option.split bool.split)

lemma gives_Recover: "gives_up r (snd (RecoverPlayback up now ids cfg trigger r))"
proof -
  have "gives_up r (r\<lparr>resumeOnAttach := False\<rparr>)" by (simp add: gives_up_def)
  then show ?thesis
    using gives_Replace gives_Index gives_recoverActive
    by (auto simp: RecoverPlayback_def as_result_def Let_def split: option.split)
qed

lemma gives_pause: "gives_up r (snd (pausePlayback now req reason r))"
  by (auto simp: gives_up_def pausePlayback_def Let_def excl_simps split: option.split prod.split)

lemma gives_Stop: "gives_up r (Stop now r)"
  by (auto simp: gives_up_def Stop_def Let_def excl_simps split: option.split prod.split)

lemma gives_ResumeInterrupted: "gives_up r (snd (ResumeIfInterruptedPause now r))"
  using gives_recoverActive [of r now] by (auto simp: ResumeIfInterruptedPause_def split: option.splits prod.splits)

lemma gives_Append: "gives_up r (snd (AppendCurrentToAgentPlaylist up now new_id agentID r))"
  by (auto simp: gives_up_def AppendCurrentToAgentPlaylist_def appendToAgentPlaylist_def Let_def split: option.split)

lemma gives_attach: "gives_up r (snd (attachSession session r))"
  by (auto simp: gives_up_def attachSession_def Let_def notifyAttachmentChangedLocked_def)

lemma gives_detach: "gives_up r (detachSession now session preserve r)"
  by (auto simp: gives_up_def detachSession_def Let_def excl_simps split: option.split prod.split)

lemma gives_failure: "gives_up r (handleAttachmentFailure now p a r)"
  by (cases a) (auto simp: gives_up_def handleAttachmentFailure_def Let_def excl_simps)

lemma gives_refresh: "gives_up r (refreshPublicStateLocked r)"
  by (simp add: gives_up_def refreshPublicStateLocked_def Let_def)

lemma gives_control: "control_step up now ids c r = (spawned, r') \<Longrightarrow> gives_up r r'"
  using gives_Replace gives_Index gives_List gives_jump gives_Recover gives_pause gives_Stop gives_ResumeInterrupted
    gives_Append gives_attach gives_detach gives_recoverActive gives_refresh
  by (cases c) (auto simp: map_prod_def case_prod_beta Next_def Prev_def Pause_def Suspend_def Resume_def GetState_def)

lemma spawned_active: "control_step up now ids c r = (Some p, r') \<Longrightarrow> active r' = Some p"
proof -
  have rep: "fst (ReplaceStandaloneQueueAndPlay up now ids sources i cfg r) = Inr (Some p) \<Longrightarrow>
      active (snd (ReplaceStandaloneQueueAndPlay up now ids sources i cfg r)) = Some p" for sources i cfg
    by (auto simp: ReplaceStandaloneQueueAndPlay_def Let_def excl_simps split: if_splits option.splits prod.splits)
  have ind: "fst (PlayAgentPlaylistIndex now agentID i cfg r) = Inr (Some p) \<Longrightarrow>
      active (snd (PlayAgentPlaylistIndex now agentID i cfg r)) = Some p" for agentID i cfg
    by (auto simp: PlayAgentPlaylistIndex_def Let_def excl_simps split: if_splits option.splits prod.splits)
  have lst: "fst (PlayAgentPlaylist now agentID cfg r) = Inr (Some p) \<Longrightarrow>
      active (snd (PlayAgentPlaylist now agentID cfg r)) = Some p" for agentID cfg
    using ind by (auto simp: PlayAgentPlaylist_def Let_def split: if_splits)
  have jmp: "fst (jumpToRelative now d cfg r) = Inr (Some p) \<Longrightarrow> active (snd (jumpToRelative now d cfg r)) = Some p" for d cfg
    using ind by (auto simp: jumpToRelative_def Let_def split: if_splits)
  have rec: "fst (RecoverPlayback up now ids cfg t r) = Inr (Some p) \<Longrightarrow> active (snd (RecoverPlayback up now ids cfg t r)) = Some p" for cfg t
    using ind rep by (auto simp: RecoverPlayback_def as_result_def Let_def split: option.splits if_splits)
  have inr: "(case x of Inl e \<Rightarrow> None | Inr y \<Rightarrow> y) = Some p \<longleftrightarrow> x = Inr (Some p)" for x :: "media_error + nat option"
    by (cases x) auto
  show "control_step up now ids c r = (Some p, r') \<Longrightarrow> ?thesis"
    using rep ind lst jmp rec
    by (cases c) (auto simp: map_prod_def case_prod_beta Next_def Prev_def inr id_def)
qed

definition ending :: "play_pc \<Rightarrow> bool" where
  "ending c \<longleftrightarrow> c = PcRelease \<or> c = PcClose \<or> c = PcFinished"

definition play_kept :: "nat \<Rightarrow> play_pc \<Rightarrow> player \<Rightarrow> player \<Rightarrow> bool" where
  "play_kept p c' r r' \<longleftrightarrow> (active r' = active r \<or> active r = Some p \<and> active r' = None \<and> ending c')
     \<and> (\<forall>q. cancelled (playbacks r' q) = cancelled (playbacks r q))"

lemma kept_refl [simp]: "play_kept p c r r"
  by (simp add: play_kept_def)

lemma kept_failure: "play_kept p c r (handleAttachmentFailure now p a r)"
  by (cases a) (auto simp: play_kept_def handleAttachmentFailure_def Let_def excl_simps)

lemma kept_begin: "play_kept p c r (snd (BeginExclusiveMediaPlayback s ok r))"
  by (simp add: play_kept_def BeginExclusiveMediaPlayback_def)

lemma kept_begin_failure: "play_kept p c r (handleAttachmentFailure now p a (snd (BeginExclusiveMediaPlayback s ok r)))"
  by (cases a) (auto simp: play_kept_def handleAttachmentFailure_def BeginExclusiveMediaPlayback_def Let_def excl_simps)

lemma kept_begin_step: "begin_step now p ans st a r = Some (c', r') \<Longrightarrow> play_kept p c' r r'"
proof (cases ans)
  case Proceed
  assume "begin_step now p ans st a r = Some (c', r')"
  then show ?thesis
    using Proceed kept_begin [of p c' r "snd a" True] kept_begin_failure [where a=a and s="snd a" and ok=True and p=p and c=c' and r=r and now=now]
    by (cases "BeginExclusiveMediaPlayback (snd a) True r") (auto split: bool.splits)
qed (use kept_begin [of p c' r "snd a" False] kept_begin_failure [where a=a and s="snd a" and ok=False and p=p and c=c' and r=r and now=now]
     in \<open>auto split: if_splits\<close>)

lemma kept_output:
  "output_step now p ans st a r next = Some (c', r') \<Longrightarrow> play_kept p c' r (snd next) \<Longrightarrow> play_kept p c' r r'"
  using kept_failure [where a=a] by (cases ans) auto

lemma kept_increment: "play_kept p c r (incrementPlaybackPosition now p d r)"
  by (simp add: play_kept_def incrementPlaybackPosition_def)

lemma kept_play: "play_step up now p ans c r = Some (c', r') \<Longrightarrow> play_kept p c' r r'"
proof (cases c)
  case (PcPrepare i)
  assume "play_step up now p ans c r = Some (c', r')"
  then show ?thesis using PcPrepare
    by (auto simp: prepareTrack_def Let_def play_kept_def refreshPublicStateLocked_def split: if_splits)
next
  case (PcAdvance i)
  assume "play_step up now p ans c r = Some (c', r')"
  then show ?thesis using PcAdvance
    by (auto simp: advanceAfterTrack_def Let_def play_kept_def refreshPublicStateLocked_def end_playback_def ending_def split: if_splits)
next
  case (PcTake st a)
  assume "play_step up now p ans c r = Some (c', r')"
  then show ?thesis using PcTake
    by (cases a) (auto simp: take_exclusive_def Let_def play_kept_def excl_simps split: if_splits option.splits)
next
  case (PcBegin st a)
  assume "play_step up now p ans c r = Some (c', r')"
  then show ?thesis using PcBegin kept_begin_step by auto
next
  case (PcSentence st a)
  assume s: "play_step up now p ans c r = Some (c', r')"
  show ?thesis
  proof (cases "sStartedOn st \<noteq> Some a \<and> sText st \<noteq> []")
    case True
    then have "output_step now p ans st a r (PcSend (st\<lparr>sStartedOn := Some a\<rparr>) a, r) = Some (c', r')"
      using s PcSentence by simp
    from kept_output [OF this] show ?thesis by simp
  qed (use s PcSentence in auto)
next
  case (PcSend st a)
  assume s: "play_step up now p ans c r = Some (c', r')"
  from kept_output [OF s [unfolded PcSend play_step.simps]] kept_increment show ?thesis by simp
next
  case (PcSentenceEnd st)
  assume "play_step up now p ans c r = Some (c', r')"
  moreover have "play_kept p c' r (handleAttachmentFailure now p a r)" for a by (rule kept_failure)
  ultimately show ?thesis using PcSentenceEnd by (auto split: option.splits answer.splits if_splits)
qed (auto simp: play_kept_def markPlaybackStopped_def markPlaybackError_def refreshPublicStateLocked_def end_playback_def ending_def
    releaseExclusivePlayback_def excl_simps Let_def dest: wait_same receive_same split: if_splits answer.splits option.splits)

definition abandoned_ok :: "psys \<Rightarrow> bool" where
  "abandoned_ok s \<longleftrightarrow> (\<forall>p c. snd s p = Some c \<longrightarrow> active (fst s) = Some p \<or> cancelled (playbacks (fst s) p) \<or> ending c)"

lemma abandoned_reachable: "reachable up s \<Longrightarrow> abandoned_ok s"
proof (induction rule: reachable.induct)
  case (init now)
  then show ?case by (simp add: abandoned_ok_def)
next
  case (step s act s')
  have own: "snd s p \<noteq> None \<Longrightarrow> p < nextPlayback (fst s)" for p
    using owned_reachable [OF step.hyps(1)] by (auto simp: owned_system_def)
  from step.hyps(2) step.IH show ?case
  proof (cases rule: psys_step.cases)
    case (control now ids c r spawned r' pcs)
    have g: "gives_up r r'" by (rule gives_control [OF control(4)])
    have old: "active r' = Some p \<or> cancelled (playbacks r' p) \<or> ending d" if "pcs p = Some d" for p d
      using that g own [of p] step.IH control(1) unfolding abandoned_ok_def gives_up_def by fastforce
    show ?thesis
    proof (cases spawned)
      case None
      then show ?thesis using old control by (simp add: abandoned_ok_def)
    next
      case (Some p)
      then have "active r' = Some p" using spawned_active control(4) by blast
      then show ?thesis using Some old control by (auto simp: abandoned_ok_def)
    qed
  next
    case (run pcs p c now ans r c' r')
    then show ?thesis using kept_play [of up now p ans c r c' r'] step.IH
      unfolding abandoned_ok_def play_kept_def by (smt (verit) fst_conv snd_conv fun_upd_apply option.inject option.distinct(1) ending_def
        play_step.simps(18) play_step.simps(19) play_step.simps(20) prod.inject)
  next
    case (late r pcs p a now)
    then show ?thesis using kept_failure [of p PcRelease r now a] gives_failure [of r now p a] own step.IH
      unfolding abandoned_ok_def gives_up_def by fastforce
  next
    case (other r pcs agentID source now new_id)
    then show ?thesis using appended_only [of up now new_id agentID source r] step.IH unfolding abandoned_ok_def by fastforce
  qed
qed

fun play_run :: "(gostr \<Rightarrow> gostr option) \<Rightarrow> int \<Rightarrow> nat \<Rightarrow> answer list \<Rightarrow> play_pc \<Rightarrow> player \<Rightarrow> (play_pc \<times> player) option" where
  "play_run up now p [] c r = Some (c, r)"
| "play_run up now p (ans # anss) c r =
     (case play_step up now p ans c r of None \<Rightarrow> None | Some (c', r') \<Rightarrow> play_run up now p anss c' r')"

definition can_finish :: "(gostr \<Rightarrow> gostr option) \<Rightarrow> int \<Rightarrow> nat \<Rightarrow> nat \<Rightarrow> play_pc \<Rightarrow> player \<Rightarrow> bool" where
  "can_finish up now p n c r \<longleftrightarrow> (\<exists>answers r'. length answers \<le> n \<and> play_run up now p answers c r = Some (PcFinished, r'))"

lemma finish_step:
  assumes "play_step up now p ans c r = Some (c', r')" and "can_finish up now p n c' r'" and "Suc n \<le> m"
  shows "can_finish up now p m c r"
proof -
  obtain answers r'' where a: "length answers \<le> n" "play_run up now p answers c' r' = Some (PcFinished, r'')"
    using assms(2) by (auto simp: can_finish_def)
  then have "length (ans # answers) \<le> m" "play_run up now p (ans # answers) c r = Some (PcFinished, r'')"
    using assms by simp_all
  then show ?thesis unfolding can_finish_def by blast
qed

lemma finish_ending: "ending c \<Longrightarrow> can_finish up now p 2 c r"
proof -
  have fin: "can_finish up now p 0 PcFinished r" for r unfolding can_finish_def by (intro exI [of _ "[]"]) simp
  have close: "can_finish up now p n PcClose r" if "1 \<le> n" for n r
    by (rule finish_step [where ans=Proceed, OF _ fin]) (use that in simp_all)
  have "can_finish up now p 2 PcRelease r" for r
    by (rule finish_step [where ans=Proceed and n=1, OF _ close]) simp_all
  moreover have "can_finish up now p 2 PcClose r" by (rule close) simp
  moreover have "can_finish up now p 2 PcFinished r" unfolding can_finish_def by (intro exI [of _ "[]"]) simp
  ultimately show "ending c \<Longrightarrow> ?thesis" by (auto simp: ending_def)
qed

definition stale :: "nat \<Rightarrow> player \<Rightarrow> bool" where
  "stale p r \<longleftrightarrow> active r \<noteq> Some p \<and> cancelled (playbacks r p)"

lemma stale_step: "play_step up now p ans c r = Some (c', r') \<Longrightarrow> stale p r \<Longrightarrow> stale p r'"
  using kept_play [of up now p ans c r c' r'] by (auto simp: stale_def play_kept_def)

lemma finish_to:
  assumes "play_step up now p ans c r = Some (c', r')" and "stale p r" and "\<And>r. stale p r \<Longrightarrow> can_finish up now p n c' r" and "Suc n \<le> m"
  shows "can_finish up now p m c r"
  using finish_step [OF assms(1) assms(3) [OF stale_step [OF assms(1,2)]] assms(4)] .

lemma finish_cancelled: "stale p r \<Longrightarrow> can_finish up now p 3 PcCancelled r" "stale p r \<Longrightarrow> can_finish up now p 3 (PcFailed e) r"
  by (rule finish_step [where ans=Proceed, OF _ finish_ending [of PcRelease]]; simp add: ending_def)+

lemma finish_advance: "stale p r \<Longrightarrow> can_finish up now p 3 (PcAdvance i) r" "stale p r \<Longrightarrow> can_finish up now p 3 (PcPrepare i) r"
  "stale p r \<Longrightarrow> can_finish up now p 3 PcStart r"
  by (rule finish_step [where ans=Proceed and r'=r, OF _ finish_ending [of PcRelease]];
      simp add: ending_def advanceAfterTrack_def prepareTrack_def currentIndexForActive_def stale_def Let_def)+

lemma finish_loop: "stale p r \<Longrightarrow> can_finish up now p 4 (PcLoop i) r"
proof (cases "paused (playbacks r p)")
  case True
  assume s: "stale p r"
  then show ?thesis using True
    by (intro finish_to [where ans=Proceed and c'=PcCancelled and r'=r and n=3, OF _ s finish_cancelled(1)]) (simp_all add: wait_if_paused_def stale_def)
next
  case False
  assume s: "stale p r"
  then show ?thesis using False
    by (intro finish_to [where ans=Proceed and c'="PcPrepare i" and r'=r and n=3, OF _ s finish_advance(2)]) (simp_all add: wait_if_paused_def)
qed

lemma finish_ctx: "stale p r \<Longrightarrow> c = PcOpen i item \<or> c = PcReceive st \<or> c = PcAttach st \<or> c = PcAwaitEnd st a \<Longrightarrow> can_finish up now p 4 c r"
proof -
  assume s: "stale p r" and "c = PcOpen i item \<or> c = PcReceive st \<or> c = PcAttach st \<or> c = PcAwaitEnd st a"
  then have "play_step up now p CtxDone c r = Some (PcCancelled, r)"
    by (auto simp: stale_def wait_if_paused_def)
  then show ?thesis by (rule finish_to [where n=3, OF _ s finish_cancelled(1)]) simp_all
qed

lemma finish_gate: "stale p r \<Longrightarrow> can_finish up now p 5 (PcGate st) r"
proof (cases "paused (playbacks r p)")
  case True
  assume s: "stale p r"
  then show ?thesis using True
    by (intro finish_to [where ans=Proceed and c'=PcCancelled and r'=r and n=3, OF _ s finish_cancelled(1)]) (simp_all add: wait_if_paused_def stale_def)
next
  case False
  assume s: "stale p r"
  then show ?thesis using False
    by (intro finish_to [where ans=Proceed and c'="PcAttach st" and r'=r and n=4, OF _ s finish_ctx]) (auto simp: wait_if_paused_def)
qed

lemma finish_take: "stale p r \<Longrightarrow> can_finish up now p 4 (PcTake st a) r"
proof -
  assume s: "stale p r"
  then show ?thesis
    by (intro finish_to [where ans=Proceed and c'=PcCancelled and n=3, OF _ s finish_cancelled(1)]) (simp_all add: take_exclusive_def stale_def)
qed

lemma finish_begin: "stale p r \<Longrightarrow> can_finish up now p 6 (PcBegin st a) r"
proof -
  assume s: "stale p r"
  obtain ok r1 where b: "BeginExclusiveMediaPlayback (snd a) True r = (ok, r1)" by (cases "BeginExclusiveMediaPlayback (snd a) True r") simp
  show ?thesis
  proof (cases ok)
    case True
    then show ?thesis using b by (intro finish_to [where ans=Proceed and c'="PcTake st a" and n=4, OF _ s finish_take]) simp_all
  next
    case False
    then show ?thesis using b
      by (intro finish_to [where ans=Proceed and c'="PcGate st" and r'="handleAttachmentFailure now p a r1" and n=5, OF _ s finish_gate]) simp_all
  qed
qed

lemma finish_send: "stale p r \<Longrightarrow> can_finish up now p 5 (PcSend st a) r"
proof -
  assume s: "stale p r"
  show ?thesis
    by (rule finish_to [where ans=Proceed and c'="PcReceive (st\<lparr>sEnqueued := True\<rparr>)" and n=4, OF _ s finish_ctx]) auto
qed

text \<open>C39: A playing goroutine whose playback is over can always finish. In every reachable state, a goroutine
  whose playback is not the active one can, with suitable answers of the source and the output, run to
  its end in at most seven of its own steps, whatever point it stands at: it is never stuck waiting for a
  resumption or for an attachment, and closes its channel of completion.\<close>

theorem abandoned_playback_can_finish:
  assumes "reachable up (r, pcs)" and "pcs p = Some c" and "active r \<noteq> Some p"
  shows "\<exists>answers r'. length answers \<le> 7 \<and> play_run up now p answers c r = Some (PcFinished, r')"
proof -
  have mono: "can_finish up now p n c r \<Longrightarrow> n \<le> 7 \<Longrightarrow> can_finish up now p 7 c r" for n c r
    unfolding can_finish_def by (meson le_trans)
  have "can_finish up now p 7 c r"
  proof (cases "ending c")
    case True
    then show ?thesis by (rule mono [OF finish_ending]) simp
  next
    case False
    then have s: "stale p r" using abandoned_reachable [OF assms(1)] assms(2,3) by (auto simp: abandoned_ok_def stale_def)
    have ctx: "can_finish up now p 7 c r" if "c = PcOpen i item \<or> c = PcReceive st \<or> c = PcAttach st \<or> c = PcAwaitEnd st a" for c i item st a
      by (rule mono [OF finish_ctx [OF s that]]) simp
    note finishing = mono [OF finish_gate [OF s]] mono [OF finish_take [OF s]] mono [OF finish_begin [OF s]] mono [OF finish_send [OF s]]
      mono [OF finish_loop [OF s]] mono [OF finish_advance(1) [OF s]] mono [OF finish_advance(2) [OF s]] mono [OF finish_advance(3) [OF s]]
      mono [OF finish_cancelled(1) [OF s]] mono [OF finish_cancelled(2) [OF s]]
    show ?thesis
    proof (cases c)
      case (PcEnsure st a)
      show ?thesis
      proof (cases "holds_exclusive p a r")
        case True
        then show ?thesis using assms(3) by (simp add: holds_exclusive_def)
      next
        case False
        then show ?thesis using PcEnsure
          by (intro finish_to [where ans=Proceed and c'="PcBegin st a" and r'=r and n=6, OF _ s finish_begin]) simp_all
      qed
    next
      case (PcSentence st a)
      show ?thesis
      proof (cases "sStartedOn st \<noteq> Some a \<and> sText st \<noteq> []")
        case True
        then show ?thesis using PcSentence
          by (intro finish_to [where ans=Proceed and c'="PcSend (st\<lparr>sStartedOn := Some a\<rparr>) a" and r'=r and n=5, OF _ s finish_send]) auto
      next
        case False
        then show ?thesis using PcSentence
          by (intro finish_to [where ans=Proceed and c'="PcSend st a" and r'=r and n=5, OF _ s finish_send]) auto
      qed
    next
      case (PcSentenceEnd st)
      then show ?thesis using assms(3)
        by (intro finish_to [where ans=Proceed and c'="PcAdvance (sIndex st)" and r'=r and n=3, OF _ s finish_advance(1)]) simp_all
    qed (use False in \<open>simp_all add: ending_def finishing ctx\<close>)
  qed
  then show ?thesis by (simp add: can_finish_def)
qed

section \<open>An example\<close>

definition a_file :: media_source where
  "a_file = \<lparr>SourceID = [97], Title = [97], MIMEType = [], SourceType = LocalFile, Meta = None, MCP = None, HTTP = None,
     Local = Some [98], Inline = None\<rparr>"

definition playing :: player where
  \<comment> \<open>a file plays on the session 3\<close>
  "playing = snd (control_step (\<lambda>_. None) 8 (\<lambda>_. []) (CReplace [a_file] 0 \<lparr>SampleRate = 0, FrameDuration = 0\<rparr>)
     (snd (attachSession 3 (newDeviceMediaRuntime 7))))"

definition stopped :: player where
  "stopped = Stop 9 playing"

lemma playing_facts: "active playing = Some 0" "active stopped = None" "exclusiveAttachment stopped = None"
  by code_simp+

lemma example_reachable: "reachable (\<lambda>_. None) (stopped, (\<lambda>_. None)(0 \<mapsto> PcStart))"
proof -
  let ?up = "\<lambda>_. None :: gostr option"
  let ?a = "snd (attachSession 3 (newDeviceMediaRuntime 7))"
  have 1: "reachable ?up (newDeviceMediaRuntime 7, \<lambda>_. None)" by (rule reachable.init)
  have "psys_step ?up (newDeviceMediaRuntime 7, \<lambda>_. None) (Control (CAttach 3)) (?a, case None of None \<Rightarrow> \<lambda>_. None | Some p \<Rightarrow> (\<lambda>_. None)(p \<mapsto> PcStart))"
    by (rule psys_step.control [where ids="\<lambda>_. []" and now=7]) simp
  then have 2: "reachable ?up (?a, \<lambda>_. None)" using reachable.step [OF 1] by simp
  have s: "fst (control_step ?up 8 (\<lambda>_. []) (CReplace [a_file] 0 \<lparr>SampleRate = 0, FrameDuration = 0\<rparr>) ?a) = Some 0" by code_simp
  have "control_step ?up 8 (\<lambda>_. []) (CReplace [a_file] 0 \<lparr>SampleRate = 0, FrameDuration = 0\<rparr>) ?a = (Some 0, playing)"
    using s unfolding playing_def by (metis prod.collapse)
  from psys_step.control [OF this, where pcs="\<lambda>_. None"] have 3: "reachable ?up (playing, (\<lambda>_. None)(0 \<mapsto> PcStart))"
    using reachable.step [OF 2] by simp
  have "control_step ?up 9 (\<lambda>_. []) CStop playing = (None, stopped)" by (simp add: stopped_def)
  from psys_step.control [OF this, where pcs="(\<lambda>_. None)(0 \<mapsto> PcStart)"] show ?thesis
    using reachable.step [OF 3] by simp
qed

lemma abandoned_playback_can_finish_witness:
  "\<exists>answers r'. length answers \<le> 7 \<and> play_run (\<lambda>_. None) 9 0 answers PcStart stopped = Some (PcFinished, r')"
  by (rule abandoned_playback_can_finish [OF example_reachable]) (simp_all add: playing_facts)

lemma stale_playback_is_harmless_witness:
  "\<exists>c' r' e ex pb. play_step (\<lambda>_. None) 9 0 Proceed PcClose stopped = Some (c', r')
     \<and> r' = stopped\<lparr>exclusiveAttachment := e, exclusive := ex, playbacks := pb\<rparr>"
proof -
  have "active stopped \<noteq> Some 0" by (simp add: playing_facts)
  moreover have "play_step (\<lambda>_. None) 9 0 Proceed PcClose stopped
      = Some (PcFinished, on_playback 0 (finished_update (\<lambda>_. True)) stopped)" by simp
  ultimately show ?thesis using stale_playback_is_harmless [of stopped 0 "\<lambda>_. None" 9 Proceed PcClose] by blast
qed

end
