(* ===== verification/Media_Navigation.thy ===== *)
theory Media_Navigation
  imports Media_Player
begin

text \<open>
  What the control operations of the media player do to the track that plays: moving through a playlist, pausing
  and resuming, a change of session while a track plays, adding the current track to a playlist.
\<close>

section \<open>Moving through a playlist\<close>

lemma go_mod_positive:
  assumes "0 < n"
  shows "(if go_mod a n < 0 then go_mod a n + n else go_mod a n) = a mod n"
proof (cases "a < 0")
  case True
  then have a: "go_mod a n = - ((- a) mod n)" by (simp add: go_mod_def)
  show ?thesis
  proof (cases "(- a) mod n = 0")
    case True
    then show ?thesis using a by (simp add: mod_eq_0_iff_dvd)
  next
    case False
    have "0 \<le> (- a) mod n" using assms by simp
    then have "go_mod a n < 0" using a False by simp
    moreover have "n - (- a) mod n = a mod n"
      using zmod_zminus1_eq_if [of "- a" n] False by simp
    ultimately show ?thesis using a by simp
  qed
next
  case False
  then show ?thesis using assms by (simp add: go_mod_def not_less pos_mod_sign)
qed

lemma play_index_result:
  assumes "TrimSpace agentID \<noteq> []" and "0 \<le> i" and "i < int (length (snapshotAgentPlaylist agentID r))"
    and "PlayAgentPlaylistIndex now agentID i cfg r = (res, r')"
  shows "res = Inr (Some (nextPlayback r)) \<and> active r' = Some (nextPlayback r) \<and> playbackIndex r' = i
    \<and> mode r' = AgentPlaylist \<and> playlistAgentID r' = TrimSpace agentID \<and> playlists r' = playlists r
    \<and> Status r' = StatusPlaying \<and> PositionMs r' = 0
    \<and> CurrentTitle r' = Title (ItemSource (snapshotAgentPlaylist agentID r ! nat i))"
proof -
  let ?s = "snapshotAgentPlaylist agentID r"
  have t: "snapshotAgentPlaylist (TrimSpace agentID) r = ?s" by (simp add: snapshotAgentPlaylist_def)
  obtain p r1 where new: "newActiveMediaPlayback r = (p, r1)" by (cases "newActiveMediaPlayback r") simp
  obtain old ex r2 where repl: "replaceActivePlaybackLocked (Some p) r1 = (old, ex, r2)"
    by (cases "replaceActivePlaybackLocked (Some p) r1") simp
  let ?r3 = "r2\<lparr>mode := AgentPlaylist, playlistAgentID := TrimSpace agentID, standaloneItems := [], playbackIndex := i,
     audioConfig := normalizeMediaPlaybackAudioConfig cfg (audioConfig r2)\<rparr>"
  let ?r4 = "(start_track now (?s ! nat i) ?r3)\<lparr>Playlist := cloneMediaPlaylistItems ?s, CurrentIndex := i\<rparr>"
  have p: "p = nextPlayback r" "playlists r1 = playlists r" using new by (auto simp: newActiveMediaPlayback_def on_playback_def)
  have r2: "active r2 = Some p" "playlists r2 = playlists r1"
    using repl by (auto simp: replaceActivePlaybackLocked_def Let_def setExclusiveHeld_def on_playback_def split: option.splits)
  have "?s \<noteq> []" using assms(2,3) by auto
  then have "(res, r') = (Inr (Some p), stopOldPlayback old (releaseMediaAttachment ex ?r4))"
    using assms new repl t by (simp add: PlayAgentPlaylistIndex_def Let_def)
  moreover have stop: "\<exists>e pb. stopOldPlayback q (releaseMediaAttachment x r) = r\<lparr>exclusive := e, playbacks := pb\<rparr>" for q x r
  proof -
    have "\<exists>e. releaseMediaAttachment x r = r\<lparr>exclusive := e\<rparr>"
      by (cases x) (auto simp: releaseMediaAttachment_def intro: exI [of _ "exclusive r"])
    then obtain e where "releaseMediaAttachment x r = r\<lparr>exclusive := e\<rparr>" by blast
    moreover have "\<exists>pb. stopOldPlayback q r' = r'\<lparr>playbacks := pb\<rparr>" for r'
      by (cases q) (auto simp: stopOldPlayback_def on_playback_def intro: exI [of _ "playbacks r'"])
    ultimately show ?thesis by metis
  qed
  ultimately obtain e pb where "res = Inr (Some p)" "r' = ?r4\<lparr>exclusive := e, playbacks := pb\<rparr>" by blast
  then show ?thesis using p r2 by (simp add: start_track_def)
qed

definition on_playlist :: "player \<Rightarrow> bool" where
  \<comment> \<open>a playlist of an agent is played and its current index is one of it\<close>
  "on_playlist r \<longleftrightarrow> mode r = AgentPlaylist \<and> playlistAgentID r \<noteq> [] \<and> TrimSpace (playlistAgentID r) = playlistAgentID r
     \<and> 0 \<le> playbackIndex r \<and> playbackIndex r < int (length (snapshotAgentPlaylist (playlistAgentID r) r))"

lemma jump_index:
  assumes "on_playlist r"
  shows "\<exists>r'. jumpToRelative now d cfg r = (Inr (Some (nextPlayback r)), r')
    \<and> playbackIndex r' = (playbackIndex r + d) mod int (length (snapshotAgentPlaylist (playlistAgentID r) r))
    \<and> on_playlist r' \<and> Status r' = StatusPlaying \<and> PositionMs r' = 0
    \<and> snapshotAgentPlaylist (playlistAgentID r') r' = snapshotAgentPlaylist (playlistAgentID r) r
    \<and> CurrentTitle r' = Title (ItemSource (snapshotAgentPlaylist (playlistAgentID r) r ! nat (playbackIndex r')))"
proof -
  let ?s = "snapshotAgentPlaylist (playlistAgentID r) r"
  let ?i = "(playbackIndex r + d) mod int (length ?s)"
  have n: "0 < int (length ?s)" "?s \<noteq> []" using assms by (auto simp: on_playlist_def)
  have i: "0 \<le> ?i" "?i < int (length ?s)" using n(1) by simp_all
  have j: "jumpToRelative now d cfg r = PlayAgentPlaylistIndex now (playlistAgentID r) ?i cfg r"
    using assms n go_mod_positive [OF n(1), of "playbackIndex r + d"]
    by (simp add: jumpToRelative_def Let_def on_playlist_def)
  obtain res r' where p: "PlayAgentPlaylistIndex now (playlistAgentID r) ?i cfg r = (res, r')"
    by (cases "PlayAgentPlaylistIndex now (playlistAgentID r) ?i cfg r") simp
  have a: "TrimSpace (playlistAgentID r) \<noteq> []" using assms by (simp add: on_playlist_def)
  note f = play_index_result [OF a i p]
  have "snapshotAgentPlaylist (playlistAgentID r') r' = ?s"
    using f assms by (simp add: snapshotAgentPlaylist_def on_playlist_def)
  then show ?thesis using j p f i a by (auto simp: on_playlist_def)
qed

text \<open>Fact: Next and previous walk the playlist as a ring. On a playlist that plays, \<^verbatim>\<open>Next\<close> starts
  the following track and the first one after the last, \<^verbatim>\<open>Prev\<close> the preceding one and the last one before the first,
  each as a new playback from its beginning, and \<^verbatim>\<open>Prev\<close> after \<^verbatim>\<open>Next\<close> is back on the track it started from.\<close>

theorem next_and_prev_walk_a_ring:
  assumes "on_playlist r"
  defines "n \<equiv> int (length (snapshotAgentPlaylist (playlistAgentID r) r))"
  shows "fst (Next now cfg r) = Inr (Some (nextPlayback r)) \<and> playbackIndex (snd (Next now cfg r)) = (playbackIndex r + 1) mod n
    \<and> fst (Prev now cfg r) = Inr (Some (nextPlayback r)) \<and> playbackIndex (snd (Prev now cfg r)) = (playbackIndex r - 1) mod n
    \<and> Status (snd (Next now cfg r)) = StatusPlaying \<and> PositionMs (snd (Next now cfg r)) = 0
    \<and> CurrentTitle (snd (Next now cfg r))
        = Title (ItemSource (snapshotAgentPlaylist (playlistAgentID r) r ! nat ((playbackIndex r + 1) mod n)))
    \<and> playbackIndex (snd (Prev now' cfg' (snd (Next now cfg r)))) = playbackIndex r"
proof -
  obtain r1 where r1: "jumpToRelative now 1 cfg r = (Inr (Some (nextPlayback r)), r1)"
      "playbackIndex r1 = (playbackIndex r + 1) mod n" "on_playlist r1" "Status r1 = StatusPlaying" "PositionMs r1 = 0"
      "snapshotAgentPlaylist (playlistAgentID r1) r1 = snapshotAgentPlaylist (playlistAgentID r) r"
      "CurrentTitle r1 = Title (ItemSource (snapshotAgentPlaylist (playlistAgentID r) r ! nat (playbackIndex r1)))"
    using jump_index [OF assms(1), of now 1 cfg] unfolding n_def by blast
  obtain r2 where r2: "jumpToRelative now (- 1) cfg r = (Inr (Some (nextPlayback r)), r2)"
      "playbackIndex r2 = (playbackIndex r - 1) mod n"
    using jump_index [OF assms(1), of now "- 1" cfg] unfolding n_def by auto
  obtain r3 where r3: "jumpToRelative now' (- 1) cfg' r1 = (Inr (Some (nextPlayback r1)), r3)"
      "playbackIndex r3 = (playbackIndex r1 - 1) mod n"
    using jump_index [OF r1(3), of now' "- 1" cfg'] unfolding n_def r1(6) by auto
  have "playbackIndex r3 = playbackIndex r"
    using r3(2) r1(2) assms(1) by (simp add: mod_diff_left_eq n_def on_playlist_def)
  then show ?thesis using r1 r2 r3 by (simp add: Next_def Prev_def)
qed

definition ring_demo :: player where
  "ring_demo = (newDeviceMediaRuntime 0)\<lparr>mode := AgentPlaylist, playlistAgentID := [0x61], playbackIndex := 1,
     playlists := (\<lambda>_. Some (map (\<lambda>t. \<lparr>ItemID = t, ItemSource = \<lparr>SourceID = t, Title = t, MIMEType = [], SourceType = HTTPURL,
        Meta = None, MCP = None, HTTP = Some t, Local = None, Inline = None\<rparr>, AddedAt = 0\<rparr>) [[0x62], [0x63]]))\<rparr>"

lemma next_and_prev_walk_a_ring_witness:
  "playbackIndex (snd (Next 5 \<lparr>SampleRate = 16000, FrameDuration = 60\<rparr> ring_demo)) = 0"
proof -
  have t: "TrimSpace [0x61] = [0x61]" by code_simp
  have l: "length (snapshotAgentPlaylist (playlistAgentID ring_demo) ring_demo) = 2"
    by (simp add: ring_demo_def snapshotAgentPlaylist_def t cloneMediaPlaylistItems_def Let_def)
  have "on_playlist ring_demo"
    using l by (simp add: on_playlist_def) (simp add: ring_demo_def t)
  from next_and_prev_walk_a_ring [OF this, of 5 "\<lparr>SampleRate = 16000, FrameDuration = 60\<rparr>" 6 "\<lparr>SampleRate = 16000, FrameDuration = 60\<rparr>"]
  show ?thesis using l by (simp add: ring_demo_def)
qed

section \<open>Pausing and a change of session\<close>

text \<open>Fact: A pause keeps the place. Pausing a playing track and resuming it while a session is attached
  leaves the track, the position and the queue as they were, frees the output in between and ends in the
  status playing with the playback going on.\<close>

theorem pause_then_resume:
  fixes t1 t2 :: int and r :: player
  assumes "active r = Some p" and "attachment r = Some a"
  defines "r1 \<equiv> snd (Pause t1 r)" and "r2 \<equiv> snd (Resume t2 (snd (Pause t1 r)))"
  shows "fst (Pause t1 r) = None \<and> Status r1 = StatusPaused \<and> paused (playbacks r1 p) \<and> exclusiveAttachment r1 = None
      \<and> (\<forall>i s. exclusiveAttachment r = Some (i, s) \<longrightarrow> \<not> exclusive r1 s)
    \<and> fst (Resume t2 r1) = None \<and> Status r2 = StatusPlaying \<and> \<not> paused (playbacks r2 p) \<and> active r2 = Some p
      \<and> pauseReason r2 = ReasonNone
      \<and> (PositionMs r2, playbackIndex r2, currentSource r2, currentPlaybackQueueLocked r2)
        = (PositionMs r, playbackIndex r, currentSource r, currentPlaybackQueueLocked r)"
  using assms(1,2) unfolding r1_def r2_def
  by (cases "exclusiveAttachment r")
    (simp_all add: Pause_def pausePlayback_def Resume_def recoverActivePlayback_def setPaused_def on_playback_def setExclusiveHeld_def
      releaseMediaAttachment_def Let_def currentPlaybackQueueLocked_def snapshotAgentPlaylist_def split: prod.splits)

lemma pause_then_resume_witness:
  "Status (snd (Resume 3 (snd (Pause 2 (ring_demo\<lparr>active := Some 0, attachment := Some (0, 4)\<rparr>))))) = StatusPlaying"
  using pause_then_resume [of "ring_demo\<lparr>active := Some 0, attachment := Some (0, 4)\<rparr>" 0 "(0, 4)" 2 3] by simp

lemma recover_attached:
  "active r = Some p \<Longrightarrow> RecoverPlayback up now ids cfg TriggerAttach r =
     (if \<not> resumeOnAttach r then (Inr None, r)
      else if paused (playbacks r p) then as_result (recoverActivePlayback now r) else (Inr None, r\<lparr>resumeOnAttach := False\<rparr>))"
  by (simp add: RecoverPlayback_def)

text \<open>Fact: Only what the change of session interrupted is taken up again. When the session of a device goes
  away while a track plays, the track is paused with its place kept and the output released; attaching another
  session asks for a recovery, which plays on from the same place. When the user had paused the track
  himself, a new session does not ask for a recovery and the recovery on attaching does nothing.\<close>

theorem reattachment_resumes_only_the_interrupted:
  fixes s s' p i :: nat and t1 t2 :: int and r :: player and up :: "gostr \<Rightarrow> gostr option" and ids :: "nat \<Rightarrow> gostr" and cfg :: audio_config
  assumes "active r = Some p" and "attachment r = Some (i, s)" and "s' \<noteq> s"
    and "exclusiveAttachment r \<in> {None, Some (i, s)}"
  defines "away \<equiv> detachSession t1 s True r"
  defines "again \<equiv> attachSession s' away"
  defines "result \<equiv> RecoverPlayback up t2 ids cfg TriggerAttach (snd again)"
  shows "if Status r = StatusPlaying
    then Status away = StatusPaused \<and> paused (playbacks away p) \<and> attachment away = None \<and> exclusiveAttachment away = None
      \<and> fst again \<and> fst result = Inr None \<and> Status (snd result) = StatusPlaying \<and> \<not> paused (playbacks (snd result) p)
      \<and> \<not> resumeOnAttach (snd result) \<and> active (snd result) = Some p
      \<and> (PositionMs (snd result), playbackIndex (snd result), currentSource (snd result)) = (PositionMs r, playbackIndex r, currentSource r)
    else fst again = resumeOnAttach r \<and> (\<not> resumeOnAttach r \<longrightarrow> result = (Inr None, snd again) \<and> Status (snd result) = Status r
        \<and> playbacks (snd result) p = (if exclusiveAttachment r = None then playbacks r p else (playbacks r p)\<lparr>exclusiveHeld := False\<rparr>))"
proof (cases "Status r = StatusPlaying")
  case True
  then show ?thesis
    using assms(1-4) unfolding result_def again_def away_def
    by (cases "exclusiveAttachment r")
      (simp_all add: detachSession_def attachSession_def recover_attached recoverActivePlayback_def as_result_def setPaused_def
        on_playback_def setExclusiveHeld_def releaseMediaAttachment_def notifyAttachmentChangedLocked_def Let_def)
next
  case False
  then show ?thesis
    using assms(1-4) unfolding result_def again_def away_def
    by (cases "exclusiveAttachment r")
      (simp_all add: detachSession_def attachSession_def recover_attached
        on_playback_def setExclusiveHeld_def releaseMediaAttachment_def notifyAttachmentChangedLocked_def Let_def)
qed

lemma reattachment_resumes_only_the_interrupted_witness:
  "fst (attachSession 5 (detachSession 1 4 True (ring_demo\<lparr>active := Some 0, attachment := Some (0, 4), Status := StatusPlaying\<rparr>)))"
  using reattachment_resumes_only_the_interrupted
    [of "ring_demo\<lparr>active := Some 0, attachment := Some (0, 4), Status := StatusPlaying\<rparr>" 0 0 4 5 1 "\<lambda>_. None" 2 "\<lambda>_. []"
      "\<lparr>SampleRate = 16000, FrameDuration = 60\<rparr>"]
  by (simp add: ring_demo_def newDeviceMediaRuntime_def)

section \<open>Where the state and the playback part\<close>

text \<open>Fact: The end of a track overrides a pause in the public state. When the last frames of a track are
  still being delivered while the user pauses, the runtime goes to the next track with the status playing
  although the playback stays paused and sends nothing.\<close>

theorem advance_overrides_pause:
  assumes "active r = Some p" and "paused (playbacks r p)" and "0 \<le> playbackIndex r"
    and "playbackIndex r + 1 < int (length (currentPlaybackQueueLocked r))"
  shows "\<exists>r'. advanceAfterTrack now p i r = (Some (playbackIndex r + 1), r') \<and> Status r' = StatusPlaying \<and> paused (playbacks r' p)"
  using assms by (simp add: advanceAfterTrack_def refreshPublicStateLocked_def Let_def)

lemma advance_overrides_pause_witness:
  "\<exists>r'. advanceAfterTrack 5 0 0 (ring_demo\<lparr>active := Some 0, playbackIndex := 0, playbacks := (\<lambda>_. fresh_playback\<lparr>paused := True\<rparr>)\<rparr>) = (Some 1, r')
    \<and> Status r' = StatusPlaying"
proof -
  have t: "TrimSpace [0x61] = [0x61]" by code_simp
  let ?r = "ring_demo\<lparr>active := Some 0, playbackIndex := 0, playbacks := (\<lambda>_. fresh_playback\<lparr>paused := True\<rparr>)\<rparr>"
  have "length (currentPlaybackQueueLocked ?r) = 2"
    by (simp add: ring_demo_def currentPlaybackQueueLocked_def snapshotAgentPlaylist_def t cloneMediaPlaylistItems_def Let_def)
  then show ?thesis using advance_overrides_pause [of ?r 0 5 0] by auto
qed

text \<open>Fact: A playback that has ended can take the output from its successor. A playback that ended with its
  last track keeps the mark that it holds the output until its goroutine releases it. When a new track is started
  and takes the output in between, the late release clears the flag of the session's output although the new playback
  is active and playing on it.\<close>

theorem late_release_takes_the_output:
  fixes a s p :: nat and now i :: int and r :: player and up :: "gostr \<Rightarrow> gostr option" and ids :: "nat \<Rightarrow> gostr" and cfg :: audio_config
    and sources :: "media_source list"
  assumes "exclusiveHeld (playbacks r p)" and "p < nextPlayback r" and "active r = None" and "attachment r = Some (a, s)"
    and "sources \<noteq> []" and "0 \<le> i" and "i < int (length sources)"
  defines "q \<equiv> nextPlayback r"
  defines "r1 \<equiv> snd (ReplaceStandaloneQueueAndPlay up now ids sources i cfg r)"
  defines "r2 \<equiv> snd (BeginExclusiveMediaPlayback s True r1)"
  defines "r3 \<equiv> snd (take_exclusive q (a, s) r2)"
  defines "r4 \<equiv> releaseExclusivePlayback p r3"
  shows "exclusive r3 s \<and> holds_exclusive q (a, s) r3
    \<and> active r4 = Some q \<and> Status r4 = StatusPlaying \<and> exclusiveHeld (playbacks r4 q) \<and> \<not> exclusive r4 s"
proof -
  have r1: "active r1 = Some q \<and> attachment r1 = Some (a, s) \<and> Status r1 = StatusPlaying \<and> exclusiveAttachment r1 = None
      \<and> exclusiveHeld (playbacks r1 p)"
    using assms(1-7) unfolding r1_def q_def
    by (cases "exclusiveAttachment r")
      (auto simp: ReplaceStandaloneQueueAndPlay_def newActiveMediaPlayback_def replaceActivePlaybackLocked_def
        on_playback_def releaseMediaAttachment_def stopOldPlayback_def start_track_def Let_def)
  then have r2: "active r2 = Some q \<and> attachment r2 = Some (a, s) \<and> Status r2 = StatusPlaying \<and> exclusiveAttachment r2 = None
      \<and> exclusiveHeld (playbacks r2 p) \<and> exclusive r2 s"
    by (simp add: r2_def BeginExclusiveMediaPlayback_def)
  then have r3: "r3 = setExclusiveHeld q True (r2\<lparr>exclusiveAttachment := Some (a, s)\<rparr>)"
    by (simp add: r3_def take_exclusive_def releaseMediaAttachment_def)
  have "p \<noteq> q" using assms(2) by (simp add: q_def)
  then show ?thesis
    using r2 r3 by (simp add: r4_def releaseExclusivePlayback_def setExclusiveHeld_def on_playback_def releaseMediaAttachment_def
        holds_exclusive_def)
qed

lemma late_release_takes_the_output_witness:
  "\<exists>r4 :: player. active r4 = Some 3 \<and> Status r4 = StatusPlaying \<and> exclusiveHeld (playbacks r4 3) \<and> \<not> exclusive r4 4"
proof -
  define r where "r = ring_demo\<lparr>nextPlayback := 3, attachment := Some (0, 4), exclusiveAttachment := Some (0, 4),
    playbacks := (\<lambda>_. fresh_playback\<lparr>exclusiveHeld := True\<rparr>)\<rparr>"
  define src where "src = \<lparr>SourceID = [0x62], Title = [0x62], MIMEType = [], SourceType = HTTPURL, Meta = None, MCP = None,
    HTTP = Some [0x62], Local = None, Inline = None\<rparr>"
  have "exclusiveHeld (playbacks r 2)" "2 < nextPlayback r" "active r = None" "attachment r = Some (0, 4)" "[src] \<noteq> []"
    "(0::int) \<le> 0" "(0::int) < int (length [src])" and n: "nextPlayback r = 3"
    by (simp_all add: r_def ring_demo_def newDeviceMediaRuntime_def)
  note late = late_release_takes_the_output [OF this(1-7), of "\<lambda>_. None" 5 "\<lambda>_. []" "\<lparr>SampleRate = 16000, FrameDuration = 60\<rparr>"]
  from late [unfolded n] show ?thesis by blast
qed

end
