(* ===== verification/Media_Gate.thy ===== *)
theory Media_Gate
  imports Media_Player
begin

text \<open>
  The control of the media player by what the user says (\<^verbatim>\<open>realtime_media_gate.go\<close>, \<^verbatim>\<open>session_mcp_tool.go\<close>,
  \<^verbatim>\<open>local_mcp_media_control_tool.go\<close>): while a realtime session plays audio of a tool, a recognised text is first compared
  with the phrases that end the chat and with those that control the player, and is kept from the language model
  while the audio plays.
\<close>

section \<open>Text\<close>

definition is_punct :: "rune \<Rightarrow> bool" where
  \<comment> \<open>\<^verbatim>\<open>unicode.IsPunct\<close>: the category P of Unicode 15.0\<close>
  "is_punct r \<longleftrightarrow> (if r < 0x80 then in_ranges
     [(0x21, 0x23), (0x25, 0x2a), (0x2c, 0x2f), (0x3a, 0x3b), (0x3f, 0x40), (0x5b, 0x5d), (0x5f, 0x5f),
      (0x7b, 0x7b), (0x7d, 0x7d)] r else in_ranges
     [(0xa1, 0xa1), (0xa7, 0xa7), (0xab, 0xab), (0xb6, 0xb7), (0xbb, 0xbb),
      (0xbf, 0xbf), (0x37e, 0x37e), (0x387, 0x387), (0x55a, 0x55f), (0x589, 0x58a), (0x5be, 0x5be),
      (0x5c0, 0x5c0), (0x5c3, 0x5c3), (0x5c6, 0x5c6), (0x5f3, 0x5f4), (0x609, 0x60a), (0x60c, 0x60d),
      (0x61b, 0x61b), (0x61d, 0x61f), (0x66a, 0x66d), (0x6d4, 0x6d4), (0x700, 0x70d), (0x7f7, 0x7f9),
      (0x830, 0x83e), (0x85e, 0x85e), (0x964, 0x965), (0x970, 0x970), (0x9fd, 0x9fd), (0xa76, 0xa76),
      (0xaf0, 0xaf0), (0xc77, 0xc77), (0xc84, 0xc84), (0xdf4, 0xdf4), (0xe4f, 0xe4f), (0xe5a, 0xe5b),
      (0xf04, 0xf12), (0xf14, 0xf14), (0xf3a, 0xf3d), (0xf85, 0xf85), (0xfd0, 0xfd4), (0xfd9, 0xfda),
      (0x104a, 0x104f), (0x10fb, 0x10fb), (0x1360, 0x1368), (0x1400, 0x1400), (0x166e, 0x166e),
      (0x169b, 0x169c), (0x16eb, 0x16ed), (0x1735, 0x1736), (0x17d4, 0x17d6), (0x17d8, 0x17da),
      (0x1800, 0x180a), (0x1944, 0x1945), (0x1a1e, 0x1a1f), (0x1aa0, 0x1aa6), (0x1aa8, 0x1aad),
      (0x1b5a, 0x1b60), (0x1b7d, 0x1b7e), (0x1bfc, 0x1bff), (0x1c3b, 0x1c3f), (0x1c7e, 0x1c7f),
      (0x1cc0, 0x1cc7), (0x1cd3, 0x1cd3), (0x2010, 0x2027), (0x2030, 0x2043), (0x2045, 0x2051),
      (0x2053, 0x205e), (0x207d, 0x207e), (0x208d, 0x208e), (0x2308, 0x230b), (0x2329, 0x232a),
      (0x2768, 0x2775), (0x27c5, 0x27c6), (0x27e6, 0x27ef), (0x2983, 0x2998), (0x29d8, 0x29db),
      (0x29fc, 0x29fd), (0x2cf9, 0x2cfc), (0x2cfe, 0x2cff), (0x2d70, 0x2d70), (0x2e00, 0x2e2e),
      (0x2e30, 0x2e4f), (0x2e52, 0x2e5d), (0x3001, 0x3003), (0x3008, 0x3011), (0x3014, 0x301f),
      (0x3030, 0x3030), (0x303d, 0x303d), (0x30a0, 0x30a0), (0x30fb, 0x30fb), (0xa4fe, 0xa4ff),
      (0xa60d, 0xa60f), (0xa673, 0xa673), (0xa67e, 0xa67e), (0xa6f2, 0xa6f7), (0xa874, 0xa877),
      (0xa8ce, 0xa8cf), (0xa8f8, 0xa8fa), (0xa8fc, 0xa8fc), (0xa92e, 0xa92f), (0xa95f, 0xa95f),
      (0xa9c1, 0xa9cd), (0xa9de, 0xa9df), (0xaa5c, 0xaa5f), (0xaade, 0xaadf), (0xaaf0, 0xaaf1),
      (0xabeb, 0xabeb), (0xfd3e, 0xfd3f), (0xfe10, 0xfe19), (0xfe30, 0xfe52), (0xfe54, 0xfe61),
      (0xfe63, 0xfe63), (0xfe68, 0xfe68), (0xfe6a, 0xfe6b), (0xff01, 0xff03), (0xff05, 0xff0a),
      (0xff0c, 0xff0f), (0xff1a, 0xff1b), (0xff1f, 0xff20), (0xff3b, 0xff3d), (0xff3f, 0xff3f),
      (0xff5b, 0xff5b), (0xff5d, 0xff5d), (0xff5f, 0xff65), (0x10100, 0x10102), (0x1039f, 0x1039f),
      (0x103d0, 0x103d0), (0x1056f, 0x1056f), (0x10857, 0x10857), (0x1091f, 0x1091f), (0x1093f, 0x1093f),
      (0x10a50, 0x10a58), (0x10a7f, 0x10a7f), (0x10af0, 0x10af6), (0x10b39, 0x10b3f), (0x10b99, 0x10b9c),
      (0x10ead, 0x10ead), (0x10f55, 0x10f59), (0x10f86, 0x10f89), (0x11047, 0x1104d), (0x110bb, 0x110bc),
      (0x110be, 0x110c1), (0x11140, 0x11143), (0x11174, 0x11175), (0x111c5, 0x111c8), (0x111cd, 0x111cd),
      (0x111db, 0x111db), (0x111dd, 0x111df), (0x11238, 0x1123d), (0x112a9, 0x112a9), (0x1144b, 0x1144f),
      (0x1145a, 0x1145b), (0x1145d, 0x1145d), (0x114c6, 0x114c6), (0x115c1, 0x115d7), (0x11641, 0x11643),
      (0x11660, 0x1166c), (0x116b9, 0x116b9), (0x1173c, 0x1173e), (0x1183b, 0x1183b), (0x11944, 0x11946),
      (0x119e2, 0x119e2), (0x11a3f, 0x11a46), (0x11a9a, 0x11a9c), (0x11a9e, 0x11aa2), (0x11b00, 0x11b09),
      (0x11c41, 0x11c45), (0x11c70, 0x11c71), (0x11ef7, 0x11ef8), (0x11f43, 0x11f4f), (0x11fff, 0x11fff),
      (0x12470, 0x12474), (0x12ff1, 0x12ff2), (0x16a6e, 0x16a6f), (0x16af5, 0x16af5), (0x16b37, 0x16b3b),
      (0x16b44, 0x16b44), (0x16e97, 0x16e9a), (0x16fe2, 0x16fe2), (0x1bc9f, 0x1bc9f), (0x1da87, 0x1da8b),
      (0x1e95e, 0x1e95f)] r)"

definition lower_rune :: "rune \<Rightarrow> rune" where
  \<comment> \<open>\<^verbatim>\<open>unicode.ToLower\<close> as far as the result is ASCII, and the identity elsewhere: the text is only compared with
    ASCII phrases, and U+0130 and U+212A are the only other runes whose lower case is ASCII\<close>
  "lower_rune r = (if 0x41 \<le> r \<and> r \<le> 0x5a then r + 32 else if r = 0x130 then 0x69 else if r = 0x212a then 0x6b else r)"

definition removePunctuation :: "gostr \<Rightarrow> gostr" where
  "removePunctuation s = filter (\<lambda>r. \<not> is_punct r \<and> \<not> is_space r) s"

definition Contains :: "gostr \<Rightarrow> gostr \<Rightarrow> bool" where
  \<comment> \<open>\<^verbatim>\<open>strings.Contains\<close>\<close>
  "Contains s pat \<longleftrightarrow> list_ex (\<lambda>i. take (length pat) (drop i s) = pat) [0..<Suc (length s)]"

definition normalizeRealtimeMcpAudioText :: "gostr \<Rightarrow> gostr" where
  "normalizeRealtimeMcpAudioText s = removePunctuation (map lower_rune (TrimSpace s))"

section \<open>The rules\<close>

type_synonym music_rule = "string \<times> string list"  \<comment> \<open>the action, its keywords\<close>

definition realtimeMcpAudioControlRules :: "music_rule list" where
  "realtimeMcpAudioControlRules =
     [(''play_playlist'', [''play playlist'', ''play songs in playlist'', ''play playlist songs'', ''play the playlist'']),
      (''enqueue_current'', [''add to playlist'', ''add to playlist'', ''add to playlist'', ''add to playlist'']),
      (''resume'', [''resume'', ''resume playing'', ''keep listening'', ''keep playing'', ''continue playing'']),
      (''pause'', [''pause'', ''pause first'', ''stop a moment'']),
      (''stop'', [''stop playing'', ''stop'', ''stop playing'', ''stop playing'']),
      (''next'', [''next'', ''next song'', ''skip to next'', ''skip song'']),
      (''prev'', [''previous'', ''previous song'', ''skip to previous''])]"

definition realtimeMcpAudioExitKeywords :: "string list" where
  "realtimeMcpAudioExitKeywords =
     [''goodbye'', ''bye bye'', ''bye'', ''see you'', ''exit'', ''exit conversation'', ''step down'']"

definition keyword_matches :: "gostr \<Rightarrow> string \<Rightarrow> bool" where
  "keyword_matches normalized kw \<longleftrightarrow>
     (let k = normalizeRealtimeMcpAudioText (runes kw) in k \<noteq> [] \<and> Contains normalized k)"

definition detectRealtimeMcpAudioControlAction :: "gostr \<Rightarrow> string" where
  \<comment> \<open>the empty string when no rule matches\<close>
  "detectRealtimeMcpAudioControlAction s =
     (let n = normalizeRealtimeMcpAudioText s
      in if n = [] then []
         else (case find (\<lambda>rule. list_ex (keyword_matches n) (snd rule)) realtimeMcpAudioControlRules of
                 None \<Rightarrow> [] | Some rule \<Rightarrow> fst rule))"

definition isRealtimeMcpAudioExitCommand :: "gostr \<Rightarrow> bool" where
  "isRealtimeMcpAudioExitCommand s =
     (let n = normalizeRealtimeMcpAudioText s in n \<noteq> [] \<and> list_ex (keyword_matches n) realtimeMcpAudioExitKeywords)"

section \<open>Controlling the player\<close>

definition normalizeMusicPlaybackAction :: "gostr \<Rightarrow> string" where
  "normalizeMusicPlaybackAction action =
     (let a = map lower_rune (TrimSpace action); one_of = (\<lambda>names. a \<in> set (map runes names))
      in if one_of [''play'', ''resume'', ''continue''] then ''resume''
         else if one_of [''pause''] then ''pause''
         else if one_of [''stop''] then ''stop''
         else if one_of [''prev'', ''previous''] then ''prev''
         else if one_of [''next''] then ''next''
         else if one_of [''play_playlist'', ''play_agent_playlist'', ''play_playlist_songs'', ''playlist''] then ''play_playlist''
         else if one_of [''enqueue_current'', ''append_current'', ''add_current_to_playlist''] then ''enqueue_current''
         else [])"

record control_result =
  Action :: string
  crStatus :: playback_status
  crCurrentTitle :: gostr
  crCurrentIndex :: int
  crPlaylistLength :: int
  crCurrentSource :: source_type
  crPositionMs :: int
  crAddedTitle :: gostr
  SilenceResponse :: bool

datatype control_error = Unavailable | UnsupportedAction | PlayerError media_error

record control_env =
  ceURLPath :: "gostr \<Rightarrow> gostr option"
  ceNow :: int
  ceIDs :: "nat \<Rightarrow> gostr"
  ceConfig :: audio_config
  ceAgent :: gostr

definition as_outcome :: "(media_error + 'a) \<times> player \<Rightarrow> media_error option \<times> player" where
  "as_outcome er = (case fst er of Inl e \<Rightarrow> Some e | Inr _ \<Rightarrow> None, snd er)"

definition run_action :: "control_env \<Rightarrow> string \<Rightarrow> player \<Rightarrow> media_error option \<times> gostr \<times> player" where
  \<comment> \<open>the \<^verbatim>\<open>switch\<close> of \<^verbatim>\<open>controlMusicPlayback\<close>, with the title added\<close>
  "run_action e a r =
     (let plain = (\<lambda>(err, r). (err, [], r))
      in if a = ''resume'' then plain (as_outcome (RecoverPlayback (ceURLPath e) (ceNow e) (ceIDs e) (ceConfig e) TriggerUser r))
         else if a = ''play_playlist'' then plain (Pause (ceNow e) r)
         else if a = ''stop'' then plain (None, Stop (ceNow e) r)
         else if a = ''prev'' then plain (as_outcome (Prev (ceNow e) (ceConfig e) r))
         else if a = ''next'' then plain (as_outcome (Next (ceNow e) (ceConfig e) r))
         else if a = ''play_playlist'' then plain (as_outcome (PlayAgentPlaylist (ceNow e) (ceAgent e) (ceConfig e) r))
         else if a = ''enqueue_current'' then
           (case AppendCurrentToAgentPlaylist (ceURLPath e) (ceNow e) (ceIDs e 0) (ceAgent e) r of
              (Inl err, r) \<Rightarrow> (Some err, [], r)
            | (Inr res, r) \<Rightarrow> (None, AddedTitle res, snd (ResumeIfInterruptedPause (ceNow e) r)))
         else (None, [], r))"

definition controlMusicPlayback :: "control_env \<Rightarrow> gostr \<Rightarrow> player \<Rightarrow> (control_error + control_result) \<times> player" where
  \<comment> \<open>of a session that has a player, with parameters that are not nil\<close>
  "controlMusicPlayback e action r =
     (let a = normalizeMusicPlaybackAction action
      in if a = [] then (Inl UnsupportedAction, r)
         else (case run_action e a r of
                 (Some err, _, r) \<Rightarrow> (Inl (PlayerError err), r)
               | (None, added, r) \<Rightarrow>
                   (let r = GetState r
                    in (Inr \<lparr>Action = a, crStatus = Status r, crCurrentTitle = CurrentTitle r, crCurrentIndex = CurrentIndex r,
                             crPlaylistLength = int (length (Playlist r)), crCurrentSource = CurrentSourceType r,
                             crPositionMs = PositionMs r, crAddedTitle = added, SilenceResponse = True\<rparr>, r))))"

definition buildMusicPlaybackControlMessage :: "control_result option \<Rightarrow> gostr" where
  "buildMusicPlaybackControlMessage result =
     (case result of
        None \<Rightarrow> runes ''media control already complete''
      | Some c \<Rightarrow>
          (let titled = (\<lambda>t with_title without. if t \<noteq> [] then runes with_title @ runes '': '' @ t else runes without);
               current = crCurrentTitle c
           in if Action c = ''resume'' then titled current ''already continue play'' ''already continue play''
              else if Action c = ''play_playlist'' then titled current ''already pause'' ''already pause play''
              else if Action c = ''stop'' then titled current ''already stop'' ''already stop play''
              else if Action c = ''prev'' then titled current ''already switch to previous'' ''already switch to previous''
              else if Action c = ''next'' then titled current ''already switch to next'' ''already switch to next''
              else if Action c = ''play_playlist'' then titled current ''already start play playlist'' ''already start play playlist''
              else if Action c = ''enqueue_current'' then titled (crAddedTitle c) ''already add current play source to playlist'' ''already add current play source to playlist''
              else runes ''media control already complete''))"

section \<open>The gate\<close>

record gate_session =
  IsRealTime :: bool
  MediaPlayer :: "player option"
  ExitChatEvents :: "gostr list"  \<comment> \<open>published, newest first\<close>

definition session_hasRealtimeMcpAudioControlContext :: "gate_session \<Rightarrow> bool" where
  "session_hasRealtimeMcpAudioControlContext s =
     (case MediaPlayer s of None \<Rightarrow> False | Some r \<Rightarrow> IsRealTime s \<and> hasRealtimeMcpAudioControlContext r)"

definition isRealtimeMcpAudioGateActive :: "gate_session \<Rightarrow> bool" where
  "isRealtimeMcpAudioGateActive s =
     (case MediaPlayer s of None \<Rightarrow> False | Some r \<Rightarrow> IsRealTime s \<and> shouldGateRealtimeMcpAudioASR r)"

definition tryHandleRealtimeMcpAudioASR :: "control_env \<Rightarrow> gostr \<Rightarrow> gate_session \<Rightarrow> bool \<times> gate_session" where
  "tryHandleRealtimeMcpAudioASR e s session =
     (if \<not> session_hasRealtimeMcpAudioControlContext session then (False, session)
      else if isRealtimeMcpAudioExitCommand s then (True, session\<lparr>ExitChatEvents := s # ExitChatEvents session\<rparr>)
      else (let action = detectRealtimeMcpAudioControlAction s
            in if action \<noteq> [] then
                 (True, session\<lparr>MediaPlayer := map_option (\<lambda>r. snd (controlMusicPlayback e (runes action) r)) (MediaPlayer session)\<rparr>)
               else (isRealtimeMcpAudioGateActive session, session)))"

section \<open>Properties\<close>

lemma gate_active_has_context: "isRealtimeMcpAudioGateActive s \<Longrightarrow> session_hasRealtimeMcpAudioControlContext s"
  by (auto simp: isRealtimeMcpAudioGateActive_def session_hasRealtimeMcpAudioControlContext_def shouldGateRealtimeMcpAudioASR_def
      hasRealtimeMcpAudioControlContext_def realtimeMcpAudioGateStatus_def Let_def split: option.splits if_splits)

text \<open>Fact: Audio that plays is not talked over. While the gate of a realtime session is active, every recognised text
  is handled by the gate and none reaches the language model; without a control context, in particular without a
  realtime session, no text is handled and neither the player nor the session changes.\<close>

theorem gate_keeps_every_text:
  "(isRealtimeMcpAudioGateActive session \<longrightarrow> fst (tryHandleRealtimeMcpAudioASR e s session))
    \<and> (\<not> session_hasRealtimeMcpAudioControlContext session \<longrightarrow> tryHandleRealtimeMcpAudioASR e s session = (False, session))"
  using gate_active_has_context by (auto simp: tryHandleRealtimeMcpAudioASR_def Let_def)

lemma rule_actions_normal:
  "list_all (\<lambda>rule. normalizeMusicPlaybackAction (runes (fst rule)) = fst rule \<and> fst rule \<noteq> []) realtimeMcpAudioControlRules"
  by code_simp

text \<open>Fact: Whatever the gate detects can be carried out. Every action it finds in a text is one that the
  control of the player supports, under its own name, so a detected command is never refused as unsupported.\<close>

theorem detected_action_is_supported:
  assumes "detectRealtimeMcpAudioControlAction s \<noteq> []"
  shows "normalizeMusicPlaybackAction (runes (detectRealtimeMcpAudioControlAction s)) = detectRealtimeMcpAudioControlAction s
    \<and> fst (controlMusicPlayback e (runes (detectRealtimeMcpAudioControlAction s)) r) \<noteq> Inl UnsupportedAction"
proof -
  obtain rule where "rule \<in> set realtimeMcpAudioControlRules" "detectRealtimeMcpAudioControlAction s = fst rule"
  proof (cases "find (\<lambda>rule. list_ex (keyword_matches (normalizeRealtimeMcpAudioText s)) (snd rule)) realtimeMcpAudioControlRules")
    case None
    then show ?thesis using assms by (simp add: detectRealtimeMcpAudioControlAction_def Let_def split: if_splits)
  next
    case (Some rule)
    then have "rule \<in> set realtimeMcpAudioControlRules" by (auto simp: find_Some_iff)
    then show ?thesis
      using that [of rule] Some assms by (simp add: detectRealtimeMcpAudioControlAction_def Let_def split: if_splits)
  qed
  then have n: "normalizeMusicPlaybackAction (runes (detectRealtimeMcpAudioControlAction s)) = detectRealtimeMcpAudioControlAction s"
    using rule_actions_normal by (auto simp: list_all_iff)
  then show ?thesis
    using assms by (auto simp: controlMusicPlayback_def Let_def split: option.splits prod.splits)
qed

lemma detected_action_is_supported_witness:
  "detectRealtimeMcpAudioControlAction (runes ''Play playlist'') = ''play_playlist''
    \<and> normalizeMusicPlaybackAction (runes (detectRealtimeMcpAudioControlAction (runes ''Play playlist''))) = ''play_playlist''"
proof -
  have d: "detectRealtimeMcpAudioControlAction (runes ''Play playlist'') = ''play_playlist''" by code_simp
  show ?thesis using detected_action_is_supported [of "runes ''Play playlist''"] d by simp
qed

text \<open>Fact: A harmless text ends the chat. The normalisation removes the spaces as well as the punctuation, so a
  keyword is also found across the boundary of two words: saying ''by ear'' while audio plays is taken
  for ''bye'' and ends the chat.\<close>

theorem by_ear_exits:
  "isRealtimeMcpAudioExitCommand (runes ''By ear.'') \<and> \<not> isRealtimeMcpAudioExitCommand (runes ''By now.'')"
  by code_simp

end
