(* ===== verification/Media_Source.thy ===== *)
theory Media_Source
  imports Media_Gate
begin

text \<open>
  Reading an audio resource of an MCP server page by page (\<^verbatim>\<open>streamMCPResourceToPipe\<close> and
  \<^verbatim>\<open>readMCPResourcePage\<close> of \<^verbatim>\<open>media_player.go\<close>). The server, the registry of clients and the moments at which
  the playback is cancelled or the reader of the pipe goes away are parameters; base64 is the strict-alphabet decoder of
  \<^verbatim>\<open>base64.StdEncoding\<close>.
\<close>

section \<open>Base64\<close>

definition sextet :: "byte \<Rightarrow> nat option" where
  "sextet c =
     (let n = unat c
      in if 0x41 \<le> n \<and> n \<le> 0x5a then Some (n - 0x41)
         else if 0x61 \<le> n \<and> n \<le> 0x7a then Some (n - 0x61 + 26)
         else if 0x30 \<le> n \<and> n \<le> 0x39 then Some (n - 0x30 + 52)
         else if n = 0x2b then Some 62 else if n = 0x2f then Some 63 else None)"

definition three_bytes :: "nat \<Rightarrow> bytes" where
  "three_bytes v = [of_nat (v div 65536), of_nat (v div 256 mod 256), of_nat (v mod 256)]"

fun decode_groups :: "bytes \<Rightarrow> bytes option" where
  "decode_groups [] = Some []"
| "decode_groups (a # b # c # d # rest) =
     (case (sextet a, sextet b) of
        (Some x, Some y) \<Rightarrow>
          if c = 0x3d then
            (if d = 0x3d \<and> rest = [] then Some (take 1 (three_bytes (x * 262144 + y * 4096))) else None)
          else
            (case sextet c of
               None \<Rightarrow> None
             | Some z \<Rightarrow>
                 if d = 0x3d then
                   (if rest = [] then Some (take 2 (three_bytes (x * 262144 + y * 4096 + z * 64))) else None)
                 else
                   (case (sextet d, decode_groups rest) of
                      (Some w, Some ds) \<Rightarrow> Some (three_bytes (x * 262144 + y * 4096 + z * 64 + w) @ ds)
                    | _ \<Rightarrow> None))
      | _ \<Rightarrow> None)"
| "decode_groups _ = None"

definition base64_decode :: "bytes \<Rightarrow> bytes option" where
  \<comment> \<open>line ends are skipped wherever they stand; the bits after the last byte are not checked\<close>
  "base64_decode s = decode_groups (filter (\<lambda>c. c \<noteq> 0x0a \<and> c \<noteq> 0x0d) s)"

section \<open>A page\<close>

datatype resource_content = Blob bytes | OtherContents
datatype read_result = ReadError gostr | Contents "resource_content list"  \<comment> \<open>the nil result has no contents\<close>

record mcp_env =
  GetServerClientByName :: "gostr \<Rightarrow> nat option"
  ReconnectServerByName :: "gostr \<Rightarrow> nat option"
  ReadResource :: "nat \<Rightarrow> gostr \<Rightarrow> (gostr \<times> any_value) list \<Rightarrow> read_result"

datatype page_error = ClientUnavailable | ReadFailed gostr | ReconnectFailed

definition as_page :: "read_result \<Rightarrow> page_error + resource_content list" where
  "as_page res = (case res of ReadError e \<Rightarrow> Inl (ReadFailed e) | Contents cs \<Rightarrow> Inr cs)"

definition readMCPResourcePage ::
  "mcp_env \<Rightarrow> mcp_source \<Rightarrow> nat option \<Rightarrow> (gostr \<times> any_value) list \<Rightarrow> (page_error + resource_content list) \<times> mcp_source" where
  "readMCPResourcePage env source client readArgs =
     (let client = (if client = None \<and> ServerName source \<noteq> [] then GetServerClientByName env (ServerName source) else client)
      in case client of
           None \<Rightarrow> (Inl ClientUnavailable, source)
         | Some c \<Rightarrow>
             (case ReadResource env c (ResourceURI source) readArgs of
                Contents cs \<Rightarrow> (Inr cs, source)
              | ReadError e \<Rightarrow>
                  if ServerName source = [] \<or> \<not> Contains e (runes ''session closed'') then (Inl (ReadFailed e), source)
                  else (case ReconnectServerByName env (ServerName source) of
                          None \<Rightarrow> (Inl ReconnectFailed, source)
                        | Some newClient \<Rightarrow>
                            (as_page (ReadResource env newClient (ResourceURI source) readArgs), source\<lparr>Client := Some newClient\<rparr>))))"

section \<open>The pipe\<close>

datatype pipe_error = PipeCancelled | PipeRead page_error | PipeDecode | PipeWrite
datatype pipe_end = PipeClosed | PipeClosedWith pipe_error | PipePanic

record pipe =
  written :: bytes
  waits :: nat   \<comment> \<open>how often \<^verbatim>\<open>waitIfPaused\<close> was called\<close>
  writes :: nat

record pipe_env =
  wait_ok :: "nat \<Rightarrow> bool"  \<comment> \<open>the call of \<^verbatim>\<open>waitIfPaused\<close> returns no error\<close>
  write_ok :: "nat \<Rightarrow> bool"

definition DoneFlag :: bytes where
  "DoneFlag = map of_int (runes ''[DONE]'')"

fun stream_contents ::
  "pipe_env \<Rightarrow> int \<Rightarrow> resource_content list \<Rightarrow> bool \<Rightarrow> pipe \<Rightarrow> (pipe_end + bool) \<times> pipe" where
  \<comment> \<open>the inner loop: it ends the stream, or gives \<^verbatim>\<open>hasData\<close>\<close>
  "stream_contents pe pageSize [] hasData w = (Inr hasData, w)"
| "stream_contents pe pageSize (OtherContents # cs) hasData w = stream_contents pe pageSize cs hasData w"
| "stream_contents pe pageSize (Blob b # cs) hasData w =
     (if b = [] then stream_contents pe pageSize cs hasData w
      else (case base64_decode b of
              None \<Rightarrow> (Inl (PipeClosedWith PipeDecode), w)
            | Some raw \<Rightarrow>
                if raw = DoneFlag then (Inl PipeClosed, w)
                else (let ok = wait_ok pe (waits w); w = w\<lparr>waits := Suc (waits w)\<rparr>
                      in if \<not> ok then (Inl (PipeClosedWith PipeCancelled), w)
                         else if \<not> write_ok pe (writes w) then (Inl (PipeClosedWith PipeWrite), w\<lparr>writes := Suc (writes w)\<rparr>)
                         else (let w = w\<lparr>written := written w @ raw, writes := Suc (writes w)\<rparr>
                               in if int (length raw) < pageSize then (Inl PipeClosed, w)
                                  else stream_contents pe pageSize cs True w))))"

definition page_args :: "(gostr \<times> any_value) list \<Rightarrow> int \<Rightarrow> int \<Rightarrow> (gostr \<times> any_value) list" where
  \<comment> \<open>the arguments with \<^verbatim>\<open>start\<close> and \<^verbatim>\<open>end\<close> set\<close>
  "page_args kvs start pageSize =
     (runes ''start'', AnyInt start) # (runes ''end'', AnyInt (start + pageSize))
       # filter (\<lambda>(k, _). k \<noteq> runes ''start'' \<and> k \<noteq> runes ''end'') kvs"

fun stream_pages ::
  "mcp_env \<Rightarrow> pipe_env \<Rightarrow> nat \<Rightarrow> nat option \<Rightarrow> int \<Rightarrow> int \<Rightarrow> mcp_source \<Rightarrow> pipe \<Rightarrow> (pipe_end \<times> mcp_source \<times> pipe) option" where
  \<comment> \<open>the outer loop, with fuel; \<open>None\<close>: still reading\<close>
  "stream_pages env pe 0 client start pageSize source w = None"
| "stream_pages env pe (Suc fuel) client start pageSize source w =
     (let ok = wait_ok pe (waits w); w = w\<lparr>waits := Suc (waits w)\<rparr>
      in if \<not> ok then Some (PipeClosedWith PipeCancelled, source, w)
         else (case cloneMediaSourceMap (ReadArgs source) of
                 None \<Rightarrow> Some (PipePanic, source, w)
               | Some kvs \<Rightarrow>
                   (case readMCPResourcePage env source client (page_args kvs start pageSize) of
                      (Inl e, source) \<Rightarrow> Some (PipeClosedWith (PipeRead e), source, w)
                    | (Inr cs, source) \<Rightarrow>
                        if cs = [] then Some (PipeClosed, source, w)
                        else (case stream_contents pe pageSize cs False w of
                                (Inl ended, w) \<Rightarrow> Some (ended, source, w)
                              | (Inr hasData, w) \<Rightarrow>
                                  if \<not> hasData then Some (PipeClosed, source, w)
                                  else stream_pages env pe fuel client (start + pageSize) pageSize source w))))"

definition streamMCPResourceToPipe :: "mcp_env \<Rightarrow> pipe_env \<Rightarrow> nat \<Rightarrow> mcp_source \<Rightarrow> (pipe_end \<times> mcp_source \<times> pipe) option" where
  "streamMCPResourceToPipe env pe fuel source =
     stream_pages env pe fuel (Client source) 0 (if PageSize source \<le> 0 then 16384 else PageSize source) source
       \<lparr>written = [], waits = 0, writes = 0\<rparr>"

section \<open>The encoder of a server\<close>

definition sextet_char :: "nat \<Rightarrow> byte" where
  "sextet_char n =
     of_nat (if n < 26 then n + 0x41 else if n < 52 then n - 26 + 0x61 else if n < 62 then n - 52 + 0x30
             else if n = 62 then 0x2b else 0x2f)"

fun encode_groups :: "bytes \<Rightarrow> bytes" where
  "encode_groups [] = []"
| "encode_groups [x] = (let v = unat x * 65536 in [sextet_char (v div 262144), sextet_char (v div 4096 mod 64), 0x3d, 0x3d])"
| "encode_groups [x, y] =
     (let v = unat x * 65536 + unat y * 256
      in [sextet_char (v div 262144), sextet_char (v div 4096 mod 64), sextet_char (v div 64 mod 64), 0x3d])"
| "encode_groups (x # y # z # rest) =
     (let v = unat x * 65536 + unat y * 256 + unat z
      in [sextet_char (v div 262144), sextet_char (v div 4096 mod 64), sextet_char (v div 64 mod 64), sextet_char (v mod 64)]
         @ encode_groups rest)"

lemma all_sextets: "list_all (\<lambda>n. sextet (sextet_char n) = Some n \<and> sextet_char n \<notin> {0x3d, 0x0a, 0x0d}) [0..<64]"
  by code_simp

lemma sextet_char:
  assumes "n < 64"
  shows "sextet (sextet_char n) = Some n" and "sextet_char n \<noteq> 0x3d" and "sextet_char n \<noteq> 0x0a" and "sextet_char n \<noteq> 0x0d"
  using all_sextets assms by (simp_all add: list_all_iff)

lemma join_sextets:
  fixes v :: nat
  shows "v div 262144 * 262144 + v div 4096 mod 64 * 4096 + v div 64 mod 64 * 64 + v mod 64 = v"
proof -
  have "v div 64 * 64 + v mod 64 = v" by (rule div_mult_mod_eq)
  moreover have "v div 4096 * 64 + v div 64 mod 64 = v div 64"
    using div_mult_mod_eq [of "v div 64" 64] by (simp add: div_mult2_eq [symmetric])
  moreover have "v div 262144 * 64 + v div 4096 mod 64 = v div 4096"
    using div_mult_mod_eq [of "v div 4096" 64] by (simp add: div_mult2_eq [symmetric])
  ultimately show ?thesis by linarith
qed

lemma byte_bounds: "unat (x :: byte) < 256"
  using unsigned_less [of x] by simp

lemma join_exact:
  fixes v :: nat
  shows "v mod 64 = 0 \<Longrightarrow> v div 262144 * 262144 + v div 4096 mod 64 * 4096 + v div 64 mod 64 * 64 = v"
    and "v mod 4096 = 0 \<Longrightarrow> v div 262144 * 262144 + v div 4096 mod 64 * 4096 = v"
proof -
  show "v mod 64 = 0 \<Longrightarrow> v div 262144 * 262144 + v div 4096 mod 64 * 4096 + v div 64 mod 64 * 64 = v"
    using join_sextets [of v] by simp
  assume "v mod 4096 = 0"
  moreover have "v div 262144 * 64 + v div 4096 mod 64 = v div 4096"
    using div_mult_mod_eq [of "v div 4096" 64] by (simp add: div_mult2_eq [symmetric])
  moreover have "v div 4096 * 4096 + v mod 4096 = v" by (rule div_mult_mod_eq)
  ultimately show "v div 262144 * 262144 + v div 4096 mod 64 * 4096 = v" by linarith
qed

lemma unjoin_nat:
  fixes a b c :: nat
  assumes "a < 256" "b < 256" "c < 256"
  shows "(a * 65536 + b * 256 + c) div 65536 = a" and "(a * 65536 + b * 256 + c) div 256 mod 256 = b"
    and "(a * 65536 + b * 256 + c) mod 256 = c" and "(a * 65536 + b * 256 + c) div 262144 < 64"
proof -
  show "(a * 65536 + b * 256 + c) div 65536 = a" by (rule div_nat_eqI) (use assms in simp_all)
  have "(a * 65536 + b * 256 + c) div 256 = a * 256 + b" by (rule div_nat_eqI) (use assms in simp_all)
  then show "(a * 65536 + b * 256 + c) div 256 mod 256 = b" using assms by simp
  have "a * 65536 + b * 256 + c = c + (a * 256 + b) * 256" by simp
  then show "(a * 65536 + b * 256 + c) mod 256 = c" using assms by (metis mod_mult_self1 mod_less)
  show "(a * 65536 + b * 256 + c) div 262144 < 64" using assms by (simp add: less_mult_imp_div_less)
qed

lemma unjoin_bytes: "three_bytes (unat x * 65536 + unat y * 256 + unat z) = [x, y, z]"
  using unjoin_nat [OF byte_bounds byte_bounds byte_bounds, of x y z] by (simp add: three_bytes_def)

lemma decode_four:
  assumes "n1 < 64" "n2 < 64" "n3 < 64" "n4 < 64" and "n1 * 262144 + n2 * 4096 + n3 * 64 + n4 = v" and "decode_groups rest = Some ds"
  shows "decode_groups (sextet_char n1 # sextet_char n2 # sextet_char n3 # sextet_char n4 # rest) = Some (three_bytes v @ ds)"
  using assms by (simp add: sextet_char)

lemma decode_three:
  assumes "n1 < 64" "n2 < 64" "n3 < 64" and "n1 * 262144 + n2 * 4096 + n3 * 64 = v"
  shows "decode_groups [sextet_char n1, sextet_char n2, sextet_char n3, 0x3d] = Some (take 2 (three_bytes v))"
  using assms by (simp add: sextet_char)

lemma decode_two:
  assumes "n1 < 64" "n2 < 64" and "n1 * 262144 + n2 * 4096 = v"
  shows "decode_groups [sextet_char n1, sextet_char n2, 0x3d, 0x3d] = Some (take 1 (three_bytes v))"
  using assms by (simp add: sextet_char)

lemma mod64: "(v :: nat) mod 64 < 64"
  by simp

lemma decode_encode_groups: "decode_groups (encode_groups xs) = Some xs"
proof (induction xs rule: encode_groups.induct)
  case (2 x)
  let ?v = "unat x * 65536"
  have "?v div 262144 < 64" using unjoin_nat(4) [OF byte_bounds, of 0 0 x] by simp
  moreover have "?v mod 4096 = 0" by simp
  ultimately have "decode_groups (encode_groups [x]) = Some (take 1 (three_bytes ?v))"
    unfolding encode_groups.simps Let_def by (intro decode_two join_exact(2) mod64)
  moreover have "three_bytes ?v = [x, 0, 0]" using unjoin_bytes [of x 0 0] by simp
  ultimately show ?case by simp
next
  case (3 x y)
  let ?v = "unat x * 65536 + unat y * 256"
  have "?v div 262144 < 64" using unjoin_nat(4) [OF byte_bounds byte_bounds, of 0 x y] by simp
  moreover have "?v mod 64 = 0" by simp
  ultimately have "decode_groups (encode_groups [x, y]) = Some (take 2 (three_bytes ?v))"
    unfolding encode_groups.simps Let_def by (intro decode_three join_exact(1) mod64)
  moreover have "three_bytes ?v = [x, y, 0]" using unjoin_bytes [of x y 0] by simp
  ultimately show ?case by simp
next
  case (4 x y z rest)
  let ?v = "unat x * 65536 + unat y * 256 + unat z"
  have b: "?v div 262144 < 64" by (rule unjoin_nat(4) [OF byte_bounds byte_bounds byte_bounds])
  have "decode_groups (encode_groups (x # y # z # rest)) = Some (three_bytes ?v @ rest)"
    unfolding encode_groups.simps Let_def append.simps by (rule decode_four [OF b mod64 mod64 mod64 join_sextets 4 [OF refl]])
  then show ?case by (simp add: unjoin_bytes)
qed simp

lemma encoded_chars: "list_all (\<lambda>c. c \<noteq> 0x0a \<and> c \<noteq> 0x0d) (encode_groups xs)"
proof (induction xs rule: encode_groups.induct)
  case (2 x)
  have "unat x * 65536 div 262144 < 64" using unjoin_nat(4) [OF byte_bounds, of 0 0 x] by simp
  then show ?case unfolding encode_groups.simps Let_def by (simp only: list.pred_inject sextet_char(3,4) mod64) simp
next
  case (3 x y)
  have "(unat x * 65536 + unat y * 256) div 262144 < 64" using unjoin_nat(4) [OF byte_bounds byte_bounds, of 0 x y] by simp
  then show ?case unfolding encode_groups.simps Let_def by (simp only: list.pred_inject sextet_char(3,4) mod64) simp
next
  case (4 x y z rest)
  have "(unat x * 65536 + unat y * 256 + unat z) div 262144 < 64" by (rule unjoin_nat(4) [OF byte_bounds byte_bounds byte_bounds])
  then show ?case using 4 [OF refl] unfolding encode_groups.simps Let_def append.simps
    by (simp only: list.pred_inject sextet_char(3,4) mod64) simp
qed simp

lemma base64_round_trip: "base64_decode (encode_groups xs) = Some xs"
proof -
  have "filter (\<lambda>c. c \<noteq> 0x0a \<and> c \<noteq> 0x0d) (encode_groups xs) = encode_groups xs"
    using encoded_chars [of xs] by (simp add: filter_id_conv list_all_iff)
  then show ?thesis by (simp add: base64_decode_def decode_encode_groups)
qed

section \<open>Reading a resource\<close>

definition page :: "bytes \<Rightarrow> int \<Rightarrow> int \<Rightarrow> bytes" where
  "page file start pageSize = take (nat pageSize) (drop (nat start) file)"

definition serves :: "mcp_env \<Rightarrow> nat \<Rightarrow> gostr \<Rightarrow> bytes \<Rightarrow> bool" where
  \<comment> \<open>a server that gives the bytes from \<^verbatim>\<open>start\<close> to \<^verbatim>\<open>end\<close> as one blob, and nothing behind the end of the file\<close>
  "serves env c uri file \<longleftrightarrow>
     (\<forall>kvs start pageSize. ReadResource env c uri (page_args kvs start pageSize)
        = Contents (if page file start pageSize = [] then [] else [Blob (encode_groups (page file start pageSize))]))"

lemma encode_nonempty: "xs \<noteq> [] \<Longrightarrow> encode_groups xs \<noteq> []"
  by (cases xs rule: encode_groups.cases) (simp_all add: Let_def)

lemma drop_page: "0 \<le> start \<Longrightarrow> 0 \<le> n \<Longrightarrow> drop (nat start) file = page file start n @ drop (nat (start + n)) file"
proof -
  assume "0 \<le> start" "0 \<le> n"
  then have "drop (nat (start + n)) file = drop (nat n) (drop (nat start) file)" by (simp add: nat_add_distrib add.commute)
  then show ?thesis by (metis append_take_drop_id page_def)
qed

lemma stream_reads:
  assumes serves: "serves env c (ResourceURI source) file" and args: "ReadArgs source = Some (kv # kvs)"
    and n: "0 < n" and ok: "\<And>k. wait_ok pe k" "\<And>k. write_ok pe k"
    and flag: "\<And>start. page file start n \<noteq> DoneFlag"
  shows "0 \<le> start \<Longrightarrow> nat start \<le> length file \<Longrightarrow> length file < nat start + fuel * nat n \<Longrightarrow>
    \<exists>w'. stream_pages env pe fuel (Some c) start n source w = Some (PipeClosed, source, w')
      \<and> written w' = written w @ drop (nat start) file"
proof (induction fuel arbitrary: start w)
  case 0
  then show ?case by simp
next
  case (Suc fuel)
  let ?p = "page file start n"
  have read: "readMCPResourcePage env source (Some c) (page_args (kv # kvs) start n)
      = (Inr (if ?p = [] then [] else [Blob (encode_groups ?p)]), source)"
    using serves by (simp add: readMCPResourcePage_def serves_def)
  have d: "drop (nat start) file = ?p @ drop (nat (start + n)) file" using drop_page [OF Suc.prems(1)] n by simp
  have args': "cloneMediaSourceMap (ReadArgs source) = Some (kv # kvs)" using args by (simp add: cloneMediaSourceMap_def)
  show ?case
  proof (cases "?p = []")
    case True
    then have "drop (nat start) file = []" using n by (simp add: page_def)
    then show ?thesis using True read args' ok by simp
  next
    case False
    let ?w = "w\<lparr>waits := Suc (Suc (waits w)), written := written w @ ?p, writes := Suc (writes w)\<rparr>"
    have blob: "stream_contents pe n [Blob (encode_groups ?p)] False (w\<lparr>waits := Suc (waits w)\<rparr>)
        = (if int (length ?p) < n then Inl PipeClosed else Inr True, ?w)"
      using False flag [of start] ok encode_nonempty [OF False] base64_round_trip [of ?p] by simp
    show ?thesis
    proof (cases "int (length ?p) < n")
      case True
      then have "drop (nat (start + n)) file = []" using Suc.prems(1) n by (simp add: page_def nat_add_distrib)
      then show ?thesis using True False read args' ok blob d by simp
    next
      case full: False
      then have l: "nat (start + n) \<le> length file" using Suc.prems(1) n False by (simp add: page_def nat_add_distrib)
      have "length file < nat (start + n) + fuel * nat n" using Suc.prems n by (simp add: nat_add_distrib)
      then obtain w' where "stream_pages env pe fuel (Some c) (start + n) n source ?w = Some (PipeClosed, source, w')"
          "written w' = written ?w @ drop (nat (start + n)) file"
        using Suc.IH [of "start + n" ?w] Suc.prems(1) n l by auto
      then show ?thesis using full False read args' ok blob d by simp
    qed
  qed
qed

text \<open>Fact: A resource is read completely and in order. From a server that serves the bytes of a file by
  their positions, in base64, the pages that are written to the pipe are together exactly the file, the stream
  closes without an error, and one more round than the file has pages is enough: as long as the playback is not
  cancelled, the reader stays and no page is the end mark itself.\<close>

theorem resource_is_streamed_completely:
  assumes "Client source = Some c" and "ReadArgs source = Some (kv # kvs)" and "serves env c (ResourceURI source) file"
    and "\<And>k. wait_ok pe k" and "\<And>k. write_ok pe k"
    and "\<And>start. page file start (if PageSize source \<le> 0 then 16384 else PageSize source) \<noteq> DoneFlag"
    and "length file < fuel * nat (if PageSize source \<le> 0 then 16384 else PageSize source)"
  shows "\<exists>w. streamMCPResourceToPipe env pe fuel source = Some (PipeClosed, source, w) \<and> written w = file"
proof -
  let ?n = "if PageSize source \<le> 0 then 16384 else PageSize source"
  have "0 < ?n" by simp
  from stream_reads [OF assms(3,2) this assms(4,5,6), of 0 fuel "\<lparr>written = [], waits = 0, writes = 0\<rparr>"] assms(1,7)
  show ?thesis by (simp add: streamMCPResourceToPipe_def)
qed

definition demo_source :: mcp_source where
  "demo_source = \<lparr>ServerName = [], EndpointSnapshot = [], ToolName = [], ResourceURI = [0x75], DirectAudioURL = [], Description = [],
     ReadArgs = Some [([0x6b], AnyInt 1)], PageSize = 4, Client = Some 2\<rparr>"

definition demo_server :: mcp_env where
  \<comment> \<open>serves five bytes\<close>
  "demo_server = \<lparr>GetServerClientByName = (\<lambda>_. None), ReconnectServerByName = (\<lambda>_. None),
     ReadResource = (\<lambda>c uri args.
       case (args ! 0, args ! 1) of
         ((_, AnyInt s), (_, AnyInt e)) \<Rightarrow>
           (let p = page [1, 2, 3, 4, 5] s (e - s) in Contents (if p = [] then [] else [Blob (encode_groups p)]))
       | _ \<Rightarrow> Contents [])\<rparr>"

lemma demo_source_simp: "(if PageSize demo_source \<le> 0 then 16384 else PageSize demo_source) = 4"
  by (simp add: demo_source_def)

lemma resource_is_streamed_completely_witness:
  "\<exists>w. streamMCPResourceToPipe demo_server \<lparr>wait_ok = (\<lambda>_. True), write_ok = (\<lambda>_. True)\<rparr> 2 demo_source
      = Some (PipeClosed, demo_source, w) \<and> written w = [1, 2, 3, 4, 5]"
proof (rule resource_is_streamed_completely)
  show "serves demo_server 2 (ResourceURI demo_source) [1, 2, 3, 4, 5]"
    by (simp add: serves_def demo_server_def page_args_def Let_def)
  show "page [1, 2, 3, 4, 5] start (if PageSize demo_source \<le> 0 then 16384 else PageSize demo_source) \<noteq> DoneFlag" for start
  proof
    assume e: "page [1, 2, 3, 4, 5] start (if PageSize demo_source \<le> 0 then 16384 else PageSize demo_source) = DoneFlag"
    have "length DoneFlag = 6" by code_simp
    then have "length (page [1, 2, 3, 4, 5] start 4) = 6" using e unfolding demo_source_simp by simp
    then show False by (simp add: page_def)
  qed
qed (simp_all add: demo_source_def)

text \<open>Fact: A source without read arguments brings the program down. Cloning an empty argument map gives the nil map, and the
  first page writes its bounds into it: the goroutine that reads the resource panics before it has asked the server
  anything, unless the playback is cancelled first.\<close>

theorem empty_read_args_panic:
  assumes "ReadArgs source = None \<or> ReadArgs source = Some []" and "wait_ok pe 0" and "0 < fuel"
  shows "\<exists>w. streamMCPResourceToPipe env pe fuel source = Some (PipePanic, source, w) \<and> written w = []"
proof -
  obtain k where "fuel = Suc k" using assms(3) by (cases fuel) auto
  then show ?thesis using assms(1,2) by (auto simp: streamMCPResourceToPipe_def cloneMediaSourceMap_def)
qed

lemma empty_read_args_panic_witness:
  "\<exists>w. streamMCPResourceToPipe demo_server \<lparr>wait_ok = (\<lambda>_. True), write_ok = (\<lambda>_. True)\<rparr> 1 (demo_source\<lparr>ReadArgs := None\<rparr>)
      = Some (PipePanic, demo_source\<lparr>ReadArgs := None\<rparr>, w)"
  using empty_read_args_panic [of "demo_source\<lparr>ReadArgs := None\<rparr>" "\<lparr>wait_ok = (\<lambda>_. True), write_ok = (\<lambda>_. True)\<rparr>" 1 demo_server] by auto

end
