(* ===== verification/Tts_Metrics.thy ===== *)
theory Tts_Metrics
  imports Client_State Turn_Metrics
begin

text \<open>
  The accounting of a spoken turn in \<^verbatim>\<open>tts.go\<close>: \<^verbatim>\<open>ttsMetricState\<close> counts the queued texts and the running
  requests of the current cycle and decides when the stages \<^verbatim>\<open>tts_start\<close>, \<^verbatim>\<open>tts_first_frame\<close>, \<^verbatim>\<open>tts_stop\<close> and
  \<^verbatim>\<open>turn_end\<close> are reported. An operation is its locked section with the stages that it reports after the lock, each with
  the cycle it was decided for.
\<close>

record tts_metrics =
  cycleID :: nat
  pendingItems :: nat
  activeRequests :: nat
  turnEndRequested :: bool
  started :: bool
  firstAudio :: bool
  ttsStopped :: bool
  turnEnded :: bool

type_synonym 'e stage_event = "nat \<times> metric_stage \<times> int64 \<times> 'e option"
type_synonym tts_clock = "statistic \<times> tts_metrics"

definition fresh_metrics :: "nat \<Rightarrow> tts_metrics" where
  "fresh_metrics c = \<lparr>cycleID = c, pendingItems = 0, activeRequests = 0, turnEndRequested = False, started = False,
     firstAudio = False, ttsStopped = False, turnEnded = False\<rparr>"

definition startTtsMetricCycle :: "tts_clock \<Rightarrow> tts_clock" where
  "startTtsMetricCycle s = (fst s, fresh_metrics (cycleID (snd s) + 1))"

definition registerTtsMetricItem :: "nat \<Rightarrow> tts_clock \<Rightarrow> tts_clock" where
  "registerTtsMetricItem c s =
     (if c = 0 \<or> cycleID (snd s) \<noteq> c \<or> turnEnded (snd s) then s
      else (fst s, (snd s)\<lparr>pendingItems := pendingItems (snd s) + 1\<rparr>))"

definition finalizeTtsMetric :: "int64 \<Rightarrow> 'e option \<Rightarrow> tts_clock \<Rightarrow> 'e stage_event list \<times> tts_clock" where
  "finalizeTtsMetric now err s =
     (let (stat, m) = s
      in if turnEnded m then ([], s)
         else if started m \<and> \<not> ttsStopped m then
           (let stat = MarkTtsStop now stat
            in ([(cycleID m, MetricTtsStop, TtsStopTs stat, err), (cycleID m, MetricTurnEnd, TtsStopTs stat, err)],
                (stat, m\<lparr>ttsStopped := True, turnEnded := True\<rparr>)))
         else ([(cycleID m, MetricTurnEnd, now, err)], (stat, m\<lparr>turnEnded := True\<rparr>)))"

definition maybeFinalizeTtsMetric :: "int64 \<Rightarrow> 'e option \<Rightarrow> tts_clock \<Rightarrow> 'e stage_event list \<times> tts_clock" where
  "maybeFinalizeTtsMetric now err s =
     (let m = snd s
      in if \<not> turnEndRequested m \<or> turnEnded m then ([], s)
         else if pendingItems m > 0 \<or> activeRequests m > 0 then ([], s)
         else finalizeTtsMetric now err s)"

definition finishTtsMetricItem :: "int64 \<Rightarrow> nat \<Rightarrow> 'e option \<Rightarrow> tts_clock \<Rightarrow> 'e stage_event list \<times> tts_clock" where
  "finishTtsMetricItem now c err s =
     (if cycleID (snd s) \<noteq> c \<or> c = 0 then ([], s)
      else maybeFinalizeTtsMetric now err (fst s, (snd s)\<lparr>pendingItems := pendingItems (snd s) - 1\<rparr>))"

definition markTtsMetricRequestStart :: "int64 \<Rightarrow> nat \<Rightarrow> tts_clock \<Rightarrow> 'e stage_event list \<times> tts_clock" where
  "markTtsMetricRequestStart now c s =
     (let (stat, m) = s
      in if c = 0 \<or> cycleID m \<noteq> c \<or> turnEnded m then ([], s)
         else (let m = m\<lparr>activeRequests := activeRequests m + 1\<rparr>
               in if started m then ([], (stat, m))
                  else (let stat = MarkTtsStart now stat
                        in (if 0 < sint (TtsStartTs stat) then [(c, MetricTtsStart, TtsStartTs stat, None)] else [],
                            (stat, m\<lparr>started := True\<rparr>)))))"

definition markTtsMetricFirstAudio :: "int64 \<Rightarrow> nat \<Rightarrow> tts_clock \<Rightarrow> 'e stage_event list \<times> tts_clock" where
  "markTtsMetricFirstAudio now c s =
     (let (stat, m) = s
      in if c \<noteq> 0 \<and> cycleID m = c \<and> started m \<and> \<not> firstAudio m \<and> \<not> turnEnded m then
           (let stat = MarkTtsFirstFrame now stat
            in (if 0 < sint (TtsFirstFrameTs stat) then [(c, MetricTtsFirstFrame, TtsFirstFrameTs stat, None)] else [],
                (stat, m\<lparr>firstAudio := True\<rparr>)))
         else ([], s))"

definition finishTtsMetricRequest :: "int64 \<Rightarrow> nat \<Rightarrow> 'e option \<Rightarrow> tts_clock \<Rightarrow> 'e stage_event list \<times> tts_clock" where
  "finishTtsMetricRequest now c err s =
     (if cycleID (snd s) \<noteq> c \<or> c = 0 then ([], s)
      else maybeFinalizeTtsMetric now err (fst s, (snd s)\<lparr>activeRequests := activeRequests (snd s) - 1\<rparr>))"

definition RequestTurnEnd :: "int64 \<Rightarrow> 'e option \<Rightarrow> tts_clock \<Rightarrow> 'e stage_event list \<times> tts_clock" where
  "RequestTurnEnd now err s =
     (if cycleID (snd s) = 0 then ([], s)
      else maybeFinalizeTtsMetric now err (fst s, (snd s)\<lparr>turnEndRequested := True\<rparr>))"

definition forceStopTtsMetric :: "int64 \<Rightarrow> 'e option \<Rightarrow> tts_clock \<Rightarrow> 'e stage_event list \<times> tts_clock" where
  "forceStopTtsMetric now err s =
     (if cycleID (snd s) = 0 \<or> turnEnded (snd s) then ([], s)
      else finalizeTtsMetric now err (fst s, (snd s)\<lparr>turnEndRequested := True\<rparr>))"

section \<open>Runs\<close>

datatype 'e metric_op =
    NewCycle | Register nat | FinishItem nat "'e option" | RequestStart nat | FirstAudio nat | FinishRequest nat "'e option"
  | TurnEnd "'e option" | ForceStop "'e option"

fun metric_step :: "int64 \<Rightarrow> 'e metric_op \<Rightarrow> tts_clock \<Rightarrow> 'e stage_event list \<times> tts_clock" where
  "metric_step now NewCycle s = ([], startTtsMetricCycle s)"
| "metric_step now (Register c) s = ([], registerTtsMetricItem c s)"
| "metric_step now (FinishItem c e) s = finishTtsMetricItem now c e s"
| "metric_step now (RequestStart c) s = markTtsMetricRequestStart now c s"
| "metric_step now (FirstAudio c) s = markTtsMetricFirstAudio now c s"
| "metric_step now (FinishRequest c e) s = finishTtsMetricRequest now c e s"
| "metric_step now (TurnEnd e) s = RequestTurnEnd now e s"
| "metric_step now (ForceStop e) s = forceStopTtsMetric now e s"

fun metric_run :: "(int64 \<times> 'e metric_op) list \<Rightarrow> tts_clock \<Rightarrow> 'e stage_event list \<times> tts_clock" where
  "metric_run [] s = ([], s)"
| "metric_run ((now, op) # ops) s =
     (let (ev, s) = metric_step now op s; (evs, s) = metric_run ops s in (ev @ evs, s))"

definition stages :: "nat \<Rightarrow> 'e stage_event list \<Rightarrow> metric_stage list" where
  "stages c evs = map (\<lambda>(_, st, _, _). st) (filter (\<lambda>(d, _). d = c) evs)"

definition reported :: "tts_metrics \<Rightarrow> metric_stage list" where
  \<comment> \<open>what the flags of the current cycle say was reported\<close>
  "reported m = (if started m then [MetricTtsStart] else []) @ (if firstAudio m then [MetricTtsFirstFrame] else [])
     @ (if ttsStopped m then [MetricTtsStop] else []) @ (if turnEnded m then [MetricTurnEnd] else [])"

definition metrics_ok :: "tts_clock \<Rightarrow> bool" where
  "metrics_ok s \<longleftrightarrow> (let m = snd s in (firstAudio m \<longrightarrow> started m) \<and> (ttsStopped m \<longleftrightarrow> started m \<and> turnEnded m)
     \<and> (turnEnded m \<longrightarrow> turnEndRequested m) \<and> (cycleID m = 0 \<longrightarrow> m = fresh_metrics 0)
     \<and> (turnEndRequested m \<and> \<not> turnEnded m \<longrightarrow> pendingItems m > 0 \<or> activeRequests m > 0)
     \<and> (started m \<and> \<not> firstAudio m \<longrightarrow> TtsFirstFrameTs (fst s) = 0))"

lemma stages_append [simp]: "stages c (xs @ ys) = stages c xs @ stages c ys"
  by (simp add: stages_def)

lemma stages_Nil [simp]: "stages c [] = []"
  by (simp add: stages_def)

lemma stages_Cons [simp]: "stages c ((d, st, t, e) # evs) = (if d = c then [st] else []) @ stages c evs"
  by (simp add: stages_def)

definition extends :: "tts_clock \<Rightarrow> 'e stage_event list \<times> tts_clock \<Rightarrow> bool" where
  \<comment> \<open>a step within a cycle reports stages of this cycle only, and exactly what its flags then say\<close>
  "extends s r \<longleftrightarrow> metrics_ok (snd r) \<and> cycleID (snd (snd r)) = cycleID (snd s)
     \<and> (\<forall>e \<in> set (fst r). fst e = cycleID (snd s)) \<and> reported (snd (snd r)) = reported (snd s) @ stages (cycleID (snd s)) (fst r)"

lemma finalize_extends:
  assumes "firstAudio m \<longrightarrow> started m" and "ttsStopped m \<longleftrightarrow> started m \<and> turnEnded m" and "turnEndRequested m" and "cycleID m \<noteq> 0"
    and "started m \<and> \<not> firstAudio m \<longrightarrow> TtsFirstFrameTs stat = 0" and "\<not> turnEnded m"
    and "reported m = reported (snd s)" and "cycleID m = cycleID (snd s)"
  shows "extends s (finalizeTtsMetric now err (stat, m))"
  using assms(1-6,8) unfolding extends_def assms(7) [symmetric]
  by (auto simp: finalizeTtsMetric_def metrics_ok_def reported_def MarkTtsStop_def Let_def)

lemma maybe_extends:
  assumes "firstAudio m \<longrightarrow> started m" and "ttsStopped m \<longleftrightarrow> started m \<and> turnEnded m" and "turnEnded m \<longrightarrow> turnEndRequested m"
    and "cycleID m \<noteq> 0" and "started m \<and> \<not> firstAudio m \<longrightarrow> TtsFirstFrameTs stat = 0"
    and "reported m = reported (snd s)" and "cycleID m = cycleID (snd s)"
  shows "extends s (maybeFinalizeTtsMetric now err (stat, m))"
proof (cases "\<not> turnEndRequested m \<or> turnEnded m \<or> pendingItems m > 0 \<or> activeRequests m > 0")
  case True
  then show ?thesis using assms by (auto simp: maybeFinalizeTtsMetric_def extends_def metrics_ok_def Let_def)
next
  case False
  then show ?thesis using finalize_extends [of m stat s now err] assms by (simp add: maybeFinalizeTtsMetric_def Let_def)
qed

lemma step_extends:
  assumes ok: "metrics_ok s" and now: "0 < sint now" and op: "op \<noteq> NewCycle"
  shows "extends s (metric_step now op s)"
proof -
  obtain stat m where s: "s = (stat, m)" by (cases s)
  have refl: "extends s ([], s)" using ok by (simp add: extends_def)
  have m: "firstAudio m \<longrightarrow> started m" "ttsStopped m \<longleftrightarrow> started m \<and> turnEnded m" "turnEnded m \<longrightarrow> turnEndRequested m"
    "started m \<and> \<not> firstAudio m \<longrightarrow> TtsFirstFrameTs stat = 0"
    using ok by (simp_all add: s metrics_ok_def)
  have zero: "cycleID m = 0 \<Longrightarrow> m = fresh_metrics 0" using ok by (simp add: s metrics_ok_def)
  show ?thesis
  proof (cases op)
    case (Register c)
    then show ?thesis using refl ok s by (auto simp: registerTtsMetricItem_def extends_def metrics_ok_def reported_def)
  next
    case (FinishItem c e)
    then show ?thesis
      using refl maybe_extends [of "m\<lparr>pendingItems := pendingItems m - 1\<rparr>" stat s now e] m s
      by (auto simp: finishTtsMetricItem_def reported_def)
  next
    case (FinishRequest c e)
    then show ?thesis
      using refl maybe_extends [of "m\<lparr>activeRequests := activeRequests m - 1\<rparr>" stat s now e] m s
      by (auto simp: finishTtsMetricRequest_def reported_def)
  next
    case (TurnEnd e)
    then show ?thesis
      using refl maybe_extends [of "m\<lparr>turnEndRequested := True\<rparr>" stat s now e] m s
      by (auto simp: RequestTurnEnd_def reported_def)
  next
    case (ForceStop e)
    then show ?thesis
      using refl finalize_extends [of "m\<lparr>turnEndRequested := True\<rparr>" stat s now e] m s
      by (auto simp: forceStopTtsMetric_def reported_def)
  next
    case (RequestStart c)
    show ?thesis
    proof (cases "c = 0 \<or> cycleID m \<noteq> c \<or> turnEnded m")
      case True
      then show ?thesis using refl RequestStart s by (auto simp: markTtsMetricRequestStart_def)
    next
      case False
      then show ?thesis using RequestStart s m now
        by (auto simp: markTtsMetricRequestStart_def extends_def metrics_ok_def reported_def MarkTtsStart_def Let_def)
    qed
  next
    case (FirstAudio c)
    show ?thesis
    proof (cases "c \<noteq> 0 \<and> cycleID m = c \<and> started m \<and> \<not> firstAudio m \<and> \<not> turnEnded m")
      case False
      then show ?thesis using refl FirstAudio s by (auto simp: markTtsMetricFirstAudio_def)
    next
      case True
      then have "TtsFirstFrameTs stat = 0" using m by blast
      then show ?thesis using FirstAudio s m now True ok
        by (auto simp: markTtsMetricFirstAudio_def extends_def metrics_ok_def reported_def MarkTtsFirstFrame_def Let_def)
    qed
  qed (use op in simp)
qed

definition turn_reports :: "metric_stage list set" where
  "turn_reports = {[], [MetricTtsStart], [MetricTtsStart, MetricTtsFirstFrame], [MetricTtsStart, MetricTtsStop, MetricTurnEnd],
     [MetricTtsStart, MetricTtsFirstFrame, MetricTtsStop, MetricTurnEnd], [MetricTurnEnd]}"

lemma reported_allowed: "metrics_ok s \<Longrightarrow> reported (snd s) \<in> turn_reports"
  by (auto simp: metrics_ok_def reported_def turn_reports_def Let_def)

definition run_ok :: "'e stage_event list \<Rightarrow> tts_clock \<Rightarrow> bool" where
  "run_ok evs s \<longleftrightarrow> metrics_ok s \<and> stages (cycleID (snd s)) evs = reported (snd s)
     \<and> (\<forall>c > cycleID (snd s). stages c evs = []) \<and> (\<forall>c. stages c evs \<in> turn_reports)"

lemma run_ok_step:
  assumes r: "run_ok evs s" and now: "0 < sint now" and step: "metric_step now op s = (ev, s')"
  shows "run_ok (evs @ ev) s'"
proof (cases "op = NewCycle")
  case True
  then have s': "ev = []" "s' = (fst s, fresh_metrics (cycleID (snd s) + 1))" using step by (simp_all add: startTtsMetricCycle_def)
  moreover have "metrics_ok s'" by (simp add: s' metrics_ok_def fresh_metrics_def)
  ultimately show ?thesis using r by (simp add: run_ok_def fresh_metrics_def reported_def)
next
  case False
  have e: "extends s (ev, s')" using step_extends [OF _ now False, of s] r step by (simp add: run_ok_def)
  have own: "stages c ev = []" if "c \<noteq> cycleID (snd s)" for c
    using e that unfolding extends_def stages_def by (auto simp: filter_empty_conv)
  have rep: "stages (cycleID (snd s)) (evs @ ev) = reported (snd s')" using e r by (simp add: extends_def run_ok_def)
  have "stages c (evs @ ev) \<in> turn_reports" for c
  proof (cases "c = cycleID (snd s)")
    case True
    then show ?thesis using reported_allowed [of s'] rep e by (simp add: extends_def)
  next
    case False
    then show ?thesis using r own by (simp add: run_ok_def)
  qed
  then show ?thesis using e r own rep by (simp add: run_ok_def extends_def)
qed

lemma run_ok_run:
  "run_ok evs s \<Longrightarrow> \<forall>(now, op) \<in> set ops. 0 < sint now \<Longrightarrow> metric_run ops s = (evs', s') \<Longrightarrow> run_ok (evs @ evs') s'"
proof (induction ops arbitrary: evs s evs')
  case (Cons x ops)
  obtain now op where x: "x = (now, op)" by (cases x)
  obtain ev s1 where step: "metric_step now op s = (ev, s1)" by (cases "metric_step now op s") simp
  obtain evs1 where run: "metric_run ops s1 = (evs1, s')" "evs' = ev @ evs1"
    using Cons.prems(3) step x by (auto split: prod.splits)
  have "run_ok (evs @ ev) s1" using run_ok_step [OF Cons.prems(1) _ step] Cons.prems(2) x by simp
  from Cons.IH [OF this _ run(1)] Cons.prems(2) run(2) show ?case by simp
qed simp


definition no_times :: statistic where
  "no_times = \<lparr>TurnStartTs = 0, AsrFirstTextTs = 0, AsrFinalTextTs = 0, LlmStartTs = 0, LlmFirstTokenTs = 0, LlmEndTs = 0,
     TtsStartTs = 0, TtsFirstFrameTs = 0, TtsStopTs = 0\<rparr>"

definition spoken_turn :: "(int64 \<times> nat metric_op) list" where
  "spoken_turn = [(1, NewCycle), (2, Register 1), (3, RequestStart 1), (4, FirstAudio 1), (5, TurnEnd None), (6, FinishRequest 1 None),
     (7, FinishItem 1 None)]"


text \<open>Fact: A quick item can keep its turn open for ever. \<^verbatim>\<open>pushTTSQueueItem\<close> counts an item only after it is in the queue;
  when the consumer takes and finishes it in between, the late registration is never undone, and however often the
  end of the turn is requested afterwards, the turn does not end unless it is forced.\<close>

theorem late_registration_blocks_the_turn:
  assumes "snd (metric_run [(1, NewCycle), (2, FinishItem 1 None), (3, Register 1)] (stat, fresh_metrics 0)) = s"
  shows "fst (metric_run (map (\<lambda>t. (t, TurnEnd None)) at_times) s) = ([] :: nat stage_event list)"
proof -
  have open_turn: "cycleID (snd s) = 1 \<and> pendingItems (snd s) = 1 \<and> \<not> turnEnded (snd s)"
    using assms by (auto simp: startTtsMetricCycle_def finishTtsMetricItem_def registerTtsMetricItem_def maybeFinalizeTtsMetric_def
        fresh_metrics_def)
  have "cycleID (snd s) = 1 \<and> pendingItems (snd s) = 1 \<and> \<not> turnEnded (snd s) \<Longrightarrow>
      fst (metric_run (map (\<lambda>t. (t, TurnEnd None)) at_times) s) = ([] :: nat stage_event list)" for s
    by (induction at_times arbitrary: s) (auto simp: RequestTurnEnd_def maybeFinalizeTtsMetric_def Let_def split: prod.splits)
  with open_turn show ?thesis by blast
qed

lemma late_registration_blocks_the_turn_witness:
  "fst (metric_run (map (\<lambda>t. (t, TurnEnd None)) [4, 5])
     (snd (metric_run [(1, NewCycle), (2, FinishItem 1 None), (3, Register 1)] (no_times, fresh_metrics 0)))) = ([] :: nat stage_event list)"
  by (rule late_registration_blocks_the_turn [OF refl])

end
