(* ===== verification/Tts_Sender.thy ===== *)
theory Tts_Sender
  imports Prelude
begin

text \<open>
  The audio queue of a session in \<^verbatim>\<open>tts.go\<close>: one goroutine sends what lies in the queue, paced by the playback of
  the device; the start and the end of a sentence take a way round through a second goroutine that delays them by the
  buffer of the device; an interruption raises the generation and asks the sender to drop everything. A step is what a
  goroutine does between two points where it can block; times are nanoseconds of a clock that does not run back. Besides
  what the code keeps, the state has the log of what was sent and called, and the numbers of the interrupt requests whose
  channel was closed.
\<close>

section \<open>Elements and state\<close>

datatype elem_kind = KindFrame | KindSentenceStart | KindSentenceEnd | KindTtsStart | KindTtsStop | KindMediaFrame
datatype tts_error = Canceled | CtxErr | TransportErr | OtherErr nat

record audio_elem =
  Kind :: elem_kind
  Data :: bytes
  Text :: gostr
  Err :: "tts_error option"
  Generation :: nat
  OnStart :: "nat option"  \<comment> \<open>callbacks are numbers\<close>
  OnEnd :: "nat option"
  OnError :: "nat option"

type_synonym delayed_task = "audio_elem \<times> int"  \<comment> \<open>with \<^verbatim>\<open>ExecuteAt\<close>\<close>

datatype tts_output =
    SentAudio bytes nat
  | SentSentenceStart gostr nat
  | SentSentenceEnd gostr nat
  | SentTtsStart
  | SentTtsStop
  | HookStart
  | HookStop "tts_error option"
  | CalledStart nat
  | CalledEnd nat "tts_error option"
  | CalledError nat tts_error

datatype sender_pc =
    SPoll                     \<comment> \<open>the head of the loop: a sentence control that is ready goes first\<close>
  | SSelect
  | SWait audio_elem int      \<comment> \<open>a frame waits for its time\<close>
  | SSend audio_elem
  | SDelay audio_elem int     \<comment> \<open>handing a sentence control to the delaying goroutine\<close>
  | SStopTail int             \<comment> \<open>\<^verbatim>\<open>TtsStop\<close> waits for the end of the playback\<close>
  | SStopGrace int
  | SExited

record tts_sender =
  frameMs :: int
  realTime :: bool
  audioGeneration :: nat
  sessionAudioQueue :: "audio_elem list"
  delayedSentenceQueue :: "delayed_task list"
  delayedPending :: "delayed_task list"
  delayedTaken :: "audio_elem option"
  delayedExited :: bool
  delayedSentenceReadyQueue :: "audio_elem list"
  interruptCh :: "(nat \<times> nat) option option"  \<comment> \<open>a request that waits has a number and the generation it raised\<close>
  nextRequest :: nat
  closedRequests :: "(nat \<times> nat) set"
  interruptStop :: "(bool \<times> tts_error option) option"
  ttsActive :: bool
  ctxDone :: bool
  playbackTail :: "int option"
  audioHistory :: "bytes list"
  clock :: int
  spc :: sender_pc
  sent :: "tts_output list"

definition QueueCap :: nat where "QueueCap = 150"

definition NewTTSManager :: "int \<Rightarrow> bool \<Rightarrow> int \<Rightarrow> tts_sender" where
  "NewTTSManager fd rt now =
     \<lparr>frameMs = fd, realTime = rt, audioGeneration = 1, sessionAudioQueue = [], delayedSentenceQueue = [], delayedPending = [],
      delayedTaken = None, delayedExited = False, delayedSentenceReadyQueue = [], interruptCh = None, nextRequest = 0,
      closedRequests = {}, interruptStop = None, ttsActive = False, ctxDone = False, playbackTail = None, audioHistory = [],
      clock = now, spc = SPoll, sent = []\<rparr>"

definition frameDuration :: "tts_sender \<Rightarrow> int" where
  "frameDuration s = frameMs s * 1000000"

definition cacheFrameCount :: "tts_sender \<Rightarrow> int" where
  "cacheFrameCount s = 120 div frameMs s"

definition sentenceControlDelay :: "tts_sender \<Rightarrow> int" where
  "sentenceControlDelay s = (if frameMs s \<le> 0 then 0 else (120 div frameMs s) * frameMs s * 1000000)"

definition emit_out :: "tts_output list \<Rightarrow> tts_sender \<Rightarrow> tts_sender" where
  "emit_out out s = s\<lparr>sent := sent s @ out\<rparr>"

definition call_end :: "tts_error option \<Rightarrow> audio_elem \<Rightarrow> tts_output list" where
  "call_end err e = (case OnEnd e of None \<Rightarrow> [] | Some f \<Rightarrow> [CalledEnd f err])"

definition call_error :: "tts_error \<Rightarrow> audio_elem \<Rightarrow> tts_output list" where
  "call_error err e = (case OnError e of None \<Rightarrow> [] | Some f \<Rightarrow> [CalledError f err])"

definition call_start :: "audio_elem \<Rightarrow> tts_output list" where
  "call_start e = (case OnStart e of None \<Rightarrow> [] | Some f \<Rightarrow> [CalledStart f])"

section \<open>Stopping\<close>

definition finishTtsStop :: "bool \<Rightarrow> tts_error option \<Rightarrow> bool \<Rightarrow> tts_sender \<Rightarrow> tts_sender" where
  \<comment> \<open>\<open>ok\<close>: sending the stop succeeds\<close>
  "finishTtsStop sendTtsStop stopErr ok s =
     (if \<not> ttsActive s then s
      else (let send = (sendTtsStop \<and> \<not> realTime s);
                err = (if send \<and> \<not> ok \<and> stopErr = None then Some TransportErr else stopErr)
            in emit_out ((if send \<and> ok then [SentTtsStop] else []) @ [HookStop err]) (s\<lparr>ttsActive := False\<rparr>)))"

definition recordPendingInterruptStop :: "bool \<Rightarrow> tts_error option \<Rightarrow> tts_sender \<Rightarrow> tts_sender" where
  "recordPendingInterruptStop sendTtsStop stopErr s =
     s\<lparr>interruptStop :=
         (case interruptStop s of
            Some (send, err) \<Rightarrow> Some (send \<or> sendTtsStop, if err = None then stopErr else err)
          | None \<Rightarrow> Some (sendTtsStop, stopErr))\<rparr>"

definition consumePendingInterruptStop :: "bool \<Rightarrow> tts_sender \<Rightarrow> tts_sender" where
  \<comment> \<open>and the stop that follows it when one is pending\<close>
  "consumePendingInterruptStop ok s =
     (case interruptStop s of None \<Rightarrow> s | Some (send, err) \<Rightarrow> finishTtsStop send err ok (s\<lparr>interruptStop := None\<rparr>))"

definition drainSessionAudioQueue :: "tts_sender \<Rightarrow> tts_sender" where
  "drainSessionAudioQueue s =
     emit_out (concat (map (call_end (Some Canceled)) (sessionAudioQueue s))) (s\<lparr>sessionAudioQueue := []\<rparr>)"

definition drainDelayedSentenceReadyQueue :: "tts_sender \<Rightarrow> tts_sender" where
  "drainDelayedSentenceReadyQueue s =
     emit_out (concat (map (call_end (Some Canceled)) (delayedSentenceReadyQueue s))) (s\<lparr>delayedSentenceReadyQueue := []\<rparr>)"

definition handleInterrupt :: "bool \<Rightarrow> tts_sender \<Rightarrow> tts_sender" where
  "handleInterrupt ok s =
     (consumePendingInterruptStop ok (drainDelayedSentenceReadyQueue (drainSessionAudioQueue s)))\<lparr>playbackTail := None\<rparr>"

definition take_interrupt :: "bool \<Rightarrow> (nat \<times> nat) option \<Rightarrow> tts_sender \<Rightarrow> tts_sender" where
  \<comment> \<open>a request is received, handled and its channel closed\<close>
  "take_interrupt ok req s =
     (handleInterrupt ok (s\<lparr>interruptCh := None\<rparr>))
       \<lparr>spc := SPoll, closedRequests := (case req of None \<Rightarrow> closedRequests s | Some w \<Rightarrow> insert w (closedRequests s))\<rparr>"

definition leave :: "bool \<Rightarrow> tts_sender \<Rightarrow> tts_sender" where
  \<comment> \<open>the context of the session is done\<close>
  "leave ok s =
     (finishTtsStop True (Some CtxErr) ok (drainDelayedSentenceReadyQueue (drainSessionAudioQueue s)))\<lparr>spc := SExited\<rparr>"

section \<open>The sender\<close>

definition handleDelayedSentence :: "audio_elem \<Rightarrow> bool \<Rightarrow> tts_sender \<Rightarrow> tts_sender" where
  "handleDelayedSentence e ok s =
     (if Generation e \<noteq> audioGeneration s then emit_out (call_end (Some Canceled) e) s
      else (case Kind e of
              KindSentenceStart \<Rightarrow>
                emit_out (call_start e @
                  (if Text e = [] then []
                   else if ok then [SentSentenceStart (Text e) (Generation e)]
                   else call_error TransportErr e @ call_end (Some TransportErr) e)) s
            | KindSentenceEnd \<Rightarrow>
                emit_out
                  ((if Text e = [] then []
                    else if ok then [SentSentenceEnd (Text e) (Generation e)] else call_error TransportErr e)
                   @ call_end (if Text e \<noteq> [] \<and> \<not> ok \<and> Err e = None then Some TransportErr else Err e) e) s
            | _ \<Rightarrow> s))"

definition receive_ready :: "bool \<Rightarrow> tts_sender \<Rightarrow> tts_sender option" where
  "receive_ready ok s =
     (case delayedSentenceReadyQueue s of
        [] \<Rightarrow> None | e # es \<Rightarrow> Some (handleDelayedSentence e ok (s\<lparr>delayedSentenceReadyQueue := es\<rparr>)))"

definition start_frame :: "audio_elem \<Rightarrow> tts_sender \<Rightarrow> tts_sender" where
  "start_frame e s =
     (let tail = (case playbackTail s of None \<Rightarrow> clock s | Some t \<Rightarrow> max t (clock s));
          sendAt = tail - cacheFrameCount s * frameDuration s
      in s\<lparr>playbackTail := Some tail, spc := (if clock s < sendAt then SWait e sendAt else SSend e)\<rparr>)"

definition receive_elem :: "bool \<Rightarrow> tts_sender \<Rightarrow> tts_sender option" where
  "receive_elem ok s =
     (case sessionAudioQueue s of
        [] \<Rightarrow> None
      | e # es \<Rightarrow>
          (let s = s\<lparr>sessionAudioQueue := es\<rparr>
           in Some (if Generation e \<noteq> audioGeneration s then emit_out (call_end (Some Canceled) e) s
                    else (case Kind e of
                            KindSentenceStart \<Rightarrow> s\<lparr>spc := SDelay e (clock s + sentenceControlDelay s)\<rparr>
                          | KindSentenceEnd \<Rightarrow> s\<lparr>spc := SDelay e (clock s + sentenceControlDelay s)\<rparr>
                          | KindFrame \<Rightarrow> start_frame e s
                          | KindMediaFrame \<Rightarrow> start_frame e s
                          | KindTtsStart \<Rightarrow>
                              emit_out (HookStart # (if ok then [SentTtsStart] else [])) (s\<lparr>ttsActive := True, playbackTail := None\<rparr>)
                          | KindTtsStop \<Rightarrow>
                              s\<lparr>spc := (case playbackTail s of None \<Rightarrow> SStopGrace (clock s + 150000000) | Some t \<Rightarrow> SStopTail t)\<rparr>))))"

datatype choice = TakeCtx | TakeInterrupt | TakeReady | TakeElem | Reached

definition waiting :: "choice \<Rightarrow> bool \<Rightarrow> tts_sender \<Rightarrow> tts_sender option" where
  \<comment> \<open>\<^verbatim>\<open>waitUntilSenderDeadline\<close> before its deadline is reached\<close>
  "waiting ch ok s =
     (case ch of
        TakeCtx \<Rightarrow> if ctxDone s then Some (leave ok s) else None
      | TakeInterrupt \<Rightarrow> map_option (\<lambda>req. take_interrupt ok req s) (interruptCh s)
      | TakeReady \<Rightarrow> receive_ready ok s
      | _ \<Rightarrow> None)"

definition sender_step :: "choice \<Rightarrow> bool \<Rightarrow> tts_sender \<Rightarrow> tts_sender option" where
  "sender_step ch ok s =
     (case spc s of
        SPoll \<Rightarrow>
          (if delayedSentenceReadyQueue s \<noteq> [] then receive_ready ok s else Some (s\<lparr>spc := SSelect\<rparr>))
      | SSelect \<Rightarrow>
          (if ch = TakeElem then receive_elem ok (s\<lparr>spc := SPoll\<rparr>)
           else if ch = TakeReady then receive_ready ok (s\<lparr>spc := SPoll\<rparr>)
           else waiting ch ok s)
      | SWait e sendAt \<Rightarrow>
          (if ch = Reached then
             (if sendAt \<le> clock s
              then Some (s\<lparr>playbackTail := map_option (\<lambda>t. max t (clock s)) (playbackTail s), spc := SSend e\<rparr>) else None)
           else waiting ch ok s)
      | SSend e \<Rightarrow>
          Some (if ok then
                  emit_out [SentAudio (Data e) (Generation e)]
                    (s\<lparr>audioHistory := (if Kind e = KindFrame then audioHistory s @ [Data e] else audioHistory s),
                       playbackTail := map_option (\<lambda>t. t + frameDuration s) (playbackTail s), spc := SPoll\<rparr>)
                else emit_out (call_error TransportErr e) (s\<lparr>spc := SPoll\<rparr>))
      | SDelay e at \<Rightarrow>
          (if ch = TakeCtx then
             (if ctxDone s then Some (emit_out (call_end (Some CtxErr) e) (s\<lparr>spc := SPoll\<rparr>)) else None)
           else if length (delayedSentenceQueue s) < QueueCap
           then Some (s\<lparr>delayedSentenceQueue := delayedSentenceQueue s @ [(e, at)], spc := SPoll\<rparr>)
           else None)
      | SStopTail t \<Rightarrow>
          (if ch = Reached then (if t \<le> clock s then Some (s\<lparr>spc := SStopGrace (clock s + 150000000)\<rparr>) else None)
           else waiting ch ok s)
      | SStopGrace t \<Rightarrow>
          (if ch = Reached
           then (if t \<le> clock s then Some ((finishTtsStop True None ok s)\<lparr>playbackTail := None, spc := SPoll\<rparr>) else None)
           else waiting ch ok s)
      | SExited \<Rightarrow> None)"

section \<open>The delaying goroutine\<close>

fun insertDelayedSentenceTask :: "delayed_task list \<Rightarrow> delayed_task \<Rightarrow> delayed_task list" where
  \<comment> \<open>from the end, over the tasks that are due later\<close>
  "insertDelayedSentenceTask tasks task =
     (let later = takeWhile (\<lambda>t. snd task < snd t) (rev tasks)
      in take (length tasks - length later) tasks @ [task] @ drop (length tasks - length later) tasks)"

datatype delayed_choice = DCtx | DTask | DTimer | DPut

definition delayed_step :: "delayed_choice \<Rightarrow> tts_sender \<Rightarrow> tts_sender option" where
  "delayed_step ch s =
     (if delayedExited s then None
      else (case delayedTaken s of
              Some e \<Rightarrow>
                (if ch = DCtx \<and> ctxDone s then Some (emit_out (call_end (Some CtxErr) e) (s\<lparr>delayedTaken := None, delayedExited := True\<rparr>))
                 else if ch = DPut \<and> length (delayedSentenceReadyQueue s) < QueueCap
                 then Some (s\<lparr>delayedTaken := None, delayedSentenceReadyQueue := delayedSentenceReadyQueue s @ [e]\<rparr>)
                 else None)
            | None \<Rightarrow>
                (case ch of
                   DCtx \<Rightarrow> if ctxDone s then Some (s\<lparr>delayedExited := True\<rparr>) else None
                 | DTask \<Rightarrow>
                     (case delayedSentenceQueue s of
                        [] \<Rightarrow> None
                      | t # ts \<Rightarrow> Some (s\<lparr>delayedSentenceQueue := ts, delayedPending := insertDelayedSentenceTask (delayedPending s) t\<rparr>))
                 | DTimer \<Rightarrow>
                     (case delayedPending s of
                        [] \<Rightarrow> None
                      | (e, at) # ts \<Rightarrow>
                          if clock s < at then None
                          else if Generation e \<noteq> audioGeneration s
                          then Some (emit_out (call_end (Some Canceled) e) (s\<lparr>delayedPending := ts\<rparr>))
                          else Some (s\<lparr>delayedPending := ts, delayedTaken := Some e\<rparr>))
                 | DPut \<Rightarrow> None)))"

section \<open>The callers\<close>

definition enqueueSessionElem :: "nat \<Rightarrow> audio_elem \<Rightarrow> tts_sender \<Rightarrow> tts_sender option" where
  \<comment> \<open>\<open>None\<close>: the queue is full and the caller waits\<close>
  "enqueueSessionElem generation e s =
     (if length (sessionAudioQueue s) < QueueCap
      then Some (s\<lparr>sessionAudioQueue := sessionAudioQueue s @ [e\<lparr>Generation := generation\<rparr>]\<rparr>) else None)"

definition nextAudioGeneration :: "tts_sender \<Rightarrow> tts_sender" where
  "nextAudioGeneration s = s\<lparr>audioGeneration := audioGeneration s + 1\<rparr>"

definition senderLoopActive :: "tts_sender \<Rightarrow> bool" where
  "senderLoopActive s \<longleftrightarrow> spc s \<noteq> SExited"

definition signal_interrupt :: "tts_sender \<Rightarrow> tts_sender" where
  \<comment> \<open>the end of \<^verbatim>\<open>InterruptAndClearQueue\<close>, after the generation was raised\<close>
  "signal_interrupt s = (if senderLoopActive s \<and> interruptCh s = None then s\<lparr>interruptCh := Some None\<rparr> else s)"

definition request_interrupt :: "nat \<Rightarrow> tts_sender \<Rightarrow> tts_sender option" where
  \<comment> \<open>\<^verbatim>\<open>InterruptAndClearQueueSync\<close> hands over its request; \<open>g\<close> is the generation it raised\<close>
  "request_interrupt g s =
     (if interruptCh s = None then Some (s\<lparr>interruptCh := Some (Some (nextRequest s, g)), nextRequest := nextRequest s + 1\<rparr>) else None)"

definition finishPendingInterruptStopIfSenderLoopExited :: "bool \<Rightarrow> tts_sender \<Rightarrow> tts_sender" where
  "finishPendingInterruptStopIfSenderLoopExited ok s = (if senderLoopActive s then s else consumePendingInterruptStop ok s)"

definition elem_ok :: "audio_elem \<Rightarrow> bool" where
  \<comment> \<open>only the end of a sentence carries a final callback\<close>
  "elem_ok e \<longleftrightarrow> (OnEnd e \<noteq> None \<longrightarrow> Kind e = KindSentenceEnd)"

datatype tts_action =
    Sender choice bool
  | Delayed delayed_choice
  | Enqueue nat audio_elem
  | Raise
  | Signal
  | Request nat
  | RecordStop bool "tts_error option"
  | FinishIfExited bool
  | FinishNow "tts_error option"
  | CancelCtx
  | Tick int

fun tts_act :: "tts_action \<Rightarrow> tts_sender \<Rightarrow> tts_sender option" where
  "tts_act (Sender ch ok) s = sender_step ch ok s"
| "tts_act (Delayed ch) s = delayed_step ch s"
| "tts_act (Enqueue g e) s = (if g \<le> audioGeneration s \<and> elem_ok e then enqueueSessionElem g e s else None)"
| "tts_act Raise s = Some (nextAudioGeneration s)"
| "tts_act Signal s = Some (signal_interrupt s)"
| "tts_act (Request g) s = (if g \<le> audioGeneration s then request_interrupt g s else None)"
| "tts_act (RecordStop send err) s = Some (recordPendingInterruptStop send err s)"
| "tts_act (FinishIfExited ok) s = Some (finishPendingInterruptStopIfSenderLoopExited ok s)"
| "tts_act (FinishNow err) s = Some (finishTtsStop False err True s)"
| "tts_act CancelCtx s = Some (s\<lparr>ctxDone := True\<rparr>)"
| "tts_act (Tick d) s = (if 0 \<le> d then Some (s\<lparr>clock := clock s + d\<rparr>) else None)"

fun tts_run :: "tts_action list \<Rightarrow> tts_sender \<Rightarrow> tts_sender option" where
  "tts_run [] s = Some s"
| "tts_run (a # as) s = (case tts_act a s of None \<Rightarrow> None | Some s \<Rightarrow> tts_run as s)"

end
