(* ===== verification/Tts_Order.thy ===== *)
theory Tts_Order
  imports Tts_Sender "HOL-Library.Multiset"
begin

text \<open>
  What the audio queue of a session promises: the pace of the frames, no stale sound after a synchronous interruption,
  the alternation of start and stop, and the fate of every final callback.
\<close>

section \<open>Steps\<close>

lemma sent_emit [simp]: "sent (emit_out out s) = sent s @ out"
  by (simp add: emit_out_def)

lemma emit_fields [simp]:
  "frameMs (emit_out out s) = frameMs s" "realTime (emit_out out s) = realTime s" "audioGeneration (emit_out out s) = audioGeneration s"
  "sessionAudioQueue (emit_out out s) = sessionAudioQueue s" "delayedSentenceQueue (emit_out out s) = delayedSentenceQueue s"
  "delayedPending (emit_out out s) = delayedPending s" "delayedTaken (emit_out out s) = delayedTaken s"
  "delayedSentenceReadyQueue (emit_out out s) = delayedSentenceReadyQueue s" "interruptCh (emit_out out s) = interruptCh s"
  "closedRequests (emit_out out s) = closedRequests s" "ttsActive (emit_out out s) = ttsActive s"
  "playbackTail (emit_out out s) = playbackTail s" "clock (emit_out out s) = clock s" "spc (emit_out out s) = spc s"
  "delayedExited (emit_out out s) = delayedExited s" "ctxDone (emit_out out s) = ctxDone s"
  by (simp_all add: emit_out_def)

lemma finish_fields [simp]:
  "frameMs (finishTtsStop b e ok s) = frameMs s" "realTime (finishTtsStop b e ok s) = realTime s"
  "audioGeneration (finishTtsStop b e ok s) = audioGeneration s"
  "sessionAudioQueue (finishTtsStop b e ok s) = sessionAudioQueue s" "delayedSentenceQueue (finishTtsStop b e ok s) = delayedSentenceQueue s"
  "delayedPending (finishTtsStop b e ok s) = delayedPending s" "delayedTaken (finishTtsStop b e ok s) = delayedTaken s"
  "delayedSentenceReadyQueue (finishTtsStop b e ok s) = delayedSentenceReadyQueue s" "interruptCh (finishTtsStop b e ok s) = interruptCh s"
  "closedRequests (finishTtsStop b e ok s) = closedRequests s" "playbackTail (finishTtsStop b e ok s) = playbackTail s"
  "clock (finishTtsStop b e ok s) = clock s" "spc (finishTtsStop b e ok s) = spc s"
  "delayedExited (finishTtsStop b e ok s) = delayedExited s" "ctxDone (finishTtsStop b e ok s) = ctxDone s"
  by (simp_all add: finishTtsStop_def Let_def)

lemma consume_fields [simp]:
  "frameMs (consumePendingInterruptStop ok s) = frameMs s" "realTime (consumePendingInterruptStop ok s) = realTime s"
  "audioGeneration (consumePendingInterruptStop ok s) = audioGeneration s"
  "sessionAudioQueue (consumePendingInterruptStop ok s) = sessionAudioQueue s"
  "delayedSentenceQueue (consumePendingInterruptStop ok s) = delayedSentenceQueue s"
  "delayedPending (consumePendingInterruptStop ok s) = delayedPending s" "delayedTaken (consumePendingInterruptStop ok s) = delayedTaken s"
  "delayedSentenceReadyQueue (consumePendingInterruptStop ok s) = delayedSentenceReadyQueue s"
  "interruptCh (consumePendingInterruptStop ok s) = interruptCh s"
  "closedRequests (consumePendingInterruptStop ok s) = closedRequests s" "playbackTail (consumePendingInterruptStop ok s) = playbackTail s"
  "clock (consumePendingInterruptStop ok s) = clock s" "spc (consumePendingInterruptStop ok s) = spc s"
  "delayedExited (consumePendingInterruptStop ok s) = delayedExited s" "ctxDone (consumePendingInterruptStop ok s) = ctxDone s"
  by (simp_all add: consumePendingInterruptStop_def split: option.split prod.split)

lemma drain_fields [simp]:
  "frameMs (drainSessionAudioQueue s) = frameMs s" "audioGeneration (drainSessionAudioQueue s) = audioGeneration s"
  "playbackTail (drainSessionAudioQueue s) = playbackTail s" "clock (drainSessionAudioQueue s) = clock s"
  "closedRequests (drainSessionAudioQueue s) = closedRequests s" "interruptCh (drainSessionAudioQueue s) = interruptCh s"
  "frameMs (drainDelayedSentenceReadyQueue s) = frameMs s" "audioGeneration (drainDelayedSentenceReadyQueue s) = audioGeneration s"
  "playbackTail (drainDelayedSentenceReadyQueue s) = playbackTail s" "clock (drainDelayedSentenceReadyQueue s) = clock s"
  "closedRequests (drainDelayedSentenceReadyQueue s) = closedRequests s" "interruptCh (drainDelayedSentenceReadyQueue s) = interruptCh s"
  by (simp_all add: drainSessionAudioQueue_def drainDelayedSentenceReadyQueue_def)

lemma take_interrupt_fields [simp]:
  "frameMs (take_interrupt ok req s) = frameMs s" "audioGeneration (take_interrupt ok req s) = audioGeneration s"
  "playbackTail (take_interrupt ok req s) = None" "clock (take_interrupt ok req s) = clock s" "spc (take_interrupt ok req s) = SPoll"
  "interruptCh (take_interrupt ok req s) = None"
  "closedRequests (take_interrupt ok req s) = (case req of None \<Rightarrow> closedRequests s | Some w \<Rightarrow> insert w (closedRequests s))"
  by (simp_all add: take_interrupt_def handleInterrupt_def)

lemma leave_fields [simp]:
  "frameMs (leave ok s) = frameMs s" "audioGeneration (leave ok s) = audioGeneration s"
  "playbackTail (leave ok s) = playbackTail s" "clock (leave ok s) = clock s" "spc (leave ok s) = SExited"
  "interruptCh (leave ok s) = interruptCh s" "closedRequests (leave ok s) = closedRequests s"
  by (simp_all add: leave_def)

lemma delayed_sentence_same:
  "\<exists>out. handleDelayedSentence e ok s = emit_out out s"
proof -
  have "s = emit_out [] s" by (simp add: emit_out_def)
  then show ?thesis
    unfolding handleDelayedSentence_def by (cases "Kind e") (simp_all, blast+)
qed

lemma ready_fields:
  assumes "receive_ready ok s = Some s'"
  shows "\<exists>e es out. delayedSentenceReadyQueue s = e # es \<and> s' = emit_out out (s\<lparr>delayedSentenceReadyQueue := es\<rparr>)"
  using assms delayed_sentence_same by (auto simp: receive_ready_def split: list.splits)

section \<open>Pace\<close>

definition ahead :: "tts_sender \<Rightarrow> int" where
  \<comment> \<open>how far the playback may be ahead when a frame is sent\<close>
  "ahead s = cacheFrameCount s * frameDuration s"

definition paced :: "tts_sender \<Rightarrow> bool" where
  "paced s \<longleftrightarrow> 0 < frameMs s
     \<and> (\<forall>t. playbackTail s = Some t \<longrightarrow> t \<le> clock s + ahead s + frameDuration s)
     \<and> (\<forall>e at. spc s = SWait e at \<longrightarrow> (\<exists>t. playbackTail s = Some t \<and> at = t - ahead s))
     \<and> (\<forall>e. spc s = SSend e \<longrightarrow> (\<exists>t. playbackTail s = Some t \<and> t \<le> clock s + ahead s))"

lemma ahead_nonneg: "0 < frameMs s \<Longrightarrow> 0 \<le> ahead s" and duration_pos: "0 < frameMs s \<Longrightarrow> 0 < frameDuration s"
  by (simp_all add: ahead_def cacheFrameCount_def frameDuration_def pos_imp_zdiv_nonneg_iff)

lemma ahead_cong: "frameMs s' = frameMs s \<Longrightarrow> ahead s' = ahead s" "frameMs s' = frameMs s \<Longrightarrow> frameDuration s' = frameDuration s"
  by (simp_all add: ahead_def cacheFrameCount_def frameDuration_def)

lemma paced_cong:
  assumes "paced s" and "frameMs s' = frameMs s" and "playbackTail s' = playbackTail s" and "clock s \<le> clock s'"
    and "spc s' = spc s \<or> (\<forall>e at. spc s' \<noteq> SWait e at) \<and> (\<forall>e. spc s' \<noteq> SSend e)"
  shows "paced s'"
proof -
  note c = ahead_cong [OF assms(2)]
  have p: "0 < frameMs s" "\<And>t. playbackTail s = Some t \<Longrightarrow> t \<le> clock s + ahead s + frameDuration s"
    "\<And>e at. spc s = SWait e at \<Longrightarrow> \<exists>t. playbackTail s = Some t \<and> at = t - ahead s"
    "\<And>e. spc s = SSend e \<Longrightarrow> \<exists>t. playbackTail s = Some t \<and> t \<le> clock s + ahead s"
    using assms(1) by (simp_all add: paced_def)
  show ?thesis
    unfolding paced_def c assms(2,3)
  proof (intro conjI allI impI)
    fix t assume "playbackTail s = Some t"
    then show "t \<le> clock s' + ahead s + frameDuration s" using p(2) [of t] assms(4) by linarith
  next
    fix e at assume "spc s' = SWait e at"
    then show "\<exists>t. playbackTail s = Some t \<and> at = t - ahead s" using p(3) [of e at] assms(5) by auto
  next
    fix e assume "spc s' = SSend e"
    then have "spc s = SSend e" using assms(5) by auto
    then show "\<exists>t. playbackTail s = Some t \<and> t \<le> clock s' + ahead s" using p(4) [of e] assms(4) by force
  qed (rule p(1))
qed

lemma paced_reset:
  assumes "paced s" and "frameMs s' = frameMs s" and "playbackTail s' = None" and "\<forall>e at. spc s' \<noteq> SWait e at" and "\<forall>e. spc s' \<noteq> SSend e"
  shows "paced s'"
  using assms by (simp add: paced_def)

lemma paced_ready: "receive_ready ok s = Some s' \<Longrightarrow> paced s \<Longrightarrow> paced s'"
  using ready_fields [of ok s s'] by (auto intro: paced_cong)

lemma paced_waiting: "waiting ch ok s = Some s' \<Longrightarrow> paced s \<Longrightarrow> paced s'"
  by (auto simp: waiting_def intro: paced_ready paced_cong paced_reset split: choice.splits if_splits)

lemma paced_start:
  assumes p: "0 < frameMs s" and t: "\<forall>t. playbackTail s = Some t \<longrightarrow> t \<le> clock s + ahead s + frameDuration s"
  shows "paced (start_frame e s)"
proof -
  define tail where "tail = (case playbackTail s of None \<Rightarrow> clock s | Some t \<Rightarrow> max t (clock s))"
  let ?s = "start_frame e s"
  have s: "?s = s\<lparr>playbackTail := Some tail, spc := (if clock s < tail - ahead s then SWait e (tail - ahead s) else SSend e)\<rparr>"
    by (simp add: start_frame_def tail_def ahead_def Let_def)
  have c: "ahead ?s = ahead s" "frameDuration ?s = frameDuration s" by (simp_all add: s ahead_def cacheFrameCount_def frameDuration_def)
  have "tail \<le> clock s + ahead s + frameDuration s"
    using t ahead_nonneg [OF p] duration_pos [OF p] by (auto simp: tail_def split: option.split)
  then show ?thesis using p unfolding paced_def c by (auto simp: s)
qed

lemma paced_elem:
  assumes "receive_elem ok s = Some s'" and "paced s" and "spc s = SPoll"
  shows "paced s'"
proof -
  obtain e es where q: "sessionAudioQueue s = e # es" using assms(1) by (auto simp: receive_elem_def split: list.splits)
  let ?s = "s\<lparr>sessionAudioQueue := es\<rparr>"
  have p: "paced ?s" by (rule paced_cong [OF assms(2)]) simp_all
  have start: "paced (start_frame e ?s)"
    by (rule paced_start) (use p in \<open>simp_all add: paced_def\<close>)
  show ?thesis
  proof (cases "Generation e \<noteq> audioGeneration s")
    case True
    then have "s' = emit_out (call_end (Some Canceled) e) ?s" using assms(1) q by (simp add: receive_elem_def Let_def)
    then show ?thesis by (auto intro: paced_cong [OF p])
  next
    case False
    then have s': "s' = (case Kind e of
        KindSentenceStart \<Rightarrow> ?s\<lparr>spc := SDelay e (clock s + sentenceControlDelay ?s)\<rparr>
      | KindSentenceEnd \<Rightarrow> ?s\<lparr>spc := SDelay e (clock s + sentenceControlDelay ?s)\<rparr>
      | KindFrame \<Rightarrow> start_frame e ?s | KindMediaFrame \<Rightarrow> start_frame e ?s
      | KindTtsStart \<Rightarrow> emit_out (HookStart # (if ok then [SentTtsStart] else [])) (?s\<lparr>ttsActive := True, playbackTail := None\<rparr>)
      | KindTtsStop \<Rightarrow> ?s\<lparr>spc := (case playbackTail s of None \<Rightarrow> SStopGrace (clock s + 150000000) | Some t \<Rightarrow> SStopTail t)\<rparr>)"
      using assms(1) q by (cases "Kind e") (auto simp: receive_elem_def Let_def split: option.split)
    show ?thesis
    proof (cases "Kind e")
      case KindTtsStart
      then show ?thesis using s' assms(3) by (auto intro!: paced_reset [OF p])
    next
      case KindTtsStop
      then show ?thesis using s' by (auto intro!: paced_cong [OF p] split: option.split)
    qed (use s' start in \<open>auto intro!: paced_cong [OF p]\<close>)
  qed
qed

lemma paced_sender:
  assumes "sender_step ch ok s = Some s'" and p: "paced s"
  shows "paced s'"
proof (cases "spc s")
  case SPoll
  then show ?thesis using assms paced_ready by (auto simp: sender_step_def intro: paced_cong [OF p] split: if_splits)
next
  case SSelect
  have p0: "paced (s\<lparr>spc := SPoll\<rparr>)" by (rule paced_cong [OF p]) simp_all
  then show ?thesis using SSelect assms paced_ready paced_elem [OF _ p0] paced_waiting by (auto simp: sender_step_def split: if_splits)
next
  case (SWait e at)
  show ?thesis
  proof (cases "ch = Reached")
    case True
    obtain t where t: "playbackTail s = Some t" "at = t - ahead s" using p SWait by (auto simp: paced_def)
    have s': "s' = s\<lparr>playbackTail := Some (max t (clock s)), spc := SSend e\<rparr>" and le: "at \<le> clock s"
      using True SWait assms t by (auto simp: sender_step_def split: if_splits)
    have c: "ahead s' = ahead s" "frameDuration s' = frameDuration s" by (simp_all add: s' ahead_def cacheFrameCount_def frameDuration_def)
    have f: "0 < frameMs s" using p by (simp add: paced_def)
    show ?thesis using le t(2) f ahead_nonneg [OF f] duration_pos [OF f] unfolding paced_def c by (auto simp: s')
  qed (use SWait assms paced_waiting in \<open>auto simp: sender_step_def\<close>)
next
  case (SSend e)
  show ?thesis
  proof (cases ok)
    case True
    obtain t where t: "playbackTail s = Some t" "t \<le> clock s + ahead s" using p SSend by (auto simp: paced_def)
    let ?s = "s\<lparr>audioHistory := (if Kind e = KindFrame then audioHistory s @ [Data e] else audioHistory s),
        playbackTail := map_option (\<lambda>t. t + frameDuration s) (playbackTail s), spc := SPoll\<rparr>"
    have s': "s' = emit_out [SentAudio (Data e) (Generation e)] ?s" using True SSend assms by (simp add: sender_step_def)
    have c: "ahead s' = ahead s" "frameDuration s' = frameDuration s" by (simp_all add: s' ahead_def cacheFrameCount_def frameDuration_def)
    show ?thesis using t p unfolding paced_def c by (auto simp: s')
  next
    case False
    then show ?thesis using SSend assms by (auto simp: sender_step_def intro: paced_cong [OF p])
  qed
next
  case (SDelay e at)
  then show ?thesis using assms by (auto simp: sender_step_def intro: paced_cong [OF p] split: if_splits)
next
  case (SStopTail t)
  then show ?thesis using assms paced_waiting by (auto simp: sender_step_def intro: paced_cong [OF p] split: if_splits)
next
  case (SStopGrace t)
  then show ?thesis using assms paced_waiting by (auto simp: sender_step_def intro: paced_reset [OF p] split: if_splits)
qed (use assms in \<open>simp add: sender_step_def\<close>)

lemma paced_act: "tts_act a s = Some s' \<Longrightarrow> paced s \<Longrightarrow> paced s'"
proof (cases a)
  case (Delayed ch)
  assume a: "tts_act a s = Some s'" and p: "paced s"
  then show ?thesis using Delayed
    by (auto simp: delayed_step_def intro: paced_cong [OF p] split: if_splits option.splits delayed_choice.splits list.splits prod.splits)
next
  case (Sender ch ok)
  assume "tts_act a s = Some s'" and "paced s"
  then show ?thesis using Sender paced_sender by simp
next
  case (RecordStop send err)
  assume "tts_act a s = Some s'" and p: "paced s"
  then show ?thesis using RecordStop by (auto simp: recordPendingInterruptStop_def intro!: paced_cong [OF p])
qed (auto simp: enqueueSessionElem_def nextAudioGeneration_def signal_interrupt_def request_interrupt_def
    finishPendingInterruptStopIfSenderLoopExited_def intro: paced_cong split: if_splits)

lemma paced_run: "tts_run as s = Some s' \<Longrightarrow> paced s \<Longrightarrow> paced s'"
  by (induction as arbitrary: s) (auto dest: paced_act split: option.splits)

definition frames :: "tts_output list \<Rightarrow> nat" where
  "frames out = length (filter (\<lambda>x. case x of SentAudio _ _ \<Rightarrow> True | _ \<Rightarrow> False) out)"

lemma frames_simps [simp]:
  "frames [] = 0" "frames (x # out) = (case x of SentAudio _ _ \<Rightarrow> 1 | _ \<Rightarrow> 0) + frames out" "frames (xs @ ys) = frames xs + frames ys"
  by (simp_all add: frames_def split: tts_output.split)

lemma frames_calls [simp]: "frames (call_end err e) = 0" "frames (call_error te e) = 0" "frames (call_start e) = 0"
  "frames (concat (map (call_end err) es)) = 0"
proof -
  show *: "frames (call_end err e) = 0" for e by (simp add: call_end_def split: option.split)
  show "frames (call_error te e) = 0" "frames (call_start e) = 0" by (simp_all add: call_error_def call_start_def split: option.split)
  show "frames (concat (map (call_end err) es)) = 0" by (induction es) (simp_all add: *)
qed

lemma frames_stop [simp]: "frames (sent (finishTtsStop b e ok s)) = frames (sent s)"
  "frames (sent (consumePendingInterruptStop ok s)) = frames (sent s)"
  "frames (sent (drainSessionAudioQueue s)) = frames (sent s)" "frames (sent (drainDelayedSentenceReadyQueue s)) = frames (sent s)"
proof -
  show *: "frames (sent (finishTtsStop b e ok s)) = frames (sent s)" for b e s by (simp add: finishTtsStop_def Let_def)
  show "frames (sent (consumePendingInterruptStop ok s)) = frames (sent s)"
    by (simp add: consumePendingInterruptStop_def * split: option.split prod.split)
qed (simp_all add: drainSessionAudioQueue_def drainDelayedSentenceReadyQueue_def)

lemma frames_ready: "receive_ready ok s = Some s' \<Longrightarrow> frames (sent s') = frames (sent s) \<and> playbackTail s' = playbackTail s \<and> frameMs s' = frameMs s"
  by (cases "delayedSentenceReadyQueue s")
    (auto simp: receive_ready_def handleDelayedSentence_def split: elem_kind.splits)

lemma frames_waiting:
  "waiting ch ok s = Some s' \<Longrightarrow> playbackTail s' \<noteq> None \<Longrightarrow>
     frames (sent s') = frames (sent s) \<and> playbackTail s' = playbackTail s \<and> frameMs s' = frameMs s"
  using frames_ready [of ok s s'] by (auto simp: waiting_def leave_def split: choice.splits if_splits)

definition moved :: "tts_sender \<Rightarrow> tts_sender \<Rightarrow> bool" where
  \<comment> \<open>the tail moves by at least the duration of the frames that were sent\<close>
  "moved s s' \<longleftrightarrow> (\<forall>t t'. playbackTail s = Some t \<longrightarrow> playbackTail s' = Some t' \<longrightarrow>
     frames (sent s) \<le> frames (sent s') \<and> t + (int (frames (sent s')) - int (frames (sent s))) * frameDuration s \<le> t')"

lemma moved_still: "frames (sent s') = frames (sent s) \<Longrightarrow> playbackTail s' = playbackTail s \<Longrightarrow> moved s s'"
  by (simp add: moved_def)

lemma moved_reset: "playbackTail s' = None \<Longrightarrow> moved s s'"
  by (simp add: moved_def)

lemma moved_waiting: "waiting ch ok s = Some s' \<Longrightarrow> moved s s'"
  using frames_waiting [of ch ok s s'] by (cases "playbackTail s'") (auto intro: moved_still moved_reset)

lemma moved_elem:
  assumes "receive_elem ok s = Some s'"
  shows "moved s s'"
proof -
  obtain e es where q: "sessionAudioQueue s = e # es" using assms(1) by (auto simp: receive_elem_def split: list.splits)
  have start: "moved s (start_frame e (s\<lparr>sessionAudioQueue := es\<rparr>))"
    by (auto simp: moved_def start_frame_def Let_def)
  show ?thesis
    using assms q start
    by (cases "Kind e") (auto simp: receive_elem_def Let_def intro: moved_still moved_reset split: if_splits)
qed

lemma moved_act:
  assumes "tts_act a s = Some s'"
  shows "moved s s' \<and> frameMs s' = frameMs s"
proof (cases a)
  case (Sender ch ok)
  have step: "sender_step ch ok s = Some s'" using assms Sender by simp
  show ?thesis
  proof (cases "spc s")
    case SPoll
    then show ?thesis using step frames_ready [of ok s s'] by (auto simp: sender_step_def intro: moved_still split: if_splits)
  next
    case SSelect
    have "moved (s\<lparr>spc := SPoll\<rparr>) s' \<Longrightarrow> moved s s'" by (simp add: moved_def frameDuration_def)
    moreover have "frameMs s' = frameMs s" if "receive_elem ok (s\<lparr>spc := SPoll\<rparr>) = Some s'"
      using that by (auto simp: receive_elem_def start_frame_def Let_def split: list.splits if_splits elem_kind.splits)
    moreover have "frameMs s' = frameMs s" if "waiting ch ok s = Some s'"
      using that frames_ready [of ok s s'] by (auto simp: waiting_def split: choice.splits if_splits)
    ultimately show ?thesis
      using SSelect step frames_ready [of ok "s\<lparr>spc := SPoll\<rparr>" s'] moved_elem moved_waiting
      by (auto simp: sender_step_def intro: moved_still split: if_splits)
  next
    case (SSend e)
    then show ?thesis using step by (auto simp: sender_step_def moved_def split: if_splits)
  next
    case (SWait e at)
    have "frameMs s' = frameMs s" if "waiting ch ok s = Some s'"
      using that frames_ready [of ok s s'] by (auto simp: waiting_def split: choice.splits if_splits)
    then show ?thesis using step SWait moved_waiting by (auto simp: sender_step_def moved_def split: if_splits)
  next
    case (SStopTail t)
    have "frameMs s' = frameMs s" if "waiting ch ok s = Some s'"
      using that frames_ready [of ok s s'] by (auto simp: waiting_def split: choice.splits if_splits)
    then show ?thesis using step SStopTail moved_waiting by (auto simp: sender_step_def intro: moved_still split: if_splits)
  next
    case (SStopGrace t)
    have "frameMs s' = frameMs s" if "waiting ch ok s = Some s'"
      using that frames_ready [of ok s s'] by (auto simp: waiting_def split: choice.splits if_splits)
    then show ?thesis using step SStopGrace moved_waiting by (auto simp: sender_step_def intro: moved_reset split: if_splits)
  qed (use step in \<open>auto simp: sender_step_def intro: moved_still split: if_splits\<close>)
next
  case (Delayed ch)
  then show ?thesis using assms
    by (auto simp: delayed_step_def intro!: moved_still split: if_splits option.splits delayed_choice.splits list.splits prod.splits)
qed (use assms in \<open>auto simp: enqueueSessionElem_def nextAudioGeneration_def signal_interrupt_def request_interrupt_def
    recordPendingInterruptStop_def finishPendingInterruptStopIfSenderLoopExited_def intro!: moved_still split: if_splits\<close>)

fun unbroken :: "tts_action list \<Rightarrow> tts_sender \<Rightarrow> bool" where
  \<comment> \<open>no segment begins or is broken off during the run: the tail is never reset\<close>
  "unbroken [] s \<longleftrightarrow> playbackTail s \<noteq> None"
| "unbroken (a # as) s \<longleftrightarrow> playbackTail s \<noteq> None \<and> (case tts_act a s of None \<Rightarrow> False | Some s' \<Rightarrow> unbroken as s')"

lemma unbroken_moves:
  "unbroken as s \<Longrightarrow> tts_run as s = Some s' \<Longrightarrow> playbackTail s = Some t \<Longrightarrow>
     \<exists>t'. playbackTail s' = Some t' \<and> frames (sent s) \<le> frames (sent s')
       \<and> t + (int (frames (sent s')) - int (frames (sent s))) * frameDuration s \<le> t'"
proof (induction as arbitrary: s t)
  case (Cons a as)
  obtain s1 where s1: "tts_act a s = Some s1" "unbroken as s1" "tts_run as s1 = Some s'"
    using Cons.prems by (auto split: option.splits)
  obtain t1 where t1: "playbackTail s1 = Some t1" using s1(2) by (cases as) auto
  have m: "frames (sent s) \<le> frames (sent s1)" "t + (int (frames (sent s1)) - int (frames (sent s))) * frameDuration s \<le> t1"
    using moved_act [OF s1(1)] Cons.prems(3) t1 by (auto simp: moved_def)
  have f: "frameDuration s1 = frameDuration s" using moved_act [OF s1(1)] by (simp add: frameDuration_def)
  obtain t' where t': "playbackTail s' = Some t'" "frames (sent s1) \<le> frames (sent s')"
      "t1 + (int (frames (sent s')) - int (frames (sent s1))) * frameDuration s \<le> t'"
    using Cons.IH [OF s1(2,3) t1] f by auto
  have "(int (frames (sent s')) - int (frames (sent s))) * frameDuration s
      = (int (frames (sent s')) - int (frames (sent s1))) * frameDuration s + (int (frames (sent s1)) - int (frames (sent s))) * frameDuration s"
    by (simp add: algebra_simps)
  then show ?case using t' m by auto
qed simp

text \<open>C16: The device is fed at the pace of its playback. The estimated end of the playback never runs further
  ahead of the clock than the frames of 120 ms and one more, and in a stretch in which no segment
  begins or breaks off, the frames that are sent take no longer to play than the time since the playback pointer at its
  beginning plus this lead, whatever the interleaving of the sender with its callers.\<close>

theorem frames_are_paced:
  assumes "0 < fd" and "tts_run as (NewTTSManager fd rt now) = Some s" and "playbackTail s = Some t"
    and "unbroken bs s" and "tts_run bs s = Some s'"
  shows "t \<le> clock s + (120 div fd + 1) * fd * 1000000
    \<and> (int (frames (sent s')) - int (frames (sent s))) * fd * 1000000 \<le> (clock s' - t) + (120 div fd + 1) * fd * 1000000"
proof -
  have p0: "paced (NewTTSManager fd rt now)" using assms(1) by (simp add: paced_def NewTTSManager_def)
  have p: "paced s" "paced s'" using paced_run [OF assms(2) p0] paced_run [OF assms(5)] by blast+
  have ms: "tts_run as s = Some s' \<Longrightarrow> frameMs s' = frameMs s" for as s s'
    by (induction as arbitrary: s) (auto dest: moved_act split: option.splits)
  have f: "frameMs s = fd" "frameMs s' = fd" using ms [OF assms(2)] ms [OF assms(5)] by (simp_all add: NewTTSManager_def)
  obtain t' where t': "playbackTail s' = Some t'" "t + (int (frames (sent s')) - int (frames (sent s))) * frameDuration s \<le> t'"
    using unbroken_moves [OF assms(4,5,3)] by blast
  have "t' \<le> clock s' + ahead s' + frameDuration s'" using p(2) t'(1) by (simp add: paced_def)
  moreover have "t \<le> clock s + ahead s + frameDuration s" using p(1) assms(3) by (simp add: paced_def)
  ultimately show ?thesis
    using t'(2) f by (simp add: ahead_def cacheFrameCount_def frameDuration_def algebra_simps)
qed

definition a_frame :: "byte \<Rightarrow> audio_elem" where
  "a_frame b = \<lparr>Kind = KindFrame, Data = [b], Text = [], Err = None, Generation = 0, OnStart = None, OnEnd = None, OnError = None\<rparr>"

definition one_frame :: "tts_action list" where
  "one_frame = [Enqueue 1 (a_frame 7), Sender Reached True, Sender TakeElem True, Sender Reached True]"

lemma frames_are_paced_witness:
  "int (frames (sent (the (tts_run (one_frame @ one_frame) (NewTTSManager 60 False 5))))) = 2"
proof -
  let ?s = "the (tts_run one_frame (NewTTSManager 60 False 5))"
  let ?s' = "the (tts_run one_frame ?s)"
  have r: "tts_run one_frame (NewTTSManager 60 False 5) = Some ?s" "tts_run one_frame ?s = Some ?s'" by code_simp+
  have n: "frames (sent ?s) = 1" "frames (sent ?s') = 2" "clock ?s' = 5" by code_simp+
  have t: "playbackTail ?s = Some 60000005" by code_simp
  have u: "unbroken one_frame ?s" by code_simp
  have "(int (frames (sent ?s')) - int (frames (sent ?s))) * 60 * 1000000 \<le> (clock ?s' - 60000005) + (120 div 60 + 1) * 60 * 1000000"
    using frames_are_paced [OF _ r(1) t u r(2)] by simp
  moreover have "tts_run (one_frame @ one_frame) (NewTTSManager 60 False 5) = Some ?s'" by code_simp
  ultimately show ?thesis using n by simp
qed

section \<open>Interruptions\<close>

fun sound_generation :: "tts_output \<Rightarrow> nat option" where
  \<comment> \<open>the generation of what reaches the device\<close>
  "sound_generation (SentAudio _ g) = Some g"
| "sound_generation (SentSentenceStart _ g) = Some g"
| "sound_generation (SentSentenceEnd _ g) = Some g"
| "sound_generation _ = None"

definition floor_ok :: "tts_sender \<Rightarrow> bool" where
  "floor_ok s \<longleftrightarrow> (\<forall>w g. (w, g) \<in> closedRequests s \<or> interruptCh s = Some (Some (w, g)) \<longrightarrow> g \<le> audioGeneration s)
     \<and> (\<forall>w g e at. (w, g) \<in> closedRequests s \<longrightarrow> spc s = SWait e at \<or> spc s = SSend e \<longrightarrow> g \<le> Generation e)"

definition fresh_one :: "tts_sender \<Rightarrow> tts_output \<Rightarrow> bool" where
  "fresh_one s x \<longleftrightarrow> (\<forall>g w h. sound_generation x = Some g \<longrightarrow> (w, h) \<in> closedRequests s \<longrightarrow> h \<le> g)"

definition fresh_sound :: "tts_sender \<Rightarrow> tts_output list \<Rightarrow> bool" where
  "fresh_sound s out \<longleftrightarrow> list_all (fresh_one s) out"

definition floor_step :: "tts_sender \<Rightarrow> tts_sender \<Rightarrow> bool" where
  "floor_step s s' \<longleftrightarrow> floor_ok s' \<and> (\<exists>out. sent s' = sent s @ out \<and> fresh_sound s out)"

lemma floor_okD: "floor_ok s \<Longrightarrow> (w, g) \<in> closedRequests s \<Longrightarrow> g \<le> audioGeneration s"
  by (auto simp: floor_ok_def)

lemma floor_heldD:
  "floor_ok s \<Longrightarrow> (w, g) \<in> closedRequests s \<Longrightarrow> spc s = SSend e \<Longrightarrow> g \<le> Generation e"
  "floor_ok s \<Longrightarrow> (w, g) \<in> closedRequests s \<Longrightarrow> spc s = SWait e at \<Longrightarrow> g \<le> Generation e"
  by (auto simp: floor_ok_def)

lemma floor_chD: "floor_ok s \<Longrightarrow> interruptCh s = Some (Some (w, g)) \<Longrightarrow> g \<le> audioGeneration s"
  by (auto simp: floor_ok_def)

lemma floor_stepI:
  assumes ok: "floor_ok s" and sent: "sent s' = sent s @ out" "fresh_sound s out" and closed: "closedRequests s' = closedRequests s"
    and ch: "interruptCh s' = interruptCh s \<or> interruptCh s' = None \<or> interruptCh s' = Some None"
    and gen: "audioGeneration s \<le> audioGeneration s'"
    and held: "\<And>e at. spc s' = SWait e at \<or> spc s' = SSend e \<Longrightarrow>
      spc s = SSend e \<or> (\<exists>at. spc s = SWait e at) \<or> Generation e = audioGeneration s"
  shows "floor_step s s'"
proof -
  have "floor_ok s'"
    unfolding floor_ok_def
  proof (intro conjI allI impI)
    fix w g
    assume "(w, g) \<in> closedRequests s' \<or> interruptCh s' = Some (Some (w, g))"
    then consider "(w, g) \<in> closedRequests s" | "interruptCh s = Some (Some (w, g))" using closed ch by fastforce
    then have "g \<le> audioGeneration s"
    proof cases
      case 1
      then show ?thesis by (rule floor_okD [OF ok])
    next
      case 2
      then show ?thesis by (rule floor_chD [OF ok])
    qed
    then show "g \<le> audioGeneration s'" using gen by (rule le_trans)
  next
    fix w g e at
    assume c: "(w, g) \<in> closedRequests s'" and h: "spc s' = SWait e at \<or> spc s' = SSend e"
    have w: "(w, g) \<in> closedRequests s" using c unfolding closed .
    from held [OF h] consider "spc s = SSend e" | at where "spc s = SWait e at" | "Generation e = audioGeneration s" by blast
    then show "g \<le> Generation e"
    proof cases
      case 1
      then show ?thesis by (rule floor_heldD(1) [OF ok w])
    next
      case 2
      then show ?thesis by (rule floor_heldD(2) [OF ok w])
    next
      case 3
      then show ?thesis using floor_okD [OF ok w] by simp
    qed
  qed
  then show ?thesis unfolding floor_step_def using sent by blast
qed

lemma fresh_simps [simp]: "fresh_sound s []" "fresh_sound s (xs @ ys) \<longleftrightarrow> fresh_sound s xs \<and> fresh_sound s ys"
  "fresh_sound s (x # xs) \<longleftrightarrow> fresh_one s x \<and> fresh_sound s xs"
  by (simp_all add: fresh_sound_def)

lemma fresh_ones [simp]: "fresh_one s (CalledEnd f e)" "fresh_one s (CalledError f te)" "fresh_one s (CalledStart f)"
  "fresh_one s SentTtsStart" "fresh_one s SentTtsStop" "fresh_one s HookStart" "fresh_one s (HookStop e)"
  by (simp_all add: fresh_one_def)

lemma fresh_calls [simp]: "fresh_sound s (call_end err e)" "fresh_sound s (call_error te e)" "fresh_sound s (call_start e)"
  "fresh_sound s (concat (map (call_end err) es))"
proof -
  show c: "fresh_sound s (call_end err e)" for e by (simp add: call_end_def split: option.split)
  show "fresh_sound s (call_error te e)" "fresh_sound s (call_start e)" by (simp_all add: call_error_def call_start_def split: option.split)
  show "fresh_sound s (concat (map (call_end err) es))" by (induction es) (simp_all add: c)
qed

lemma stop_sent: "\<exists>out. sent (finishTtsStop b e ok s) = sent s @ out \<and> fresh_sound r out"
  by (auto simp: finishTtsStop_def Let_def)

lemma consume_sent: "\<exists>out. sent (consumePendingInterruptStop ok s) = sent s @ out \<and> fresh_sound r out"
proof (cases "interruptStop s")
  case None
  then show ?thesis by (auto simp: consumePendingInterruptStop_def)
next
  case (Some p)
  obtain send err where "p = (send, err)" by (cases p)
  then show ?thesis using Some stop_sent [of send err ok "s\<lparr>interruptStop := None\<rparr>" r] by (simp add: consumePendingInterruptStop_def)
qed

lemma drained_sent: "\<exists>out. sent (drainDelayedSentenceReadyQueue (drainSessionAudioQueue s)) = sent s @ out \<and> fresh_sound r out"
  by (rule exI [of _ "concat (map (call_end (Some Canceled)) (sessionAudioQueue s)) @ concat (map (call_end (Some Canceled)) (delayedSentenceReadyQueue s))"])
    (simp add: drainSessionAudioQueue_def drainDelayedSentenceReadyQueue_def)

lemma interrupt_sent: "\<exists>out. sent (take_interrupt ok req s) = sent s @ out \<and> fresh_sound r out"
proof -
  let ?s = "s\<lparr>interruptCh := None\<rparr>"
  obtain o1 where o1: "sent (drainDelayedSentenceReadyQueue (drainSessionAudioQueue ?s)) = sent s @ o1" "fresh_sound r o1"
    using drained_sent [of ?s r] by auto
  obtain o2 where o2: "sent (consumePendingInterruptStop ok (drainDelayedSentenceReadyQueue (drainSessionAudioQueue ?s)))
      = (sent s @ o1) @ o2" "fresh_sound r o2"
    using consume_sent [of ok _ r] o1(1) by metis
  then show ?thesis using o1 by (intro exI [of _ "o1 @ o2"]) (simp add: take_interrupt_def handleInterrupt_def)
qed

lemma leave_sent: "\<exists>out. sent (leave ok s) = sent s @ out \<and> fresh_sound r out"
proof -
  obtain o1 where o1: "sent (drainDelayedSentenceReadyQueue (drainSessionAudioQueue s)) = sent s @ o1" "fresh_sound r o1"
    using drained_sent [of s r] by auto
  obtain o2 where o2: "sent (finishTtsStop True (Some CtxErr) ok (drainDelayedSentenceReadyQueue (drainSessionAudioQueue s)))
      = (sent s @ o1) @ o2" "fresh_sound r o2"
    using stop_sent [of True "Some CtxErr" ok _ r] o1(1) by metis
  then show ?thesis using o1 by (intro exI [of _ "o1 @ o2"]) (simp add: leave_def)
qed

lemma ready_sent:
  assumes "receive_ready ok s = Some s'" and "floor_ok s"
  shows "\<exists>out es. s' = emit_out out (s\<lparr>delayedSentenceReadyQueue := es\<rparr>) \<and> fresh_sound s out"
proof -
  obtain e es where q: "delayedSentenceReadyQueue s = e # es" "s' = handleDelayedSentence e ok (s\<lparr>delayedSentenceReadyQueue := es\<rparr>)"
    using assms(1) by (auto simp: receive_ready_def split: list.splits)
  have nil: "\<exists>out. t = emit_out out t \<and> fresh_sound s out" for t by (rule exI [of _ "[]"]) (simp add: emit_out_def)
  have out: "\<exists>out. handleDelayedSentence e ok t = emit_out out t \<and> fresh_sound s out" if "audioGeneration t = audioGeneration s" for t
  proof (cases "Generation e = audioGeneration s")
    case False
    then show ?thesis using that by (auto simp: handleDelayedSentence_def)
  next
    case True
    have "fresh_one s (SentSentenceStart (Text e) (audioGeneration s))" "fresh_one s (SentSentenceEnd (Text e) (audioGeneration s))"
      using floor_okD [OF assms(2)] by (auto simp: fresh_one_def)
    then show ?thesis using True that nil [of t]
      by (cases "Kind e") (auto simp: handleDelayedSentence_def intro!: exI)
  qed
  show ?thesis using out [of "s\<lparr>delayedSentenceReadyQueue := es\<rparr>"] q(2) by auto
qed

lemma floor_emit:
  assumes "floor_ok s" and "fresh_sound s out" and "spc s' = spc s \<or> (\<forall>e at. spc s' \<noteq> SWait e at) \<and> (\<forall>e. spc s' \<noteq> SSend e)"
    and "closedRequests s' = closedRequests s" and "interruptCh s' = interruptCh s" and "audioGeneration s' = audioGeneration s"
    and "sent s' = sent s @ out"
  shows "floor_step s s'"
  by (rule floor_stepI [OF assms(1,7,2,4)]) (use assms(3,5,6) in auto)

lemma floor_quiet:
  assumes "floor_ok s" and "spc s' = spc s \<or> (\<forall>e at. spc s' \<noteq> SWait e at) \<and> (\<forall>e. spc s' \<noteq> SSend e)"
    and "closedRequests s' = closedRequests s" and "interruptCh s' = interruptCh s" and "audioGeneration s' = audioGeneration s"
    and "sent s' = sent s"
  shows "floor_step s s'"
  by (rule floor_emit [OF assms(1) _ assms(2-5), of "[]"]) (simp_all add: assms(6))

lemma floor_interrupt:
  assumes ok: "floor_ok s" and ch: "interruptCh s = Some req"
  shows "floor_step s (take_interrupt b req s)"
proof -
  have "g \<le> audioGeneration s" if "(w, g) \<in> closedRequests (take_interrupt b req s)" for w g
    using that floor_okD [OF ok] floor_chD [OF ok] ch by (cases req) auto
  then have "floor_ok (take_interrupt b req s)" by (simp add: floor_ok_def)
  then show ?thesis using interrupt_sent [of b req s s] by (simp add: floor_step_def)
qed

lemma floor_leave: "floor_ok s \<Longrightarrow> floor_step s (leave b s)"
proof -
  assume ok: "floor_ok s"
  obtain out where "sent (leave b s) = sent s @ out" "fresh_sound s out" using leave_sent [of b s s] by blast
  then show ?thesis by (intro floor_emit [OF ok]) simp_all
qed

lemma floor_ready: "receive_ready b s = Some s' \<Longrightarrow> floor_ok s \<Longrightarrow> floor_step s s'"
  using ready_sent [of b s s'] by (auto intro: floor_emit)

lemma floor_waiting: "waiting ch b s = Some s' \<Longrightarrow> floor_ok s \<Longrightarrow> floor_step s s'"
  using floor_leave [of s b] floor_ready [of b s s'] floor_interrupt [of s _ b] by (auto simp: waiting_def split: choice.splits if_splits)

lemma floor_start:
  assumes ok: "floor_ok s" and g: "Generation e = audioGeneration s"
  shows "floor_step s (start_frame e (s\<lparr>spc := SPoll, sessionAudioQueue := es\<rparr>))"
proof (rule floor_stepI [OF ok])
  show "sent (start_frame e (s\<lparr>spc := SPoll, sessionAudioQueue := es\<rparr>)) = sent s @ []" by (simp add: start_frame_def Let_def)
qed (use g in \<open>auto simp: start_frame_def Let_def split: if_splits\<close>)

lemma floor_elem:
  assumes step: "receive_elem b (s\<lparr>spc := SPoll\<rparr>) = Some s'" and ok: "floor_ok s"
  shows "floor_step s s'"
proof -
  obtain e es where q: "sessionAudioQueue s = e # es" using step by (auto simp: receive_elem_def split: list.splits)
  show ?thesis
  proof (cases "Generation e = audioGeneration s")
    case False
    then show ?thesis using step q
      by (auto simp: receive_elem_def Let_def intro!: floor_emit [OF ok, of "call_end (Some Canceled) e"])
  next
    case True
    note start = floor_start [OF ok True, of es]
    show ?thesis
    proof (cases "Kind e")
      case KindTtsStart
      then show ?thesis using step q True
        by (auto simp: receive_elem_def Let_def intro!: floor_emit [OF ok, of "HookStart # (if b then [SentTtsStart] else [])"])
    next
      case KindTtsStop
      then show ?thesis using step q True
        by (cases "playbackTail s") (auto simp: receive_elem_def Let_def intro!: floor_quiet [OF ok])
    next
      case KindSentenceStart
      then show ?thesis using step q True by (auto simp: receive_elem_def Let_def intro!: floor_quiet [OF ok])
    next
      case KindSentenceEnd
      then show ?thesis using step q True by (auto simp: receive_elem_def Let_def intro!: floor_quiet [OF ok])
    qed (use step q True start in \<open>simp_all add: receive_elem_def Let_def\<close>)
  qed
qed

lemma floor_sender:
  assumes step: "sender_step ch b s = Some s'" and ok: "floor_ok s"
  shows "floor_step s s'"
proof (cases "spc s")
  case SPoll
  then show ?thesis using step floor_ready [OF _ ok] by (auto simp: sender_step_def intro: floor_quiet [OF ok] split: if_splits)
next
  case SSelect
  have "floor_step s s'" if r: "receive_ready b (s\<lparr>spc := SPoll\<rparr>) = Some s'"
  proof -
    have "floor_ok (s\<lparr>spc := SPoll\<rparr>)" using ok by (simp add: floor_ok_def)
    from floor_ready [OF r this] show ?thesis by (simp add: floor_step_def fresh_sound_def fresh_one_def [abs_def])
  qed
  then show ?thesis using SSelect step floor_elem [OF _ ok] floor_waiting [OF _ ok] by (auto simp: sender_step_def split: if_splits)
next
  case (SWait e at)
  have "floor_step s (s\<lparr>playbackTail := t, spc := SSend e\<rparr>)" for t
    by (rule floor_stepI [OF ok, of _ "[]"]) (use SWait in auto)
  then show ?thesis using SWait step floor_waiting [OF _ ok] by (auto simp: sender_step_def split: if_splits)
next
  case (SSend e)
  have "fresh_one s (SentAudio (Data e) (Generation e))" using floor_heldD(1) [OF ok _ SSend] by (simp add: fresh_one_def)
  then have f: "fresh_sound s [SentAudio (Data e) (Generation e)]" by simp
  show ?thesis
  proof (cases b)
    case True
    then show ?thesis using SSend step by (auto simp: sender_step_def intro!: floor_emit [OF ok f])
  next
    case False
    then show ?thesis using SSend step by (auto simp: sender_step_def intro!: floor_emit [OF ok, of "call_error TransportErr e"])
  qed
next
  case (SDelay e at)
  show ?thesis
  proof (cases "ch = TakeCtx")
    case True
    then show ?thesis using SDelay step
      by (auto simp: sender_step_def intro!: floor_emit [OF ok, of "call_end (Some CtxErr) e"] split: if_splits)
  next
    case False
    then show ?thesis using SDelay step by (auto simp: sender_step_def intro!: floor_quiet [OF ok] split: if_splits)
  qed
next
  case (SStopTail t)
  then show ?thesis using step floor_waiting [OF _ ok] by (auto simp: sender_step_def intro: floor_quiet [OF ok] split: if_splits)
next
  case (SStopGrace t)
  obtain out where "sent (finishTtsStop True None b s) = sent s @ out" "fresh_sound s out" using stop_sent [of True None b s s] by blast
  then have "floor_step s ((finishTtsStop True None b s)\<lparr>playbackTail := None, spc := SPoll\<rparr>)"
    by (intro floor_emit [OF ok]) simp_all
  then show ?thesis using SStopGrace step floor_waiting [OF _ ok] by (auto simp: sender_step_def split: if_splits)
qed (use step in \<open>simp add: sender_step_def\<close>)

lemma delayed_sent:
  assumes "delayed_step ch s = Some s'"
  shows "\<exists>out. sent s' = sent s @ out \<and> fresh_sound r out \<and> spc s' = spc s \<and> closedRequests s' = closedRequests s
    \<and> interruptCh s' = interruptCh s \<and> audioGeneration s' = audioGeneration s"
proof (cases "delayedTaken s")
  case None
  then show ?thesis using assms
    by (auto simp: delayed_step_def split: if_splits delayed_choice.splits list.splits prod.splits)
next
  case (Some e)
  then show ?thesis using assms by (auto simp: delayed_step_def split: if_splits)
qed

lemma floor_act:
  assumes act: "tts_act a s = Some s'" and ok: "floor_ok s"
  shows "floor_step s s'"
proof (cases a)
  case (Sender ch b)
  then show ?thesis using act floor_sender [OF _ ok] by simp
next
  case (Delayed ch)
  then obtain out where "sent s' = sent s @ out" "fresh_sound s out" "spc s' = spc s" "closedRequests s' = closedRequests s"
      "interruptCh s' = interruptCh s" "audioGeneration s' = audioGeneration s"
    using delayed_sent [of ch s s' s] act by auto
  then show ?thesis by (intro floor_emit [OF ok]) simp_all
next
  case Raise
  then show ?thesis using act by (auto simp: nextAudioGeneration_def intro!: floor_stepI [OF ok, of _ "[]"])
next
  case Signal
  then have "s' = s \<or> s' = s\<lparr>interruptCh := Some None\<rparr>" using act by (auto simp: signal_interrupt_def)
  then show ?thesis by (auto intro!: floor_stepI [OF ok, of _ "[]"])
next
  case (Request g)
  then have g: "g \<le> audioGeneration s" and s': "interruptCh s = None"
      "s' = s\<lparr>interruptCh := Some (Some (nextRequest s, g)), nextRequest := nextRequest s + 1\<rparr>"
    using act by (auto simp: request_interrupt_def split: if_splits)
  have "floor_ok s'" using ok g by (auto simp: floor_ok_def s')
  then show ?thesis by (simp add: floor_step_def s')
next
  case (FinishIfExited b)
  obtain out where "sent (consumePendingInterruptStop b s) = sent s @ out" "fresh_sound s out" using consume_sent [of b s s] by blast
  then have "floor_step s (consumePendingInterruptStop b s)" by (intro floor_emit [OF ok]) simp_all
  moreover have "floor_step s s" by (rule floor_quiet [OF ok]) simp_all
  ultimately show ?thesis using FinishIfExited act by (auto simp: finishPendingInterruptStopIfSenderLoopExited_def)
next
  case (FinishNow err)
  obtain out where "sent (finishTtsStop False err True s) = sent s @ out" "fresh_sound s out" using stop_sent [of False err True s s] by blast
  then show ?thesis using FinishNow act by (auto intro!: floor_emit [OF ok])
qed (use act in \<open>auto simp: enqueueSessionElem_def recordPendingInterruptStop_def intro!: floor_quiet [OF ok] split: if_splits\<close>)

lemma floor_run: "tts_run as s = Some s' \<Longrightarrow> floor_ok s \<Longrightarrow> floor_ok s'"
  by (induction as arbitrary: s) (auto simp: floor_step_def dest: floor_act split: option.splits)

text \<open>C9: After a synchronous interruption no old sound is heard. Once the interruption has been confirmed by the
  sender, whatever it sends afterwards, frames as well as the starts and ends of sentences, was queued under a
  generation that is at least the one this interruption raised.\<close>

theorem no_stale_sound_after_interrupt:
  assumes "tts_run as (NewTTSManager fd rt now) = Some s" and "tts_act a s = Some s'" and "(w, g) \<in> closedRequests s"
  shows "\<exists>out. sent s' = sent s @ out \<and> (\<forall>x \<in> set out. \<forall>h. sound_generation x = Some h \<longrightarrow> g \<le> h)"
proof -
  have "floor_ok (NewTTSManager fd rt now)" by (simp add: floor_ok_def NewTTSManager_def)
  then have "floor_ok s" by (rule floor_run [OF assms(1)])
  from floor_act [OF assms(2) this] show ?thesis
    using assms(3) unfolding floor_step_def fresh_sound_def fresh_one_def list_all_iff by blast
qed

lemma no_stale_sound_after_interrupt_witness:
  "\<exists>s s' out :: tts_output list. tts_run
      [Enqueue 1 \<lparr>Kind = KindFrame, Data = [1], Text = [], Err = None, Generation = 0, OnStart = None, OnEnd = None, OnError = None\<rparr>,
       Raise, Request 2, Sender TakeCtx True, Sender TakeInterrupt True,
       Enqueue 2 \<lparr>Kind = KindFrame, Data = [2], Text = [], Err = None, Generation = 0, OnStart = None, OnEnd = None, OnError = None\<rparr>,
       Sender TakeCtx True, Sender TakeElem True] (NewTTSManager 60 False 0) = Some s
     \<and> tts_act (Sender TakeElem True) s = Some s' \<and> (0, 2) \<in> closedRequests s \<and> sent s' = [SentAudio [2] 2]
     \<and> (\<exists>out. sent s' = sent s @ out \<and> (\<forall>x \<in> set out. \<forall>h. sound_generation x = Some h \<longrightarrow> 2 \<le> h))"
proof -
  let ?as = "[Enqueue 1 \<lparr>Kind = KindFrame, Data = [1], Text = [], Err = None, Generation = 0, OnStart = None, OnEnd = None, OnError = None\<rparr>,
       Raise, Request 2, Sender TakeCtx True, Sender TakeInterrupt True,
       Enqueue 2 \<lparr>Kind = KindFrame, Data = [2], Text = [], Err = None, Generation = 0, OnStart = None, OnEnd = None, OnError = None\<rparr>,
       Sender TakeCtx True, Sender TakeElem True]"
  let ?s = "the (tts_run ?as (NewTTSManager 60 False 0))"
  note d = NewTTSManager_def elem_ok_def enqueueSessionElem_def QueueCap_def nextAudioGeneration_def request_interrupt_def sender_step_def
    waiting_def take_interrupt_def handleInterrupt_def drainSessionAudioQueue_def drainDelayedSentenceReadyQueue_def
    consumePendingInterruptStop_def receive_elem_def start_frame_def cacheFrameCount_def frameDuration_def emit_out_def call_end_def Let_def
  have run: "tts_run ?as (NewTTSManager 60 False 0) = Some ?s" by (simp add: d)
  have act: "tts_act (Sender TakeElem True) ?s = Some (the (tts_act (Sender TakeElem True) ?s))" by (simp add: d)
  have c: "(0, 2) \<in> closedRequests ?s" by (simp add: d)
  have o: "sent (the (tts_act (Sender TakeElem True) ?s)) = [SentAudio [2] 2]" by (simp add: d)
  from no_stale_sound_after_interrupt [OF run act c] run act c o show ?thesis by blast
qed

end
