(* ===== verification/Tts_Callbacks.thy ===== *)
theory Tts_Callbacks
  imports Tts_Order
begin

text \<open>
  The audio queue of a session, continued: the announcements of start and stop alternate, and every final callback is
  called exactly once or still travels through the queues.
\<close>

section \<open>Start and stop\<close>

fun scan :: "bool \<Rightarrow> bool \<Rightarrow> tts_output list \<Rightarrow> bool option" where
  \<comment> \<open>whether speech is announced after the outputs; \<open>None\<close> when a stop comes at the wrong time\<close>
  "scan rt b [] = Some b"
| "scan rt b (HookStart # out) = scan rt True out"
| "scan rt b (SentTtsStop # out) =
     (case out of HookStop e # out' \<Rightarrow> if b \<and> \<not> rt then scan rt False out' else None | _ \<Rightarrow> None)"
| "scan rt b (HookStop e # out) = (if b then scan rt False out else None)"
| "scan rt b (_ # out) = scan rt b out"

lemma scan_append: "scan rt b xs = Some c \<Longrightarrow> scan rt b (xs @ ys) = scan rt c ys"
  by (induction rt b xs rule: scan.induct) (auto split: list.splits tts_output.splits if_splits)

fun neutral :: "tts_output \<Rightarrow> bool" where
  "neutral HookStart = False"
| "neutral SentTtsStop = False"
| "neutral (HookStop _) = False"
| "neutral _ = True"

lemma scan_neutral: "list_all neutral out \<Longrightarrow> scan rt b out = Some b"
proof (induction out)
  case (Cons x out)
  then show ?case by (cases x) simp_all
qed simp

definition scanned :: "tts_sender \<Rightarrow> tts_sender \<Rightarrow> bool" where
  "scanned s s' \<longleftrightarrow> realTime s' = realTime s
     \<and> (\<exists>out. sent s' = sent s @ out \<and> scan (realTime s) (ttsActive s) out = Some (ttsActive s'))"

lemma scanned_trans: "scanned s s' \<Longrightarrow> scanned s' s'' \<Longrightarrow> scanned s s''"
proof -
  assume "scanned s s'" and "scanned s' s''"
  then obtain o1 o2 where "sent s' = sent s @ o1" "scan (realTime s) (ttsActive s) o1 = Some (ttsActive s')" "realTime s' = realTime s"
    "sent s'' = sent s' @ o2" "scan (realTime s) (ttsActive s') o2 = Some (ttsActive s'')" "realTime s'' = realTime s"
    by (auto simp: scanned_def)
  then show ?thesis unfolding scanned_def using scan_append [of "realTime s" "ttsActive s" o1 "ttsActive s'" o2] by auto
qed

lemma scanned_neutral:
  assumes "sent s' = sent s @ out" and "list_all neutral out" and "ttsActive s' = ttsActive s" and "realTime s' = realTime s"
  shows "scanned s s'"
  using assms scan_neutral [OF assms(2)] by (auto simp: scanned_def)

lemma scanned_quiet:
  assumes "sent s' = sent s" and "ttsActive s' = ttsActive s" and "realTime s' = realTime s"
  shows "scanned s s'"
  by (rule scanned_neutral [where out="[]"]) (simp_all add: assms)

lemma neutral_calls [simp]: "list_all neutral (call_end err e)" "list_all neutral (call_error te e)" "list_all neutral (call_start e)"
  "list_all neutral (concat (map (call_end err) es))"
proof -
  show c: "list_all neutral (call_end err e)" for e by (simp add: call_end_def split: option.split)
  show "list_all neutral (call_error te e)" "list_all neutral (call_start e)"
    by (simp_all add: call_error_def call_start_def split: option.split)
  show "list_all neutral (concat (map (call_end err) es))" by (induction es) (simp_all add: c)
qed

lemma scanned_stop: "scanned s (finishTtsStop b e ok s)"
  unfolding scanned_def by (auto simp: finishTtsStop_def emit_out_def Let_def)

lemma scanned_consume: "scanned s (consumePendingInterruptStop ok s)"
proof (cases "interruptStop s")
  case None
  then show ?thesis by (simp add: consumePendingInterruptStop_def scanned_quiet)
next
  case (Some p)
  obtain b e where p: "p = (b, e)" by (cases p)
  have "scanned s (s\<lparr>interruptStop := None\<rparr>)" by (rule scanned_quiet) simp_all
  from scanned_trans [OF this scanned_stop] show ?thesis using Some p by (simp add: consumePendingInterruptStop_def)
qed

lemma scanned_drains: "scanned s (drainDelayedSentenceReadyQueue (drainSessionAudioQueue s))"
proof -
  have "scanned s (drainSessionAudioQueue s)"
    by (rule scanned_neutral [where out="concat (map (call_end (Some Canceled)) (sessionAudioQueue s))"])
      (simp_all add: drainSessionAudioQueue_def emit_out_def)
  moreover have "scanned t (drainDelayedSentenceReadyQueue t)" for t
    by (rule scanned_neutral [where out="concat (map (call_end (Some Canceled)) (delayedSentenceReadyQueue t))"])
      (simp_all add: drainDelayedSentenceReadyQueue_def emit_out_def)
  ultimately show ?thesis using scanned_trans by blast
qed

lemma scanned_interrupt: "scanned s (take_interrupt ok req s)"
proof -
  have "scanned s (s\<lparr>interruptCh := None\<rparr>)" by (rule scanned_quiet) simp_all
  moreover have "scanned t ((consumePendingInterruptStop ok (drainDelayedSentenceReadyQueue (drainSessionAudioQueue t)))
      \<lparr>playbackTail := None, spc := SPoll, closedRequests := c\<rparr>)" for t c
    by (rule scanned_trans [OF scanned_trans [OF scanned_drains scanned_consume] scanned_quiet]) simp_all
  ultimately show ?thesis unfolding take_interrupt_def handleInterrupt_def using scanned_trans by force
qed

lemma scanned_leave: "scanned s (leave ok s)"
  unfolding leave_def by (rule scanned_trans [OF scanned_trans [OF scanned_drains scanned_stop] scanned_quiet]) simp_all

lemma delayed_sentence_neutral: "\<exists>out. handleDelayedSentence e ok s = emit_out out s \<and> list_all neutral out"
proof -
  have "\<exists>out. s = emit_out out s \<and> list_all neutral out" by (rule exI [of _ "[]"]) (simp add: emit_out_def)
  then show ?thesis by (cases "Kind e") (auto simp: handleDelayedSentence_def intro!: exI)
qed

lemma active_emit [simp]: "ttsActive (emit_out out s) = ttsActive s" "realTime (emit_out out s) = realTime s"
  by (simp_all add: emit_out_def)

lemma scanned_ready: "receive_ready ok s = Some s' \<Longrightarrow> scanned s s'"
proof -
  assume "receive_ready ok s = Some s'"
  then obtain e es where "s' = handleDelayedSentence e ok (s\<lparr>delayedSentenceReadyQueue := es\<rparr>)"
    by (auto simp: receive_ready_def split: list.splits)
  moreover obtain out where "handleDelayedSentence e ok (s\<lparr>delayedSentenceReadyQueue := es\<rparr>) = emit_out out (s\<lparr>delayedSentenceReadyQueue := es\<rparr>)"
    "list_all neutral out" using delayed_sentence_neutral by blast
  ultimately show ?thesis by (auto intro: scanned_neutral)
qed

lemma scanned_waiting: "waiting ch ok s = Some s' \<Longrightarrow> scanned s s'"
  using scanned_leave scanned_interrupt scanned_ready by (auto simp: waiting_def split: choice.splits if_splits)

lemma scanned_elem: "receive_elem ok s = Some s' \<Longrightarrow> scanned s s'"
proof -
  assume step: "receive_elem ok s = Some s'"
  then obtain e es where q: "sessionAudioQueue s = e # es" by (auto simp: receive_elem_def split: list.splits)
  have start: "scanned s (start_frame e (s\<lparr>sessionAudioQueue := es\<rparr>))"
    by (rule scanned_quiet) (simp_all add: start_frame_def Let_def)
  have call: "scanned s (emit_out (call_end err e) (s\<lparr>sessionAudioQueue := es\<rparr>))" for err
    by (rule scanned_neutral [where out="call_end err e"]) simp_all
  show ?thesis
  proof (cases "Generation e = audioGeneration s")
    case True
    show ?thesis
    proof (cases "Kind e")
      case KindTtsStart
      then show ?thesis using step q True by (auto simp: receive_elem_def Let_def scanned_def)
    qed (use step q True start in \<open>auto simp: receive_elem_def Let_def intro!: scanned_quiet\<close>)
  qed (use step q call in \<open>auto simp: receive_elem_def Let_def\<close>)
qed

lemma scanned_sender: "sender_step ch ok s = Some s' \<Longrightarrow> scanned s s'"
proof (cases "spc s")
  case SSelect
  assume step: "sender_step ch ok s = Some s'"
  have p: "scanned s (s\<lparr>spc := SPoll\<rparr>)" by (rule scanned_quiet) simp_all
  show ?thesis
    using SSelect step scanned_trans [OF p scanned_elem] scanned_trans [OF p scanned_ready] scanned_waiting
    by (auto simp: sender_step_def split: if_splits)
next
  case (SSend e)
  assume step: "sender_step ch ok s = Some s'"
  show ?thesis
  proof (cases ok)
    case True
    then show ?thesis using SSend step by (auto simp: sender_step_def intro!: scanned_neutral [where out="[SentAudio (Data e) (Generation e)]"])
  next
    case False
    then show ?thesis using SSend step by (auto simp: sender_step_def intro!: scanned_neutral [where out="call_error TransportErr e"])
  qed
next
  case (SDelay e at)
  assume step: "sender_step ch ok s = Some s'"
  show ?thesis
  proof (cases "ch = TakeCtx")
    case True
    then show ?thesis using SDelay step
      by (auto simp: sender_step_def intro!: scanned_neutral [where out="call_end (Some CtxErr) e"] split: if_splits)
  next
    case False
    then show ?thesis using SDelay step by (auto simp: sender_step_def intro!: scanned_quiet split: if_splits)
  qed
next
  case (SStopGrace t)
  assume step: "sender_step ch ok s = Some s'"
  have "scanned s ((finishTtsStop True None ok s)\<lparr>playbackTail := None, spc := SPoll\<rparr>)"
    by (rule scanned_trans [OF scanned_stop scanned_quiet]) simp_all
  then show ?thesis using SStopGrace step scanned_waiting by (auto simp: sender_step_def split: if_splits)
qed (auto simp: sender_step_def intro: scanned_quiet scanned_ready scanned_waiting split: if_splits)

lemma delayed_neutral:
  assumes "delayed_step ch s = Some s'"
  shows "\<exists>out. sent s' = sent s @ out \<and> list_all neutral out \<and> ttsActive s' = ttsActive s \<and> realTime s' = realTime s"
proof (cases "delayedTaken s")
  case None
  then show ?thesis using assms
    by (auto simp: delayed_step_def split: if_splits delayed_choice.splits list.splits prod.splits)
next
  case (Some e)
  then show ?thesis using assms by (auto simp: delayed_step_def split: if_splits)
qed

lemma scanned_act: "tts_act a s = Some s' \<Longrightarrow> scanned s s'"
proof (cases a)
  case (Delayed ch)
  assume "tts_act a s = Some s'"
  then show ?thesis using delayed_neutral [of ch s s'] Delayed by (auto intro: scanned_neutral)
next
  case (Signal)
  assume "tts_act a s = Some s'"
  then have "s' = s \<or> s' = s\<lparr>interruptCh := Some None\<rparr>" using Signal by (auto simp: signal_interrupt_def)
  then show ?thesis by (auto intro: scanned_quiet)
next
  case (FinishIfExited ok)
  assume "tts_act a s = Some s'"
  then have "s' = s \<or> s' = consumePendingInterruptStop ok s" using FinishIfExited by (auto simp: finishPendingInterruptStopIfSenderLoopExited_def)
  then show ?thesis using scanned_consume by (auto intro: scanned_quiet)
next
  case (FinishNow err)
  assume "tts_act a s = Some s'"
  then show ?thesis using FinishNow scanned_stop by auto
next
  case (Sender ch ok)
  assume "tts_act a s = Some s'"
  then show ?thesis using Sender scanned_sender by simp
qed (use scanned_sender in \<open>auto simp: enqueueSessionElem_def nextAudioGeneration_def request_interrupt_def
    recordPendingInterruptStop_def intro!: scanned_quiet split: if_splits\<close>)

lemma scanned_run: "tts_run as s = Some s' \<Longrightarrow> scanned s s'"
proof (induction as arbitrary: s)
  case Nil
  then show ?case by (simp add: scanned_quiet)
next
  case (Cons a as)
  then obtain s1 where "tts_act a s = Some s1" "tts_run as s1 = Some s'" by (auto split: option.splits)
  then show ?case using Cons.IH scanned_act scanned_trans by blast
qed

text \<open>C27: Start and stop alternate. In everything a session sends, a stop follows a start and no two stops follow
  one start, however the end of a turn, interruptions and the end of the session race; every
  \<^verbatim>\<open>tts_stop\<close> message is told to the hooks at once, and in a realtime session none is sent at all.\<close>

theorem starts_and_stops_alternate:
  assumes "tts_run as (NewTTSManager fd rt now) = Some s"
  shows "scan rt False (sent s) = Some (ttsActive s) \<and> (rt \<longrightarrow> SentTtsStop \<notin> set (sent s))"
proof -
  have a: "scan rt False (sent s) = Some (ttsActive s)"
    using scanned_run [OF assms] by (simp add: scanned_def NewTTSManager_def)
  have "scan True b out = Some c \<Longrightarrow> SentTtsStop \<notin> set out" for b c out
    by (induction True b out arbitrary: c rule: scan.induct) (auto split: list.splits tts_output.splits if_splits)
  then show ?thesis using a by (cases rt) auto
qed

section \<open>Final callbacks\<close>

definition ends :: "tts_output list \<Rightarrow> nat multiset" where
  "ends out = mset (List.map_filter (\<lambda>x. case x of CalledEnd f _ \<Rightarrow> Some f | _ \<Rightarrow> None) out)"

definition callback :: "audio_elem \<Rightarrow> nat multiset" where
  "callback e = (case OnEnd e of None \<Rightarrow> {#} | Some f \<Rightarrow> {#f#})"

definition callbacks :: "audio_elem list \<Rightarrow> nat multiset" where
  "callbacks es = sum_list (map callback es)"

definition held :: "sender_pc \<Rightarrow> audio_elem list" where
  "held pc = (case pc of SDelay e _ \<Rightarrow> [e] | _ \<Rightarrow> [])"

definition in_flight :: "tts_sender \<Rightarrow> nat multiset" where
  "in_flight s = callbacks (sessionAudioQueue s) + callbacks (map fst (delayedSentenceQueue s)) + callbacks (map fst (delayedPending s))
     + callbacks (case delayedTaken s of None \<Rightarrow> [] | Some e \<Rightarrow> [e]) + callbacks (delayedSentenceReadyQueue s) + callbacks (held (spc s))"

definition accounted :: "tts_sender \<Rightarrow> nat multiset" where
  "accounted s = ends (sent s) + in_flight s"

definition elems_ok :: "tts_sender \<Rightarrow> bool" where
  "elems_ok s \<longleftrightarrow> list_all elem_ok (sessionAudioQueue s) \<and> list_all elem_ok (map fst (delayedSentenceQueue s))
     \<and> list_all elem_ok (map fst (delayedPending s)) \<and> list_all elem_ok (case delayedTaken s of None \<Rightarrow> [] | Some e \<Rightarrow> [e])
     \<and> list_all elem_ok (delayedSentenceReadyQueue s) \<and> list_all elem_ok (held (spc s))"

lemma ends_simps [simp]: "ends [] = {#}" "ends (x # out) = (case x of CalledEnd f _ \<Rightarrow> {#f#} | _ \<Rightarrow> {#}) + ends out"
  "ends (xs @ ys) = ends xs + ends ys"
  by (simp_all add: ends_def List.map_filter_def split: tts_output.split)

lemma callbacks_simps [simp]: "callbacks [] = {#}" "callbacks (e # es) = callback e + callbacks es" "callbacks (xs @ ys) = callbacks xs + callbacks ys"
  by (simp_all add: callbacks_def)

lemma ends_calls [simp]: "ends (call_end err e) = callback e" "ends (call_error te e) = {#}" "ends (call_start e) = {#}"
  "ends (concat (map (call_end err) es)) = callbacks es"
proof -
  show c: "ends (call_end err e) = callback e" for e by (simp add: call_end_def callback_def split: option.split)
  show "ends (call_error te e) = {#}" "ends (call_start e) = {#}" by (simp_all add: call_error_def call_start_def split: option.split)
  show "ends (concat (map (call_end err) es)) = callbacks es" by (induction es) (simp_all add: c)
qed

lemma no_callback: "elem_ok e \<Longrightarrow> Kind e \<noteq> KindSentenceEnd \<Longrightarrow> callback e = {#}"
  by (auto simp: elem_ok_def callback_def split: option.split)

lemma held_simps [simp]: "held SPoll = []" "held SSelect = []" "held (SWait e t) = []" "held (SSend e) = []" "held (SDelay e t) = [e]"
  "held (SStopTail t) = []" "held (SStopGrace t) = []" "held SExited = []"
  by (simp_all add: held_def)

definition tallied :: "tts_sender \<Rightarrow> tts_sender \<Rightarrow> bool" where
  "tallied s s' \<longleftrightarrow> (elems_ok s \<longrightarrow> elems_ok s' \<and> accounted s' = accounted s)"

lemma tallied_trans: "tallied s s' \<Longrightarrow> tallied s' s'' \<Longrightarrow> tallied s s''"
  by (auto simp: tallied_def)

lemmas tally = tallied_def elems_ok_def accounted_def in_flight_def

lemma sent_stop: "ends (sent (finishTtsStop b e ok s)) = ends (sent s)" "ends (sent (consumePendingInterruptStop ok s)) = ends (sent s)"
proof -
  show *: "ends (sent (finishTtsStop b e ok s)) = ends (sent s)" for b e s by (simp add: finishTtsStop_def Let_def)
  show "ends (sent (consumePendingInterruptStop ok s)) = ends (sent s)"
    by (simp add: consumePendingInterruptStop_def * split: option.split prod.split)
qed

lemma tallied_stop: "tallied s (finishTtsStop b e ok s)" "tallied s (consumePendingInterruptStop ok s)"
  by (simp_all add: tally sent_stop)

lemma tallied_drains: "tallied s (drainDelayedSentenceReadyQueue (drainSessionAudioQueue s))"
  by (simp add: tally drainDelayedSentenceReadyQueue_def drainSessionAudioQueue_def)

lemma tallied_same:
  assumes "sent s' = sent s" and "sessionAudioQueue s' = sessionAudioQueue s" and "delayedSentenceQueue s' = delayedSentenceQueue s"
    and "delayedPending s' = delayedPending s" and "delayedTaken s' = delayedTaken s"
    and "delayedSentenceReadyQueue s' = delayedSentenceReadyQueue s" and "held (spc s') = held (spc s)"
  shows "tallied s s'"
  by (simp add: tally assms)

lemma tallied_interrupt: "held (spc s) = [] \<Longrightarrow> tallied s (take_interrupt ok req s)"
proof -
  assume h: "held (spc s) = []"
  have a: "tallied s (s\<lparr>interruptCh := None\<rparr>)" by (rule tallied_same) simp_all
  have b: "tallied t (consumePendingInterruptStop ok (drainDelayedSentenceReadyQueue (drainSessionAudioQueue t)))" for t
    by (rule tallied_trans [OF tallied_drains tallied_stop(2)])
  have f: "spc (drainDelayedSentenceReadyQueue (drainSessionAudioQueue t)) = spc t" for t
    by (simp add: drainDelayedSentenceReadyQueue_def drainSessionAudioQueue_def)
  have c: "tallied (consumePendingInterruptStop ok (drainDelayedSentenceReadyQueue (drainSessionAudioQueue (s\<lparr>interruptCh := None\<rparr>))))
      (take_interrupt ok req s)"
    by (rule tallied_same) (simp_all add: take_interrupt_def handleInterrupt_def f h)
  show ?thesis by (rule tallied_trans [OF a tallied_trans [OF b c]])
qed

lemma tallied_leave: "held (spc s) = [] \<Longrightarrow> tallied s (leave ok s)"
proof -
  assume h: "held (spc s) = []"
  have b: "tallied s (finishTtsStop True (Some CtxErr) ok (drainDelayedSentenceReadyQueue (drainSessionAudioQueue s)))"
    by (rule tallied_trans [OF tallied_drains tallied_stop(1)])
  have f: "spc (drainDelayedSentenceReadyQueue (drainSessionAudioQueue t)) = spc t" for t
    by (simp add: drainDelayedSentenceReadyQueue_def drainSessionAudioQueue_def)
  have c: "tallied (finishTtsStop True (Some CtxErr) ok (drainDelayedSentenceReadyQueue (drainSessionAudioQueue s))) (leave ok s)"
    by (rule tallied_same) (simp_all add: leave_def f h)
  show ?thesis by (rule tallied_trans [OF b c])
qed

lemma tallied_ready: "receive_ready ok s = Some s' \<Longrightarrow> tallied s s'"
proof -
  assume "receive_ready ok s = Some s'"
  then obtain e es where q: "delayedSentenceReadyQueue s = e # es" "s' = handleDelayedSentence e ok (s\<lparr>delayedSentenceReadyQueue := es\<rparr>)"
    by (auto simp: receive_ready_def split: list.splits)
  then show ?thesis
    using no_callback [of e] by (cases "Kind e") (auto simp: tally handleDelayedSentence_def)
qed

lemma tallied_waiting: "waiting ch ok s = Some s' \<Longrightarrow> held (spc s) = [] \<Longrightarrow> tallied s s'"
  using tallied_leave tallied_interrupt tallied_ready by (auto simp: waiting_def split: choice.splits if_splits)

lemma tallied_elem: "receive_elem ok s = Some s' \<Longrightarrow> spc s = SPoll \<Longrightarrow> tallied s s'"
proof -
  assume step: "receive_elem ok s = Some s'" and p: "spc s = SPoll"
  then obtain e es where q: "sessionAudioQueue s = e # es" by (auto simp: receive_elem_def split: list.splits)
  show ?thesis
  proof (cases "Generation e = audioGeneration s")
    case True
    have h: "held (case playbackTail s of None \<Rightarrow> SStopGrace t | Some t \<Rightarrow> SStopTail t) = []" for t by (simp split: option.split)
    show ?thesis using step q True p no_callback [of e] h
      by (cases "Kind e") (auto simp: receive_elem_def Let_def tally start_frame_def)
  next
    case False
    then show ?thesis using step q p by (auto simp: receive_elem_def Let_def tally)
  qed
qed

lemma tallied_select: "tallied s (s\<lparr>spc := pc\<rparr>)" if "held pc = held (spc s)"
  by (rule tallied_same) (simp_all add: that)

lemma tallied_sender: "sender_step ch ok s = Some s' \<Longrightarrow> tallied s s'"
proof (cases "spc s")
  case SPoll
  assume step: "sender_step ch ok s = Some s'"
  then show ?thesis using SPoll tallied_ready tallied_select [of SSelect s] by (auto simp: sender_step_def split: if_splits)
next
  case SSelect
  assume step: "sender_step ch ok s = Some s'"
  have p: "tallied s (s\<lparr>spc := SPoll\<rparr>)" by (rule tallied_select) (simp add: SSelect)
  show ?thesis
    using SSelect step tallied_trans [OF p tallied_elem] tallied_trans [OF p tallied_ready] tallied_waiting
    by (auto simp: sender_step_def split: if_splits)
next
  case (SWait e at)
  assume step: "sender_step ch ok s = Some s'"
  show ?thesis using SWait step tallied_waiting by (auto simp: sender_step_def intro: tallied_same split: if_splits)
next
  case (SSend e)
  assume step: "sender_step ch ok s = Some s'"
  then show ?thesis using SSend by (auto simp: sender_step_def tally split: if_splits)
next
  case (SDelay e at)
  assume step: "sender_step ch ok s = Some s'"
  show ?thesis
  proof (cases "ch = TakeCtx")
    case True
    then show ?thesis using SDelay step by (auto simp: sender_step_def tally split: if_splits)
  next
    case False
    then show ?thesis using SDelay step by (auto simp: sender_step_def tally split: if_splits)
  qed
next
  case (SStopTail t)
  assume step: "sender_step ch ok s = Some s'"
  then show ?thesis using SStopTail tallied_waiting tallied_select by (auto simp: sender_step_def split: if_splits)
next
  case (SStopGrace t)
  assume step: "sender_step ch ok s = Some s'"
  have "tallied s ((finishTtsStop True None ok s)\<lparr>playbackTail := None, spc := SPoll\<rparr>)"
    by (rule tallied_trans [OF tallied_stop(1) tallied_same]) (simp_all add: SStopGrace)
  then show ?thesis using SStopGrace step tallied_waiting by (auto simp: sender_step_def split: if_splits)
qed (simp add: sender_step_def)

lemma insert_task: "mset (insertDelayedSentenceTask ts t) = add_mset t (mset ts)"
proof -
  have "mset (take n ts @ [t] @ drop n ts) = add_mset t (mset ts)" for n
  proof -
    have "mset (take n ts) + mset (drop n ts) = mset ts" by (metis append_take_drop_id mset_append)
    then show ?thesis by simp
  qed
  then show ?thesis by (simp add: Let_def)
qed

lemma callbacks_mset: "callbacks es = sum_mset (image_mset callback (mset es))"
  by (induction es) simp_all

lemma insert_callbacks: "callbacks (map fst (insertDelayedSentenceTask ts t)) = callback (fst t) + callbacks (map fst ts)"
proof -
  have "mset (map fst (insertDelayedSentenceTask ts t)) = add_mset (fst t) (mset (map fst ts))" by (simp add: insert_task del: insertDelayedSentenceTask.simps)
  then show ?thesis by (simp add: callbacks_mset del: insertDelayedSentenceTask.simps mset_map)
qed

lemma insert_ok: "list_all elem_ok (map fst (insertDelayedSentenceTask ts t)) \<longleftrightarrow> elem_ok (fst t) \<and> list_all elem_ok (map fst ts)"
proof -
  have "set (insertDelayedSentenceTask ts t) = insert t (set ts)"
    using insert_task [of ts t, THEN arg_cong [where f=set_mset]] by (simp del: insertDelayedSentenceTask.simps)
  then show ?thesis by (simp add: list_all_iff del: insertDelayedSentenceTask.simps)
qed

lemma tallied_delayed: "delayed_step ch s = Some s' \<Longrightarrow> tallied s s'"
proof (cases "delayedTaken s")
  case None
  assume "delayed_step ch s = Some s'"
  then show ?thesis using None
    by (auto simp: delayed_step_def tally insert_callbacks insert_ok simp del: insertDelayedSentenceTask.simps
        split: if_splits delayed_choice.splits list.splits prod.splits)
next
  case (Some e)
  assume "delayed_step ch s = Some s'"
  then show ?thesis using Some by (auto simp: delayed_step_def tally split: if_splits)
qed

fun given :: "tts_action \<Rightarrow> nat multiset" where
  "given (Enqueue g e) = callback e"
| "given _ = {#}"

lemma callback_generation: "callback (e\<lparr>Generation := g\<rparr>) = callback e" "elem_ok (e\<lparr>Generation := g\<rparr>) = elem_ok e"
  by (simp_all add: callback_def elem_ok_def)

lemma tallied_act:
  assumes act: "tts_act a s = Some s'" and ok: "elems_ok s"
  shows "elems_ok s' \<and> accounted s' = accounted s + given a"
proof -
  have "tallied s s'" if "given a = {#}" and "\<And>g e. a \<noteq> Enqueue g e"
  proof (cases a)
    case (Signal)
    then have "s' = s \<or> s' = s\<lparr>interruptCh := Some None\<rparr>" using act by (auto simp: signal_interrupt_def)
    then show ?thesis by (auto intro: tallied_same)
  next
    case (FinishIfExited ok)
    then have "s' = s \<or> s' = consumePendingInterruptStop ok s" using act by (auto simp: finishPendingInterruptStopIfSenderLoopExited_def)
    then show ?thesis using tallied_stop by (auto intro: tallied_same)
  next
    case (FinishNow err)
    then show ?thesis using act tallied_stop by auto
  qed (use act that tallied_sender tallied_delayed in \<open>auto simp: nextAudioGeneration_def request_interrupt_def
    recordPendingInterruptStop_def intro!: tallied_same split: if_splits\<close>)
  moreover have "elems_ok s' \<and> accounted s' = accounted s + given a" if "a = Enqueue g e" for g e
    using act ok that by (auto simp: enqueueSessionElem_def callback_generation elems_ok_def accounted_def in_flight_def split: if_splits)
  ultimately show ?thesis using ok by (cases a) (auto simp: tallied_def)
qed

lemma tallied_run:
  "tts_run as s = Some s' \<Longrightarrow> elems_ok s \<Longrightarrow> elems_ok s' \<and> accounted s' = accounted s + sum_list (map given as)"
proof (induction as arbitrary: s)
  case (Cons a as)
  then obtain s1 where "tts_act a s = Some s1" "tts_run as s1 = Some s'" by (auto split: option.splits)
  then show ?case using Cons.IH tallied_act [of a s s1] Cons.prems(2) by (auto simp: ac_simps)
qed simp

text \<open>C10: Final callbacks are called once. However the sender, the delaying goroutine, interruptions, transport
  errors and the end of the session interleave, the final callbacks given to the queue are exactly those that were
  called, once each, together with those that still travel through one of its stages.\<close>

theorem final_callbacks_called_once:
  assumes "tts_run as (NewTTSManager fd rt now) = Some s"
  shows "sum_list (map given as) = ends (sent s) + in_flight s"
proof -
  have "elems_ok (NewTTSManager fd rt now)" by (simp add: elems_ok_def NewTTSManager_def)
  from tallied_run [OF assms this] show ?thesis by (simp add: accounted_def in_flight_def NewTTSManager_def)
qed

section \<open>An example\<close>

definition sample_elem :: "elem_kind \<Rightarrow> gostr \<Rightarrow> nat option \<Rightarrow> audio_elem" where
  "sample_elem k t cb = \<lparr>Kind = k, Data = [7], Text = t, Err = None, Generation = 0, OnStart = None, OnEnd = cb, OnError = None\<rparr>"

definition sample_run :: "tts_action list" where
  "sample_run =
     [Enqueue 1 (sample_elem KindTtsStart [] None), Enqueue 1 (sample_elem KindFrame [] None),
      Enqueue 1 (sample_elem KindSentenceEnd [65] (Some 5)), Enqueue 1 (sample_elem KindSentenceEnd [66] (Some 6)),
      Sender TakeCtx True, Sender TakeElem True, Sender TakeCtx True, Sender TakeElem True, Sender TakeCtx True,
      Sender TakeCtx True, Sender TakeElem True, Sender TakeElem True, Delayed DTask, Tick 120000000, Delayed DTimer, Delayed DPut,
      Sender TakeCtx True, Sender TakeCtx True, Raise, RecordStop True None, Signal, Sender TakeInterrupt True]"

lemmas sample_defs = NewTTSManager_def sample_run_def sample_elem_def elem_ok_def enqueueSessionElem_def QueueCap_def
  nextAudioGeneration_def signal_interrupt_def senderLoopActive_def recordPendingInterruptStop_def finishTtsStop_def sender_step_def
  delayed_step_def sentenceControlDelay_def receive_ready_def handleDelayedSentence_def
  waiting_def take_interrupt_def handleInterrupt_def drainSessionAudioQueue_def drainDelayedSentenceReadyQueue_def
  consumePendingInterruptStop_def receive_elem_def start_frame_def cacheFrameCount_def frameDuration_def emit_out_def call_end_def
  call_start_def Let_def

lemma sample_runs: "\<exists>s. tts_run sample_run (NewTTSManager 60 False 0) = Some s
    \<and> sent s = [HookStart, SentTtsStart, SentAudio [7] 1, SentSentenceEnd [65] 1, CalledEnd 5 None,
        CalledEnd 6 (Some Canceled), SentTtsStop, HookStop None]"
  by (simp add: sample_defs)

lemma starts_and_stops_alternate_witness:
  "\<exists>s. tts_run sample_run (NewTTSManager 60 False 0) = Some s \<and> SentTtsStop \<in> set (sent s)
     \<and> scan False False (sent s) = Some (ttsActive s)"
proof -
  obtain s where s: "tts_run sample_run (NewTTSManager 60 False 0) = Some s" "SentTtsStop \<in> set (sent s)" using sample_runs by force
  from starts_and_stops_alternate [OF s(1)] s show ?thesis by blast
qed

lemma final_callbacks_called_once_witness:
  "\<exists>s. tts_run sample_run (NewTTSManager 60 False 0) = Some s \<and> CalledEnd 5 None \<in> set (sent s)
     \<and> sum_list (map given sample_run) = ends (sent s) + in_flight s"
proof -
  obtain s where s: "tts_run sample_run (NewTTSManager 60 False 0) = Some s" "CalledEnd 5 None \<in> set (sent s)" using sample_runs by force
  from final_callbacks_called_once [OF s(1)] s show ?thesis by blast
qed

definition queues_kept :: "tts_sender \<Rightarrow> tts_sender \<Rightarrow> bool" where
  "queues_kept s s' \<longleftrightarrow> delayedExited s' = delayedExited s \<and> delayedPending s' = delayedPending s
     \<and> (\<exists>ts. delayedSentenceQueue s' = delayedSentenceQueue s @ ts)"

lemma queues_same:
  "delayedExited s' = delayedExited s \<Longrightarrow> delayedPending s' = delayedPending s \<Longrightarrow> delayedSentenceQueue s' = delayedSentenceQueue s
    \<Longrightarrow> queues_kept s s'"
  by (simp add: queues_kept_def)

lemma drain_queues [simp]:
  "delayedExited (drainSessionAudioQueue s) = delayedExited s" "delayedPending (drainSessionAudioQueue s) = delayedPending s"
  "delayedSentenceQueue (drainSessionAudioQueue s) = delayedSentenceQueue s"
  "delayedExited (drainDelayedSentenceReadyQueue s) = delayedExited s"
  "delayedPending (drainDelayedSentenceReadyQueue s) = delayedPending s"
  "delayedSentenceQueue (drainDelayedSentenceReadyQueue s) = delayedSentenceQueue s"
  by (simp_all add: drainSessionAudioQueue_def drainDelayedSentenceReadyQueue_def)

lemma queues_ready: "receive_ready ok s = Some s' \<Longrightarrow> queues_kept s s'"
  using ready_fields [of ok s s'] by (auto intro: queues_same)

lemma queues_waiting: "waiting ch ok s = Some s' \<Longrightarrow> queues_kept s s'"
  using queues_ready [of ok s s']
  by (auto simp: waiting_def take_interrupt_def handleInterrupt_def leave_def intro!: queues_same split: choice.splits if_splits)

lemma queues_elem: "receive_elem ok s = Some s' \<Longrightarrow> queues_kept s s'"
  by (cases "sessionAudioQueue s"; cases "Kind (hd (sessionAudioQueue s))")
    (auto simp: receive_elem_def start_frame_def Let_def intro!: queues_same split: if_splits)

lemma queues_sender: "sender_step ch ok s = Some s' \<Longrightarrow> queues_kept s s'"
proof (cases "spc s")
  case SSelect
  have c: "queues_kept (s\<lparr>spc := SPoll\<rparr>) s' \<Longrightarrow> queues_kept s s'" by (simp add: queues_kept_def)
  assume "sender_step ch ok s = Some s'"
  then show ?thesis using SSelect c queues_elem queues_ready queues_waiting by (auto simp: sender_step_def split: if_splits)
next
  case (SDelay e at)
  assume "sender_step ch ok s = Some s'"
  then show ?thesis using SDelay by (auto simp: sender_step_def queues_kept_def split: if_splits)
qed (use queues_ready queues_waiting in \<open>auto simp: sender_step_def intro!: queues_same split: if_splits\<close>)

lemma exited_act:
  assumes act: "tts_act a s = Some s'" and ex: "delayedExited s"
  shows "delayedExited s' \<and> delayedPending s' = delayedPending s \<and> (\<exists>ts. delayedSentenceQueue s' = delayedSentenceQueue s @ ts)"
proof -
  have "queues_kept s s'"
  proof (cases a)
    case (Sender ch ok)
    then show ?thesis using act queues_sender by simp
  qed (use act ex in \<open>auto simp: delayed_step_def enqueueSessionElem_def nextAudioGeneration_def signal_interrupt_def request_interrupt_def
      recordPendingInterruptStop_def finishPendingInterruptStopIfSenderLoopExited_def intro!: queues_same split: if_splits\<close>)
  then show ?thesis using ex by (simp add: queues_kept_def)
qed

text \<open>Fact: The end of a session loses the callbacks that wait for their time. When the delaying goroutine has left on
  the end of the context, the sentences it still held, and those queued for it, are called by nobody: whatever
  happens afterwards they stay where they are, while the elements of the other queues are cancelled.\<close>

theorem delayed_callbacks_lost_at_end:
  assumes "delayedExited s" and "tts_run as s = Some s'"
  shows "delayedPending s' = delayedPending s \<and> (\<exists>ts. delayedSentenceQueue s' = delayedSentenceQueue s @ ts)"
  using assms
proof (induction as arbitrary: s)
  case (Cons a as)
  then obtain s1 where s1: "tts_act a s = Some s1" "tts_run as s1 = Some s'" by (auto split: option.splits)
  have "delayedExited s1 \<and> delayedPending s1 = delayedPending s \<and> (\<exists>ts. delayedSentenceQueue s1 = delayedSentenceQueue s @ ts)"
    by (rule exited_act [OF s1(1) Cons.prems(1)])
  then show ?case using Cons.IH [OF _ s1(2)] by auto
qed simp

lemma delayed_callbacks_lost_at_end_witness:
  "\<exists>s s'. tts_run [Enqueue 1 (sample_elem KindSentenceEnd [65] (Some 5)), Sender TakeCtx True, Sender TakeElem True, Sender TakeElem True,
        Delayed DTask, CancelCtx, Delayed DCtx] (NewTTSManager 60 False 0) = Some s
     \<and> tts_run [Sender TakeCtx True, Sender TakeCtx True] s = Some s' \<and> spc s' = SExited \<and> sent s' = []
     \<and> map (OnEnd \<circ> fst) (delayedPending s') = [Some 5]"
proof -
  let ?as = "[Enqueue 1 (sample_elem KindSentenceEnd [65] (Some 5)), Sender TakeCtx True, Sender TakeElem True, Sender TakeElem True,
        Delayed DTask, CancelCtx, Delayed DCtx]"
  let ?s = "the (tts_run ?as (NewTTSManager 60 False 0))"
  let ?s' = "the (tts_run [Sender TakeCtx True, Sender TakeCtx True] ?s)"
  have a: "tts_run ?as (NewTTSManager 60 False 0) = Some ?s" by (simp add: sample_defs)
  have b: "tts_run [Sender TakeCtx True, Sender TakeCtx True] ?s = Some ?s'" by (simp add: sample_defs leave_def)
  have c: "delayedExited ?s" "map (OnEnd \<circ> fst) (delayedPending ?s) = [Some 5]" by (simp_all add: sample_defs)
  have d: "spc ?s' = SExited" "sent ?s' = []" by (simp_all add: sample_defs leave_def)
  from delayed_callbacks_lost_at_end [OF c(1) b] a b c(2) d show ?thesis by metis
qed

end
