(* ===== verification/Tts_Worker.thy ===== *)
theory Tts_Worker
  imports Tts_Sender
begin

text \<open>
  The consumer of the speech queue of \<^verbatim>\<open>tts.go\<close>: how \<^verbatim>\<open>handleTts\<close>, \<^verbatim>\<open>handleStreamTts\<close> and
  \<^verbatim>\<open>handleDualStreamTts\<close> turn one item into elements of the audio queue. A step of a worker is what it does on one
  answer of its environment: the provider, the context of the item, the room in the audio queue, the stream of texts.
  Its trace lists the elements it queued, the final callbacks it called itself, and its use of the provider.
\<close>

section \<open>Items, answers, traces\<close>

record tts_item =
  llmText :: gostr
  StreamChan :: "nat option"  \<comment> \<open>a stream is its number\<close>
  enqueueSeq :: nat
  itemGeneration :: nat
  itemCycle :: nat
  onStartFunc :: "nat option"
  onEndFunc :: "nat option"

datatype worker_event =
    Put audio_elem
  | EndCalled nat "tts_error option"
  | Acquire | Release
  | MetricStart | MetricFirst | MetricFinish "tts_error option"

datatype sentence_signal = SentenceSignalStart gostr | SentenceSignalEnd gostr

datatype worker_answer =
    NoProvider tts_error      \<comment> \<open>\<^verbatim>\<open>getTTSProviderInstance\<close> fails\<close>
  | NotDual                   \<comment> \<open>the provider cannot take a stream of texts\<close>
  | Refused tts_error         \<comment> \<open>the synthesis does not start\<close>
  | Speaking                  \<comment> \<open>the synthesis has started\<close>
  | PutOk | Done              \<comment> \<open>of a select: there was room in the queue, or the context was done\<close>
  | FrameIn bytes | FramesClosed
  | RespIn gostr | RespClosed
  | EventIn "sentence_signal list" bytes | EventsClosed

datatype worker_pc =
    \<comment> \<open>\<^verbatim>\<open>handleTts\<close>\<close>
    TGen | TStart | TFrames bool | TPutFrame bool bytes | TEnd
    \<comment> \<open>\<^verbatim>\<open>handleStreamTts\<close>; the flag tells that no segment was spoken yet\<close>
  | SNext bool | SGen bool gostr | SStart bool gostr | SFrames gostr bool | SPutFrame gostr bool bytes | SEnd gostr
  | SLast "tts_error option" "tts_error option" | SFailStart tts_error
    \<comment> \<open>\<^verbatim>\<open>handleDualStreamTts\<close>: first sentence, first audio, what is left of an event\<close>
  | DOpen | DStart | DEvents bool bool | DSignals bool bool "sentence_signal list" bytes | DFrame bool bytes | DLast
  | Returned

definition put :: "tts_item \<Rightarrow> audio_elem \<Rightarrow> worker_event" where
  "put item e = Put (e\<lparr>Generation := itemGeneration item\<rparr>)"

definition blank_elem :: "elem_kind \<Rightarrow> audio_elem" where
  "blank_elem k = \<lparr>Kind = k, Data = [], Text = [], Err = None, Generation = 0, OnStart = None, OnEnd = None, OnError = None\<rparr>"

definition end_item :: "tts_item \<Rightarrow> tts_error option \<Rightarrow> worker_event list" where
  "end_item item err = (case onEndFunc item of None \<Rightarrow> [] | Some f \<Rightarrow> [EndCalled f err])"

definition ctx_end :: "tts_item \<Rightarrow> worker_event list" where
  \<comment> \<open>the way out that all handlers share once they hold a provider\<close>
  "ctx_end item = [Release, MetricFinish (Some CtxErr)] @ end_item item (Some CtxErr)"

definition generateTtsOnly :: "worker_answer \<Rightarrow> (worker_event list \<times> tts_error option) option" where
  \<comment> \<open>for a text that is not blank: the error, or the frames are on their way\<close>
  "generateTtsOnly a =
     (case a of
        NoProvider e \<Rightarrow> Some ([], Some e)
      | Refused e \<Rightarrow> Some ([Acquire, MetricStart, Release, MetricFinish (Some e)], Some e)
      | Speaking \<Rightarrow> Some ([Acquire, MetricStart], None)
      | _ \<Rightarrow> None)"

section \<open>One text\<close>

definition handleTts_entry :: "tts_item \<Rightarrow> worker_event list \<times> worker_pc" where
  "handleTts_entry item = (if TrimSpace (llmText item) = [] then (end_item item None, Returned) else ([], TGen))"

definition handleTts :: "tts_item \<Rightarrow> worker_pc \<Rightarrow> worker_answer \<Rightarrow> (worker_event list \<times> worker_pc) option" where
  "handleTts item pc a =
     (case pc of
        TGen \<Rightarrow>
          (case generateTtsOnly a of
             None \<Rightarrow> None
           | Some (evs, Some e) \<Rightarrow> Some (evs @ end_item item (Some e), Returned)
           | Some (evs, None) \<Rightarrow> Some (evs, TStart))
      | TStart \<Rightarrow>
          (case a of
             PutOk \<Rightarrow> Some ([put item ((blank_elem KindSentenceStart)\<lparr>Text := llmText item, OnStart := onStartFunc item\<rparr>)], TFrames False)
           | Done \<Rightarrow> Some (ctx_end item, Returned)
           | _ \<Rightarrow> None)
      | TFrames reported \<Rightarrow>
          (case a of
             Done \<Rightarrow> Some (ctx_end item, Returned)
           | FramesClosed \<Rightarrow> Some ([Release, MetricFinish None], TEnd)
           | FrameIn b \<Rightarrow> Some (if reported then [] else [MetricFirst], TPutFrame True b)
           | _ \<Rightarrow> None)
      | TPutFrame reported b \<Rightarrow>
          (case a of
             PutOk \<Rightarrow> Some ([put item ((blank_elem KindFrame)\<lparr>Data := b\<rparr>)], TFrames reported)
           | Done \<Rightarrow> Some (ctx_end item, Returned)
           | _ \<Rightarrow> None)
      | TEnd \<Rightarrow>
          (case a of
             PutOk \<Rightarrow> Some ([put item ((blank_elem KindSentenceEnd)\<lparr>Text := llmText item, OnEnd := onEndFunc item\<rparr>)], Returned)
           | Done \<Rightarrow> Some (end_item item (Some CtxErr), Returned)
           | _ \<Rightarrow> None)
      | _ \<Rightarrow> None)"

section \<open>A stream of texts, one after the other\<close>

definition handleStreamTts :: "tts_item \<Rightarrow> worker_pc \<Rightarrow> worker_answer \<Rightarrow> (worker_event list \<times> worker_pc) option" where
  "handleStreamTts item pc a =
     (case pc of
        SNext first \<Rightarrow>
          (case a of
             Done \<Rightarrow> Some ([], SLast (Some CtxErr) (Some CtxErr))
           | RespClosed \<Rightarrow> Some ([], SLast None None)
           | RespIn t \<Rightarrow> Some ([], if TrimSpace t = [] then SNext first else SGen first t)
           | _ \<Rightarrow> None)
      | SGen first t \<Rightarrow>
          (case generateTtsOnly a of
             None \<Rightarrow> None
           | Some (evs, Some e) \<Rightarrow> Some (evs, if first then SFailStart e else SLast (Some e) (Some e))
           | Some (evs, None) \<Rightarrow> Some (evs, SStart first t))
      | SFailStart e \<Rightarrow>
          (case a of
             PutOk \<Rightarrow> Some ([put item ((blank_elem KindSentenceStart)\<lparr>OnStart := onStartFunc item\<rparr>)], SLast (Some e) (Some e))
           | Done \<Rightarrow> Some (end_item item (Some CtxErr), Returned)
           | _ \<Rightarrow> None)
      | SStart first t \<Rightarrow>
          (case a of
             PutOk \<Rightarrow>
               Some ([put item ((blank_elem KindSentenceStart)\<lparr>Text := t, OnStart := (if first then onStartFunc item else None)\<rparr>)],
                 SFrames t False)
           | Done \<Rightarrow> Some (ctx_end item, Returned)
           | _ \<Rightarrow> None)
      | SFrames t reported \<Rightarrow>
          (case a of
             Done \<Rightarrow> Some (ctx_end item, Returned)
           | FramesClosed \<Rightarrow> Some ([Release, MetricFinish None], SEnd t)
           | FrameIn b \<Rightarrow> Some (if reported then [] else [MetricFirst], SPutFrame t True b)
           | _ \<Rightarrow> None)
      | SPutFrame t reported b \<Rightarrow>
          (case a of
             PutOk \<Rightarrow> Some ([put item ((blank_elem KindFrame)\<lparr>Data := b\<rparr>)], SFrames t reported)
           | Done \<Rightarrow> Some (ctx_end item, Returned)
           | _ \<Rightarrow> None)
      | SEnd t \<Rightarrow>
          (case a of
             PutOk \<Rightarrow> Some ([put item ((blank_elem KindSentenceEnd)\<lparr>Text := t\<rparr>)], SNext False)
           | Done \<Rightarrow> Some (end_item item (Some CtxErr), SNext False)
           | _ \<Rightarrow> None)
      | SLast err called \<Rightarrow>
          (case a of
             PutOk \<Rightarrow> Some ([put item ((blank_elem KindSentenceEnd)\<lparr>OnEnd := onEndFunc item, Err := err\<rparr>)], Returned)
           | Done \<Rightarrow> Some (end_item item called, Returned)
           | _ \<Rightarrow> None)
      | _ \<Rightarrow> None)"

section \<open>A stream of texts at once\<close>

definition after_signals :: "bool \<Rightarrow> bool \<Rightarrow> sentence_signal list \<Rightarrow> bytes \<Rightarrow> worker_event list \<times> worker_pc" where
  \<comment> \<open>what follows when the first of the signals is done\<close>
  "after_signals first reported signals audio =
     (if signals \<noteq> [] then ([], DSignals first reported signals audio)
      else if audio \<noteq> [] then (if reported then [] else [MetricFirst], DFrame first audio)
      else ([], DEvents first reported))"

definition dual_end :: "tts_item \<Rightarrow> worker_event list" where
  "dual_end item = [MetricFinish (Some CtxErr)] @ end_item item (Some CtxErr) @ [Release]"

definition handleDualStreamTts :: "tts_item \<Rightarrow> worker_pc \<Rightarrow> worker_answer \<Rightarrow> (worker_event list \<times> worker_pc) option" where
  \<comment> \<open>where it does not handle the item it goes on in \<^verbatim>\<open>handleStreamTts\<close>; its last event is the deferred release\<close>
  "handleDualStreamTts item pc a =
     (case pc of
        DOpen \<Rightarrow>
          (case a of
             NoProvider e \<Rightarrow> Some ([], SNext True)
           | NotDual \<Rightarrow> Some ([Acquire, Release], SNext True)
           | Refused e \<Rightarrow> Some ([Acquire, MetricStart, MetricFinish (Some e), Release], SNext True)
           | Speaking \<Rightarrow> Some ([Acquire, MetricStart], DEvents True False)
           | _ \<Rightarrow> None)
      | DEvents first reported \<Rightarrow>
          (case a of
             EventIn signals audio \<Rightarrow> Some (after_signals first reported signals audio)
           | EventsClosed \<Rightarrow> Some ([MetricFinish None], DLast)
           | _ \<Rightarrow> None)
      | DSignals first reported signals audio \<Rightarrow>
          (case a of
             Done \<Rightarrow> Some (dual_end item, Returned)
           | PutOk \<Rightarrow>
               (case signals of
                  [] \<Rightarrow> None
                | SentenceSignalEnd t # signals \<Rightarrow>
                    Some (let (evs, pc) = after_signals first reported signals audio
                          in (put item ((blank_elem KindSentenceEnd)\<lparr>Text := t\<rparr>) # evs, pc))
                | SentenceSignalStart t # signals \<Rightarrow>
                    Some (let (evs, pc) = after_signals False reported signals audio
                          in (put item ((blank_elem KindSentenceStart)\<lparr>Text := t,
                                OnStart := (if first then onStartFunc item else None)\<rparr>) # evs, pc)))
           | _ \<Rightarrow> None)
      | DFrame first audio \<Rightarrow>
          (case a of
             PutOk \<Rightarrow> Some ([put item ((blank_elem KindFrame)\<lparr>Data := audio\<rparr>)], DEvents first True)
           | Done \<Rightarrow> Some (dual_end item, Returned)
           | _ \<Rightarrow> None)
      | DLast \<Rightarrow>
          (case a of
             PutOk \<Rightarrow> Some ([put item ((blank_elem KindSentenceEnd)\<lparr>OnEnd := onEndFunc item\<rparr>), Release], Returned)
           | Done \<Rightarrow> Some (end_item item None @ [Release], Returned)
           | _ \<Rightarrow> None)
      | _ \<Rightarrow> None)"

definition dual_texts :: "gostr list \<Rightarrow> gostr list" where
  \<comment> \<open>what the goroutine of \<^verbatim>\<open>handleDualStreamTts\<close> feeds to the provider from the texts it read\<close>
  "dual_texts ts = filter (\<lambda>t. t \<noteq> []) (map TrimSpace ts)"

section \<open>An item\<close>

definition item_entry :: "bool \<Rightarrow> tts_item \<Rightarrow> worker_event list \<times> worker_pc" where
  \<comment> \<open>the dispatch of \<^verbatim>\<open>processTTSQueue\<close>; \<open>dual\<close> is \<^verbatim>\<open>SupportsDualStream\<close>\<close>
  "item_entry dual item =
     (if StreamChan item = None then handleTts_entry item else ([], if dual then DOpen else SNext True))"

definition worker_step :: "tts_item \<Rightarrow> worker_pc \<Rightarrow> worker_answer \<Rightarrow> (worker_event list \<times> worker_pc) option" where
  "worker_step item pc a =
     (case handleTts item pc a of
        Some r \<Rightarrow> Some r
      | None \<Rightarrow> (case handleStreamTts item pc a of Some r \<Rightarrow> Some r | None \<Rightarrow> handleDualStreamTts item pc a))"

fun worker_run :: "tts_item \<Rightarrow> worker_event list \<times> worker_pc \<Rightarrow> worker_answer list \<Rightarrow> (worker_event list \<times> worker_pc) option" where
  "worker_run item (tr, pc) [] = Some (tr, pc)"
| "worker_run item (tr, pc) (a # as) =
     (case worker_step item pc a of None \<Rightarrow> None | Some (evs, pc') \<Rightarrow> worker_run item (tr @ evs, pc') as)"

end
