(* ===== verification/Tts_Speech.thy ===== *)
theory Tts_Speech
  imports Tts_Worker
begin

text \<open>
  What a worker of the speech queue guarantees for its item: the provider is given back, the request of the metrics is
  closed, the final callback is settled, and the frames reach the audio queue in order and within a sentence.
\<close>

section \<open>Counting\<close>

definition occurs :: "(worker_event \<Rightarrow> bool) \<Rightarrow> worker_event list \<Rightarrow> nat" where
  "occurs P tr = length (filter P tr)"

lemma occurs_simps [simp]: "occurs P [] = 0" "occurs P (e # tr) = (if P e then 1 else 0) + occurs P tr" "occurs P (xs @ ys) = occurs P xs + occurs P ys"
  by (simp_all add: occurs_def)

fun settles :: "nat \<Rightarrow> worker_event \<Rightarrow> bool" where
  "settles f (Put e) \<longleftrightarrow> OnEnd e = Some f"
| "settles f (EndCalled g err) \<longleftrightarrow> g = f"
| "settles f _ \<longleftrightarrow> False"

fun finishes :: "worker_event \<Rightarrow> bool" where
  "finishes (MetricFinish err) \<longleftrightarrow> True"
| "finishes _ \<longleftrightarrow> False"

fun puts :: "worker_event list \<Rightarrow> audio_elem list" where
  "puts [] = []"
| "puts (Put e # tr) = e # puts tr"
| "puts (_ # tr) = puts tr"

lemma puts_append [simp]: "puts (xs @ ys) = puts xs @ puts ys"
  by (induction xs rule: puts.induct) simp_all

fun requesting :: "worker_pc \<Rightarrow> nat" where
  \<comment> \<open>requests of the provider that are open\<close>
  "requesting TStart = 1" | "requesting (TFrames _) = 1" | "requesting (TPutFrame _ _) = 1"
| "requesting (SStart _ _) = 1" | "requesting (SFrames _ _) = 1" | "requesting (SPutFrame _ _ _) = 1"
| "requesting (DEvents _ _) = 1" | "requesting (DSignals _ _ _ _) = 1" | "requesting (DFrame _ _) = 1"
| "requesting _ = 0"

definition holding :: "worker_pc \<Rightarrow> nat" where
  \<comment> \<open>providers that are held\<close>
  "holding pc = (if pc = DLast then 1 else requesting pc)"

definition cut :: "worker_pc \<Rightarrow> worker_answer \<Rightarrow> nat" where
  \<comment> \<open>the end of a streamed sentence that could not be queued\<close>
  "cut pc a = (case pc of SEnd t \<Rightarrow> if a = Done then 1 else 0 | _ \<Rightarrow> 0)"

definition over :: "worker_pc \<Rightarrow> nat" where
  "over pc = (if pc = Returned then 1 else 0)"

fun frames_of :: "worker_answer \<Rightarrow> bytes list" where
  "frames_of (FrameIn b) = [b]"
| "frames_of (EventIn signals audio) = (if audio = [] then [] else [audio])"
| "frames_of _ = []"

fun waiting_frame :: "worker_pc \<Rightarrow> bytes list" where
  "waiting_frame (TPutFrame _ b) = [b]"
| "waiting_frame (SPutFrame _ _ b) = [b]"
| "waiting_frame (DSignals _ _ _ audio) = (if audio = [] then [] else [audio])"
| "waiting_frame (DFrame _ audio) = [audio]"
| "waiting_frame _ = []"

definition frames_put :: "worker_event list \<Rightarrow> bytes list" where
  "frames_put tr = map Data (filter (\<lambda>e. Kind e = KindFrame) (puts tr))"

lemma frames_put_simps [simp]: "frames_put [] = []" "frames_put (xs @ ys) = frames_put xs @ frames_put ys"
  "frames_put (Put e # tr) = (if Kind e = KindFrame then [Data e] else []) @ frames_put tr"
  "frames_put (EndCalled f err # tr) = frames_put tr" "frames_put (Acquire # tr) = frames_put tr" "frames_put (Release # tr) = frames_put tr"
  "frames_put (MetricStart # tr) = frames_put tr" "frames_put (MetricFirst # tr) = frames_put tr"
  "frames_put (MetricFinish err # tr) = frames_put tr"
  by (simp_all add: frames_put_def)

section \<open>A step\<close>

lemmas worker_defs = handleTts_def generateTtsOnly_def handleStreamTts_def handleDualStreamTts_def worker_step_def put_def blank_elem_def end_item_def ctx_end_def
  dual_end_def after_signals_def holding_def over_def cut_def

lemma step_provider:
  "worker_step item pc a = Some (evs, pc') \<Longrightarrow> occurs ((=) Acquire) evs + holding pc = occurs ((=) Release) evs + holding pc'"
  by (cases pc; cases a) (auto simp: worker_defs Let_def split: option.splits list.splits sentence_signal.splits if_splits prod.splits)

lemma step_request:
  "worker_step item pc a = Some (evs, pc') \<Longrightarrow> occurs ((=) MetricStart) evs + requesting pc = occurs finishes evs + requesting pc'"
  by (cases pc; cases a) (auto simp: worker_defs Let_def split: option.splits list.splits sentence_signal.splits if_splits prod.splits)

lemma step_settles:
  "worker_step item pc a = Some (evs, pc') \<Longrightarrow> onEndFunc item = Some f \<Longrightarrow> occurs (settles f) evs + over pc = over pc' + cut pc a"
  by (cases pc; cases a) (auto simp: worker_defs Let_def split: option.splits list.splits sentence_signal.splits if_splits prod.splits)

lemma step_elems:
  "worker_step item pc a = Some (evs, pc') \<Longrightarrow> e \<in> set (puts evs) \<Longrightarrow> elem_ok e \<and> Generation e = itemGeneration item"
  by (cases pc; cases a) (auto simp: worker_defs elem_ok_def Let_def split: option.splits list.splits sentence_signal.splits if_splits prod.splits)

lemma step_frames:
  "worker_step item pc a = Some (evs, pc') \<Longrightarrow>
     (pc' \<noteq> Returned \<longrightarrow> waiting_frame pc @ frames_of a = frames_put evs @ waiting_frame pc')
     \<and> (pc' = Returned \<longrightarrow> frames_put evs = [] \<and> frames_of a = [] \<and> length (waiting_frame pc) \<le> 1)"
  by (cases pc; cases a) (auto simp: worker_defs Let_def split: option.splits list.splits sentence_signal.splits if_splits prod.splits)

section \<open>A run\<close>

lemma run_split:
  assumes "worker_run item (tr, pc) (a # as) = Some r"
  obtains evs pc' where "worker_step item pc a = Some (evs, pc')" and "worker_run item (tr @ evs, pc') as = Some r"
  using assms by (auto split: option.splits)

lemma run_provider:
  "worker_run item (tr, pc) as = Some (tr', pc') \<Longrightarrow>
     occurs ((=) Acquire) tr' + occurs ((=) Release) tr + holding pc = occurs ((=) Acquire) tr + occurs ((=) Release) tr' + holding pc'"
proof (induction as arbitrary: tr pc)
  case (Cons a as)
  then obtain evs pc1 where s: "worker_step item pc a = Some (evs, pc1)" "worker_run item (tr @ evs, pc1) as = Some (tr', pc')"
    by (blast elim: run_split)
  show ?case using Cons.IH [OF s(2)] step_provider [OF s(1)] by simp
qed simp

lemma run_request:
  "worker_run item (tr, pc) as = Some (tr', pc') \<Longrightarrow>
     occurs ((=) MetricStart) tr' + occurs finishes tr + requesting pc = occurs ((=) MetricStart) tr + occurs finishes tr' + requesting pc'"
proof (induction as arbitrary: tr pc)
  case (Cons a as)
  then obtain evs pc1 where s: "worker_step item pc a = Some (evs, pc1)" "worker_run item (tr @ evs, pc1) as = Some (tr', pc')"
    by (blast elim: run_split)
  show ?case using Cons.IH [OF s(2)] step_request [OF s(1)] by simp
qed simp

fun cuts :: "tts_item \<Rightarrow> worker_pc \<Rightarrow> worker_answer list \<Rightarrow> nat" where
  \<comment> \<open>how many ends of streamed sentences could not be queued in a run\<close>
  "cuts item pc [] = 0"
| "cuts item pc (a # as) = (case worker_step item pc a of None \<Rightarrow> 0 | Some (evs, pc') \<Rightarrow> cut pc a + cuts item pc' as)"

lemma run_settles:
  "worker_run item (tr, pc) as = Some (tr', pc') \<Longrightarrow> onEndFunc item = Some f \<Longrightarrow>
     occurs (settles f) tr' + over pc = occurs (settles f) tr + over pc' + cuts item pc as"
proof (induction as arbitrary: tr pc)
  case (Cons a as)
  then obtain evs pc1 where s: "worker_step item pc a = Some (evs, pc1)" "worker_run item (tr @ evs, pc1) as = Some (tr', pc')"
    by (blast elim: run_split)
  show ?case using Cons.IH [OF s(2) Cons.prems(2)] step_settles [OF s(1) Cons.prems(2)] s(1) by simp
qed simp

lemma run_elems:
  "worker_run item (tr, pc) as = Some (tr', pc') \<Longrightarrow> \<forall>e \<in> set (puts tr). elem_ok e \<and> Generation e = itemGeneration item \<Longrightarrow>
     \<forall>e \<in> set (puts tr'). elem_ok e \<and> Generation e = itemGeneration item"
proof (induction as arbitrary: tr pc)
  case (Cons a as)
  then obtain evs pc1 where s: "worker_step item pc a = Some (evs, pc1)" "worker_run item (tr @ evs, pc1) as = Some (tr', pc')"
    by (blast elim: run_split)
  show ?case by (rule Cons.IH [OF s(2)]) (use Cons.prems(2) step_elems [OF s(1)] in auto)
qed simp

lemma returned_stops: "worker_step item Returned a = None"
  by (simp add: worker_defs)

lemma run_frames:
  "worker_run item (tr, pc) as = Some (tr', pc') \<Longrightarrow>
     \<exists>lost. frames_put tr @ waiting_frame pc @ concat (map frames_of as) = frames_put tr' @ waiting_frame pc' @ lost
        \<and> length lost \<le> over pc'"
proof (induction as arbitrary: tr pc)
  case Nil
  then show ?case by simp
next
  case (Cons a as)
  then obtain evs pc1 where s: "worker_step item pc a = Some (evs, pc1)" "worker_run item (tr @ evs, pc1) as = Some (tr', pc')"
    by (blast elim: run_split)
  show ?case
  proof (cases "pc1 = Returned")
    case False
    then have w: "waiting_frame pc @ frames_of a = frames_put evs @ waiting_frame pc1" using step_frames [OF s(1)] by simp
    have q: "frames_put tr @ waiting_frame pc @ concat (map frames_of (a # as))
        = frames_put (tr @ evs) @ waiting_frame pc1 @ concat (map frames_of as)"
      using arg_cong [OF w, of "\<lambda>x. x @ concat (map frames_of as)"] by simp
    show ?thesis unfolding q by (rule Cons.IH [OF s(2)])
  next
    case True
    then have f: "as = []" "tr' = tr @ evs" "pc' = Returned" using s(2) returned_stops by (cases as; auto)+
    then show ?thesis using step_frames [OF s(1)] True by (auto simp: over_def)
  qed
qed

section \<open>What is said\<close>

fun speech :: "gostr option \<Rightarrow> audio_elem list \<Rightarrow> gostr option option" where
  \<comment> \<open>the sentence that is open after the elements; \<open>None\<close> when a frame stands outside a sentence, or a sentence ends
      under another text\<close>
  "speech cur [] = Some cur"
| "speech cur (e # es) =
     (case Kind e of
        KindSentenceStart \<Rightarrow> speech (Some (Text e)) es
      | KindFrame \<Rightarrow> if cur = None then None else speech cur es
      | KindSentenceEnd \<Rightarrow> if Text e = [] \<or> cur = Some (Text e) then speech None es else None
      | _ \<Rightarrow> None)"

lemma speech_append: "speech cur (xs @ ys) = (case speech cur xs of None \<Rightarrow> None | Some c \<Rightarrow> speech c ys)"
  by (induction cur xs rule: speech.induct) (auto split: elem_kind.splits)

fun in_sentence :: "tts_item \<Rightarrow> worker_pc \<Rightarrow> gostr option \<Rightarrow> bool" where
  "in_sentence item (TFrames _) cur \<longleftrightarrow> cur = Some (llmText item)"
| "in_sentence item (TPutFrame _ _) cur \<longleftrightarrow> cur = Some (llmText item)"
| "in_sentence item TEnd cur \<longleftrightarrow> cur = Some (llmText item)"
| "in_sentence item (SFrames t _) cur \<longleftrightarrow> cur = Some t"
| "in_sentence item (SPutFrame t _ _) cur \<longleftrightarrow> cur = Some t"
| "in_sentence item (SEnd t) cur \<longleftrightarrow> cur = Some t"
| "in_sentence item (DEvents _ _) cur \<longleftrightarrow> False"
| "in_sentence item (DSignals _ _ _ _) cur \<longleftrightarrow> False"
| "in_sentence item (DFrame _ _) cur \<longleftrightarrow> False"
| "in_sentence item DLast cur \<longleftrightarrow> False"
| "in_sentence item DOpen cur \<longleftrightarrow> False"
| "in_sentence item _ cur \<longleftrightarrow> True"

lemma step_speech:
  "worker_step item pc a = Some (evs, pc') \<Longrightarrow> in_sentence item pc cur \<Longrightarrow>
     \<exists>cur'. speech cur (puts evs) = Some cur' \<and> in_sentence item pc' cur'"
  by (cases pc; cases a) (auto simp: worker_defs Let_def split: option.splits list.splits sentence_signal.splits if_splits prod.splits)

lemma run_speech:
  "worker_run item (tr, pc) as = Some (tr', pc') \<Longrightarrow> speech None (puts tr) = Some cur \<Longrightarrow> in_sentence item pc cur \<Longrightarrow>
     \<exists>cur'. speech None (puts tr') = Some cur' \<and> in_sentence item pc' cur'"
proof (induction as arbitrary: tr pc cur)
  case (Cons a as)
  then obtain evs pc1 where s: "worker_step item pc a = Some (evs, pc1)" "worker_run item (tr @ evs, pc1) as = Some (tr', pc')"
    by (blast elim: run_split)
  obtain c where c: "speech cur (puts evs) = Some c" "in_sentence item pc1 c" using step_speech [OF s(1) Cons.prems(3)] by blast
  have "speech None (puts (tr @ evs)) = Some c" using Cons.prems(2) c(1) by (simp add: speech_append)
  then show ?case using Cons.IH [OF s(2)] c(2) by blast
qed auto

section \<open>Items\<close>

lemma entry_facts:
  assumes "item_entry dual item = (tr, pc)"
  shows "occurs ((=) Acquire) tr = 0" "occurs ((=) Release) tr = 0" "holding pc = 0" "requesting pc = 0"
    "occurs ((=) MetricStart) tr = 0" "occurs finishes tr = 0" "puts tr = []" "waiting_frame pc = []"
    "onEndFunc item = Some f \<Longrightarrow> occurs (settles f) tr = over pc"
    "\<not> dual \<or> StreamChan item = None \<Longrightarrow> in_sentence item pc None"
proof -
  show "occurs ((=) Acquire) tr = 0" "occurs ((=) Release) tr = 0" "holding pc = 0" "requesting pc = 0"
    "occurs ((=) MetricStart) tr = 0" "occurs finishes tr = 0" "puts tr = []" "waiting_frame pc = []"
    "onEndFunc item = Some f \<Longrightarrow> occurs (settles f) tr = over pc"
    "\<not> dual \<or> StreamChan item = None \<Longrightarrow> in_sentence item pc None"
    using assms by (auto simp: item_entry_def handleTts_entry_def end_item_def holding_def over_def split: if_splits option.splits)
qed

text \<open>C19: Every item is settled when it is done. When the worker returns from an item, however it ended, each
  provider it took was given back, each request it opened in the metrics was closed, and the final callback of the
  item was called or handed to the audio queue once, and once more for each end of a streamed sentence that found the
  context done; what it queued belongs to the generation of the item and is a valid element of the audio queue.\<close>

theorem tts_item_settles:
  assumes "worker_run item (item_entry dual item) as = Some (tr, Returned)" and "onEndFunc item = Some f"
  shows "occurs ((=) Acquire) tr = occurs ((=) Release) tr \<and> occurs ((=) MetricStart) tr = occurs finishes tr
     \<and> occurs (settles f) tr = 1 + cuts item (snd (item_entry dual item)) as
     \<and> (\<forall>e \<in> set (puts tr). elem_ok e \<and> Generation e = itemGeneration item)"
proof -
  obtain tr0 pc0 where e: "item_entry dual item = (tr0, pc0)" by fastforce
  note run = assms(1) [unfolded e]
  note z = entry_facts [OF e]
  have h: "holding Returned = 0" "requesting Returned = 0" "over Returned = 1" by (simp_all add: holding_def over_def)
  have "\<forall>e \<in> set (puts tr). elem_ok e \<and> Generation e = itemGeneration item" by (rule run_elems [OF run]) (simp add: z)
  then show ?thesis
    using run_provider [OF run] run_request [OF run] run_settles [OF run assms(2)] z h assms(2) e by simp
qed


text \<open>Fact: A streamed item can be finished twice. When a streamed sentence ends while the context is done and its
  end cannot be queued, \<^verbatim>\<open>handleStreamTts\<close> calls the final callback of the item and goes on with the stream, at the
  end of which it calls it again.\<close>

theorem streamed_item_finished_twice:
  assumes "StreamChan item = Some c" and "onEndFunc item = Some f" and "TrimSpace t \<noteq> []"
  shows "\<exists>as tr. worker_run item (item_entry False item) as = Some (tr, Returned) \<and> as = [RespIn t, Speaking, PutOk, FramesClosed, Done, Done, Done]
     \<and> filter (\<lambda>e. settles f e) tr = [EndCalled f (Some CtxErr), EndCalled f (Some CtxErr)]"
  using assms by (simp add: item_entry_def worker_defs)

section \<open>Examples\<close>

definition an_item :: "nat option \<Rightarrow> tts_item" where
  "an_item ch = \<lparr>llmText = [72], StreamChan = ch, enqueueSeq = 1, itemGeneration = 3, itemCycle = 1, onStartFunc = None, onEndFunc = Some 9\<rparr>"

lemma trimmed: "TrimSpace [72] = [72]" "TrimSpace [65] = [65]"
  by code_simp+

lemma tts_item_settles_witness:
  "\<exists>tr. worker_run (an_item None) (item_entry False (an_item None)) [Speaking, PutOk, FrameIn [1], PutOk, FramesClosed, PutOk] = Some (tr, Returned)
     \<and> occurs (settles 9) tr = 1"
proof -
  let ?as = "[Speaking, PutOk, FrameIn [1], PutOk, FramesClosed, PutOk]"
  obtain tr where r: "worker_run (an_item None) (item_entry False (an_item None)) ?as = Some (tr, Returned)"
    by (simp add: item_entry_def handleTts_entry_def an_item_def worker_defs trimmed)
  have "cuts (an_item None) (snd (item_entry False (an_item None))) ?as = 0"
    by (simp add: item_entry_def handleTts_entry_def an_item_def worker_defs trimmed)
  with tts_item_settles [OF r] r show ?thesis by (auto simp: an_item_def)
qed


lemma streamed_item_finished_twice_witness:
  "\<exists>as tr. worker_run (an_item (Some 4)) (item_entry False (an_item (Some 4))) as = Some (tr, Returned)
     \<and> filter (\<lambda>e. settles 9 e) tr = [EndCalled 9 (Some CtxErr), EndCalled 9 (Some CtxErr)]"
proof -
  have "StreamChan (an_item (Some 4)) = Some 4" "onEndFunc (an_item (Some 4)) = Some 9" "TrimSpace [65] \<noteq> []"
    by (simp_all add: an_item_def trimmed)
  from streamed_item_finished_twice [OF this] show ?thesis by blast
qed

end
