(* ===== verification/Tts_Queue.thy ===== *)
theory Tts_Queue
  imports Tts_Worker
begin

text \<open>
  The speech queue of \<^verbatim>\<open>tts.go\<close>: the callers of \<^verbatim>\<open>handleTextResponseWithHooks\<close> turn texts into items, or
  send them into the stream of an item; \<^verbatim>\<open>ClearTTSQueue\<close> drops what waits; \<^verbatim>\<open>processTTSQueue\<close> takes the
  items in turn. A call and a clear are threads whose steps are their sections between locks, atomic operations and
  blocking calls. Besides what the code keeps, the state logs what became of each numbered item. The queue itself is the
  one of the theory of the generic queue, here with its operations atomic.
\<close>

section \<open>Calls\<close>

record text_call =
  RText :: gostr
  IsStart :: bool
  IsEnd :: bool
  isSync :: bool
  onTTSPlaybackStart :: "nat option"
  onTTSItemEnqueued :: "nat option"  \<comment> \<open>the callback that it returns\<close>

definition hasText :: "text_call \<Rightarrow> bool" where
  "hasText c \<longleftrightarrow> TrimSpace (RText c) \<noteq> []"

datatype tq_pc =
    CEpoch text_call
  | CTake text_call nat
  | CNumber text_call nat tts_item
  | CPush text_call nat tts_item
  | CInstall text_call nat nat
  | CLookup text_call
  | CSend text_call nat
  | CFinish text_call nat
  | CWait
  | KLoad | KStore nat | KEpoch | KTake | KDrain  \<comment> \<open>\<^verbatim>\<open>ClearTTSQueue\<close>\<close>
  | CDone

datatype consumer_pc = CoIdle | CoFirst tts_item | CoMedia tts_item | CoSecond tts_item | CoSpeak tts_item

record tts_queue =
  ttsQueue :: "tts_item list"
  ttsQueueSeq :: nat
  droppedTTSSeq :: nat
  dualStreamEpoch :: nat
  dualStreamChan :: "nat option"
  dualStreamDone :: "nat option"
  nextStream :: nat
  closedStreams :: "nat list"
  streamTexts :: "nat \<Rightarrow> gostr list"
  mediaPlaybackActive :: bool
  generation :: nat
  metricCycle :: nat
  threads :: "tq_pc list"
  consumer :: consumer_pc
  started :: "nat list"
  dismissed :: "nat list"
  refused :: "nat list"

definition new_tts_queue :: "nat \<Rightarrow> tts_queue" where
  "new_tts_queue g =
     \<lparr>ttsQueue = [], ttsQueueSeq = 0, droppedTTSSeq = 0, dualStreamEpoch = 0, dualStreamChan = None, dualStreamDone = None,
      nextStream = 0, closedStreams = [], streamTexts = (\<lambda>_. []), mediaPlaybackActive = False, generation = g, metricCycle = 0,
      threads = [], consumer = CoIdle, started = [], dismissed = [], refused = []\<rparr>"

definition new_item :: "text_call \<Rightarrow> nat option \<Rightarrow> tts_queue \<Rightarrow> tts_item" where
  "new_item c ch s =
     \<lparr>llmText = (if ch = None then RText c else []), StreamChan = ch, enqueueSeq = 0, itemGeneration = generation s,
      itemCycle = metricCycle s, onStartFunc = onTTSPlaybackStart c, onEndFunc = onTTSItemEnqueued c\<rparr>"

definition safeCloseLLMResponseStream :: "nat option \<Rightarrow> tts_queue \<Rightarrow> tts_queue" where
  "safeCloseLLMResponseStream ch s =
     (case ch of None \<Rightarrow> s | Some c \<Rightarrow> if c \<in> set (closedStreams s) then s else s\<lparr>closedStreams := c # closedStreams s\<rparr>)"

definition call_entry :: "bool \<Rightarrow> (text_call \<Rightarrow> text_call \<times> bool) \<Rightarrow> text_call \<Rightarrow> tts_queue \<Rightarrow> tq_pc" where
  \<comment> \<open>\<^verbatim>\<open>handleTextResponseWithHooks\<close> up to its first lock; \<open>hook\<close> is \<^verbatim>\<open>EmitTTSInput\<close>\<close>
  "call_entry dual hook c s =
     (if \<not> hasText c \<and> \<not> IsEnd c \<and> \<not> IsStart c then CDone
      else (let (c, stop) = hook c
            in if stop then CDone
               else if \<not> dual then (if hasText c then CNumber c 0 (new_item c None s) else CDone)
               else if IsStart c then CEpoch c else CLookup c))"

definition with_stream :: "text_call \<Rightarrow> nat \<Rightarrow> tq_pc" where
  "with_stream c ch = (if hasText c then CSend c ch else if IsEnd c then CFinish c ch else CDone)"

definition sendLLMResponseToDualStream :: "nat \<Rightarrow> gostr \<Rightarrow> tts_queue \<Rightarrow> tts_queue" where
  \<comment> \<open>a panic on a closed stream is recovered and not told\<close>
  "sendLLMResponseToDualStream ch t s =
     (if ch \<in> set (closedStreams s) then s else s\<lparr>streamTexts := (streamTexts s)(ch := streamTexts s ch @ [t])\<rparr>)"

section \<open>Pushing, speaking, clearing\<close>

definition number_item :: "tts_item \<Rightarrow> tts_queue \<Rightarrow> tts_item \<times> tts_queue" where
  "number_item item s = (item\<lparr>enqueueSeq := Suc (ttsQueueSeq s)\<rparr>, s\<lparr>ttsQueueSeq := Suc (ttsQueueSeq s)\<rparr>)"

definition push_numbered :: "bool \<Rightarrow> tts_item \<Rightarrow> tts_queue \<Rightarrow> (bool \<times> tts_queue) option" where
  \<comment> \<open>the queue takes the item, or refuses it and its caller calls the callback with the error; \<open>None\<close> while it is full\<close>
  "push_numbered ok item s =
     (if ok then (if length (ttsQueue s) < 10 then Some (True, s\<lparr>ttsQueue := ttsQueue s @ [item]\<rparr>) else None)
      else Some (False, s\<lparr>refused := enqueueSeq item # refused s\<rparr>))"

definition text_thread :: "bool \<Rightarrow> tq_pc \<Rightarrow> tts_queue \<Rightarrow> (tq_pc \<times> tts_queue) option" where
  \<comment> \<open>\<^verbatim>\<open>handleTextResponseWithHooks\<close> from its first lock on; \<open>ok\<close>: the push, or the send, succeeds. The test of the epoch
      before the lock only returns earlier than the one under the lock, and is left out\<close>
  "text_thread ok pc s =
     (case pc of
        CEpoch c \<Rightarrow> Some (CTake c (dualStreamEpoch s), s)
      | CTake c e \<Rightarrow>
          (let ch = nextStream s;
               s' = safeCloseLLMResponseStream (dualStreamChan s) (s\<lparr>dualStreamChan := None, dualStreamDone := None, nextStream := Suc ch\<rparr>)
           in Some (CNumber c e (new_item c (Some ch) s'), s'))
      | CNumber c e item \<Rightarrow> Some (case number_item item s of (item, s) \<Rightarrow> (CPush c e item, s))
      | CPush c e item \<Rightarrow>
          (case push_numbered ok item s of
             None \<Rightarrow> None
           | Some (True, s) \<Rightarrow>
               Some (case StreamChan item of Some ch \<Rightarrow> CInstall c e ch | None \<Rightarrow> if isSync c then CWait else CDone, s)
           | Some (False, s) \<Rightarrow> Some (CDone, safeCloseLLMResponseStream (StreamChan item) s))
      | CInstall c e ch \<Rightarrow>
          (if dualStreamEpoch s \<noteq> e then Some (CDone, safeCloseLLMResponseStream (Some ch) s)
           else Some (with_stream c ch, s\<lparr>dualStreamChan := Some ch, dualStreamDone := (if isSync c then Some ch else None)\<rparr>))
      | CLookup c \<Rightarrow>
          (case dualStreamChan s of
             Some ch \<Rightarrow> Some (with_stream c ch, s)
           | None \<Rightarrow> Some (if hasText c then CNumber c 0 (new_item c None s) else CDone, s))
      | CSend c ch \<Rightarrow>
          (if ok then Some (if IsEnd c then CFinish c ch else CDone, sendLLMResponseToDualStream ch (RText c) s) else Some (CDone, s))
      | CFinish c ch \<Rightarrow>
          (let own = (dualStreamChan s = Some ch);
               wait = (own \<and> dualStreamDone s \<noteq> None \<and> isSync c);
               s' = (if own then s\<lparr>dualStreamChan := None, dualStreamDone := None\<rparr> else s)
           in Some (if wait then CWait else CDone, safeCloseLLMResponseStream (Some ch) s'))
      | CWait \<Rightarrow> Some (CDone, s)
      | _ \<Rightarrow> None)"

definition clear_thread :: "tq_pc \<Rightarrow> tts_queue \<Rightarrow> (tq_pc \<times> tts_queue) option" where
  "clear_thread pc s =
     (case pc of
        KLoad \<Rightarrow> Some (KStore (ttsQueueSeq s), s)
      | KStore d \<Rightarrow> Some (KEpoch, s\<lparr>droppedTTSSeq := d\<rparr>)
      | KEpoch \<Rightarrow> Some (KTake, s\<lparr>dualStreamEpoch := Suc (dualStreamEpoch s)\<rparr>)
      | KTake \<Rightarrow> Some (KDrain, safeCloseLLMResponseStream (dualStreamChan s) (s\<lparr>dualStreamChan := None, dualStreamDone := None\<rparr>))
      | KDrain \<Rightarrow> Some (CDone, s\<lparr>dismissed := map enqueueSeq (ttsQueue s) @ dismissed s, ttsQueue := []\<rparr>)
      | _ \<Rightarrow> None)"

definition tq_thread :: "bool \<Rightarrow> tq_pc \<Rightarrow> tts_queue \<Rightarrow> (tq_pc \<times> tts_queue) option" where
  "tq_thread ok pc s = (case text_thread ok pc s of None \<Rightarrow> clear_thread pc s | Some r \<Rightarrow> Some r)"

lemmas tq_steps = tq_thread_def text_thread_def clear_thread_def number_item_def push_numbered_def

section \<open>The consumer\<close>

definition shouldDropTTSQueueItem :: "tts_item \<Rightarrow> tts_queue \<Rightarrow> bool" where
  "shouldDropTTSQueueItem item s \<longleftrightarrow> enqueueSeq item \<noteq> 0 \<and> enqueueSeq item \<le> droppedTTSSeq s"

definition dismissTTSQueueItem :: "tts_item \<Rightarrow> tts_queue \<Rightarrow> tts_queue" where
  "dismissTTSQueueItem item s = s\<lparr>dismissed := enqueueSeq item # dismissed s\<rparr>"

definition waitForMediaPlaybackRelease :: "bool \<Rightarrow> tts_queue \<Rightarrow> bool option" where
  \<comment> \<open>\<open>None\<close>: it waits on; \<open>ok = False\<close>: the context ends the wait\<close>
  "waitForMediaPlaybackRelease ok s = (if \<not> mediaPlaybackActive s then Some True else if ok then None else Some False)"

definition processTTSQueue :: "bool \<Rightarrow> tts_queue \<Rightarrow> tts_queue option" where
  \<comment> \<open>the worker that speaks is the theory of the workers\<close>
  "processTTSQueue ok s =
     (case consumer s of
        CoIdle \<Rightarrow> (case ttsQueue s of [] \<Rightarrow> None | item # items \<Rightarrow> Some (s\<lparr>ttsQueue := items, consumer := CoFirst item\<rparr>))
      | CoFirst item \<Rightarrow>
          Some (if shouldDropTTSQueueItem item s then (dismissTTSQueueItem item s)\<lparr>consumer := CoIdle\<rparr>
                else s\<lparr>consumer := CoMedia item\<rparr>)
      | CoMedia item \<Rightarrow>
          (case waitForMediaPlaybackRelease ok s of
             None \<Rightarrow> None
           | Some True \<Rightarrow> Some (s\<lparr>consumer := CoSecond item\<rparr>)
           | Some False \<Rightarrow> Some ((dismissTTSQueueItem item s)\<lparr>consumer := CoIdle\<rparr>))
      | CoSecond item \<Rightarrow>
          Some (if shouldDropTTSQueueItem item s then (dismissTTSQueueItem item s)\<lparr>consumer := CoIdle\<rparr>
                else s\<lparr>consumer := CoSpeak item, started := enqueueSeq item # started s\<rparr>)
      | CoSpeak item \<Rightarrow> Some (s\<lparr>consumer := CoIdle\<rparr>))"

section \<open>Runs\<close>

fun starting :: "tq_pc \<Rightarrow> bool" where
  \<comment> \<open>a call that begins a stream, until it has put it in place\<close>
  "starting (CEpoch c) = True"
| "starting (CTake c e) = True"
| "starting (CNumber c e item) = (StreamChan item \<noteq> None)"
| "starting (CPush c e item) = (StreamChan item \<noteq> None)"
| "starting (CInstall c e ch) = True"
| "starting _ = False"

fun clearing :: "tq_pc \<Rightarrow> bool" where
  "clearing KLoad = True"
| "clearing (KStore d) = True"
| "clearing KEpoch = True"
| "clearing KTake = True"
| "clearing KDrain = True"
| "clearing _ = False"

datatype tq_action =
    TextResponse bool "text_call \<Rightarrow> text_call \<times> bool" text_call
  | ClearTTSQueue
  | Thread nat bool
  | Consume bool
  | MediaBegin
  | MediaEnd
  | NewGeneration
  | NewCycle

definition spawn :: "tq_pc \<Rightarrow> tts_queue \<Rightarrow> tts_queue" where
  "spawn pc s = s\<lparr>threads := threads s @ [pc]\<rparr>"

definition begin_media :: "tts_queue \<Rightarrow> tts_queue option" where
  \<comment> \<open>the clear that it makes is a thread; the interruption is the theory of the audio queue\<close>
  "begin_media s = (if mediaPlaybackActive s then None else Some (spawn KLoad (s\<lparr>mediaPlaybackActive := True\<rparr>)))"

definition end_media :: "tts_queue \<Rightarrow> tts_queue" where
  "end_media s = s\<lparr>mediaPlaybackActive := False\<rparr>"

fun tq_act :: "bool \<Rightarrow> tq_action \<Rightarrow> tts_queue \<Rightarrow> tts_queue option" where
  \<comment> \<open>\<open>serial\<close>: only one call begins a stream, and only one clear runs, at a time\<close>
  "tq_act serial (TextResponse dual hook c) s =
     (let pc = call_entry dual hook c s
      in if serial \<and> starting pc \<and> list_ex starting (threads s) then None else Some (spawn pc s))"
| "tq_act serial ClearTTSQueue s = (if serial \<and> list_ex clearing (threads s) then None else Some (spawn KLoad s))"
| "tq_act serial (Thread i ok) s =
     (if i < length (threads s) then
        (case tq_thread ok (threads s ! i) s of None \<Rightarrow> None | Some (pc, s') \<Rightarrow> Some (s'\<lparr>threads := (threads s)[i := pc]\<rparr>))
      else None)"
| "tq_act serial (Consume ok) s = processTTSQueue ok s"
| "tq_act serial MediaBegin s =
     (if serial \<and> list_ex clearing (threads s) then None else begin_media s)"
| "tq_act serial MediaEnd s = Some (end_media s)"
| "tq_act serial NewGeneration s = Some (s\<lparr>generation := Suc (generation s)\<rparr>)"
| "tq_act serial NewCycle s = Some (s\<lparr>metricCycle := Suc (metricCycle s)\<rparr>)"

fun tq_run :: "bool \<Rightarrow> tq_action list \<Rightarrow> tts_queue \<Rightarrow> tts_queue option" where
  "tq_run serial [] s = Some s"
| "tq_run serial (a # as) s = (case tq_act serial a s of None \<Rightarrow> None | Some s \<Rightarrow> tq_run serial as s)"

end
