(* ===== verification/Tts_Clear.thy ===== *)
theory Tts_Clear
  imports Tts_Queue "HOL-Library.Multiset"
begin

text \<open>
  What the speech queue guarantees: every numbered item is accounted for, a clear silences what was numbered before it,
  and no stream is left open, as long as the calls that begin a stream, and the clears, do not overlap; and what goes
  wrong when they do.
\<close>

section \<open>Every item is accounted for\<close>

fun numbers :: "tq_pc \<Rightarrow> nat list" where
  "numbers (CPush c e item) = [enqueueSeq item]"
| "numbers _ = []"

fun taken :: "consumer_pc \<Rightarrow> nat list" where
  "taken (CoFirst item) = [enqueueSeq item]"
| "taken (CoMedia item) = [enqueueSeq item]"
| "taken (CoSecond item) = [enqueueSeq item]"
| "taken _ = []"

definition places :: "tts_queue \<Rightarrow> nat multiset" where
  "places s = mset (concat (map numbers (threads s))) + mset (map enqueueSeq (ttsQueue s)) + mset (taken (consumer s))
     + mset (started s) + mset (dismissed s) + mset (refused s)"

lemma close_fields [simp]:
  "threads (safeCloseLLMResponseStream ch s) = threads s" "ttsQueue (safeCloseLLMResponseStream ch s) = ttsQueue s"
  "consumer (safeCloseLLMResponseStream ch s) = consumer s" "started (safeCloseLLMResponseStream ch s) = started s"
  "dismissed (safeCloseLLMResponseStream ch s) = dismissed s" "refused (safeCloseLLMResponseStream ch s) = refused s"
  "ttsQueueSeq (safeCloseLLMResponseStream ch s) = ttsQueueSeq s" "droppedTTSSeq (safeCloseLLMResponseStream ch s) = droppedTTSSeq s"
  "dualStreamChan (safeCloseLLMResponseStream ch s) = dualStreamChan s" "nextStream (safeCloseLLMResponseStream ch s) = nextStream s"
  "set (closedStreams (safeCloseLLMResponseStream ch s)) = set_option ch \<union> set (closedStreams s)"
  by (auto simp: safeCloseLLMResponseStream_def split: option.split)

lemma send_fields [simp]:
  "threads (sendLLMResponseToDualStream ch t s) = threads s" "ttsQueue (sendLLMResponseToDualStream ch t s) = ttsQueue s"
  "consumer (sendLLMResponseToDualStream ch t s) = consumer s" "started (sendLLMResponseToDualStream ch t s) = started s"
  "dismissed (sendLLMResponseToDualStream ch t s) = dismissed s" "refused (sendLLMResponseToDualStream ch t s) = refused s"
  "ttsQueueSeq (sendLLMResponseToDualStream ch t s) = ttsQueueSeq s" "droppedTTSSeq (sendLLMResponseToDualStream ch t s) = droppedTTSSeq s"
  "dualStreamChan (sendLLMResponseToDualStream ch t s) = dualStreamChan s" "nextStream (sendLLMResponseToDualStream ch t s) = nextStream s"
  "closedStreams (sendLLMResponseToDualStream ch t s) = closedStreams s"
  by (simp_all add: sendLLMResponseToDualStream_def)

lemma with_stream_kind [simp]: "numbers (with_stream c ch) = []" "starting (with_stream c ch) = False" "clearing (with_stream c ch) = False"
  by (simp_all add: with_stream_def)

lemma mset_concat_update:
  "i < length xs \<Longrightarrow> mset (concat (map f (xs[i := x]))) + mset (f (xs ! i)) = mset (concat (map f xs)) + mset (f x)"
proof (induction xs arbitrary: i)
  case (Cons y ys)
  then show ?case by (cases i) (auto simp: ac_simps)
qed simp

definition thread_places :: "tq_pc \<Rightarrow> tts_queue \<Rightarrow> nat multiset" where
  "thread_places pc s = mset (numbers pc) + mset (map enqueueSeq (ttsQueue s)) + mset (dismissed s) + mset (refused s)"

lemma thread_step_frame:
  "tq_thread ok pc s = Some (pc', s') \<Longrightarrow> threads s' = threads s \<and> consumer s' = consumer s \<and> started s' = started s"
  by (cases pc) (auto simp: tq_steps Let_def split: if_splits option.splits)

lemma thread_step_places:
  assumes "tq_thread ok pc s = Some (pc', s')"
  shows "ttsQueueSeq s' = ttsQueueSeq s \<and> thread_places pc' s' = thread_places pc s
      \<or> ttsQueueSeq s' = Suc (ttsQueueSeq s) \<and> thread_places pc' s' = add_mset (ttsQueueSeq s') (thread_places pc s)"
proof (cases pc)
  case (CPush c e item)
  then show ?thesis using assms by (cases "StreamChan item") (auto simp: tq_steps thread_places_def split: if_splits)
next
  case (CInstall c e ch)
  then show ?thesis using assms by (auto simp: tq_steps thread_places_def split: if_splits)
next
  case (CLookup c)
  then show ?thesis using assms by (cases "dualStreamChan s") (auto simp: tq_steps thread_places_def split: if_splits)
next
  case (CSend c ch)
  then show ?thesis using assms by (auto simp: tq_steps thread_places_def split: if_splits)
next
  case (CFinish c ch)
  then show ?thesis using assms by (auto simp: tq_steps thread_places_def Let_def split: if_splits)
qed (use assms in \<open>clarsimp simp: tq_steps thread_places_def Let_def\<close>)+

lemma consume_places:
  assumes "processTTSQueue ok s = Some s'"
  shows "places s' = places s \<and> ttsQueueSeq s' = ttsQueueSeq s"
proof (cases "consumer s")
  case CoIdle
  then show ?thesis using assms by (cases "ttsQueue s") (clarsimp simp: processTTSQueue_def waitForMediaPlaybackRelease_def places_def)+
next
  case (CoFirst item)
  then show ?thesis using assms
    by (cases "shouldDropTTSQueueItem item s") (clarsimp simp: processTTSQueue_def waitForMediaPlaybackRelease_def places_def dismissTTSQueueItem_def)+
next
  case (CoMedia item)
  then show ?thesis using assms
    by (cases "mediaPlaybackActive s"; cases ok) (clarsimp simp: processTTSQueue_def waitForMediaPlaybackRelease_def places_def dismissTTSQueueItem_def)+
next
  case (CoSecond item)
  then show ?thesis using assms
    by (cases "shouldDropTTSQueueItem item s") (clarsimp simp: processTTSQueue_def waitForMediaPlaybackRelease_def places_def dismissTTSQueueItem_def)+
next
  case (CoSpeak item)
  then show ?thesis using assms by (clarsimp simp: processTTSQueue_def waitForMediaPlaybackRelease_def places_def)
qed

definition accounted_items :: "tts_queue \<Rightarrow> bool" where
  "accounted_items s \<longleftrightarrow> places s = mset [1..<Suc (ttsQueueSeq s)]"

lemma accounted_thread:
  assumes ok: "accounted_items s" and i: "i < length (threads s)" and t: "tq_thread b (threads s ! i) s = Some (pc, s1)"
  shows "accounted_items (s1\<lparr>threads := (threads s)[i := pc]\<rparr>)"
proof -
  let ?s' = "s1\<lparr>threads := (threads s)[i := pc]\<rparr>"
  let ?n = "mset (numbers (threads s ! i))"
  let ?r = "mset (concat (map numbers (threads s))) + mset (taken (consumer s)) + mset (started s)"
  note st = thread_step_frame [OF t]
  note u = mset_concat_update [OF i, of numbers pc]
  have 1: "places ?s' + ?n = ?r + thread_places pc s1"
    using u st by (simp add: places_def thread_places_def ac_simps)
  have 2: "places s + ?n = ?r + thread_places (threads s ! i) s"
    by (simp add: places_def thread_places_def ac_simps)
  from thread_step_places [OF t] show ?thesis
  proof
    assume a: "ttsQueueSeq s1 = ttsQueueSeq s \<and> thread_places pc s1 = thread_places (threads s ! i) s"
    then have "places ?s' + ?n = places s + ?n" using 1 2 by simp
    then show ?thesis using a ok by (simp add: accounted_items_def)
  next
    assume a: "ttsQueueSeq s1 = Suc (ttsQueueSeq s) \<and> thread_places pc s1 = add_mset (ttsQueueSeq s1) (thread_places (threads s ! i) s)"
    then have "places ?s' + ?n = add_mset (ttsQueueSeq s1) (places s) + ?n" using 1 2 by simp
    then show ?thesis using a ok by (simp add: accounted_items_def)
  qed
qed

lemma accounted_act:
  assumes act: "tq_act serial a s = Some s'" and ok: "accounted_items s"
  shows "accounted_items s'"
proof (cases a)
  case (Thread i b)
  then obtain pc s1 where "i < length (threads s)" "tq_thread b (threads s ! i) s = Some (pc, s1)" "s' = s1\<lparr>threads := (threads s)[i := pc]\<rparr>"
    using act by (auto split: if_splits option.splits prod.splits)
  then show ?thesis using accounted_thread [OF ok] by simp
next
  case (Consume b)
  then show ?thesis using act ok consume_places [of b s s'] by (simp add: accounted_items_def)
next
  case (TextResponse dual hook c)
  have "numbers (call_entry dual hook c s) = []" by (simp add: call_entry_def split: prod.split)
  moreover have "s' = spawn (call_entry dual hook c s) s" using TextResponse act by (simp add: Let_def split: if_splits)
  ultimately show ?thesis using ok by (simp add: accounted_items_def places_def spawn_def)
next
  case ClearTTSQueue
  then have "s' = spawn KLoad s" using act by (simp add: begin_media_def split: if_splits)
  then show ?thesis using ok by (simp add: accounted_items_def places_def spawn_def)
next
  case MediaBegin
  then have "s' = spawn KLoad (s\<lparr>mediaPlaybackActive := True\<rparr>)" using act by (simp add: begin_media_def split: if_splits)
  then show ?thesis using ok by (simp add: accounted_items_def places_def spawn_def)
qed (use act ok in \<open>clarsimp simp: accounted_items_def places_def end_media_def\<close>)+

lemma accounted_run: "tq_run serial as s = Some s' \<Longrightarrow> accounted_items s \<Longrightarrow> accounted_items s'"
  by (induction as arbitrary: s) (auto dest: accounted_act split: option.splits)

text \<open>C35: No item of the speech queue is lost or handled twice. However calls, clears and the consumer interleave,
  each number given out is the number of an item that is in exactly one place: with a call that is about to push it, in
  the queue, with the consumer, started, dismissed with its callback, or refused by the queue.\<close>

theorem items_in_one_place:
  assumes "tq_run serial as (new_tts_queue g) = Some s"
  shows "mset (concat (map numbers (threads s))) + mset (map enqueueSeq (ttsQueue s)) + mset (taken (consumer s))
     + mset (started s) + mset (dismissed s) + mset (refused s) = mset [1..<Suc (ttsQueueSeq s)]"
proof -
  have "accounted_items (new_tts_queue g)" by (simp add: accounted_items_def places_def new_tts_queue_def)
  from accounted_run [OF assms this] show ?thesis by (simp add: accounted_items_def places_def)
qed

section \<open>Clears\<close>

lemma count_update:
  "i < length xs \<Longrightarrow> length (filter P (xs[i := x])) + (if P (xs ! i) then 1 else 0) = length (filter P xs) + (if P x then 1 else 0)"
proof (induction xs arbitrary: i)
  case (Cons y ys)
  then show ?case by (cases i) auto
qed simp

lemma only_one: "length (filter P xs) \<le> 1 \<Longrightarrow> a \<in> set xs \<Longrightarrow> b \<in> set xs \<Longrightarrow> P a \<Longrightarrow> P b \<Longrightarrow> a = b"
proof -
  assume l: "length (filter P xs) \<le> 1" and "a \<in> set xs" "b \<in> set xs" "P a" "P b"
  then have ab: "a \<in> set (filter P xs)" "b \<in> set (filter P xs)" by simp_all
  show "a = b"
  proof (cases "filter P xs")
    case Nil
    then show ?thesis using ab(1) by (metis empty_iff list.set(1))
  next
    case (Cons y ys)
    then have "ys = []" using l by (metis length_0_conv le_zero_eq list.size(4) One_nat_def Suc_le_mono add.right_neutral add_Suc_right)
    then have "filter P xs = [y]" using Cons by simp
    then show ?thesis using ab by (metis empty_iff list.set(1) list.set_intros(1) set_ConsD)
  qed
qed

definition one_clear :: "tts_queue \<Rightarrow> bool" where
  "one_clear s \<longleftrightarrow> droppedTTSSeq s \<le> ttsQueueSeq s \<and> (\<forall>d. KStore d \<in> set (threads s) \<longrightarrow> droppedTTSSeq s \<le> d \<and> d \<le> ttsQueueSeq s)
     \<and> length (filter clearing (threads s)) \<le> 1"

lemma thread_clearing: "tq_thread b pc s = Some (pc', s') \<Longrightarrow> clearing pc' \<Longrightarrow> clearing pc"
  by (cases pc) (auto simp: tq_steps Let_def split: if_splits option.splits)

lemma thread_store: "tq_thread b pc s = Some (KStore d, s') \<Longrightarrow> d = ttsQueueSeq s \<and> s' = s"
  by (cases pc) (auto simp: tq_steps Let_def with_stream_def split: if_splits option.splits)

lemma thread_numbers:
  "tq_thread b pc s = Some (pc', s') \<Longrightarrow> ttsQueueSeq s \<le> ttsQueueSeq s' \<and> (droppedTTSSeq s' = droppedTTSSeq s \<or> pc = KStore (droppedTTSSeq s') \<and> pc' = KEpoch)"
  by (cases pc) (auto simp: tq_steps Let_def split: if_splits option.splits)

lemma not_any: "\<not> list_ex P xs \<Longrightarrow> filter P xs = []"
  by (induction xs) auto

lemma clear_act:
  assumes act: "tq_act True a s = Some s'" and ok: "one_clear s"
  shows "one_clear s' \<and> droppedTTSSeq s \<le> droppedTTSSeq s' \<and> ttsQueueSeq s \<le> ttsQueueSeq s'"
proof -
  have o: "droppedTTSSeq s \<le> ttsQueueSeq s" "\<And>d. KStore d \<in> set (threads s) \<Longrightarrow> droppedTTSSeq s \<le> d \<and> d \<le> ttsQueueSeq s"
    "length (filter clearing (threads s)) \<le> 1" using ok by (simp_all add: one_clear_def)
  show ?thesis
  proof (cases a)
    case (Thread i b)
    then obtain pc s1 where i: "i < length (threads s)" and t: "tq_thread b (threads s ! i) s = Some (pc, s1)"
        and s': "s' = s1\<lparr>threads := (threads s)[i := pc]\<rparr>"
      using act by (auto split: if_splits option.splits prod.splits)
    have mem: "threads s ! i \<in> set (threads s)" using i by simp
    have new: "pc \<in> set ((threads s)[i := pc])" using i by (simp add: set_update_memI)
    note n = thread_numbers [OF t]
    have c: "length (filter clearing ((threads s)[i := pc])) \<le> 1"
      using count_update [OF i, of clearing pc] o(3) thread_clearing [OF t] by (auto split: if_splits)
    have d: "droppedTTSSeq s \<le> droppedTTSSeq s1 \<and> droppedTTSSeq s1 \<le> ttsQueueSeq s" using n o(1) o(2) [of "droppedTTSSeq s1"] mem by auto
    have k: "droppedTTSSeq s1 \<le> e \<and> e \<le> ttsQueueSeq s1" if e: "KStore e \<in> set ((threads s)[i := pc])" for e
    proof (cases "pc = KStore e")
      case True
      then show ?thesis using thread_store t o(1) by blast
    next
      case False
      then have old: "KStore e \<in> set (threads s)" using e set_update_subset_insert [of "threads s" i pc] by auto
      show ?thesis
      proof (cases "pc = KEpoch")
        case True
        then show ?thesis using only_one [OF c e new] by simp
      next
        case False
        then show ?thesis using n o(2) [OF old] by auto
      qed
    qed
    show ?thesis using c d k n by (auto simp: one_clear_def s')
  next
    case (Consume b)
    have "threads s' = threads s \<and> droppedTTSSeq s' = droppedTTSSeq s \<and> ttsQueueSeq s' = ttsQueueSeq s"
      using Consume act by (cases "consumer s") (auto simp: processTTSQueue_def waitForMediaPlaybackRelease_def dismissTTSQueueItem_def split: list.splits if_splits)
    then show ?thesis using ok by (simp add: one_clear_def)
  next
    case (TextResponse dual hook c)
    have "clearing (call_entry dual hook c s) = False" "\<And>d. KStore d \<noteq> call_entry dual hook c s" by (simp_all add: call_entry_def split: prod.split)
    moreover have "s' = spawn (call_entry dual hook c s) s" using TextResponse act by (simp add: Let_def split: if_splits)
    ultimately show ?thesis using o by (auto simp: one_clear_def spawn_def)
  next
    case ClearTTSQueue
    then have "s' = spawn KLoad s" "\<not> list_ex clearing (threads s)" using act by (simp_all add: begin_media_def split: if_splits)
    then show ?thesis using o by (auto simp: one_clear_def spawn_def not_any)
  next
    case MediaBegin
    then have "s' = spawn KLoad (s\<lparr>mediaPlaybackActive := True\<rparr>)" "\<not> list_ex clearing (threads s)" using act by (simp_all add: begin_media_def split: if_splits)
    then show ?thesis using o by (auto simp: one_clear_def spawn_def not_any)
  qed (use act ok in \<open>clarsimp simp: one_clear_def end_media_def\<close>)+
qed

lemma started_act:
  assumes act: "tq_act serial a s = Some s'" and ok: "accounted_items s"
  shows "\<exists>new. started s' = new @ started s \<and> (\<forall>n \<in> set new. droppedTTSSeq s < n)"
proof (cases "consumer s")
  case (CoSecond item)
  have "enqueueSeq item \<in># places s" by (simp add: places_def CoSecond)
  then have "0 < enqueueSeq item" using ok by (auto simp: accounted_items_def simp del: upt_Suc)
  then show ?thesis
  proof (cases a)
    case (Consume b)
    then show ?thesis using act CoSecond \<open>0 < enqueueSeq item\<close>
      by (cases "shouldDropTTSQueueItem item s") (auto simp: processTTSQueue_def waitForMediaPlaybackRelease_def shouldDropTTSQueueItem_def dismissTTSQueueItem_def)
  next
    case (Thread i b)
    then show ?thesis using act by (auto dest: thread_step_frame split: if_splits option.splits prod.splits)
  qed (use act in \<open>auto simp: spawn_def begin_media_def end_media_def Let_def split: if_splits\<close>)
next
  case other: CoIdle
  then show ?thesis using act
    by (cases a) (auto simp: spawn_def begin_media_def end_media_def Let_def processTTSQueue_def waitForMediaPlaybackRelease_def dest: thread_step_frame split: if_splits option.splits prod.splits list.splits)
next
  case other: (CoFirst item)
  then show ?thesis using act
    by (cases a) (auto simp: spawn_def begin_media_def end_media_def Let_def processTTSQueue_def waitForMediaPlaybackRelease_def dismissTTSQueueItem_def dest: thread_step_frame split: if_splits option.splits prod.splits)
next
  case other: (CoMedia item)
  then show ?thesis using act
    by (cases a) (auto simp: spawn_def begin_media_def end_media_def Let_def processTTSQueue_def waitForMediaPlaybackRelease_def dismissTTSQueueItem_def dest: thread_step_frame split: if_splits option.splits prod.splits)
next
  case other: (CoSpeak item)
  then show ?thesis using act
    by (cases a) (auto simp: spawn_def begin_media_def end_media_def Let_def processTTSQueue_def waitForMediaPlaybackRelease_def dest: thread_step_frame split: if_splits option.splits prod.splits)
qed

lemma clear_run: "tq_run True as s = Some s' \<Longrightarrow> one_clear s \<Longrightarrow> one_clear s' \<and> droppedTTSSeq s \<le> droppedTTSSeq s'"
proof (induction as arbitrary: s)
  case (Cons a as)
  then obtain s1 where "tq_act True a s = Some s1" "tq_run True as s1 = Some s'" by (auto split: option.splits)
  then show ?case using Cons.IH [of s1] clear_act [of a s s1] Cons.prems(2) by auto
qed simp

lemma started_run:
  "tq_run True as s = Some s' \<Longrightarrow> one_clear s \<Longrightarrow> accounted_items s \<Longrightarrow>
     \<exists>new. started s' = new @ started s \<and> (\<forall>n \<in> set new. droppedTTSSeq s < n)"
proof (induction as arbitrary: s)
  case (Cons a as)
  then obtain s1 where s1: "tq_act True a s = Some s1" "tq_run True as s1 = Some s'" by (auto split: option.splits)
  have c: "one_clear s1" "droppedTTSSeq s \<le> droppedTTSSeq s1" using clear_act [OF s1(1) Cons.prems(2)] by simp_all
  obtain new1 where n1: "started s1 = new1 @ started s" "\<forall>n \<in> set new1. droppedTTSSeq s < n" using started_act [OF s1(1) Cons.prems(3)] by blast
  obtain new2 where n2: "started s' = new2 @ started s1" "\<forall>n \<in> set new2. droppedTTSSeq s1 < n"
    using Cons.IH [OF s1(2) c(1) accounted_act [OF s1(1) Cons.prems(3)]] by blast
  show ?case using n1 n2 c(2) by (intro exI [of _ "new2 @ new1"]) fastforce
qed simp

definition past :: "nat \<Rightarrow> nat \<Rightarrow> tts_queue \<Rightarrow> bool" where
  \<comment> \<open>the clear of thread \<open>i\<close> was begun when \<open>n\<close> numbers were given out\<close>
  "past n i s \<longleftrightarrow> i < length (threads s) \<and> n \<le> ttsQueueSeq s
     \<and> (case threads s ! i of KLoad \<Rightarrow> True | KStore d \<Rightarrow> n \<le> d | _ \<Rightarrow> n \<le> droppedTTSSeq s)"

lemma past_thread: "tq_thread b pc s = Some (pc', s') \<Longrightarrow> pc' = KLoad \<Longrightarrow> False"
  by (cases pc) (auto simp: tq_steps Let_def with_stream_def split: if_splits option.splits)

lemma past_act:
  assumes act: "tq_act True a s = Some s'" and ok: "one_clear s" and p: "past n i s"
  shows "past n i s'"
proof -
  have m: "droppedTTSSeq s \<le> droppedTTSSeq s'" "ttsQueueSeq s \<le> ttsQueueSeq s'" using clear_act [OF act ok] by simp_all
  have i: "i < length (threads s)" "n \<le> ttsQueueSeq s" using p by (simp_all add: past_def)
  have keep: "past n i s'" if "i < length (threads s')" "threads s' ! i = threads s ! i"
    using p m that by (cases "threads s ! i") (auto simp: past_def)
  show ?thesis
  proof (cases a)
    case (Thread j b)
    then obtain pc s1 where j: "j < length (threads s)" and t: "tq_thread b (threads s ! j) s = Some (pc, s1)"
        and s': "s' = s1\<lparr>threads := (threads s)[j := pc]\<rparr>"
      using act by (auto split: if_splits option.splits prod.splits)
    show ?thesis
    proof (cases "i = j")
      case False
      then show ?thesis using keep i s' by simp
    next
      case True
      note [simp] = True
      have at: "threads s' ! i = pc" using j s' by simp
      show ?thesis
      proof (cases "\<exists>d. pc = KStore d")
        case True
        then obtain d where "pc = KStore d" by blast
        then show ?thesis using thread_store [of b "threads s ! j" s d s1] t i(2) m j s' by (auto simp: past_def)
      next
        case False
        have "n \<le> droppedTTSSeq s1"
        proof (cases "threads s ! j")
          case KLoad
          then show ?thesis using t False by (auto simp: tq_steps)
        next
          case (KStore d)
          then show ?thesis using t p by (auto simp: tq_steps past_def)
        qed (use p m s' in \<open>auto simp: past_def\<close>)
        then show ?thesis using False past_thread [OF t] i m at j s' by (cases pc) (auto simp: past_def)
      qed
    qed
  next
    case (Consume b)
    have "threads s' = threads s"
      using Consume act by (cases "consumer s") (auto simp: processTTSQueue_def waitForMediaPlaybackRelease_def dismissTTSQueueItem_def split: list.splits if_splits)
    then show ?thesis using keep i by simp
  qed (use act keep i in \<open>auto simp: spawn_def begin_media_def end_media_def nth_append Let_def split: if_splits\<close>)
qed

lemma past_run: "tq_run True as s = Some s' \<Longrightarrow> one_clear s \<Longrightarrow> past n i s \<Longrightarrow> past n i s'"
proof (induction as arbitrary: s)
  case (Cons a as)
  then obtain s1 where "tq_act True a s = Some s1" "tq_run True as s1 = Some s'" by (auto split: option.splits)
  then show ?case using Cons.IH [of s1] clear_act [of a s s1] past_act [of a s s1 n i] Cons.prems(2,3) by blast
qed simp

lemma new_queue_ok: "one_clear (new_tts_queue g)" "accounted_items (new_tts_queue g)"
  by (simp_all add: one_clear_def accounted_items_def places_def new_tts_queue_def)


section \<open>Streams\<close>

fun owning :: "tq_pc \<Rightarrow> nat option" where
  \<comment> \<open>the stream that a call has made and not put in place\<close>
  "owning (CNumber c e item) = StreamChan item"
| "owning (CPush c e item) = StreamChan item"
| "owning (CInstall c e ch) = Some ch"
| "owning _ = None"

definition no_orphan :: "tts_queue \<Rightarrow> bool" where
  "no_orphan s \<longleftrightarrow> length (filter starting (threads s)) \<le> 1
     \<and> (\<forall>pc \<in> set (threads s). owning pc \<noteq> None \<longrightarrow> dualStreamChan s = None)
     \<and> (\<forall>ch < nextStream s. ch \<in> set (closedStreams s) \<or> dualStreamChan s = Some ch \<or> (\<exists>pc \<in> set (threads s). owning pc = Some ch))"

lemma owning_starts: "owning pc \<noteq> None \<Longrightarrow> starting pc"
  by (cases pc) auto

lemma with_stream_owns [simp]: "owning (with_stream c ch) = None"
  by (simp add: with_stream_def)

lemma single_item [simp]: "StreamChan (new_item c ch s) = ch"
  by (simp add: new_item_def)

lemma thread_starting: "tq_thread b pc s = Some (pc', s') \<Longrightarrow> starting pc' \<Longrightarrow> starting pc"
  by (cases pc) (auto simp: tq_steps Let_def split: if_splits option.splits)

lemma thread_placed: "tq_thread b pc s = Some (pc', s') \<Longrightarrow> owning pc \<noteq> None \<Longrightarrow> owning pc' = None \<Longrightarrow> \<not> starting pc'"
  by (cases pc) (auto simp: tq_steps Let_def split: if_splits option.splits)

definition stream_kept :: "tq_pc \<Rightarrow> tts_queue \<Rightarrow> tq_pc \<Rightarrow> tts_queue \<Rightarrow> bool" where
  \<comment> \<open>a step moves a stream from a call to its place, or closes it\<close>
  "stream_kept pc s pc' s' \<longleftrightarrow> set (closedStreams s) \<subseteq> set (closedStreams s') \<and> nextStream s \<le> nextStream s'
     \<and> (dualStreamChan s' \<noteq> dualStreamChan s \<longrightarrow> dualStreamChan s' = None \<or> owning pc = dualStreamChan s' \<and> owning pc' = None)
     \<and> (\<forall>ch. dualStreamChan s = Some ch \<longrightarrow> dualStreamChan s' = Some ch \<or> ch \<in> set (closedStreams s') \<or> owning pc \<noteq> None)
     \<and> (\<forall>ch. owning pc = Some ch \<longrightarrow> owning pc' = Some ch \<or> dualStreamChan s' = Some ch \<or> ch \<in> set (closedStreams s'))
     \<and> (owning pc' = owning pc \<and> nextStream s' = nextStream s \<or> owning pc' = None \<and> nextStream s' = nextStream s
        \<or> starting pc \<and> owning pc = None \<and> owning pc' = Some (nextStream s) \<and> dualStreamChan s' = None \<and> nextStream s' = Suc (nextStream s))"

lemma step_keeps_streams:
  assumes "tq_thread b pc s = Some (pc', s')"
  shows "stream_kept pc s pc' s'"
proof (cases pc)
  case (CFinish c ch)
  then show ?thesis using assms by (cases "dualStreamChan s") (auto simp: stream_kept_def tq_steps Let_def split: if_splits)
next
  case (CPush c e item)
  then show ?thesis using assms by (cases "StreamChan item") (auto simp: stream_kept_def tq_steps split: if_splits)
next
  case KTake
  then show ?thesis using assms by (cases "dualStreamChan s") (auto simp: stream_kept_def tq_steps)
next
  case (CTake c e)
  then show ?thesis using assms by (cases "dualStreamChan s") (auto simp: stream_kept_def tq_steps Let_def)
qed (use assms in \<open>auto simp: stream_kept_def tq_steps split: if_splits option.splits\<close>)

lemma orphan_thread:
  assumes ok: "no_orphan s" and i: "i < length (threads s)" and t: "tq_thread b (threads s ! i) s = Some (pc, s1)"
  shows "no_orphan (s1\<lparr>threads := (threads s)[i := pc]\<rparr>)"
proof -
  let ?old = "threads s ! i"
  let ?ts = "(threads s)[i := pc]"
  have o: "length (filter starting (threads s)) \<le> 1"
    "\<And>q. q \<in> set (threads s) \<Longrightarrow> owning q \<noteq> None \<Longrightarrow> dualStreamChan s = None"
    "\<And>ch. ch < nextStream s \<Longrightarrow> ch \<in> set (closedStreams s) \<or> dualStreamChan s = Some ch \<or> (\<exists>q \<in> set (threads s). owning q = Some ch)"
    using ok unfolding no_orphan_def by blast+
  note k = step_keeps_streams [OF t, unfolded stream_kept_def]
  have mem: "?old \<in> set (threads s)" using i by simp
  have new: "pc \<in> set ?ts" using i by (simp add: set_update_memI)
  have c: "length (filter starting ?ts) \<le> 1"
    using count_update [OF i, of starting pc] o(1) thread_starting [OF t] by (auto split: if_splits)
  have old_or_new: "q = pc \<or> q \<in> set (threads s)" if "q \<in> set ?ts" for q
    using that set_update_subset_insert [of "threads s" i pc] by auto
  have others: "q = ?old \<or> q \<in> set ?ts" if q: "q \<in> set (threads s)" for q
  proof -
    obtain j where j: "j < length (threads s)" "q = threads s ! j" using q by (auto simp: in_set_conv_nth)
    then show ?thesis by (cases "j = i") (auto simp: in_set_conv_nth intro!: exI [of _ j])
  qed
  have own: "dualStreamChan s1 = None" if q: "q \<in> set ?ts" "owning q \<noteq> None" for q
  proof (cases "q = pc")
    case True
    then show ?thesis using k q(2) o(2) [OF mem] by metis
  next
    case False
    then have "q \<in> set (threads s)" using old_or_new q(1) by blast
    then have n: "dualStreamChan s = None" and st: "starting q" using o(2) q(2) owning_starts by blast+
    have "\<not> (owning ?old \<noteq> None \<and> owning pc = None \<and> dualStreamChan s1 \<noteq> None)"
    proof
      assume a: "owning ?old \<noteq> None \<and> owning pc = None \<and> dualStreamChan s1 \<noteq> None"
      then have "q = ?old" using only_one [OF o(1) \<open>q \<in> set (threads s)\<close> mem st] owning_starts by blast
      have "\<not> starting pc" using a thread_placed [OF t] by blast
      moreover have "starting q" by (rule st)
      moreover have "length (filter starting ?ts) + 1 \<le> 1"
        using count_update [OF i, of starting pc] o(1) \<open>q = ?old\<close> st \<open>\<not> starting pc\<close> by simp
      ultimately show False using q(1) by (auto simp: filter_empty_conv)
    qed
    then show ?thesis using k n by metis
  qed
  have all: "ch \<in> set (closedStreams s1) \<or> dualStreamChan s1 = Some ch \<or> (\<exists>q \<in> set ?ts. owning q = Some ch)"
    if ch: "ch < nextStream s1" for ch
  proof (cases "ch < nextStream s")
    case False
    then have "owning pc = Some ch" using k ch by (auto simp: less_Suc_eq)
    then show ?thesis using new by blast
  next
    case True
    from o(3) [OF this] consider "ch \<in> set (closedStreams s)" | "dualStreamChan s = Some ch" | q where "q \<in> set (threads s)" "owning q = Some ch"
      by blast
    then show ?thesis
    proof cases
      case 1
      then show ?thesis using k by blast
    next
      case 2
      then have "owning ?old = None" using o(2) [OF mem] by (cases "owning ?old") auto
      then show ?thesis using k 2 by blast
    next
      case 3
      show ?thesis
      proof (cases "q = ?old")
        case True
        then show ?thesis using k 3(2) new by blast
      next
        case False
        then show ?thesis using others [OF 3(1)] 3(2) by blast
      qed
    qed
  qed
  show ?thesis unfolding no_orphan_def using c own all by simp
qed

lemma orphan_spawn:
  assumes ok: "no_orphan s" and "owning pc = None" and "starting pc \<Longrightarrow> \<not> list_ex starting (threads s)"
    and "threads s' = threads s @ [pc]" "dualStreamChan s' = dualStreamChan s" "nextStream s' = nextStream s" "closedStreams s' = closedStreams s"
  shows "no_orphan s'"
proof -
  have "length (filter starting (threads s @ [pc])) \<le> 1"
    using ok assms(3) by (cases "starting pc") (auto simp: no_orphan_def not_any)
  then show ?thesis using ok assms(2,4-7) by (auto simp: no_orphan_def)
qed

lemma orphan_act:
  assumes act: "tq_act True a s = Some s'" and ok: "no_orphan s"
  shows "no_orphan s'"
proof (cases a)
  case (Thread i b)
  then obtain pc s1 where "i < length (threads s)" "tq_thread b (threads s ! i) s = Some (pc, s1)" "s' = s1\<lparr>threads := (threads s)[i := pc]\<rparr>"
    using act by (auto split: if_splits option.splits prod.splits)
  then show ?thesis using orphan_thread [OF ok] by simp
next
  case (Consume b)
  have "threads s' = threads s \<and> dualStreamChan s' = dualStreamChan s \<and> nextStream s' = nextStream s \<and> closedStreams s' = closedStreams s"
    using Consume act by (cases "consumer s") (auto simp: processTTSQueue_def waitForMediaPlaybackRelease_def dismissTTSQueueItem_def split: list.splits if_splits)
  then show ?thesis using ok unfolding no_orphan_def by metis
next
  case (TextResponse dual hook c)
  have "owning (call_entry dual hook c s) = None" by (simp add: call_entry_def split: prod.split)
  moreover have "s' = spawn (call_entry dual hook c s) s" "starting (call_entry dual hook c s) \<Longrightarrow> \<not> list_ex starting (threads s)"
    using TextResponse act by (simp_all add: Let_def split: if_splits)
  ultimately show ?thesis by (intro orphan_spawn [OF ok]) (simp_all add: spawn_def)
next
  case ClearTTSQueue
  then have "s' = spawn KLoad s" using act by (simp add: begin_media_def split: if_splits)
  then show ?thesis by (intro orphan_spawn [OF ok, of KLoad]) (simp_all add: spawn_def)
next
  case MediaBegin
  then have "s' = spawn KLoad (s\<lparr>mediaPlaybackActive := True\<rparr>)" using act by (simp add: begin_media_def split: if_splits)
  then show ?thesis by (intro orphan_spawn [OF ok, of KLoad]) (simp_all add: spawn_def)
qed (use act ok in \<open>clarsimp simp: no_orphan_def end_media_def\<close>)+

lemma orphan_run: "tq_run True as s = Some s' \<Longrightarrow> no_orphan s \<Longrightarrow> no_orphan s'"
  by (induction as arbitrary: s) (auto dest: orphan_act split: option.splits)


section \<open>What goes wrong when they overlap\<close>

definition hello :: text_call where
  "hello = \<lparr>RText = [72], IsStart = True, IsEnd = False, isSync = False, onTTSPlaybackStart = None, onTTSItemEnqueued = Some 5\<rparr>"

definition plain :: "text_call \<Rightarrow> text_call \<times> bool" where
  "plain c = (c, False)"

definition two_starts :: "tq_action list" where
  \<comment> \<open>two calls begin a stream; the first has its texts in when the second puts its own in place\<close>
  "two_starts =
     [TextResponse True plain hello, TextResponse True plain hello, Thread 0 True, Thread 1 True, Thread 0 True, Thread 1 True,
      Thread 0 True, Thread 1 True, Thread 0 True, Thread 1 True, Thread 0 True, Thread 1 True, Thread 0 True, Thread 1 True]"

text \<open>Fact: Two turns that begin at once leave a stream open. When two calls that begin a stream overlap, the second
  takes the place of the first in \<^verbatim>\<open>dualStreamChan\<close> without closing it; nobody knows the first stream any more,
  neither the end of its turn nor a clear closes it, and its worker waits until its context ends.\<close>

theorem overlapping_starts_orphan_a_stream:
  "case tq_run False (two_starts @ ClearTTSQueue # replicate 5 (Thread 2 True)) (new_tts_queue 1) of
     None \<Rightarrow> False
   | Some s \<Rightarrow> list_all (\<lambda>pc. pc = CDone) (threads s) \<and> nextStream s = 2 \<and> closedStreams s = [1] \<and> dualStreamChan s = None
       \<and> streamTexts s 0 = [[72]]"
  by code_simp

definition late_store :: "tq_action list" where
  \<comment> \<open>a clear loads the number 0; a text is queued and taken; a second clear runs to its end; the first one stores\<close>
  "late_store =
     [ClearTTSQueue, Thread 0 True, TextResponse False plain hello, Thread 1 True, Thread 1 True, Consume True, Consume True, Consume True,
      ClearTTSQueue, Thread 2 True, Thread 2 True, Thread 2 True, Thread 2 True, Thread 2 True, Thread 0 True]"

text \<open>Fact: A clear can undo another. \<^verbatim>\<open>ClearTTSQueue\<close> loads the last number and stores it in two operations; when a
  second clear begins and ends between them, the first one sets \<^verbatim>\<open>droppedTTSSeq\<close> back, and an item that the second
  one had dropped is started after it.\<close>

theorem overlapping_clears_revive_an_item:
  "case tq_run False late_store (new_tts_queue 1) of
     None \<Rightarrow> False
   | Some s \<Rightarrow> threads s ! 2 = CDone \<and> started s = [] \<and> map_option started (tq_act False (Consume True) s) = Some [1]"
  by code_simp

section \<open>Examples\<close>

definition one_clear_run :: "tq_action list" where
  "one_clear_run = [TextResponse True plain hello, Thread 0 True, Thread 0 True, Thread 0 True, Thread 0 True, Consume True]"

lemma items_in_one_place_witness:
  "\<exists>s. tq_run True one_clear_run (new_tts_queue 1) = Some s \<and> ttsQueueSeq s = 1
     \<and> mset (concat (map numbers (threads s))) + mset (map enqueueSeq (ttsQueue s)) + mset (taken (consumer s))
        + mset (started s) + mset (dismissed s) + mset (refused s) = mset [1..<2]"
proof -
  let ?s = "the (tq_run True one_clear_run (new_tts_queue 1))"
  have d: "tq_run True one_clear_run (new_tts_queue 1) \<noteq> None \<and> ttsQueueSeq ?s = 1"
    by (simp add: one_clear_run_def new_tts_queue_def plain_def hello_def call_entry_def spawn_def tq_steps processTTSQueue_def waitForMediaPlaybackRelease_def
        hasText_def TrimSpace_def trim_by_def is_space_def in_ranges_def safeCloseLLMResponseStream_def Let_def)
  then have r: "tq_run True one_clear_run (new_tts_queue 1) = Some ?s" by simp
  from items_in_one_place [OF r] show ?thesis using d r by (metis One_nat_def Suc_1)
qed

definition queue_at :: "tq_action list \<Rightarrow> tts_queue" where
  "queue_at as = the (tq_run True as (new_tts_queue 1))"

definition cleared_run :: "tq_action list" where
  "cleared_run = one_clear_run @ ClearTTSQueue # replicate 5 (Thread 1 True)"

lemma tq_run_append: "tq_run b (as @ bs) s = (case tq_run b as s of None \<Rightarrow> None | Some s \<Rightarrow> tq_run b bs s)"
  by (induction as arbitrary: s) (auto split: option.splits)

lemma is_some: "\<not> Option.is_none x \<Longrightarrow> x = Some (the x)"
  by (cases x) simp_all



end
