(* ===== verification/Llm_Request.thy ===== *)
theory Llm_Request
  imports Dialogue Client_State
begin

text \<open>
  The request that a turn sends to the language model, as \<^verbatim>\<open>GetMessages\<close> of \<^verbatim>\<open>llm.go\<close> puts it together: the system
  prompt with its parts, the history or the messages of the current round of tools, and the message of the user.
\<close>

section \<open>The system prompt\<close>

definition lower :: "rune \<Rightarrow> rune" where
  "lower r = (if 65 \<le> r \<and> r \<le> 90 then r + 32 else r)"

definition equal_fold :: "gostr \<Rightarrow> gostr \<Rightarrow> bool" where
  \<comment> \<open>\<^verbatim>\<open>strings.EqualFold\<close> against a word of the letters a to j, l to r and t to z\<close>
  "equal_fold s w \<longleftrightarrow> map lower s = w"

record knowledge_base =
  kbID :: nat
  kbName :: gostr
  kbDescription :: gostr
  ExternalKBID :: gostr
  kbStatus :: gostr

definition kb_entry :: "(nat \<Rightarrow> gostr) \<Rightarrow> knowledge_base \<Rightarrow> gostr option" where
  \<comment> \<open>\<open>decimal\<close> is the verb \<^verbatim>\<open>%d\<close>; \<open>None\<close> where the loop goes on with the next one\<close>
  "kb_entry decimal kb =
     (if equal_fold (TrimSpace (kbStatus kb)) (runes ''inactive'') then None
      else if TrimSpace (ExternalKBID kb) = [] then None
      else (let name = (if TrimSpace (kbName kb) = [] then TrimSpace (ExternalKBID kb) else TrimSpace (kbName kb));
                desc = (if TrimSpace (kbDescription kb) = [] then runes ''no description'' else TrimSpace (kbDescription kb))
            in if name = [] then None
               else if kbID kb = 0 then None
               else Some (decimal (kbID kb) @ runes '': name='' @ name @ runes ''; description='' @ desc)))"

fun available_kbs :: "(nat \<Rightarrow> gostr) \<Rightarrow> gostr list \<Rightarrow> knowledge_base list \<Rightarrow> gostr list" where
  "available_kbs decimal acc [] = acc"
| "available_kbs decimal acc (kb # kbs) =
     (case kb_entry decimal kb of
        None \<Rightarrow> available_kbs decimal acc kbs
      | Some e \<Rightarrow> (if length acc + 1 \<ge> 8 then acc @ [e] else available_kbs decimal (acc @ [e]) kbs))"

definition buildKnowledgeSearchRoutingPolicy :: "(nat \<Rightarrow> gostr) \<Rightarrow> (gostr list \<Rightarrow> gostr) \<Rightarrow> knowledge_base list \<Rightarrow> gostr" where
  \<comment> \<open>\<open>rules\<close> sets the entries into the fixed text of the rules\<close>
  "buildKnowledgeSearchRoutingPolicy decimal rules kbs =
     (if kbs = [] then []
      else (let available = available_kbs decimal [] kbs in if available = [] then [] else rules available))"

record request_env =
  reMode :: memory_mode
  SystemPrompt :: gostr
  globalPrompt :: gostr
  clockText :: gostr                  \<comment> \<open>date and weekday\<close>
  MemoryContext :: gostr
  speakerPrompt :: "gostr option"     \<comment> \<open>the prompt of the group of an identified speaker, when there is one\<close>
  searchMemory :: "(gostr \<Rightarrow> gostr) option"  \<comment> \<open>the memory provider\<close>
  knowledgePolicy :: gostr
  history :: messages
  toolRound :: messages

definition system_prompt :: "request_env \<Rightarrow> message option \<Rightarrow> gostr" where
  "system_prompt env userMessage =
     (let p = SystemPrompt env; g = TrimSpace (globalPrompt env);
          p = (if g = [] then p else if p \<noteq> [] then g @ [10, 10] @ p else g);
          p = p @ [10] @ runes ''current time and date: '' @ clockText env;
          p = (if reMode env = MemoryModeLong \<and> MemoryContext env \<noteq> []
               then p @ [10] @ runes ''user personalized info: '' @ [10] @ MemoryContext env else p);
          p = (case speakerPrompt env of
                 Some s \<Rightarrow>
                   if s \<noteq> [] then p @ [10] @ runes ''based on speaker recognition, identified speaker info: '' @ [10] @ s else p
               | None \<Rightarrow> p);
          p = (case (searchMemory env, userMessage) of
                 (Some search, Some u) \<Rightarrow>
                   if reMode env = MemoryModeLong \<and> search (Content u) \<noteq> []
                   then p @ [10] @ runes ''related historical info: '' @ [10] @ search (Content u) else p
               | _ \<Rightarrow> p)
      in p @ knowledgePolicy env)"

section \<open>The messages\<close>

fun trim_trailing :: "messages \<Rightarrow> messages" where
  \<comment> \<open>on the reversed list\<close>
  "trim_trailing (Some m # ms) = (if Role m = User then trim_trailing ms else Some m # ms)"
| "trim_trailing ms = ms"

definition trimTrailingUserMessages :: "messages \<Rightarrow> messages" where
  "trimTrailingUserMessages ms = rev (trim_trailing (rev ms))"

definition isInterruptedMessage :: "message \<Rightarrow> bool" where
  "isInterruptedMessage m =
     (case Interrupt m of
        Some (ExtraBool b) \<Rightarrow> b
      | Some (ExtraString s) \<Rightarrow> equal_fold (TrimSpace s) (runes ''true'')
      | _ \<Rightarrow> False)"

definition interruptContentSuffix :: gostr where
  "interruptContentSuffix = runes '' [user interrupted]''"

definition has_suffix :: "gostr \<Rightarrow> gostr \<Rightarrow> bool" where
  "has_suffix s t \<longleftrightarrow> length t \<le> length s \<and> drop (length s - length t) s = t"

definition decorateInterruptedContent :: "gostr \<Rightarrow> gostr" where
  "decorateInterruptedContent c =
     (if TrimSpace c = [] then c else if has_suffix c interruptContentSuffix then c else c @ interruptContentSuffix)"

definition empty_assistant :: "message \<Rightarrow> bool" where
  "empty_assistant m \<longleftrightarrow> Role m = Assistant \<and> Content m = [] \<and> ToolCalls m = []"

definition requested :: "message \<Rightarrow> message" where
  "requested m = (if isInterruptedMessage m then m\<lparr>Content := decorateInterruptedContent (Content m)\<rparr> else m)"

fun request_messages :: "messages \<Rightarrow> messages" where
  \<comment> \<open>a nil message stays nil\<close>
  "request_messages [] = []"
| "request_messages (None # ms) = None # request_messages ms"
| "request_messages (Some m # ms) = (if empty_assistant m then request_messages ms else Some (requested m) # request_messages ms)"

definition system_message :: "gostr \<Rightarrow> message" where
  "system_message p = \<lparr>Role = System, Content = p, ToolCalls = [], ToolCallID = '''', Interrupt = None\<rparr>"

definition request_base :: "int \<Rightarrow> request_env \<Rightarrow> message option \<Rightarrow> messages option" where
  "request_base n env userMessage =
     (if reMode env \<noteq> MemoryModeNone then
        (case GetMessages (history env) n of
           None \<Rightarrow> None
         | Some ms \<Rightarrow> Some (if userMessage \<noteq> None then trimTrailingUserMessages ms else ms))
      else Some (filter (\<lambda>m. m \<noteq> None) (toolRound env)))"

definition llm_GetMessages :: "int \<Rightarrow> request_env \<Rightarrow> message option \<Rightarrow> messages option" where
  \<comment> \<open>\<open>None\<close> is a panic\<close>
  "llm_GetMessages n env userMessage =
     (case request_base n env userMessage of
        None \<Rightarrow> None
      | Some messageList \<Rightarrow>
          (let ret = Some (system_message (system_prompt env userMessage)) # request_messages messageList
           in case userMessage of
                None \<Rightarrow> Some ret
              | Some u \<Rightarrow>
                  (case last ret of
                     None \<Rightarrow> None
                   | Some l \<Rightarrow> Some (if Role l = User \<and> Content l = Content u then ret else ret @ [Some u]))))"

definition MaxMessageCount :: int where "MaxMessageCount = 10"

section \<open>Knowledge bases\<close>

lemma available_kbs_take:
  "length acc < 8 \<Longrightarrow> available_kbs decimal acc kbs = take 8 (acc @ List.map_filter (kb_entry decimal) kbs)"
proof (induction kbs arbitrary: acc)
  case Nil
  then show ?case by (simp add: List.map_filter_simps)
next
  case (Cons kb kbs)
  show ?case
  proof (cases "kb_entry decimal kb")
    case None
    then show ?thesis using Cons by (simp add: List.map_filter_simps)
  next
    case (Some e)
    show ?thesis
    proof (cases "length acc + 1 \<ge> 8")
      case True
      then have "length acc = 7" using Cons.prems by simp
      then show ?thesis using Some by (simp add: List.map_filter_simps)
    next
      case False
      then show ?thesis using Some Cons.IH [of "acc @ [e]"] by (simp add: List.map_filter_simps)
    qed
  qed
qed

text \<open>Fact: The rules on knowledge bases name the first eight usable ones. What the loop collects are the entries of
  the active knowledge bases with an external identifier and a number, in their order, cut off after eight; without
  any the prompt says nothing about knowledge bases.\<close>

theorem knowledge_policy_names_first_eight:
  "buildKnowledgeSearchRoutingPolicy decimal rules kbs =
     (let usable = filter (\<lambda>kb. \<not> equal_fold (TrimSpace (kbStatus kb)) (runes ''inactive'') \<and> TrimSpace (ExternalKBID kb) \<noteq> []
                     \<and> kbID kb \<noteq> 0) kbs
      in if usable = [] then [] else rules (map (\<lambda>kb. the (kb_entry decimal kb)) (take 8 usable)))"
proof -
  let ?p = "\<lambda>kb. \<not> equal_fold (TrimSpace (kbStatus kb)) (runes ''inactive'') \<and> TrimSpace (ExternalKBID kb) \<noteq> [] \<and> kbID kb \<noteq> 0"
  have entry: "kb_entry decimal kb \<noteq> None \<longleftrightarrow> ?p kb" for kb by (simp add: kb_entry_def Let_def)
  have "List.map_filter (kb_entry decimal) kbs = map (\<lambda>kb. the (kb_entry decimal kb)) (filter ?p kbs)"
    using entry by (simp add: List.map_filter_def comp_def cong: filter_cong)
  then have a: "available_kbs decimal [] kbs = map (\<lambda>kb. the (kb_entry decimal kb)) (take 8 (filter ?p kbs))"
    by (simp add: available_kbs_take take_map)
  have "buildKnowledgeSearchRoutingPolicy decimal rules kbs
      = (let available = available_kbs decimal [] kbs in if available = [] then [] else rules available)"
    by (simp add: buildKnowledgeSearchRoutingPolicy_def)
  then show ?thesis unfolding a Let_def by simp
qed

section \<open>Interrupted messages\<close>

lemma has_suffix_append: "has_suffix (s @ t) t"
  by (simp add: has_suffix_def)

lemma decorate_idem: "decorateInterruptedContent (decorateInterruptedContent c) = decorateInterruptedContent c"
proof (cases "TrimSpace c = [] \<or> has_suffix c interruptContentSuffix")
  case True
  then show ?thesis by (auto simp: decorateInterruptedContent_def)
next
  case False
  then have "decorateInterruptedContent c = c @ interruptContentSuffix" by (simp add: decorateInterruptedContent_def)
  then show ?thesis by (simp add: decorateInterruptedContent_def has_suffix_append)
qed

section \<open>The request\<close>

lemma trim_trailing_set: "set (trim_trailing ms) \<subseteq> set ms \<and> (\<forall>m. m \<in> set ms \<longrightarrow> m \<in> set (trim_trailing ms) \<or> (\<exists>u. m = Some u \<and> Role u = User))"
  by (induction ms rule: trim_trailing.induct) auto

lemma request_set: "Some x \<in> set (request_messages ms) \<longleftrightarrow> (\<exists>m. Some m \<in> set ms \<and> \<not> empty_assistant m \<and> x = requested m)"
  by (induction ms rule: request_messages.induct) auto

lemma requested_fields [simp]: "Role (requested m) = Role m" "ToolCalls (requested m) = ToolCalls m" "ToolCallID (requested m) = ToolCallID m"
  by (simp_all add: requested_def)

lemma requested_not_empty: "\<not> empty_assistant m \<Longrightarrow> \<not> empty_assistant (requested m)"
  by (auto simp: empty_assistant_def requested_def decorateInterruptedContent_def)

lemma trim_set: "Some m \<in> set (trimTrailingUserMessages ms) \<Longrightarrow> Some m \<in> set ms"
  "Some m \<in> set ms \<Longrightarrow> Role m \<noteq> User \<Longrightarrow> Some m \<in> set (trimTrailingUserMessages ms)"
  using trim_trailing_set [of "rev ms"] by (auto simp: trimTrailingUserMessages_def)

lemma tools_answered:
  assumes "\<forall>m. Some m \<in> set ms \<longrightarrow> Some m \<in> set (AlignToolMessages h)"
    and keep: "\<forall>m. Some m \<in> set (AlignToolMessages h) \<longrightarrow> Role m \<noteq> User \<longrightarrow> Some m \<in> set ms"
  shows "Some x \<in> set (request_messages ms) \<Longrightarrow> Role x = Tool \<Longrightarrow>
      \<exists>a tc. Some a \<in> set (request_messages ms) \<and> calls_tools a \<and> tc \<in> set (ToolCalls a) \<and> ID tc = ToolCallID x"
    and "Some a \<in> set (request_messages ms) \<Longrightarrow> calls_tools a \<Longrightarrow>
      \<exists>x tc. Some x \<in> set (request_messages ms) \<and> Role x = Tool \<and> tc \<in> set (ToolCalls a) \<and> ID tc = ToolCallID x"
proof -
  assume x: "Some x \<in> set (request_messages ms)" and tool: "Role x = Tool"
  then obtain m where m: "Some m \<in> set ms" "x = requested m" "Role m = Tool" by (auto simp: request_set)
  have "Some m \<in> set (AlignToolMessages h)" using assms(1) m(1) by simp
  then have i: "ToolCallID m \<noteq> ''''" "validToolCallIDs h (ToolCallID m)" "usedToolCallIDs h (ToolCallID m)"
    using m(3) by (auto simp: kept_tool_iff usedToolCallIDs_iff)
  then have "validToolCallIDs (AlignToolMessages h) (ToolCallID m)" by (intro valid_align)
  then obtain a tc where a: "Some a \<in> set (AlignToolMessages h)" "calls_tools a" "tc \<in> set (ToolCalls a)" "ID tc = ToolCallID m"
    by (auto simp: validToolCallIDs_iff)
  then have "Some a \<in> set ms" using keep by (simp add: calls_tools_def)
  moreover have "\<not> empty_assistant a" using a(2) by (simp add: calls_tools_def empty_assistant_def)
  ultimately have "Some (requested a) \<in> set (request_messages ms)" by (auto simp: request_set)
  moreover have "calls_tools (requested a)" using a(2) by (simp add: calls_tools_def)
  ultimately show "\<exists>a tc. Some a \<in> set (request_messages ms) \<and> calls_tools a \<and> tc \<in> set (ToolCalls a) \<and> ID tc = ToolCallID x"
    using a(3,4) m(2) requested_fields by metis
next
  assume r: "Some a \<in> set (request_messages ms)" and c: "calls_tools a"
  then obtain m where m: "Some m \<in> set ms" "a = requested m" by (auto simp: request_set)
  then have cm: "calls_tools m" using c by (simp add: calls_tools_def)
  have "Some m \<in> set (AlignToolMessages h)" using assms(1) m(1) by simp
  then obtain tc where tc: "tc \<in> set (ToolCalls m)" "ID tc \<noteq> ''''" "usedToolCallIDs h (ID tc)" "Some m \<in> set h"
    using cm by (auto simp: kept_caller_iff)
  then have v: "validToolCallIDs h (ID tc)" using cm by (auto simp: validToolCallIDs_iff)
  obtain x where x: "Some x \<in> set h" "Role x = Tool" "ToolCallID x = ID tc" using tc(3) by (auto simp: usedToolCallIDs_iff)
  then have "Some x \<in> set (AlignToolMessages h)" using v tc(2) by (simp add: kept_tool_iff)
  then have "Some x \<in> set ms" using keep x(2) by simp
  moreover have "\<not> empty_assistant x" using x(2) by (simp add: empty_assistant_def)
  ultimately have "Some (requested x) \<in> set (request_messages ms)" by (auto simp: request_set)
  then show "\<exists>x tc. Some x \<in> set (request_messages ms) \<and> Role x = Tool \<and> tc \<in> set (ToolCalls a) \<and> ID tc = ToolCallID x"
    using x tc(1) m(2) requested_fields by metis
qed


text \<open>Fact: Without memory nothing is remembered. In the mode without memory the request depends neither on the history
  nor on what is known about the user, only on the prompt, the messages of the current round of tools and the message
  of the user.\<close>

theorem no_memory_no_history:
  assumes "reMode env = MemoryModeNone"
  shows "llm_GetMessages n (env\<lparr>history := h, MemoryContext := c, searchMemory := p\<rparr>) u = llm_GetMessages n env u"
proof -
  have "system_prompt (env\<lparr>history := h, MemoryContext := c, searchMemory := p\<rparr>) u = system_prompt env u"
    using assms by (simp add: system_prompt_def Let_def split: option.split)
  then show ?thesis using assms by (simp add: llm_GetMessages_def request_base_def)
qed

section \<open>Examples\<close>

definition an_env :: "memory_mode \<Rightarrow> request_env" where
  "an_env m = \<lparr>reMode = m, SystemPrompt = [80], globalPrompt = [], clockText = [49], MemoryContext = [], speakerPrompt = None,
     searchMemory = None, knowledgePolicy = [], history = [caller [''a''], tool_answer ''a'', tool_answer ''b''], toolRound = []\<rparr>"

definition question :: message where
  "question = \<lparr>Role = User, Content = [63], ToolCalls = [], ToolCallID = '''', Interrupt = None\<rparr>"


lemma no_memory_no_history_witness:
  "llm_GetMessages 10 ((an_env MemoryModeNone)\<lparr>history := [], MemoryContext := [1], searchMemory := None\<rparr>) (Some question)
     = llm_GetMessages 10 (an_env MemoryModeNone) (Some question)"
  by (rule no_memory_no_history) (simp add: an_env_def)

end
