(* ===== verification/Tool_Calls.thy ===== *)
theory Tool_Calls
  imports Llm_Request
begin

text \<open>
  The calls of tools of a turn, \<^verbatim>\<open>tool.go\<close>: the executor that runs each submitted call once, in a goroutine of its own,
  and returns the results in the order of submission, and the reading of a tool's result. What a tool does is a
  parameter: how its run ends.
\<close>

section \<open>Results of tools\<close>

datatype mcp_response =
    ActionResponse string gostr bool bool bool  \<comment> \<open>action, message; final, no further response, silence\<close>
  | AudioResponse gostr bytes
  | ContentResponse gostr
  | ErrorResponse gostr

datatype tool_content =
    AudioContent bool   \<comment> \<open>whether the player takes it\<close>
  | ResourceLink bool
  | TextContent gostr
  | OtherContent

datatype tool_run =
    NoSuchTool
  | RunFailed gostr
  | LocalResult gostr mcp_response bool  \<comment> \<open>its text, what \<^verbatim>\<open>ParseMCPResponse\<close> makes of it, whether the player takes its audio\<close>
  | RemoteResult gostr "tool_content list"  \<comment> \<open>its text, and the content of \<^verbatim>\<open>handleToolResult\<close>\<close>

record tool_result =
  order :: nat
  resultMessage :: message
  invokeToolSuccess :: bool
  findExitTool :: bool
  shouldStopLLMProcessing :: bool
  hasMediaOutput :: bool

fun GetContent :: "bool \<Rightarrow> mcp_response \<Rightarrow> tool_content list" where
  "GetContent ok (ActionResponse action msg fin nofurther silence) = [TextContent msg]"
| "GetContent ok (AudioResponse name bytes) = [TextContent name, AudioContent ok]"
| "GetContent ok (ContentResponse msg) = [TextContent msg]"
| "GetContent ok (ErrorResponse msg) = [TextContent msg]"

fun exits_conversation :: "mcp_response \<Rightarrow> bool" where
  "exits_conversation (ActionResponse action msg fin nofurther silence) = (action = ''exit_conversation'')"
| "exits_conversation _ = False"

fun stops_llm :: "mcp_response \<Rightarrow> bool" where
  "stops_llm (ActionResponse action msg fin nofurther silence) = (fin \<or> nofurther \<or> silence)"
| "stops_llm _ = False"

fun read_contents :: "gostr \<Rightarrow> tool_content list \<Rightarrow> gostr \<times> bool" where
  \<comment> \<open>the text, and whether media were started, which ends the loop\<close>
  "read_contents acc [] = (acc, False)"
| "read_contents acc (AudioContent ok # cs) = (runes (if ok then ''execute successful'' else ''execute failed''), True)"
| "read_contents acc (ResourceLink ok # cs) = (runes (if ok then ''execute successful'' else ''execute failed''), True)"
| "read_contents acc (TextContent t # cs) = read_contents (acc @ t) cs"
| "read_contents acc (OtherContent # cs) = read_contents acc cs"

definition tool_message :: "tool_call \<Rightarrow> gostr \<Rightarrow> message" where
  "tool_message tc content = \<lparr>Role = Tool, Content = content, ToolCalls = [], ToolCallID = ID tc, Interrupt = None\<rparr>"

definition failed_call :: "nat \<Rightarrow> tool_call \<Rightarrow> gostr \<Rightarrow> tool_result" where
  "failed_call k tc content =
     \<lparr>order = k, resultMessage = tool_message tc content, invokeToolSuccess = False, findExitTool = False,
      shouldStopLLMProcessing = False, hasMediaOutput = False\<rparr>"

definition executeToolCall :: "nat \<Rightarrow> tool_call \<Rightarrow> tool_run \<Rightarrow> tool_result" where
  "executeToolCall k tc run =
     (case run of
        NoSuchTool \<Rightarrow> failed_call k tc (runes ''not found tool: '' @ runes (Function tc))
      | RunFailed err \<Rightarrow> failed_call k tc (runes ''tool '' @ runes (Function tc) @ runes '' call failed: '' @ err)
      | _ \<Rightarrow>
          (let (raw, contents, exit, stop) =
                 (case run of
                    LocalResult raw r ok \<Rightarrow> (raw, GetContent ok r, exits_conversation r, stops_llm r)
                  | RemoteResult raw cs \<Rightarrow> (raw, cs, False, False)
                  | _ \<Rightarrow> ([], [], False, False));
               (text, media) = read_contents [] contents
           in \<lparr>order = k, resultMessage = tool_message tc (if text \<noteq> [] then text else raw), invokeToolSuccess = True,
               findExitTool = exit, shouldStopLLMProcessing = stop \<or> media, hasMediaOutput = media\<rparr>))"

section \<open>The executor\<close>

definition call_key :: "tool_call \<Rightarrow> string" where
  "call_key tc = (if ID tc = '''' then ''auto_'' @ Function tc @ ''_'' @ Arguments tc else ID tc)"

fun Submit :: "tool_call list \<Rightarrow> tool_call list \<Rightarrow> tool_call list" where
  \<comment> \<open>the calls submitted so far, in the order of their numbers, each key once\<close>
  "Submit submitted [] = submitted"
| "Submit submitted (tc # tcs) =
     (if call_key tc \<in> call_key ` set submitted then Submit submitted tcs else Submit (submitted @ [tc]) tcs)"

definition Wait :: "tool_result list \<Rightarrow> tool_result list" where
  \<comment> \<open>of the results in the order in which the goroutines came to their end\<close>
  "Wait results = sort_key order results"

definition run_all :: "(nat \<Rightarrow> tool_run) \<Rightarrow> tool_call list \<Rightarrow> tool_result list" where
  "run_all runs submitted = map (\<lambda>(k, tc). executeToolCall k tc (runs k)) (enumerate 0 submitted)"

section \<open>Lemmas\<close>

lemma order_executeToolCall [simp]: "order (executeToolCall k tc run) = k"
  by (simp add: executeToolCall_def failed_call_def Let_def split: tool_run.split prod.split)

lemma message_executeToolCall [simp]:
  "Role (resultMessage (executeToolCall k tc run)) = Tool" "ToolCallID (resultMessage (executeToolCall k tc run)) = ID tc"
  "ToolCalls (resultMessage (executeToolCall k tc run)) = []"
  by (simp_all add: executeToolCall_def failed_call_def tool_message_def Let_def split: tool_run.split prod.split)

lemma orders_run_all: "map order (run_all runs tcs) = [0..<length tcs]"
  by (simp add: run_all_def case_prod_beta comp_def enumerate_eq_zip)

text \<open>Fact: The results of tools come in the order of the calls. However the goroutines of the executor overlap, its
  results are those of the submitted calls, one each, in the order in which they were submitted.\<close>

theorem tool_results_in_order:
  assumes "mset results = mset (run_all runs submitted)"
  shows "Wait results = run_all runs submitted"
proof -
  have "sorted (map order (run_all runs submitted))" "distinct (map order (run_all runs submitted))"
    by (simp_all add: orders_run_all)
  moreover have "distinct (map order results)"
    using assms calculation(2) by (metis distinct_map mset_map mset_eq_imp_distinct_iff)
  ultimately show ?thesis
    unfolding Wait_def using assms
    by (metis distinct_map mset_sort set_mset_mset sort_key_inj_key_eq sorted_sort_id properties_for_sort_key)
qed

lemma tool_results_in_order_witness:
  "Wait (rev (run_all (\<lambda>k. NoSuchTool) [\<lparr>ID = ''a'', Function = ''f'', Arguments = ''''\<rparr>, \<lparr>ID = ''b'', Function = ''g'', Arguments = ''''\<rparr>]))
    = run_all (\<lambda>k. NoSuchTool) [\<lparr>ID = ''a'', Function = ''f'', Arguments = ''''\<rparr>, \<lparr>ID = ''b'', Function = ''g'', Arguments = ''''\<rparr>]"
  by (rule tool_results_in_order) simp

end
