(* ===== verification/Llm_Turn.thy ===== *)
theory Llm_Turn
  imports Tool_Calls "HOL-Library.Sublist"
begin

text \<open>
  A turn of the language model, \<^verbatim>\<open>handleLLMResponse\<close> of \<^verbatim>\<open>llm.go\<close> with \<^verbatim>\<open>handleToolCallResponse\<close> of \<^verbatim>\<open>tool.go\<close>:
  the responses of a round are spoken and collected, the tools they call are run, and when a tool has succeeded a
  further round is requested with their results. The environment of a round is what its channel delivers, how its
  tools end, and what becomes of the request that begins it.
\<close>

section \<open>State and environment\<close>

record llm_response =
  lrText :: gostr
  lrToolCalls :: "tool_call list"
  lrIsStart :: bool
  lrIsEnd :: bool

datatype llm_answer =
    Response llm_response bool  \<comment> \<open>whether the speech queue takes its text\<close>
  | ResponsesClosed
  | CtxDone

datatype request_fate = Stopped | Failed | Sent  \<comment> \<open>by the hook; by the provider\<close>

record llm_round =
  fate :: request_fate
  llmAnswers :: "llm_answer list"
  toolRuns :: "nat \<Rightarrow> tool_run"
  repeatOk :: bool

record turn =
  fullText :: gostr
  memory :: messages
  roundMessages :: messages  \<comment> \<open>those of the context, in the mode without memory\<close>
  spoken :: "(gostr \<times> bool \<times> bool) list"
  exitEvents :: nat
  llmRequests :: "messages option list"

datatype loop_end = LoopWaiting | LoopCancelled | LoopClosed | LoopSpeechFailed | LoopEnded llm_response

definition speak :: "llm_response \<Rightarrow> turn \<Rightarrow> turn" where
  "speak r s = s\<lparr>spoken := spoken s @ [(lrText r, lrIsStart r, lrIsEnd r)]\<rparr>"

definition remember :: "message \<Rightarrow> turn \<Rightarrow> turn" where
  \<comment> \<open>\<^verbatim>\<open>AddLlmMessage\<close>\<close>
  "remember m s = s\<lparr>memory := AddMessage (memory s) (Some m)\<rparr>"

definition assistant_message :: "gostr \<Rightarrow> tool_call list \<Rightarrow> message" where
  "assistant_message t tcs = \<lparr>Role = Assistant, Content = t, ToolCalls = tcs, ToolCallID = '''', Interrupt = None\<rparr>"

definition saveInterruptedAssistant :: "turn \<Rightarrow> turn" where
  "saveInterruptedAssistant s =
     (if TrimSpace (fullText s) = [] then s
      else remember ((assistant_message (TrimSpace (fullText s)) [])\<lparr>Interrupt := Some (ExtraBool True)\<rparr>) s)"

section \<open>The responses of a round\<close>

fun response_loop :: "llm_answer list \<Rightarrow> tool_call list \<Rightarrow> tool_call list \<Rightarrow> turn
    \<Rightarrow> tool_call list \<times> tool_call list \<times> turn \<times> loop_end" where
  \<comment> \<open>with the calls of the round, and those submitted to its executor\<close>
  "response_loop [] calls submitted s = (calls, submitted, s, LoopWaiting)"
| "response_loop (CtxDone # as) calls submitted s = (calls, submitted, s, LoopCancelled)"
| "response_loop (ResponsesClosed # as) calls submitted s = (calls, submitted, s, LoopClosed)"
| "response_loop (Response r ok # as) calls submitted s =
     (let calls = calls @ lrToolCalls r;
          submitted = Submit submitted (lrToolCalls r);
          hasText = (TrimSpace (lrText r) \<noteq> []);
          speaks = (hasText \<or> lrIsStart r \<or> lrIsEnd r);
          s = (if speaks then speak r s else s)
      in if speaks \<and> \<not> ok then (calls, submitted, s, LoopSpeechFailed)
         else (let s = (if hasText then s\<lparr>fullText := fullText s @ lrText r\<rparr> else s)
               in if lrIsEnd r then (calls, submitted, s, LoopEnded r) else response_loop as calls submitted s))"

section \<open>The tools of a round\<close>

record tool_summary =
  anySuccess :: bool
  anyExit :: bool
  anyStop :: bool
  anyMedia :: bool

definition summary :: "tool_result list \<Rightarrow> tool_summary" where
  "summary rs =
     \<lparr>anySuccess = list_ex invokeToolSuccess rs, anyExit = list_ex findExitTool rs, anyStop = list_ex shouldStopLLMProcessing rs,
      anyMedia = list_ex hasMediaOutput rs\<rparr>"

definition tool_messages :: "message \<Rightarrow> tool_result list \<Rightarrow> message list" where
  "tool_messages resp rs = (if Content resp \<noteq> [] \<or> ToolCalls resp \<noteq> [] then [resp] else []) @ map resultMessage rs"

definition save_round :: "memory_mode \<Rightarrow> message list \<Rightarrow> turn \<Rightarrow> turn" where
  "save_round mode ms s =
     (let s = foldl (\<lambda>s m. if empty_assistant m then s else remember m s) s ms
      in if mode = MemoryModeNone then s\<lparr>roundMessages := roundMessages s @ map Some ms\<rparr> else s)"

definition request_env_of :: "request_env \<Rightarrow> turn \<Rightarrow> request_env" where
  "request_env_of env s = env\<lparr>history := memory s, toolRound := roundMessages s\<rparr>"

definition DoLLmRequest :: "request_env \<Rightarrow> message option \<Rightarrow> turn \<Rightarrow> turn" where
  \<comment> \<open>the messages that are put together for the request\<close>
  "DoLLmRequest env u s = s\<lparr>llmRequests := llmRequests s @ [llm_GetMessages MaxMessageCount (request_env_of env s) u]\<rparr>"

section \<open>A turn\<close>

record turn_result =
  resultOk :: bool
  suppressProtocolTtsStop :: bool
  resultErr :: bool
  waits :: bool

definition turn_result :: "bool \<Rightarrow> bool \<Rightarrow> bool \<Rightarrow> bool \<Rightarrow> turn_result" where
  "turn_result ok suppress err w = \<lparr>resultOk = ok, suppressProtocolTtsStop = suppress, resultErr = err, waits = w\<rparr>"

fun handleLLMResponse :: "request_env \<Rightarrow> llm_round list \<Rightarrow> turn \<Rightarrow> turn_result \<times> turn" where
  \<comment> \<open>the first of the rounds has been requested; its further rounds are requested by \<^verbatim>\<open>handleToolCallResponse\<close>, which drops
      their result\<close>
  "handleLLMResponse env [] s = (turn_result False False False True, s)"
| "handleLLMResponse env (rd # rds) s =
     (case response_loop (llmAnswers rd) [] [] s of
        (calls, submitted, s, LoopWaiting) \<Rightarrow> (turn_result False False False True, s)
      | (calls, submitted, s, LoopCancelled) \<Rightarrow> (turn_result False False False False, saveInterruptedAssistant s)
      | (calls, submitted, s, LoopClosed) \<Rightarrow> (turn_result True False False False, s)
      | (calls, submitted, s, LoopSpeechFailed) \<Rightarrow> (turn_result True False True False, s)
      | (calls, submitted, s, LoopEnded r) \<Rightarrow>
          (if calls = [] then
             (turn_result True False False False,
              if TrimSpace (fullText s) \<noteq> [] then remember (assistant_message (fullText s) []) s else s)
           else
             (let results = run_all (toolRuns rd) submitted;
                  sum = summary results;
                  s = save_round (reMode env) (tool_messages (assistant_message (fullText s) calls) results) s;
                  (w, s) =
                    (if anyExit sum then (False, s\<lparr>exitEvents := Suc (exitEvents s)\<rparr>)
                     else if anySuccess sum \<and> \<not> anyStop sum then
                       (case rds of
                          [] \<Rightarrow> (True, s)
                        | next # _ \<Rightarrow>
                            (if fate next = Sent
                             then (case handleLLMResponse env rds (DoLLmRequest env None s) of (res, s) \<Rightarrow> (waits res, s))
                             else (False, if fate next = Stopped then s else DoLLmRequest env None s)))
                     else (False, s))
              in if w then (turn_result False False False True, s)
                 else if \<not> anySuccess sum \<and> TrimSpace (lrText r) \<noteq> [] then
                   (let s = speak r s
                    in if repeatOk rd then (turn_result True (anyMedia sum) False False, s\<lparr>fullText := fullText s @ lrText r\<rparr>)
                       else (turn_result True (anyMedia sum) True False, s))
                 else (turn_result True (anyMedia sum) False False, s))))"

definition handle_turn :: "request_env \<Rightarrow> message option \<Rightarrow> llm_round list \<Rightarrow> turn \<Rightarrow> turn_result \<times> turn" where
  \<comment> \<open>with the message of the user in the context, in the mode without memory\<close>
  "handle_turn env u rds s =
     handleLLMResponse env rds
       (if reMode env = MemoryModeNone \<and> u \<noteq> None then s\<lparr>roundMessages := roundMessages s @ [u]\<rparr> else s)"

declare handleLLMResponse.simps [simp del]

section \<open>Submitted calls\<close>

lemma Submit_append: "Submit (Submit sub xs) ys = Submit sub (xs @ ys)"
  by (induction sub xs rule: Submit.induct) simp_all

lemma Submit_set: "set sub \<subseteq> set (Submit sub xs) \<and> set (Submit sub xs) \<subseteq> set sub \<union> set xs"
proof (induction sub xs rule: Submit.induct)
  case (2 submitted tc tcs)
  then show ?case by (cases "call_key tc \<in> call_key ` set submitted") auto
qed simp

lemma Submit_once:
  "\<exists>new. Submit sub xs = sub @ new \<and> subseq new xs \<and> call_key ` set (sub @ new) = call_key ` set (sub @ xs)
     \<and> (distinct (map call_key sub) \<longrightarrow> distinct (map call_key (sub @ new)))"
proof (induction sub xs rule: Submit.induct)
  case (2 submitted tc tcs)
  show ?case
  proof (cases "call_key tc \<in> call_key ` set submitted")
    case True
    then obtain new where n: "Submit submitted tcs = submitted @ new" "subseq new tcs"
        "call_key ` set (submitted @ new) = call_key ` set (submitted @ tcs)"
        "distinct (map call_key submitted) \<longrightarrow> distinct (map call_key (submitted @ new))" using 2 by blast
    moreover have "call_key ` set (submitted @ tcs) = call_key ` set (submitted @ tc # tcs)" using True by auto
    moreover have "Submit submitted (tc # tcs) = submitted @ new" using True n(1) by simp
    ultimately show ?thesis by (intro exI [of _ new]) (simp only: list_emb_Cons simp_thms)
  next
    case False
    then obtain new where n: "Submit (submitted @ [tc]) tcs = (submitted @ [tc]) @ new" "subseq new tcs"
        "call_key ` set ((submitted @ [tc]) @ new) = call_key ` set ((submitted @ [tc]) @ tcs)"
        "distinct (map call_key (submitted @ [tc])) \<longrightarrow> distinct (map call_key ((submitted @ [tc]) @ new))" using 2 by blast
    moreover have "distinct (map call_key submitted) \<longrightarrow> distinct (map call_key (submitted @ [tc]))" using False by auto
    ultimately show ?thesis using False by (intro exI [of _ "tc # new"]) simp
  qed
qed simp

definition answers :: "tool_call list \<Rightarrow> message list \<Rightarrow> bool" where
  \<comment> \<open>one message of a tool for each call, calls with the same key once, in the order of the calls\<close>
  "answers calls rs \<longleftrightarrow> list_all (\<lambda>r. Role r = Tool) rs
     \<and> (\<exists>cs. map ToolCallID rs = map ID cs \<and> subseq cs calls \<and> distinct (map call_key cs) \<and> call_key ` set cs = call_key ` set calls)"

lemma Submit_nonempty: "xs \<noteq> [] \<Longrightarrow> Submit [] xs \<noteq> []"
proof (cases xs)
  case (Cons x ys)
  then show ?thesis using Submit_set [of "[x]" ys] by auto
qed simp

lemma loop_frame:
  "response_loop as calls sub s = (calls', sub', s', e) \<Longrightarrow>
     memory s' = memory s \<and> roundMessages s' = roundMessages s \<and> exitEvents s' = exitEvents s \<and> llmRequests s' = llmRequests s
     \<and> (\<exists>new. calls' = calls @ new \<and> sub' = Submit sub new)"
proof (induction as arbitrary: calls sub s)
  case (Cons a as)
  show ?case
  proof (cases a)
    case (Response r ok)
    define s1 where "s1 = (if TrimSpace (lrText r) \<noteq> [] \<or> lrIsStart r \<or> lrIsEnd r then speak r s else s)"
    define s2 where "s2 = (if TrimSpace (lrText r) \<noteq> [] then s1\<lparr>fullText := fullText s1 @ lrText r\<rparr> else s1)"
    have f: "memory s1 = memory s" "roundMessages s1 = roundMessages s" "exitEvents s1 = exitEvents s" "llmRequests s1 = llmRequests s"
      "memory s2 = memory s" "roundMessages s2 = roundMessages s" "exitEvents s2 = exitEvents s" "llmRequests s2 = llmRequests s"
      by (simp_all add: s1_def s2_def speak_def)
    consider (out) "(calls', sub', s') = (calls @ lrToolCalls r, Submit sub (lrToolCalls r), s1)"
      | (fin) "(calls', sub', s') = (calls @ lrToolCalls r, Submit sub (lrToolCalls r), s2)"
      | (go) "response_loop as (calls @ lrToolCalls r) (Submit sub (lrToolCalls r)) s2 = (calls', sub', s', e)"
      using Cons.prems unfolding Response response_loop.simps Let_def s1_def [symmetric] s2_def [symmetric]
      by (auto split: if_splits)
    then show ?thesis
    proof cases
      case go
      from Cons.IH [OF this] obtain new where "calls' = (calls @ lrToolCalls r) @ new" "sub' = Submit (Submit sub (lrToolCalls r)) new"
          "memory s' = memory s2 \<and> roundMessages s' = roundMessages s2 \<and> exitEvents s' = exitEvents s2 \<and> llmRequests s' = llmRequests s2"
        by blast
      then show ?thesis using f Submit_append by (auto intro!: exI [of _ "lrToolCalls r @ new"])
    qed (use f in auto)
  qed (use Cons.prems in auto)
qed auto

section \<open>What is remembered\<close>

inductive tool_history :: "message list \<Rightarrow> bool" where
  th_nil: "tool_history []"
| th_last: "Role m = Assistant \<Longrightarrow> ToolCalls m = [] \<Longrightarrow> TrimSpace (Content m) \<noteq> [] \<Longrightarrow> tool_history [m]"
| th_round: "calls_tools a \<Longrightarrow> answers (ToolCalls a) rs \<Longrightarrow> tool_history ms \<Longrightarrow> tool_history (a # rs @ ms)"

lemma remember_all:
  "list_all (\<lambda>m. \<not> empty_assistant m) ms \<Longrightarrow>
     memory (foldl (\<lambda>s m. if empty_assistant m then s else remember m s) s ms) = memory s @ map Some ms
     \<and> roundMessages (foldl (\<lambda>s m. if empty_assistant m then s else remember m s) s ms) = roundMessages s"
  by (induction ms arbitrary: s) (simp_all add: remember_def AddMessage_def)

lemma map_enumerate: "map (\<lambda>(k, x). f x) (enumerate n xs) = map f xs"
  by (induction xs arbitrary: n) simp_all

lemma results_shape:
  "map ToolCallID (map resultMessage (run_all runs tcs)) = map ID tcs"
  "list_all (\<lambda>r. Role r = Tool) (map resultMessage (run_all runs tcs))"
proof -
  have "map ToolCallID (map resultMessage (run_all runs tcs)) = map (\<lambda>(k, tc). ID tc) (enumerate 0 tcs)"
    by (simp add: run_all_def case_prod_beta comp_def)
  also have "\<dots> = map ID tcs" by (rule map_enumerate)
  finally show "map ToolCallID (map resultMessage (run_all runs tcs)) = map ID tcs" .
  show "list_all (\<lambda>r. Role r = Tool) (map resultMessage (run_all runs tcs))" by (auto simp: list_all_iff run_all_def)
qed

lemma answers_run_all: "answers calls (map resultMessage (run_all runs (Submit [] calls)))"
  using Submit_once [of "[]" calls] results_shape [of runs "Submit [] calls"] unfolding answers_def by auto

lemma saved_round:
  assumes "calls \<noteq> []"
  shows "memory (save_round mode (tool_messages (assistant_message t calls) (run_all runs tcs)) s)
    = memory s @ map Some (assistant_message t calls # map resultMessage (run_all runs tcs))"
proof -
  let ?ms = "assistant_message t calls # map resultMessage (run_all runs tcs)"
  have ms: "tool_messages (assistant_message t calls) (run_all runs tcs) = ?ms"
    using assms by (simp add: tool_messages_def assistant_message_def)
  have "list_all (\<lambda>m. \<not> empty_assistant m) ?ms"
    using assms results_shape(2) [of runs tcs] by (auto simp: empty_assistant_def assistant_message_def list_all_iff)
  from remember_all [OF this] show ?thesis unfolding ms save_round_def by (simp add: Let_def)
qed

lemma speak_memory [simp]: "memory (speak r s) = memory s"
  by (simp add: speak_def)

lemma history_saved: "\<exists>ms. memory (saveInterruptedAssistant s) = memory s @ map Some ms \<and> tool_history ms"
proof (cases "TrimSpace (fullText s) = []")
  case True
  then show ?thesis by (auto simp: saveInterruptedAssistant_def intro: th_nil)
next
  case False
  let ?m = "(assistant_message (TrimSpace (fullText s)) [])\<lparr>Interrupt := Some (ExtraBool True)\<rparr>"
  have "tool_history [?m]" using False by (intro th_last) (simp_all add: assistant_message_def)
  then show ?thesis using False by (intro exI [of _ "[?m]"]) (simp add: saveInterruptedAssistant_def remember_def AddMessage_def)
qed

lemma history_round:
  assumes "calls \<noteq> []" and "tool_history ms"
  shows "tool_history ((assistant_message t calls # map resultMessage (run_all runs (Submit [] calls))) @ ms)"
proof -
  have "tool_history (assistant_message t calls # map resultMessage (run_all runs (Submit [] calls)) @ ms)"
    by (rule th_round [OF _ _ assms(2)])
      (use assms(1) answers_run_all in \<open>simp_all add: calls_tools_def assistant_message_def\<close>)
  then show ?thesis by simp
qed

definition grows :: "turn \<Rightarrow> turn \<Rightarrow> bool" where
  "grows s s' \<longleftrightarrow> (\<exists>ms. memory s' = memory s @ map Some ms \<and> tool_history ms)"

lemma grows_same: "memory s' = memory s \<Longrightarrow> grows s s'"
  unfolding grows_def by (rule exI [of _ "[]"]) (simp add: th_nil)

definition after_tools :: "request_env \<Rightarrow> llm_round list \<Rightarrow> tool_summary \<Rightarrow> turn \<Rightarrow> bool \<times> turn" where
  "after_tools env rds smry s =
     (if anyExit smry then (False, s\<lparr>exitEvents := Suc (exitEvents s)\<rparr>)
      else if anySuccess smry \<and> \<not> anyStop smry then
        (case rds of
           [] \<Rightarrow> (True, s)
         | next # _ \<Rightarrow>
             (if fate next = Sent
              then (case handleLLMResponse env rds (DoLLmRequest env None s) of (res, s) \<Rightarrow> (waits res, s))
              else (False, if fate next = Stopped then s else DoLLmRequest env None s)))
      else (False, s))"

lemma after_tools_grows:
  assumes "\<And>s. grows s (snd (handleLLMResponse env rds s))"
  shows "grows s (snd (after_tools env rds smry s))"
proof (cases rds)
  case (Cons rd rest0)
  have "grows s (snd (handleLLMResponse env rds (DoLLmRequest env None s)))"
    using assms [of "DoLLmRequest env None s"] by (simp add: grows_def DoLLmRequest_def)
  then show ?thesis using Cons by (auto simp: after_tools_def DoLLmRequest_def grows_same split: prod.split)
qed (simp add: after_tools_def grows_same)

lemma turn_round:
  assumes "response_loop (llmAnswers rd) [] [] s = (calls, submitted, s1, LoopEnded r)" and "calls \<noteq> []"
  shows "snd (handleLLMResponse env (rd # rds) s)
    = (let results = run_all (toolRuns rd) submitted; sum = summary results;
           (w, s2) = after_tools env rds sum (save_round (reMode env) (tool_messages (assistant_message (fullText s1) calls) results) s1)
       in if w then s2
          else if \<not> anySuccess sum \<and> TrimSpace (lrText r) \<noteq> [] then
            (if repeatOk rd then (speak r s2)\<lparr>fullText := fullText s2 @ lrText r\<rparr> else speak r s2)
          else s2)"
  using assms by (simp add: handleLLMResponse.simps after_tools_def Let_def speak_def split: prod.split)

lemma turn_grows: "grows s (snd (handleLLMResponse env rds s))"
proof (induction rds arbitrary: s)
  case (Cons rd rds)
  obtain calls submitted s1 e where l: "response_loop (llmAnswers rd) [] [] s = (calls, submitted, s1, e)" by (metis prod_cases4)
  have f: "memory s1 = memory s" and sub: "submitted = Submit [] calls" using loop_frame [OF l] by simp_all
  show ?case
  proof (cases e)
    case LoopCancelled
    then show ?thesis using l f history_saved [of s1] by (simp add: grows_def handleLLMResponse.simps)
  next
    case (LoopEnded r)
    show ?thesis
    proof (cases "calls = []")
      case True
      have "tool_history [assistant_message (fullText s1) []]" if "TrimSpace (fullText s1) \<noteq> []"
        using that by (intro th_last) (simp_all add: assistant_message_def)
      then have "grows s (remember (assistant_message (fullText s1) []) s1)" if "TrimSpace (fullText s1) \<noteq> []"
        unfolding grows_def using that f by (intro exI [of _ "[assistant_message (fullText s1) []]"]) (simp add: remember_def AddMessage_def)
      then show ?thesis using True l LoopEnded f by (auto simp: handleLLMResponse.simps intro: grows_same)
    next
      case False
      define results where "results = run_all (toolRuns rd) submitted"
      define block where "block = assistant_message (fullText s1) calls # map resultMessage results"
      define s2 where "s2 = save_round (reMode env) (tool_messages (assistant_message (fullText s1) calls) results) s1"
      obtain w s3 where a: "after_tools env rds (summary results) s2 = (w, s3)" by fastforce
      have m2: "memory s2 = memory s @ map Some block" using saved_round [OF False] f by (simp add: s2_def block_def results_def)
      obtain ms where ms: "memory s3 = memory s2 @ map Some ms" "tool_history ms"
        using after_tools_grows [OF Cons.IH, of s2 "summary results"] a by (auto simp: grows_def)
      have "memory (snd (handleLLMResponse env (rd # rds) s)) = memory s3"
        using turn_round [OF l [unfolded LoopEnded] False, of env rds] a
        by (simp add: Let_def results_def [symmetric] s2_def [symmetric] split: if_splits)
      moreover have "tool_history (block @ ms)" using history_round [OF False ms(2)] by (simp add: block_def results_def sub)
      ultimately show ?thesis unfolding grows_def using m2 ms(1) by (intro exI [of _ "block @ ms"]) simp
    qed
  qed (use l f grows_same in \<open>simp_all add: handleLLMResponse.simps\<close>)
qed (simp add: grows_same handleLLMResponse.simps)

text \<open>C14: A turn leaves a sound history. However its rounds go, whichever tools fail and wherever it is interrupted,
  what a turn adds to the memory is a sequence of rounds, each an assistant message with calls followed at once by one
  result for each distinct call, in the order of the calls, and at most one further message of the assistant, the last,
  that is not blank.\<close>

theorem turn_history_sound:
  "\<exists>ms. memory (snd (handle_turn env u rds s)) = memory s @ map Some ms \<and> tool_history ms"
proof -
  have "grows s' (snd (handleLLMResponse env rds s'))" for s' by (rule turn_grows)
  from this [of "if reMode env = MemoryModeNone \<and> u \<noteq> None then s\<lparr>roundMessages := roundMessages s @ [u]\<rparr> else s"]
  show ?thesis by (auto simp: handle_turn_def grows_def split: if_splits)
qed

section \<open>What the next round is told\<close>

definition round_request :: "request_env \<Rightarrow> llm_round \<Rightarrow> tool_call list \<Rightarrow> turn \<Rightarrow> messages option" where
  \<comment> \<open>the request that follows a round of tools\<close>
  "round_request env rd calls s =
     llm_GetMessages MaxMessageCount
       (request_env_of env
          (save_round (reMode env) (tool_messages (assistant_message (fullText s) calls) (run_all (toolRuns rd) (Submit [] calls))) s)) None"

lemma last_ten: "GetMessages h 10 = Some (AlignToolMessages (drop (length h - 10) h))"
  by (auto simp: GetMessages_def Let_def nat_diff_distrib' AlignToolMessages_def)

lemma round_request_eq:
  assumes "calls \<noteq> []" and "reMode env \<noteq> MemoryModeNone"
  shows "\<exists>p. round_request env rd calls s = Some (Some (system_message p) # request_messages (AlignToolMessages
     (drop (length (memory s) + 1 + length (Submit [] calls) - 10)
        (memory s @ map Some (assistant_message (fullText s) calls # map resultMessage (run_all (toolRuns rd) (Submit [] calls)))))))"
proof -
  let ?rs = "run_all (toolRuns rd) (Submit [] calls)"
  let ?h = "memory s @ map Some (assistant_message (fullText s) calls # map resultMessage ?rs)"
  let ?s = "save_round (reMode env) (tool_messages (assistant_message (fullText s) calls) ?rs) s"
  have h: "memory ?s = ?h" by (rule saved_round [OF assms(1)])
  have n: "length ?rs = length (Submit [] calls)" by (simp add: run_all_def)
  have l: "length ?h = length (memory s) + 1 + length (Submit [] calls)" using n by simp
  have "GetMessages ?h 10 = Some (AlignToolMessages (drop (length (memory s) + 1 + length (Submit [] calls) - 10) ?h))"
    unfolding l [symmetric] by (rule last_ten)
  then have b: "request_base MaxMessageCount (request_env_of env ?s) None = Some (AlignToolMessages
      (drop (length (memory s) + 1 + length (Submit [] calls) - 10) ?h))"
    using assms(2) h by (simp add: request_base_def request_env_of_def MaxMessageCount_def)
  show ?thesis unfolding round_request_def llm_GetMessages_def b by auto
qed



section \<open>Instances\<close>

definition some_calls :: "nat \<Rightarrow> tool_call list" where
  "some_calls n = map (\<lambda>k. \<lparr>ID = replicate (Suc k) (CHR ''x''), Function = ''f'', Arguments = ''''\<rparr>) [0..<n]"

definition a_round :: llm_round where
  "a_round = \<lparr>fate = Sent, llmAnswers = [], toolRuns = \<lambda>k. RunFailed [], repeatOk = True\<rparr>"

definition a_turn :: turn where
  "a_turn = \<lparr>fullText = [65], memory = [], roundMessages = [], spoken = [], exitEvents = 0, llmRequests = []\<rparr>"



end
