(* ===== verification/Mcp_Sessions.thy ===== *)
theory Mcp_Sessions
  imports Prelude "HOL-Library.AList" "HOL-Library.List_Lexorder"
begin

text \<open>
  The MCP sessions of devices and agents, \<^verbatim>\<open>internal/domain/mcp/{device_manager,mcp_pool}.go\<close> and the binding of a device's
  connection in \<^verbatim>\<open>mcp_client.go\<close>. A session keeps the clients of its web-socket endpoints and, for each transport, the
  client of the device itself; the pool keeps the session of each device. Sessions and clients are pointers in the code,
  here numbers into stores; a connection is a number. A goroutine is a program counter whose steps are its sections
  between locks, atomic operations and calls of the client library, whose outcome is the argument of the step. The maps
  are association lists, as \<^verbatim>\<open>Range\<close> and \<^verbatim>\<open>range\<close> visit them in an order of their own.
\<close>

section \<open>State\<close>

datatype init_state = InitIdle | Initializing | InitReady

record mcp_tool =
  infoName :: gostr
  toolServer :: gostr
  toolClient :: nat
  isLocal :: bool
  hasHandler :: bool

record mcp_client =
  serverName :: gostr
  toolsState :: "(gostr \<times> mcp_tool) list"
  serverInfo :: bool
  clientConn :: "nat option"  \<comment> \<open>of the client of a device\<close>
  initState :: init_state
  lastPing :: nat  \<comment> \<open>0 is the zero time\<close>
  connected :: bool
  clientCancelled :: bool
  closeOnce :: bool
  onCloseHandler :: "nat option"

record mcp_session =
  deviceID :: gostr
  sessionCancelled :: bool
  wsEndPointMcp :: "(gostr \<times> nat) list"
  iotOverMcpByTransport :: "(gostr \<times> nat) list"

record mcp_pool =
  device2McpClient :: "gostr \<Rightarrow> nat option"
  sessionAt :: "nat \<Rightarrow> mcp_session"
  nextSession :: nat
  clientAt :: "nat \<Rightarrow> mcp_client"
  nextClient :: nat

definition set_client :: "nat \<Rightarrow> (mcp_client \<Rightarrow> mcp_client) \<Rightarrow> mcp_pool \<Rightarrow> mcp_pool" where
  "set_client i f p = p\<lparr>clientAt := (clientAt p)(i := f (clientAt p i))\<rparr>"

definition set_session :: "nat \<Rightarrow> (mcp_session \<Rightarrow> mcp_session) \<Rightarrow> mcp_pool \<Rightarrow> mcp_pool" where
  "set_session d f p = p\<lparr>sessionAt := (sessionAt p)(d := f (sessionAt p d))\<rparr>"

section \<open>Operations\<close>

definition normalizeDeviceTransportType :: "gostr \<Rightarrow> gostr" where
  "normalizeDeviceTransportType t = (if TrimSpace t = [] then runes ''unknown'' else TrimSpace t)"

definition buildIotServerName :: "gostr \<Rightarrow> gostr \<Rightarrow> gostr" where
  "buildIotServerName dev t = runes ''iot_over_mcp_'' @ dev @ runes ''_'' @ normalizeDeviceTransportType t"

definition NewDeviceMCPSession :: "gostr \<Rightarrow> mcp_pool \<Rightarrow> nat \<times> mcp_pool" where
  "NewDeviceMCPSession dev p =
     (nextSession p,
      set_session (nextSession p) (\<lambda>_. \<lparr>deviceID = dev, sessionCancelled = False, wsEndPointMcp = [], iotOverMcpByTransport = []\<rparr>)
        p\<lparr>nextSession := Suc (nextSession p)\<rparr>)"

definition new_client :: "mcp_client \<Rightarrow> mcp_pool \<Rightarrow> nat \<times> mcp_pool" where
  "new_client c p = (nextClient p, set_client (nextClient p) (\<lambda>_. c) p\<lparr>nextClient := Suc (nextClient p)\<rparr>)"

definition NewWsEndPointMcpClient :: "gostr \<Rightarrow> gostr \<Rightarrow> nat \<Rightarrow> bool \<Rightarrow> mcp_pool \<Rightarrow> nat \<times> mcp_pool" where
  \<comment> \<open>\<open>initialized\<close>: whether \<^verbatim>\<open>sendInitlize\<close> succeeds, whose error is dropped\<close>
  "NewWsEndPointMcpClient dev addr now initialized =
     new_client \<lparr>serverName = runes ''ws_endpoint_mcp_'' @ dev @ runes ''_'' @ addr, toolsState = [], serverInfo = initialized,
       clientConn = None, initState = InitReady, lastPing = now, connected = True, clientCancelled = False, closeOnce = False,
       onCloseHandler = None\<rparr>"

definition NewIotOverMcpClient :: "gostr \<Rightarrow> gostr \<Rightarrow> nat \<Rightarrow> nat \<Rightarrow> mcp_pool \<Rightarrow> nat \<times> mcp_pool" where
  "NewIotOverMcpClient dev t conn now =
     new_client \<lparr>serverName = buildIotServerName dev t, toolsState = [], serverInfo = False, clientConn = Some conn,
       initState = Initializing, lastPing = now, connected = True, clientCancelled = False, closeOnce = False,
       onCloseHandler = None\<rparr>"

definition disconnect :: "nat \<Rightarrow> mcp_pool \<Rightarrow> mcp_pool" where
  \<comment> \<open>\<^verbatim>\<open>setConnected(false)\<close> and \<^verbatim>\<open>cancel\<close>\<close>
  "disconnect i = set_client i (\<lambda>c. c\<lparr>connected := False, clientCancelled := True\<rparr>)"

definition refreshTools :: "nat \<Rightarrow> (gostr \<times> mcp_tool) list option \<Rightarrow> mcp_pool \<Rightarrow> bool \<times> mcp_pool" where
  \<comment> \<open>with what \<^verbatim>\<open>ListTools\<close> answers; whether it succeeds\<close>
  "refreshTools i answer p =
     (if \<not> serverInfo (clientAt p i) then (False, p)
      else (case answer of
              None \<Rightarrow> (False, p)
            | Some ts \<Rightarrow> (True, set_client i (\<lambda>c. c\<lparr>toolsState := ts\<rparr>) p)))"

definition hasAnyClient :: "mcp_session \<Rightarrow> bool" where
  "hasAnyClient d \<longleftrightarrow> wsEndPointMcp d \<noteq> [] \<or> iotOverMcpByTransport d \<noteq> []"

definition RemoveWsEndPointMcp :: "gostr \<Rightarrow> mcp_session \<Rightarrow> mcp_session" where
  "RemoveWsEndPointMcp name d = d\<lparr>wsEndPointMcp := AList.delete name (wsEndPointMcp d)\<rparr>"

definition removeIotOverMcpByInstance :: "nat \<Rightarrow> mcp_session \<Rightarrow> mcp_session" where
  "removeIotOverMcpByInstance i d = d\<lparr>iotOverMcpByTransport := filter (\<lambda>(t, j). j \<noteq> i) (iotOverMcpByTransport d)\<rparr>"

definition RemoveMcpClient :: "gostr \<Rightarrow> mcp_pool \<Rightarrow> mcp_pool" where
  "RemoveMcpClient dev p = p\<lparr>device2McpClient := (device2McpClient p)(dev := None)\<rparr>"

definition AddMcpClient :: "gostr \<Rightarrow> nat \<Rightarrow> mcp_pool \<Rightarrow> mcp_pool" where
  "AddMcpClient dev d p = p\<lparr>device2McpClient := (device2McpClient p)(dev := Some d)\<rparr>"

definition GetOrCreateMcpClient :: "gostr \<Rightarrow> mcp_pool \<Rightarrow> nat option \<times> mcp_pool" where
  "GetOrCreateMcpClient dev p =
     (let dev = TrimSpace dev
      in if dev = [] then (None, p)
         else (case device2McpClient p dev of
                 Some d \<Rightarrow> (Some d, p)
               | None \<Rightarrow> (case NewDeviceMCPSession dev p of (d, p) \<Rightarrow> (Some d, AddMcpClient dev d p))))"

definition ShouldScheduleIotInit :: "mcp_pool \<Rightarrow> nat \<Rightarrow> gostr \<Rightarrow> nat option \<Rightarrow> bool" where
  "ShouldScheduleIotInit p d t conn =
     (let t = normalizeDeviceTransportType t
      in if t = runes ''unknown'' \<or> conn = None then False
         else (case map_of (iotOverMcpByTransport (sessionAt p d)) t of
                 None \<Rightarrow> True
               | Some i \<Rightarrow> clientConn (clientAt p i) \<noteq> conn \<or> initState (clientAt p i) = InitIdle))"

definition ShouldScheduleDeviceIotOverMcp :: "mcp_pool \<Rightarrow> gostr \<Rightarrow> (nat \<times> gostr) option \<Rightarrow> bool" where
  \<comment> \<open>a connection is given with its transport\<close>
  "ShouldScheduleDeviceIotOverMcp p dev conn =
     (case conn of
        None \<Rightarrow> False
      | Some (c, t) \<Rightarrow>
          (if TrimSpace dev = [] \<or> TrimSpace t = [] then False
           else (case device2McpClient p (TrimSpace dev) of
                   None \<Rightarrow> True
                 | Some d \<Rightarrow> ShouldScheduleIotInit p d (TrimSpace t) (Some c))))"

definition bind_iot :: "gostr \<Rightarrow> nat \<Rightarrow> gostr \<Rightarrow> nat \<Rightarrow> nat \<Rightarrow> mcp_pool \<Rightarrow> (nat \<times> nat option) option \<times> mcp_pool" where
  \<comment> \<open>the locked section of \<^verbatim>\<open>EnsureDeviceIotOverMcp\<close> on the session \<open>d\<close>: the new client and the one that it replaces\<close>
  "bind_iot dev conn t d now p =
     (let t = normalizeDeviceTransportType t;
          existing = map_of (iotOverMcpByTransport (sessionAt p d)) t
      in if (case existing of None \<Rightarrow> False
             | Some i \<Rightarrow> clientConn (clientAt p i) = Some conn \<and> initState (clientAt p i) \<noteq> InitIdle) then (None, p)
         else (case NewIotOverMcpClient dev t conn now p of
                 (i, p) \<Rightarrow> (Some (i, existing),
                   set_client i (\<lambda>c. c\<lparr>onCloseHandler := Some d\<rparr>)
                     (set_session d (\<lambda>x. x\<lparr>iotOverMcpByTransport := AList.update t i (iotOverMcpByTransport x)\<rparr>) p))))"

definition unbind_iot :: "nat \<Rightarrow> nat \<Rightarrow> gostr \<Rightarrow> mcp_pool \<Rightarrow> nat option \<times> mcp_pool" where
  \<comment> \<open>the locked section of \<^verbatim>\<open>CloseDeviceIotOverMcp\<close>\<close>
  "unbind_iot d conn t p =
     (let t = normalizeDeviceTransportType t
      in case map_of (iotOverMcpByTransport (sessionAt p d)) t of
           None \<Rightarrow> (None, p)
         | Some i \<Rightarrow>
             (if clientConn (clientAt p i) \<noteq> Some conn then (None, p)
              else (Some i, set_session d (\<lambda>x. x\<lparr>iotOverMcpByTransport := AList.delete t (iotOverMcpByTransport x)\<rparr>) p)))"

definition stale :: "nat \<Rightarrow> mcp_client \<Rightarrow> bool" where
  "stale now c \<longleftrightarrow> now - lastPing c > 120000000000"

section \<open>Goroutines\<close>

record mcp_answer =
  nowNs :: nat
  initOk :: bool
  listed :: "(gostr \<times> mcp_tool) list option"
  pingOk :: bool

datatype mcp_pc =
    MIdle
  | EnsureGet gostr nat gostr         \<comment> \<open>device, connection, transport\<close>
  | EnsureBind gostr nat gostr nat
  | EnsureDrop gostr nat gostr nat "nat option"
  | EnsureStart gostr nat gostr nat
  | CloseGet gostr nat gostr
  | CloseUnbind nat nat gostr
  | CloseDrop nat
  | WsGet gostr gostr                 \<comment> \<open>agent, remote address\<close>
  | WsCreate gostr gostr
  | WsClient gostr gostr nat
  | WsStore nat nat
  | WsHandler nat nat
  | Refresh nat
  | ClientClose nat                   \<comment> \<open>\<^verbatim>\<open>closeWithReason\<close>\<close>
  | ClosedWs nat nat
  | ClosedIot nat nat
  | ClosedCheck nat
  | ClosedEnd nat
  | Heartbeat nat
  | HeartbeatPing nat
  | SweepWs nat
  | SweepIot nat bool
  | SweepDrop nat bool "nat list"
  | SweepEnd nat bool

definition EnsureDeviceIotOverMcp :: "gostr \<Rightarrow> (nat \<times> gostr) option \<Rightarrow> mcp_pc" where
  \<comment> \<open>\<open>MIdle\<close>: it returns an error at once\<close>
  "EnsureDeviceIotOverMcp dev conn =
     (case conn of
        None \<Rightarrow> MIdle
      | Some (c, t) \<Rightarrow> (if dev = [] \<or> TrimSpace t = [] then MIdle else EnsureGet dev c (TrimSpace t)))"

definition CloseDeviceIotOverMcp :: "gostr \<Rightarrow> (nat \<times> gostr) option \<Rightarrow> mcp_pc" where
  "CloseDeviceIotOverMcp dev conn = (case conn of None \<Rightarrow> MIdle | Some (c, t) \<Rightarrow> CloseGet dev c t)"

definition closeWithReason :: "nat \<Rightarrow> mcp_pool \<Rightarrow> mcp_pc \<times> mcp_pool" where
  "closeWithReason i p =
     (if closeOnce (clientAt p i) then (MIdle, p)
      else (case onCloseHandler (clientAt p i) of None \<Rightarrow> MIdle | Some d \<Rightarrow> ClosedWs d i,
            set_client i (\<lambda>c. c\<lparr>closeOnce := True, connected := False, initState := InitIdle, clientCancelled := True\<rparr>) p))"

definition ensure_act :: "mcp_answer \<Rightarrow> mcp_pc \<Rightarrow> mcp_pool \<Rightarrow> mcp_pc \<times> mcp_pool" where
  \<comment> \<open>\<^verbatim>\<open>EnsureDeviceIotOverMcp\<close>\<close>
  "ensure_act a pc p =
     (case pc of
        EnsureGet dev c t \<Rightarrow>
          (case GetOrCreateMcpClient dev p of (None, p) \<Rightarrow> (MIdle, p) | (Some d, p) \<Rightarrow> (EnsureBind dev c t d, p))
      | EnsureBind dev c t d \<Rightarrow>
          (case bind_iot dev c t d (nowNs a) p of (None, p) \<Rightarrow> (MIdle, p) | (Some (i, old), p) \<Rightarrow> (EnsureDrop dev c t i old, p))
      | EnsureDrop dev c t i old \<Rightarrow> (EnsureStart dev c t i, case old of None \<Rightarrow> p | Some j \<Rightarrow> disconnect j p)
      | EnsureStart dev c t i \<Rightarrow>
          (let p = (if initOk a then set_client i (\<lambda>x. x\<lparr>serverInfo := True\<rparr>) p else p);
               (ok, p) = (if initOk a then refreshTools i (listed a) p else (False, p))
           in if ok then (MIdle, set_client i (\<lambda>x. x\<lparr>initState := InitReady\<rparr>) p)
              else (CloseGet dev c t, set_client i (\<lambda>x. x\<lparr>initState := InitIdle\<rparr>) p))
      | _ \<Rightarrow> (pc, p))"

definition close_act :: "mcp_pc \<Rightarrow> mcp_pool \<Rightarrow> mcp_pc \<times> mcp_pool" where
  \<comment> \<open>\<^verbatim>\<open>CloseDeviceIotOverMcp\<close>\<close>
  "close_act pc p =
     (case pc of
        CloseGet dev c t \<Rightarrow> (case device2McpClient p dev of None \<Rightarrow> (MIdle, p) | Some d \<Rightarrow> (CloseUnbind d c t, p))
      | CloseUnbind d c t \<Rightarrow> (case unbind_iot d c t p of (None, p) \<Rightarrow> (MIdle, p) | (Some i, p) \<Rightarrow> (CloseDrop i, p))
      | CloseDrop i \<Rightarrow> (MIdle, disconnect i p)
      | _ \<Rightarrow> (pc, p))"

definition endpoint_act :: "mcp_answer \<Rightarrow> mcp_pc \<Rightarrow> mcp_pool \<Rightarrow> mcp_pc \<times> mcp_pool" where
  \<comment> \<open>\<^verbatim>\<open>handleMCPWebSocket\<close> with \<^verbatim>\<open>AddWsEndPointMcp\<close>\<close>
  "endpoint_act a pc p =
     (case pc of
        WsGet dev addr \<Rightarrow> (case device2McpClient p dev of None \<Rightarrow> (WsCreate dev addr, p) | Some d \<Rightarrow> (WsClient dev addr d, p))
      | WsCreate dev addr \<Rightarrow> (case NewDeviceMCPSession dev p of (d, p) \<Rightarrow> (WsClient dev addr d, AddMcpClient dev d p))
      | WsClient dev addr d \<Rightarrow> (case NewWsEndPointMcpClient dev addr (nowNs a) (initOk a) p of (i, p) \<Rightarrow> (WsStore d i, p))
      | WsStore d i \<Rightarrow>
          (WsHandler d i,
           set_session d (\<lambda>x. x\<lparr>wsEndPointMcp := AList.update (serverName (clientAt p i)) i (wsEndPointMcp x)\<rparr>) p)
      | WsHandler d i \<Rightarrow> (Refresh i, set_client i (\<lambda>x. x\<lparr>onCloseHandler := Some d\<rparr>) p)
      | Refresh i \<Rightarrow> (MIdle, snd (refreshTools i (listed a) p))
      | _ \<Rightarrow> (pc, p))"

definition closed_act :: "mcp_pc \<Rightarrow> mcp_pool \<Rightarrow> mcp_pc \<times> mcp_pool" where
  \<comment> \<open>\<^verbatim>\<open>handleMcpClientClose\<close>\<close>
  "closed_act pc p =
     (case pc of
        ClosedWs d i \<Rightarrow> (ClosedIot d i, set_session d (RemoveWsEndPointMcp (serverName (clientAt p i))) p)
      | ClosedIot d i \<Rightarrow> (ClosedCheck d, set_session d (removeIotOverMcpByInstance i) p)
      | ClosedCheck d \<Rightarrow> (if hasAnyClient (sessionAt p d) then MIdle else ClosedEnd d, p)
      | ClosedEnd d \<Rightarrow> (MIdle, RemoveMcpClient (deviceID (sessionAt p d)) (set_session d (\<lambda>x. x\<lparr>sessionCancelled := True\<rparr>) p))
      | _ \<Rightarrow> (pc, p))"

definition heartbeat_act :: "mcp_answer \<Rightarrow> mcp_pc \<Rightarrow> mcp_pool \<Rightarrow> mcp_pc \<times> mcp_pool" where
  \<comment> \<open>\<^verbatim>\<open>heartbeatMcpInstance\<close>\<close>
  "heartbeat_act a pc p =
     (case pc of
        Heartbeat i \<Rightarrow>
          (if \<not> serverInfo (clientAt p i) then (MIdle, p)
           else (case refreshTools i (listed a) p of (ok, p) \<Rightarrow> (if ok then HeartbeatPing i else ClientClose i, p)))
      | HeartbeatPing i \<Rightarrow> (MIdle, if pingOk a then set_client i (\<lambda>x. x\<lparr>lastPing := nowNs a\<rparr>) p else p)
      | _ \<Rightarrow> (pc, p))"

definition sweep_act :: "mcp_answer \<Rightarrow> mcp_pc \<Rightarrow> mcp_pool \<Rightarrow> mcp_pc \<times> mcp_pool" where
  \<comment> \<open>\<^verbatim>\<open>sweepOfflineClients\<close> for one of the sessions\<close>
  "sweep_act a pc p =
     (case pc of
        SweepWs d \<Rightarrow>
          (let ws = map snd (wsEndPointMcp (sessionAt p d))
           in (SweepIot d (list_ex (\<lambda>i. \<not> stale (nowNs a) (clientAt p i)) ws),
               foldr (\<lambda>i p. if stale (nowNs a) (clientAt p i) then disconnect i p else p) ws p))
      | SweepIot d act \<Rightarrow>
          (let (old, new) = partition (\<lambda>(t, i). stale (nowNs a) (clientAt p i)) (iotOverMcpByTransport (sessionAt p d))
           in (SweepDrop d (act \<or> new \<noteq> []) (map snd old), set_session d (\<lambda>x. x\<lparr>iotOverMcpByTransport := new\<rparr>) p))
      | SweepDrop d act old \<Rightarrow> (SweepEnd d act, foldr disconnect old p)
      | SweepEnd d act \<Rightarrow> (MIdle, if act then p else RemoveMcpClient (deviceID (sessionAt p d)) p)
      | _ \<Rightarrow> (pc, p))"

definition mcp_act :: "mcp_answer \<Rightarrow> mcp_pc \<Rightarrow> mcp_pool \<Rightarrow> mcp_pc \<times> mcp_pool" where
  \<comment> \<open>each of them leaves the program counters of the others alone\<close>
  "mcp_act a pc p =
     (case pc of
        MIdle \<Rightarrow> (MIdle, p)
      | EnsureGet _ _ _ \<Rightarrow> ensure_act a pc p
      | EnsureBind _ _ _ _ \<Rightarrow> ensure_act a pc p
      | EnsureDrop _ _ _ _ _ \<Rightarrow> ensure_act a pc p
      | EnsureStart _ _ _ _ \<Rightarrow> ensure_act a pc p
      | CloseGet _ _ _ \<Rightarrow> close_act pc p
      | CloseUnbind _ _ _ \<Rightarrow> close_act pc p
      | CloseDrop _ \<Rightarrow> close_act pc p
      | WsGet _ _ \<Rightarrow> endpoint_act a pc p
      | WsCreate _ _ \<Rightarrow> endpoint_act a pc p
      | WsClient _ _ _ \<Rightarrow> endpoint_act a pc p
      | WsStore _ _ \<Rightarrow> endpoint_act a pc p
      | WsHandler _ _ \<Rightarrow> endpoint_act a pc p
      | Refresh _ \<Rightarrow> endpoint_act a pc p
      | ClientClose i \<Rightarrow> closeWithReason i p
      | ClosedWs _ _ \<Rightarrow> closed_act pc p
      | ClosedIot _ _ \<Rightarrow> closed_act pc p
      | ClosedCheck _ \<Rightarrow> closed_act pc p
      | ClosedEnd _ \<Rightarrow> closed_act pc p
      | Heartbeat _ \<Rightarrow> heartbeat_act a pc p
      | HeartbeatPing _ \<Rightarrow> heartbeat_act a pc p
      | _ \<Rightarrow> sweep_act a pc p)"

lemmas act_defs [simp] = ensure_act_def close_act_def endpoint_act_def closed_act_def heartbeat_act_def sweep_act_def mcp_act_def

definition begins :: "mcp_pool \<Rightarrow> mcp_pc \<Rightarrow> bool" where
  \<comment> \<open>where a goroutine begins: the operations that are called from outside, and what the transports and tickers start\<close>
  "begins p pc =
     (case pc of
        EnsureGet dev c t \<Rightarrow> True
      | CloseGet dev c t \<Rightarrow> True
      | WsGet dev addr \<Rightarrow> True
      | ClientClose i \<Rightarrow> i < nextClient p
      | Heartbeat i \<Rightarrow> i < nextClient p
      | Refresh i \<Rightarrow> i < nextClient p
      | SweepWs d \<Rightarrow> d < nextSession p
      | _ \<Rightarrow> False)"

inductive mcp_reachable :: "(nat \<Rightarrow> mcp_pc) \<Rightarrow> mcp_pool \<Rightarrow> bool" where
  mcp_init: "mcp_reachable (\<lambda>_. MIdle)
    \<lparr>device2McpClient = Map.empty, sessionAt = s, nextSession = 0, clientAt = c, nextClient = 0\<rparr>"
| mcp_begin: "mcp_reachable pcs p \<Longrightarrow> pcs g = MIdle \<Longrightarrow> begins p pc \<Longrightarrow> mcp_reachable (pcs(g := pc)) p"
| mcp_step: "mcp_reachable pcs p \<Longrightarrow> mcp_act a (pcs g) p = (pc, p') \<Longrightarrow> mcp_reachable (pcs(g := pc)) p'"

section \<open>No runtime is left behind\<close>

definition iot :: "mcp_pool \<Rightarrow> nat \<Rightarrow> (gostr \<times> nat) list" where
  "iot p d = iotOverMcpByTransport (sessionAt p d)"

definition bound :: "mcp_pool \<Rightarrow> nat \<Rightarrow> bool" where
  "bound p i \<longleftrightarrow> (\<exists>d < nextSession p. i \<in> snd ` set (iot p d))"

definition held :: "mcp_pc \<Rightarrow> nat set" where
  \<comment> \<open>the clients that a goroutine is about to disconnect\<close>
  "held pc = (case pc of EnsureDrop dev c t i (Some j) \<Rightarrow> {j} | CloseDrop i \<Rightarrow> {i} | SweepDrop d act old \<Rightarrow> set old | _ \<Rightarrow> {})"

definition sessions_of :: "mcp_pc \<Rightarrow> nat set" where
  "sessions_of pc = (case pc of EnsureBind dev c t d \<Rightarrow> {d} | CloseUnbind d c t \<Rightarrow> {d} | WsClient dev addr d \<Rightarrow> {d} | WsStore d i \<Rightarrow> {d}
     | WsHandler d i \<Rightarrow> {d} | ClosedWs d i \<Rightarrow> {d} | ClosedIot d i \<Rightarrow> {d} | ClosedCheck d \<Rightarrow> {d} | ClosedEnd d \<Rightarrow> {d} | SweepWs d \<Rightarrow> {d}
     | SweepIot d act \<Rightarrow> {d} | SweepDrop d act old \<Rightarrow> {d} | SweepEnd d act \<Rightarrow> {d} | _ \<Rightarrow> {})"

definition clients_of :: "mcp_pc \<Rightarrow> nat set" where
  "clients_of pc = (case pc of WsHandler d i \<Rightarrow> {i} | WsStore d i \<Rightarrow> {i} | ClientClose i \<Rightarrow> {i} | Heartbeat i \<Rightarrow> {i} | ClosedIot d i \<Rightarrow> {i}
     | ClosedWs d i \<Rightarrow> {i} | _ \<Rightarrow> {})"

definition pool_ok :: "mcp_pool \<Rightarrow> bool" where
  "pool_ok p \<longleftrightarrow> (\<forall>d < nextSession p. distinct (map fst (iot p d))) \<and> ran (device2McpClient p) \<subseteq> {..<nextSession p}
     \<and> (\<forall>i < nextClient p. \<forall>d. onCloseHandler (clientAt p i) = Some d \<longrightarrow> d < nextSession p)"

definition accounted :: "(nat \<Rightarrow> mcp_pc) \<Rightarrow> mcp_pool \<Rightarrow> bool" where
  "accounted pcs p \<longleftrightarrow> (\<forall>i < nextClient p. clientConn (clientAt p i) \<noteq> None \<longrightarrow> connected (clientAt p i)
      \<longrightarrow> bound p i \<or> (\<exists>g. i \<in> held (pcs g)))"

definition closing :: "mcp_pc \<Rightarrow> nat set" where
  "closing pc = (case pc of ClosedIot d i \<Rightarrow> {i} | ClosedWs d i \<Rightarrow> {i} | _ \<Rightarrow> {})"

definition refs_ok :: "mcp_pool \<Rightarrow> mcp_pc \<Rightarrow> bool" where
  "refs_ok p pc \<longleftrightarrow> sessions_of pc \<subseteq> {..<nextSession p} \<and> clients_of pc \<subseteq> {..<nextClient p}
     \<and> (\<forall>i \<in> closing pc. \<not> connected (clientAt p i))"

definition mcp_inv :: "(nat \<Rightarrow> mcp_pc) \<Rightarrow> mcp_pool \<Rightarrow> bool" where
  "mcp_inv pcs p \<longleftrightarrow> pool_ok p \<and> (\<forall>g. refs_ok p (pcs g)) \<and> accounted pcs p"

text \<open>What every step keeps: connections of clients, that nothing is connected again, and references.\<close>

definition tame :: "mcp_pool \<Rightarrow> mcp_pool \<Rightarrow> bool" where
  "tame p p' \<longleftrightarrow> nextSession p \<le> nextSession p' \<and> nextClient p \<le> nextClient p'
     \<and> (\<forall>i < nextClient p. clientConn (clientAt p' i) = clientConn (clientAt p i)
          \<and> (connected (clientAt p' i) \<longrightarrow> connected (clientAt p i)))
     \<and> (\<forall>i < nextClient p'. \<forall>d. onCloseHandler (clientAt p' i) = Some d
          \<longrightarrow> i < nextClient p \<and> onCloseHandler (clientAt p i) = Some d \<or> d < nextSession p')
     \<and> ran (device2McpClient p') \<subseteq> ran (device2McpClient p) \<union> {..<nextSession p'}"

lemma tameD:
  assumes "tame p p'"
  shows "nextSession p \<le> nextSession p'" and "nextClient p \<le> nextClient p'"
    and "i < nextClient p \<Longrightarrow> clientConn (clientAt p' i) = clientConn (clientAt p i)"
    and "i < nextClient p \<Longrightarrow> connected (clientAt p' i) \<Longrightarrow> connected (clientAt p i)"
    and "i < nextClient p' \<Longrightarrow> onCloseHandler (clientAt p' i) = Some d
      \<Longrightarrow> i < nextClient p \<and> onCloseHandler (clientAt p i) = Some d \<or> d < nextSession p'"
    and "ran (device2McpClient p') \<subseteq> ran (device2McpClient p) \<union> {..<nextSession p'}"
  using assms unfolding tame_def by blast+

lemma pool_okD:
  assumes "pool_ok p"
  shows "d < nextSession p \<Longrightarrow> distinct (map fst (iot p d))"
    and "ran (device2McpClient p) \<subseteq> {..<nextSession p}"
    and "device2McpClient p dev = Some d \<Longrightarrow> d < nextSession p"
    and "i < nextClient p \<Longrightarrow> onCloseHandler (clientAt p i) = Some d \<Longrightarrow> d < nextSession p"
  using assms unfolding pool_ok_def by (auto intro: ranI)

lemma clients_closing: "closing pc \<subseteq> clients_of pc"
  by (cases pc) (simp_all add: closing_def clients_of_def)

lemma refs_tame:
  assumes "refs_ok p pc" and t: "tame p p'"
  shows "refs_ok p' pc"
  using assms(1) clients_closing [of pc] tameD(1,2,4) [OF t] unfolding refs_ok_def by (meson lessThan_iff order_less_le_trans subset_iff)

lemma inv_step:
  assumes inv: "mcp_inv pcs p" and t: "tame p p'" and refs: "refs_ok p' pc"
    and dist: "\<And>d. d < nextSession p' \<Longrightarrow> distinct (map fst (iot p' d))"
    and keep: "\<And>i. i < nextClient p \<Longrightarrow> bound p i \<Longrightarrow> connected (clientAt p' i) \<Longrightarrow> bound p' i \<or> i \<in> held pc"
    and drop: "\<And>i. i \<in> held (pcs g) \<Longrightarrow> i \<notin> held pc \<Longrightarrow> \<not> connected (clientAt p' i)"
    and new: "\<And>i. nextClient p \<le> i \<Longrightarrow> i < nextClient p' \<Longrightarrow> clientConn (clientAt p' i) \<noteq> None \<Longrightarrow> bound p' i"
  shows "mcp_inv (pcs(g := pc)) p'"
proof -
  have 1: "refs_ok p' ((pcs(g := pc)) h)" for h
    using inv refs refs_tame [OF _ t] by (cases "h = g") (simp_all add: mcp_inv_def)
  have 2: "accounted (pcs(g := pc)) p'"
    unfolding accounted_def
  proof (intro allI impI)
    fix i assume i: "i < nextClient p'" "clientConn (clientAt p' i) \<noteq> None" "connected (clientAt p' i)"
    show "bound p' i \<or> (\<exists>h. i \<in> held ((pcs(g := pc)) h))"
    proof (cases "i < nextClient p")
      case True
      then have "bound p i \<or> (\<exists>h. i \<in> held (pcs h))"
        using inv i tameD(3,4) [OF t True] by (auto simp: mcp_inv_def accounted_def)
      then show ?thesis using keep [OF True _ i(3)] drop i(3) by (metis fun_upd_apply)
    next
      case False
      then show ?thesis using new i by simp
    qed
  qed
  have p: "pool_ok p" using inv by (simp add: mcp_inv_def)
  have 3: "pool_ok p'"
    unfolding pool_ok_def
  proof (intro conjI allI impI)
    show "ran (device2McpClient p') \<subseteq> {..<nextSession p'}"
      using pool_okD(2) [OF p] tameD(1,6) [OF t] by force
    fix i d assume "i < nextClient p'" "onCloseHandler (clientAt p' i) = Some d"
    from tameD(5) [OF t this] show "d < nextSession p'"
      using pool_okD(4) [OF p] tameD(1) [OF t] by fastforce
  qed (rule dist)
  show ?thesis using 1 2 3 by (simp add: mcp_inv_def)
qed

text \<open>Steps that bind and unbind nothing.\<close>

definition quiet :: "mcp_pool \<Rightarrow> mcp_pool \<Rightarrow> bool" where
  "quiet p p' \<longleftrightarrow> tame p p' \<and> (\<forall>d < nextSession p. iot p' d = iot p d)
     \<and> (\<forall>d. nextSession p \<le> d \<and> d < nextSession p' \<longrightarrow> iot p' d = [])
     \<and> (\<forall>i. nextClient p \<le> i \<and> i < nextClient p' \<longrightarrow> clientConn (clientAt p' i) = None)"

lemma quiet_bound:
  assumes "quiet p p'" and "bound p i"
  shows "bound p' i"
proof -
  obtain d where "d < nextSession p" "i \<in> snd ` set (iot p d)" using assms(2) by (auto simp: bound_def)
  then have "d < nextSession p'" "i \<in> snd ` set (iot p' d)" using assms(1) by (auto simp: quiet_def tame_def)
  then show ?thesis unfolding bound_def by blast
qed

lemma inv_quiet:
  assumes inv: "mcp_inv pcs p" and q: "quiet p p'" and refs: "refs_ok p' pc"
    and drop: "\<And>i. i \<in> held (pcs g) \<Longrightarrow> i \<notin> held pc \<Longrightarrow> \<not> connected (clientAt p' i)"
  shows "mcp_inv (pcs(g := pc)) p'"
proof (rule inv_step [OF inv _ refs _ _ drop])
  show "tame p p'" using q by (simp add: quiet_def)
  show "distinct (map fst (iot p' d))" if "d < nextSession p'" for d
    using q inv that pool_okD(1) [of p d] by (cases "d < nextSession p") (simp_all add: quiet_def mcp_inv_def)
qed (use q quiet_bound in \<open>simp_all add: quiet_def\<close>)

lemma quiet_refl [simp]: "quiet p p"
  by (auto simp: quiet_def tame_def)

lemma quiet_trans:
  assumes q1: "quiet p q" and q2: "quiet q r"
  shows "quiet p r"
proof -
  have t1: "tame p q" and t2: "tame q r" using q1 q2 by (simp_all add: quiet_def)
  have "tame p r"
    unfolding tame_def
  proof (intro conjI allI impI)
    fix i assume i: "i < nextClient p"
    then have j: "i < nextClient q" using tameD(2) [OF t1] by simp
    show "clientConn (clientAt r i) = clientConn (clientAt p i)" using tameD(3) [OF t1 i] tameD(3) [OF t2 j] by simp
    show "connected (clientAt p i)" if "connected (clientAt r i)" using tameD(4) [OF t1 i] tameD(4) [OF t2 j] that by simp
  next
    fix i d assume "i < nextClient r" "onCloseHandler (clientAt r i) = Some d"
    from tameD(5) [OF t2 this] tameD(5) [OF t1, of i d] tameD(1) [OF t2]
    show "i < nextClient p \<and> onCloseHandler (clientAt p i) = Some d \<or> d < nextSession r" by auto
  qed (use tameD(1,2,6) [OF t1] tameD(1,2,6) [OF t2] in force)+
  moreover have "iot r d = iot p d" if "d < nextSession p" for d
    using q1 q2 that tameD(1) [OF t1] by (simp add: quiet_def)
  moreover have "iot r d = []" if "nextSession p \<le> d" "d < nextSession r" for d
    using q1 q2 that by (cases "d < nextSession q") (simp_all add: quiet_def)
  moreover have "clientConn (clientAt r i) = None" if "nextClient p \<le> i" "i < nextClient r" for i
    using q1 q2 that tameD(3) [OF t2, of i] by (cases "i < nextClient q") (simp_all add: quiet_def)
  ultimately show ?thesis by (simp add: quiet_def)
qed

lemma quiet_set_client:
  assumes "\<And>c. clientConn (f c) = clientConn c" and "\<And>c. connected (f c) \<Longrightarrow> connected c"
    and "\<And>c d. onCloseHandler (f c) = Some d \<Longrightarrow> onCloseHandler c = Some d \<or> d < nextSession p"
  shows "quiet p (set_client i f p)"
  using assms by (auto simp: quiet_def tame_def set_client_def iot_def)

lemma quiet_disconnect [simp]: "quiet p (disconnect i p)"
  unfolding disconnect_def by (rule quiet_set_client) simp_all

lemma disconnect_connected [simp]: "connected (clientAt (disconnect i p) j) \<longleftrightarrow> j \<noteq> i \<and> connected (clientAt p j)"
  by (simp add: disconnect_def set_client_def)

lemma quiet_foldr:
  assumes "\<And>i q. quiet q (f i q)"
  shows "quiet p (foldr f is p)"
proof (induction "is")
  case (Cons i js)
  then show ?case using quiet_trans [OF Cons.IH assms [of "foldr f js p" i]] by simp
qed simp

lemma foldr_disconnect: "connected (clientAt (foldr disconnect is p) j) \<longleftrightarrow> j \<notin> set is \<and> connected (clientAt p j)"
  by (induction "is") auto

lemma quiet_refresh: "quiet p (snd (refreshTools i ans p))"
  unfolding refreshTools_def by (auto split: option.split intro: quiet_set_client)

lemma quiet_ws:
  assumes "\<And>x. iotOverMcpByTransport (f x) = iotOverMcpByTransport x"
  shows "quiet p (set_session d f p)"
  using assms by (auto simp: quiet_def tame_def set_session_def iot_def)

lemma quiet_remove [simp]: "quiet p (RemoveMcpClient dev p)"
  by (auto simp: quiet_def tame_def RemoveMcpClient_def iot_def ran_def)

lemma quiet_add: "d < nextSession p \<Longrightarrow> quiet p (AddMcpClient dev d p)"
  by (auto simp: quiet_def tame_def AddMcpClient_def iot_def ran_def)

lemma quiet_new_session: "quiet p (snd (NewDeviceMCPSession dev p))" "fst (NewDeviceMCPSession dev p) < nextSession (snd (NewDeviceMCPSession dev p))"
  by (auto simp: quiet_def tame_def NewDeviceMCPSession_def set_session_def iot_def)

lemma quiet_new_ws: "quiet p (snd (NewWsEndPointMcpClient dev addr now ok p))"
  "fst (NewWsEndPointMcpClient dev addr now ok p) < nextClient (snd (NewWsEndPointMcpClient dev addr now ok p))"
  "nextSession (snd (NewWsEndPointMcpClient dev addr now ok p)) = nextSession p"
  by (auto simp: quiet_def tame_def NewWsEndPointMcpClient_def new_client_def set_client_def iot_def)

lemma nextSession_simps [simp]:
  "nextSession (set_client i f p) = nextSession p" "nextSession (set_session d g p) = nextSession p"
  "nextSession (disconnect i p) = nextSession p" "nextSession (RemoveMcpClient dev p) = nextSession p"
  "nextSession (AddMcpClient dev d p) = nextSession p" "nextSession (snd (refreshTools i ans p)) = nextSession p"
  "nextSession (foldr disconnect is p) = nextSession p"
  by (induction "is") (auto simp: set_client_def set_session_def disconnect_def RemoveMcpClient_def AddMcpClient_def refreshTools_def
      split: option.split)

lemma nextClient_simps [simp]:
  "nextClient (set_client i f p) = nextClient p" "nextClient (set_session d g p) = nextClient p"
  "nextClient (disconnect i p) = nextClient p" "nextClient (RemoveMcpClient dev p) = nextClient p"
  "nextClient (AddMcpClient dev d p) = nextClient p" "nextClient (snd (refreshTools i ans p)) = nextClient p"
  "nextClient (foldr disconnect is p) = nextClient p"
  by (induction "is") (auto simp: set_client_def set_session_def disconnect_def RemoveMcpClient_def AddMcpClient_def refreshTools_def
      split: option.split)

lemma iot_set_client [simp]: "iot (set_client i f p) d = iot p d"
  by (simp add: set_client_def iot_def)

lemma bound_map_of:
  "pool_ok p \<Longrightarrow> bound p i \<longleftrightarrow> (\<exists>d < nextSession p. \<exists>t. map_of (iot p d) t = Some i)"
  unfolding bound_def by (metis (no_types, lifting) imageE image_eqI map_of_SomeD map_of_eq_Some_iff pool_okD(1) prod.collapse snd_conv)

lemma boundI: "d < nextSession p \<Longrightarrow> map_of (iot p d) t = Some i \<Longrightarrow> bound p i"
  unfolding bound_def by (force dest: map_of_SomeD)

lemma refs_at: "mcp_inv pcs p \<Longrightarrow> refs_ok p (pcs g)"
  by (simp add: mcp_inv_def)

lemma inv_bind:
  assumes inv: "mcp_inv pcs p" and pc: "pcs g = EnsureBind dev c t d" and b: "bind_iot dev c t d now p = (Some (i, old), p')"
  shows "mcp_inv (pcs(g := EnsureDrop dev c t i old)) p'"
proof -
  let ?t = "normalizeDeviceTransportType t"
  have ok: "pool_ok p" and d: "d < nextSession p"
    using inv refs_at [OF inv, of g] pc by (simp_all add: mcp_inv_def refs_ok_def sessions_of_def)
  have old: "old = map_of (iot p d) ?t" and i: "i = nextClient p"
    and p': "p' = set_client i (\<lambda>c. c\<lparr>onCloseHandler := Some d\<rparr>)
        (set_session d (\<lambda>x. x\<lparr>iotOverMcpByTransport := AList.update ?t i (iotOverMcpByTransport x)\<rparr>) (snd (NewIotOverMcpClient dev ?t c now p)))"
    using b by (auto simp: bind_iot_def Let_def iot_def NewIotOverMcpClient_def new_client_def split: if_splits)
  have n: "nextSession p' = nextSession p" "nextClient p' = Suc (nextClient p)"
    and io: "iot p' e = (if e = d then AList.update ?t i (iot p d) else iot p e)"
    and old_c: "j < nextClient p \<Longrightarrow> clientAt p' j = clientAt p j" for e j
    by (simp_all add: p' i NewIotOverMcpClient_def new_client_def set_client_def set_session_def iot_def)
  have map: "map_of (iot p' d) = (map_of (iot p d))(?t \<mapsto> i)" by (simp add: io update_conv')
  show ?thesis
  proof (rule inv_step [OF inv])
    show "tame p p'"
      using d by (auto simp: tame_def p' i NewIotOverMcpClient_def new_client_def set_client_def set_session_def)
    show "refs_ok p' (EnsureDrop dev c t i old)" by (simp add: refs_ok_def sessions_of_def clients_of_def closing_def)
    show "distinct (map fst (iot p' e))" if "e < nextSession p'" for e
      using that pool_okD(1) [OF ok] by (simp add: io n distinct_update)
    show "bound p' j \<or> j \<in> held (EnsureDrop dev c t i old)" if j: "j < nextClient p" "bound p j" for j
    proof -
      obtain e k where e: "e < nextSession p" "map_of (iot p e) k = Some j" using j(2) bound_map_of [OF ok] by blast
      show ?thesis
      proof (cases "e = d \<and> k = ?t")
        case True
        then show ?thesis using e old by (simp add: held_def)
      next
        case False
        then have "map_of (iot p' e) k = Some j" using e io map by (cases "e = d") auto
        then show ?thesis using boundI e(1) n by metis
      qed
    qed
    show "bound p' j" if "nextClient p \<le> j" "j < nextClient p'" for j
    proof -
      have "j = i" using that n i by simp
      then have "map_of (iot p' d) ?t = Some j" using map by simp
      then show ?thesis using boundI d n by metis
    qed
  qed (simp add: pc held_def)
qed

text \<open>Sections that take clients out of a session.\<close>

lemma inv_unbound:
  assumes inv: "mcp_inv pcs p" and d: "d < nextSession p" and refs: "refs_ok p pc" and held: "held (pcs g) = {}"
    and sub: "new = filter keep (iot p d)"
    and keep: "\<And>t i. (t, i) \<in> set (iot p d) \<Longrightarrow> \<not> keep (t, i) \<Longrightarrow> i \<in> held pc \<or> \<not> connected (clientAt p i)"
  shows "mcp_inv (pcs(g := pc)) (set_session d (\<lambda>x. x\<lparr>iotOverMcpByTransport := new\<rparr>) p)"
    (is "mcp_inv _ ?p'")
proof -
  have ok: "pool_ok p" using inv by (simp add: mcp_inv_def)
  have io: "iot ?p' e = (if e = d then new else iot p e)" for e by (simp add: set_session_def iot_def)
  have c: "clientAt ?p' = clientAt p" by (simp add: set_session_def)
  show ?thesis
  proof (rule inv_step [OF inv])
    show "tame p ?p'" by (auto simp: tame_def set_session_def)
    show "refs_ok ?p' pc" using refs by (simp add: refs_ok_def set_session_def)
    show "distinct (map fst (iot ?p' e))" if "e < nextSession ?p'" for e
      using that pool_okD(1) [OF ok] unfolding io by (simp add: sub distinct_map_filter)
    show "bound ?p' j \<or> j \<in> held pc" if j: "j < nextClient p" "bound p j" "connected (clientAt ?p' j)" for j
    proof -
      obtain e k where e: "e < nextSession p" "(k, j) \<in> set (iot p e)" using j(2) by (auto simp: bound_def)
      show ?thesis
      proof (cases "e = d \<and> \<not> keep (k, j)")
        case True
        then show ?thesis using keep e(2) j(3) c by auto
      next
        case False
        then have "(k, j) \<in> set (iot ?p' e)" using e(2) unfolding io by (auto simp: sub)
        then show ?thesis using e(1) unfolding bound_def by force
      qed
    qed
  qed (use held in \<open>simp_all add: set_session_def\<close>)
qed

lemma delete_filter: "AList.delete k xs = filter (\<lambda>x. fst x \<noteq> k) xs"
  by (induction xs) auto

lemma inv_unbind:
  assumes inv: "mcp_inv pcs p" and pc: "pcs g = CloseUnbind d c t" and u: "unbind_iot d c t p = (Some i, p')"
  shows "mcp_inv (pcs(g := CloseDrop i)) p'"
proof -
  let ?t = "normalizeDeviceTransportType t"
  let ?new = "AList.delete ?t (iotOverMcpByTransport (sessionAt p d))"
  have d: "d < nextSession p" using refs_at [OF inv, of g] pc by (simp add: refs_ok_def sessions_of_def)
  have i: "map_of (iot p d) ?t = Some i" and p': "p' = set_session d (\<lambda>x. x\<lparr>iotOverMcpByTransport := AList.delete ?t (iotOverMcpByTransport x)\<rparr>) p"
    using u by (auto simp: unbind_iot_def Let_def iot_def split: option.splits if_splits)
  have "p' = set_session d (\<lambda>x. x\<lparr>iotOverMcpByTransport := ?new\<rparr>) p" by (simp add: p' set_session_def)
  moreover have "mcp_inv (pcs(g := CloseDrop i)) (set_session d (\<lambda>x. x\<lparr>iotOverMcpByTransport := ?new\<rparr>) p)"
  proof (rule inv_unbound [OF inv d, where keep = "\<lambda>x. fst x \<noteq> ?t"])
    show "refs_ok p (CloseDrop i)" by (simp add: refs_ok_def sessions_of_def clients_of_def closing_def)
    show "held (pcs g) = {}" by (simp add: pc held_def)
    show "?new = filter (\<lambda>x. fst x \<noteq> ?t) (iot p d)" by (simp add: delete_filter iot_def)
    show "j \<in> held (CloseDrop i) \<or> \<not> connected (clientAt p j)" if "(k, j) \<in> set (iot p d)" "\<not> fst (k, j) \<noteq> ?t" for k j
    proof -
      have "distinct (map fst (iot p d))" using inv d by (simp add: mcp_inv_def pool_okD)
      then have "map_of (iot p d) k = Some j" using that(1) by simp
      then show ?thesis using that(2) i by (simp add: held_def)
    qed
  qed
  ultimately show ?thesis by simp
qed

lemma inv_closed_iot:
  assumes inv: "mcp_inv pcs p" and pc: "pcs g = ClosedIot d i"
  shows "mcp_inv (pcs(g := ClosedCheck d)) (set_session d (removeIotOverMcpByInstance i) p)"
proof -
  let ?new = "filter (\<lambda>(t, j). j \<noteq> i) (iotOverMcpByTransport (sessionAt p d))"
  have d: "d < nextSession p" and i: "\<not> connected (clientAt p i)"
    using refs_at [OF inv, of g] pc by (simp_all add: refs_ok_def sessions_of_def closing_def)
  have "set_session d (removeIotOverMcpByInstance i) p = set_session d (\<lambda>x. x\<lparr>iotOverMcpByTransport := ?new\<rparr>) p"
    by (simp add: set_session_def removeIotOverMcpByInstance_def)
  moreover have "mcp_inv (pcs(g := ClosedCheck d)) (set_session d (\<lambda>x. x\<lparr>iotOverMcpByTransport := ?new\<rparr>) p)"
    by (rule inv_unbound [OF inv d, where keep = "\<lambda>(t, j). j \<noteq> i"])
      (use d i in \<open>auto simp: pc refs_ok_def sessions_of_def clients_of_def closing_def held_def iot_def\<close>)
  ultimately show ?thesis by simp
qed

lemma inv_sweep_iot:
  assumes inv: "mcp_inv pcs p" and pc: "pcs g = SweepIot d act" and s: "mcp_act a (SweepIot d act) p = (pc', p')"
  shows "mcp_inv (pcs(g := pc')) p'"
proof -
  let ?keep = "\<lambda>x. \<not> stale (nowNs a) (clientAt p (snd x))"
  let ?old = "map snd (filter (\<lambda>x. stale (nowNs a) (clientAt p (snd x))) (iot p d))"
  have d: "d < nextSession p" using refs_at [OF inv, of g] pc by (simp add: refs_ok_def sessions_of_def)
  have pc': "pc' = SweepDrop d (act \<or> filter ?keep (iot p d) \<noteq> []) ?old"
    and p': "p' = set_session d (\<lambda>x. x\<lparr>iotOverMcpByTransport := filter ?keep (iot p d)\<rparr>) p"
    using s by (simp_all add: Let_def iot_def comp_def case_prod_beta')
  have "held pc' = set ?old" by (simp add: pc' held_def)
  show ?thesis
    unfolding p'
  proof (rule inv_unbound [OF inv d, where keep = ?keep])
    show "refs_ok p pc'" using d by (simp add: pc' refs_ok_def sessions_of_def clients_of_def closing_def)
    show "held (pcs g) = {}" by (simp add: pc held_def)
    show "i \<in> held pc' \<or> \<not> connected (clientAt p i)" if "(t, i) \<in> set (iot p d)" "\<not> ?keep (t, i)" for t i
      using that by (force simp: pc' held_def)
  qed simp
qed

lemmas refs_simps = refs_ok_def sessions_of_def clients_of_def closing_def

lemma inv_quiet_same:
  assumes "mcp_inv pcs p" and "quiet p p'" and "refs_ok p' pc" and "held (pcs g) \<subseteq> held pc"
  shows "mcp_inv (pcs(g := pc)) p'"
  using assms by (intro inv_quiet) auto

lemma refs_quiet: "refs_ok p pc \<Longrightarrow> quiet p p' \<Longrightarrow> refs_ok p' pc"
  using refs_tame by (auto simp: quiet_def)

lemma quiet_get_or_create:
  assumes "GetOrCreateMcpClient dev p = (r, p')" and "pool_ok p"
  shows "quiet p p'" and "r = Some d \<Longrightarrow> d < nextSession p'"
proof -
  have n: "quiet p (AddMcpClient e (fst (NewDeviceMCPSession e p)) (snd (NewDeviceMCPSession e p)))" for e
    by (rule quiet_trans [OF quiet_new_session(1) quiet_add]) (rule quiet_new_session(2))
  show "quiet p p'"
    using assms(1) n by (auto simp: GetOrCreateMcpClient_def Let_def split: if_splits option.splits prod.splits) (metis fst_conv snd_conv)
  show "d < nextSession p'" if "r = Some d"
    using assms that quiet_new_session(2) pool_okD(3)
    by (auto simp: GetOrCreateMcpClient_def Let_def split: if_splits option.splits prod.splits) (metis fst_conv snd_conv)
qed

lemma quiet_close:
  assumes "closeWithReason i p = (pc, p')" and "pool_ok p" and "i < nextClient p"
  shows "quiet p p'" and "refs_ok p' pc" and "held pc = {}"
proof -
  have "quiet p (set_client i (\<lambda>c. c\<lparr>closeOnce := True, connected := False, initState := InitIdle, clientCancelled := True\<rparr>) p)"
    by (rule quiet_set_client) simp_all
  then show "quiet p p'" using assms(1) by (auto simp: closeWithReason_def split: if_splits)
  show "refs_ok p' pc" "held pc = {}"
    using assms pool_okD(4) [OF assms(2,3)] by (auto simp: closeWithReason_def refs_simps held_def set_client_def split: if_splits option.splits)
qed

lemma act_quiet:
  assumes "mcp_act a pc p = (pc', p')" and "pool_ok p" and "refs_ok p pc"
    and "\<And>dev c t d. pc \<noteq> EnsureBind dev c t d" and "\<And>d c t. pc \<noteq> CloseUnbind d c t" and "\<And>d i. pc \<noteq> ClosedIot d i"
    and "\<And>d act. pc \<noteq> SweepIot d act"
  shows "quiet p p' \<and> refs_ok p' pc' \<and> (\<forall>i \<in> held pc. \<not> connected (clientAt p' i))"
proof (cases pc)
  case (EnsureGet dev c t)
  obtain r q where r: "GetOrCreateMcpClient dev p = (r, q)" by (cases "GetOrCreateMcpClient dev p")
  show ?thesis using assms(1) quiet_get_or_create [OF r assms(2)]
    by (auto simp: EnsureGet r refs_simps held_def split: option.splits)
next
  case (EnsureDrop dev c t i old)
  then show ?thesis using assms(1) by (auto simp: refs_simps held_def split: option.splits)
next
  case (EnsureStart dev c t i)
  define q where "q = (if initOk a then set_client i (\<lambda>x. x\<lparr>serverInfo := True\<rparr>) p else p)"
  define r where "r = (if initOk a then snd (refreshTools i (listed a) q) else q)"
  have "quiet p q" unfolding q_def by (auto intro: quiet_set_client)
  moreover have "quiet q r" unfolding r_def by (auto intro: quiet_refresh)
  moreover have "quiet r (set_client i (\<lambda>x. x\<lparr>initState := InitReady\<rparr>) r)" "quiet r (set_client i (\<lambda>x. x\<lparr>initState := InitIdle\<rparr>) r)"
    by (auto intro: quiet_set_client)
  ultimately have "quiet p (set_client i (\<lambda>x. x\<lparr>initState := InitReady\<rparr>) r)" "quiet p (set_client i (\<lambda>x. x\<lparr>initState := InitIdle\<rparr>) r)"
    using quiet_trans by blast+
  moreover have "p' = set_client i (\<lambda>x. x\<lparr>initState := InitReady\<rparr>) r \<and> pc' = MIdle
      \<or> p' = set_client i (\<lambda>x. x\<lparr>initState := InitIdle\<rparr>) r \<and> pc' = CloseGet dev c t"
    using assms(1) unfolding EnsureStart q_def r_def by (cases "initOk a") (auto simp: Let_def split: prod.splits if_splits)
  ultimately show ?thesis by (auto simp: EnsureStart refs_simps held_def)
next
  case (CloseGet dev c t)
  then show ?thesis using assms(1) pool_okD(3) [OF assms(2)] by (auto simp: refs_simps held_def split: option.splits)
next
  case (CloseDrop i)
  then show ?thesis using assms(1) by (auto simp: refs_simps held_def)
next
  case (WsGet dev addr)
  then show ?thesis using assms(1) pool_okD(3) [OF assms(2)] by (auto simp: refs_simps held_def split: option.splits)
next
  case (WsCreate dev addr)
  have "quiet p (AddMcpClient dev (fst (NewDeviceMCPSession dev p)) (snd (NewDeviceMCPSession dev p)))"
    by (rule quiet_trans [OF quiet_new_session(1) quiet_add]) (rule quiet_new_session(2))
  then show ?thesis using assms(1) quiet_new_session(2) [of dev p] by (auto simp: WsCreate refs_simps held_def split: prod.splits)
next
  case (WsClient dev addr d)
  then show ?thesis
    using assms(1,3) quiet_new_ws [where dev = dev and addr = addr and now = "nowNs a" and ok = "initOk a" and p = p] by (auto simp: refs_simps held_def split: prod.splits)
next
  case (WsStore d i)
  then show ?thesis using assms(1,3) by (auto simp: refs_simps held_def intro!: quiet_ws)
next
  case (WsHandler d i)
  then show ?thesis using assms(1,3) by (auto simp: refs_simps held_def intro!: quiet_set_client)
next
  case (Refresh i)
  then show ?thesis using assms(1,3) quiet_refresh by (auto simp: refs_simps held_def)
next
  case (ClientClose i)
  then show ?thesis using assms quiet_close [of i p pc' p'] by (auto simp: refs_simps held_def)
next
  case (ClosedWs d i)
  then show ?thesis
    using assms(1,3) by (auto simp: refs_simps held_def set_session_def RemoveWsEndPointMcp_def intro!: quiet_ws [unfolded set_session_def])
next
  case (ClosedCheck d)
  then show ?thesis using assms(1,3) by (cases "hasAnyClient (sessionAt p d)") (auto simp: refs_simps held_def)
next
  case (ClosedEnd d)
  have "quiet p (RemoveMcpClient dev (set_session d (\<lambda>x. x\<lparr>sessionCancelled := True\<rparr>) p))" for dev
    by (rule quiet_trans [OF quiet_ws quiet_remove]) simp
  then show ?thesis using assms(1,3) by (auto simp: ClosedEnd refs_simps held_def)
next
  case (Heartbeat i)
  then show ?thesis using assms(1,3) quiet_refresh [of p i "listed a"]
    by (auto simp: refs_simps held_def split: prod.splits if_splits) (metis nextClient_simps(6) snd_conv)+
next
  case (HeartbeatPing i)
  then show ?thesis using assms(1,3) by (auto simp: refs_simps held_def intro!: quiet_set_client)
next
  case (SweepWs d)
  have "quiet p (foldr (\<lambda>i p. if stale (nowNs a) (clientAt p i) then disconnect i p else p) (map snd (wsEndPointMcp (sessionAt p d))) p)"
    by (rule quiet_foldr) simp
  then show ?thesis using assms(1,3) by (auto simp: SweepWs Let_def refs_simps held_def quiet_def tame_def)
next
  case (SweepDrop d act old)
  have "quiet p (foldr disconnect old p)" by (rule quiet_foldr) simp
  then show ?thesis using assms(1,3) by (auto simp: SweepDrop refs_simps held_def foldr_disconnect)
next
  case (SweepEnd d act)
  then show ?thesis using assms(1,3) by (auto simp: refs_simps held_def)
qed (use assms in \<open>auto simp: refs_simps held_def\<close>)

lemma act_inv:
  assumes inv: "mcp_inv pcs p" and s: "mcp_act a (pcs g) p = (pc, p')"
  shows "mcp_inv (pcs(g := pc)) p'"
proof -
  have ok: "pool_ok p" and refs: "refs_ok p (pcs g)" using inv refs_at by (simp_all add: mcp_inv_def)
  consider (bind) dev c t d where "pcs g = EnsureBind dev c t d" | (unbind) d c t where "pcs g = CloseUnbind d c t"
    | (iot) d i where "pcs g = ClosedIot d i" | (sweep) d act where "pcs g = SweepIot d act"
    | (quiet) "quiet p p' \<and> refs_ok p' pc \<and> (\<forall>i \<in> held (pcs g). \<not> connected (clientAt p' i))"
    using act_quiet [OF s ok refs] by metis
  then show ?thesis
  proof cases
    case bind
    obtain r q where b: "bind_iot dev c t d (nowNs a) p = (r, q)" by fastforce
    show ?thesis
    proof (cases r)
      case None
      then have "p' = p" "pc = MIdle" using b s bind by (auto simp: bind_iot_def Let_def split: if_splits prod.splits)
      then show ?thesis using bind by (intro inv_quiet_same [OF inv]) (simp_all add: refs_simps held_def)
    next
      case (Some io)
      then show ?thesis using s b bind inv_bind [OF inv bind] by (cases io) auto
    qed
  next
    case unbind
    obtain r q where b: "unbind_iot d c t p = (r, q)" by fastforce
    show ?thesis
    proof (cases r)
      case None
      then have "p' = p" "pc = MIdle" using b s unbind by (auto simp: unbind_iot_def Let_def split: if_splits option.splits)
      then show ?thesis using unbind by (intro inv_quiet_same [OF inv]) (simp_all add: refs_simps held_def)
    next
      case (Some i)
      then show ?thesis using s b unbind inv_unbind [OF inv unbind] by auto
    qed
  next
    case iot
    then show ?thesis using s inv_closed_iot [OF inv iot] by simp
  next
    case sweep
    from inv_sweep_iot [OF inv sweep s [unfolded sweep]] show ?thesis .
  next
    case quiet
    then show ?thesis by (intro inv_quiet [OF inv]) auto
  qed
qed

text \<open>C11: No runtime is left behind. However the goroutines that bind, replace, close, sweep and lose connections are
  interleaved, a client of a device that is still connected is bound to a transport in a session, or a goroutine is
  about to disconnect it.\<close>

theorem no_runtime_left_behind:
  assumes "mcp_reachable pcs p" and "i < nextClient p" and "clientConn (clientAt p i) \<noteq> None" and "connected (clientAt p i)"
  shows "bound p i \<or> (\<exists>g. i \<in> held (pcs g))"
proof -
  have "mcp_inv pcs p"
    using assms(1)
  proof induction
    case (mcp_init s c)
    show ?case by (simp add: mcp_inv_def pool_ok_def accounted_def refs_simps)
  next
    case (mcp_begin pcs p g pc)
    then show ?case by (intro inv_quiet_same) (auto simp: held_def refs_simps begins_def split: mcp_pc.splits)
  next
    case (mcp_step pcs p a g pc p')
    then show ?case by (blast intro: act_inv)
  qed
  then show ?thesis using assms(2-4) by (simp add: mcp_inv_def accounted_def)
qed

section \<open>Scheduling and binding\<close>

text \<open>Fact: A runtime is set up when one is called for. \<^verbatim>\<open>ShouldScheduleDeviceIotOverMcp\<close> says no, for a device name without
  blanks around it and a connection that has a transport, exactly when the set-up would find its session and leave it
  as it is.\<close>

theorem schedule_agrees_with_ensure:
  assumes "dev \<noteq> []" and "TrimSpace dev = dev" and "TrimSpace t \<notin> {[], runes ''unknown''}"
  shows "\<not> ShouldScheduleDeviceIotOverMcp p dev (Some (c, t)) \<longleftrightarrow>
     (\<exists>d. EnsureDeviceIotOverMcp dev (Some (c, t)) = EnsureGet dev c (TrimSpace t) \<and> GetOrCreateMcpClient dev p = (Some d, p)
        \<and> device2McpClient p dev = Some d \<and> bind_iot dev c (TrimSpace t) d now p = (None, p))"
proof (cases "device2McpClient p dev")
  case None
  then show ?thesis using assms by (simp add: ShouldScheduleDeviceIotOverMcp_def)
next
  case (Some d)
  have n: "normalizeDeviceTransportType (TrimSpace t) = TrimSpace t"
    using assms(3) by (simp add: normalizeDeviceTransportType_def)
  have g: "GetOrCreateMcpClient dev p = (Some d, p)" using assms Some by (simp add: GetOrCreateMcpClient_def)
  have e: "EnsureDeviceIotOverMcp dev (Some (c, t)) = EnsureGet dev c (TrimSpace t)"
    using assms by (simp add: EnsureDeviceIotOverMcp_def)
  have "\<not> ShouldScheduleDeviceIotOverMcp p dev (Some (c, t)) \<longleftrightarrow> bind_iot dev c (TrimSpace t) d now p = (None, p)"
    using assms Some n
    by (auto simp: ShouldScheduleDeviceIotOverMcp_def ShouldScheduleIotInit_def bind_iot_def Let_def split: option.splits prod.splits)
  then show ?thesis using g e Some by simp
qed

section \<open>Runs\<close>

datatype mcp_event = Begin nat mcp_pc | Act nat mcp_answer

fun mcp_exec :: "mcp_event list \<Rightarrow> (nat \<Rightarrow> mcp_pc) \<times> mcp_pool \<Rightarrow> ((nat \<Rightarrow> mcp_pc) \<times> mcp_pool) option" where
  "mcp_exec [] s = Some s"
| "mcp_exec (Begin g pc # es) (pcs, p) = (if pcs g = MIdle \<and> begins p pc then mcp_exec es (pcs(g := pc), p) else None)"
| "mcp_exec (Act g a # es) (pcs, p) = (case mcp_act a (pcs g) p of (pc, p) \<Rightarrow> mcp_exec es (pcs(g := pc), p))"

definition empty_pool :: mcp_pool where
  "empty_pool =
     \<lparr>device2McpClient = Map.empty,
      sessionAt = \<lambda>_. \<lparr>deviceID = [], sessionCancelled = False, wsEndPointMcp = [], iotOverMcpByTransport = []\<rparr>, nextSession = 0,
      clientAt = \<lambda>_. \<lparr>serverName = [], toolsState = [], serverInfo = False, clientConn = None, initState = InitIdle, lastPing = 0,
        connected = False, clientCancelled = False, closeOnce = False, onCloseHandler = None\<rparr>, nextClient = 0\<rparr>"

lemma exec_reachable: "mcp_reachable pcs p \<Longrightarrow> mcp_exec es (pcs, p) = Some (pcs', p') \<Longrightarrow> mcp_reachable pcs' p'"
proof (induction es "(pcs, p)" arbitrary: pcs p rule: mcp_exec.induct)
  case (2 g pc es pcs p)
  then show ?case by (auto intro: mcp_begin split: if_splits)
next
  case (3 g a es pcs p)
  then show ?case by (auto intro: mcp_step simp del: act_defs split: prod.splits)
qed simp

lemma run_reachable: "mcp_exec es (\<lambda>_. MIdle, empty_pool) = Some (pcs, p) \<Longrightarrow> mcp_reachable pcs p"
  by (rule exec_reachable [OF mcp_init [folded empty_pool_def]]) (simp_all add: empty_pool_def mcp_init)

definition at :: "nat \<Rightarrow> mcp_answer" where
  \<comment> \<open>a server that answers, with no tools\<close>
  "at now = \<lparr>nowNs = now, initOk = True, listed = Some [], pingOk = True\<rparr>"

definition a_device :: gostr where "a_device = runes ''d''"
definition ws_transport :: gostr where "ws_transport = runes ''websocket''"

definition set_up :: "mcp_event list" where
  "set_up = [Begin 0 (EnsureGet a_device 7 ws_transport), Act 0 (at 1), Act 0 (at 1), Act 0 (at 1), Act 0 (at 1)]"

definition outcome :: "mcp_event list \<Rightarrow> ((nat \<Rightarrow> mcp_pc) \<times> mcp_pool \<Rightarrow> bool) \<Rightarrow> bool" where
  "outcome es P = (case mcp_exec es (\<lambda>_. MIdle, empty_pool) of None \<Rightarrow> False | Some s \<Rightarrow> P s)"

lemma outcomeD: "outcome es P \<Longrightarrow> \<exists>pcs p. mcp_reachable pcs p \<and> P (pcs, p)"
  by (auto simp: outcome_def intro: run_reachable split: option.splits)

lemma no_runtime_left_behind_witness:
  "\<exists>pcs p. mcp_reachable pcs p \<and> connected (clientAt p 0) \<and> (bound p 0 \<or> (\<exists>g. 0 \<in> held (pcs g)))"
proof -
  have "outcome set_up (\<lambda>(pcs, p). 0 < nextClient p \<and> Option.is_none (clientConn (clientAt p 0)) = False \<and> connected (clientAt p 0))"
    by code_simp
  from outcomeD [OF this] obtain pcs p where r: "mcp_reachable pcs p" "0 < nextClient p" "clientConn (clientAt p 0) \<noteq> None" "connected (clientAt p 0)"
    by (auto simp: Option.is_none_def)
  from no_runtime_left_behind [OF this] r show ?thesis by blast
qed

lemma schedule_agrees_with_ensure_witness:
  "\<not> ShouldScheduleDeviceIotOverMcp empty_pool a_device (Some (7, ws_transport)) \<longleftrightarrow>
     (\<exists>d. EnsureDeviceIotOverMcp a_device (Some (7, ws_transport)) = EnsureGet a_device 7 (TrimSpace ws_transport)
        \<and> GetOrCreateMcpClient a_device empty_pool = (Some d, empty_pool)
        \<and> device2McpClient empty_pool a_device = Some d \<and> bind_iot a_device 7 (TrimSpace ws_transport) d 1 empty_pool = (None, empty_pool))"
proof (rule schedule_agrees_with_ensure)
  show "a_device \<noteq> []" "TrimSpace a_device = a_device" "TrimSpace ws_transport \<notin> {[], runes ''unknown''}" by code_simp+
qed

definition orphan_run :: "mcp_event list" where
  "orphan_run = [Begin 0 (EnsureGet a_device 7 ws_transport), Act 0 (at 1), Begin 1 (SweepWs 0), Act 1 (at 1), Act 1 (at 1),
      Act 0 (at 1), Act 0 (at 1), Act 0 (at 1), Act 1 (at 1), Act 1 (at 1)]"

lemmas run_simps = outcome_def a_device_def ws_transport_def at_def empty_pool_def begins_def GetOrCreateMcpClient_def Let_def
  NewDeviceMCPSession_def set_session_def AddMcpClient_def bind_iot_def NewIotOverMcpClient_def new_client_def set_client_def
  TrimSpace_def trim_by_def is_space_def in_ranges_def runes_def normalizeDeviceTransportType_def refreshTools_def RemoveMcpClient_def

text \<open>Fact: A sweep can orphan a new runtime. The sweep looks at a session before the device's client is bound in it,
  and removes the session from the pool afterwards: the client is ready and connected, both goroutines are done,
  and the pool knows no session of the device.\<close>

theorem sweep_orphans_new_runtime:
  "\<exists>pcs p d i. mcp_reachable pcs p \<and> bound p i \<and> connected (clientAt p i) \<and> initState (clientAt p i) = InitReady
     \<and> deviceID (sessionAt p d) = a_device \<and> (\<exists>t. map_of (iot p d) t = Some i) \<and> device2McpClient p a_device = None
     \<and> (\<forall>g < 2. pcs g = MIdle)"
proof -
  have "outcome orphan_run (\<lambda>(pcs, p). 0 < nextSession p \<and> connected (clientAt p 0) \<and> initState (clientAt p 0) = InitReady
      \<and> deviceID (sessionAt p 0) = a_device \<and> map_of (iot p 0) ws_transport = Some 0 \<and> device2McpClient p a_device = None
      \<and> pcs 0 = MIdle \<and> pcs 1 = MIdle)"
    by (simp add: orphan_run_def run_simps iot_def)
  from outcomeD [OF this] obtain pcs p where "mcp_reachable pcs p" "0 < nextSession p" "connected (clientAt p 0)"
      "initState (clientAt p 0) = InitReady" "deviceID (sessionAt p 0) = a_device" "map_of (iot p 0) ws_transport = Some 0"
      "device2McpClient p a_device = None" "pcs 0 = MIdle" "pcs 1 = MIdle" by auto
  moreover from this have "bound p 0" by (blast intro: boundI)
  moreover have "\<forall>g < 2. pcs g = MIdle" using \<open>pcs 0 = MIdle\<close> \<open>pcs 1 = MIdle\<close> by (simp add: numeral_2_eq_2 All_less_Suc)
  ultimately show ?thesis by blast
qed

end
