(* ===== verification/Mcp_Tools.thy ===== *)
theory Mcp_Tools
  imports Mcp_Sessions
begin

text \<open>
  Which tools the model is offered and which tool a call of the model reaches, \<^verbatim>\<open>internal/domain/mcp/mcp_client.go\<close>
  with the tables of \<^verbatim>\<open>local_manager.go\<close>, \<^verbatim>\<open>global_manage.go\<close> and the sessions of devices. A tool table is a map. The
  orders in which Go visits a map are arguments: \<open>ord\<close> for maps of servers, \<open>visit\<close> for those of clients.
\<close>

section \<open>Tables\<close>

type_synonym tools = "gostr \<Rightarrow> mcp_tool option"

record tool_world =
  localTools :: tools
  servers :: "gostr list"
  globalTools :: tools
  devices :: mcp_pool

datatype register_error = ToolEmpty | ToolNameEmpty | HandlerEmpty | ToolNotExists

definition RegisterTool :: "mcp_tool option \<Rightarrow> tools \<Rightarrow> register_error + tools" where
  "RegisterTool new ts =
     (case new of
        None \<Rightarrow> Inl ToolEmpty
      | Some x \<Rightarrow>
          (if infoName x = [] then Inl ToolNameEmpty
           else if \<not> isLocal x \<or> \<not> hasHandler x then Inl HandlerEmpty
           else Inr (ts(infoName x \<mapsto> x))))"

definition UnregisterTool :: "gostr \<Rightarrow> tools \<Rightarrow> register_error + tools" where
  "UnregisterTool name ts = (case ts name of None \<Rightarrow> Inl ToolNotExists | Some x \<Rightarrow> Inr (ts(name := None)))"

definition global_key :: "gostr \<Rightarrow> gostr \<Rightarrow> gostr" where
  \<comment> \<open>the format \<^verbatim>\<open>%s_%s\<close>\<close>
  "global_key server name = server @ [95] @ name"

definition removeGlobalTools :: "gostr \<Rightarrow> tools \<Rightarrow> tools" where
  "removeGlobalTools server g = (\<lambda>k. case g k of None \<Rightarrow> None | Some x \<Rightarrow> if toolServer x = server then None else Some x)"

definition updateGlobalTools :: "gostr \<Rightarrow> (gostr \<times> mcp_tool) list \<Rightarrow> tools \<Rightarrow> tools" where
  "updateGlobalTools server new g = foldl (\<lambda>g (name, x). g(global_key server name \<mapsto> x)) (removeGlobalTools server g) new"

definition buildAllowedToolSet :: "gostr list \<Rightarrow> gostr list" where
  "buildAllowedToolSet allowed = filter (\<lambda>n. n \<noteq> []) (map TrimSpace allowed)"

definition filterMCPToolsByAllowList :: "gostr list \<Rightarrow> gostr list \<Rightarrow> gostr list" where
  \<comment> \<open>of tools, by their names\<close>
  "filterMCPToolsByAllowList names allowed =
     (let s = buildAllowedToolSet allowed in if s = [] then names else filter (\<lambda>n. TrimSpace n \<in> set s) names)"

definition ConvertMcpToolListToInvokableToolList :: "gostr \<Rightarrow> nat \<Rightarrow> (gostr \<Rightarrow> bool) \<Rightarrow> gostr list \<Rightarrow> (gostr \<times> mcp_tool) list" where
  \<comment> \<open>the tools whose schema converts; a name that comes again is overwritten\<close>
  "ConvertMcpToolListToInvokableToolList server cl converts names =
     map (\<lambda>n. (n, \<lparr>infoName = n, toolServer = server, toolClient = cl, isLocal = False, hasHandler = False\<rparr>))
       (remdups (filter converts names))"

section \<open>Selected services\<close>

fun split_on :: "rune \<Rightarrow> gostr \<Rightarrow> gostr \<Rightarrow> gostr list" where
  \<comment> \<open>\<^verbatim>\<open>strings.Split\<close> at a rune\<close>
  "split_on c acc [] = [acc]"
| "split_on c acc (r # rs) = (if r = c then acc # split_on c [] rs else split_on c (acc @ [r]) rs)"

definition parseSelectedMCPServiceNames :: "gostr \<Rightarrow> gostr list" where
  \<comment> \<open>a set; \<open>[]\<close> is nil as well\<close>
  "parseSelectedMCPServiceNames raw =
     (if TrimSpace raw = [] then [] else remdups (filter (\<lambda>n. n \<noteq> []) (map TrimSpace (split_on 44 [] (TrimSpace raw)))))"

definition isGlobalToolAllowed :: "gostr \<Rightarrow> gostr list \<Rightarrow> bool" where
  "isGlobalToolAllowed key selected \<longleftrightarrow> selected = [] \<or> list_ex (\<lambda>s. prefix (s @ [95]) key) selected"

definition filterGlobalToolsBySelectedServices :: "tools \<Rightarrow> gostr \<Rightarrow> tools" where
  "filterGlobalToolsBySelectedServices g raw =
     (let selected = parseSelectedMCPServiceNames raw
      in if selected = [] then g else (\<lambda>k. if isGlobalToolAllowed k selected then g k else None))"

section \<open>Tools of devices and agents\<close>

fun first_some :: "('a \<Rightarrow> 'b option) \<Rightarrow> 'a list \<Rightarrow> 'b option" where
  "first_some f [] = None"
| "first_some f (x # xs) = (case f x of Some y \<Rightarrow> Some y | None \<Rightarrow> first_some f xs)"

type_synonym visits = "(gostr \<times> nat) list \<Rightarrow> (gostr \<times> nat) list"

definition getToolByName :: "mcp_pool \<Rightarrow> gostr \<Rightarrow> nat \<Rightarrow> mcp_tool option" where
  "getToolByName p name i = map_of (toolsState (clientAt p i)) name"

definition copyToolsInto :: "mcp_pool \<Rightarrow> (gostr \<times> nat) list \<Rightarrow> tools \<Rightarrow> tools" where
  \<comment> \<open>the clients in turn, a later one overwriting\<close>
  "copyToolsInto p cs dst = foldl (\<lambda>m (name, i). m ++ map_of (toolsState (clientAt p i))) dst cs"

definition session_GetTools :: "visits \<Rightarrow> mcp_pool \<Rightarrow> nat \<Rightarrow> tools" where
  "session_GetTools visit p d =
     copyToolsInto p (visit (wsEndPointMcp (sessionAt p d)) @ visit (iotOverMcpByTransport (sessionAt p d))) Map.empty"

definition GetWsEndpointMcpTools :: "visits \<Rightarrow> mcp_pool \<Rightarrow> gostr \<Rightarrow> tools" where
  "GetWsEndpointMcpTools visit p agent =
     (case device2McpClient p agent of
        None \<Rightarrow> Map.empty
      | Some d \<Rightarrow> copyToolsInto p (visit (wsEndPointMcp (sessionAt p d))) Map.empty)"

definition GetIotToolsByTransport :: "mcp_pool \<Rightarrow> nat \<Rightarrow> gostr \<Rightarrow> tools" where
  "GetIotToolsByTransport p d t =
     (if TrimSpace t = [] then Map.empty
      else (case map_of (iotOverMcpByTransport (sessionAt p d)) (TrimSpace t) of
              None \<Rightarrow> Map.empty
            | Some i \<Rightarrow> map_of (toolsState (clientAt p i))))"

definition GetIotToolByTransportAndName :: "mcp_pool \<Rightarrow> nat \<Rightarrow> gostr \<Rightarrow> gostr \<Rightarrow> mcp_tool option" where
  "GetIotToolByTransportAndName p d t name =
     (if TrimSpace t = [] then None
      else (case map_of (iotOverMcpByTransport (sessionAt p d)) (TrimSpace t) of
              None \<Rightarrow> None
            | Some i \<Rightarrow> getToolByName p name i))"

definition session_GetToolByName :: "visits \<Rightarrow> mcp_pool \<Rightarrow> gostr \<Rightarrow> nat \<Rightarrow> mcp_tool option" where
  "session_GetToolByName visit p name d =
     (case first_some (\<lambda>(n, i). getToolByName p name i) (visit (wsEndPointMcp (sessionAt p d))) of
        Some x \<Rightarrow> Some x
      | None \<Rightarrow> first_some (\<lambda>(n, i). getToolByName p name i) (visit (iotOverMcpByTransport (sessionAt p d))))"

definition GetToolByDeviceId :: "visits \<Rightarrow> mcp_pool \<Rightarrow> gostr \<Rightarrow> gostr \<Rightarrow> mcp_tool option" where
  "GetToolByDeviceId visit p dev name =
     (case device2McpClient p dev of None \<Rightarrow> None | Some d \<Rightarrow> session_GetToolByName visit p name d)"

definition GetAllToolsByDeviceIdAndAgentId :: "visits \<Rightarrow> mcp_pool \<Rightarrow> gostr \<Rightarrow> gostr \<Rightarrow> tools" where
  "GetAllToolsByDeviceIdAndAgentId visit p dev agent =
     (case device2McpClient p dev of None \<Rightarrow> Map.empty | Some d \<Rightarrow> session_GetTools visit p d)
     ++ (case device2McpClient p agent of None \<Rightarrow> Map.empty | Some d \<Rightarrow> session_GetTools visit p d)"

section \<open>What is offered and what a call reaches\<close>

definition add_missing :: "tools \<Rightarrow> tools \<Rightarrow> tools" where
  "add_missing ret new = new ++ ret"

definition GetToolsByDeviceIdWithTransport :: "visits \<Rightarrow> tool_world \<Rightarrow> gostr \<Rightarrow> gostr \<Rightarrow> gostr \<Rightarrow> gostr \<Rightarrow> tools" where
  "GetToolsByDeviceIdWithTransport visit w dev agent t selected =
     (let p = devices w;
          ret = localTools w;
          ret = add_missing ret (filterGlobalToolsBySelectedServices (globalTools w) selected);
          t = TrimSpace t;
          ret = (if t \<noteq> [] \<and> dev \<noteq> []
                 then (case device2McpClient p dev of None \<Rightarrow> ret | Some d \<Rightarrow> add_missing ret (GetIotToolsByTransport p d t)) else ret)
      in if t = [] then add_missing ret (GetAllToolsByDeviceIdAndAgentId visit p dev agent)
         else if agent \<noteq> [] \<and> agent \<noteq> dev then add_missing ret (GetWsEndpointMcpTools visit p agent) else ret)"

definition global_GetToolByName :: "(gostr list \<Rightarrow> gostr list) \<Rightarrow> tool_world \<Rightarrow> gostr \<Rightarrow> mcp_tool option" where
  "global_GetToolByName ord w name = first_some (\<lambda>s. globalTools w (global_key s name)) (ord (servers w))"

definition GetToolByNameWithTransport
    :: "(gostr list \<Rightarrow> gostr list) \<Rightarrow> visits \<Rightarrow> tool_world \<Rightarrow> gostr \<Rightarrow> gostr \<Rightarrow> gostr \<Rightarrow> gostr \<Rightarrow> gostr \<Rightarrow> mcp_tool option" where
  "GetToolByNameWithTransport ord visit w dev agent t name selectedNames =
     (let p = devices w;
          selected = parseSelectedMCPServiceNames selectedNames;
          from_global =
            (if selected = [] then global_GetToolByName ord w name
             else if globalTools w name \<noteq> None \<and> isGlobalToolAllowed name selected then globalTools w name
             else first_some (\<lambda>s. globalTools w (global_key s name)) (ord selected));
          t = TrimSpace t
      in case localTools w name of
           Some x \<Rightarrow> Some x
         | None \<Rightarrow>
             (case from_global of
                Some x \<Rightarrow> Some x
              | None \<Rightarrow>
                  (if t \<noteq> [] then
                     (case (case device2McpClient p dev of None \<Rightarrow> None | Some d \<Rightarrow> GetIotToolByTransportAndName p d t name) of
                        Some x \<Rightarrow> Some x
                      | None \<Rightarrow> (if agent \<noteq> [] \<and> agent \<noteq> dev then GetToolByDeviceId visit p agent name else None))
                   else (case GetToolByDeviceId visit p dev name of
                           Some x \<Rightarrow> Some x
                         | None \<Rightarrow> (if agent \<noteq> [] \<and> agent \<noteq> dev then GetToolByDeviceId visit p agent name else None)))))"

definition ConvertMCPToolsToEinoTools :: "gostr list \<Rightarrow> tools \<Rightarrow> gostr list" where
  \<comment> \<open>the names that the model sees, of the tools under the given keys\<close>
  "ConvertMCPToolsToEinoTools keys ts = map infoName (List.map_filter ts keys)"

section \<open>Well-formed tables\<close>

definition keyed :: "tools \<Rightarrow> bool" where
  "keyed ts \<longleftrightarrow> (\<forall>n x. ts n = Some x \<longrightarrow> infoName x = n)"

definition global_ok :: "tools \<Rightarrow> bool" where
  "global_ok g \<longleftrightarrow> (\<forall>k x. g k = Some x \<longrightarrow> k = global_key (toolServer x) (infoName x))"

definition world_ok :: "tool_world \<Rightarrow> bool" where
  "world_ok w \<longleftrightarrow> keyed (localTools w) \<and> global_ok (globalTools w)
     \<and> (\<forall>k x. globalTools w k = Some x \<longrightarrow> toolServer x \<in> set (servers w))
     \<and> (\<forall>i. keyed (map_of (toolsState (clientAt (devices w) i)))) \<and> device2McpClient (devices w) [] = None"

text \<open>The operations on the tables keep them well-formed.\<close>

lemma keyed_RegisterTool: "keyed ts \<Longrightarrow> RegisterTool new ts = Inr ts' \<Longrightarrow> keyed ts'"
  by (auto simp: keyed_def RegisterTool_def split: option.splits if_splits)

lemma keyed_UnregisterTool: "keyed ts \<Longrightarrow> UnregisterTool n ts = Inr ts' \<Longrightarrow> keyed ts'"
  by (auto simp: keyed_def UnregisterTool_def split: option.splits if_splits)

lemma keyed_Convert: "keyed (map_of (ConvertMcpToolListToInvokableToolList server cl conv names))"
  by (auto simp: keyed_def ConvertMcpToolListToInvokableToolList_def map_of_map_restrict restrict_map_def split: if_splits)

lemma global_ok_remove: "global_ok g \<Longrightarrow> global_ok (removeGlobalTools server g)"
  by (auto simp: global_ok_def removeGlobalTools_def split: option.splits if_splits)

lemma global_ok_update:
  assumes "global_ok g" and "\<forall>(n, x) \<in> set new. infoName x = n \<and> toolServer x = server"
  shows "global_ok (updateGlobalTools server new g)"
proof -
  have "global_ok (foldl (\<lambda>g (name, x). g(global_key server name \<mapsto> x)) g new)" if "global_ok g" for g
    using assms(2) that
  proof (induction new arbitrary: g)
    case (Cons a new)
    obtain n x where a: "a = (n, x)" by fastforce
    have ok: "global_ok (g(global_key server n \<mapsto> x))" using Cons.prems by (simp add: global_ok_def a)
    then have "global_ok (foldl (\<lambda>g (name, x). g(global_key server name \<mapsto> x)) (g(global_key server n \<mapsto> x)) new)"
      using Cons.prems by (intro Cons.IH ok) simp
    then show ?case by (simp add: a del: fun_upd_apply)
  qed simp
  then show ?thesis using global_ok_remove [OF assms(1)] by (simp add: updateGlobalTools_def)
qed

text \<open>Fact: Refreshing a server replaces its tools and touches no other's. Afterwards the table holds, under the keys of
  the server, exactly the tools that the server has now, and whatever the others had, unless it lay under a key that a
  new tool has taken.\<close>

theorem updateGlobalTools_spec:
  assumes "distinct (map fst new)"
  shows "updateGlobalTools server new g k =
     (case map_of (map (\<lambda>(n, x). (global_key server n, x)) new) k of
        Some x \<Rightarrow> Some x
      | None \<Rightarrow> (case g k of Some x \<Rightarrow> if toolServer x = server then None else Some x | None \<Rightarrow> None))"
proof -
  have inj: "global_key server m = global_key server n \<longleftrightarrow> m = n" for m n by (simp add: global_key_def)
  have "foldl (\<lambda>g (name, x). g(global_key server name \<mapsto> x)) h new k =
      (case map_of (map (\<lambda>(n, x). (global_key server n, x)) new) k of Some x \<Rightarrow> Some x | None \<Rightarrow> h k)" for h
    using assms
  proof (induction new arbitrary: h)
    case (Cons a new)
    obtain n x where a: "a = (n, x)" by fastforce
    have "map_of (map (\<lambda>(n, x). (global_key server n, x)) new) (global_key server n) = None"
      using Cons.prems by (force simp: a map_of_eq_None_iff inj)
    then show ?case using Cons by (auto simp: a split: option.split)
  qed simp
  then show ?thesis unfolding updateGlobalTools_def removeGlobalTools_def by (auto split: option.split)
qed

section \<open>Every offered tool can be called\<close>

lemma first_some_None: "first_some f xs = None \<longleftrightarrow> (\<forall>x \<in> set xs. f x = None)"
  by (induction xs) (auto split: option.split)

lemma first_some_found: "x \<in> set xs \<Longrightarrow> f x \<noteq> None \<Longrightarrow> first_some f xs \<noteq> None"
  by (auto simp: first_some_None)

lemma copied: "copyToolsInto p cs dst k = Some x \<Longrightarrow> dst k = Some x \<or> (\<exists>n i. (n, i) \<in> set cs \<and> map_of (toolsState (clientAt p i)) k = Some x)"
proof (induction cs arbitrary: dst)
  case (Cons c cs)
  obtain n i where c: "c = (n, i)" by fastforce
  from Cons.prems have "copyToolsInto p cs (dst ++ map_of (toolsState (clientAt p i))) k = Some x" by (simp add: copyToolsInto_def c)
  from Cons.IH [OF this] show ?case by (auto simp: c map_add_Some_iff)
qed (simp add: copyToolsInto_def)

definition parallel_names :: "gostr list \<Rightarrow> gostr list \<Rightarrow> bool" where
  \<comment> \<open>no name of a server continues the name of a selected one behind an underscore, nor the other way round\<close>
  "parallel_names selected servs \<longleftrightarrow>
     (\<forall>s \<in> set selected. \<forall>v \<in> set servs. s \<noteq> v \<longrightarrow> \<not> prefix (s @ [95]) (v @ [95]) \<and> \<not> prefix (v @ [95]) (s @ [95]))"

lemma allowed_selected:
  assumes "isGlobalToolAllowed (global_key v n) selected" and "selected \<noteq> []" and "v \<in> set servs" and "parallel_names selected servs"
  shows "v \<in> set selected"
proof -
  obtain s where s: "s \<in> set selected" "prefix (s @ [95]) ((v @ [95]) @ n)"
    using assms(1,2) by (auto simp: isGlobalToolAllowed_def global_key_def list_ex_iff)
  then have "prefix (s @ [95]) (v @ [95]) \<or> prefix (v @ [95]) (s @ [95])" by (metis prefix_same_cases prefixI)
  then have "s = v" using assms(3,4) s(1) unfolding parallel_names_def by blast
  then show ?thesis using s(1) by simp
qed

lemma global_found:
  assumes ok: "world_ok w" and ord: "\<And>xs. set (ord xs) = set xs" and sel: "selected = parseSelectedMCPServiceNames raw"
    and par: "parallel_names selected (servers w)" and g: "filterGlobalToolsBySelectedServices (globalTools w) raw key = Some x"
  shows "(if selected = [] then global_GetToolByName ord w (infoName x)
     else first_some (\<lambda>s. globalTools w (global_key s (infoName x))) (ord selected)) \<noteq> None"
proof -
  have k: "globalTools w key = Some x" and a: "selected \<noteq> [] \<Longrightarrow> isGlobalToolAllowed key selected"
    using g sel by (auto simp: filterGlobalToolsBySelectedServices_def Let_def split: if_splits)
  have key: "key = global_key (toolServer x) (infoName x)" and s: "toolServer x \<in> set (servers w)"
    using ok k by (auto simp: world_ok_def global_ok_def)
  show ?thesis
  proof (cases "selected = []")
    case True
    have "first_some (\<lambda>s. globalTools w (global_key s (infoName x))) (ord (servers w)) \<noteq> None"
      by (rule first_some_found [of "toolServer x"]) (use ord s k key in simp_all)
    then show ?thesis using True by (simp add: global_GetToolByName_def)
  next
    case False
    have "toolServer x \<in> set selected" using allowed_selected [OF _ False s par] a [OF False] key by metis
    then have "first_some (\<lambda>s. globalTools w (global_key s (infoName x))) (ord selected) \<noteq> None"
      by (intro first_some_found [of "toolServer x"]) (use ord k key in simp_all)
    then show ?thesis using False by simp
  qed
qed

lemma session_found:
  assumes "\<And>xs. set (visit xs) = set xs" and "getToolByName p name i \<noteq> None"
    and "(n, i) \<in> set (wsEndPointMcp (sessionAt p d)) \<union> set (iotOverMcpByTransport (sessionAt p d))"
  shows "session_GetToolByName visit p name d \<noteq> None"
proof -
  let ?f = "\<lambda>(n :: gostr, i). getToolByName p name i"
  have "(n, i) \<in> set (visit (wsEndPointMcp (sessionAt p d))) \<or> (n, i) \<in> set (visit (iotOverMcpByTransport (sessionAt p d)))"
    using assms(1,3) by simp
  then have "first_some ?f (visit (wsEndPointMcp (sessionAt p d))) \<noteq> None \<or> first_some ?f (visit (iotOverMcpByTransport (sessionAt p d))) \<noteq> None"
    using first_some_found [of "(n, i)" _ ?f] assms(2) by auto
  then show ?thesis unfolding session_GetToolByName_def by (auto split: option.split)
qed

lemma session_tool_found:
  assumes "\<And>xs. set (visit xs) = set xs" and "session_GetTools visit p d k = Some x" and "\<And>i. keyed (map_of (toolsState (clientAt p i)))"
  shows "session_GetToolByName visit p (infoName x) d \<noteq> None"
proof -
  obtain n i where i: "(n, i) \<in> set (wsEndPointMcp (sessionAt p d)) \<union> set (iotOverMcpByTransport (sessionAt p d))"
      "map_of (toolsState (clientAt p i)) k = Some x"
    using copied [OF assms(2) [unfolded session_GetTools_def]] assms(1) by auto
  then have "getToolByName p (infoName x) i \<noteq> None" using assms(3) by (auto simp: getToolByName_def keyed_def)
  then show ?thesis using session_found [OF assms(1) _ i(1)] by blast
qed

lemma ws_tool_found:
  assumes "\<And>xs. set (visit xs) = set xs" and "GetWsEndpointMcpTools visit p a k = Some x" and "\<And>i. keyed (map_of (toolsState (clientAt p i)))"
  shows "GetToolByDeviceId visit p a (infoName x) \<noteq> None"
proof -
  obtain d where d: "device2McpClient p a = Some d" "copyToolsInto p (visit (wsEndPointMcp (sessionAt p d))) Map.empty k = Some x"
    using assms(2) by (auto simp: GetWsEndpointMcpTools_def split: option.splits)
  obtain n i where i: "(n, i) \<in> set (wsEndPointMcp (sessionAt p d))" "map_of (toolsState (clientAt p i)) k = Some x"
    using copied [OF d(2)] assms(1) by auto
  then have "getToolByName p (infoName x) i \<noteq> None" using assms(3) by (auto simp: getToolByName_def keyed_def)
  then show ?thesis using d(1) session_found [OF assms(1), of p "infoName x" i n d] i(1) by (simp add: GetToolByDeviceId_def)
qed

lemma transport_tool:
  assumes "GetIotToolsByTransport p d t k = Some x" and "\<And>i. keyed (map_of (toolsState (clientAt p i)))"
  shows "GetIotToolByTransportAndName p d t (infoName x) = Some x"
  using assms by (auto simp: GetIotToolsByTransport_def GetIotToolByTransportAndName_def getToolByName_def keyed_def split: if_splits option.splits)

text \<open>Where an offered tool comes from.\<close>

lemma offered_cases:
  assumes "GetToolsByDeviceIdWithTransport visit w dev agent t raw key = Some x" and "device2McpClient (devices w) [] = None"
  obtains (loc) "localTools w key = Some x"
  | (glob) "filterGlobalToolsBySelectedServices (globalTools w) raw key = Some x"
  | (trans) d where "TrimSpace t \<noteq> []" "device2McpClient (devices w) dev = Some d" "GetIotToolsByTransport (devices w) d (TrimSpace t) key = Some x"
  | (agent) "TrimSpace t \<noteq> []" "agent \<noteq> []" "agent \<noteq> dev" "GetWsEndpointMcpTools visit (devices w) agent key = Some x"
  | (dev) d where "TrimSpace t = []" "device2McpClient (devices w) dev = Some d" "session_GetTools visit (devices w) d key = Some x"
  | (agent') d where "TrimSpace t = []" "agent \<noteq> []" "agent \<noteq> dev" "device2McpClient (devices w) agent = Some d"
      "session_GetTools visit (devices w) d key = Some x"
proof (cases "TrimSpace t = []")
  case True
  then have "localTools w key = Some x \<or> filterGlobalToolsBySelectedServices (globalTools w) raw key = Some x
      \<or> GetAllToolsByDeviceIdAndAgentId visit (devices w) dev agent key = Some x"
    using assms(1) by (auto simp: GetToolsByDeviceIdWithTransport_def Let_def add_missing_def map_add_Some_iff)
  then show thesis
  proof (elim disjE)
    assume "GetAllToolsByDeviceIdAndAgentId visit (devices w) dev agent key = Some x"
    then show thesis
      using True dev agent' assms(2) unfolding GetAllToolsByDeviceIdAndAgentId_def
      by (cases "agent = dev"; cases "agent = []") (auto simp: map_add_Some_iff split: option.splits)
  qed (use loc glob in auto)
next
  case False
  then show thesis
    using assms(1) loc glob trans agent
    by (auto simp: GetToolsByDeviceIdWithTransport_def Let_def add_missing_def map_add_Some_iff split: if_splits option.splits)
qed


section \<open>Instances\<close>

definition a_tool :: mcp_tool where
  "a_tool = \<lparr>infoName = runes ''t'', toolServer = runes ''a_b'', toolClient = 0, isLocal = False, hasHandler = False\<rparr>"

definition a_world :: tool_world where
  "a_world = \<lparr>localTools = Map.empty, servers = [runes ''a_b''], globalTools = [runes ''a_b_t'' \<mapsto> a_tool], devices = empty_pool\<rparr>"

lemma a_world_ok: "world_ok a_world"
  by (simp add: world_ok_def a_world_def keyed_def global_ok_def global_key_def a_tool_def runes_def empty_pool_def)


text \<open>Fact: Names that continue each other are not told apart. When the service \<open>a\<close> is selected, the tools of a server
  \<open>a_b\<close> are offered as well, and a call of such a tool finds none.\<close>

theorem unselected_server_is_offered:
  "GetToolsByDeviceIdWithTransport id a_world (runes ''d'') [] (runes ''websocket'') (runes ''a'') (runes ''a_b_t'') = Some a_tool
     \<and> toolServer a_tool \<notin> set (parseSelectedMCPServiceNames (runes ''a''))
     \<and> GetToolByNameWithTransport id id a_world (runes ''d'') [] (runes ''websocket'') (infoName a_tool) (runes ''a'') = None"
  by (simp add: GetToolsByDeviceIdWithTransport_def GetToolByNameWithTransport_def Let_def a_world_def add_missing_def
      filterGlobalToolsBySelectedServices_def parseSelectedMCPServiceNames_def isGlobalToolAllowed_def global_key_def a_tool_def
      TrimSpace_def trim_by_def is_space_def in_ranges_def runes_def empty_pool_def)

section \<open>The preferred transport\<close>

definition isSupportedTransport :: "gostr \<Rightarrow> bool" where
  "isSupportedTransport t \<longleftrightarrow> normalizeDeviceTransportType t \<in> {runes ''websocket'', runes ''udp'', runes ''mqtt_udp''}"

definition prefer_client :: "mcp_pool \<Rightarrow> bool \<Rightarrow> (gostr \<times> nat) option \<Rightarrow> gostr \<times> nat \<Rightarrow> (gostr \<times> nat) option" where
  "prefer_client p connectedOnly best c =
     (case c of (t, i) \<Rightarrow>
        (let t = normalizeDeviceTransportType t
         in if \<not> isSupportedTransport t then best
            else if connectedOnly \<and> \<not> connected (clientAt p i) then best
            else (case best of
                    None \<Rightarrow> Some (t, i)
                  | Some (u, j) \<Rightarrow>
                      (if lastPing (clientAt p i) > lastPing (clientAt p j) then Some (t, i)
                       else if lastPing (clientAt p i) = lastPing (clientAt p j) \<and> t < u then Some (t, i)
                       else best))))"

definition selectPreferred :: "mcp_pool \<Rightarrow> bool \<Rightarrow> (gostr \<times> nat) list \<Rightarrow> (gostr \<times> nat) option" where
  "selectPreferred p connectedOnly cs = foldl (prefer_client p connectedOnly) None cs"

definition GetPreferredIotTransportType :: "visits \<Rightarrow> mcp_pool \<Rightarrow> nat \<Rightarrow> gostr" where
  "GetPreferredIotTransportType visit p d =
     (let cs = visit (iotOverMcpByTransport (sessionAt p d))
      in case selectPreferred p True cs of
           Some (t, i) \<Rightarrow> t
         | None \<Rightarrow> (case selectPreferred p False cs of Some (t, i) \<Rightarrow> t | None \<Rightarrow> []))"

definition candidates :: "mcp_pool \<Rightarrow> bool \<Rightarrow> (gostr \<times> nat) list \<Rightarrow> (gostr \<times> nat) set" where
  "candidates p co cs = {(normalizeDeviceTransportType t, i) | t i. (t, i) \<in> set cs \<and> isSupportedTransport (normalizeDeviceTransportType t)
     \<and> (co \<longrightarrow> connected (clientAt p i))}"

definition best_of :: "mcp_pool \<Rightarrow> (gostr \<times> nat) set \<Rightarrow> gostr \<times> nat \<Rightarrow> bool" where
  "best_of p C c \<longleftrightarrow> c \<in> C \<and> (\<forall>(u, j) \<in> C. lastPing (clientAt p j) < lastPing (clientAt p (snd c))
     \<or> lastPing (clientAt p j) = lastPing (clientAt p (snd c)) \<and> fst c \<le> u)"

lemma candidates_snoc:
  "candidates p co (cs @ [(t, i)]) =
     (if isSupportedTransport (normalizeDeviceTransportType t) \<and> (co \<longrightarrow> connected (clientAt p i))
      then insert (normalizeDeviceTransportType t, i) (candidates p co cs) else candidates p co cs)"
  unfolding candidates_def by auto

lemma best_in: "best_of p C c \<Longrightarrow> c \<in> C"
  by (simp add: best_of_def)

lemma best_insert_new:
  assumes "best_of p C (u, j)"
    and "lastPing (clientAt p i) > lastPing (clientAt p j) \<or> lastPing (clientAt p i) = lastPing (clientAt p j) \<and> t < u"
  shows "best_of p (insert (t, i) C) (t, i)"
  unfolding best_of_def
proof (intro conjI ballI)
  fix x assume x: "x \<in> insert (t, i) C"
  obtain v k where v: "x = (v, k)" by fastforce
  show "case x of (v, k) \<Rightarrow> lastPing (clientAt p k) < lastPing (clientAt p (snd (t, i)))
      \<or> lastPing (clientAt p k) = lastPing (clientAt p (snd (t, i))) \<and> fst (t, i) \<le> v"
  proof (cases "x = (t, i)")
    case False
    then have "lastPing (clientAt p k) < lastPing (clientAt p j) \<or> lastPing (clientAt p k) = lastPing (clientAt p j) \<and> u \<le> v"
      using assms(1) x v unfolding best_of_def by auto
    then show ?thesis using assms(2) v by auto
  qed simp
qed simp

lemma best_insert_old:
  assumes "best_of p C (u, j)"
    and "\<not> (lastPing (clientAt p i) > lastPing (clientAt p j) \<or> lastPing (clientAt p i) = lastPing (clientAt p j) \<and> t < u)"
  shows "best_of p (insert (t, i) C) (u, j)"
  using assms unfolding best_of_def by simp (meson linorder_neqE_nat not_less)

lemma selectPreferred_spec:
  "case selectPreferred p co cs of None \<Rightarrow> candidates p co cs = {} | Some c \<Rightarrow> best_of p (candidates p co cs) c"
proof (induction cs rule: rev_induct)
  case Nil
  show ?case by (simp add: selectPreferred_def candidates_def)
next
  case (snoc c cs)
  obtain t i where c: "c = (t, i)" by fastforce
  let ?t = "normalizeDeviceTransportType t"
  have s: "selectPreferred p co (cs @ [c]) = prefer_client p co (selectPreferred p co cs) (t, i)" by (simp add: selectPreferred_def c)
  show ?case
  proof (cases "isSupportedTransport ?t \<and> (co \<longrightarrow> connected (clientAt p i))")
    case False
    then have "prefer_client p co (selectPreferred p co cs) (t, i) = selectPreferred p co cs" by (auto simp: prefer_client_def Let_def)
    then have e1: "selectPreferred p co (cs @ [c]) = selectPreferred p co cs" using s by simp
    have e2: "candidates p co (cs @ [c]) = candidates p co cs" using False by (auto simp: c candidates_snoc)
    show ?thesis using snoc unfolding e1 e2 .
  next
    case True
    then have C: "candidates p co (cs @ [c]) = insert (?t, i) (candidates p co cs)" by (simp add: c candidates_snoc)
    show ?thesis
    proof (cases "selectPreferred p co cs")
      case None
      then show ?thesis using snoc True unfolding s C by (auto simp: prefer_client_def Let_def best_of_def)
    next
      case (Some b)
      obtain u j where b: "b = (u, j)" by fastforce
      have best: "best_of p (candidates p co cs) (u, j)" using snoc Some b by simp
      show ?thesis
      proof (cases "lastPing (clientAt p i) > lastPing (clientAt p j) \<or> lastPing (clientAt p i) = lastPing (clientAt p j) \<and> ?t < u")
        case True': True
        then have e: "selectPreferred p co (cs @ [c]) = Some (?t, i)" using True unfolding s Some b by (auto simp: prefer_client_def Let_def)
        show ?thesis unfolding C e using best_insert_new [OF best True'] by simp
      next
        case False
        then have e: "selectPreferred p co (cs @ [c]) = Some (u, j)" using True unfolding s Some b by (auto simp: prefer_client_def Let_def)
        show ?thesis unfolding C e using best_insert_old [OF best False] by simp
      qed
    qed
  qed
qed

lemma best_least:
  assumes "best_of p C c" and "d \<in> C"
  shows "lastPing (clientAt p (snd d)) < lastPing (clientAt p (snd c))
     \<or> lastPing (clientAt p (snd d)) = lastPing (clientAt p (snd c)) \<and> fst c \<le> fst d"
  using assms unfolding best_of_def by (cases d) auto

lemma best_unique:
  assumes "best_of p C c" and "best_of p C d"
  shows "fst c = fst d"
  using best_least [OF assms(1) best_in [OF assms(2)]] best_least [OF assms(2) best_in [OF assms(1)]] by auto

lemma preferred_is_best:
  assumes "\<forall>co. candidates p co (visit cs) = candidates p co cs" and "cs = iotOverMcpByTransport (sessionAt p d)"
  shows "if candidates p True cs \<noteq> {} then \<exists>c. best_of p (candidates p True cs) c \<and> GetPreferredIotTransportType visit p d = fst c
     else if candidates p False cs \<noteq> {} then \<exists>c. best_of p (candidates p False cs) c \<and> GetPreferredIotTransportType visit p d = fst c
     else GetPreferredIotTransportType visit p d = []"
proof -
  have C: "candidates p co (visit cs) = candidates p co cs" for co using assms(1) by (rule spec)
  have S: "case selectPreferred p co (visit cs) of None \<Rightarrow> candidates p co cs = {} | Some c \<Rightarrow> best_of p (candidates p co cs) c" for co
    using selectPreferred_spec [of p co "visit cs"] unfolding C .
  have G: "GetPreferredIotTransportType visit p d = (case selectPreferred p True (visit cs) of
      Some c \<Rightarrow> fst c | None \<Rightarrow> (case selectPreferred p False (visit cs) of Some c \<Rightarrow> fst c | None \<Rightarrow> []))"
    unfolding GetPreferredIotTransportType_def assms(2) [symmetric] Let_def
    by (simp add: case_prod_beta split: option.split)
  show ?thesis
  proof (cases "selectPreferred p True (visit cs)")
    case (Some c)
    have b: "best_of p (candidates p True cs) c" using S [of True] unfolding Some option.case .
    then have ne: "candidates p True cs \<noteq> {}" using best_in by blast
    show ?thesis unfolding if_P [OF ne] G Some option.case by (rule exI [of _ c]) (simp add: b)
  next
    case None
    have n: "\<not> candidates p True cs \<noteq> {}" using S [of True] unfolding None option.case by simp
    show ?thesis
    proof (cases "selectPreferred p False (visit cs)")
      case (Some c)
      have b: "best_of p (candidates p False cs) c" using S [of False] unfolding Some option.case .
      then have ne: "candidates p False cs \<noteq> {}" using best_in by blast
      show ?thesis unfolding if_not_P [OF n] if_P [OF ne] G None Some option.case by (rule exI [of _ c]) (simp add: b)
    next
      case None': None
      have n': "\<not> candidates p False cs \<noteq> {}" using S [of False] unfolding None' option.case by simp
      show ?thesis unfolding if_not_P [OF n] if_not_P [OF n'] G None None' option.case ..
    qed
  qed
qed

text \<open>C37: The preferred transport does not depend on the order in which the map is visited. It is that of the
  connected client with the latest heartbeat, the smaller name deciding between equals, and of the latest client at
  all when none is connected.\<close>

theorem preferred_transport_any_order:
  assumes "\<And>xs. set (visit xs) = set xs" and "cs = iotOverMcpByTransport (sessionAt p d)"
  shows "GetPreferredIotTransportType visit p d = GetPreferredIotTransportType id p d
     \<and> (if candidates p True cs \<noteq> {} then \<exists>c. best_of p (candidates p True cs) c \<and> GetPreferredIotTransportType visit p d = fst c
        else if candidates p False cs \<noteq> {} then \<exists>c. best_of p (candidates p False cs) c \<and> GetPreferredIotTransportType visit p d = fst c
        else GetPreferredIotTransportType visit p d = [])"
proof -
  have C: "\<forall>co. candidates p co (visit cs) = candidates p co cs" "\<forall>co. candidates p co (id cs) = candidates p co cs"
    using assms(1) by (simp_all add: candidates_def)
  note v = preferred_is_best [where visit = visit and p = p and cs = cs and d = d, OF C(1) assms(2)]
    and i = preferred_is_best [where visit = id and p = p and cs = cs and d = d, OF C(2) assms(2)]
  have "GetPreferredIotTransportType visit p d = GetPreferredIotTransportType id p d"
    using v i best_unique by (metis (no_types, lifting))
  then show ?thesis using v by simp
qed

section \<open>Reported tools\<close>

definition ResolveCurrentDeviceTransport :: "(gostr \<Rightarrow> gostr) option \<Rightarrow> gostr \<Rightarrow> gostr option" where
  "ResolveCurrentDeviceTransport resolver dev =
     (case resolver of
        None \<Rightarrow> None
      | Some f \<Rightarrow>
          (let t = TrimSpace (f dev)
           in if t = [] then None
              else if normalizeDeviceTransportType t = runes ''unknown'' then None else Some (normalizeDeviceTransportType t)))"

definition GetReportedToolsByDeviceID :: "(gostr \<Rightarrow> gostr) option \<Rightarrow> mcp_pool \<Rightarrow> gostr \<Rightarrow> tools" where
  "GetReportedToolsByDeviceID resolver p dev =
     (if dev = [] then Map.empty
      else (case device2McpClient p dev of
              None \<Rightarrow> Map.empty
            | Some d \<Rightarrow>
                (case ResolveCurrentDeviceTransport resolver dev of
                   None \<Rightarrow> Map.empty
                 | Some t \<Rightarrow> if t = [] then Map.empty else GetIotToolsByTransport p d t)))"

definition GetReportedToolByDeviceIDAndName :: "(gostr \<Rightarrow> gostr) option \<Rightarrow> mcp_pool \<Rightarrow> gostr \<Rightarrow> gostr \<Rightarrow> mcp_tool option" where
  "GetReportedToolByDeviceIDAndName resolver p dev name =
     (if dev = [] then None
      else (case device2McpClient p dev of
              None \<Rightarrow> None
            | Some d \<Rightarrow>
                (case ResolveCurrentDeviceTransport resolver dev of
                   None \<Rightarrow> None
                 | Some t \<Rightarrow> if t = [] then None else GetIotToolByTransportAndName p d t name)))"

definition GetReportedToolsByAgentID :: "visits \<Rightarrow> mcp_pool \<Rightarrow> gostr \<Rightarrow> tools" where
  "GetReportedToolsByAgentID visit p agent = (if agent = [] then Map.empty else GetWsEndpointMcpTools visit p agent)"

definition GetReportedToolByAgentIDAndName :: "visits \<Rightarrow> mcp_pool \<Rightarrow> gostr \<Rightarrow> gostr \<Rightarrow> mcp_tool option" where
  "GetReportedToolByAgentIDAndName visit p agent name = GetReportedToolsByAgentID visit p agent name"

definition GetReportedToolsByDeviceIdAndAgentId :: "visits \<Rightarrow> (gostr \<Rightarrow> gostr) option \<Rightarrow> mcp_pool \<Rightarrow> gostr \<Rightarrow> gostr \<Rightarrow> tools" where
  "GetReportedToolsByDeviceIdAndAgentId visit resolver p dev agent =
     (if dev \<noteq> [] then GetReportedToolsByDeviceID resolver p dev
      else if agent \<noteq> [] then GetReportedToolsByAgentID visit p agent
      else Map.empty)"

definition GetReportedToolByName :: "visits \<Rightarrow> (gostr \<Rightarrow> gostr) option \<Rightarrow> mcp_pool \<Rightarrow> gostr \<Rightarrow> gostr \<Rightarrow> gostr \<Rightarrow> mcp_tool option" where
  "GetReportedToolByName visit resolver p dev agent name =
     (if dev \<noteq> [] then GetReportedToolByDeviceIDAndName resolver p dev name
      else if agent \<noteq> [] then GetReportedToolByAgentIDAndName visit p agent name
      else None)"

definition usable :: "mcp_pool \<Rightarrow> nat \<Rightarrow> bool" where
  "usable p i \<longleftrightarrow> connected (clientAt p i) \<and> serverInfo (clientAt p i)"

definition RawCallIotToolByTransport :: "mcp_pool \<Rightarrow> nat \<Rightarrow> gostr \<Rightarrow> nat option" where
  \<comment> \<open>the client that is called\<close>
  "RawCallIotToolByTransport p d t =
     (if TrimSpace t = [] then None
      else (case map_of (iotOverMcpByTransport (sessionAt p d)) (TrimSpace t) of
              None \<Rightarrow> None
            | Some i \<Rightarrow> if usable p i then Some i else None))"

definition RawCallWsEndpointTool :: "visits \<Rightarrow> mcp_pool \<Rightarrow> nat \<Rightarrow> nat option" where
  "RawCallWsEndpointTool visit p d =
     first_some (\<lambda>(n, i). if usable p i then Some i else None) (visit (wsEndPointMcp (sessionAt p d)))"


text \<open>Fact: A raw call to the endpoints of an agent reaches one of them that is connected and initialised, whenever there
  is one.\<close>

theorem raw_call_reaches_a_usable_endpoint:
  assumes "\<And>xs. set (visit xs) = set xs"
  shows "case RawCallWsEndpointTool visit p d of
     Some i \<Rightarrow> i \<in> snd ` set (wsEndPointMcp (sessionAt p d)) \<and> usable p i
   | None \<Rightarrow> \<forall>i \<in> snd ` set (wsEndPointMcp (sessionAt p d)). \<not> usable p i"
proof -
  have found: "first_some f xs = Some y \<Longrightarrow> \<exists>x \<in> set xs. f x = Some y" for f :: "gostr \<times> nat \<Rightarrow> nat option" and xs y
    by (induction xs) (auto split: option.splits)
  show ?thesis
  proof (cases "RawCallWsEndpointTool visit p d")
    case None
    then have "\<forall>x \<in> set (wsEndPointMcp (sessionAt p d)). \<not> usable p (snd x)"
      using assms by (auto simp: RawCallWsEndpointTool_def first_some_None split: if_splits)
    then show ?thesis unfolding None by auto
  next
    case (Some i)
    from found [OF this [unfolded RawCallWsEndpointTool_def]] assms show ?thesis
      unfolding Some by (force split: if_splits)
  qed
qed

lemma updateGlobalTools_spec_witness:
  "updateGlobalTools (runes ''a'') [(runes ''t'', a_tool)] Map.empty (runes ''a_t'') = Some a_tool"
  using updateGlobalTools_spec [of "[(runes ''t'', a_tool)]" "runes ''a''" Map.empty "runes ''a_t''"]
  by (simp add: global_key_def runes_def)

definition two_transports :: mcp_pool where
  "two_transports = empty_pool
     \<lparr>sessionAt := \<lambda>_. \<lparr>deviceID = [], sessionCancelled = False, wsEndPointMcp = [(runes ''w'', 1), (runes ''v'', 0)],
        iotOverMcpByTransport = [(runes ''websocket'', 0), (runes ''udp'', 1)]\<rparr>,
      clientAt := \<lambda>i. \<lparr>serverName = [], toolsState = [], serverInfo = i = 1, clientConn = Some 0, initState = InitReady, lastPing = i,
        connected = True, clientCancelled = False, closeOnce = False, onCloseHandler = None\<rparr>\<rparr>"

lemma preferred_transport_any_order_witness:
  "GetPreferredIotTransportType rev two_transports 0 = GetPreferredIotTransportType id two_transports 0
     \<and> GetPreferredIotTransportType rev two_transports 0 = runes ''udp''"
  using preferred_transport_any_order [OF _ refl, of rev two_transports 0]
  by (simp add: two_transports_def GetPreferredIotTransportType_def selectPreferred_def prefer_client_def Let_def isSupportedTransport_def
      normalizeDeviceTransportType_def TrimSpace_def trim_by_def is_space_def in_ranges_def runes_def)

lemma raw_call_reaches_a_usable_endpoint_witness:
  "RawCallWsEndpointTool rev two_transports 0 = Some 1"
  using raw_call_reaches_a_usable_endpoint [of rev two_transports 0]
  by (auto simp: two_transports_def usable_def RawCallWsEndpointTool_def split: option.splits)

end
