(* ===== verification/Mcp_Global.thy ===== *)
theory Mcp_Global
  imports Mcp_Tools Llm_Request
begin

text \<open>
  The connections to MCP servers, \<^verbatim>\<open>internal/domain/mcp/global_manage.go\<close>: how a server's end point is found in its
  configuration, and how connecting, reconnecting, pinging and stopping overlap. Connections are numbers into a store,
  clients of the library and the channels of \<^verbatim>\<open>reconnectWait\<close> are numbers. A goroutine is a program counter, a step one of
  its sections between locks and calls of the library, whose outcome is the argument of the step. What
  \<^verbatim>\<open>reconnectServer\<close> returns is left out, as are headers, the times of pings and the counter of attempts, which nothing reads.
\<close>

section \<open>End points\<close>

record server_config =
  cfgName :: gostr
  cfgType :: gostr
  Url :: gostr
  SSEUrl :: gostr
  Enabled :: bool
  AllowedTools :: "gostr list"

definition normalizeMCPTransportType :: "gostr \<Rightarrow> gostr" where
  \<comment> \<open>\<open>lower\<close> agrees with \<^verbatim>\<open>strings.ToLower\<close> on what the result is compared with\<close>
  "normalizeMCPTransportType t =
     (let l = map lower (TrimSpace t)
      in if l = runes ''sse'' then runes ''sse''
         else if l = runes ''streamable_http'' \<or> l = runes ''streamable-http'' \<or> l = runes ''http'' then runes ''streamablehttp''
         else l)"

datatype endpoint_error = MissingUrl | UnsupportedType

definition endpointForConfig :: "server_config \<Rightarrow> endpoint_error + gostr \<times> gostr" where
  "endpointForConfig c =
     (let u = TrimSpace (Url c); s = TrimSpace (SSEUrl c);
          t = normalizeMCPTransportType (cfgType c);
          t = (if t = [] then (if s \<noteq> [] then runes ''sse'' else if u \<noteq> [] then runes ''streamablehttp'' else t) else t)
      in if t = runes ''sse'' then (if s \<noteq> [] then Inr (t, s) else if u \<noteq> [] then Inr (t, u) else Inl MissingUrl)
         else if t = runes ''streamablehttp'' then (if u \<noteq> [] then Inr (t, u) else if s \<noteq> [] then Inr (t, s) else Inl MissingUrl)
         else Inl UnsupportedType)"

definition GetServerEndpointSnapshotByName :: "(gostr \<Rightarrow> server_config option) \<Rightarrow> gostr \<Rightarrow> gostr" where
  "GetServerEndpointSnapshotByName configs name =
     (case configs name of
        None \<Rightarrow> []
      | Some c \<Rightarrow>
          (case endpointForConfig c of
             Inr (t, e) \<Rightarrow> e
           | Inl e \<Rightarrow> (if TrimSpace (Url c) \<noteq> [] then TrimSpace (Url c) else TrimSpace (SSEUrl c))))"

text \<open>Fact: An end point is the address that belongs to the type if that is given, and the other one otherwise; it is
  never blank. There is none exactly when both addresses are blank or the type is none of those supported.\<close>

theorem endpoint_of_config:
  "case endpointForConfig c of
     Inr (t, e) \<Rightarrow> e \<noteq> [] \<and> TrimSpace e = e \<and> normalizeMCPTransportType (cfgType c) \<in> {[], t}
       \<and> (t, e) \<in> {(runes ''sse'', if TrimSpace (SSEUrl c) \<noteq> [] then TrimSpace (SSEUrl c) else TrimSpace (Url c)),
                    (runes ''streamablehttp'', if TrimSpace (Url c) \<noteq> [] then TrimSpace (Url c) else TrimSpace (SSEUrl c))}
   | Inl err \<Rightarrow> TrimSpace (Url c) = [] \<and> TrimSpace (SSEUrl c) = []
       \<or> normalizeMCPTransportType (cfgType c) \<notin> {[], runes ''sse'', runes ''streamablehttp''}"
proof -
  have "runes ''sse'' \<noteq> []" "runes ''streamablehttp'' \<noteq> []" "runes ''sse'' \<noteq> runes ''streamablehttp''" by (simp_all add: runes_def)
  then show ?thesis by (auto simp: endpointForConfig_def Let_def)
qed

section \<open>Connections\<close>

record server_conn =
  connConfig :: server_config
  connClient :: "nat option"
  connTools :: "(gostr \<times> mcp_tool) list"
  connConnected :: bool
  lastError :: bool
  reconnecting :: bool
  reconnectWait :: "nat option"

record global_manager =
  gServers :: "(gostr \<times> nat) list"
  gTools :: tools
  connAt :: "nat \<Rightarrow> server_conn"
  nextConn :: nat
  nextLibClient :: nat
  closedClients :: "nat set"
  nextChan :: nat
  closedChans :: "nat set"

definition set_conn :: "nat \<Rightarrow> (server_conn \<Rightarrow> server_conn) \<Rightarrow> global_manager \<Rightarrow> global_manager" where
  "set_conn c f g = g\<lparr>connAt := (connAt g)(c := f (connAt g c))\<rparr>"

definition new_conn :: "server_config \<Rightarrow> server_conn" where
  "new_conn cfg = \<lparr>connConfig = cfg, connClient = None, connTools = [], connConnected = False, lastError = False,
     reconnecting = False, reconnectWait = None\<rparr>"

datatype after = ThenDone | ThenFinish nat  \<comment> \<open>what follows \<^verbatim>\<open>connect\<close>: the deferred part of a reconnection\<close>

datatype global_pc =
    GIdle
  | RFind gostr               \<comment> \<open>\<^verbatim>\<open>reconnectServer\<close>\<close>
  | RLock nat
  | RWait nat nat
  | RDisconnect nat nat
  | RRemove nat nat "nat option"
  | RClose nat nat "nat option"
  | Conn nat after            \<comment> \<open>\<^verbatim>\<open>connect\<close>\<close>
  | ConnInit nat nat after
  | ConnList nat nat after
  | ConnListing nat nat after \<comment> \<open>\<^verbatim>\<open>refreshTools\<close> asks the client that it has read\<close>
  | ConnTools nat after "(gostr \<times> mcp_tool) list"
  | ConnUp nat after
  | RFailed nat nat
  | RFinish nat nat
  | Ping nat                  \<comment> \<open>\<^verbatim>\<open>monitorConnections\<close>\<close>
  | PingFailed nat
  | Start server_config       \<comment> \<open>\<^verbatim>\<open>connectToServer\<close>\<close>
  | StopAll                   \<comment> \<open>\<^verbatim>\<open>Stop\<close>\<close>
  | StopNext "nat list"
  | StopRemove "nat list" nat "nat option"
  | StopClose "nat list" "nat option"

record lib_answer =
  builds :: bool              \<comment> \<open>\<^verbatim>\<open>buildMCPTransport\<close>\<close>
  initializes :: bool         \<comment> \<open>\<^verbatim>\<open>Start\<close> and \<^verbatim>\<open>Initialize\<close>\<close>
  toolNames :: "gostr list option"
  pings :: bool

definition disconnect_conn :: "nat \<Rightarrow> global_manager \<Rightarrow> nat option \<times> global_manager" where
  \<comment> \<open>the locked section of \<^verbatim>\<open>disconnect\<close>\<close>
  "disconnect_conn c g = (connClient (connAt g c), set_conn c (\<lambda>x. x\<lparr>connClient := None, connConnected := False, connTools := []\<rparr>) g)"

definition remove_tools :: "nat \<Rightarrow> global_manager \<Rightarrow> global_manager" where
  "remove_tools c g = g\<lparr>gTools := removeGlobalTools (cfgName (connConfig (connAt g c))) (gTools g)\<rparr>"

definition close_client :: "nat option \<Rightarrow> global_manager \<Rightarrow> global_manager" where
  "close_client cl g = (case cl of None \<Rightarrow> g | Some k \<Rightarrow> g\<lparr>closedClients := insert k (closedClients g)\<rparr>)"

definition failed :: "nat \<Rightarrow> after \<Rightarrow> global_pc" where
  "failed c k = (case k of ThenDone \<Rightarrow> GIdle | ThenFinish w \<Rightarrow> RFailed c w)"

definition connect_act :: "lib_answer \<Rightarrow> global_pc \<Rightarrow> global_manager \<Rightarrow> global_pc \<times> global_manager" where
  \<comment> \<open>\<^verbatim>\<open>connect\<close> with \<^verbatim>\<open>refreshTools\<close>\<close>
  "connect_act a pc g =
     (case pc of
        Conn c k \<Rightarrow>
          (if \<not> builds a then (failed c k, g)
           else (ConnInit c (nextLibClient g) k,
                 set_conn c (\<lambda>x. x\<lparr>connClient := Some (nextLibClient g)\<rparr>) g\<lparr>nextLibClient := Suc (nextLibClient g)\<rparr>))
      | ConnInit c cl k \<Rightarrow> (if initializes a then ConnList c cl k else failed c k, g)
      | ConnList c cl k \<Rightarrow>
          (case connClient (connAt g c) of None \<Rightarrow> ConnUp c k | Some cl' \<Rightarrow> ConnListing c cl' k, g)
      | ConnListing c cl' k \<Rightarrow>
          (case toolNames a of
             Some names \<Rightarrow>
               (let cfg = connConfig (connAt g c);
                    ts = ConvertMcpToolListToInvokableToolList (cfgName cfg) cl' (\<lambda>n. True)
                           (filterMCPToolsByAllowList names (AllowedTools cfg))
                in (ConnTools c k ts, set_conn c (\<lambda>x. x\<lparr>connTools := ts\<rparr>) g))
           | None \<Rightarrow> (ConnUp c k, g))
      | ConnTools c k ts \<Rightarrow> (ConnUp c k, g\<lparr>gTools := updateGlobalTools (cfgName (connConfig (connAt g c))) ts (gTools g)\<rparr>)
      | ConnUp c k \<Rightarrow>
          (case k of ThenDone \<Rightarrow> GIdle | ThenFinish w \<Rightarrow> RFinish c w, set_conn c (\<lambda>x. x\<lparr>connConnected := True, lastError := False\<rparr>) g)
      | _ \<Rightarrow> (pc, g))"

definition reconnect_act :: "global_pc \<Rightarrow> global_manager \<Rightarrow> global_pc \<times> global_manager" where
  \<comment> \<open>\<^verbatim>\<open>reconnectServer\<close>; \<open>RWait\<close> goes on when its channel is closed\<close>
  "reconnect_act pc g =
     (case pc of
        RFind name \<Rightarrow> (case map_of (gServers g) name of None \<Rightarrow> (GIdle, g) | Some c \<Rightarrow> (RLock c, g))
      | RLock c \<Rightarrow>
          (if reconnecting (connAt g c) then
             (case reconnectWait (connAt g c) of None \<Rightarrow> (GIdle, g) | Some w \<Rightarrow> (RWait c w, g))
           else (RDisconnect c (nextChan g),
                 set_conn c (\<lambda>x. x\<lparr>reconnecting := True, reconnectWait := Some (nextChan g)\<rparr>) g\<lparr>nextChan := Suc (nextChan g)\<rparr>))
      | RWait c w \<Rightarrow> (if w \<in> closedChans g then (GIdle, g) else (RWait c w, g))
      | RDisconnect c w \<Rightarrow> (case disconnect_conn c g of (cl, g) \<Rightarrow> (RRemove c w cl, g))
      | RRemove c w cl \<Rightarrow> (RClose c w cl, remove_tools c g)
      | RClose c w cl \<Rightarrow> (Conn c (ThenFinish w), close_client cl g)
      | RFailed c w \<Rightarrow> (RFinish c w, set_conn c (\<lambda>x. x\<lparr>lastError := True\<rparr>) g)
      | RFinish c w \<Rightarrow>
          (GIdle,
           if reconnectWait (connAt g c) = Some w
           then (set_conn c (\<lambda>x. x\<lparr>reconnecting := False, reconnectWait := None\<rparr>) g)\<lparr>closedChans := insert w (closedChans g)\<rparr>
           else set_conn c (\<lambda>x. x\<lparr>reconnecting := False\<rparr>) g)
      | _ \<Rightarrow> (pc, g))"

definition monitor_act :: "lib_answer \<Rightarrow> global_pc \<Rightarrow> global_manager \<Rightarrow> global_pc \<times> global_manager" where
  \<comment> \<open>\<^verbatim>\<open>monitorConnections\<close> for one of the connections; the goroutine that reconnects is this one going on\<close>
  "monitor_act a pc g =
     (case pc of
        Ping c \<Rightarrow> (if connClient (connAt g c) \<noteq> None \<and> pings a then GIdle else PingFailed c, g)
      | PingFailed c \<Rightarrow>
          (RFind (cfgName (connConfig (connAt g c))), set_conn c (\<lambda>x. x\<lparr>connConnected := False, lastError := True\<rparr>) g)
      | _ \<Rightarrow> (pc, g))"

definition connectToServer :: "server_config \<Rightarrow> global_manager \<Rightarrow> global_pc \<times> global_manager" where
  "connectToServer cfg g =
     (if cfgName cfg = [] \<or> \<not> Enabled cfg then (GIdle, g)
      else (case endpointForConfig cfg of
              Inl e \<Rightarrow> (GIdle, g)
            | Inr e \<Rightarrow>
                (Conn (nextConn g) ThenDone,
                 set_conn (nextConn g) (\<lambda>x. new_conn cfg)
                   g\<lparr>nextConn := Suc (nextConn g), gServers := AList.update (cfgName cfg) (nextConn g) (gServers g)\<rparr>)))"

definition stop_act :: "global_pc \<Rightarrow> global_manager \<Rightarrow> global_pc \<times> global_manager" where
  "stop_act pc g =
     (case pc of
        StopAll \<Rightarrow> (StopNext (map snd (gServers g)), g\<lparr>gServers := [], gTools := Map.empty\<rparr>)
      | StopNext [] \<Rightarrow> (GIdle, g)
      | StopNext (c # cs) \<Rightarrow> (case disconnect_conn c g of (cl, g) \<Rightarrow> (StopRemove cs c cl, g))
      | StopRemove cs c cl \<Rightarrow> (StopClose cs cl, remove_tools c g)
      | StopClose cs cl \<Rightarrow> (StopNext cs, close_client cl g)
      | _ \<Rightarrow> (pc, g))"

definition global_act :: "lib_answer \<Rightarrow> global_pc \<Rightarrow> global_manager \<Rightarrow> global_pc \<times> global_manager" where
  "global_act a pc g =
     (case pc of
        GIdle \<Rightarrow> (GIdle, g)
      | Start cfg \<Rightarrow> connectToServer cfg g
      | Conn _ _ \<Rightarrow> connect_act a pc g | ConnInit _ _ _ \<Rightarrow> connect_act a pc g | ConnList _ _ _ \<Rightarrow> connect_act a pc g
      | ConnListing _ _ _ \<Rightarrow> connect_act a pc g
      | ConnTools _ _ _ \<Rightarrow> connect_act a pc g | ConnUp _ _ \<Rightarrow> connect_act a pc g
      | Ping _ \<Rightarrow> monitor_act a pc g | PingFailed _ \<Rightarrow> monitor_act a pc g
      | StopAll \<Rightarrow> stop_act pc g | StopNext _ \<Rightarrow> stop_act pc g | StopRemove _ _ _ \<Rightarrow> stop_act pc g | StopClose _ _ \<Rightarrow> stop_act pc g
      | _ \<Rightarrow> reconnect_act pc g)"

lemmas global_acts = connect_act_def reconnect_act_def monitor_act_def connectToServer_def stop_act_def global_act_def

definition global_begins :: "global_manager \<Rightarrow> global_pc \<Rightarrow> bool" where
  "global_begins g pc =
     (case pc of RFind name \<Rightarrow> True | Start cfg \<Rightarrow> True | StopAll \<Rightarrow> True | Ping c \<Rightarrow> c \<in> snd ` set (gServers g) | _ \<Rightarrow> False)"

inductive global_reachable :: "(nat \<Rightarrow> global_pc) \<Rightarrow> global_manager \<Rightarrow> bool" where
  global_init: "global_reachable (\<lambda>_. GIdle)
    \<lparr>gServers = [], gTools = Map.empty, connAt = cs, nextConn = 0, nextLibClient = 0, closedClients = {}, nextChan = 0, closedChans = {}\<rparr>"
| global_begin: "global_reachable pcs g \<Longrightarrow> pcs t = GIdle \<Longrightarrow> global_begins g pc \<Longrightarrow> global_reachable (pcs(t := pc)) g"
| global_step: "global_reachable pcs g \<Longrightarrow> global_act a (pcs t) g = (pc, g') \<Longrightarrow> global_reachable (pcs(t := pc)) g'"

section \<open>One reconnection at a time\<close>

definition region :: "global_pc \<Rightarrow> (nat \<times> nat) option" where
  \<comment> \<open>the connection that a goroutine reconnects, and its channel\<close>
  "region pc =
     (case pc of
        RDisconnect c w \<Rightarrow> Some (c, w)
      | RRemove c w cl \<Rightarrow> Some (c, w)
      | RClose c w cl \<Rightarrow> Some (c, w)
      | Conn c (ThenFinish w) \<Rightarrow> Some (c, w)
      | ConnInit c cl (ThenFinish w) \<Rightarrow> Some (c, w)
      | ConnList c cl (ThenFinish w) \<Rightarrow> Some (c, w)
      | ConnListing c cl (ThenFinish w) \<Rightarrow> Some (c, w)
      | ConnTools c (ThenFinish w) ts \<Rightarrow> Some (c, w)
      | ConnUp c (ThenFinish w) \<Rightarrow> Some (c, w)
      | RFailed c w \<Rightarrow> Some (c, w)
      | RFinish c w \<Rightarrow> Some (c, w)
      | _ \<Rightarrow> None)"

definition waits_for :: "global_pc \<Rightarrow> (nat \<times> nat) option" where
  "waits_for pc = (case pc of RWait c w \<Rightarrow> Some (c, w) | _ \<Rightarrow> None)"

definition locks :: "global_pc \<Rightarrow> nat option" where
  "locks pc = (case pc of RLock c \<Rightarrow> Some c | _ \<Rightarrow> None)"

definition recs :: "global_manager \<Rightarrow> nat \<Rightarrow> bool \<times> nat option" where
  "recs g c = (reconnecting (connAt g c), reconnectWait (connAt g c))"

definition servers_ok :: "global_manager \<Rightarrow> bool" where
  "servers_ok g \<longleftrightarrow> snd ` set (gServers g) \<subseteq> {..<nextConn g}"

text \<open>What a step does to the fields of reconnections: it leaves them alone, or takes a connection, or gives it back.\<close>

definition calm :: "global_pc \<Rightarrow> global_manager \<Rightarrow> global_pc \<Rightarrow> global_manager \<Rightarrow> bool" where
  "calm pc g pc' g' \<longleftrightarrow> region pc' = region pc \<and> nextConn g \<le> nextConn g' \<and> nextChan g' = nextChan g \<and> closedChans g' = closedChans g
     \<and> (\<forall>c < nextConn g. recs g' c = recs g c) \<and> (\<forall>c. nextConn g \<le> c \<and> c < nextConn g' \<longrightarrow> recs g' c = (False, None))
     \<and> (servers_ok g \<longrightarrow> servers_ok g')
     \<and> (\<forall>c w. waits_for pc' = Some (c, w) \<longrightarrow> waits_for pc = Some (c, w) \<or> locks pc = Some c \<and> recs g c = (True, Some w))
     \<and> (\<forall>c. locks pc' = Some c \<longrightarrow> servers_ok g \<longrightarrow> locks pc = Some c \<or> c < nextConn g')"

definition takes :: "nat \<Rightarrow> global_pc \<Rightarrow> global_manager \<Rightarrow> global_pc \<Rightarrow> global_manager \<Rightarrow> bool" where
  "takes c pc g pc' g' \<longleftrightarrow> pc = RLock c \<and> \<not> reconnecting (connAt g c) \<and> pc' = RDisconnect c (nextChan g)
     \<and> g' = set_conn c (\<lambda>x. x\<lparr>reconnecting := True, reconnectWait := Some (nextChan g)\<rparr>) g\<lparr>nextChan := Suc (nextChan g)\<rparr>"

lemmas pc_views = region_def waits_for_def locks_def

lemma servers_simps [simp]:
  "servers_ok (set_conn c f g) = servers_ok g" "servers_ok (g\<lparr>gTools := ts\<rparr>) = servers_ok g" "servers_ok (g\<lparr>nextChan := n\<rparr>) = servers_ok g"
  "servers_ok (g\<lparr>nextLibClient := m\<rparr>) = servers_ok g" "servers_ok (g\<lparr>closedChans := s\<rparr>) = servers_ok g" "servers_ok (g\<lparr>closedClients := s\<rparr>) = servers_ok g"
  by (simp_all add: servers_ok_def set_conn_def)

lemma conn_simps [simp]:
  "nextConn (set_conn c f g) = nextConn g" "nextChan (set_conn c f g) = nextChan g" "closedChans (set_conn c f g) = closedChans g"
  "gServers (set_conn c f g) = gServers g" "connAt (set_conn c f g) d = (if d = c then f (connAt g c) else connAt g d)"
  by (simp_all add: set_conn_def)

lemma recs_set_conn [simp]: "recs (set_conn c f g) d = (if d = c then (reconnecting (f (connAt g c)), reconnectWait (f (connAt g c))) else recs g d)"
  by (simp add: recs_def)

lemma recs_simps [simp]:
  "recs (g\<lparr>gTools := ts\<rparr>) = recs g" "recs (g\<lparr>nextLibClient := m\<rparr>) = recs g" "recs (g\<lparr>closedClients := s\<rparr>) = recs g"
  "recs (g\<lparr>nextChan := m\<rparr>) = recs g" "recs (g\<lparr>gServers := ss\<rparr>) = recs g" "recs (g\<lparr>closedChans := s\<rparr>) = recs g"
  by (simp_all add: recs_def fun_eq_iff)

lemma recs_same [simp]: "(reconnecting (connAt g c), reconnectWait (connAt g c)) = recs g c"
  by (simp add: recs_def)

lemma calm_same: "region pc' = region pc \<Longrightarrow> waits_for pc' = None \<Longrightarrow> locks pc' = None \<Longrightarrow> calm pc g pc' g"
  by (auto simp: calm_def)

lemma calm_set_conn:
  assumes "\<And>x. reconnecting (f x) = reconnecting x" and "\<And>x. reconnectWait (f x) = reconnectWait x"
    and "region pc' = region pc" and "waits_for pc' = None" and "locks pc' = None"
  shows "calm pc g pc' (set_conn c f g)"
  using assms by (auto simp: calm_def)

lemma calm_rest:
  assumes "calm pc g pc' h" and "nextConn h' = nextConn h" "nextChan h' = nextChan h" "closedChans h' = closedChans h" "recs h' = recs h"
    "gServers h' = gServers h"
  shows "calm pc g pc' h'"
  using assms by (simp add: calm_def servers_ok_def)

lemma calm_connect:
  assumes "connect_act a pc g = (pc', g')" and "waits_for pc = None" and "locks pc = None"
  shows "calm pc g pc' g'"
proof (cases pc)
  case (Conn c k)
  have r: "region (failed c k) = region (Conn c k)" "waits_for (failed c k) = None" "locks (failed c k) = None"
      "region (ConnInit c n k) = region (Conn c k)" "waits_for (ConnInit c n k) = None" "locks (ConnInit c n k) = None" for n
    by (cases k; simp add: pc_views failed_def)+
  show ?thesis
  proof (cases "builds a")
    case True
    then have "pc' = ConnInit c (nextLibClient g) k"
        "g' = (set_conn c (\<lambda>x. x\<lparr>connClient := Some (nextLibClient g)\<rparr>) g)\<lparr>nextLibClient := Suc (nextLibClient g)\<rparr>"
      using assms(1) Conn by (simp_all add: connect_act_def)
    moreover have "calm pc g pc' (set_conn c (\<lambda>x. x\<lparr>connClient := Some (nextLibClient g)\<rparr>) g)"
      using r calculation(1) Conn by (intro calm_set_conn) simp_all
    ultimately show ?thesis by (elim calm_rest) (simp_all add: fun_eq_iff)
  next
    case False
    then show ?thesis using assms(1) r Conn by (auto simp: connect_act_def intro!: calm_same)
  qed
next
  case (ConnInit c cl k)
  have r: "region (failed c k) = region (ConnInit c cl k)" "waits_for (failed c k) = None" "locks (failed c k) = None"
      "region (ConnList c cl k) = region (ConnInit c cl k)" "waits_for (ConnList c cl k) = None" "locks (ConnList c cl k) = None"
    by (cases k; simp add: pc_views failed_def)+
  then show ?thesis using assms(1) ConnInit by (auto simp: connect_act_def intro!: calm_same split: if_splits)
next
  case (ConnList c cl k)
  have r: "region (ConnUp c k) = region (ConnList c cl k)" "waits_for (ConnUp c k) = None" "locks (ConnUp c k) = None"
      "region (ConnListing c cl' k) = region (ConnList c cl k)" "waits_for (ConnListing c cl' k) = None" "locks (ConnListing c cl' k) = None" for cl'
    by (cases k; simp add: pc_views)+
  then show ?thesis using assms(1) ConnList by (auto simp: connect_act_def intro!: calm_same split: option.splits)
next
  case (ConnListing c cl k)
  have r: "region (ConnUp c k) = region (ConnListing c cl k)" "waits_for (ConnUp c k) = None" "locks (ConnUp c k) = None"
      "region (ConnTools c k ts) = region (ConnListing c cl k)" "waits_for (ConnTools c k ts) = None" "locks (ConnTools c k ts) = None" for ts
    by (cases k; simp add: pc_views)+
  then show ?thesis
    using assms(1) ConnListing by (auto simp: connect_act_def Let_def intro!: calm_same calm_set_conn split: option.splits)
next
  case (ConnTools c k ts)
  have r: "region (ConnUp c k) = region (ConnTools c k ts)" "waits_for (ConnUp c k) = None" "locks (ConnUp c k) = None"
    by (cases k; simp add: pc_views)+
  then have "calm pc g (ConnUp c k) g" unfolding ConnTools by (intro calm_same)
  then show ?thesis using assms(1) ConnTools by (auto simp: connect_act_def elim: calm_rest)
next
  case (ConnUp c k)
  then show ?thesis using assms(1) by (cases k) (auto simp: connect_act_def pc_views intro!: calm_set_conn)
qed (use assms in \<open>auto simp: connect_act_def intro!: calm_same\<close>)

lemma calm_monitor:
  assumes "monitor_act a pc g = (pc', g')" and "waits_for pc = None" and "locks pc = None"
  shows "calm pc g pc' g'"
proof (cases pc)
  case (Ping c)
  then show ?thesis using assms(1) by (auto simp: monitor_act_def pc_views intro!: calm_same split: if_splits)
next
  case (PingFailed c)
  then show ?thesis using assms(1) by (auto simp: monitor_act_def pc_views intro!: calm_set_conn)
qed (use assms in \<open>auto simp: monitor_act_def intro!: calm_same\<close>)

lemma calm_stop:
  assumes "stop_act pc g = (pc', g')" and "waits_for pc = None" and "locks pc = None"
  shows "calm pc g pc' g'"
proof (cases pc)
  case StopAll
  then have "pc' = StopNext (map snd (gServers g))" "g' = g\<lparr>gServers := [], gTools := Map.empty\<rparr>"
    using assms(1) by (simp_all add: stop_act_def)
  then show ?thesis by (auto simp: StopAll pc_views calm_def servers_ok_def)
next
  case (StopNext cs)
  show ?thesis
  proof (cases cs)
    case Nil
    then have "pc' = GIdle" "g' = g" using assms(1) StopNext by (simp_all add: stop_act_def)
    then show ?thesis by (simp add: StopNext calm_same pc_views)
  next
    case (Cons c cs')
    then have "pc' = StopRemove cs' c (connClient (connAt g c))"
        "g' = set_conn c (\<lambda>x. x\<lparr>connClient := None, connConnected := False, connTools := []\<rparr>) g"
      using assms(1) StopNext by (simp_all add: stop_act_def disconnect_conn_def)
    then show ?thesis by (simp add: StopNext calm_set_conn pc_views)
  qed
next
  case (StopRemove cs c cl)
  have s: "calm pc g (StopClose cs cl) g" using StopRemove by (intro calm_same) (simp_all add: pc_views)
  have e: "pc' = StopClose cs cl" "g' = remove_tools c g" using assms(1) StopRemove by (simp_all add: stop_act_def)
  show ?thesis unfolding e by (rule calm_rest [OF s]) (simp_all add: remove_tools_def)
next
  case (StopClose cs cl)
  have s: "calm pc g (StopNext cs) g" using StopClose by (intro calm_same) (simp_all add: pc_views)
  have e: "pc' = StopNext cs" "g' = close_client cl g" using assms(1) StopClose by (simp_all add: stop_act_def)
  show ?thesis unfolding e by (rule calm_rest [OF s]) (simp_all add: close_client_def split: option.split)
qed (use assms in \<open>simp_all add: stop_act_def calm_same\<close>)

lemma calm_start:
  assumes "connectToServer cfg g = (pc', g')"
  shows "calm (Start cfg) g pc' g'"
proof (cases "pc' = GIdle \<and> g' = g")
  case True
  then show ?thesis by (auto intro!: calm_same simp: pc_views)
next
  case False
  let ?s = "AList.update (cfgName cfg) (nextConn g) (gServers g)"
  have u: "snd ` set (AList.update k n xs) \<subseteq> insert n (snd ` set xs)" for k :: gostr and n :: nat and xs
    by (induction xs) auto
  have pc': "pc' = Conn (nextConn g) ThenDone"
    and g': "g' = (set_conn (nextConn g) (\<lambda>x. new_conn cfg) g)\<lparr>nextConn := Suc (nextConn g), gServers := ?s\<rparr>"
    using assms False by (auto simp: connectToServer_def split: if_splits sum.splits)
  have "snd ` set ?s \<subseteq> {..<Suc (nextConn g)}" if "servers_ok g"
  proof -
    have "snd ` set ?s \<subseteq> insert (nextConn g) (snd ` set (gServers g))" by (rule u)
    also have "\<dots> \<subseteq> {..<Suc (nextConn g)}" using that by (auto simp: servers_ok_def)
    finally show ?thesis .
  qed
  then have "servers_ok g'" if "servers_ok g" using that unfolding g' servers_ok_def by simp
  moreover have "recs g' c = (if c = nextConn g then (False, None) else recs g c)" for c
    unfolding g' recs_def set_conn_def new_conn_def by simp
  moreover have "nextConn g' = Suc (nextConn g)" "nextChan g' = nextChan g" "closedChans g' = closedChans g" by (simp_all add: g')
  ultimately show ?thesis by (simp add: pc' calm_def pc_views)
qed

text \<open>Every step is calm, takes a connection, or gives one back.\<close>

lemma step_kinds:
  assumes "global_act a pc g = (pc', g')"
  obtains (calm) "calm pc g pc' g'"
  | (takes) c where "takes c pc g pc' g'"
  | (gives) c w where "pc = RFinish c w" "pc' = GIdle"
      "g' = (if reconnectWait (connAt g c) = Some w
             then (set_conn c (\<lambda>x. x\<lparr>reconnecting := False, reconnectWait := None\<rparr>) g)\<lparr>closedChans := insert w (closedChans g)\<rparr>
             else set_conn c (\<lambda>x. x\<lparr>reconnecting := False\<rparr>) g)"
proof (cases pc)
  case (RFind name)
  show thesis
  proof (cases "map_of (gServers g) name")
    case None
    then have "pc' = GIdle" "g' = g" using assms RFind by (simp_all add: global_act_def reconnect_act_def)
    then show thesis using calm by (simp add: RFind calm_same pc_views)
  next
    case (Some c)
    then have e: "pc' = RLock c" "g' = g" using assms RFind by (simp_all add: global_act_def reconnect_act_def)
    have "c < nextConn g" if "servers_ok g" using map_of_SomeD [OF Some] that by (force simp: servers_ok_def)
    then have "calm pc g pc' g'" unfolding e RFind by (auto simp: calm_def pc_views)
    then show thesis by (rule calm)
  qed
next
  case (RLock c)
  show thesis
  proof (cases "reconnecting (connAt g c)")
    case True
    show thesis
    proof (cases "reconnectWait (connAt g c)")
      case None
      then have "pc' = GIdle" "g' = g" using assms RLock True by (simp_all add: global_act_def reconnect_act_def)
      then show thesis using calm by (simp add: RLock calm_same pc_views)
    next
      case (Some w)
      then have e: "pc' = RWait c w" "g' = g" using assms RLock True by (simp_all add: global_act_def reconnect_act_def)
      have "recs g c = (True, Some w)" using True Some unfolding recs_def by simp
      then have "calm pc g pc' g'" unfolding e RLock by (auto simp: calm_def pc_views)
      then show thesis by (rule calm)
    qed
  next
    case False
    then have "takes c pc g pc' g'" using assms RLock by (auto simp: global_act_def reconnect_act_def takes_def)
    then show thesis by (rule takes)
  qed
next
  case (RWait c w)
  then have "calm pc g pc' g'" using assms by (auto simp: global_act_def reconnect_act_def calm_def pc_views split: if_splits)
  then show thesis by (rule calm)
next
  case (RDisconnect c w)
  then have e: "pc' = RRemove c w (connClient (connAt g c))" "g' = set_conn c (\<lambda>x. x\<lparr>connClient := None, connConnected := False, connTools := []\<rparr>) g"
    using assms by (simp_all add: global_act_def reconnect_act_def disconnect_conn_def)
  have "calm pc g pc' g'" unfolding e RDisconnect by (rule calm_set_conn) (simp_all add: pc_views)
  then show thesis by (rule calm)
next
  case (RRemove c w cl)
  then have e: "pc' = RClose c w cl" "g' = remove_tools c g" using assms by (simp_all add: global_act_def reconnect_act_def)
  have "calm pc g pc' g" unfolding e RRemove by (rule calm_same) (simp_all add: pc_views)
  then have "calm pc g pc' g'" by (rule calm_rest) (simp_all add: e remove_tools_def)
  then show thesis by (rule calm)
next
  case (RClose c w cl)
  then have e: "pc' = Conn c (ThenFinish w)" "g' = close_client cl g" using assms by (simp_all add: global_act_def reconnect_act_def)
  have "calm pc g pc' g" unfolding e RClose by (rule calm_same) (simp_all add: pc_views)
  then have "calm pc g pc' g'" by (rule calm_rest) (simp_all add: e close_client_def split: option.split)
  then show thesis by (rule calm)
next
  case (RFailed c w)
  then have e: "pc' = RFinish c w" "g' = set_conn c (\<lambda>x. x\<lparr>lastError := True\<rparr>) g" using assms by (simp_all add: global_act_def reconnect_act_def)
  have "calm pc g pc' g'" unfolding e RFailed by (rule calm_set_conn) (simp_all add: pc_views)
  then show thesis by (rule calm)
next
  case (RFinish c w)
  then show thesis using assms gives by (simp add: global_act_def reconnect_act_def)
next
  case GIdle
  then have e: "pc' = GIdle" "g' = g" using assms by (simp_all add: global_act_def)
  have "calm pc g pc' g'" unfolding e GIdle by (rule calm_same) (simp_all add: pc_views)
  then show thesis by (rule calm)
next
  case (Start cfg)
  then show thesis using assms calm calm_start by (simp add: global_act_def)
next
  case (Ping c)
  then show thesis using assms calm calm_monitor [of a pc g pc' g'] by (simp add: global_act_def pc_views)
next
  case (PingFailed c)
  then show thesis using assms calm calm_monitor [of a pc g pc' g'] by (simp add: global_act_def pc_views)
next
  case StopAll
  then show thesis using assms calm calm_stop [of pc g pc' g'] by (simp add: global_act_def pc_views)
next
  case (StopNext cs)
  then show thesis using assms calm calm_stop [of pc g pc' g'] by (simp add: global_act_def pc_views)
next
  case (StopRemove cs c cl)
  then show thesis using assms calm calm_stop [of pc g pc' g'] by (simp add: global_act_def pc_views)
next
  case (StopClose cs cl)
  then show thesis using assms calm calm_stop [of pc g pc' g'] by (simp add: global_act_def pc_views)
next
  case (Conn c k)
  then show thesis using assms calm calm_connect [of a pc g pc' g'] by (simp add: global_act_def waits_for_def locks_def)
next
  case (ConnInit c cl k)
  then show thesis using assms calm calm_connect [of a pc g pc' g'] by (simp add: global_act_def waits_for_def locks_def)
next
  case (ConnList c cl k)
  then show thesis using assms calm calm_connect [of a pc g pc' g'] by (simp add: global_act_def waits_for_def locks_def)
next
  case (ConnListing c cl k)
  then show thesis using assms calm calm_connect [of a pc g pc' g'] by (simp add: global_act_def waits_for_def locks_def)
next
  case (ConnTools c k ts)
  then show thesis using assms calm calm_connect [of a pc g pc' g'] by (simp add: global_act_def waits_for_def locks_def)
next
  case (ConnUp c k)
  then show thesis using assms calm calm_connect [of a pc g pc' g'] by (simp add: global_act_def waits_for_def locks_def)
qed

definition owns :: "(nat \<Rightarrow> global_pc) \<Rightarrow> nat \<Rightarrow> nat \<Rightarrow> nat \<Rightarrow> bool" where
  "owns pcs t c w \<longleftrightarrow> region (pcs t) = Some (c, w)"

definition global_inv :: "(nat \<Rightarrow> global_pc) \<Rightarrow> global_manager \<Rightarrow> bool" where
  "global_inv pcs g \<longleftrightarrow> servers_ok g
     \<and> (\<forall>t c w. owns pcs t c w \<longrightarrow> c < nextConn g \<and> w < nextChan g \<and> w \<notin> closedChans g \<and> recs g c = (True, Some w))
     \<and> (\<forall>s t c c' w w'. owns pcs s c w \<longrightarrow> owns pcs t c' w' \<longrightarrow> c = c' \<or> w = w' \<longrightarrow> s = t)
     \<and> (\<forall>c < nextConn g. fst (recs g c) \<longrightarrow> (\<exists>t w. owns pcs t c w))
     \<and> (\<forall>t c w. waits_for (pcs t) = Some (c, w) \<longrightarrow> w \<in> closedChans g \<or> (\<exists>s. owns pcs s c w))
     \<and> (\<forall>t c. locks (pcs t) = Some c \<longrightarrow> c < nextConn g)
     \<and> (\<forall>w \<in> closedChans g. w < nextChan g)"

lemma global_invD:
  assumes "global_inv pcs g"
  shows "servers_ok g"
    and "owns pcs t c w \<Longrightarrow> c < nextConn g" and "owns pcs t c w \<Longrightarrow> w < nextChan g" and "owns pcs t c w \<Longrightarrow> w \<notin> closedChans g"
    and "owns pcs t c w \<Longrightarrow> recs g c = (True, Some w)"
    and "owns pcs s c w \<Longrightarrow> owns pcs t c' w' \<Longrightarrow> c = c' \<or> w = w' \<Longrightarrow> s = t"
    and "c < nextConn g \<Longrightarrow> fst (recs g c) \<Longrightarrow> \<exists>t w. owns pcs t c w"
    and "waits_for (pcs t) = Some (c, w) \<Longrightarrow> w \<in> closedChans g \<or> (\<exists>s. owns pcs s c w)"
    and "locks (pcs t) = Some c \<Longrightarrow> c < nextConn g"
    and "w \<in> closedChans g \<Longrightarrow> w < nextChan g"
  using assms unfolding global_inv_def by blast+

lemma calm_inv:
  assumes inv: "global_inv pcs g" and calm: "calm (pcs t) g pc g'"
  shows "global_inv (pcs(t := pc)) g'"
proof -
  have region: "region pc = region (pcs t)" and n: "nextConn g \<le> nextConn g'" and ch: "nextChan g' = nextChan g" "closedChans g' = closedChans g"
    and old: "\<And>c. c < nextConn g \<Longrightarrow> recs g' c = recs g c"
    and new: "\<And>c. nextConn g \<le> c \<Longrightarrow> c < nextConn g' \<Longrightarrow> recs g' c = (False, None)"
    and ok: "servers_ok g'"
    and wt: "\<And>c w. waits_for pc = Some (c, w) \<Longrightarrow> waits_for (pcs t) = Some (c, w) \<or> locks (pcs t) = Some c \<and> recs g c = (True, Some w)"
    and lk: "\<And>c. locks pc = Some c \<Longrightarrow> locks (pcs t) = Some c \<or> c < nextConn g'"
    using calm global_invD(1) [OF inv] unfolding calm_def by blast+
  have o: "owns (pcs(t := pc)) s c w \<longleftrightarrow> owns pcs s c w" for s c w using region by (simp add: owns_def)
  have w: "w \<in> closedChans g \<or> (\<exists>s. owns pcs s c w)" if "waits_for ((pcs(t := pc)) s) = Some (c, w)" for s c w
  proof (cases "s = t")
    case True
    then have "waits_for pc = Some (c, w)" using that by simp
    from wt [OF this] show ?thesis
    proof
      assume "locks (pcs t) = Some c \<and> recs g c = (True, Some w)"
      then obtain s v where s: "owns pcs s c v" using global_invD(7,9) [OF inv] by fastforce
      then have "v = w" using global_invD(5) [OF inv s] \<open>locks (pcs t) = Some c \<and> recs g c = (True, Some w)\<close> by simp
      then show ?thesis using s by blast
    qed (use global_invD(8) [OF inv] in blast)
  qed (use that global_invD(8) [OF inv] in auto)
  show ?thesis
    unfolding global_inv_def o ch
  proof (intro conjI allI impI ballI)
    fix s c w assume own: "owns pcs s c w"
    show "c < nextConn g'" using global_invD(2) [OF inv own] n by simp
    show "w < nextChan g" "w \<notin> closedChans g" using global_invD(3,4) [OF inv own] by simp_all
    show "recs g' c = (True, Some w)" using global_invD(2,5) [OF inv own] old by simp
  next
    fix c assume "c < nextConn g'" "fst (recs g' c)"
    then show "\<exists>t w. owns pcs t c w" using new [of c] old [of c] global_invD(7) [OF inv, of c] by (cases "c < nextConn g") auto
  next
    fix s c assume "locks ((pcs(t := pc)) s) = Some c"
    then show "c < nextConn g'" using lk [of c] global_invD(9) [OF inv] n by (cases "s = t") fastforce+
  qed (use ok w global_invD(6,10) [OF inv] in blast)+
qed

lemma takes_inv:
  assumes inv: "global_inv pcs g" and tk: "takes c (pcs t) g pc g'"
  shows "global_inv (pcs(t := pc)) g'"
proof -
  let ?w = "nextChan g"
  have pct: "pcs t = RLock c" and free: "\<not> reconnecting (connAt g c)" and pc: "pc = RDisconnect c ?w"
    and g': "g' = (set_conn c (\<lambda>x. x\<lparr>reconnecting := True, reconnectWait := Some ?w\<rparr>) g)\<lparr>nextChan := Suc ?w\<rparr>"
    using tk by (simp_all add: takes_def)
  have c: "c < nextConn g" using global_invD(9) [OF inv, of t c] pct by (simp add: pc_views)
  have n: "nextConn g' = nextConn g" "nextChan g' = Suc ?w" "closedChans g' = closedChans g" "servers_ok g'"
    using global_invD(1) [OF inv] by (simp_all add: g')
  have r: "recs g' d = (if d = c then (True, Some ?w) else recs g d)" for d by (simp add: g')
  have o: "owns (pcs(t := pc)) s d w \<longleftrightarrow> (if s = t then d = c \<and> w = ?w else owns pcs s d w)" for s d w
    by (auto simp: owns_def pc pc_views)
  have nt: "\<not> owns pcs t d w" for d w using pct by (simp add: owns_def pc_views)
  have nc: "\<not> owns pcs s c w" for s w using global_invD(5) [OF inv, of s c w] free by (auto simp: recs_def)
  show ?thesis
    unfolding global_inv_def o n
  proof (intro conjI allI impI ballI)
    fix s d w assume own: "if s = t then d = c \<and> w = ?w else owns pcs s d w"
    show "d < nextConn g" using own c global_invD(2) [OF inv] by (auto split: if_splits)
    show "w < Suc ?w" using own global_invD(3) [OF inv] by (fastforce split: if_splits)
    show "w \<notin> closedChans g" using own global_invD(4,10) [OF inv] by (fastforce split: if_splits)
    show "recs g' d = (True, Some w)" using own nc global_invD(5) [OF inv] unfolding r by (auto split: if_splits)
  next
    fix s s' d d' w w'
    assume "if s = t then d = c \<and> w = ?w else owns pcs s d w" "if s' = t then d' = c \<and> w' = ?w else owns pcs s' d' w'" "d = d' \<or> w = w'"
    moreover have "w \<noteq> ?w" if "owns pcs s d w" for s d w using global_invD(3) [OF inv that] by simp
    ultimately show "s = s'" using nc global_invD(6) [OF inv] by (metis (full_types))
  next
    fix d assume d: "d < nextConn g" "fst (recs g' d)"
    show "\<exists>s w. if s = t then d = c \<and> w = ?w else owns pcs s d w"
    proof (cases "d = c")
      case False
      then have "fst (recs g d)" using d(2) by (simp add: r)
      then obtain s w where "owns pcs s d w" using global_invD(7) [OF inv d(1)] by blast
      moreover then have "s \<noteq> t" using nt by blast
      ultimately show ?thesis by (intro exI [of _ s] exI [of _ w]) simp
    qed auto
  next
    fix s d w assume a: "waits_for ((pcs(t := pc)) s) = Some (d, w)"
    then have "waits_for (pcs s) = Some (d, w)" by (cases "s = t") (simp_all add: pc pc_views)
    then show "w \<in> closedChans g \<or> (\<exists>s. if s = t then d = c \<and> w = ?w else owns pcs s d w)"
      using global_invD(8) [OF inv] nt by (metis (full_types))
  next
    fix s d assume "locks ((pcs(t := pc)) s) = Some d"
    then show "d < nextConn g" using global_invD(9) [OF inv, of s] by (cases "s = t") (simp_all add: pc pc_views)
  next
    fix w assume "w \<in> closedChans g"
    then show "w < Suc ?w" using global_invD(10) [OF inv] by fastforce
  qed (rule n(4))
qed

lemma gives_inv:
  assumes inv: "global_inv pcs g" and pct: "pcs t = RFinish c w"
    and g': "g' = (if reconnectWait (connAt g c) = Some w
             then (set_conn c (\<lambda>x. x\<lparr>reconnecting := False, reconnectWait := None\<rparr>) g)\<lparr>closedChans := insert w (closedChans g)\<rparr>
             else set_conn c (\<lambda>x. x\<lparr>reconnecting := False\<rparr>) g)"
  shows "global_inv (pcs(t := GIdle)) g' \<and> w \<in> closedChans g'"
proof -
  have own: "owns pcs t c w" unfolding owns_def pct by (simp add: pc_views)
  have "reconnectWait (connAt g c) = Some w" using global_invD(5) [OF inv own] unfolding recs_def by blast
  then have e: "g' = (set_conn c (\<lambda>x. x\<lparr>reconnecting := False, reconnectWait := None\<rparr>) g)\<lparr>closedChans := insert w (closedChans g)\<rparr>"
    unfolding g' by (rule if_P)
  have n: "nextConn g' = nextConn g" "nextChan g' = nextChan g" "closedChans g' = insert w (closedChans g)" "servers_ok g'"
    using global_invD(1) [OF inv] by (simp_all add: e)
  have r: "recs g' d = (if d = c then (False, None) else recs g d)" for d by (simp add: e)
  have only: "s = t" if "owns pcs s d v" "d = c \<or> v = w" for s d v by (rule global_invD(6) [OF inv that(1) own that(2)])
  have t: "d = c \<and> v = w" if "owns pcs t d v" for d v using that own unfolding owns_def by simp
  have o: "owns (pcs(t := GIdle)) s d v \<longleftrightarrow> s \<noteq> t \<and> owns pcs s d v" for s d v
    by (auto simp: owns_def pc_views)
  have "global_inv (pcs(t := GIdle)) g'"
    unfolding global_inv_def o n
  proof (intro conjI allI impI ballI)
    fix s d v assume a: "s \<noteq> t \<and> owns pcs s d v"
    show "d < nextConn g" using a global_invD(2) [OF inv, of s d v] by simp
    show "v < nextChan g" using a global_invD(3) [OF inv, of s d v] by simp
    have ne: "d \<noteq> c" "v \<noteq> w" using a only [of s d v] by blast+
    show "v \<notin> insert w (closedChans g)" using a ne global_invD(4) [OF inv, of s d v] by simp
    show "recs g' d = (True, Some v)" using a ne global_invD(5) [OF inv, of s d v] by (simp add: r)
  next
    fix d assume d: "d < nextConn g" "fst (recs g' d)"
    then have "d \<noteq> c" "fst (recs g d)" by (simp_all add: r split: if_splits)
    then obtain s v where s: "owns pcs s d v" using global_invD(7) [OF inv d(1)] by blast
    then show "\<exists>s v. s \<noteq> t \<and> owns pcs s d v" using t [of d v] \<open>d \<noteq> c\<close> by (cases "s = t") auto
  next
    fix s d v assume "waits_for ((pcs(t := GIdle)) s) = Some (d, v)"
    then have "waits_for (pcs s) = Some (d, v)" by (cases "s = t") (simp_all add: pc_views)
    then consider "v \<in> closedChans g" | s where "owns pcs s d v" using global_invD(8) [OF inv] by blast
    then show "v \<in> insert w (closedChans g) \<or> (\<exists>s. s \<noteq> t \<and> owns pcs s d v)"
    proof cases
      case (2 s)
      then show ?thesis using t [of d v] by (cases "s = t") auto
    qed simp
  next
    fix s d assume "locks ((pcs(t := GIdle)) s) = Some d"
    then show "d < nextConn g" using global_invD(9) [OF inv, of s] by (cases "s = t") (simp_all add: pc_views)
  next
    fix v assume "v \<in> insert w (closedChans g)"
    then show "v < nextChan g" using global_invD(10) [OF inv, of v] global_invD(3) [OF inv own] by auto
  next
    fix s s' d d' v v' assume "s \<noteq> t \<and> owns pcs s d v" "s' \<noteq> t \<and> owns pcs s' d' v'" "d = d' \<or> v = v'"
    then show "s = s'" using global_invD(6) [OF inv, of s d v s' d' v'] by simp
  qed (rule n(4))
  then show ?thesis using n(3) by simp
qed

lemma act_global_inv:
  assumes inv: "global_inv pcs g" and s: "global_act a (pcs t) g = (pc, g')"
  shows "global_inv (pcs(t := pc)) g'"
  using s
proof (cases rule: step_kinds)
  case calm
  then show ?thesis by (rule calm_inv [OF inv])
next
  case (takes c)
  then show ?thesis by (rule takes_inv [OF inv])
next
  case (gives c w)
  then show ?thesis using gives_inv [OF inv] by blast
qed

lemma reachable_global_inv: "global_reachable pcs g \<Longrightarrow> global_inv pcs g"
proof (induction rule: global_reachable.induct)
  case (global_init cs)
  show ?case by (simp add: global_inv_def servers_ok_def owns_def pc_views)
next
  case (global_begin pcs g t pc)
  have "region pc = None" "waits_for pc = None" "locks pc = None"
    using global_begin.hyps(3) by (cases pc; simp add: global_begins_def pc_views)+
  then have "calm (pcs t) g pc g" using global_begin.hyps(2) by (intro calm_same) (simp_all add: pc_views)
  then show ?case by (rule calm_inv [OF global_begin.IH])
next
  case (global_step pcs g a t pc g')
  then show ?case by (blast intro: act_global_inv)
qed

text \<open>How many steps a reconnection has left at most.\<close>

definition steps_left :: "global_pc \<Rightarrow> nat" where
  "steps_left pc = (case pc of RDisconnect c w \<Rightarrow> 10 | RRemove c w cl \<Rightarrow> 9 | RClose c w cl \<Rightarrow> 8 | Conn c k \<Rightarrow> 7 | ConnInit c cl k \<Rightarrow> 6
     | ConnList c cl k \<Rightarrow> 5 | ConnListing c cl k \<Rightarrow> 4 | ConnTools c k ts \<Rightarrow> 3 | ConnUp c k \<Rightarrow> 2 | RFailed c w \<Rightarrow> 2 | RFinish c w \<Rightarrow> 1 | _ \<Rightarrow> 0)"

fun run_alone :: "nat \<Rightarrow> lib_answer list \<Rightarrow> (nat \<Rightarrow> global_pc) \<times> global_manager \<Rightarrow> (nat \<Rightarrow> global_pc) \<times> global_manager" where
  "run_alone t [] s = s"
| "run_alone t (a # as) (pcs, g) = (case global_act a (pcs t) g of (pc, g') \<Rightarrow> run_alone t as (pcs(t := pc), g'))"

lemma region_progress:
  assumes "region pc = Some (c, w)" and "global_act a pc g = (pc', g')"
  shows "steps_left pc > 0 \<and> (pc = RFinish c w \<or> region pc' = Some (c, w) \<and> steps_left pc' < steps_left pc)"
proof (cases pc)
  case (Conn d k)
  then show ?thesis using assms by (cases k) (auto simp: global_acts region_def steps_left_def failed_def split: if_splits)
next
  case (ConnInit d cl k)
  then show ?thesis using assms by (cases k) (auto simp: global_acts region_def steps_left_def failed_def split: if_splits)
next
  case (ConnList d cl k)
  then show ?thesis using assms by (cases k) (auto simp: global_acts region_def steps_left_def Let_def split: option.splits)
next
  case (ConnListing d cl k)
  then show ?thesis using assms by (cases k) (auto simp: global_acts region_def steps_left_def Let_def split: option.splits)
next
  case (ConnTools d k ts)
  then show ?thesis using assms by (cases k) (auto simp: global_acts region_def steps_left_def)
next
  case (ConnUp d k)
  then show ?thesis using assms by (cases k) (auto simp: global_acts region_def steps_left_def)
qed (use assms in \<open>auto simp: global_acts region_def steps_left_def disconnect_conn_def split: if_splits\<close>)

lemma closed_stays:
  assumes "global_act a pc g = (pc', g')"
  shows "closedChans g \<subseteq> closedChans g'"
  using assms
proof (cases rule: step_kinds)
  case calm
  then show ?thesis by (simp add: calm_def)
next
  case (takes c)
  then show ?thesis by (simp add: takes_def)
next
  case (gives c w)
  then show ?thesis by auto
qed

lemma closed_stays_run: "closedChans g \<subseteq> closedChans (snd (run_alone t as (pcs, g)))"
proof (induction as arbitrary: pcs g)
  case (Cons a as)
  obtain pc g' where s: "global_act a (pcs t) g = (pc, g')" by fastforce
  have "closedChans g' \<subseteq> closedChans (snd (run_alone t as (pcs(t := pc), g')))" by (rule Cons)
  then show ?case using closed_stays [OF s] by (simp add: s del: fun_upd_apply)
qed simp

lemma region_ends:
  assumes "global_inv pcs g" and "region (pcs t) = Some (c, w)" and "steps_left (pcs t) \<le> length as"
  shows "w \<in> closedChans (snd (run_alone t as (pcs, g)))"
  using assms
proof (induction as arbitrary: pcs g)
  case Nil
  then show ?case using region_progress [of "pcs t" c w undefined g] by (metis gr_implies_not_zero list.size(3) le_zero_eq surj_pair)
next
  case (Cons a as)
  obtain pc g' where s: "global_act a (pcs t) g = (pc, g')" by fastforce
  show ?case
  proof (cases "pcs t = RFinish c w")
    case True
    then have "w \<in> closedChans g'" using gives_inv [OF Cons.prems(1) True] s by (auto simp: global_act_def reconnect_act_def)
    then have "w \<in> closedChans (snd (run_alone t as (pcs(t := pc), g')))" by (rule subsetD [OF closed_stays_run])
    then show ?thesis by (simp add: s del: fun_upd_apply)
  next
    case False
    then have "region pc = Some (c, w)" "steps_left pc \<le> length as"
      using region_progress [OF Cons.prems(2) s] Cons.prems(3) by auto
    then have "w \<in> closedChans (snd (run_alone t as (pcs(t := pc), g')))"
      using Cons.IH [OF act_global_inv [OF Cons.prems(1) s]] by (simp add: fun_upd_same del: fun_upd_apply)
    then show ?thesis by (simp add: s del: fun_upd_apply)
  qed
qed

text \<open>C20: Reconnections do not overlap, and nobody waits for good. At any moment at most one goroutine reconnects a
  connection; whoever waits for it waits for a channel that is closed already or that this goroutine closes within ten
  steps of its own, whatever the server answers, as long as the calls of the library return.\<close>

theorem reconnections_do_not_overlap:
  assumes "global_reachable pcs g"
  shows "(\<forall>s t c w w'. owns pcs s c w \<longrightarrow> owns pcs t c w' \<longrightarrow> s = t)
     \<and> (\<forall>t c w. pcs t = RWait c w \<longrightarrow> w \<in> closedChans g
          \<or> (\<exists>s. owns pcs s c w \<and> (\<forall>as. length as = 10 \<longrightarrow> w \<in> closedChans (snd (run_alone s as (pcs, g))))))"
proof (intro conjI allI impI)
  have inv: "global_inv pcs g" by (rule reachable_global_inv [OF assms])
  show "s = t" if "owns pcs s c w" "owns pcs t c w'" for s t c w w' using global_invD(6) [OF inv that] by blast
  fix t c w assume "pcs t = RWait c w"
  then have "w \<in> closedChans g \<or> (\<exists>s. owns pcs s c w)" using global_invD(8) [OF inv, of t c w] by (simp add: pc_views)
  then show "w \<in> closedChans g \<or> (\<exists>s. owns pcs s c w \<and> (\<forall>as. length as = 10 \<longrightarrow> w \<in> closedChans (snd (run_alone s as (pcs, g)))))"
  proof
    assume "\<exists>s. owns pcs s c w"
    then obtain s where s: "owns pcs s c w" by blast
    have "steps_left (pcs s) \<le> 10" by (cases "pcs s") (simp_all add: steps_left_def)
    then have "w \<in> closedChans (snd (run_alone s as (pcs, g)))" if "length as = 10" for as
      using region_ends [OF inv] s that by (simp add: owns_def)
    then show ?thesis using s by blast
  qed simp
qed


section \<open>Concrete runs\<close>

datatype global_event = GBegin nat global_pc | GAct nat lib_answer

fun global_exec :: "global_event list \<Rightarrow> (nat \<Rightarrow> global_pc) \<times> global_manager \<Rightarrow> ((nat \<Rightarrow> global_pc) \<times> global_manager) option" where
  "global_exec [] s = Some s"
| "global_exec (GBegin t pc # es) (pcs, g) =
     (if pcs t = GIdle \<and> global_begins g pc then global_exec es (pcs(t := pc), g) else None)"
| "global_exec (GAct t a # es) (pcs, g) = (case global_act a (pcs t) g of (pc, g) \<Rightarrow> global_exec es (pcs(t := pc), g))"

lemma global_exec_reachable:
  "global_reachable pcs g \<Longrightarrow> global_exec es (pcs, g) = Some (pcs', g') \<Longrightarrow> global_reachable pcs' g'"
proof (induction es "(pcs, g)" arbitrary: pcs g rule: global_exec.induct)
  case (2 t pc es pcs g)
  then show ?case by (auto intro: global_begin split: if_splits)
next
  case (3 t a es pcs g)
  then show ?case by (auto intro: global_step split: prod.splits)
qed simp

definition some_server :: server_config where
  "some_server = \<lparr>cfgName = runes ''s'', cfgType = runes ''sse'', Url = runes ''u'', SSEUrl = [], Enabled = True, AllowedTools = []\<rparr>"

definition no_servers :: global_manager where
  "no_servers = \<lparr>gServers = [], gTools = Map.empty, connAt = \<lambda>_. new_conn some_server, nextConn = 0, nextLibClient = 0,
     closedClients = {}, nextChan = 0, closedChans = {}\<rparr>"

definition works :: lib_answer where
  "works = \<lparr>builds = True, initializes = True, toolNames = Some [runes ''f''], pings = True\<rparr>"

definition global_outcome :: "global_event list \<Rightarrow> ((nat \<Rightarrow> global_pc) \<times> global_manager \<Rightarrow> bool) \<Rightarrow> bool" where
  "global_outcome es P = (case global_exec es (\<lambda>_. GIdle, no_servers) of None \<Rightarrow> False | Some s \<Rightarrow> P s)"

lemma global_outcomeD: "global_outcome es P \<Longrightarrow> \<exists>pcs g. global_reachable pcs g \<and> P (pcs, g)"
  using global_exec_reachable [OF global_init [of "\<lambda>_. new_conn some_server", folded no_servers_def], of es]
  by (fastforce simp: global_outcome_def split: option.splits)

definition two_reconnect :: "global_event list" where
  "two_reconnect = GBegin 0 (Start some_server) # replicate 7 (GAct 0 works)
     @ [GBegin 1 (RFind (runes ''s'')), GAct 1 works, GAct 1 works, GBegin 2 (RFind (runes ''s'')), GAct 2 works, GAct 2 works]"

theorem reconnections_do_not_overlap_witness:
  "\<exists>pcs g. global_reachable pcs g \<and> pcs 2 = RWait 0 0
     \<and> (0 \<in> closedChans g \<or> (\<exists>s. owns pcs s 0 0 \<and> (\<forall>as. length as = 10 \<longrightarrow> 0 \<in> closedChans (snd (run_alone s as (pcs, g))))))"
proof -
  have "global_outcome two_reconnect (\<lambda>(pcs, g). pcs 2 = RWait 0 0)" by code_simp
  from global_outcomeD [OF this] obtain pcs g where "global_reachable pcs g" "pcs 2 = RWait 0 0" by auto
  then show ?thesis using reconnections_do_not_overlap [of pcs g] by blast
qed

section \<open>Stopping while a server is being connected\<close>

definition stopped_while_connecting :: "global_event list" where
  "stopped_while_connecting = GBegin 0 (Start some_server) # replicate 4 (GAct 0 works)
     @ GBegin 1 StopAll # replicate 5 (GAct 1 works) @ replicate 3 (GAct 0 works)"

text \<open>Fact: Stopping the manager while a server's tools are listed does not last: the goroutine that connects goes on, and
  afterwards, with everything idle and no server left, the table of tools offers a tool whose client is closed, and the
  connection counts as connected.\<close>

theorem stop_leaves_tools:
  "\<exists>pcs g k x. global_reachable pcs g \<and> pcs 0 = GIdle \<and> pcs 1 = GIdle \<and> gServers g = []
     \<and> gTools g k = Some x \<and> toolClient x \<in> closedClients g \<and> connConnected (connAt g 0)"
proof -
  have "global_outcome stopped_while_connecting
      (\<lambda>(pcs, g). pcs 0 = GIdle \<and> pcs 1 = GIdle \<and> gServers g = [] \<and> connConnected (connAt g 0)
         \<and> (case gTools g (runes ''s_f'') of None \<Rightarrow> False | Some x \<Rightarrow> toolClient x \<in> closedClients g))"
    by code_simp
  from global_outcomeD [OF this] obtain pcs g x where "global_reachable pcs g" "pcs 0 = GIdle" "pcs 1 = GIdle" "gServers g = []"
      "connConnected (connAt g 0)" "gTools g (runes ''s_f'') = Some x" "toolClient x \<in> closedClients g"
    by (auto split: option.splits)
  then show ?thesis by blast
qed

end
