(* ===== verification/Spec2Isabelle.thy ===== *)
theory Spec2Isabelle
  imports Sentences Stream_Transform Output_Segmenter Queue Resource_Pool Async_Executor Hooks
    Turn_Metrics Dialogue Client_State Mqtt_Udp_Adapter Ogg_Opus Openclaw_Modes Media_Control Media_Navigation Media_Source Tts_Metrics Tts_Callbacks Tts_Speech Tts_Clear Llm_Turn Mcp_Tools Mcp_Global
begin

text \<open>
  A verification library for the voice-assistant server of this repository: a Go server that holds conversations with
  small devices. A device sends Opus audio over a web socket, or over MQTT for control and UDP for audio; the server
  recognises the speech, asks a language model, runs the tools that the model calls, and speaks the answer back.

  The parts and how they interact. The transports (\<^verbatim>\<open>internal/app/server/mqtt_udp\<close>) keep one connection and one UDP session
  for each device and hand messages to a chat session (\<^verbatim>\<open>internal/app/server/chat\<close>). The session keeps the client's state
  (\<^verbatim>\<open>internal/data/client\<close>): audio on its way to recognition, voice activity, contexts, the dialogue. A recognised text
  passes the gate of the media player, the hooks (\<^verbatim>\<open>internal/pkg/hooks\<close>, \<^verbatim>\<open>internal/domain/chat/hooks\<close>) and, when the device
  is in that mode, the OpenClaw manager (\<^verbatim>\<open>internal/domain/openclaw\<close>); otherwise a turn of the language model begins
  (\<^verbatim>\<open>llm.go\<close>, \<^verbatim>\<open>tool.go\<close>): a request is put together from the dialogue, the answer streams through a pipeline of
  transformers (\<^verbatim>\<open>internal/domain/chat/streamtransform\<close>, \<^verbatim>\<open>plugins/output_segmenter.go\<close>) that cuts it into sentences, tools
  are run, further rounds are requested. Sentences go to the speech queue (\<^verbatim>\<open>tts.go\<close>), its consumer has a provider from
  the resource pool (\<^verbatim>\<open>internal/util/resource_pool.go\<close>) make audio of them, and the frames go through the audio queue to the
  device at the pace of its playback. Music and other audio of tools come from the media player (\<^verbatim>\<open>media_player.go\<close>).

  Conventions. A Go \<^verbatim>\<open>struct\<close> is a record, an interface with a closed set of implementations a datatype. Text is a list of
  runes, bytes are 8-bit words; counters that can wrap are words of their width, other numbers \<open>nat\<close> or \<open>int\<close>. A panic,
  a slice out of range and a loop that never ends are the value \<open>None\<close>. Pointers that the code compares, or through which
  it shares state, are numbers into a store that only grows. Locked sections, atomic operations and channel operations
  are single steps; a method that takes a lock several times, or that can block, is a program counter whose steps any
  goroutine may interleave, and the theorems on such systems are invariants of the states reachable by any sequence of
  steps. Clocks, random bytes, networks, providers, JSON and the tools are arguments of the definitions that use them;
  what is assumed of them is a named hypothesis of the theorem, with an instance that meets it beside it.

  \<^bold>\<open>Shared vocabulary.\<close> \<open>Prelude\<close>: runes, bytes, Go's string functions, index loops. \<open>Byte_Codec\<close>: \<^verbatim>\<open>encoding/binary\<close> and
  \<^verbatim>\<open>encoding/hex\<close>. \<open>Go_Channel\<close>: buffered channels and the locale \<open>fifo_channel\<close> of the laws their users rely on, interpreted
  for the channel value. \<open>Priority_Registry\<close>: the locale of registration by priority, interpreted for the registry of
  transformers and for the interceptors and the observers of the hook hub.

  \<^bold>\<open>Queues, pools, hooks.\<close> \<open>Queue\<close> (\<^verbatim>\<open>util/queue.go\<close>): the generic queue as interleaved steps; what goes in comes out once
  and in order, and a push fails as closed only when a close came first. \<open>Resource_Pool\<close> (\<^verbatim>\<open>util/resource_pool.go\<close>): no resource is
  handed out twice or while idle, none is lost, the size is bounded; when \<^verbatim>\<open>Resize\<close> returns. \<open>Async_Executor\<close> and \<open>Hooks\<close>
  (\<^verbatim>\<open>pkg/hooks/hub.go\<close>, \<^verbatim>\<open>chat/hooks\<close>): the executor's queue is bounded and first-in first-out; what an emission tells the observers; the locale
  \<open>task_queue\<close> is the executor as the hub sees it. \<open>Turn_Metrics\<close> (\<^verbatim>\<open>statistic_plugin.go\<close>): timestamps of turns.

  \<^bold>\<open>Text and output.\<close> \<open>Sentences\<close> (\<^verbatim>\<open>util/sentence.go\<close>): no text is invented or repeated, a specification of the split
  point. \<open>Stream_Transform\<close> (\<^verbatim>\<open>streamtransform\<close>): the pipeline and the locale \<open>lossless_transformer\<close>; \<open>Output_Segmenter\<close> interprets
  it and shows that a stream of deltas leaves the pipeline without loss, duplication or reordering.

  \<^bold>\<open>Client state and turns.\<close> \<open>Client_State\<close> (\<^verbatim>\<open>data/client\<close>): audio of recognition, contexts of a conversation, voice counters.
  \<open>Dialogue\<close> (\<^verbatim>\<open>client.go\<close>): the history, and \<^verbatim>\<open>AlignToolMessages\<close>, after which calls and results of tools match.
  \<open>Llm_Request\<close>: what \<^verbatim>\<open>GetMessages\<close> of \<^verbatim>\<open>llm.go\<close> sends to the model is well formed. \<open>Tool_Calls\<close>: the executor of
  \<^verbatim>\<open>tool.go\<close>. \<open>Llm_Turn\<close>: \<^verbatim>\<open>handleLLMResponse\<close> with \<^verbatim>\<open>handleToolCallResponse\<close>, over any number of rounds, leaves a sound
  history, and what the next round is told.

  \<^bold>\<open>Speech output\<close> (\<^verbatim>\<open>tts.go\<close>). \<open>Tts_Metrics\<close>: stages of a turn are reported once, in order. \<open>Tts_Sender\<close>: the audio queue
  of a session, two goroutines and their callers; \<open>Tts_Order\<close>: nothing stale is sent after a synchronous interruption, frames are
  paced; \<open>Tts_Callbacks\<close>: starts and stops alternate, final callbacks are called once. \<open>Tts_Worker\<close>, \<open>Tts_Speech\<close>: the
  consumer of an item; its provider is given back, its callback settled, its frames queued in order. \<open>Tts_Queue\<close>,
  \<open>Tts_Clear\<close>: callers, clears and consumer of the speech queue.

  \<^bold>\<open>Media player.\<close> \<open>Media_Player\<close>, \<open>Media_Playback\<close>: the runtime of a device and its playing goroutines; its output has one
  owner and its state is consistent. \<open>Media_Control\<close>, \<open>Media_Navigation\<close>: replaced playbacks are harmless and end; moving
  through a playlist. \<open>Media_Gate\<close>: control by voice. \<open>Media_Source\<close>: a resource is read completely.

  \<^bold>\<open>Transports.\<close> \<open>Udp_Session\<close> (\<^verbatim>\<open>udp.go\<close>): packets and their encryption. \<open>Udp_Server\<close> (\<^verbatim>\<open>udp_server.go\<close>): the tables of
  sessions, with the locale \<open>session_service\<close> that it offers to the adapter. \<open>Mqtt_Udp_Conn\<close>, \<open>Mqtt_Udp_Adapter\<close>: connections,
  sessions and the life cycle of devices; no session leaks. \<open>Ogg_Opus\<close>: packets wrapped into pages read back.

  \<^bold>\<open>MCP tools\<close> (\<^verbatim>\<open>internal/domain/mcp\<close>). \<open>Mcp_Sessions\<close> (\<^verbatim>\<open>device_manager.go\<close>, \<^verbatim>\<open>mcp_pool.go\<close>, \<^verbatim>\<open>mcp_client.go\<close>): the sessions
  of devices, their clients and the pool, as goroutines that bind, close, lose, refresh and sweep; no connected runtime is left
  without an owner. \<open>Mcp_Tools\<close>: the tables of tools, what a device is offered and what a call by name reaches. \<open>Mcp_Global\<close>
  (\<^verbatim>\<open>global_manage.go\<close>): end points of servers, and reconnections, which do not overlap and do not leave anybody waiting.
  \<^bold>\<open>OpenClaw\<close> (\<^verbatim>\<open>openclaw/manager.go\<close>). \<open>Openclaw_Text\<close>: normal form of speech text. \<open>Openclaw_Offline\<close>: messages kept for
  absent devices. \<open>Openclaw_Manager\<close>: streamed answers; text is conserved, start and end are sent once. \<open>Openclaw_Modes\<close>: the
  manager refines an abstract specification of agents and modes.

  Bounds and fuel. The loops of the code are recursions on the list they consume or have a measure; no fuel is used where
  the code's loop ends by itself. Where the environment drives a loop (channels, connections, clocks) the model is a
  step relation or consumes the list of the environment's answers, and its result for the end of that list is
  \<open>LoopWaiting\<close> or the like: the goroutine is still waiting. Where a loop may not end (\<open>sender_emit\<close> of the UDP server,
  \<open>Resize\<close> of the pool) the result is an option or an iteration, and a theorem says exactly when it returns. Times are far below the bounds of
  \<^verbatim>\<open>int64\<close> nanoseconds, sizes of buffers and playlists below those of \<^verbatim>\<open>int\<close>.

  Not modelled, and why. The clients of speech, language, memory and retrieval services (\<^verbatim>\<open>internal/domain/asr\<close>, \<^verbatim>\<open>tts\<close>,
  \<^verbatim>\<open>llm\<close>, \<^verbatim>\<open>vad\<close>, \<^verbatim>\<open>memory\<close>, \<^verbatim>\<open>rag\<close>, \<^verbatim>\<open>speaker\<close>) wrap network protocols and third-party libraries; what the core uses of them is a
  parameter. The management backend (\<^verbatim>\<open>manager/backend\<close>) is a web application: handlers that pass requests to a
  relational database through an ORM. The configuration loaders, the broker and the web-socket servers, logging and \<^verbatim>\<open>main\<close> are
  input and output. Of the chat package, the orchestration in \<^verbatim>\<open>chat.go\<close>, \<^verbatim>\<open>session.go\<close> and \<^verbatim>\<open>asr.go\<close>, which connects
  the modelled parts, is modelled only as far as said above; audio resampling and the Opus codec are third-party or floating-point
  arithmetic. The tests and the example clients are not part of the program.
\<close>

end
